(* ===== verification/Prelude.thy ===== *)
theory Prelude
  imports Main "HOL-Library.Multiset"
begin

text \<open>
  Shared foundations of the development.

  \<^item> The error values of the program: \<open>app_error\<close> mirrors the constructors of
    \<^verbatim>\<open>pkg/apperrors\<close>, with the HTTP status and the sentinel comparison of that
    package.
  \<^item> The fragments of the Go language and its standard library that the sources use:
    64-bit integer wrap-around, truncating division, \<^verbatim>\<open>strconv.Itoa\<close> and
    \<^verbatim>\<open>strconv.Atoi\<close>.
  \<^item> Generic list lemmas and the named collections the component theories extend.
\<close>

named_theorems domain_consts \<open>the named constants of the domain package\<close>
named_theorems tx_defs \<open>the combinators of the transaction model\<close>
named_theorems tx_runs \<open>the successful runs of the combinators\<close>
named_theorems tx_rules \<open>proof rules of the transaction model\<close>
named_theorems tx_keep \<open>rules for programs that keep an invariant\<close>

section \<open>Errors\<close>

text \<open>
  A plain Go error value. \<open>PgError\<close> carries the SQLSTATE of a PostgreSQL error,
  \<open>ErrNoRows\<close> is \<^verbatim>\<open>pgx.ErrNoRows\<close>, \<open>ContextError\<close> is the error of a cancelled
  context, \<open>OtherError\<close> is any other error.
\<close>
datatype go_error =
    PgError string
  | ErrNoRows
  | ContextError
  | OtherError string

text \<open>
  The application errors. \<open>Raw\<close> is a Go error that no constructor of the package wraps.
\<close>
datatype app_error =
    NotFound string
  | Unauthorised string
  | Forbidden string
  | Conflict string
  | Validation string
  | RequestBodyTooLarge
  | BadRequest string
  | Internal go_error
  | RateLimited string
  | Unavailable string
  | UpstreamError string go_error
  | SessionExpired string
  | SessionRevoked string
  | Raw go_error

type_synonym 'a result = "app_error + 'a"

datatype Code =
    CodeNotFound | CodeUnauthorised | CodeForbidden | CodeConflict | CodeValidation
  | CodeRequestBodyTooLarge | CodeBadRequest | CodeInternal | CodeRateLimited
  | CodeServiceUnavailable | CodeUpstreamError | CodeSessionExpired | CodeSessionRevoked

fun error_code :: "app_error \<Rightarrow> Code option" where
  "error_code (NotFound _) = Some CodeNotFound"
| "error_code (Unauthorised _) = Some CodeUnauthorised"
| "error_code (Forbidden _) = Some CodeForbidden"
| "error_code (Conflict _) = Some CodeConflict"
| "error_code (Validation _) = Some CodeValidation"
| "error_code RequestBodyTooLarge = Some CodeRequestBodyTooLarge"
| "error_code (BadRequest _) = Some CodeBadRequest"
| "error_code (Internal _) = Some CodeInternal"
| "error_code (RateLimited _) = Some CodeRateLimited"
| "error_code (Unavailable _) = Some CodeServiceUnavailable"
| "error_code (UpstreamError _ _) = Some CodeUpstreamError"
| "error_code (SessionExpired _) = Some CodeSessionExpired"
| "error_code (SessionRevoked _) = Some CodeSessionRevoked"
| "error_code (Raw _) = None"

fun HTTPStatus :: "app_error \<Rightarrow> int option" where
  "HTTPStatus (NotFound _) = Some 404"
| "HTTPStatus (Unauthorised _) = Some 401"
| "HTTPStatus (Forbidden _) = Some 403"
| "HTTPStatus (Conflict _) = Some 409"
| "HTTPStatus (Validation _) = Some 422"
| "HTTPStatus RequestBodyTooLarge = Some 413"
| "HTTPStatus (BadRequest _) = Some 400"
| "HTTPStatus (Internal _) = Some 500"
| "HTTPStatus (RateLimited _) = Some 429"
| "HTTPStatus (Unavailable _) = Some 503"
| "HTTPStatus (UpstreamError _ _) = Some 502"
| "HTTPStatus (SessionExpired _) = Some 401"
| "HTTPStatus (SessionRevoked _) = Some 401"
| "HTTPStatus (Raw _) = None"

text \<open>The cause found by \<^verbatim>\<open>errors.As\<close> along the \<^verbatim>\<open>Unwrap\<close> chain.\<close>
fun Unwrap :: "app_error \<Rightarrow> go_error option" where
  "Unwrap (Internal e) = Some e"
| "Unwrap (UpstreamError _ e) = Some e"
| "Unwrap (Raw e) = Some e"
| "Unwrap _ = None"

fun is_ok :: "'e + 'a \<Rightarrow> bool" where
  "is_ok (Inr _) = True"
| "is_ok (Inl _) = False"

lemma is_ok_iff: "is_ok r \<longleftrightarrow> (\<exists>a. r = Inr a)"
  by (cases r) auto

lemma is_ok_if [simp]: "is_ok (if b then x else y) = (if b then is_ok x else is_ok y)"
  by simp

section \<open>Go integers\<close>

definition MaxInt :: int where "MaxInt = 2 ^ 63 - 1"

text \<open>The value a Go \<^verbatim>\<open>int\<close> keeps of a mathematical result: two's complement, 64 bits.\<close>
definition go64 :: "int \<Rightarrow> int" where
  "go64 n = (n + 2 ^ 63) mod 2 ^ 64 - 2 ^ 63"

definition in_int64 :: "int \<Rightarrow> bool" where
  "in_int64 n \<longleftrightarrow> - (2 ^ 63) \<le> n \<and> n \<le> MaxInt"

definition in_int32 :: "int \<Rightarrow> bool" where
  "in_int32 n \<longleftrightarrow> - (2 ^ 31) \<le> n \<and> n < 2 ^ 31"

lemma go64_id [simp]: "in_int64 n \<Longrightarrow> go64 n = n"
  by (simp add: go64_def in_int64_def MaxInt_def)

lemma go64_range: "in_int64 (go64 n)"
  by (simp add: go64_def in_int64_def MaxInt_def)

text \<open>Go's integer division truncates toward zero.\<close>
definition go_quot :: "int \<Rightarrow> int \<Rightarrow> int" where
  "go_quot a b = sgn a * sgn b * (\<bar>a\<bar> div \<bar>b\<bar>)"

definition go_rem :: "int \<Rightarrow> int \<Rightarrow> int" where
  "go_rem a b = a - b * go_quot a b"

lemma go_quot_nonneg: "0 \<le> a \<Longrightarrow> 0 < b \<Longrightarrow> go_quot a b = a div b"
  by (cases "a = 0") (simp_all add: go_quot_def)

lemma go_rem_nonneg: "0 \<le> a \<Longrightarrow> 0 < b \<Longrightarrow> go_rem a b = a mod b"
  by (simp add: go_rem_def go_quot_nonneg minus_mult_div_eq_mod)

section \<open>Decimal strings\<close>

definition is_digit :: "char \<Rightarrow> bool" where
  "is_digit c \<longleftrightarrow> 48 \<le> (of_char c :: nat) \<and> (of_char c :: nat) \<le> 57"

definition digit_char :: "nat \<Rightarrow> char" where
  "digit_char d = char_of (48 + d)"

definition digit_val :: "char \<Rightarrow> nat" where
  "digit_val c = of_char c - 48"

fun nat_digits :: "nat \<Rightarrow> string" where
  "nat_digits n = (if n < 10 then [digit_char n] else nat_digits (n div 10) @ [digit_char (n mod 10)])"

declare nat_digits.simps [simp del]

text \<open>\<^verbatim>\<open>strconv.Itoa\<close>.\<close>
definition Itoa :: "int \<Rightarrow> string" where
  "Itoa n = (if n < 0 then CHR ''-'' # nat_digits (nat (- n)) else nat_digits (nat n))"

fun digits_val :: "nat \<Rightarrow> string \<Rightarrow> nat" where
  "digits_val acc [] = acc"
| "digits_val acc (c # cs) = digits_val (10 * acc + digit_val c) cs"

text \<open>
  \<^verbatim>\<open>strconv.Atoi\<close>: an optional sign, then one or more decimal digits; a value outside the
  64-bit range is an error. \<open>None\<close> stands for a non-nil error.
\<close>
definition Atoi :: "string \<Rightarrow> int option" where
  "Atoi s = (let (neg, ds) = (case s of
        [] \<Rightarrow> (False, [])
      | c # cs \<Rightarrow> if c = CHR ''-'' then (True, cs) else if c = CHR ''+'' then (False, cs) else (False, s));
      v = int (digits_val 0 ds); n = (if neg then - v else v)
    in if ds \<noteq> [] \<and> list_all is_digit ds \<and> in_int64 n then Some n else None)"

lemma is_digit_digit_char: "d < 10 \<Longrightarrow> is_digit (digit_char d)"
  by (simp add: is_digit_def digit_char_def)

lemma digit_val_digit_char [simp]: "d < 10 \<Longrightarrow> digit_val (digit_char d) = d"
  by (simp add: digit_val_def digit_char_def)

lemma nat_digits_nonempty [simp]: "nat_digits n \<noteq> []"
  by (subst nat_digits.simps) simp

lemma list_all_nat_digits [simp]: "list_all is_digit (nat_digits n)"
proof (induction n rule: nat_digits.induct)
  case (1 n)
  then show ?case by (subst nat_digits.simps) (auto simp: is_digit_digit_char)
qed

lemma digits_val_append: "digits_val acc (xs @ ys) = digits_val (digits_val acc xs) ys"
  by (induction xs arbitrary: acc) auto

lemma digits_val_nat_digits [simp]: "digits_val 0 (nat_digits n) = n"
proof (induction n rule: nat_digits.induct)
  case (1 n)
  then show ?case by (subst nat_digits.simps) (auto simp: digits_val_append)
qed

lemma not_digit_sign [simp]: "\<not> is_digit (CHR ''-'')" "\<not> is_digit (CHR ''+'')"
  by (simp_all add: is_digit_def)

lemma nat_digits_hd_not_sign:
  "nat_digits n = c # cs \<Longrightarrow> c \<noteq> CHR ''-'' \<and> c \<noteq> CHR ''+''"
  using list_all_nat_digits [of n] by auto

lemma Itoa_nonempty [simp]: "Itoa n \<noteq> []"
  by (simp add: Itoa_def)

lemma Atoi_Itoa:
  assumes "in_int64 n"
  shows "Atoi (Itoa n) = Some n"
proof (cases "n < 0")
  case True
  then show ?thesis using assms by (simp add: Itoa_def Atoi_def)
next
  case False
  obtain c cs where c: "nat_digits (nat n) = c # cs" by (cases "nat_digits (nat n)") auto
  have "Atoi (nat_digits (nat n)) = Some n"
    using False assms nat_digits_hd_not_sign [OF c] list_all_nat_digits [of "nat n"]
      digits_val_nat_digits [of "nat n"] by (simp add: Atoi_def c)
  then show ?thesis using False by (simp add: Itoa_def)
qed

section \<open>Lists\<close>

lemma sum_list_map_replace:
  fixes f :: "'a \<Rightarrow> int"
  assumes "i < length xs"
  shows "(\<Sum>x\<leftarrow>xs[i := y]. f x) = (\<Sum>x\<leftarrow>xs. f x) - f (xs ! i) + f y"
  using assms by (induction xs arbitrary: i) (auto simp: nth_Cons split: nat.splits)

lemma filter_all_neg [simp]: "(\<forall>x\<in>set xs. \<not> P x) \<Longrightarrow> filter P xs = []"
  by (simp add: filter_empty_conv)

text \<open>What factors through a function is equal on lists with equal images.\<close>
lemma map_factor:
  assumes "map g xs = map g ys" "\<And>p q. g p = g q \<Longrightarrow> f p = f q"
  shows "map f xs = map f ys"
proof (rule nth_equalityI)
  show len: "length (map f xs) = length (map f ys)" using map_eq_imp_length_eq [OF assms(1)] by simp
  fix i assume i: "i < length (map f xs)"
  then have "g (xs ! i) = g (ys ! i)" using arg_cong [OF assms(1), of "\<lambda>l. l ! i"] len by simp
  then have "f (xs ! i) = f (ys ! i)" by (rule assms(2))
  then show "map f xs ! i = map f ys ! i" using i len by simp
qed

lemma set_factor:
  assumes "map g xs = map g ys" "\<And>p q. g p = g q \<Longrightarrow> f p = f q"
  shows "(\<forall>x\<in>set xs. f x) = (\<forall>x\<in>set ys. f x)"
proof -
  have "list_all id (map f xs) = list_all id (map f ys)" using map_factor [OF assms] by simp
  then show ?thesis by (simp add: list_all_iff)
qed

text \<open>A lookup by a unique key.\<close>
lemma find_unique_row: "distinct (map k rows) \<Longrightarrow> r \<in> set rows \<Longrightarrow> find (\<lambda>x. k x = k r) rows = Some r"
  by (induction rows) (auto simp: image_iff)

end
