(* ===== verification/GoRegexp.thy ===== *)
theory GoRegexp
  imports Prelude
begin

text \<open>
  The part of Go's \<^verbatim>\<open>regexp\<close> package that the sources use: anchored expressions over
  character classes, sequencing and repetition. Go strings are byte sequences; the classes
  that occur are ASCII or complements of ASCII sets, so matching byte by byte agrees with
  matching rune by rune. \<open>MatchString\<close> decides a match with Brzozowski derivatives and is
  proved equivalent to the declarative relation \<open>matches\<close>.
\<close>

datatype re =
    Nothing
  | Empty
  | Class "char \<Rightarrow> bool"
  | Cat re re
  | Or re re
  | Star re

inductive matches :: "re \<Rightarrow> string \<Rightarrow> bool" where
  Empty: "matches Empty []"
| Class: "p c \<Longrightarrow> matches (Class p) [c]"
| Cat: "matches r s \<Longrightarrow> matches r' s' \<Longrightarrow> matches (Cat r r') (s @ s')"
| OrL: "matches r s \<Longrightarrow> matches (Or r r') s"
| OrR: "matches r' s \<Longrightarrow> matches (Or r r') s"
| StarNil: "matches (Star r) []"
| StarCons: "matches r s \<Longrightarrow> matches (Star r) s' \<Longrightarrow> matches (Star r) (s @ s')"

inductive_cases matches_NothingE [elim!]: "matches Nothing s"
inductive_cases matches_EmptyE [elim!]: "matches Empty s"
inductive_cases matches_ClassE [elim!]: "matches (Class p) s"
inductive_cases matches_CatE [elim!]: "matches (Cat r r') s"
inductive_cases matches_OrE [elim!]: "matches (Or r r') s"

declare matches.Empty [intro!] matches.StarNil [intro!]

fun nullable :: "re \<Rightarrow> bool" where
  "nullable Nothing = False"
| "nullable Empty = True"
| "nullable (Class p) = False"
| "nullable (Cat r r') = (nullable r \<and> nullable r')"
| "nullable (Or r r') = (nullable r \<or> nullable r')"
| "nullable (Star r) = True"

fun mk_cat :: "re \<Rightarrow> re \<Rightarrow> re" where
  "mk_cat Nothing r = Nothing"
| "mk_cat Empty r = r"
| "mk_cat r r' = Cat r r'"

fun mk_or :: "re \<Rightarrow> re \<Rightarrow> re" where
  "mk_or Nothing r = r"
| "mk_or r Nothing = r"
| "mk_or r r' = Or r r'"

fun deriv :: "char \<Rightarrow> re \<Rightarrow> re" where
  "deriv c Nothing = Nothing"
| "deriv c Empty = Nothing"
| "deriv c (Class p) = (if p c then Empty else Nothing)"
| "deriv c (Cat r r') = (if nullable r then mk_or (mk_cat (deriv c r) r') (deriv c r')
                         else mk_cat (deriv c r) r')"
| "deriv c (Or r r') = mk_or (deriv c r) (deriv c r')"
| "deriv c (Star r) = mk_cat (deriv c r) (Star r)"

fun MatchString :: "re \<Rightarrow> string \<Rightarrow> bool" where
  "MatchString r [] = nullable r"
| "MatchString r (c # cs) = MatchString (deriv c r) cs"

definition Plus :: "re \<Rightarrow> re" where
  "Plus r = Cat r (Star r)"

lemma matches_Or: "matches (Or r r') s \<longleftrightarrow> matches r s \<or> matches r' s"
  by (auto intro: matches.OrL matches.OrR)

lemma matches_Nothing [simp]: "\<not> matches Nothing s"
  by auto

lemma matches_mk_cat [simp]: "matches (mk_cat r r') s = matches (Cat r r') s"
  using matches.Cat [OF matches.Empty, of r' s]
  by (cases "(r, r')" rule: mk_cat.cases) auto

lemma matches_mk_or [simp]: "matches (mk_or r r') s = matches (Or r r') s"
  by (cases "(r, r')" rule: mk_or.cases) (simp_all add: matches_Or)

lemma matches_Cat: "matches (Cat r r') s \<longleftrightarrow> (\<exists>u v. s = u @ v \<and> matches r u \<and> matches r' v)"
  by (auto intro: matches.Cat)

lemma matches_Class: "matches (Class p) s \<longleftrightarrow> (\<exists>c. s = [c] \<and> p c)"
  by (auto intro: matches.Class)

lemma matches_Nil: "matches r [] \<longleftrightarrow> nullable r"
  by (induction r) (auto simp: matches_Cat matches_Or)

lemma matches_Star_ConsD:
  assumes "matches (Star r) (c # cs)"
  shows "\<exists>u v. cs = u @ v \<and> matches r (c # u) \<and> matches (Star r) v"
  using assms
proof (induction "Star r" "c # cs" arbitrary: cs rule: matches.induct)
  case (StarCons s s')
  then show ?case by (cases s) auto
qed

lemma matches_Star_Cons:
  "matches (Star r) (c # cs) \<longleftrightarrow> (\<exists>u v. cs = u @ v \<and> matches r (c # u) \<and> matches (Star r) v)"
  using matches_Star_ConsD matches.StarCons [of r "c # u" v for u v] by fastforce

lemma matches_Cat_Cons:
  "matches (Cat r r') (c # cs) \<longleftrightarrow>
     (\<exists>u v. cs = u @ v \<and> matches r (c # u) \<and> matches r' v) \<or> (nullable r \<and> matches r' (c # cs))"
  by (auto simp: matches_Cat matches_Nil [symmetric] Cons_eq_append_conv)

lemma matches_deriv: "matches (deriv c r) s = matches r (c # s)"
proof (induction r arbitrary: s)
  case (Class p)
  then show ?case by (auto intro: matches.Class)
next
  case (Cat r r')
  then show ?case by (auto simp: matches_Cat_Cons matches_Or) (auto simp: matches_Cat Cat)
next
  case (Star r)
  then show ?case by (simp add: matches_Star_Cons matches_Cat)
qed (auto simp: matches_Or)

theorem MatchString_iff: "MatchString r s \<longleftrightarrow> matches r s"
  by (induction s arbitrary: r) (simp_all add: matches_Nil matches_deriv)

lemma matches_Star_Class: "matches (Star (Class p)) s \<longleftrightarrow> list_all p s"
  by (induction s) (auto simp: matches_Star_Cons matches_Class)

lemma matches_Plus_Class: "matches (Plus (Class p)) s \<longleftrightarrow> s \<noteq> [] \<and> list_all p s"
  by (cases s) (simp_all add: Plus_def matches_Cat_Cons matches_Class matches_Star_Class matches_Nil)

end
