(* ===== verification/Domain.thy ===== *)
theory Domain
  imports GoRegexp
begin

text \<open>
  The domain package (\<^verbatim>\<open>internal/domain\<close>): the typed string constants, the entities the
  services exchange and the validators. A Go \<^verbatim>\<open>type X string\<close> whose values come from requests
  is kept as \<open>string\<close>, because the validators are what restricts it; pointers are options;
  times are nanoseconds since Go's zero time, so \<^verbatim>\<open>IsZero\<close> is equality with 0. Fields that
  only carry bookkeeping (\<open>CreatedAt\<close>, \<open>UpdatedAt\<close>, hydrated display columns) are left out.
\<close>

type_synonym time = int
type_synonym duration = int

section \<open>Constants\<close>

definition MaxEmailLength :: nat where [domain_consts]: "MaxEmailLength = 320"
definition MaxNameLength :: nat where [domain_consts]: "MaxNameLength = 200"
definition MaxTeamNameLength :: nat where [domain_consts]: "MaxTeamNameLength = 100"
definition PointsExactScore :: int where [domain_consts]: "PointsExactScore = 5"
definition PointsCorrectOutcome :: int where [domain_consts]: "PointsCorrectOutcome = 2"
definition PointsGoalDifference :: int where [domain_consts]: "PointsGoalDifference = 1"
definition PointsIncorrectResult :: int where [domain_consts]: "PointsIncorrectResult = 0"
definition DefaultScoringUpdateChunkSize :: int where
  [domain_consts]: "DefaultScoringUpdateChunkSize = 500"
definition PredictionDeadlineOffset :: duration where
  [domain_consts]: "PredictionDeadlineOffset = 5 * 60 * 10 ^ 9"
definition StandingsWinPoints :: int where [domain_consts]: "StandingsWinPoints = 3"
definition MinMembersPerGroup :: int where [domain_consts]: "MinMembersPerGroup = 5"
definition MinMembersForActive :: int where [domain_consts]: "MinMembersForActive = MinMembersPerGroup"
definition MaxMembersPerGroup :: int where [domain_consts]: "MaxMembersPerGroup = 20"
definition DefaultScoringExtraTimeBonus :: int where [domain_consts]: "DefaultScoringExtraTimeBonus = 0"
definition DefaultScoringPenaltiesBonus :: int where [domain_consts]: "DefaultScoringPenaltiesBonus = 0"

section \<open>Matches\<close>

type_synonym MatchPhase = string
type_synonym WinMethod = string
type_synonym ExtraType = string

definition PhaseGroupStage :: MatchPhase where [domain_consts]: "PhaseGroupStage = ''group_stage''"
definition PhaseRoundOf32 :: MatchPhase where [domain_consts]: "PhaseRoundOf32 = ''round_of_32''"
definition PhaseRoundOf16 :: MatchPhase where [domain_consts]: "PhaseRoundOf16 = ''round_of_16''"
definition PhaseQuarterFinal :: MatchPhase where [domain_consts]: "PhaseQuarterFinal = ''quarter_final''"
definition PhaseSemiFinal :: MatchPhase where [domain_consts]: "PhaseSemiFinal = ''semi_final''"
definition PhaseThirdPlace :: MatchPhase where [domain_consts]: "PhaseThirdPlace = ''third_place''"
definition PhaseFinal :: MatchPhase where [domain_consts]: "PhaseFinal = ''final''"

definition WinMethodNormal :: WinMethod where [domain_consts]: "WinMethodNormal = ''normal''"
definition WinMethodExtraTime :: WinMethod where [domain_consts]: "WinMethodExtraTime = ''extra_time''"
definition WinMethodPenalties :: WinMethod where [domain_consts]: "WinMethodPenalties = ''penalties''"

datatype MatchStatus =
  MatchStatusScheduled | MatchStatusLive | MatchStatusFinished | MatchStatusCancelled

record Match =
  m_ID :: int
  m_HomeTeam :: string
  m_AwayTeam :: string
  m_HomeScore :: "int option"
  m_AwayScore :: "int option"
  m_Status :: MatchStatus
  m_Phase :: MatchPhase
  m_GroupLabel :: "string option"
  m_WinMethod :: "WinMethod option"
  m_PenaltyWinner :: "string option"
  m_Period :: "string option"
  m_PenaltyHomeScore :: "int option"
  m_PenaltyAwayScore :: "int option"
  m_KickoffAt :: time
  m_HomeSlotID :: "int option"
  m_AwaySlotID :: "int option"
  m_MatchCode :: "string option"
  m_HalftimeHomeScore :: "int option"
  m_HalftimeAwayScore :: "int option"
  m_FirstScoringTeam :: "string option"
  m_ExternalProvider :: "string option"
  m_ExternalMatchID :: "int option"
  m_LastSyncedAt :: "time option"

record ScoringRule =
  sr_Phase :: MatchPhase
  sr_ExactScore :: int
  sr_CorrectOutcome :: int
  sr_GoalDifference :: int
  sr_ExtraTimeBonus :: int
  sr_PenaltiesBonus :: int
  sr_IsActive :: bool

definition IsKnockoutPhase :: "MatchPhase \<Rightarrow> bool" where
  "IsKnockoutPhase phase = (phase \<noteq> PhaseGroupStage)"

section \<open>Predictions and extras\<close>

record Prediction =
  p_ID :: int
  p_UserID :: int
  p_MatchID :: int
  p_HomeScore :: int
  p_AwayScore :: int
  p_PredictedWinMethod :: "WinMethod option"
  p_PredictedPenaltyWinner :: "string option"
  p_Points :: "int option"
  p_ScoredAt :: "time option"
  p_UpdatedAt :: time

definition ExtraTypeFirstScorer :: ExtraType where [domain_consts]: "ExtraTypeFirstScorer = ''first_scorer''"
definition ExtraTypeHalftimeResult :: ExtraType where [domain_consts]: "ExtraTypeHalftimeResult = ''halftime_result''"
definition ExtraTypeHomeTeamScores :: ExtraType where [domain_consts]: "ExtraTypeHomeTeamScores = ''home_team_scores''"
definition ExtraTypeAwayTeamScores :: ExtraType where [domain_consts]: "ExtraTypeAwayTeamScores = ''away_team_scores''"

definition AllExtraTypes :: "ExtraType list" where
  [domain_consts]: "AllExtraTypes = [ExtraTypeFirstScorer, ExtraTypeHalftimeResult, ExtraTypeHomeTeamScores, ExtraTypeAwayTeamScores]"

definition DefaultExtraFirstScorerPoints :: int where [domain_consts]: "DefaultExtraFirstScorerPoints = 3"
definition DefaultExtraHalftimeResultPoints :: int where [domain_consts]: "DefaultExtraHalftimeResultPoints = 4"
definition DefaultExtraTeamScoresPoints :: int where [domain_consts]: "DefaultExtraTeamScoresPoints = 3"

record ExtraRule =
  er_ExtraType :: ExtraType
  er_Points :: int
  er_IsActive :: bool

record ExtraPrediction =
  ep_ID :: int
  ep_UserID :: int
  ep_MatchID :: int
  ep_ExtraType :: ExtraType
  ep_Answer :: string
  ep_Points :: "int option"
  ep_ScoredAt :: "time option"

section \<open>Groups\<close>

datatype QuinielaStatus = QuinielaStatusActive | QuinielaStatusInactive

record Quiniela =
  q_ID :: int
  q_Name :: string
  q_OwnerID :: int
  q_InviteCode :: string
  q_InviteCodeExpiresAt :: "time option"
  q_Status :: QuinielaStatus
  q_EntryFee :: int
  q_Currency :: string
  q_IsPremium :: bool
  q_ModeGeneral :: bool
  q_ModeRound :: bool
  q_RequireApproval :: bool
  q_ScoreFromZero :: bool
  q_ScoreFromZeroSince :: "time option"
  q_DeletedAt :: "time option"
  q_PrizesDistributedAt :: "time option"

text \<open>\<^verbatim>\<open>WinnerCount\<close> and \<^verbatim>\<open>EligibleForPayments\<close> (\<^verbatim>\<open>prize.go\<close>).\<close>
definition WinnerCount :: "int \<Rightarrow> int" where
  "WinnerCount n = (if n < MinMembersPerGroup then 0
     else if n = MinMembersPerGroup then 2
     else if n \<le> 9 then 3
     else if n \<le> 14 then 4
     else 5)"

definition EligibleForPayments :: "int \<Rightarrow> bool" where
  "EligibleForPayments n = (n \<ge> MinMembersPerGroup)"

section \<open>Locales\<close>

datatype Locale = LocaleEN | LocaleES

definition DefaultLocale :: Locale where
  "DefaultLocale = LocaleES"

definition ParseLocale :: "string \<Rightarrow> Locale" where
  "ParseLocale raw = (if length raw \<ge> 2 \<and> take 2 raw = ''en'' then LocaleEN
     else if length raw \<ge> 2 \<and> take 2 raw = ''es'' then LocaleES
     else DefaultLocale)"

definition LocaleStr :: "string \<Rightarrow> string \<Rightarrow> Locale \<Rightarrow> string" where
  "LocaleStr en es locale = (if locale = LocaleES then es else en)"

section \<open>Validators\<close>

definition en_dash :: string where
  "en_dash = [CHR 0xE2, CHR 0x80, CHR 0x93]"

abbreviation ok :: "unit result" where "ok \<equiv> Inr ()"

text \<open>The class \<^verbatim>\<open>[^@\s]\<close>; in RE2 the class \<^verbatim>\<open>\s\<close> is \<^verbatim>\<open>[\t\n\f\r ]\<close>.\<close>
definition is_space :: "char \<Rightarrow> bool" where
  "is_space c \<longleftrightarrow> c \<in> {CHR 0x09, CHR 0x0A, CHR 0x0C, CHR 0x0D, CHR 0x20}"

definition addr_char :: "char \<Rightarrow> bool" where
  "addr_char c \<longleftrightarrow> c \<noteq> CHR ''@'' \<and> \<not> is_space c"

definition emailRE :: re where
  "emailRE = Cat (Plus (Class addr_char)) (Cat (Class (\<lambda>c. c = CHR ''@''))
     (Cat (Plus (Class addr_char)) (Cat (Class (\<lambda>c. c = CHR ''.'')) (Plus (Class addr_char)))))"

definition validGroupLabels :: "string list" where
  "validGroupLabels = [''A'', ''B'', ''C'', ''D'', ''E'', ''F'', ''G'', ''H'', ''I'', ''J'', ''K'', ''L'']"

definition ValidateEmail :: "string \<Rightarrow> unit result" where
  "ValidateEmail email =
    (if email = [] then Inl (Validation ''email must not be empty'')
     else if length email > MaxEmailLength then Inl (Validation ''email must not exceed 320 characters'')
     else if \<not> MatchString emailRE email then Inl (Validation ''email is not a valid address'')
     else ok)"

definition ValidateUserName :: "string \<Rightarrow> unit result" where
  "ValidateUserName name =
    (if length name > MaxNameLength then Inl (Validation ''user name must not exceed 200 characters'') else ok)"

definition ValidateMatch :: "Match \<Rightarrow> unit result" where
  "ValidateMatch m =
    (if m_HomeTeam m = [] then Inl (Validation ''home team must not be empty'')
     else if length (m_HomeTeam m) > MaxTeamNameLength then Inl (Validation ''home team must not exceed 100 characters'')
     else if m_AwayTeam m = [] then Inl (Validation ''away team must not be empty'')
     else if length (m_AwayTeam m) > MaxTeamNameLength then Inl (Validation ''away team must not exceed 100 characters'')
     else if m_HomeTeam m = m_AwayTeam m then Inl (Validation ''home team and away team must be different'')
     else if m_KickoffAt m = 0 then Inl (Validation ''kick-off time must be set'')
     else if m_Phase m = PhaseGroupStage then
       (case m_GroupLabel m of
          None \<Rightarrow> Inl (Validation ''group_label is required for group_stage matches'')
        | Some g \<Rightarrow>
            if g = [] then Inl (Validation ''group_label is required for group_stage matches'')
            else if g \<notin> set validGroupLabels
              then Inl (Validation (''group_label must be a single uppercase letter A'' @ en_dash @ ''L''))
            else ok)
     else if m_GroupLabel m \<noteq> None then Inl (Validation ''group_label must be absent for knockout matches'')
     else ok)"

definition ValidateMatchResult :: "int option \<Rightarrow> int option \<Rightarrow> unit result" where
  "ValidateMatchResult homeScore awayScore =
    (case (homeScore, awayScore) of
       (Some h, Some a) \<Rightarrow>
         if h < 0 then Inl (Validation ''home score must not be negative'')
         else if a < 0 then Inl (Validation ''away score must not be negative'')
         else ok
     | _ \<Rightarrow> Inl (Validation ''home score and away score must both be provided''))"

definition ValidatePredictionDeadline :: "time \<Rightarrow> time \<Rightarrow> duration \<Rightarrow> unit result" where
  "ValidatePredictionDeadline kickoffAt now deadlineOffset =
    (let deadline = kickoffAt + - deadlineOffset in
     if now > deadline then Inl (Validation ''predictions are no longer accepted for this match'') else ok)"

definition ValidatePrediction :: "Prediction \<Rightarrow> time \<Rightarrow> time \<Rightarrow> duration \<Rightarrow> unit result" where
  "ValidatePrediction p kickoffAt now deadlineOffset =
    (if p_HomeScore p < 0 then Inl (Validation ''predicted home score must not be negative'')
     else if p_AwayScore p < 0 then Inl (Validation ''predicted away score must not be negative'')
     else ValidatePredictionDeadline kickoffAt now deadlineOffset)"

definition ValidateQuiniela :: "Quiniela \<Rightarrow> unit result" where
  "ValidateQuiniela q =
    (if q_Name q = [] then Inl (Validation ''quiniela name must not be empty'')
     else if length (q_Name q) > MaxNameLength then Inl (Validation ''quiniela name must not exceed 200 characters'')
     else if q_OwnerID q = 0 then Inl (Validation ''quiniela must have an owner'')
     else if q_EntryFee q < 0 then Inl (Validation ''entry fee must not be negative'')
     else ok)"

definition ValidateGroupSize :: "int \<Rightarrow> unit result" where
  "ValidateGroupSize n =
    (if n < MinMembersPerGroup
       then Inl (Validation ''group must have at least 5 active members to be eligible for payments and prizes'')
     else if n > MaxMembersPerGroup then Inl (Validation ''group cannot have more than 20 active members'')
     else ok)"

definition ValidateWithdrawalCurrency :: "string \<Rightarrow> unit result" where
  "ValidateWithdrawalCurrency currency =
    (if currency \<in> {''GTQ'', ''USD''} then ok
     else Inl (Validation ''currency must be one of: \"GTQ\", \"USD\"''))"

definition ParseWinMethod :: "string \<Rightarrow> WinMethod result" where
  "ParseWinMethod s =
    (if s \<in> {WinMethodNormal, WinMethodExtraTime, WinMethodPenalties} then Inr s
     else Inl (Validation ''win_method must be one of: \"normal\", \"extra_time\", \"penalties\"''))"

definition ParseExtraType :: "string \<Rightarrow> ExtraType result" where
  "ParseExtraType s =
    (if s \<in> {ExtraTypeFirstScorer, ExtraTypeHalftimeResult, ExtraTypeHomeTeamScores, ExtraTypeAwayTeamScores}
       then Inr s
     else Inl (Validation ''extra_type must be one of: \"first_scorer\", \"halftime_result\", \"home_team_scores\", \"away_team_scores\"''))"

definition teamScoresAnswers :: "string list" where
  "teamScoresAnswers = [''first_half'', ''second_half'', ''both_halves'', ''none'']"

definition validExtraAnswers :: "ExtraType \<Rightarrow> string list option" where
  "validExtraAnswers = [ExtraTypeFirstScorer \<mapsto> [''home'', ''away'', ''none''],
     ExtraTypeHomeTeamScores \<mapsto> teamScoresAnswers, ExtraTypeAwayTeamScores \<mapsto> teamScoresAnswers]"

definition maxHalftimeGoals :: int where [domain_consts]: "maxHalftimeGoals = 20"

text \<open>The expression \<^verbatim>\<open>^(\d{1,2})-(\d{1,2})$\<close>; its groups are the parts before and after the dash.\<close>
definition halftimeScoreRE :: re where
  "halftimeScoreRE =
    (let d12 = Cat (Class is_digit) (Or (Class is_digit) Empty)
     in Cat d12 (Cat (Class (\<lambda>c. c = CHR ''-'')) d12))"

definition parseScorelineAnswer :: "string \<Rightarrow> (int \<times> int) option" where
  "parseScorelineAnswer answer =
    (if \<not> MatchString halftimeScoreRE answer then None
     else (let g1 = takeWhile (\<lambda>c. c \<noteq> CHR ''-'') answer;
               g2 = tl (dropWhile (\<lambda>c. c \<noteq> CHR ''-'') answer);
               home = (case Atoi g1 of Some n \<Rightarrow> n | None \<Rightarrow> 0);
               away = (case Atoi g2 of Some n \<Rightarrow> n | None \<Rightarrow> 0)
           in Some (home, away)))"

definition validateHalftimeScoreAnswer :: "string \<Rightarrow> unit result" where
  "validateHalftimeScoreAnswer answer = (case parseScorelineAnswer answer of
     None \<Rightarrow> Inl (Validation ''answer must be a half-time scoreline in \"home-away\" format, e.g. \"1-0\"'')
   | Some (home, away) \<Rightarrow>
       if home > maxHalftimeGoals \<or> away > maxHalftimeGoals
         then Inl (Validation (''half-time score must not exceed '' @ Itoa maxHalftimeGoals @ '' per side''))
       else ok)"

definition ValidateExtraAnswer :: "ExtraType \<Rightarrow> string \<Rightarrow> unit result" where
  "ValidateExtraAnswer extraType answer =
    (if extraType = ExtraTypeHalftimeResult then validateHalftimeScoreAnswer answer
     else case validExtraAnswers extraType of
       None \<Rightarrow> Inl (Validation ''unrecognised extra_type'')
     | Some allowed \<Rightarrow>
         if answer \<notin> set allowed then
           (if extraType = ExtraTypeFirstScorer
              then Inl (Validation ''answer must be one of: \"home\", \"away\", \"none\"'')
            else if extraType = ExtraTypeHomeTeamScores \<or> extraType = ExtraTypeAwayTeamScores
              then Inl (Validation ''answer must be one of: \"first_half\", \"second_half\", \"both_halves\", \"none\"'')
            else Inl (Validation ''invalid answer for extra_type''))
         else ok)"

definition validateFirstScorerAgainstPrediction :: "string \<Rightarrow> int \<Rightarrow> int \<Rightarrow> unit result" where
  "validateFirstScorerAgainstPrediction answer predictedHome predictedAway =
    (if predictedHome = 0 \<and> predictedAway = 0 then
       (if answer \<noteq> ''none'' then Inl (Validation ''with a predicted 0-0 scoreline, first_scorer must be \"none\"'') else ok)
     else if predictedHome = 0 then
       (if answer \<noteq> ''away'' then Inl (Validation ''home is predicted to score 0 goals, so it cannot be the first scorer'') else ok)
     else if predictedAway = 0 then
       (if answer \<noteq> ''home'' then Inl (Validation ''away is predicted to score 0 goals, so it cannot be the first scorer'') else ok)
     else
       (if answer = ''none'' then Inl (Validation ''first_scorer cannot be \"none\" when the predicted scoreline has goals'') else ok))"

definition validateTeamScoresAgainstPrediction :: "string \<Rightarrow> int \<Rightarrow> unit result" where
  "validateTeamScoresAgainstPrediction answer predictedGoals =
    (if predictedGoals = 0 then
       (if answer \<noteq> ''none'' then Inl (Validation ''a team predicted to score 0 goals must answer \"none\"'') else ok)
     else if predictedGoals = 1 then
       (if answer \<noteq> ''first_half'' \<and> answer \<noteq> ''second_half''
          then Inl (Validation ''a team predicted to score exactly 1 goal must answer \"first_half\" or \"second_half\"'') else ok)
     else
       (if answer = ''none'' then Inl (Validation ''a team predicted to score cannot answer \"none\"'') else ok))"

definition validateHalftimeAgainstPrediction :: "string \<Rightarrow> int \<Rightarrow> int \<Rightarrow> unit result" where
  "validateHalftimeAgainstPrediction answer predictedHome predictedAway = (case parseScorelineAnswer answer of
     None \<Rightarrow> ok
   | Some (home, away) \<Rightarrow>
       if home > predictedHome \<or> away > predictedAway
         then Inl (Validation ''half-time score cannot exceed the predicted final scoreline'')
       else ok)"

definition ValidateExtraAnswerAgainstPrediction :: "ExtraType \<Rightarrow> string \<Rightarrow> int \<Rightarrow> int \<Rightarrow> unit result" where
  "ValidateExtraAnswerAgainstPrediction extraType answer predictedHome predictedAway =
    (if extraType = ExtraTypeFirstScorer
       then validateFirstScorerAgainstPrediction answer predictedHome predictedAway
     else if extraType = ExtraTypeHomeTeamScores then validateTeamScoresAgainstPrediction answer predictedHome
     else if extraType = ExtraTypeAwayTeamScores then validateTeamScoresAgainstPrediction answer predictedAway
     else if extraType = ExtraTypeHalftimeResult
       then validateHalftimeAgainstPrediction answer predictedHome predictedAway
     else ok)"

definition FormatScorelineAnswer :: "int \<Rightarrow> int \<Rightarrow> string" where
  "FormatScorelineAnswer home away = Itoa home @ ''-'' @ Itoa away"

definition validPhases :: "MatchPhase list" where
  "validPhases = [PhaseGroupStage, PhaseRoundOf32, PhaseRoundOf16, PhaseQuarterFinal,
     PhaseSemiFinal, PhaseThirdPlace, PhaseFinal]"

definition ValidateMatchPhase :: "MatchPhase \<Rightarrow> unit result" where
  "ValidateMatchPhase phase =
    (if phase = [] then ok
     else if phase \<notin> set validPhases then Inl (Validation ''phase is not a recognised tournament phase'')
     else ok)"

subsection \<open>Payout details\<close>

type_synonym WithdrawalMethod = string

definition WithdrawalMethodBankGT :: WithdrawalMethod where [domain_consts]: "WithdrawalMethodBankGT = ''bank_gt''"
definition WithdrawalMethodPayPal :: WithdrawalMethod where [domain_consts]: "WithdrawalMethodPayPal = ''paypal''"

definition payoutRequiredKeys :: "WithdrawalMethod \<Rightarrow> (string \<times> nat) list option" where
  "payoutRequiredKeys = [
     WithdrawalMethodBankGT \<mapsto> [(''account_number'', 30), (''bank_name'', 100), (''account_type'', 50), (''account_holder'', 150)],
     WithdrawalMethodPayPal \<mapsto> [(''paypal_email'', MaxEmailLength)]]"

text \<open>\<^verbatim>\<open>%q\<close> of a string without characters to escape.\<close>
definition quote :: "string \<Rightarrow> string" where
  "quote s = CHR 0x22 # s @ [CHR 0x22]"

fun first_error :: "('a \<Rightarrow> unit result) \<Rightarrow> 'a list \<Rightarrow> unit result" where
  "first_error f [] = ok"
| "first_error f (x # xs) = (case f x of Inl e \<Rightarrow> Inl e | Inr _ \<Rightarrow> first_error f xs)"

text \<open>
  A Go map is an association list with distinct keys, in the order in which this call
  happens to range over it; \<open>order\<close> is the order in which the required keys are visited.
  The two loop bodies are named.
\<close>
definition checkAllowedKey :: "(string \<times> nat) list \<Rightarrow> WithdrawalMethod \<Rightarrow> string \<times> string \<Rightarrow> unit result" where
  "checkAllowedKey keyLimits method kv = (case map_of keyLimits (fst kv) of
     None \<Rightarrow> Inl (Validation (''payout_details: unexpected key '' @ quote (fst kv) @ '' for method '' @ quote method))
   | Some _ \<Rightarrow> ok)"

definition checkRequiredKey :: "(string \<times> string) list \<Rightarrow> WithdrawalMethod \<Rightarrow> string \<times> nat \<Rightarrow> unit result" where
  "checkRequiredKey details method kl = (case map_of details (fst kl) of
     None \<Rightarrow> Inl (Validation (''payout_details: '' @ quote (fst kl) @ '' is required for method '' @ quote method))
   | Some v \<Rightarrow>
       if v = [] then Inl (Validation (''payout_details: '' @ quote (fst kl) @ '' is required for method '' @ quote method))
       else if length v > snd kl
         then Inl (Validation (''payout_details: '' @ quote (fst kl) @ '' must not exceed '' @ Itoa (int (snd kl)) @ '' characters''))
       else ok)"

definition ValidatePayoutDetails ::
  "((string \<times> nat) list \<Rightarrow> (string \<times> nat) list) \<Rightarrow> WithdrawalMethod \<Rightarrow> (string \<times> string) list \<Rightarrow> unit result" where
  "ValidatePayoutDetails order method details = (case payoutRequiredKeys method of
     None \<Rightarrow> Inl (Validation (''unknown withdrawal method: '' @ quote method))
   | Some keyLimits \<Rightarrow>
       if details = [] then Inl (Validation ''payout_details must not be empty'')
       else case first_error (checkAllowedKey keyLimits method) details of
         Inl e \<Rightarrow> Inl e
       | Inr _ \<Rightarrow>
          (case first_error (checkRequiredKey details method) (order keyLimits) of
            Inl e \<Rightarrow> Inl e
          | Inr _ \<Rightarrow>
             if method = WithdrawalMethodPayPal then
               (case ValidateEmail (case map_of details ''paypal_email'' of Some v \<Rightarrow> v | None \<Rightarrow> []) of
                  Inl _ \<Rightarrow> Inl (Validation ''payout_details: paypal_email is not a valid email address'')
                | Inr _ \<Rightarrow> ok)
             else ok))"

section \<open>Properties of the validators\<close>

lemma is_ok_seq: "is_ok (case x of Inl e \<Rightarrow> Inl e | Inr _ \<Rightarrow> y) \<longleftrightarrow> is_ok x \<and> is_ok y"
  by (cases x) auto

lemma is_ok_remap: "is_ok (case x of Inl e \<Rightarrow> Inl e' | Inr _ \<Rightarrow> y) \<longleftrightarrow> is_ok x \<and> is_ok y"
  by (cases x) auto

lemma first_error_ok_iff: "is_ok (first_error f xs) \<longleftrightarrow> (\<forall>x\<in>set xs. is_ok (f x))"
  by (induction xs) (auto split: sum.splits simp: is_ok_iff)

lemma matches_emailRE:
  "matches emailRE s \<longleftrightarrow>
     (\<exists>l d t. s = l @ ''@'' @ d @ ''.'' @ t \<and> l \<noteq> [] \<and> d \<noteq> [] \<and> t \<noteq> [] \<and> list_all addr_char (l @ d @ t))"
  unfolding emailRE_def matches_Cat matches_Plus_Class matches_Class list_all_append by fastforce

text \<open>
  \<^verbatim>\<open>ValidateEmail\<close> accepts exactly the strings of at most 320 bytes that split as local
  part, at sign, domain, dot, suffix, with the three parts non-empty and free of white space and
  further at signs.
\<close>
theorem ValidateEmail_iff:
  "is_ok (ValidateEmail s) \<longleftrightarrow> length s \<le> 320 \<and>
     (\<exists>l d t. s = l @ ''@'' @ d @ ''.'' @ t \<and> l \<noteq> [] \<and> d \<noteq> [] \<and> t \<noteq> [] \<and> list_all addr_char (l @ d @ t))"
proof -
  have "is_ok (ValidateEmail s) \<longleftrightarrow> s \<noteq> [] \<and> length s \<le> 320 \<and> matches emailRE s"
    by (auto simp: ValidateEmail_def MatchString_iff MaxEmailLength_def)
  then show ?thesis unfolding matches_emailRE by auto
qed

subsection \<open>Scoreline answers\<close>

lemma matches_halftimeScoreRE:
  "matches halftimeScoreRE s \<longleftrightarrow>
     (\<exists>u v. s = u @ ''-'' @ v \<and> length u \<in> {1, 2} \<and> length v \<in> {1, 2} \<and> list_all is_digit u \<and> list_all is_digit v)"
proof -
  have d12: "matches (Cat (Class is_digit) (Or (Class is_digit) Empty)) u \<longleftrightarrow> length u \<in> {1, 2} \<and> list_all is_digit u"
    for u
    by (cases u rule: remdups_adj.cases)
       (auto simp: matches_Cat matches_Or matches_Class Cons_eq_append_conv intro!: matches.Empty)
  show ?thesis
    unfolding halftimeScoreRE_def Let_def matches_Cat [of _ "Cat _ _"] matches_Cat [of "Class (\<lambda>c. c = CHR ''-'')"] d12
    by (auto simp: matches_Class)
qed

lemma takeWhile_dash: "list_all is_digit u \<Longrightarrow> takeWhile (\<lambda>c. c \<noteq> CHR ''-'') (u @ CHR ''-'' # v) = u"
  by (induction u) auto

lemma dropWhile_dash: "list_all is_digit u \<Longrightarrow> dropWhile (\<lambda>c. c \<noteq> CHR ''-'') (u @ CHR ''-'' # v) = CHR ''-'' # v"
  by (induction u) auto

lemma parseScorelineAnswer_split:
  assumes "list_all is_digit u" "list_all is_digit v" "length u \<in> {1, 2}" "length v \<in> {1, 2}"
  shows "parseScorelineAnswer (u @ ''-'' @ v) =
    Some (case Atoi u of Some n \<Rightarrow> n | None \<Rightarrow> 0, case Atoi v of Some n \<Rightarrow> n | None \<Rightarrow> 0)"
proof -
  have "matches halftimeScoreRE (u @ ''-'' @ v)"
    unfolding matches_halftimeScoreRE using assms by blast
  then show ?thesis
    using assms by (simp add: parseScorelineAnswer_def MatchString_iff takeWhile_dash dropWhile_dash)
qed

lemma length_nat_digits: "n < 100 \<Longrightarrow> length (nat_digits n) \<in> {1, 2}"
  using div_less_iff_less_mult [of 10 n 10] by (simp add: nat_digits.simps [of n] nat_digits.simps [of "n div 10"])

lemma parse_format_scoreline:
  assumes "0 \<le> h" "h < 100" "0 \<le> a" "a < 100"
  shows "parseScorelineAnswer (FormatScorelineAnswer h a) = Some (h, a)"
proof -
  have "Itoa n = nat_digits (nat n)" "Atoi (nat_digits (nat n)) = Some n" if "0 \<le> n" "n < 100" for n
    using that Atoi_Itoa [of n] by (simp_all add: Itoa_def in_int64_def MaxInt_def)
  with assms show ?thesis
    using parseScorelineAnswer_split [of "nat_digits (nat h)" "nat_digits (nat a)"]
      length_nat_digits [of "nat h"] length_nat_digits [of "nat a"]
    by (simp add: FormatScorelineAnswer_def)
qed

text \<open>
  C27: formatting a half-time score and parsing the answer again is the identity on scores with
  at most two digits, and the formatted answer passes the submission check exactly when neither
  side exceeds the cap of 20 goals.
\<close>
theorem scoreline_round_trip:
  assumes "0 \<le> h" "h < 100" "0 \<le> a" "a < 100"
  shows "parseScorelineAnswer (FormatScorelineAnswer h a) = Some (h, a) \<and>
    (is_ok (ValidateExtraAnswer ExtraTypeHalftimeResult (FormatScorelineAnswer h a)) \<longleftrightarrow> h \<le> 20 \<and> a \<le> 20)"
  using parse_format_scoreline [OF assms]
  by (auto simp: ValidateExtraAnswer_def validateHalftimeScoreAnswer_def maxHalftimeGoals_def)

theorem scoreline_round_trip_witness:
  "parseScorelineAnswer (FormatScorelineAnswer 12 3) = Some (12, 3) \<and>
   (is_ok (ValidateExtraAnswer ExtraTypeHalftimeResult (FormatScorelineAnswer 12 3)) \<longleftrightarrow> (12::int) \<le> 20 \<and> (3::int) \<le> 20)"
  by (rule scoreline_round_trip) simp_all

lemma FormatScorelineAnswer_inj:
  assumes "0 \<le> h" "h < 100" "0 \<le> a" "a < 100" "0 \<le> h'" "h' < 100" "0 \<le> a'" "a' < 100"
  shows "FormatScorelineAnswer h a = FormatScorelineAnswer h' a' \<longleftrightarrow> h = h' \<and> a = a'"
  using parse_format_scoreline [OF assms(1-4)] parse_format_scoreline [OF assms(5-8)]
  by (metis option.inject prod.inject)

subsection \<open>Payout details\<close>

lemma payoutRequiredKeys_cases:
  "payoutRequiredKeys method = Some kl \<longleftrightarrow>
     method = WithdrawalMethodBankGT \<and>
       kl = [(''account_number'', 30), (''bank_name'', 100), (''account_type'', 50), (''account_holder'', 150)] \<or>
     method = WithdrawalMethodPayPal \<and> kl = [(''paypal_email'', 320)]"
  by (simp add: payoutRequiredKeys_def domain_consts) blast

lemma checkAllowedKey_ok: "is_ok (checkAllowedKey kl method kv) \<longleftrightarrow> fst kv \<in> fst ` set kl"
proof (cases "map_of kl (fst kv)")
  case None
  then have "fst kv \<notin> fst ` set kl" by (simp add: map_of_eq_None_iff)
  with None show ?thesis by (simp add: checkAllowedKey_def)
next
  case (Some n)
  then show ?thesis unfolding checkAllowedKey_def by (force dest: map_of_SomeD)
qed

lemma checkRequiredKey_ok:
  "is_ok (checkRequiredKey details method kl) \<longleftrightarrow>
     (\<exists>v. map_of details (fst kl) = Some v \<and> v \<noteq> [] \<and> length v \<le> snd kl)"
  by (cases "map_of details (fst kl)") (simp_all add: checkRequiredKey_def)

text \<open>
  Whatever order the Go runtime ranges over the maps, \<^verbatim>\<open>ValidatePayoutDetails\<close> accepts exactly
  the maps whose keys are the required keys of the method, with every value non-empty and within its
  limit, and for PayPal a valid address.
\<close>
theorem ValidatePayoutDetails_iff:
  assumes "\<And>kl. set (order kl) = set kl"
  shows "is_ok (ValidatePayoutDetails order method details) \<longleftrightarrow>
    (\<exists>kl. payoutRequiredKeys method = Some kl \<and> fst ` set details = fst ` set kl \<and>
      (\<forall>x\<in>set kl. \<exists>v. map_of details (fst x) = Some v \<and> v \<noteq> [] \<and> length v \<le> snd x) \<and>
      (method = WithdrawalMethodPayPal \<longrightarrow> is_ok (ValidateEmail (the (map_of details ''paypal_email'')))))"
proof (cases "payoutRequiredKeys method")
  case None
  then show ?thesis by (simp add: ValidatePayoutDetails_def)
next
  case (Some kl)
  let ?req = "\<forall>x\<in>set kl. \<exists>v. map_of details (fst x) = Some v \<and> v \<noteq> [] \<and> length v \<le> snd x"
  have sub: "fst ` set kl \<subseteq> fst ` set details" if ?req
  proof
    fix k assume "k \<in> fst ` set kl"
    with that obtain v where "map_of details k = Some v" by blast
    then show "k \<in> fst ` set details" by (force dest: map_of_SomeD)
  qed
  have ne: "kl \<noteq> []" "method = WithdrawalMethodPayPal \<Longrightarrow> (''paypal_email'', 320) \<in> set kl"
    using Some by (auto simp: payoutRequiredKeys_cases domain_consts)
  have email: "(case map_of details ''paypal_email'' of None \<Rightarrow> [] | Some v \<Rightarrow> v) = the (map_of details ''paypal_email'')"
    if ?req "method = WithdrawalMethodPayPal"
    using that ne(2) by fastforce
  have "is_ok (ValidatePayoutDetails order method details) \<longleftrightarrow> details \<noteq> [] \<and> fst ` set details \<subseteq> fst ` set kl \<and> ?req \<and>
      (method = WithdrawalMethodPayPal \<longrightarrow> is_ok (ValidateEmail (case map_of details ''paypal_email'' of None \<Rightarrow> [] | Some v \<Rightarrow> v)))"
    by (simp add: ValidatePayoutDetails_def Some is_ok_seq is_ok_remap first_error_ok_iff checkAllowedKey_ok
        checkRequiredKey_ok assms image_subset_iff)
  also have "\<dots> \<longleftrightarrow> fst ` set details = fst ` set kl \<and> ?req \<and>
      (method = WithdrawalMethodPayPal \<longrightarrow> is_ok (ValidateEmail (the (map_of details ''paypal_email''))))"
    using sub email ne(1) by (metis image_is_empty set_empty subset_antisym subset_refl)
  finally show ?thesis using Some by simp
qed

theorem ValidatePayoutDetails_iff_witness:
  "is_ok (ValidatePayoutDetails rev ''paypal'' [(''paypal_email'', ''a@b.c'')]) \<longleftrightarrow>
    (\<exists>kl. payoutRequiredKeys ''paypal'' = Some kl \<and> fst ` set [(''paypal_email'', ''a@b.c'')] = fst ` set kl \<and>
      (\<forall>x\<in>set kl. \<exists>v. map_of [(''paypal_email'', ''a@b.c'')] (fst x) = Some v \<and> v \<noteq> [] \<and> length v \<le> snd x) \<and>
      (''paypal'' = WithdrawalMethodPayPal \<longrightarrow>
        is_ok (ValidateEmail (the (map_of [(''paypal_email'', ''a@b.c'')] ''paypal_email'')))))"
  by (rule ValidatePayoutDetails_iff) simp

subsection \<open>Prize tiers\<close>

text \<open>
  The number of prize positions is positive exactly when the group is eligible for payments, never
  exceeds half of the members, grows with the group and is capped at five.
\<close>
theorem WinnerCount_tiers:
  assumes "0 \<le> n" "n \<le> n'"
  shows "(0 < WinnerCount n \<longleftrightarrow> EligibleForPayments n) \<and> 2 * WinnerCount n \<le> n \<and>
    WinnerCount n \<le> WinnerCount n' \<and> WinnerCount n \<le> 5"
  using assms by (auto simp: WinnerCount_def EligibleForPayments_def MinMembersPerGroup_def)

theorem WinnerCount_tiers_witness:
  "(0 < WinnerCount 7 \<longleftrightarrow> EligibleForPayments 7) \<and> 2 * WinnerCount 7 \<le> 7 \<and>
    WinnerCount 7 \<le> WinnerCount 12 \<and> WinnerCount 7 \<le> 5"
  using WinnerCount_tiers [of 7 12] by simp

end
