(* ===== verification/Tx.thy ===== *)
theory Tx
  imports Prelude
begin

text \<open>
  Database programs and transactions (\<^verbatim>\<open>repository/tx.go\<close>, \<^verbatim>\<open>repository/retry.go\<close>).

  A database program maps the current state to a result and the next state. Every statement
  consumes one entry of a \<^emph>\<open>fault script\<close>: \<open>None\<close> lets it run, \<open>Some e\<close> makes it fail with the
  error \<open>e\<close> (connection loss, deadlock, serialization failure, cancelled context), so a theorem
  quantified over scripts covers every failure point. An exhausted script lets everything run.
  A statement may also fail by itself (a constraint violation). Outside a transaction each
  statement commits alone; \<open>withTx\<close> restores the initial state on any error, a failed commit
  included. The waits of the retry loop consume a script entry too: a fault there is a cancelled
  context.
\<close>

type_synonym fault_script = "go_error option list"
type_synonym ('s, 'a) prog = "fault_script \<Rightarrow> 's \<Rightarrow> 'a result \<times> fault_script \<times> 's"

section \<open>Combinators\<close>

fun next_fault :: "fault_script \<Rightarrow> go_error option \<times> fault_script" where
  "next_fault [] = (None, [])"
| "next_fault (f # fs) = (f, fs)"

definition tx_ret :: "'a \<Rightarrow> ('s, 'a) prog" where
  "tx_ret a = (\<lambda>fs s. (Inr a, fs, s))"

definition tx_err :: "app_error \<Rightarrow> ('s, 'a) prog" where
  "tx_err e = (\<lambda>fs s. (Inl e, fs, s))"

definition tx_bind :: "('s, 'a) prog \<Rightarrow> ('a \<Rightarrow> ('s, 'b) prog) \<Rightarrow> ('s, 'b) prog" where
  "tx_bind m f = (\<lambda>fs s. case m fs s of
     (Inl e, fs', s') \<Rightarrow> (Inl e, fs', s')
   | (Inr a, fs', s') \<Rightarrow> f a fs' s')"

text \<open>Running a program and handling both outcomes, for callers that inspect the error.\<close>
definition tx_try :: "('s, 'a) prog \<Rightarrow> (app_error \<Rightarrow> ('s, 'b) prog) \<Rightarrow> ('a \<Rightarrow> ('s, 'b) prog) \<Rightarrow> ('s, 'b) prog" where
  "tx_try m h f = (\<lambda>fs s. case m fs s of
     (Inl e, fs', s') \<Rightarrow> h e fs' s'
   | (Inr a, fs', s') \<Rightarrow> f a fs' s')"

text \<open>A statement whose failure the caller maps with \<open>w\<close>; usually \<open>Internal\<close>.\<close>
definition tx_stmt :: "(go_error \<Rightarrow> app_error) \<Rightarrow> ('s \<Rightarrow> go_error + 'a \<times> 's) \<Rightarrow> ('s, 'a) prog" where
  "tx_stmt w g = (\<lambda>fs s. case next_fault fs of
     (Some e, fs') \<Rightarrow> (Inl (w e), fs', s)
   | (None, fs') \<Rightarrow> (case g s of
       Inl e \<Rightarrow> (Inl (w e), fs', s)
     | Inr (a, s') \<Rightarrow> (Inr a, fs', s')))"

definition tx_exec :: "('s \<Rightarrow> go_error + 'a \<times> 's) \<Rightarrow> ('s, 'a) prog" where
  "tx_exec g = tx_stmt Internal g"

definition tx_query :: "('s \<Rightarrow> 'a) \<Rightarrow> ('s, 'a) prog" where
  "tx_query q = tx_stmt Internal (\<lambda>s. Inr (q s, s))"

text \<open>A read that cannot fail: a cached value with a default.\<close>
definition tx_read :: "('s \<Rightarrow> 'a) \<Rightarrow> ('s, 'a) prog" where
  "tx_read q = (\<lambda>fs s. (Inr (q s), fs, s))"

definition tx_guard :: "bool \<Rightarrow> app_error \<Rightarrow> ('s, unit) prog" where
  "tx_guard b e = (if b then tx_ret () else tx_err e)"

definition tx_lift :: "'a result \<Rightarrow> ('s, 'a) prog" where
  "tx_lift r = (case r of Inl e \<Rightarrow> tx_err e | Inr a \<Rightarrow> tx_ret a)"

fun tx_iter :: "('a \<Rightarrow> ('s, unit) prog) \<Rightarrow> 'a list \<Rightarrow> ('s, unit) prog" where
  "tx_iter f [] = tx_ret ()"
| "tx_iter f (x # xs) = tx_bind (f x) (\<lambda>_. tx_iter f xs)"

text \<open>\<^verbatim>\<open>withTx\<close>: begin, run, commit; every error leaves the state of the begin.\<close>
definition withTx :: "('s, 'a) prog \<Rightarrow> ('s, 'a) prog" where
  "withTx fn = (\<lambda>fs s. case next_fault fs of
     (Some e, fs') \<Rightarrow> (Inl (Internal e), fs', s)
   | (None, fs') \<Rightarrow> (case fn fs' s of
       (Inl e, fs'', _) \<Rightarrow> (Inl e, fs'', s)
     | (Inr a, fs'', s') \<Rightarrow> (case next_fault fs'' of
         (Some e, fs3) \<Rightarrow> (Inl (Internal e), fs3, s)
       | (None, fs3) \<Rightarrow> (Inr a, fs3, s'))))"

definition isTransientPGError :: "app_error \<Rightarrow> bool" where
  "isTransientPGError err = (case Unwrap err of
     Some (PgError code) \<Rightarrow> code = ''40001'' \<or> code = ''40P01''
   | _ \<Rightarrow> False)"

text \<open>
  \<^verbatim>\<open>withRetryTx\<close> with the number of attempts still allowed. \<open>z\<close> is the value the captured
  variables of the closure have when it never ran, which is what a policy of no attempts returns.
\<close>
fun withRetryTx :: "'a \<Rightarrow> nat \<Rightarrow> ('s, 'a) prog \<Rightarrow> ('s, 'a) prog" where
  "withRetryTx z 0 fn fs s = (Inr z, fs, s)"
| "withRetryTx z (Suc n) fn fs s = (case withTx fn fs s of
     (Inr a, fs', s') \<Rightarrow> (Inr a, fs', s')
   | (Inl e, fs', s') \<Rightarrow>
       if \<not> isTransientPGError e then (Inl e, fs', s')
       else if n = 0 then (Inl e, fs', s')
       else (case next_fault fs' of
           (Some _, fs'') \<Rightarrow> (Inl (Raw ContextError), fs'', s')
         | (None, fs'') \<Rightarrow> withRetryTx z n fn fs'' s'))"

lemmas tx_all_defs [tx_defs] =
  tx_ret_def tx_err_def tx_bind_def tx_try_def tx_stmt_def tx_exec_def tx_query_def tx_read_def tx_guard_def tx_lift_def

section \<open>Successful runs\<close>

text \<open>One equivalence per combinator: what a successful run of it is.\<close>

lemma tx_ret_run [tx_runs]: "tx_ret a fs s = (Inr b, fs', s') \<longleftrightarrow> b = a \<and> fs' = fs \<and> s' = s"
  by (auto simp: tx_ret_def)

lemma tx_err_run [tx_runs]: "tx_err e fs s = (Inr b, fs', s') \<longleftrightarrow> False"
  by (auto simp: tx_err_def)

lemma tx_bind_run [tx_runs]:
  "tx_bind m f fs s = (Inr b, fs', s') \<longleftrightarrow>
     (\<exists>a fs1 s1. m fs s = (Inr a, fs1, s1) \<and> f a fs1 s1 = (Inr b, fs', s'))"
  by (auto simp: tx_bind_def split: prod.splits sum.splits)

lemma tx_try_run [tx_runs]:
  "tx_try m h f fs s = (Inr b, fs', s') \<longleftrightarrow>
     (\<exists>a fs1 s1. m fs s = (Inr a, fs1, s1) \<and> f a fs1 s1 = (Inr b, fs', s')) \<or>
     (\<exists>e fs1 s1. m fs s = (Inl e, fs1, s1) \<and> h e fs1 s1 = (Inr b, fs', s'))"
  by (auto simp: tx_try_def split: prod.splits sum.splits)

lemma tx_stmt_run [tx_runs]:
  "tx_stmt w g fs s = (Inr a, fs', s') \<longleftrightarrow> next_fault fs = (None, fs') \<and> g s = Inr (a, s')"
  by (auto simp: tx_stmt_def split: prod.splits sum.splits option.splits)

lemma tx_exec_run [tx_runs]:
  "tx_exec g fs s = (Inr a, fs', s') \<longleftrightarrow> next_fault fs = (None, fs') \<and> g s = Inr (a, s')"
  by (simp add: tx_exec_def tx_stmt_run)

lemma tx_query_run [tx_runs]:
  "tx_query q fs s = (Inr a, fs', s') \<longleftrightarrow> next_fault fs = (None, fs') \<and> a = q s \<and> s' = s"
  by (auto simp: tx_query_def tx_stmt_run)

lemma tx_read_run [tx_runs]: "tx_read q fs s = (Inr a, fs', s') \<longleftrightarrow> a = q s \<and> fs' = fs \<and> s' = s"
  by (auto simp: tx_read_def)

lemma tx_guard_run [tx_runs]: "tx_guard b e fs s = (Inr u, fs', s') \<longleftrightarrow> b \<and> fs' = fs \<and> s' = s"
  by (auto simp: tx_guard_def tx_ret_def tx_err_def)

lemma tx_lift_run [tx_runs]: "tx_lift r fs s = (Inr a, fs', s') \<longleftrightarrow> r = Inr a \<and> fs' = fs \<and> s' = s"
  by (auto simp: tx_lift_def tx_ret_def tx_err_def split: sum.splits)

lemma tx_query_keeps: "tx_query q fs s = (r, fs', s') \<Longrightarrow> s' = s"
  by (auto simp: tx_query_def tx_stmt_def split: prod.splits option.splits)

lemma run_eta: "fst x = Inr u \<Longrightarrow> x = (Inr u, fst (snd x), snd (snd x))"
  by (cases x) auto

lemma is_ok_run: "is_ok (fst x) \<Longrightarrow> x = (Inr (projr (fst x)), fst (snd x), snd (snd x))"
  by (cases x) (auto simp: is_ok_iff)

section \<open>Hoare triples\<close>

text \<open>
  \<open>tx_valid P m Q E\<close>: from a state satisfying \<open>P\<close> and under every fault script, a successful run
  of \<open>m\<close> ends in \<open>Q\<close> and a failing one in \<open>E\<close>.
\<close>
definition tx_valid ::
  "('s \<Rightarrow> bool) \<Rightarrow> ('s, 'a) prog \<Rightarrow> ('a \<Rightarrow> 's \<Rightarrow> bool) \<Rightarrow> (app_error \<Rightarrow> 's \<Rightarrow> bool) \<Rightarrow> bool" where
  "tx_valid P m Q E \<longleftrightarrow> (\<forall>fs s. P s \<longrightarrow> (case m fs s of
     (Inr a, _, s') \<Rightarrow> Q a s' | (Inl e, _, s') \<Rightarrow> E e s'))"

lemma tx_validD:
  assumes "tx_valid P m Q E" "P s"
  shows "m fs s = (Inr a, fs', s') \<Longrightarrow> Q a s'" "m fs s = (Inl e, fs', s') \<Longrightarrow> E e s'"
proof -
  have *: "case m fs s of (Inr a, _, s') \<Rightarrow> Q a s' | (Inl e, _, s') \<Rightarrow> E e s'"
    using assms unfolding tx_valid_def by simp
  show "m fs s = (Inr a, fs', s') \<Longrightarrow> Q a s'" "m fs s = (Inl e, fs', s') \<Longrightarrow> E e s'"
    using * by simp_all
qed

lemma tx_validI:
  assumes "\<And>fs s a fs' s'. P s \<Longrightarrow> m fs s = (Inr a, fs', s') \<Longrightarrow> Q a s'"
    "\<And>fs s e fs' s'. P s \<Longrightarrow> m fs s = (Inl e, fs', s') \<Longrightarrow> E e s'"
  shows "tx_valid P m Q E"
  using assms unfolding tx_valid_def by (fastforce split: prod.split sum.split)

lemma tx_valid_weaken:
  assumes "tx_valid P' m Q' E'" "\<And>s. P s \<Longrightarrow> P' s" "\<And>a s. Q' a s \<Longrightarrow> Q a s" "\<And>e s. E' e s \<Longrightarrow> E e s"
  shows "tx_valid P m Q E"
  by (rule tx_validI) (blast dest: tx_validD [OF assms(1)] assms(2-4))+

lemma tx_valid_False [simp]: "tx_valid (\<lambda>_. False) m Q E"
  by (simp add: tx_valid_def)

lemma tx_valid_ret [tx_rules]: "(\<And>s. P s \<Longrightarrow> Q a s) \<Longrightarrow> tx_valid P (tx_ret a) Q E"
  by (auto simp: tx_valid_def tx_ret_def)

lemma tx_valid_err [tx_rules]: "(\<And>s. P s \<Longrightarrow> E e s) \<Longrightarrow> tx_valid P (tx_err e) Q E"
  by (auto simp: tx_valid_def tx_err_def)

lemma tx_valid_bind [tx_rules]:
  assumes "tx_valid P m R E" "\<And>a. tx_valid (R a) (f a) Q E"
  shows "tx_valid P (tx_bind m f) Q E"
  using assms unfolding tx_valid_def tx_bind_def by (fastforce split: prod.splits sum.splits)

lemma tx_valid_try [tx_rules]:
  assumes "tx_valid P m R F" "\<And>a. tx_valid (R a) (f a) Q E" "\<And>e. tx_valid (F e) (h e) Q E"
  shows "tx_valid P (tx_try m h f) Q E"
  using assms unfolding tx_valid_def tx_try_def by (fastforce split: prod.splits sum.splits)

lemma tx_valid_stmt [tx_rules]:
  assumes "\<And>s e. P s \<Longrightarrow> E (w e) s" "\<And>s a s'. P s \<Longrightarrow> g s = Inr (a, s') \<Longrightarrow> Q a s'"
  shows "tx_valid P (tx_stmt w g) Q E"
  using assms unfolding tx_valid_def tx_stmt_def by (auto split: prod.split sum.split option.split)

lemma tx_valid_exec [tx_rules]:
  assumes "\<And>s e. P s \<Longrightarrow> E (Internal e) s" "\<And>s a s'. P s \<Longrightarrow> g s = Inr (a, s') \<Longrightarrow> Q a s'"
  shows "tx_valid P (tx_exec g) Q E"
  unfolding tx_exec_def by (rule tx_valid_stmt) (use assms in auto)

lemma tx_valid_query [tx_rules]:
  assumes "\<And>s e. P s \<Longrightarrow> E (Internal e) s" "\<And>s. P s \<Longrightarrow> Q (q s) s"
  shows "tx_valid P (tx_query q) Q E"
  unfolding tx_query_def by (rule tx_valid_stmt) (use assms in auto)

lemma tx_valid_read [tx_rules]:
  assumes "\<And>s. P s \<Longrightarrow> Q (q s) s"
  shows "tx_valid P (tx_read q) Q E"
  using assms by (auto simp: tx_valid_def tx_read_def)

lemma tx_valid_guard [tx_rules]:
  assumes "\<And>s. P s \<Longrightarrow> b \<Longrightarrow> Q () s" "\<And>s. P s \<Longrightarrow> \<not> b \<Longrightarrow> E e s"
  shows "tx_valid P (tx_guard b e) Q E"
  using assms by (auto simp: tx_guard_def intro!: tx_valid_ret tx_valid_err)

lemma tx_valid_lift [tx_rules]:
  assumes "\<And>s a. P s \<Longrightarrow> r = Inr a \<Longrightarrow> Q a s" "\<And>s e. P s \<Longrightarrow> r = Inl e \<Longrightarrow> E e s"
  shows "tx_valid P (tx_lift r) Q E"
  using assms by (auto simp: tx_lift_def intro!: tx_valid_ret tx_valid_err split: sum.split)

lemma tx_valid_if [tx_rules]:
  assumes "b \<Longrightarrow> tx_valid P m Q E" "\<not> b \<Longrightarrow> tx_valid P m' Q E"
  shows "tx_valid P (if b then m else m') Q E"
  using assms by simp

lemma tx_valid_option [tx_rules]:
  assumes "x = None \<Longrightarrow> tx_valid P m Q E" "\<And>y. x = Some y \<Longrightarrow> tx_valid P (f y) Q E"
  shows "tx_valid P (case x of None \<Rightarrow> m | Some y \<Rightarrow> f y) Q E"
  using assms by (cases x) simp_all

lemma tx_valid_prod [tx_rules]:
  assumes "\<And>a b. x = (a, b) \<Longrightarrow> tx_valid P (f a b) Q E"
  shows "tx_valid P (case x of (a, b) \<Rightarrow> f a b) Q E"
  using assms by (cases x) simp

lemma tx_valid_iter:
  assumes "\<And>x. x \<in> set xs \<Longrightarrow> tx_valid I (f x) (\<lambda>_. I) E"
  shows "tx_valid I (tx_iter f xs) (\<lambda>_. I) E"
  using assms by (induction xs) (auto intro!: tx_valid_ret tx_valid_bind)

section \<open>Transactions are atomic\<close>

lemma next_fault_cases: obtains f fs' where "next_fault fs = (f, fs')"
  by (cases "next_fault fs")

lemma withTx_Inl: "withTx fn fs s = (Inl e, fs', s') \<Longrightarrow> s' = s"
  by (auto simp: withTx_def split: prod.splits option.splits sum.splits)

lemma withTx_Inr: "withTx fn fs s = (Inr a, fs', s') \<Longrightarrow> \<exists>fs1 fs2. fn fs1 s = (Inr a, fs2, s')"
  by (auto simp: withTx_def split: prod.splits option.splits sum.splits)

lemma withRetryTx_Inl: "withRetryTx z n fn fs s = (Inl e, fs', s') \<Longrightarrow> s' = s"
  by (induction n arbitrary: fs)
     (auto split: prod.splits option.splits sum.splits if_splits dest: withTx_Inl)

lemma withRetryTx_Inr:
  "withRetryTx z n fn fs s = (Inr a, fs', s') \<Longrightarrow> 0 < n \<Longrightarrow> \<exists>fs1 fs2. fn fs1 s = (Inr a, fs2, s')"
  by (induction n arbitrary: fs)
     (auto split: prod.splits option.splits sum.splits if_splits dest: withTx_Inl withTx_Inr)

lemma tx_valid_withTx [tx_rules]:
  assumes "tx_valid P fn Q (\<lambda>_ _. True)" "\<And>s e. P s \<Longrightarrow> E e s"
  shows "tx_valid P (withTx fn) Q E"
proof (rule tx_validI)
  fix fs s a fs' s' assume "P s" "withTx fn fs s = (Inr a, fs', s')"
  then show "Q a s'" using withTx_Inr tx_validD(1) [OF assms(1)] by metis
next
  fix fs s e fs' s' assume "P s" "withTx fn fs s = (Inl e, fs', s')"
  then show "E e s'" using withTx_Inl assms(2) by metis
qed

lemma tx_valid_withRetryTx:
  assumes "tx_valid P fn Q (\<lambda>_ _. True)" "\<And>s e. P s \<Longrightarrow> E e s" "0 < n"
  shows "tx_valid P (withRetryTx z n fn) Q E"
proof (rule tx_validI)
  fix fs s a fs' s' assume "P s" "withRetryTx z n fn fs s = (Inr a, fs', s')"
  then show "Q a s'" using withRetryTx_Inr [OF _ assms(3)] tx_validD(1) [OF assms(1)] by metis
next
  fix fs s e fs' s' assume "P s" "withRetryTx z n fn fs s = (Inl e, fs', s')"
  then show "E e s'" using withRetryTx_Inl assms(2) by metis
qed

section \<open>Invariants of programs\<close>

text \<open>A program keeps \<open>I\<close> when every run of it, failing or not, leads from \<open>I\<close> to \<open>I\<close>.\<close>
definition tx_keeps :: "('s \<Rightarrow> bool) \<Rightarrow> ('s, 'a) prog \<Rightarrow> bool" where
  "tx_keeps I m \<longleftrightarrow> tx_valid I m (\<lambda>_. I) (\<lambda>_. I)"

lemma tx_keepsD: "tx_keeps I m \<Longrightarrow> I s \<Longrightarrow> m fs s = (r, fs', s') \<Longrightarrow> I s'"
  unfolding tx_keeps_def using tx_validD [of I m "\<lambda>_. I" "\<lambda>_. I"] by (cases r) metis+

lemma tx_keepsI: "(\<And>fs s r fs' s'. I s \<Longrightarrow> m fs s = (r, fs', s') \<Longrightarrow> I s') \<Longrightarrow> tx_keeps I m"
  unfolding tx_keeps_def by (rule tx_validI) blast+

lemma tx_keeps_frame:
  assumes "\<And>x. tx_keeps (\<lambda>s. g s = x) m" "\<And>s s'. I s \<Longrightarrow> g s' = g s \<Longrightarrow> I s'"
  shows "tx_keeps I m"
proof (rule tx_keepsI)
  fix fs s r fs' s' assume "I s" "m fs s = (r, fs', s')"
  moreover have "g s' = g s" by (rule tx_keepsD [OF assms(1) refl calculation(2)])
  ultimately show "I s'" using assms(2) by blast
qed

lemma tx_keeps_run: "tx_keeps I m \<Longrightarrow> I s \<Longrightarrow> I (snd (snd (m fs s)))"
  by (metis prod.collapse tx_keepsD)

lemma tx_keeps_base [tx_keep]:
  "tx_keeps I (tx_ret a)" "tx_keeps I (tx_err e)" "tx_keeps I (tx_query q)" "tx_keeps I (tx_read q')"
  "tx_keeps I (tx_guard b e)" "tx_keeps I (tx_lift r)"
  by (auto simp: tx_keeps_def intro!: tx_rules)

lemma tx_keeps_bind [tx_keep]: "tx_keeps I m \<Longrightarrow> (\<And>a. tx_keeps I (f a)) \<Longrightarrow> tx_keeps I (tx_bind m f)"
  unfolding tx_keeps_def by (rule tx_valid_bind)

lemma tx_keeps_try [tx_keep]:
  "tx_keeps I m \<Longrightarrow> (\<And>e. tx_keeps I (h e)) \<Longrightarrow> (\<And>a. tx_keeps I (f a)) \<Longrightarrow> tx_keeps I (tx_try m h f)"
  unfolding tx_keeps_def by (rule tx_valid_try)

lemma tx_keeps_stmt [tx_keep]: "(\<And>s a s'. I s \<Longrightarrow> g s = Inr (a, s') \<Longrightarrow> I s') \<Longrightarrow> tx_keeps I (tx_stmt w g)"
  unfolding tx_keeps_def by (rule tx_valid_stmt)

lemma tx_keeps_exec [tx_keep]: "(\<And>s a s'. I s \<Longrightarrow> g s = Inr (a, s') \<Longrightarrow> I s') \<Longrightarrow> tx_keeps I (tx_exec g)"
  unfolding tx_exec_def by (rule tx_keeps_stmt)

lemma tx_keeps_if [tx_keep]:
  "(b \<Longrightarrow> tx_keeps I m) \<Longrightarrow> (\<not> b \<Longrightarrow> tx_keeps I m') \<Longrightarrow> tx_keeps I (if b then m else m')"
  by simp

lemma tx_keeps_option [tx_keep]:
  "(x = None \<Longrightarrow> tx_keeps I m) \<Longrightarrow> (\<And>y. x = Some y \<Longrightarrow> tx_keeps I (f y)) \<Longrightarrow> tx_keeps I (case x of None \<Rightarrow> m | Some y \<Rightarrow> f y)"
  by (cases x) simp_all

lemma tx_keeps_list [tx_keep]:
  "(xs = [] \<Longrightarrow> tx_keeps I m) \<Longrightarrow> (\<And>y ys. xs = y # ys \<Longrightarrow> tx_keeps I (f y ys)) \<Longrightarrow> tx_keeps I (case xs of [] \<Rightarrow> m | y # ys \<Rightarrow> f y ys)"
  by (cases xs) simp_all

lemma tx_keeps_prod [tx_keep]: "(\<And>a b. x = (a, b) \<Longrightarrow> tx_keeps I (f a b)) \<Longrightarrow> tx_keeps I (case x of (a, b) \<Rightarrow> f a b)"
  by (cases x) simp

lemma tx_keeps_iter [tx_keep]: "(\<And>x. x \<in> set xs \<Longrightarrow> tx_keeps I (f x)) \<Longrightarrow> tx_keeps I (tx_iter f xs)"
  by (induction xs) (auto intro!: tx_keep)

lemma tx_keeps_withTx [tx_keep]: "tx_keeps I fn \<Longrightarrow> tx_keeps I (withTx fn)"
  unfolding tx_keeps_def by (rule tx_valid_withTx) (auto elim: tx_valid_weaken)

lemma tx_keeps_withRetryTx [tx_keep]: "tx_keeps I fn \<Longrightarrow> tx_keeps I (withRetryTx z n fn)"
proof (cases n)
  case 0
  then show ?thesis by (simp add: tx_keeps_def tx_valid_def)
next
  case (Suc k)
  assume "tx_keeps I fn"
  then have "tx_valid I fn (\<lambda>_. I) (\<lambda>_ _. True)" unfolding tx_keeps_def by (auto elim: tx_valid_weaken)
  then show ?thesis unfolding tx_keeps_def using Suc by (intro tx_valid_withRetryTx) auto
qed

text \<open>A program that never changes the state keeps every invariant.\<close>
definition reads_only :: "('s, 'a) prog \<Rightarrow> bool" where
  "reads_only m \<longleftrightarrow> (\<forall>x. tx_keeps (\<lambda>s. s = x) m)"

lemma reads_only_keeps: "reads_only m \<Longrightarrow> tx_keeps I m"
  by (rule tx_keeps_frame [where g = "\<lambda>s. s"]) (auto simp: reads_only_def)

lemma tx_valid_read_const:
  assumes "\<And>s. P s \<Longrightarrow> q s = v" "tx_valid P (f v) Q E"
  shows "tx_valid P (tx_bind (tx_read q) f) Q E"
  by (rule tx_valid_bind [where R = "\<lambda>a s. a = v \<and> P s"], rule tx_valid_read) (use assms in \<open>auto simp: tx_valid_def\<close>)

lemma tx_valid_of_keeps: "tx_keeps I m \<Longrightarrow> (\<And>s. I s \<Longrightarrow> E s) \<Longrightarrow> tx_valid I m (\<lambda>_. I) (\<lambda>_. E)"
  unfolding tx_keeps_def by (erule tx_valid_weaken) simp_all

lemma tx_valid_keep_bind:
  "tx_keeps J m \<Longrightarrow> (\<And>s. J s \<Longrightarrow> I s) \<Longrightarrow> (\<And>a. tx_valid J (f a) Q (\<lambda>_. I)) \<Longrightarrow> tx_valid J (tx_bind m f) Q (\<lambda>_. I)"
  by (rule tx_valid_bind [where R = "\<lambda>_. J"]) (auto intro: tx_valid_of_keeps)

text \<open>A call whose result is not used.\<close>
definition tx_void :: "('s, 'a) prog \<Rightarrow> ('s, unit) prog" where
  "tx_void p = tx_bind p (\<lambda>_. tx_ret ())"

lemma tx_keeps_void [tx_keep]: "tx_keeps I p \<Longrightarrow> tx_keeps I (tx_void p)"
  unfolding tx_void_def by (intro tx_keep)

text \<open>A call whose error is logged and dropped.\<close>
definition tx_ignore :: "('s, unit) prog \<Rightarrow> ('s, unit) prog" where
  "tx_ignore p = tx_try p (\<lambda>_. tx_ret ()) tx_ret"

lemma tx_keeps_ignore [tx_keep]: "tx_keeps I p \<Longrightarrow> tx_keeps I (tx_ignore p)"
  unfolding tx_ignore_def by (intro tx_keep)

lemma tx_valid_ignore [tx_rules]:
  "tx_valid P p (\<lambda>_. Q) (\<lambda>_. Q) \<Longrightarrow> tx_valid P (tx_ignore p) (\<lambda>_. Q) E"
  unfolding tx_ignore_def by (rule tx_valid_try) (auto intro!: tx_valid_ret)

text \<open>
  The contract of an operation that runs in one transaction: an error leaves no trace. An
  invariant of such an operation only has to be shown for its successful runs.
\<close>
locale atomic_op =
  fixes oper :: "('s, 'a) prog"
  assumes no_trace: "oper fs s = (Inl e, fs', s') \<Longrightarrow> s' = s"
begin

lemma error_keeps: "tx_valid (\<lambda>s. s = s0) oper (\<lambda>_ _. True) (\<lambda>_ s. s = s0)"
  by (rule tx_validI) (auto dest: no_trace)

lemma invariant_if_success:
  assumes "\<And>fs s a fs' s'. I s \<Longrightarrow> oper fs s = (Inr a, fs', s') \<Longrightarrow> I s'"
  shows "tx_keeps I oper"
  unfolding tx_keeps_def by (rule tx_validI) (auto dest: no_trace assms)

end

lemma atomic_op_iff: "atomic_op m \<longleftrightarrow> (\<forall>fs s e fs' s'. m fs s = (Inl e, fs', s') \<longrightarrow> s' = s)"
  by (simp add: atomic_op_def)

lemma reads_only_base [simp]:
  "reads_only (tx_ret a)" "reads_only (tx_err e)" "reads_only (tx_query q)" "reads_only (tx_read q')"
  "reads_only (tx_guard b e)" "reads_only (tx_lift r)"
  by (simp_all add: reads_only_def tx_keeps_base)

lemma reads_only_run: "reads_only m \<Longrightarrow> m fs s = (r, fs', s') \<Longrightarrow> s' = s"
  unfolding reads_only_def using tx_keepsD [of "\<lambda>x. x = s" m s fs r fs' s'] by simp

text \<open>Programs that read and then run one atomic operation are atomic.\<close>
lemma atomic_bind:
  assumes "reads_only m" "\<And>a. atomic_op (f a)"
  shows "atomic_op (tx_bind m f)"
  unfolding atomic_op_iff
proof (intro allI impI)
  fix fs s e fs' s' assume run: "tx_bind m f fs s = (Inl e, fs', s')"
  obtain r fs1 s1 where m: "m fs s = (r, fs1, s1)" by (metis prod_cases3)
  then show "s' = s" using run reads_only_run [OF assms(1) m] assms(2)
    by (cases r) (auto simp: tx_bind_def atomic_op_iff)
qed

lemma atomic_base [simp]: "atomic_op (tx_ret a)" "atomic_op (tx_err e)" "atomic_op (tx_exec g)" "atomic_op (tx_stmt w g)"
  by (auto simp: atomic_op_iff tx_ret_def tx_err_def tx_exec_def tx_stmt_def split: option.splits sum.splits prod.splits)

lemma atomic_option: "(x = None \<Longrightarrow> atomic_op m) \<Longrightarrow> (\<And>y. x = Some y \<Longrightarrow> atomic_op (f y)) \<Longrightarrow>
    atomic_op (case x of None \<Rightarrow> m | Some y \<Rightarrow> f y)"
  by (cases x) auto

lemma atomic_if: "(b \<Longrightarrow> atomic_op m) \<Longrightarrow> (\<not> b \<Longrightarrow> atomic_op m') \<Longrightarrow> atomic_op (if b then m else m')"
  by simp

lemma atomic_map: "atomic_op m \<Longrightarrow> atomic_op (tx_bind m (\<lambda>a. tx_ret (g a)))"
  by (auto simp: atomic_op_iff tx_bind_def tx_ret_def split: sum.splits prod.splits)

lemmas tx_atomic = atomic_bind atomic_option atomic_if atomic_map

text \<open>
  Running a list of operations one after the other, each with its own fault script, whatever the
  outcomes: the states a sequence of requests can reach.
\<close>
fun run_all :: "(('s, 'a) prog \<times> fault_script) list \<Rightarrow> 's \<Rightarrow> 's" where
  "run_all [] s = s"
| "run_all ((m, fs) # ops) s = run_all ops (snd (snd (m fs s)))"

lemma run_all_invariant:
  assumes "\<And>m fs. (m, fs) \<in> set ops \<Longrightarrow> tx_keeps I m" "I s"
  shows "I (run_all ops s)"
  using assms by (induction ops s rule: run_all.induct) (auto intro: tx_keeps_run)

section \<open>Properties of the retry loop\<close>



lemma withTx_no_fault: "fn [] s = (Inr a, [], s') \<Longrightarrow> withTx fn [] s = (Inr a, [], s')"
  by (simp add: withTx_def)

text \<open>
  Retrying is worth it: when fewer attempts than the policy allows are aborted by a serialization
  failure and the closure then runs through, \<^verbatim>\<open>withRetryTx\<close> returns its result.
\<close>
theorem withRetryTx_recovers:
  assumes "k < n" "fn [] s = (Inr a, [], s')"
  shows "withRetryTx z n fn (concat (replicate k [Some (PgError ''40001''), None])) s = (Inr a, [], s')"
  using assms
proof (induction k arbitrary: n)
  case 0
  then show ?case by (cases n) (simp_all add: withTx_no_fault)
next
  case (Suc k)
  then obtain m where "n = Suc m" "k < m" by (cases n) auto
  with Suc show ?case by (simp add: withTx_def isTransientPGError_def)
qed

theorem withRetryTx_recovers_witness:
  "withRetryTx 0 3 (tx_exec (\<lambda>x. Inr (1, Suc x)))
     (concat (replicate 2 [Some (PgError ''40001''), None])) (7::nat) = (Inr (1::nat), [], 8)"
  by (rule withRetryTx_recovers) (simp_all add: tx_defs)

end
