(* ===== verification/Database.thy ===== *)
theory Database
  imports Domain Tx
begin

text \<open>
  The tables the services share, as one record. Tables that are only looked up by key are maps;
  tables that are counted, summed or scanned in insertion order are lists, in ascending
  \<open>created_at\<close> order. \<open>db_now\<close> is the value of \<^verbatim>\<open>NOW()\<close>, \<open>db_seq\<close> the source of generated
  keys and \<open>db_config_seq\<close> the one of the tie-break questions, which also have a row with a fixed key. Columns are limited to those a modelled operation reads or writes; the integer columns of
  the money tables are 32 bits wide, with the \<^verbatim>\<open>CHECK\<close> constraints and unique indexes of the
  migrations part of the statements that could violate them.
\<close>

section \<open>Rows\<close>

type_synonym KYCTier = int

record User =
  u_ID :: int
  u_Name :: string
  u_BannedAt :: "time option"
  u_BalanceCents :: int
  u_BalanceCurrency :: string
  u_ReservedCents :: int
  u_KYCTier :: KYCTier
  u_Locale :: string
  u_DeletedAt :: "time option"

datatype MembershipStatus = MembershipPending | MembershipActive | MembershipLeft
datatype MembershipRole = MembershipRoleMember | MembershipRoleCreateOwner

record GroupMembership =
  gm_ID :: int
  gm_QuinielaID :: int
  gm_UserID :: int
  gm_Role :: MembershipRole
  gm_Status :: MembershipStatus
  gm_Paid :: bool
  gm_JoinedAt :: "time option"
  gm_RemovedAt :: "time option"
  gm_RemovedBy :: "int option"
  gm_CreatedAt :: time

datatype PaymentStatus =
  PaymentStatusPending | PaymentStatusConfirmed | PaymentStatusRefunded | PaymentStatusRejected

record PaymentRecord =
  pr_ID :: int
  pr_QuinielaID :: int
  pr_UserID :: int
  pr_Amount :: int
  pr_Currency :: string
  pr_Status :: PaymentStatus
  pr_Reference :: "string option"
  pr_ReviewedBy :: "int option"
  pr_Notes :: string
  pr_ConfirmedAt :: "time option"
  pr_CreatedAt :: time

datatype BalanceLedgerKind =
    LedgerKindWebhookRecurrente | LedgerKindWebhookPayPal | LedgerKindBankTransfer
  | LedgerKindEntryFee | LedgerKindPrize
  | LedgerKindWithdrawalReserve | LedgerKindWithdrawalRelease | LedgerKindWithdrawalDeduct

record BalanceLedger =
  bl_ID :: int
  bl_UserID :: int
  bl_DeltaCents :: int
  bl_Kind :: BalanceLedgerKind
  bl_BalanceAfter :: int
  bl_RefID :: "int option"
  bl_RefType :: "string option"
  bl_Reference :: "string option"
  bl_CreatedBy :: "int option"
  bl_SourceCurrency :: "string option"
  bl_SourceAmountCents :: "int option"
  bl_CreatedAt :: time

datatype WithdrawalStatus =
  WithdrawalPending | WithdrawalApproved | WithdrawalRejected | WithdrawalProcessed

record WithdrawalRequest =
  wr_ID :: int
  wr_UserID :: int
  wr_AmountCents :: int
  wr_Currency :: string
  wr_GTQReservedCents :: int
  wr_Method :: WithdrawalMethod
  wr_PayoutDetails :: "(string \<times> string) list"
  wr_Status :: WithdrawalStatus
  wr_ReviewedBy :: "int option"
  wr_Notes :: string
  wr_ProcessedAt :: "time option"

datatype PaymentIntentStatus =
    PaymentIntentPending | PaymentIntentCaptured | PaymentIntentExpired
  | PaymentIntentRejected | PaymentIntentUnderReview | PaymentIntentCancelled

record PaymentIntent =
  pi_ID :: int
  pi_Token :: string
  pi_UserID :: int
  pi_AmountCents :: int
  pi_Currency :: string
  pi_Provider :: string
  pi_Status :: PaymentIntentStatus
  pi_CaptureID :: "string option"
  pi_ExpiresAt :: time
  pi_ComprobanteKey :: "string option"
  pi_ComprobanteContentType :: "string option"
  pi_ComprobanteFileSize :: "int option"
  pi_ComprobanteRequired :: bool
  pi_UserNotes :: string
  pi_ReviewedBy :: "int option"
  pi_ReviewNotes :: string
  pi_RejectedAt :: "time option"
  pi_CreatedAt :: time

datatype KYCStatus =
    KYCStatusUnverified | KYCStatusPending | KYCStatusUnderReview | KYCStatusApproved
  | KYCStatusRejected | KYCStatusExpired | KYCStatusEscalated

datatype KYCEventType =
    KYCEventSubmitted | KYCEventUnderReview | KYCEventApproved | KYCEventRejected | KYCEventEscalated
  | KYCEventExpired | KYCEventTierChanged | KYCEventDocRequested | KYCEventFrozen | KYCEventUnfrozen
  | KYCEventIPVelocityFlag

type_synonym KYCDocumentType = string

record KYCProfile =
  kp_ID :: int
  kp_UserID :: int
  kp_Status :: KYCStatus
  kp_Tier :: KYCTier
  kp_FullName :: string
  kp_DateOfBirth :: "time option"
  kp_Nationality :: string
  kp_DocumentType :: "KYCDocumentType option"
  kp_DocumentNumber :: string
  kp_AddressLine :: string
  kp_City :: string
  kp_Country :: string
  kp_PostalCode :: string
  kp_ReviewedAt :: "time option"
  kp_ReviewedBy :: "int option"
  kp_RejectionReason :: string
  kp_RiskScore :: int
  kp_SubmissionIP :: "string option"
  kp_SubmittedAt :: "time option"
  kp_PEPFlag :: bool
  kp_SanctionsFlag :: bool
  kp_BalanceFrozen :: bool
  kp_FrozenAmountCents :: int
  kp_FrozenReason :: string
  kp_NextReviewAt :: "time option"

record KYCDocument =
  kd_ID :: int
  kd_ProfileID :: int
  kd_DocumentType :: KYCDocumentType
  kd_StorageKey :: string
  kd_ContentType :: string
  kd_FileSize :: int
  kd_FileHash :: string
  kd_Verified :: bool
  kd_VerifiedBy :: "int option"

text \<open>An event without a new status stores the empty text, here \<open>None\<close>.\<close>
record KYCEvent =
  ke_ProfileID :: int
  ke_EventType :: KYCEventType
  ke_ActorID :: "int option"
  ke_OldStatus :: "KYCStatus option"
  ke_NewStatus :: "KYCStatus option"
  ke_Reason :: string

record PredictionScoreLog =
  sl_PredictionID :: int
  sl_MatchID :: int
  sl_UserID :: int
  sl_OldPoints :: "int option"
  sl_NewPoints :: int
  sl_MatchHomeScore :: int
  sl_MatchAwayScore :: int
  sl_MatchWinMethod :: "WinMethod option"
  sl_MatchPhase :: MatchPhase
  sl_PredHomeScore :: int
  sl_PredAwayScore :: int
  sl_PredWinMethod :: "WinMethod option"
  sl_CfgExactScore :: int
  sl_CfgCorrectOutcome :: int
  sl_CfgGoalDiff :: int
  sl_CfgExtraTimeBonus :: int
  sl_CfgPenaltiesBonus :: int

record TournamentSlot =
  ts_ID :: int
  ts_Label :: string
  ts_Description :: string
  ts_Team :: "string option"
  ts_AutoSource :: "string option"
  ts_ConfirmedAt :: "time option"
  ts_ConfirmedByUserID :: "int option"

record TiebreakerConfig =
  tc_ID :: int
  tc_Question :: string
  tc_Phase :: "MatchPhase option"
  tc_QuinielaID :: "int option"
  tc_Result :: "int option"

record Tiebreaker =
  tb_UserID :: int
  tb_TiebreakerConfigID :: int
  tb_Prediction :: int

datatype BankTransferStatus = BankTransferPending | BankTransferApproved | BankTransferRejected

record BankTransferProof =
  bp_ID :: int
  bp_UserID :: int
  bp_AmountCents :: int
  bp_Currency :: string
  bp_StorageKey :: string
  bp_ContentType :: string
  bp_FileSize :: int
  bp_Status :: BankTransferStatus
  bp_ReviewedBy :: "int option"
  bp_Notes :: string
  bp_ApprovedAmountCents :: "int option"
  bp_ApprovedAt :: "time option"
  bp_CreatedAt :: time

section \<open>The database\<close>

record db =
  db_now :: time
  db_seq :: int
  db_params :: "string \<rightharpoonup> string"
  db_matches :: "Match list"
  db_scoring_rules :: "MatchPhase \<rightharpoonup> ScoringRule"
  db_extra_rules :: "ExtraType \<rightharpoonup> ExtraRule"
  db_predictions :: "Prediction list"
  db_extra_predictions :: "ExtraPrediction list"
  db_score_log :: "PredictionScoreLog list"
  db_users :: "int \<rightharpoonup> User"
  db_quinielas :: "Quiniela list"
  db_memberships :: "GroupMembership list"
  db_payments :: "PaymentRecord list"
  db_ledger :: "BalanceLedger list"
  db_withdrawals :: "WithdrawalRequest list"
  db_intents :: "PaymentIntent list"
  db_kyc :: "KYCProfile list"
  db_kyc_docs :: "KYCDocument list"
  db_kyc_events :: "KYCEvent list"
  db_tiebreaker_configs :: "TiebreakerConfig list"
  db_config_seq :: int
  db_tiebreakers :: "Tiebreaker list"
  db_slots :: "TournamentSlot list"
  db_bank_proofs :: "BankTransferProof list"
  db_team_aliases :: "(string \<times> string) list"

type_synonym 'a dbprog = "(db, 'a) prog"

definition empty_db :: db where
  "empty_db = \<lparr>db_now = 0, db_seq = 1, db_params = Map.empty, db_matches = [],
     db_scoring_rules = Map.empty, db_extra_rules = Map.empty, db_predictions = [],
     db_extra_predictions = [], db_score_log = [], db_users = Map.empty, db_quinielas = [],
     db_memberships = [], db_payments = [], db_ledger = [], db_withdrawals = [], db_intents = [],
     db_kyc = [], db_kyc_docs = [], db_kyc_events = [], db_tiebreaker_configs = [], db_config_seq = 1, db_tiebreakers = [], db_slots = [],
     db_bank_proofs = [], db_team_aliases = []\<rparr>"

text \<open>Lookup of a match by its primary key.\<close>
definition get_match :: "db \<Rightarrow> int \<rightharpoonup> Match" where
  "get_match s i = find (\<lambda>m. m_ID m = i) (db_matches s)"

text \<open>Lookup of a group by its primary key, deleted groups included.\<close>
definition get_quiniela :: "db \<Rightarrow> int \<rightharpoonup> Quiniela" where
  "get_quiniela s i = find (\<lambda>q. q_ID q = i) (db_quinielas s)"

text \<open>Lookup of a tie-break question by its primary key.\<close>
definition get_config :: "db \<Rightarrow> int \<rightharpoonup> TiebreakerConfig" where
  "get_config s i = find (\<lambda>c. tc_ID c = i) (db_tiebreaker_configs s)"

section \<open>System parameters\<close>

text \<open>
  \<^verbatim>\<open>SystemParamService\<close> reads: \<open>db_params\<close> is the value a lookup finds (cache or table); a key
  that is absent or cannot be read has no entry.
\<close>
definition GetString :: "(string \<rightharpoonup> string) \<Rightarrow> string \<Rightarrow> string \<Rightarrow> string" where
  "GetString params key defaultVal = (case params key of None \<Rightarrow> defaultVal | Some v \<Rightarrow> v)"

definition GetInt :: "(string \<rightharpoonup> string) \<Rightarrow> string \<Rightarrow> int \<Rightarrow> int" where
  "GetInt params key defaultVal = (let raw = GetString params key [] in
     if raw = [] then defaultVal
     else case Atoi raw of None \<Rightarrow> defaultVal | Some n \<Rightarrow> n)"

lemma GetInt_absent [simp]: "params key = None \<Longrightarrow> GetInt params key d = d"
  by (simp add: GetInt_def GetString_def)

lemma GetInt_stored: "params key = Some (Itoa n) \<Longrightarrow> in_int64 n \<Longrightarrow> GetInt params key d = n"
  by (simp add: GetInt_def GetString_def Atoi_Itoa)

section \<open>Statements on list tables\<close>

text \<open>\<^verbatim>\<open>UPDATE ... SET ... WHERE\<close> on a table kept as a list.\<close>
definition update_where :: "('r \<Rightarrow> bool) \<Rightarrow> ('r \<Rightarrow> 'r) \<Rightarrow> 'r list \<Rightarrow> 'r list" where
  "update_where p f rows = map (\<lambda>r. if p r then f r else r) rows"

definition count_where :: "('r \<Rightarrow> bool) \<Rightarrow> 'r list \<Rightarrow> int" where
  "count_where p rows = int (length (filter p rows))"

lemma length_update_where [simp]: "length (update_where p f rows) = length rows"
  by (simp add: update_where_def)

lemma update_where_Nil [simp]: "update_where p f [] = []"
  by (simp add: update_where_def)

lemma update_where_Cons [simp]:
  "update_where p f (r # rows) = (if p r then f r else r) # update_where p f rows"
  by (simp add: update_where_def)

lemma update_where_append [simp]: "update_where p f (xs @ ys) = update_where p f xs @ update_where p f ys"
  by (simp add: update_where_def)

lemma update_where_none: "(\<And>r. r \<in> set rows \<Longrightarrow> \<not> p r) \<Longrightarrow> update_where p f rows = rows"
  by (induction rows) auto

lemma set_update_where: "set (update_where p f rows) = f ` {r \<in> set rows. p r} \<union> {r \<in> set rows. \<not> p r}"
  by (induction rows) auto

lemma map_update_where:
  "(\<And>r. g (f r) = g r) \<Longrightarrow> map g (update_where p f rows) = map g rows"
  by (induction rows) auto

lemma count_where_nonneg [simp]: "0 \<le> count_where p rows"
  by (simp add: count_where_def)

lemma count_where_simps [simp]:
  "count_where p [] = 0"
  "count_where p (r # rows) = (if p r then 1 else 0) + count_where p rows"
  by (simp_all add: count_where_def)

lemma count_where_append [simp]: "count_where p (xs @ ys) = count_where p xs + count_where p ys"
  by (simp add: count_where_def)

lemma count_where_pos_iff: "0 < count_where p rows \<longleftrightarrow> (\<exists>r\<in>set rows. p r)"
  by (induction rows) (auto simp: add_nonneg_pos intro: add_pos_nonneg)

lemma count_where_mset: "mset xs = mset ys \<Longrightarrow> count_where P xs = count_where P ys"
  unfolding count_where_def by (metis mset_filter size_mset)

lemma count_where_all: "(\<And>x. x \<in> set xs \<Longrightarrow> P x) \<Longrightarrow> count_where P xs = int (length xs)"
  by (simp add: count_where_def)

lemma count_where_none: "(\<And>x. x \<in> set xs \<Longrightarrow> \<not> P x) \<Longrightarrow> count_where P xs = 0"
  by (simp add: count_where_def filter_empty_conv)

lemma count_where_le_length: "count_where P xs \<le> int (length xs)"
  by (simp add: count_where_def)

lemma count_where_mono: "(\<And>x. x \<in> set xs \<Longrightarrow> P x \<Longrightarrow> Q x) \<Longrightarrow> count_where P xs \<le> count_where Q xs"
  by (induction xs) force+

end
