(* ===== verification/Scoring.thy ===== *)
theory Scoring
  imports Database
begin

text \<open>
  Prediction scoring (\<^verbatim>\<open>service/scoring_service.go\<close>), extras scoring
  (\<^verbatim>\<open>service/extra_scoring_service.go\<close>) and the batch writes they use
  (\<^verbatim>\<open>repository/prediction_repository.go\<close>, \<^verbatim>\<open>repository/query_helpers.go\<close>). Logging, metrics and
  tracing calls have no effect on the result and are left out. Scores and rule values come from
  16 and 32 bit columns, so the 64-bit sums of the point calculation cannot wrap and are
  written on \<open>int\<close>.
\<close>

section \<open>Point calculation\<close>

record scoringConfig =
  exactScore :: int
  correctOutcome :: int
  goalDifference :: int
  extraTimeBonus :: int
  penaltiesBonus :: int

datatype matchOutcome = outcomeHomeWin | outcomeDraw | outcomeAwayWin

definition outcome :: "int \<Rightarrow> int \<Rightarrow> matchOutcome" where
  "outcome home away = (if home > away then outcomeHomeWin
     else if home < away then outcomeAwayWin else outcomeDraw)"

definition goalDiff :: "int \<Rightarrow> int \<Rightarrow> int" where
  "goalDiff home away = (let d = home - away in if d < 0 then - d else d)"

definition basePoints :: "Prediction \<Rightarrow> int \<Rightarrow> int \<Rightarrow> scoringConfig \<Rightarrow> int \<times> bool" where
  "basePoints pred actualHome actualAway cfg =
    (if p_HomeScore pred = actualHome \<and> p_AwayScore pred = actualAway then (exactScore cfg, True)
     else
       let predOutcome = outcome (p_HomeScore pred) (p_AwayScore pred);
           actualOutcome = outcome actualHome actualAway
       in if predOutcome \<noteq> actualOutcome then
            (if goalDiff (p_HomeScore pred) (p_AwayScore pred) = goalDiff actualHome actualAway
               then (goalDifference cfg, False)
             else (PointsIncorrectResult, False))
          else
            let pts = correctOutcome cfg;
                pts' = (if actualOutcome \<noteq> outcomeDraw \<and>
                           goalDiff (p_HomeScore pred) (p_AwayScore pred) = goalDiff actualHome actualAway
                        then pts + goalDifference cfg else pts)
            in (pts', True))"

definition penaltiesWinnerBonus :: "string option \<Rightarrow> string option \<Rightarrow> scoringConfig \<Rightarrow> int" where
  "penaltiesWinnerBonus predWinner actualWinner cfg = (case (predWinner, actualWinner) of
     (Some p, Some a) \<Rightarrow> if p \<noteq> a then 0 else penaltiesBonus cfg
   | _ \<Rightarrow> 0)"

definition calculatePoints ::
  "Prediction \<Rightarrow> int \<Rightarrow> int \<Rightarrow> WinMethod option \<Rightarrow> string option \<Rightarrow> scoringConfig \<Rightarrow> int" where
  "calculatePoints pred actualHome actualAway actualWinMethod actualPenaltyWinner cfg =
    (let base = fst (basePoints pred actualHome actualAway cfg) in
     case (actualWinMethod, p_PredictedWinMethod pred) of
       (Some actual, Some predicted) \<Rightarrow>
         if actual = WinMethodNormal then base
         else if actual = WinMethodExtraTime then
           (if predicted = WinMethodExtraTime then base + extraTimeBonus cfg else base)
         else if actual = WinMethodPenalties then
           (if predicted = WinMethodPenalties
              then base + penaltiesWinnerBonus (p_PredictedPenaltyWinner pred) actualPenaltyWinner cfg
            else base)
         else base
     | _ \<Rightarrow> base)"

section \<open>Configuration\<close>

definition cfg_of_log :: "PredictionScoreLog \<Rightarrow> scoringConfig" where
  "cfg_of_log e = \<lparr>exactScore = sl_CfgExactScore e, correctOutcome = sl_CfgCorrectOutcome e,
     goalDifference = sl_CfgGoalDiff e, extraTimeBonus = sl_CfgExtraTimeBonus e,
     penaltiesBonus = sl_CfgPenaltiesBonus e\<rparr>"

definition earliest_cfg :: "PredictionScoreLog list \<Rightarrow> int \<Rightarrow> scoringConfig option" where
  "earliest_cfg log matchID = map_option cfg_of_log (find (\<lambda>e. sl_MatchID e = matchID) log)"

definition GetScoringCfgSnapshot :: "int \<Rightarrow> scoringConfig option dbprog" where
  "GetScoringCfgSnapshot matchID = tx_query (\<lambda>s. earliest_cfg (db_score_log s) matchID)"

definition loadGlobalConfig :: "(string \<rightharpoonup> string) \<Rightarrow> scoringConfig" where
  "loadGlobalConfig params = \<lparr>
     exactScore = GetInt params ''scoring.exact_score'' PointsExactScore,
     correctOutcome = GetInt params ''scoring.correct_outcome'' PointsCorrectOutcome,
     goalDifference = GetInt params ''scoring.goal_difference'' PointsGoalDifference,
     extraTimeBonus = GetInt params ''scoring.extra_time_bonus'' DefaultScoringExtraTimeBonus,
     penaltiesBonus = GetInt params ''scoring.penalties_bonus'' DefaultScoringPenaltiesBonus\<rparr>"

definition configForPhase :: "MatchPhase \<Rightarrow> scoringConfig dbprog" where
  "configForPhase phase = tx_try (tx_query (\<lambda>s. db_scoring_rules s phase))
     (\<lambda>_. tx_read (\<lambda>s. loadGlobalConfig (db_params s)))
     (\<lambda>rule. case rule of
        None \<Rightarrow> tx_read (\<lambda>s. loadGlobalConfig (db_params s))
      | Some r \<Rightarrow>
          if \<not> sr_IsActive r then tx_read (\<lambda>s. loadGlobalConfig (db_params s))
          else tx_ret \<lparr>exactScore = sr_ExactScore r, correctOutcome = sr_CorrectOutcome r,
                 goalDifference = sr_GoalDifference r, extraTimeBonus = sr_ExtraTimeBonus r,
                 penaltiesBonus = sr_PenaltiesBonus r\<rparr>)"

definition resolveConfig :: "int \<Rightarrow> MatchPhase \<Rightarrow> scoringConfig dbprog" where
  "resolveConfig matchID phase = tx_try (GetScoringCfgSnapshot matchID)
     (\<lambda>_. configForPhase phase)
     (\<lambda>snapshot. case snapshot of
        Some c \<Rightarrow> tx_ret c
      | None \<Rightarrow> configForPhase phase)"

section \<open>Batch writes\<close>

function chunks :: "nat \<Rightarrow> 'a list \<Rightarrow> 'a list list" where
  "chunks n xs = (if n = 0 \<or> xs = [] then [] else take n xs # chunks n (drop n xs))"
  by pat_completeness auto
termination by (relation "measure (length \<circ> snd)") auto

declare chunks.simps [simp del]

text \<open>
  The statement of \<^verbatim>\<open>applyChunkedPointsUpdate\<close> on a table with primary key \<open>key\<close>: rows named in the
  point list whose \<open>scored_at\<close> is null get their points. \<open>put t v\<close> writes the two columns.
\<close>
definition apply_points ::
  "('r \<Rightarrow> int) \<Rightarrow> ('r \<Rightarrow> bool) \<Rightarrow> (time \<Rightarrow> int \<Rightarrow> 'r \<Rightarrow> 'r) \<Rightarrow> time \<Rightarrow> (int \<times> int) list \<Rightarrow> 'r list \<Rightarrow> 'r list" where
  "apply_points key scored put now pts rows =
     update_where (\<lambda>r. \<not> scored r \<and> map_of pts (key r) \<noteq> None) (\<lambda>r. put now (the (map_of pts (key r))) r) rows"

text \<open>Point values are sent as 32-bit integers; \<open>stmt now chunk\<close> is the update of one table.\<close>
definition applyChunkedPointsUpdate ::
  "(time \<Rightarrow> (int \<times> int) list \<Rightarrow> db \<Rightarrow> db) \<Rightarrow> (int \<times> int) list \<Rightarrow> int \<Rightarrow> unit dbprog" where
  "applyChunkedPointsUpdate stmt points chunkSize =
    (if points = [] then tx_ret ()
     else tx_iter (\<lambda>chunk. tx_exec (\<lambda>s.
        if list_all (\<lambda>(_, p). in_int32 p) chunk then Inr ((), stmt (db_now s) chunk s)
        else Inl (OtherError ''int4 out of range''))) (chunks (nat chunkSize) points))"

definition scored_prediction :: "Prediction \<Rightarrow> bool" where
  "scored_prediction p = (p_ScoredAt p \<noteq> None)"

definition put_points :: "time \<Rightarrow> int \<Rightarrow> Prediction \<Rightarrow> Prediction" where
  "put_points now v p = p\<lparr>p_Points := Some v, p_ScoredAt := Some now, p_UpdatedAt := now\<rparr>"

definition update_prediction_points :: "time \<Rightarrow> (int \<times> int) list \<Rightarrow> db \<Rightarrow> db" where
  "update_prediction_points now pts s =
     s\<lparr>db_predictions := apply_points p_ID scored_prediction put_points now pts (db_predictions s)\<rparr>"

text \<open>
  \<^verbatim>\<open>PredictionRepository.ScoreMatchBatch\<close>. The result is the slice handed to the scorer, which the
  closure of the caller captures. \<open>maxAttempts\<close> is the retry policy.
\<close>
definition ScoreMatchBatch ::
  "nat \<Rightarrow> int \<Rightarrow> (Prediction list \<Rightarrow> (int \<times> int) list) \<Rightarrow> int \<Rightarrow> Prediction list dbprog" where
  "ScoreMatchBatch maxAttempts matchID scorer chunkSize =
    (let chunkSize' = (if chunkSize \<le> 0 then DefaultScoringUpdateChunkSize else chunkSize) in
     withRetryTx [] maxAttempts
       (tx_bind (tx_query (\<lambda>s. filter (\<lambda>p. p_MatchID p = matchID) (db_predictions s))) (\<lambda>predictions.
        tx_bind (applyChunkedPointsUpdate update_prediction_points (scorer predictions) chunkSize') (\<lambda>_.
        tx_ret predictions))))"

definition in_int16 :: "int \<Rightarrow> bool" where
  "in_int16 n \<longleftrightarrow> - (2 ^ 15) \<le> n \<and> n < 2 ^ 15"

definition log_fits :: "PredictionScoreLog \<Rightarrow> bool" where
  "log_fits e \<longleftrightarrow> list_all in_int16 ((case sl_OldPoints e of None \<Rightarrow> [] | Some v \<Rightarrow> [v]) @
     [sl_NewPoints e, sl_MatchHomeScore e, sl_MatchAwayScore e, sl_PredHomeScore e, sl_PredAwayScore e,
      sl_CfgExactScore e, sl_CfgCorrectOutcome e, sl_CfgGoalDiff e, sl_CfgExtraTimeBonus e, sl_CfgPenaltiesBonus e])"

definition InsertScoringBatch :: "PredictionScoreLog list \<Rightarrow> unit dbprog" where
  "InsertScoringBatch entries =
    (if entries = [] then tx_ret ()
     else tx_exec (\<lambda>s. if list_all log_fits entries
       then Inr ((), s\<lparr>db_score_log := db_score_log s @ entries\<rparr>)
       else Inl (PgError ''22003'')))"

section \<open>ScoreMatch\<close>

definition loadFinishedMatch :: "int \<Rightarrow> string \<Rightarrow> Match dbprog" where
  "loadFinishedMatch matchID notFinishedMsg =
    tx_bind (tx_query (\<lambda>s. get_match s matchID)) (\<lambda>match.
      case match of
        None \<Rightarrow> tx_err (NotFound (''match '' @ Itoa matchID @ '' not found''))
      | Some m \<Rightarrow>
          if m_Status m \<noteq> MatchStatusFinished then tx_err (Validation notFinishedMsg) else tx_ret m)"

definition score_log_entry ::
  "Match \<Rightarrow> int \<Rightarrow> int \<Rightarrow> scoringConfig \<Rightarrow> (int \<times> int) list \<Rightarrow> Prediction \<Rightarrow> PredictionScoreLog" where
  "score_log_entry match homeScore awayScore cfg newPoints pred = \<lparr>
     sl_PredictionID = p_ID pred, sl_MatchID = p_MatchID pred, sl_UserID = p_UserID pred,
     sl_OldPoints = p_Points pred,
     sl_NewPoints = (case map_of newPoints (p_ID pred) of Some v \<Rightarrow> v | None \<Rightarrow> 0),
     sl_MatchHomeScore = homeScore, sl_MatchAwayScore = awayScore,
     sl_MatchWinMethod = m_WinMethod match, sl_MatchPhase = m_Phase match,
     sl_PredHomeScore = p_HomeScore pred, sl_PredAwayScore = p_AwayScore pred,
     sl_PredWinMethod = p_PredictedWinMethod pred,
     sl_CfgExactScore = exactScore cfg, sl_CfgCorrectOutcome = correctOutcome cfg,
     sl_CfgGoalDiff = goalDifference cfg, sl_CfgExtraTimeBonus = extraTimeBonus cfg,
     sl_CfgPenaltiesBonus = penaltiesBonus cfg\<rparr>"

definition writeScoringLog ::
  "Prediction list \<Rightarrow> (int \<times> int) list \<Rightarrow> Match \<Rightarrow> int \<Rightarrow> int \<Rightarrow> scoringConfig \<Rightarrow> unit dbprog" where
  "writeScoringLog predictions newPoints match homeScore awayScore cfg =
    tx_try (InsertScoringBatch (map (score_log_entry match homeScore awayScore cfg newPoints) predictions))
      (\<lambda>_. tx_ret ()) tx_ret"

text \<open>The closure \<^verbatim>\<open>ScoreMatch\<close> passes to the batch.\<close>
definition score_closure :: "Match \<Rightarrow> int \<Rightarrow> int \<Rightarrow> scoringConfig \<Rightarrow> Prediction list \<Rightarrow> (int \<times> int) list" where
  "score_closure match homeScore awayScore cfg preds =
     map (\<lambda>pred. (p_ID pred,
       calculatePoints pred homeScore awayScore (m_WinMethod match) (m_PenaltyWinner match) cfg)) preds"

text \<open>\<^verbatim>\<open>ScoreMatch\<close> from the point where the match and its two scores are known, then the whole.\<close>
definition score_finished :: "nat \<Rightarrow> int \<Rightarrow> Match \<Rightarrow> int \<Rightarrow> int \<Rightarrow> unit dbprog" where
  "score_finished maxAttempts matchID match homeScore awayScore =
    tx_bind (resolveConfig matchID (m_Phase match)) (\<lambda>cfg.
    tx_bind (tx_read (\<lambda>s. GetInt (db_params s) ''scoring.update_chunk_size'' DefaultScoringUpdateChunkSize)) (\<lambda>chunkSize.
    tx_bind (ScoreMatchBatch maxAttempts matchID (score_closure match homeScore awayScore cfg) chunkSize) (\<lambda>capturedPreds.
      if capturedPreds = [] then tx_ret ()
      else if chunkSize = 0 then tx_err (Raw (OtherError ''panic: integer divide by zero''))
      else writeScoringLog capturedPreds (score_closure match homeScore awayScore cfg capturedPreds)
             match homeScore awayScore cfg)))"

definition ScoreMatch :: "nat \<Rightarrow> int \<Rightarrow> unit dbprog" where
  "ScoreMatch maxAttempts matchID =
    tx_bind (loadFinishedMatch matchID ''scoring requires a finished match with a confirmed result'') (\<lambda>match.
      case (m_HomeScore match, m_AwayScore match) of
        (Some homeScore, Some awayScore) \<Rightarrow> score_finished maxAttempts matchID match homeScore awayScore
      | _ \<Rightarrow> tx_err (Validation ''match result is missing home or away score''))"

section \<open>Extras\<close>

definition defaultExtraPoints :: "ExtraType \<Rightarrow> int" where
  "defaultExtraPoints extraType =
    (if extraType = ExtraTypeFirstScorer then DefaultExtraFirstScorerPoints
     else if extraType = ExtraTypeHalftimeResult then DefaultExtraHalftimeResultPoints
     else if extraType = ExtraTypeHomeTeamScores \<or> extraType = ExtraTypeAwayTeamScores
       then DefaultExtraTeamScoresPoints
     else 0)"

definition pointsForType :: "ExtraType \<Rightarrow> int dbprog" where
  "pointsForType extraType = tx_try (tx_query (\<lambda>s. db_extra_rules s extraType))
     (\<lambda>_. tx_ret (defaultExtraPoints extraType))
     (\<lambda>rule. case rule of
        None \<Rightarrow> tx_ret (defaultExtraPoints extraType)
      | Some r \<Rightarrow> tx_ret (if \<not> er_IsActive r then defaultExtraPoints extraType else er_Points r))"

definition teamScoresAnswer :: "int option \<Rightarrow> int option \<Rightarrow> string option" where
  "teamScoresAnswer halftimeGoals fulltimeGoals = (case (halftimeGoals, fulltimeGoals) of
     (Some ht, Some ft) \<Rightarrow>
       if ft < ht then None
       else Some (let scoredFirstHalf = ht > 0; scoredSecondHalf = ft > ht in
         if scoredFirstHalf \<and> scoredSecondHalf then ''both_halves''
         else if scoredFirstHalf then ''first_half''
         else if scoredSecondHalf then ''second_half''
         else ''none'')
   | _ \<Rightarrow> None)"

definition correctExtraAnswers :: "Match \<Rightarrow> ExtraType \<Rightarrow> string option" where
  "correctExtraAnswers m extraType =
    (if extraType = ExtraTypeFirstScorer then m_FirstScoringTeam m
     else if extraType = ExtraTypeHomeTeamScores then teamScoresAnswer (m_HalftimeHomeScore m) (m_HomeScore m)
     else if extraType = ExtraTypeAwayTeamScores then teamScoresAnswer (m_HalftimeAwayScore m) (m_AwayScore m)
     else if extraType = ExtraTypeHalftimeResult then
       (case (m_HalftimeHomeScore m, m_HalftimeAwayScore m) of
          (Some h, Some a) \<Rightarrow> Some (FormatScorelineAnswer h a)
        | _ \<Rightarrow> None)
     else None)"

definition scored_extra :: "ExtraPrediction \<Rightarrow> bool" where
  "scored_extra p = (ep_ScoredAt p \<noteq> None)"

definition put_extra_points :: "time \<Rightarrow> int \<Rightarrow> ExtraPrediction \<Rightarrow> ExtraPrediction" where
  "put_extra_points now v p = p\<lparr>ep_Points := Some v, ep_ScoredAt := Some now\<rparr>"

definition update_extra_points :: "time \<Rightarrow> (int \<times> int) list \<Rightarrow> db \<Rightarrow> db" where
  "update_extra_points now pts s =
     s\<lparr>db_extra_predictions := apply_points ep_ID scored_extra put_extra_points now pts (db_extra_predictions s)\<rparr>"

definition ExtraScoreMatchBatch ::
  "nat \<Rightarrow> int \<Rightarrow> (ExtraPrediction list \<Rightarrow> (int \<times> int) list) \<Rightarrow> int \<Rightarrow> unit dbprog" where
  "ExtraScoreMatchBatch maxAttempts matchID scorer chunkSize =
    (let chunkSize' = (if chunkSize \<le> 0 then DefaultScoringUpdateChunkSize else chunkSize) in
     withRetryTx () maxAttempts
       (tx_bind (tx_query (\<lambda>s. filter (\<lambda>p. ep_MatchID p = matchID) (db_extra_predictions s))) (\<lambda>predictions.
        applyChunkedPointsUpdate update_extra_points (scorer predictions) chunkSize')))"

definition extra_closure :: "(ExtraType \<Rightarrow> string option) \<Rightarrow> (ExtraType \<Rightarrow> int) \<Rightarrow> ExtraPrediction list \<Rightarrow> (int \<times> int) list" where
  "extra_closure answers points preds = concat (map (\<lambda>pred. case answers (ep_ExtraType pred) of
       None \<Rightarrow> []
     | Some correct \<Rightarrow> [(ep_ID pred, if ep_Answer pred = correct then points (ep_ExtraType pred) else 0)]) preds)"

text \<open>The point values of the four types, read one after the other in the order of \<^verbatim>\<open>AllExtraTypes\<close>.\<close>
fun extra_points :: "ExtraType list \<Rightarrow> (ExtraType \<Rightarrow> int) dbprog" where
  "extra_points [] = tx_ret (\<lambda>_. 0)"
| "extra_points (et # ets) = tx_bind (pointsForType et) (\<lambda>p. tx_bind (extra_points ets) (\<lambda>f. tx_ret (f(et := p))))"

definition ScoreExtras :: "nat \<Rightarrow> int \<Rightarrow> unit dbprog" where
  "ScoreExtras maxAttempts matchID =
    tx_bind (loadFinishedMatch matchID ''extras scoring requires a finished match'') (\<lambda>match.
    tx_bind (extra_points AllExtraTypes) (\<lambda>points.
    ExtraScoreMatchBatch maxAttempts matchID (extra_closure (correctExtraAnswers match) points)
      DefaultScoringUpdateChunkSize))"

section \<open>Properties of the point calculation\<close>

definition cfg_sane :: "scoringConfig \<Rightarrow> bool" where
  "cfg_sane cfg \<longleftrightarrow> 0 \<le> correctOutcome cfg \<and> 0 \<le> goalDifference cfg \<and> 0 \<le> extraTimeBonus cfg \<and>
     0 \<le> penaltiesBonus cfg \<and> correctOutcome cfg + goalDifference cfg \<le> exactScore cfg"

lemma goalDiff_abs: "goalDiff h a = \<bar>h - a\<bar>"
  by (simp add: goalDiff_def Let_def)

lemma outcome_sgn: "outcome h a = outcome h' a' \<longleftrightarrow> sgn (h - a) = sgn (h' - a')"
  by (auto simp: outcome_def sgn_if)

text \<open>The base points in terms of the signed margins of the prediction and of the result.\<close>
lemma basePoints_margins:
  "fst (basePoints p h a cfg) =
    (let d = p_HomeScore p - p_AwayScore p; d' = h - a in
     if p_HomeScore p = h \<and> p_AwayScore p = a then exactScore cfg
     else if d = d' \<and> d' \<noteq> 0 then correctOutcome cfg + goalDifference cfg
     else if sgn d = sgn d' then correctOutcome cfg
     else if \<bar>d\<bar> = \<bar>d'\<bar> then goalDifference cfg
     else 0)"
proof -
  let ?d = "p_HomeScore p - p_AwayScore p" and ?d' = "h - a"
  have draw: "outcome h a = outcomeDraw \<longleftrightarrow> ?d' = 0" by (simp add: outcome_def)
  have eq: "sgn ?d = sgn ?d' \<Longrightarrow> \<bar>?d\<bar> = \<bar>?d'\<bar> \<longleftrightarrow> ?d = ?d'"
    by (simp add: sgn_if split: if_splits) linarith+
  have neq: "sgn ?d \<noteq> sgn ?d' \<Longrightarrow> ?d \<noteq> ?d'" by auto
  show ?thesis
    unfolding basePoints_def Let_def outcome_sgn goalDiff_abs draw PointsIncorrectResult_def
    using eq neq by auto
qed

text \<open>
  The points of a prediction, as a function of the predicted and the real margin: the exact score
  first, then the right signed margin of a decided match, the right winner or draw, the right margin
  for the wrong side, nothing; plus the extra-time bonus when both sides name extra time and the
  penalties bonus when both name penalties and the picked winner is the recorded one.
\<close>
theorem calculatePoints_spec:
  "calculatePoints p h a wm pw cfg =
    (let d = p_HomeScore p - p_AwayScore p; d' = h - a in
     (if p_HomeScore p = h \<and> p_AwayScore p = a then exactScore cfg
      else if d = d' \<and> d' \<noteq> 0 then correctOutcome cfg + goalDifference cfg
      else if sgn d = sgn d' then correctOutcome cfg
      else if \<bar>d\<bar> = \<bar>d'\<bar> then goalDifference cfg
      else 0)) +
    (if wm = Some ''extra_time'' \<and> p_PredictedWinMethod p = Some ''extra_time'' then extraTimeBonus cfg else 0) +
    (if wm = Some ''penalties'' \<and> p_PredictedWinMethod p = Some ''penalties'' \<and> pw \<noteq> None \<and>
        p_PredictedPenaltyWinner p = pw then penaltiesBonus cfg else 0)"
  unfolding calculatePoints_def basePoints_margins penaltiesWinnerBonus_def domain_consts
  by (cases wm; cases "p_PredictedWinMethod p"; cases pw; cases "p_PredictedPenaltyWinner p") (simp_all add: Let_def)

text \<open>
  For a sane configuration no prediction earns more than the exact score and the two bonuses, none
  earns a negative amount, and a prediction of the exact score earns at least as much as any other
  prediction with the same win-method guess.
\<close>
theorem calculatePoints_bounds:
  assumes "cfg_sane cfg"
  shows "0 \<le> calculatePoints p h a wm pw cfg \<and>
    calculatePoints p h a wm pw cfg \<le> exactScore cfg + max (extraTimeBonus cfg) (penaltiesBonus cfg) \<and>
    calculatePoints p h a wm pw cfg \<le> calculatePoints (p\<lparr>p_HomeScore := h, p_AwayScore := a\<rparr>) h a wm pw cfg"
  using assms unfolding calculatePoints_spec cfg_sane_def Let_def by (simp add: max_def)

theorem calculatePoints_bounds_witness:
  "0 \<le> calculatePoints \<lparr>p_ID = 1, p_UserID = 1, p_MatchID = 1, p_HomeScore = 2, p_AwayScore = 1,
         p_PredictedWinMethod = Some ''penalties'', p_PredictedPenaltyWinner = None, p_Points = None, p_ScoredAt = None, p_UpdatedAt = 0\<rparr>
       1 1 (Some ''penalties'') (Some ''home'')
       \<lparr>exactScore = 5, correctOutcome = 2, goalDifference = 1, extraTimeBonus = 1, penaltiesBonus = 2\<rparr>"
  by (rule calculatePoints_bounds [THEN conjunct1]) (simp add: cfg_sane_def)

definition swap_sides :: "Prediction \<Rightarrow> Prediction" where
  "swap_sides p = p\<lparr>p_HomeScore := p_AwayScore p, p_AwayScore := p_HomeScore p\<rparr>"

lemma calculatePoints_swap:
  "calculatePoints (swap_sides p) a h wm pw cfg = calculatePoints p h a wm pw cfg"
  unfolding calculatePoints_spec swap_sides_def Let_def by (auto simp: sgn_if)

section \<open>Batch-scored tables\<close>

text \<open>
  What the two prediction tables share: a key that scoring does not change and a flag that it sets.
\<close>
locale scored_table =
  fixes key :: "'r \<Rightarrow> int" and scored :: "'r \<Rightarrow> bool" and put :: "time \<Rightarrow> int \<Rightarrow> 'r \<Rightarrow> 'r"
  assumes key_put [simp]: "key (put t v r) = key r"
    and scored_put [simp]: "scored (put t v r)"
begin

abbreviation apply_pts :: "time \<Rightarrow> (int \<times> int) list \<Rightarrow> 'r list \<Rightarrow> 'r list" where
  "apply_pts \<equiv> apply_points key scored put"

lemma apply_pts_Nil [simp]: "apply_pts now [] rows = rows"
  by (simp add: apply_points_def update_where_none)

lemma keys_apply_pts: "map key (apply_pts now pts rows) = map key rows"
  by (simp add: apply_points_def update_where_def)

lemma apply_pts_scored: "(\<forall>r\<in>set rows. scored r \<or> map_of pts (key r) = None) \<Longrightarrow> apply_pts now pts rows = rows"
  by (auto simp: apply_points_def intro!: update_where_none)

lemma apply_pts_append:
  assumes "fst ` set xs \<inter> fst ` set ys = {}"
  shows "apply_pts now (xs @ ys) rows = apply_pts now ys (apply_pts now xs rows)"
proof -
  have "map_of (xs @ ys) k = (case map_of xs k of None \<Rightarrow> map_of ys k | Some v \<Rightarrow> Some v)"
    "map_of xs k \<noteq> None \<Longrightarrow> map_of ys k = None" for k
    using assms by (auto simp: map_of_append map_add_def map_of_eq_None_iff split: option.splits dest!: map_of_SomeD)
  then show ?thesis
    by (auto simp: apply_points_def update_where_def split: option.splits)
qed

text \<open>Writing the points chunk by chunk is writing them at once.\<close>
lemma fold_chunks_apply_pts:
  assumes "0 < n" "distinct (map fst pts)"
  shows "fold (apply_pts now) (chunks n pts) rows = apply_pts now pts rows"
  using assms
proof (induction n pts arbitrary: rows rule: chunks.induct)
  case (1 n pts)
  show ?case
  proof (cases "pts = []")
    case True
    then show ?thesis by (simp add: chunks.simps)
  next
    case False
    have d: "fst ` set (take n pts) \<inter> fst ` set (drop n pts) = {}" "distinct (map fst (drop n pts))"
      using 1(3) distinct_append [of "map fst (take n pts)" "map fst (drop n pts)"]
      by (simp_all flip: map_append)
    have "fold (apply_pts now) (chunks n pts) rows = apply_pts now (drop n pts) (apply_pts now (take n pts) rows)"
      using 1 False d(2) by (subst chunks.simps) simp
    also have "\<dots> = apply_pts now (take n pts @ drop n pts) rows"
      by (rule apply_pts_append [OF d(1), symmetric])
    finally show ?thesis by simp
  qed
qed

end

interpretation predictions: scored_table p_ID scored_prediction put_points
  by unfold_locales (simp_all add: put_points_def scored_prediction_def)

interpretation extras: scored_table ep_ID scored_extra put_extra_points
  by unfold_locales (simp_all add: put_extra_points_def scored_extra_def)

section \<open>Running ScoreMatch\<close>

lemma iter_prediction_points:
  assumes "tx_iter (\<lambda>chunk. tx_exec (\<lambda>s.
        if list_all (\<lambda>(_, p). in_int32 p) chunk then Inr ((), update_prediction_points (db_now s) chunk s)
        else Inl (OtherError ''int4 out of range''))) cs fs s = (Inr u, fs', s')"
  shows "s' = s\<lparr>db_predictions := fold (apply_points p_ID scored_prediction put_points (db_now s)) cs (db_predictions s)\<rparr>"
  using assms
  by (induction cs arbitrary: fs s) (fastforce simp: tx_runs update_prediction_points_def split: if_splits)+

lemma iter_extra_points:
  assumes "tx_iter (\<lambda>chunk. tx_exec (\<lambda>s.
        if list_all (\<lambda>(_, p). in_int32 p) chunk then Inr ((), update_extra_points (db_now s) chunk s)
        else Inl (OtherError ''int4 out of range''))) cs fs s = (Inr u, fs', s')"
  shows "s' = s\<lparr>db_extra_predictions := fold (apply_points ep_ID scored_extra put_extra_points (db_now s)) cs (db_extra_predictions s)\<rparr>"
  using assms
  by (induction cs arbitrary: fs s) (fastforce simp: tx_runs update_extra_points_def split: if_splits)+

lemma applyChunked_predictions:
  assumes "applyChunkedPointsUpdate update_prediction_points pts n fs s = (Inr u, fs', s')"
    "0 < n" "distinct (map fst pts)"
  shows "s' = update_prediction_points (db_now s) pts s"
proof (cases "pts = []")
  case True
  then show ?thesis using assms(1) by (simp add: applyChunkedPointsUpdate_def tx_runs update_prediction_points_def)
next
  case False
  with assms(1) have "s' = s\<lparr>db_predictions :=
      fold (apply_points p_ID scored_prediction put_points (db_now s)) (chunks (nat n) pts) (db_predictions s)\<rparr>"
    by (intro iter_prediction_points) (simp add: applyChunkedPointsUpdate_def)
  then show ?thesis
    using predictions.fold_chunks_apply_pts [of "nat n" pts] assms(2,3) by (simp add: update_prediction_points_def)
qed

lemma applyChunked_extras:
  assumes "applyChunkedPointsUpdate update_extra_points pts n fs s = (Inr u, fs', s')"
    "0 < n" "distinct (map fst pts)"
  shows "s' = update_extra_points (db_now s) pts s"
proof (cases "pts = []")
  case True
  then show ?thesis using assms(1) by (simp add: applyChunkedPointsUpdate_def tx_runs update_extra_points_def)
next
  case False
  with assms(1) have "s' = s\<lparr>db_extra_predictions :=
      fold (apply_points ep_ID scored_extra put_extra_points (db_now s)) (chunks (nat n) pts) (db_extra_predictions s)\<rparr>"
    by (intro iter_extra_points) (simp add: applyChunkedPointsUpdate_def)
  then show ?thesis
    using extras.fold_chunks_apply_pts [of "nat n" pts] assms(2,3) by (simp add: update_extra_points_def)
qed

lemma ScoreMatchBatch_run:
  assumes "ScoreMatchBatch n matchID scorer cs fs s = (Inr ps, fs', s')" "0 < n"
    "distinct (map fst (scorer (filter (\<lambda>p. p_MatchID p = matchID) (db_predictions s))))"
  shows "ps = filter (\<lambda>p. p_MatchID p = matchID) (db_predictions s) \<and>
    s' = update_prediction_points (db_now s) (scorer ps) s"
proof -
  from withRetryTx_Inr [OF assms(1) [unfolded ScoreMatchBatch_def Let_def] assms(2)]
  show ?thesis
    using assms(3) by (auto simp: tx_runs DefaultScoringUpdateChunkSize_def dest!: applyChunked_predictions split: if_splits)
qed

lemma configForPhase_keeps: "configForPhase phase fs s = (r, fs', s') \<Longrightarrow> s' = s \<and> is_ok r"
  by (auto simp: configForPhase_def tx_defs split: prod.splits option.splits sum.splits if_splits)

lemma resolveConfig_keeps: "resolveConfig matchID phase fs s = (r, fs', s') \<Longrightarrow> s' = s \<and> is_ok r"
  by (auto simp: resolveConfig_def GetScoringCfgSnapshot_def tx_defs split: prod.splits option.splits sum.splits
      dest!: configForPhase_keeps)

lemma writeScoringLog_run:
  "writeScoringLog ps np m h a cfg fs s = (r, fs', s') \<Longrightarrow> r = Inr () \<and>
     (s' = s \<or> s' = s\<lparr>db_score_log := db_score_log s @ map (score_log_entry m h a cfg np) ps\<rparr>)"
  by (auto simp: writeScoringLog_def InsertScoringBatch_def tx_defs split: prod.splits option.splits sum.splits if_splits)

lemma loadFinishedMatch_run:
  "loadFinishedMatch matchID msg fs s = (Inr m, fs', s') \<longleftrightarrow>
     get_match s matchID = Some m \<and> m_Status m = MatchStatusFinished \<and> s' = s \<and> next_fault fs = (None, fs')"
  by (auto simp: loadFinishedMatch_def tx_runs split: option.splits if_splits)

lemma loadFinishedMatch_keeps: "loadFinishedMatch matchID msg fs s = (r, fs', s') \<Longrightarrow> s' = s"
  by (auto simp: loadFinishedMatch_def tx_defs split: prod.splits option.splits sum.splits if_splits)

lemma distinct_score_closure:
  "distinct (map p_ID rows) \<Longrightarrow> distinct (map fst (score_closure m h a cfg (filter P rows)))"
  by (simp add: score_closure_def comp_def distinct_map_filter)

lemma map_of_score_closure:
  assumes "distinct (map p_ID rows)" "p \<in> set rows"
  shows "map_of (score_closure m h a cfg (filter P rows)) (p_ID p) =
    (if P p then Some (calculatePoints p h a (m_WinMethod m) (m_PenaltyWinner m) cfg) else None)"
  using assms by (induction rows) (auto simp: score_closure_def map_of_eq_None_iff image_iff)

text \<open>The effect of a complete batch: the unscored predictions of the match get their points.\<close>
definition score_rows :: "int \<Rightarrow> Match \<Rightarrow> int \<Rightarrow> int \<Rightarrow> scoringConfig \<Rightarrow> time \<Rightarrow> Prediction list \<Rightarrow> Prediction list" where
  "score_rows matchID m h a cfg now rows = map (\<lambda>p. if p_MatchID p = matchID \<and> p_ScoredAt p = None
     then p\<lparr>p_Points := Some (calculatePoints p h a (m_WinMethod m) (m_PenaltyWinner m) cfg), p_ScoredAt := Some now, p_UpdatedAt := now\<rparr>
     else p) rows"

lemma apply_score_closure:
  assumes "distinct (map p_ID rows)"
  shows "apply_points p_ID scored_prediction put_points now
      (score_closure m h a cfg (filter (\<lambda>p. p_MatchID p = matchID) rows)) rows = score_rows matchID m h a cfg now rows"
  using map_of_score_closure [OF assms]
  by (auto simp: apply_points_def update_where_def score_rows_def scored_prediction_def put_points_def)

lemma score_finished_run:
  assumes "score_finished n matchID m h a fs s = (Inr u, fs', s')" "0 < n" "distinct (map p_ID (db_predictions s))"
  obtains cfg fs1 where "resolveConfig matchID (m_Phase m) fs s = (Inr cfg, fs1, s)"
    "db_predictions s' = score_rows matchID m h a cfg (db_now s) (db_predictions s)"
    "db_score_log s' = db_score_log s \<or> db_score_log s' = db_score_log s @
       map (score_log_entry m h a cfg (score_closure m h a cfg (filter (\<lambda>p. p_MatchID p = matchID) (db_predictions s))))
         (filter (\<lambda>p. p_MatchID p = matchID) (db_predictions s))"
proof -
  let ?sel = "filter (\<lambda>p. p_MatchID p = matchID) (db_predictions s)"
  from assms(1) obtain cfg fs2 s1 ps fs3 s3 where
    res: "resolveConfig matchID (m_Phase m) fs s = (Inr cfg, fs2, s1)"
    and batch: "ScoreMatchBatch n matchID (score_closure m h a cfg)
        (GetInt (db_params s1) ''scoring.update_chunk_size'' DefaultScoringUpdateChunkSize) fs2 s1 = (Inr ps, fs3, s3)"
    and rest: "(if ps = [] then tx_ret ()
      else if GetInt (db_params s1) ''scoring.update_chunk_size'' DefaultScoringUpdateChunkSize = 0
        then tx_err (Raw (OtherError ''panic: integer divide by zero''))
      else writeScoringLog ps (score_closure m h a cfg ps) m h a cfg) fs3 s3 = (Inr u, fs', s')"
    unfolding score_finished_def tx_bind_run tx_read_run by blast
  have s1: "s1 = s" using resolveConfig_keeps [OF res] by simp
  have b: "ps = ?sel" "s3 = update_prediction_points (db_now s) (score_closure m h a cfg ps) s"
    using ScoreMatchBatch_run [OF batch assms(2)] assms(3) by (simp_all add: s1 distinct_score_closure)
  have s3: "db_predictions s3 = score_rows matchID m h a cfg (db_now s) (db_predictions s)" "db_score_log s3 = db_score_log s"
    using b apply_score_closure [OF assms(3)] by (simp_all add: update_prediction_points_def)
  have "s' = s3 \<or> s' = s3\<lparr>db_score_log := db_score_log s3 @ map (score_log_entry m h a cfg (score_closure m h a cfg ps)) ps\<rparr>"
  proof (cases "ps = []")
    case True
    with rest show ?thesis by (simp add: tx_ret_run)
  next
    case False
    with rest have "writeScoringLog ps (score_closure m h a cfg ps) m h a cfg fs3 s3 = (Inr u, fs', s')"
      by (simp add: tx_err_run split: if_splits)
    from writeScoringLog_run [OF this] show ?thesis by simp
  qed
  then show ?thesis using that [of cfg fs2] res s1 s3 b(1) by auto
qed

lemma ScoreMatch_run:
  assumes "ScoreMatch n matchID fs s = (Inr u, fs', s')"
  obtains m h a fs1 where "get_match s matchID = Some m" "m_Status m = MatchStatusFinished"
    "m_HomeScore m = Some h" "m_AwayScore m = Some a" "next_fault fs = (None, fs1)"
    "score_finished n matchID m h a fs1 s = (Inr u, fs', s')"
proof -
  from assms obtain m fs1 where m: "get_match s matchID = Some m" "m_Status m = MatchStatusFinished"
      "next_fault fs = (None, fs1)"
    and rest: "(case (m_HomeScore m, m_AwayScore m) of (Some h, Some a) \<Rightarrow> score_finished n matchID m h a
      | _ \<Rightarrow> tx_err (Validation ''match result is missing home or away score'')) fs1 s = (Inr u, fs', s')"
    unfolding ScoreMatch_def tx_bind_run loadFinishedMatch_run by blast
  have "m_HomeScore m \<noteq> None" "m_AwayScore m \<noteq> None"
    using rest by (auto simp: tx_err_run split: option.splits)
  then obtain h a where ha: "m_HomeScore m = Some h" "m_AwayScore m = Some a" by blast
  with rest have "score_finished n matchID m h a fs1 s = (Inr u, fs', s')" by simp
  from that [OF m(1,2) ha m(3) this] show ?thesis .
qed

lemma ScoreMatch_rows:
  assumes "ScoreMatch n matchID fs s = (Inr u, fs', s')" "0 < n" "distinct (map p_ID (db_predictions s))"
  obtains m h a cfg fs1 fs2 where "get_match s matchID = Some m" "m_Status m = MatchStatusFinished"
    "m_HomeScore m = Some h" "m_AwayScore m = Some a"
    "resolveConfig matchID (m_Phase m) fs1 s = (Inr cfg, fs2, s)"
    "db_predictions s' = score_rows matchID m h a cfg (db_now s) (db_predictions s)"
proof -
  obtain m h a fs1 where m: "get_match s matchID = Some m" "m_Status m = MatchStatusFinished"
    "m_HomeScore m = Some h" "m_AwayScore m = Some a" "score_finished n matchID m h a fs1 s = (Inr u, fs', s')"
    using ScoreMatch_run [OF assms(1)] by metis
  obtain cfg fs2 where c: "resolveConfig matchID (m_Phase m) fs1 s = (Inr cfg, fs2, s)"
    "db_predictions s' = score_rows matchID m h a cfg (db_now s) (db_predictions s)"
    by (rule score_finished_run [OF m(5) assms(2,3)])
  from that [OF m(1-4) c] show ?thesis .
qed


lemma score_rows_frozen:
  "(\<forall>p\<in>set rows. p_MatchID p = matchID \<longrightarrow> p_ScoredAt p \<noteq> None) \<Longrightarrow> score_rows matchID m h a cfg now rows = rows"
  by (induction rows) (auto simp: score_rows_def)

lemma score_rows_all_scored:
  "\<forall>p\<in>set (score_rows matchID m h a cfg now rows). p_MatchID p = matchID \<longrightarrow> p_ScoredAt p \<noteq> None"
proof
  fix p assume "p \<in> set (score_rows matchID m h a cfg now rows)"
  then obtain q where "p = (if p_MatchID q = matchID \<and> p_ScoredAt q = None
     then q\<lparr>p_Points := Some (calculatePoints q h a (m_WinMethod m) (m_PenaltyWinner m) cfg), p_ScoredAt := Some now, p_UpdatedAt := now\<rparr>
     else q)" unfolding score_rows_def set_map by blast
  then show "p_MatchID p = matchID \<longrightarrow> p_ScoredAt p \<noteq> None"
    by (cases "p_MatchID q = matchID \<and> p_ScoredAt q = None") auto
qed

lemma ids_score_rows: "map p_ID (score_rows matchID m h a cfg now rows) = map p_ID rows"
  by (simp add: score_rows_def)

lemma score_finished_error:
  assumes "score_finished n matchID m h a fs s = (Inl e, fs', s')"
    "GetInt (db_params s) ''scoring.update_chunk_size'' DefaultScoringUpdateChunkSize \<noteq> 0"
  shows "s' = s"
proof -
  obtain cfg fs1 where res: "resolveConfig matchID (m_Phase m) fs s = (Inr cfg, fs1, s)"
    using resolveConfig_keeps [of matchID "m_Phase m" fs s] by (cases "resolveConfig matchID (m_Phase m) fs s") (auto simp: is_ok_iff)
  let ?cs = "GetInt (db_params s) ''scoring.update_chunk_size'' DefaultScoringUpdateChunkSize"
  obtain r fs2 s2 where b: "ScoreMatchBatch n matchID (score_closure m h a cfg) ?cs fs1 s = (r, fs2, s2)"
    by (metis prod_cases3)
  show ?thesis
  proof (cases r)
    case (Inl e')
    have "s2 = s" by (rule withRetryTx_Inl [OF b [unfolded Inl ScoreMatchBatch_def Let_def]])
    moreover have "s' = s2" using assms(1) res b Inl by (simp add: score_finished_def tx_bind_def tx_read_def)
    ultimately show ?thesis by simp
  next
    case (Inr ps)
    then have "(if ps = [] then tx_ret () else writeScoringLog ps (score_closure m h a cfg ps) m h a cfg) fs2 s2 = (Inl e, fs', s')"
      using assms res b by (simp add: score_finished_def tx_bind_def tx_read_def split: if_splits)
    then show ?thesis
      by (cases "ps = []") (auto simp: tx_ret_def dest!: writeScoringLog_run)
  qed
qed

lemma ScoreMatch_error:
  assumes "ScoreMatch n matchID fs s = (Inl e, fs', s')"
    "GetInt (db_params s) ''scoring.update_chunk_size'' DefaultScoringUpdateChunkSize \<noteq> 0"
  shows "s' = s"
proof -
  obtain r fs1 s1 where l: "loadFinishedMatch matchID ''scoring requires a finished match with a confirmed result'' fs s = (r, fs1, s1)"
    by (metis prod_cases3)
  have s1: "s1 = s" using loadFinishedMatch_keeps [OF l] .
  show ?thesis
  proof (cases r)
    case (Inl e')
    then show ?thesis using assms(1) l s1 by (simp add: ScoreMatch_def tx_bind_def)
  next
    case (Inr m)
    show ?thesis
    proof (cases "\<exists>h a. m_HomeScore m = Some h \<and> m_AwayScore m = Some a")
      case True
      then obtain h a where "m_HomeScore m = Some h" "m_AwayScore m = Some a" by blast
      with assms(1) l s1 Inr have "score_finished n matchID m h a fs1 s = (Inl e, fs', s')"
        by (simp add: ScoreMatch_def tx_bind_def)
      then show ?thesis using score_finished_error assms(2) by blast
    next
      case False
      with assms(1) l s1 Inr show ?thesis
        by (auto simp: ScoreMatch_def tx_bind_def tx_err_def split: option.splits)
    qed
  qed
qed

subsection \<open>Concrete data\<close>

definition example_prediction :: "int \<Rightarrow> int \<Rightarrow> int \<Rightarrow> Prediction" where
  "example_prediction i h a = \<lparr>p_ID = i, p_UserID = i, p_MatchID = 7, p_HomeScore = h, p_AwayScore = a,
     p_PredictedWinMethod = None, p_PredictedPenaltyWinner = None, p_Points = None, p_ScoredAt = None, p_UpdatedAt = 0\<rparr>"

definition example_match :: "int \<Rightarrow> int \<Rightarrow> Match" where
  "example_match h a = \<lparr>m_ID = 7, m_HomeTeam = ''GUA'', m_AwayTeam = ''MEX'', m_HomeScore = Some h, m_AwayScore = Some a,
     m_Status = MatchStatusFinished, m_Phase = PhaseGroupStage, m_GroupLabel = Some ''A'', m_WinMethod = None,
     m_PenaltyWinner = None, m_Period = None, m_PenaltyHomeScore = None, m_PenaltyAwayScore = None, m_KickoffAt = 1, m_HomeSlotID = None, m_AwaySlotID = None, m_MatchCode = None,
     m_HalftimeHomeScore = Some 1, m_HalftimeAwayScore = Some 0, m_FirstScoringTeam = Some ''home'',
     m_ExternalProvider = None, m_ExternalMatchID = None, m_LastSyncedAt = None\<rparr>"

definition example_db :: db where
  "example_db = empty_db\<lparr>db_now := 100, db_matches := [example_match 2 1],
     db_predictions := [example_prediction 1 2 1, example_prediction 2 3 2, example_prediction 3 0 0],
     db_extra_predictions := [\<lparr>ep_ID = 1, ep_UserID = 1, ep_MatchID = 7, ep_ExtraType = ExtraTypeHomeTeamScores,
       ep_Answer = ''both_halves'', ep_Points = None, ep_ScoredAt = None\<rparr>]\<rparr>"

lemma example_score_ok: "fst (ScoreMatch 3 7 [] example_db) = Inr ()"
  by code_simp

lemma example_ids: "distinct (map p_ID (db_predictions example_db))"
  by code_simp


section \<open>Rescoring\<close>

lemma ScoreMatch_predictions:
  assumes "ScoreMatch n matchID fs s = (Inr u, fs', s')" "0 < n" "distinct (map p_ID (db_predictions s))"
  obtains m h a cfg where "db_predictions s' = score_rows matchID m h a cfg (db_now s) (db_predictions s)"
  by (rule ScoreMatch_rows [OF assms]) blast

lemma ScoreMatch_frozen:
  assumes "0 < n" "distinct (map p_ID (db_predictions s))"
    "\<forall>p\<in>set (db_predictions s). p_MatchID p = matchID \<longrightarrow> p_ScoredAt p \<noteq> None"
    "GetInt (db_params s) ''scoring.update_chunk_size'' DefaultScoringUpdateChunkSize \<noteq> 0"
  shows "db_predictions (snd (snd (ScoreMatch n matchID fs s))) = db_predictions s"
proof -
  obtain r fs' s' where run: "ScoreMatch n matchID fs s = (r, fs', s')" by (metis prod_cases3)
  show ?thesis
  proof (cases r)
    case (Inl e)
    with run assms(4) have "s' = s" using ScoreMatch_error by blast
    with run show ?thesis by simp
  next
    case (Inr u)
    obtain m h a cfg where "db_predictions s' = score_rows matchID m h a cfg (db_now s) (db_predictions s)"
      by (rule ScoreMatch_predictions [OF run [unfolded Inr] assms(1,2)])
    with run score_rows_frozen [OF assms(3)] show ?thesis by simp
  qed
qed

text \<open>
  C25: points are final. Once a match has been scored, no later run of \<^verbatim>\<open>ScoreMatch\<close> changes any
  prediction, whatever happened to the match result, the scoring rules, the parameters and the
  score log in between: a replay is harmless, and a corrected result never reaches the points.
\<close>
theorem rescoring_keeps_points:
  assumes "ScoreMatch n matchID fs s = (Inr u, fs', s')" "0 < n" "distinct (map p_ID (db_predictions s))"
    "db_predictions t = db_predictions s'"
    "GetInt (db_params t) ''scoring.update_chunk_size'' DefaultScoringUpdateChunkSize \<noteq> 0"
  shows "db_predictions (snd (snd (ScoreMatch n matchID gs t))) = db_predictions s'"
proof -
  obtain m h a cfg where p: "db_predictions s' = score_rows matchID m h a cfg (db_now s) (db_predictions s)"
    by (rule ScoreMatch_predictions [OF assms(1-3)])
  have "distinct (map p_ID (db_predictions t))" using assms(3,4) p by (simp add: ids_score_rows)
  from ScoreMatch_frozen [OF assms(2) this _ assms(5), of matchID gs] score_rows_all_scored assms(4) p
  show ?thesis by simp
qed

text \<open>The result 2-1 was corrected to 0-0: the prediction 2-1 keeps its five points.\<close>
theorem rescoring_keeps_points_witness:
  "db_predictions (snd (snd (ScoreMatch 3 7 []
      ((snd (snd (ScoreMatch 3 7 [] example_db)))\<lparr>db_matches := [example_match 0 0]\<rparr>)))) =
   db_predictions (snd (snd (ScoreMatch 3 7 [] example_db))) \<and>
   map p_Points (db_predictions (snd (snd (ScoreMatch 3 7 [] example_db)))) = [Some 5, Some 3, Some 0]"
proof
  show "map p_Points (db_predictions (snd (snd (ScoreMatch 3 7 [] example_db)))) = [Some 5, Some 3, Some 0]"
    by code_simp
  have "GetInt (db_params (snd (snd (ScoreMatch 3 7 [] example_db)))) ''scoring.update_chunk_size''
      DefaultScoringUpdateChunkSize \<noteq> 0" by code_simp
  then show "db_predictions (snd (snd (ScoreMatch 3 7 []
      ((snd (snd (ScoreMatch 3 7 [] example_db)))\<lparr>db_matches := [example_match 0 0]\<rparr>)))) =
   db_predictions (snd (snd (ScoreMatch 3 7 [] example_db)))"
    by (intro rescoring_keeps_points [OF run_eta [OF example_score_ok] _ example_ids]) simp_all
qed

lemma find_append: "find P (xs @ ys) = (case find P xs of None \<Rightarrow> find P ys | Some x \<Rightarrow> Some x)"
  by (induction xs) auto

lemma earliest_cfg_append: "earliest_cfg log matchID = Some c \<Longrightarrow> earliest_cfg (log @ es) matchID = Some c"
  by (auto simp: earliest_cfg_def find_append)

lemma resolveConfig_snapshot:
  assumes "earliest_cfg (db_score_log s) matchID = Some c" "next_fault fs = (None, fs')"
  shows "resolveConfig matchID phase fs s = (Inr c, fs', s)"
  using assms by (simp add: resolveConfig_def GetScoringCfgSnapshot_def tx_defs)

text \<open>
  A replay uses the rules of the first scoring run. When the score log of the match holds a
  configuration and the two lookups before the batch succeed, \<^verbatim>\<open>ScoreMatch\<close> scores the predictions that
  are still open with that configuration, whatever the scoring rules and parameters are now, and the
  log keeps it as the configuration of every later replay.
\<close>
theorem replay_uses_first_config:
  assumes "earliest_cfg (db_score_log s) matchID = Some c" "0 < n" "distinct (map p_ID (db_predictions s))"
    "ScoreMatch n matchID (None # None # fs) s = (Inr u, fs', s')"
  shows "(\<exists>m h a. get_match s matchID = Some m \<and> m_HomeScore m = Some h \<and> m_AwayScore m = Some a \<and>
      db_predictions s' = score_rows matchID m h a c (db_now s) (db_predictions s)) \<and>
    earliest_cfg (db_score_log s') matchID = Some c"
proof -
  obtain m h a where m: "get_match s matchID = Some m" "m_HomeScore m = Some h" "m_AwayScore m = Some a"
    "score_finished n matchID m h a (None # fs) s = (Inr u, fs', s')"
    using ScoreMatch_run [OF assms(4)] by (metis next_fault.simps(2) prod.inject)
  obtain cfg fs1 where c: "resolveConfig matchID (m_Phase m) (None # fs) s = (Inr cfg, fs1, s)"
    "db_predictions s' = score_rows matchID m h a cfg (db_now s) (db_predictions s)"
    and log: "db_score_log s' = db_score_log s \<or> (\<exists>es. db_score_log s' = db_score_log s @ es)"
    using score_finished_run [OF m(4) assms(2,3)] by metis
  have "cfg = c" using resolveConfig_snapshot [OF assms(1), of "None # fs" fs "m_Phase m"] c(1) by simp
  then show ?thesis using m c(2) log assms(1) earliest_cfg_append by fastforce
qed

definition replay_db :: db where
  "replay_db = (snd (snd (ScoreMatch 3 7 [] example_db)))\<lparr>
     db_scoring_rules := [PhaseGroupStage \<mapsto> \<lparr>sr_Phase = PhaseGroupStage, sr_ExactScore = 50, sr_CorrectOutcome = 20,
       sr_GoalDifference = 10, sr_ExtraTimeBonus = 0, sr_PenaltiesBonus = 0, sr_IsActive = True\<rparr>],
     db_predictions := [example_prediction 4 2 1]\<rparr>"

theorem replay_uses_first_config_witness:
  "(\<exists>m h a. get_match replay_db 7 = Some m \<and> m_HomeScore m = Some h \<and> m_AwayScore m = Some a \<and>
      db_predictions (snd (snd (ScoreMatch 3 7 [None, None] replay_db))) =
        score_rows 7 m h a (loadGlobalConfig Map.empty) (db_now replay_db) (db_predictions replay_db)) \<and>
    earliest_cfg (db_score_log (snd (snd (ScoreMatch 3 7 [None, None] replay_db)))) 7 = Some (loadGlobalConfig Map.empty)"
proof -
  have r: "fst (ScoreMatch 3 7 [None, None] replay_db) = Inr ()" by code_simp
  have c: "earliest_cfg (db_score_log replay_db) 7 = Some (loadGlobalConfig Map.empty)" by code_simp
  have d: "distinct (map p_ID (db_predictions replay_db))" by code_simp
  show ?thesis by (rule replay_uses_first_config [OF c _ d run_eta [OF r]]) simp
qed

section \<open>Properties of extras scoring\<close>

lemma AllExtraTypes_distinct: "distinct AllExtraTypes"
  by code_simp

lemma pointsForType_keeps: "pointsForType et fs s = (r, fs', s') \<Longrightarrow> s' = s"
  by (auto simp: pointsForType_def tx_defs split: prod.splits option.splits)

lemma extra_points_keeps: "extra_points ets fs s = (r, fs', s') \<Longrightarrow> s' = s"
  by (induction ets arbitrary: fs r)
     (auto simp: tx_ret_def tx_bind_def split: prod.splits sum.splits dest!: pointsForType_keeps)

lemma map_of_extra_closure:
  assumes "distinct (map ep_ID rows)" "p \<in> set rows"
  shows "map_of (extra_closure answers points (filter P rows)) (ep_ID p) =
    (if P p then map_option (\<lambda>c. if ep_Answer p = c then points (ep_ExtraType p) else 0) (answers (ep_ExtraType p)) else None)"
proof -
  have none: "map_of (extra_closure answers points rs) k = None" if "k \<notin> ep_ID ` set rs" for rs k
    using that by (induction rs) (auto simp: extra_closure_def split: option.splits)
  show ?thesis using assms
  proof (induction rows)
    case (Cons r rows)
    let ?pt = "map_option (\<lambda>c. if ep_Answer r = c then points (ep_ExtraType r) else 0) (answers (ep_ExtraType r))"
    have step: "map_of (extra_closure answers points (filter P (r # rows))) k =
      (if k = ep_ID r \<and> P r \<and> ?pt \<noteq> None then ?pt else map_of (extra_closure answers points (filter P rows)) k)" for k
      by (simp add: extra_closure_def split: option.splits)
    show ?case
    proof (cases "p = r")
      case True
      have "ep_ID r \<notin> ep_ID ` set (filter P rows)" using Cons.prems(1) by auto
      from none [OF this] show ?thesis unfolding True step by auto
    next
      case False
      then have "p \<in> set rows" "ep_ID p \<noteq> ep_ID r" using Cons.prems by (auto simp: image_iff)
      then show ?thesis using Cons unfolding step by simp
    qed
  qed simp
qed

lemma distinct_extra_closure:
  "distinct (map ep_ID rows) \<Longrightarrow> distinct (map fst (extra_closure answers points (filter P rows)))"
proof (induction rows)
  case (Cons r rows)
  have "fst ` set (extra_closure answers points (filter P rows)) \<subseteq> ep_ID ` set rows"
    by (auto simp: extra_closure_def split: option.splits)
  with Cons show ?case by (auto simp: extra_closure_def split: option.splits)
qed (simp add: extra_closure_def)

lemma ExtraScoreMatchBatch_run:
  assumes "ExtraScoreMatchBatch n matchID scorer cs fs s = (Inr u, fs', s')" "0 < n"
    "distinct (map fst (scorer (filter (\<lambda>p. ep_MatchID p = matchID) (db_extra_predictions s))))"
  shows "s' = update_extra_points (db_now s) (scorer (filter (\<lambda>p. ep_MatchID p = matchID) (db_extra_predictions s))) s"
proof -
  from withRetryTx_Inr [OF assms(1) [unfolded ExtraScoreMatchBatch_def Let_def] assms(2)]
  show ?thesis
    using assms(3) by (auto simp: tx_runs DefaultScoringUpdateChunkSize_def dest!: applyChunked_extras split: if_splits)
qed

text \<open>
  C26: a successful \<^verbatim>\<open>ScoreExtras\<close> scores every open extra of the match whose answer is resolved: the
  points of its type for the resolved answer, zero for any other. Extras that cannot be resolved stay
  open, and nothing else in the table changes.
\<close>
theorem ScoreExtras_scores_resolved:
  assumes "ScoreExtras n matchID fs s = (Inr u, fs', s')" "0 < n" "distinct (map ep_ID (db_extra_predictions s))"
  shows "\<exists>m points fs1 fs2. get_match s matchID = Some m \<and> m_Status m = MatchStatusFinished \<and>
    extra_points AllExtraTypes fs1 s = (Inr points, fs2, s) \<and>
    db_extra_predictions s' = map (\<lambda>p. case correctExtraAnswers m (ep_ExtraType p) of
        None \<Rightarrow> p
      | Some correct \<Rightarrow>
          if ep_MatchID p = matchID \<and> ep_ScoredAt p = None
          then p\<lparr>ep_Points := Some (if ep_Answer p = correct then points (ep_ExtraType p) else 0), ep_ScoredAt := Some (db_now s)\<rparr>
          else p) (db_extra_predictions s)"
proof -
  from assms(1) obtain m fs1 points fs2 s2 where m: "get_match s matchID = Some m" "m_Status m = MatchStatusFinished"
    and p: "extra_points AllExtraTypes fs1 s = (Inr points, fs2, s2)"
    and b: "ExtraScoreMatchBatch n matchID (extra_closure (correctExtraAnswers m) points) DefaultScoringUpdateChunkSize fs2 s2
        = (Inr u, fs', s')"
    unfolding ScoreExtras_def tx_bind_run loadFinishedMatch_run by blast
  have s2: "s2 = s" using extra_points_keeps [OF p] .
  have "s' = update_extra_points (db_now s) (extra_closure (correctExtraAnswers m) points
      (filter (\<lambda>p. ep_MatchID p = matchID) (db_extra_predictions s))) s"
    using ExtraScoreMatchBatch_run [OF b assms(2)] distinct_extra_closure [OF assms(3)] by (simp add: s2)
  then have "db_extra_predictions s' = map (\<lambda>p. case correctExtraAnswers m (ep_ExtraType p) of
        None \<Rightarrow> p
      | Some correct \<Rightarrow>
          if ep_MatchID p = matchID \<and> ep_ScoredAt p = None
          then p\<lparr>ep_Points := Some (if ep_Answer p = correct then points (ep_ExtraType p) else 0), ep_ScoredAt := Some (db_now s)\<rparr>
          else p) (db_extra_predictions s)"
    by (simp add: update_extra_points_def apply_points_def update_where_def map_of_extra_closure [OF assms(3)]
        scored_extra_def put_extra_points_def split: option.splits)
  with m p s2 show ?thesis by blast
qed

theorem ScoreExtras_scores_resolved_witness:
  "\<exists>m points fs1 fs2. get_match example_db 7 = Some m \<and> m_Status m = MatchStatusFinished \<and>
    extra_points AllExtraTypes fs1 example_db = (Inr points, fs2, example_db) \<and>
    db_extra_predictions (snd (snd (ScoreExtras 3 7 [] example_db))) = map (\<lambda>p. case correctExtraAnswers m (ep_ExtraType p) of
        None \<Rightarrow> p
      | Some correct \<Rightarrow>
          if ep_MatchID p = 7 \<and> ep_ScoredAt p = None
          then p\<lparr>ep_Points := Some (if ep_Answer p = correct then points (ep_ExtraType p) else 0), ep_ScoredAt := Some (db_now example_db)\<rparr>
          else p) (db_extra_predictions example_db)"
proof -
  have r: "fst (ScoreExtras 3 7 [] example_db) = Inr ()" by code_simp
  have d: "distinct (map ep_ID (db_extra_predictions example_db))" by code_simp
  show ?thesis by (rule ScoreExtras_scores_resolved [OF run_eta [OF r] _ d]) simp
qed

text \<open>
  A match record whose extras fields describe a real course of play: half-time tallies between zero
  and the final score, within the accepted range, and a first scorer that scored.
\<close>
definition coherent_result :: "Match \<Rightarrow> int \<Rightarrow> int \<Rightarrow> bool" where
  "coherent_result m h a \<longleftrightarrow> m_HomeScore m = Some h \<and> m_AwayScore m = Some a \<and>
     (\<exists>hh ha. m_HalftimeHomeScore m = Some hh \<and> m_HalftimeAwayScore m = Some ha \<and>
        0 \<le> hh \<and> hh \<le> h \<and> hh \<le> 20 \<and> 0 \<le> ha \<and> ha \<le> a \<and> ha \<le> 20) \<and>
     (m_FirstScoringTeam m = Some ''home'' \<and> 0 < h \<or> m_FirstScoringTeam m = Some ''away'' \<and> 0 < a \<or>
      m_FirstScoringTeam m = Some ''none'' \<and> h = 0 \<and> a = 0)"

text \<open>
  Submission and resolution agree. For a user who predicted the final score exactly, every resolved
  answer of a coherent match passes both submission checks, so the validators never forbid the
  answer that will turn out to be right.
\<close>
theorem resolved_answers_are_submittable:
  assumes "coherent_result m h a" "et \<in> set AllExtraTypes" "correctExtraAnswers m et = Some answer"
  shows "is_ok (ValidateExtraAnswer et answer) \<and> is_ok (ValidateExtraAnswerAgainstPrediction et answer h a)"
proof -
  obtain hh ha where ht: "m_HalftimeHomeScore m = Some hh" "m_HalftimeAwayScore m = Some ha"
    "0 \<le> hh" "hh \<le> h" "hh \<le> 20" "0 \<le> ha" "ha \<le> a" "ha \<le> 20" and ft: "m_HomeScore m = Some h" "m_AwayScore m = Some a"
    using assms(1) unfolding coherent_result_def by blast
  have parse: "parseScorelineAnswer (FormatScorelineAnswer hh ha) = Some (hh, ha)"
    using ht by (intro parse_format_scoreline) simp_all
  consider "et = ExtraTypeFirstScorer" | "et = ExtraTypeHalftimeResult" | "et = ExtraTypeHomeTeamScores" | "et = ExtraTypeAwayTeamScores"
    using assms(2) by (auto simp: AllExtraTypes_def)
  then show ?thesis
  proof cases
    case 1
    with assms(3) have "m_FirstScoringTeam m = Some answer" by (simp add: correctExtraAnswers_def)
    with assms(1) ht 1 show ?thesis
      by (auto simp: coherent_result_def ValidateExtraAnswer_def validExtraAnswers_def domain_consts
          ValidateExtraAnswerAgainstPrediction_def validateFirstScorerAgainstPrediction_def)
  next
    case 2
    with assms(3) ht have "answer = FormatScorelineAnswer hh ha" by (simp add: correctExtraAnswers_def domain_consts)
    with ht 2 parse show ?thesis
      by (simp add: ValidateExtraAnswer_def validateHalftimeScoreAnswer_def maxHalftimeGoals_def
          ValidateExtraAnswerAgainstPrediction_def validateHalftimeAgainstPrediction_def domain_consts)
  next
    case 3
    with assms(3) have "teamScoresAnswer (Some hh) (Some h) = Some answer"
      by (simp add: correctExtraAnswers_def domain_consts ht ft)
    with ht 3 show ?thesis
      by (auto simp: teamScoresAnswer_def ValidateExtraAnswer_def validExtraAnswers_def teamScoresAnswers_def domain_consts
          ValidateExtraAnswerAgainstPrediction_def validateTeamScoresAgainstPrediction_def Let_def split: if_splits)
  next
    case 4
    with assms(3) have "teamScoresAnswer (Some ha) (Some a) = Some answer"
      by (simp add: correctExtraAnswers_def domain_consts ht ft)
    with ht 4 show ?thesis
      by (auto simp: teamScoresAnswer_def ValidateExtraAnswer_def validExtraAnswers_def teamScoresAnswers_def domain_consts
          ValidateExtraAnswerAgainstPrediction_def validateTeamScoresAgainstPrediction_def Let_def split: if_splits)
  qed
qed

theorem resolved_answers_are_submittable_witness:
  "is_ok (ValidateExtraAnswer ExtraTypeHomeTeamScores ''both_halves'') \<and>
   is_ok (ValidateExtraAnswerAgainstPrediction ExtraTypeHomeTeamScores ''both_halves'' 2 1)"
  by (rule resolved_answers_are_submittable [of "example_match 2 1"])
     (simp_all add: coherent_result_def example_match_def correctExtraAnswers_def teamScoresAnswer_def domain_consts)

end
