(* ===== verification/GoSort.thy ===== *)
theory GoSort
  imports Prelude "HOL-Library.Product_Lexorder" "HOL-Library.List_Lexorder" "HOL-Library.Char_ord"
begin

text \<open>
  \<^verbatim>\<open>sort.Slice\<close> with a comparator. The library does not fix the algorithm; the model inserts one
  element after the other. The locale \<open>key_order\<close> is the contract of the comparators in the
  sources: they compare a key of a linear order. Under it every rearrangement without
  inversions is the modelled one as soon as the keys are distinct, so the choice of algorithm is
  not observable. Go compares strings byte by byte, which is the order of \<^verbatim>\<open>List_Lexorder\<close> over
  \<^verbatim>\<open>Char_ord\<close>.
\<close>

fun insert_by :: "('a \<Rightarrow> 'a \<Rightarrow> bool) \<Rightarrow> 'a \<Rightarrow> 'a list \<Rightarrow> 'a list" where
  "insert_by lt x [] = [x]"
| "insert_by lt x (y # ys) = (if lt y x then y # insert_by lt x ys else x # y # ys)"

definition sort_slice :: "('a \<Rightarrow> 'a \<Rightarrow> bool) \<Rightarrow> 'a list \<Rightarrow> 'a list" where
  "sort_slice lt xs = foldr (insert_by lt) xs []"

lemma mset_insert_by [simp]: "mset (insert_by lt x ys) = add_mset x (mset ys)"
  by (induction ys) auto

lemma mset_sort_slice [simp]: "mset (sort_slice lt xs) = mset xs"
  by (induction xs) (auto simp: sort_slice_def)

lemma set_sort_slice [simp]: "set (sort_slice lt xs) = set xs"
  by (metis mset_sort_slice set_mset_mset)

lemma length_sort_slice [simp]: "length (sort_slice lt xs) = length xs"
  by (metis mset_sort_slice size_mset)

lemma sort_slice_Nil_iff [simp]: "sort_slice lt xs = [] \<longleftrightarrow> xs = []"
  by (metis length_0_conv length_sort_slice)

locale key_order =
  fixes lt :: "'a \<Rightarrow> 'a \<Rightarrow> bool" and key :: "'a \<Rightarrow> 'k :: linorder"
  assumes lt_key: "lt a b \<longleftrightarrow> key a < key b"
begin

lemma insert_by_insort: "insert_by lt x ys = insort_key key x ys"
  by (induction ys) (auto simp: lt_key)

lemma sort_slice_sort_key: "sort_slice lt xs = sort_key key xs"
  by (simp add: sort_slice_def sort_key_def insert_by_insort [abs_def])

lemma no_inversions: "sorted_wrt (\<lambda>a b. \<not> lt b a) (sort_slice lt xs)"
proof -
  have "sorted (map key (sort_key key xs))" by simp
  then show ?thesis by (simp add: sort_slice_sort_key sorted_map sorted_wrt_map lt_key not_less)
qed

text \<open>Any correct sorting algorithm returns the same list when the keys are distinct.\<close>
lemma sort_unique:
  assumes "mset ys = mset xs" "sorted_wrt (\<lambda>a b. \<not> lt b a) ys" "inj_on key (set xs)"
  shows "ys = sort_slice lt xs"
proof -
  have "sorted (map key ys)" using assms(2) by (simp add: sorted_map lt_key not_less)
  moreover have "set ys = set xs" using assms(1) by (metis set_mset_mset)
  moreover have "filter (\<lambda>x. key k = key x) ys = filter (\<lambda>x. key k = key x) xs" if "k \<in> set ys" for k
  proof -
    have "filter (\<lambda>x. key k = key x) zs = filter ((=) k) zs" if "set zs = set xs" for zs
      using assms(3) that \<open>k \<in> set ys\<close> calculation by (intro filter_cong) (auto dest: inj_onD)
    moreover have "filter ((=) k) zs = replicate (count (mset zs) k) k" for zs
      by (induction zs) auto
    ultimately show ?thesis using assms(1) \<open>set ys = set xs\<close> by simp
  qed
  ultimately show ?thesis
    unfolding sort_slice_sort_key using assms(1) by (metis properties_for_sort_key)
qed

end

end
