(* ===== verification/Ranking.thy ===== *)
theory Ranking
  imports Database GoSort
begin

text \<open>
  Group leaderboards (\<^verbatim>\<open>service/ranking_service.go\<close>) and the aggregation queries behind them
  (\<^verbatim>\<open>repository/prediction_repository.go\<close>). The Go code collects rows in maps and ranges over them;
  \<open>order\<close> is the order in which one call happens to visit the point totals. \<open>sort.Slice\<close> is
  \<open>sort_slice\<close>; the in-place writes of ranks and prize flags are functions on the entry list.
\<close>

section \<open>Data\<close>

record LeaderboardEntry =
  le_User :: User
  le_TotalPoints :: int
  le_Rank :: int
  le_PrizeWinner :: bool

record UserPredictionStats =
  ups_CorrectCount :: int
  ups_TotalCount :: int
  ups_ExactCount :: int

record LeaderboardResult =
  lr_ActivePaidMembers :: int
  lr_WinnerCount :: int
  lr_EligibleForPrizes :: bool
  lr_Entries :: "LeaderboardEntry list"

section \<open>Queries\<close>

definition active_paid :: "int \<Rightarrow> GroupMembership \<Rightarrow> bool" where
  "active_paid quinielaID g \<longleftrightarrow> gm_QuinielaID g = quinielaID \<and> gm_Status g = MembershipActive \<and> gm_Paid g"

definition CountActivePaid :: "int \<Rightarrow> int dbprog" where
  "CountActivePaid quinielaID = tx_query (\<lambda>s. count_where (active_paid quinielaID) (db_memberships s))"

text \<open>
  The predictions that count for one member: scored ones; with a score-from-zero group only those on
  matches that kicked off at or after the flag and the member's joining date; with a phase only those on
  matches of the phase.
\<close>
definition counts_for ::
  "(int \<rightharpoonup> Match) \<Rightarrow> MatchPhase option \<Rightarrow> bool \<Rightarrow> time \<Rightarrow> GroupMembership \<Rightarrow> Prediction \<Rightarrow> bool" where
  "counts_for mtab phase scoreFromZero since g p \<longleftrightarrow>
     p_UserID p = gm_UserID g \<and> p_Points p \<noteq> None \<and>
     (case phase of None \<Rightarrow> True
      | Some ph \<Rightarrow> (case mtab (p_MatchID p) of None \<Rightarrow> False | Some m \<Rightarrow> m_Phase m = ph)) \<and>
     (scoreFromZero \<longrightarrow> (case mtab (p_MatchID p) of None \<Rightarrow> False
      | Some m \<Rightarrow> m_KickoffAt m \<ge> max since (case gm_JoinedAt g of None \<Rightarrow> since | Some t \<Rightarrow> t)))"

definition member_points ::
  "db \<Rightarrow> MatchPhase option \<Rightarrow> bool \<Rightarrow> time \<Rightarrow> GroupMembership \<Rightarrow> int" where
  "member_points s phase scoreFromZero since g =
     (\<Sum>p\<leftarrow>filter (counts_for (get_match s) phase scoreFromZero since g) (db_predictions s).
        (case p_Points p of Some v \<Rightarrow> v | None \<Rightarrow> 0))"

definition point_totals :: "db \<Rightarrow> MatchPhase option \<Rightarrow> int \<Rightarrow> bool \<Rightarrow> time \<Rightarrow> (int \<times> int) list" where
  "point_totals s phase quinielaID scoreFromZero since =
     map (\<lambda>g. (gm_UserID g, member_points s phase scoreFromZero since g))
       (filter (active_paid quinielaID) (db_memberships s))"

definition TotalPointsByQuiniela :: "int \<Rightarrow> bool \<Rightarrow> time \<Rightarrow> (int \<times> int) list dbprog" where
  "TotalPointsByQuiniela quinielaID scoreFromZero since =
     tx_query (\<lambda>s. point_totals s None quinielaID scoreFromZero since)"

definition TotalPointsByQuinielaAndPhase :: "int \<Rightarrow> MatchPhase \<Rightarrow> bool \<Rightarrow> time \<Rightarrow> (int \<times> int) list dbprog" where
  "TotalPointsByQuinielaAndPhase quinielaID phase scoreFromZero since =
     tx_query (\<lambda>s. point_totals s (Some phase) quinielaID scoreFromZero since)"

definition member_stats :: "Prediction list \<Rightarrow> int \<Rightarrow> UserPredictionStats" where
  "member_stats preds userID = (let ps = filter (\<lambda>p. p_UserID p = userID \<and> p_Points p \<noteq> None) preds in
     \<lparr>ups_CorrectCount = count_where (\<lambda>p. case p_Points p of Some v \<Rightarrow> v > 0 | None \<Rightarrow> False) ps,
      ups_TotalCount = count_where (\<lambda>p. True) ps,
      ups_ExactCount = count_where (\<lambda>p. p_Points p = Some PointsExactScore) ps\<rparr>)"

definition PredictionStatsByQuiniela :: "int \<Rightarrow> (int \<rightharpoonup> UserPredictionStats) dbprog" where
  "PredictionStatsByQuiniela quinielaID = tx_query (\<lambda>s userID.
     if \<exists>g\<in>set (db_memberships s). active_paid quinielaID g \<and> gm_UserID g = userID
     then Some (member_stats (db_predictions s) userID) else None)"

definition ListByIDs :: "int list \<Rightarrow> (int \<rightharpoonup> User) dbprog" where
  "ListByIDs ids = (if ids = [] then tx_ret Map.empty
     else tx_query (\<lambda>s id. if id \<in> set ids then
       (case db_users s id of Some u \<Rightarrow> if u_DeletedAt u = None then Some u else None | None \<Rightarrow> None) else None))"

section \<open>Service\<close>

definition quinielaSince :: "Quiniela \<Rightarrow> time" where
  "quinielaSince q = (case q_ScoreFromZeroSince q of None \<Rightarrow> 0 | Some t \<Rightarrow> t)"

text \<open>Ranging over the point totals: entries for the users that were found, the others are skipped.\<close>
fun hydrate :: "(int \<rightharpoonup> User) \<Rightarrow> (int \<times> int) list \<Rightarrow> LeaderboardEntry list" where
  "hydrate userByID [] = []"
| "hydrate userByID ((userID, pts) # rest) = (case userByID userID of
     None \<Rightarrow> hydrate userByID rest
   | Some u \<Rightarrow> \<lparr>le_User = u, le_TotalPoints = pts, le_Rank = 0, le_PrizeWinner = False\<rparr> # hydrate userByID rest)"

definition buildEntries :: "(int \<times> int) list \<Rightarrow> LeaderboardEntry list dbprog" where
  "buildEntries pointsByUser = tx_bind (ListByIDs (map fst pointsByUser)) (\<lambda>userByID.
     tx_ret (hydrate userByID pointsByUser))"

definition extractUserIDs :: "LeaderboardEntry list \<Rightarrow> int list" where
  "extractUserIDs entries = map (\<lambda>e. u_ID (le_User e)) entries"

definition distance_to :: "int \<Rightarrow> int \<Rightarrow> int" where
  "distance_to prediction target = (let d = go64 (prediction - target) in if d < 0 then go64 (- d) else d)"

definition fetchTiebreakerDistances :: "int list \<Rightarrow> (int \<rightharpoonup> int) dbprog" where
  "fetchTiebreakerDistances userIDs = tx_bind (tx_query (\<lambda>s. get_config s 1)) (\<lambda>cfg.
     let distances = (\<lambda>id. if id \<in> set userIDs then Some MaxInt else None) in
     case cfg of
       None \<Rightarrow> tx_ret distances
     | Some c \<Rightarrow> (case tc_Result c of
         None \<Rightarrow> tx_ret distances
       | Some result \<Rightarrow>
           if userIDs = [] then tx_ret distances
           else tx_bind (tx_query (\<lambda>s. filter (\<lambda>tb. tb_UserID tb \<in> set userIDs \<and> tb_TiebreakerConfigID tb = 1) (db_tiebreakers s)))
             (\<lambda>tbs. tx_ret (fold (\<lambda>tb ds. ds(tb_UserID tb \<mapsto> distance_to (tb_Prediction tb) result)) tbs distances))))"

definition tiebreakerDistance :: "(int \<rightharpoonup> int) \<Rightarrow> int \<Rightarrow> int" where
  "tiebreakerDistance distances userID = (case distances userID of Some d \<Rightarrow> d | None \<Rightarrow> MaxInt)"

definition statsFor :: "(int \<rightharpoonup> UserPredictionStats) \<Rightarrow> int \<Rightarrow> UserPredictionStats" where
  "statsFor stats userID = (case stats userID of Some s \<Rightarrow> s
     | None \<Rightarrow> \<lparr>ups_CorrectCount = 0, ups_TotalCount = 0, ups_ExactCount = 0\<rparr>)"

text \<open>The comparator of \<^verbatim>\<open>sortAndRank\<close>.\<close>
definition entry_less ::
  "(int \<rightharpoonup> UserPredictionStats) \<Rightarrow> (int \<rightharpoonup> int) \<Rightarrow> LeaderboardEntry \<Rightarrow> LeaderboardEntry \<Rightarrow> bool" where
  "entry_less stats distances a b =
    (if le_TotalPoints a \<noteq> le_TotalPoints b then le_TotalPoints a > le_TotalPoints b
     else let si = statsFor stats (u_ID (le_User a)); sj = statsFor stats (u_ID (le_User b)) in
       if ups_CorrectCount si \<noteq> ups_CorrectCount sj then ups_CorrectCount si > ups_CorrectCount sj
       else if ups_TotalCount si \<noteq> ups_TotalCount sj then ups_TotalCount si < ups_TotalCount sj
       else if ups_ExactCount si \<noteq> ups_ExactCount sj then ups_ExactCount si > ups_ExactCount sj
       else let di = tiebreakerDistance distances (u_ID (le_User a)); dj = tiebreakerDistance distances (u_ID (le_User b)) in
         if di \<noteq> dj then di < dj
         else u_ID (le_User a) < u_ID (le_User b))"

definition sameRank ::
  "(int \<rightharpoonup> UserPredictionStats) \<Rightarrow> (int \<rightharpoonup> int) \<Rightarrow> LeaderboardEntry \<Rightarrow> LeaderboardEntry \<Rightarrow> bool" where
  "sameRank stats distances a b =
    (if le_TotalPoints a \<noteq> le_TotalPoints b then False
     else let sa = statsFor stats (u_ID (le_User a)); sb = statsFor stats (u_ID (le_User b)) in
       if ups_CorrectCount sa \<noteq> ups_CorrectCount sb \<or> ups_TotalCount sa \<noteq> ups_TotalCount sb \<or> ups_ExactCount sa \<noteq> ups_ExactCount sb
         then False
       else tiebreakerDistance distances (u_ID (le_User a)) = tiebreakerDistance distances (u_ID (le_User b)))"

text \<open>The loop of \<^verbatim>\<open>assignRanks\<close> at index \<open>i\<close>, with the previous entry already ranked.\<close>
fun assignRanks_from ::
  "(int \<rightharpoonup> UserPredictionStats) \<Rightarrow> (int \<rightharpoonup> int) \<Rightarrow> int \<Rightarrow> LeaderboardEntry option \<Rightarrow> LeaderboardEntry list \<Rightarrow> LeaderboardEntry list" where
  "assignRanks_from stats distances i prev [] = []"
| "assignRanks_from stats distances i prev (e # es) =
    (let e' = (case prev of
        None \<Rightarrow> e\<lparr>le_Rank := i + 1\<rparr>
      | Some p \<Rightarrow> if \<not> sameRank stats distances e p then e\<lparr>le_Rank := i + 1\<rparr> else e\<lparr>le_Rank := le_Rank p\<rparr>)
     in e' # assignRanks_from stats distances (i + 1) (Some e') es)"

definition assignRanks ::
  "(int \<rightharpoonup> UserPredictionStats) \<Rightarrow> (int \<rightharpoonup> int) \<Rightarrow> LeaderboardEntry list \<Rightarrow> LeaderboardEntry list" where
  "assignRanks stats distances entries = assignRanks_from stats distances 0 None entries"

definition sortAndRank ::
  "(int \<rightharpoonup> UserPredictionStats) \<Rightarrow> (int \<rightharpoonup> int) \<Rightarrow> LeaderboardEntry list \<Rightarrow> LeaderboardEntry list" where
  "sortAndRank stats distances entries =
     assignRanks stats distances (sort_slice (entry_less stats distances) entries)"

definition assignPrizes :: "int \<Rightarrow> LeaderboardEntry list \<Rightarrow> LeaderboardEntry list" where
  "assignPrizes activePaidMembers entries =
    (if entries = [] then entries
     else let winnerCount = WinnerCount activePaidMembers in
       if winnerCount = 0 then entries
       else if winnerCount > int (length entries) then map (\<lambda>e. e\<lparr>le_PrizeWinner := True\<rparr>) entries
       else let cutoffRank = le_Rank (entries ! nat (winnerCount - 1)) in
         map (\<lambda>e. e\<lparr>le_PrizeWinner := le_Rank e \<le> cutoffRank\<rparr>) entries)"

definition buildLeaderboard :: "int \<Rightarrow> (int \<times> int) list \<Rightarrow> LeaderboardResult dbprog" where
  "buildLeaderboard quinielaID pointsByUser = tx_bind (CountActivePaid quinielaID) (\<lambda>activePaid.
     let result = \<lparr>lr_ActivePaidMembers = activePaid, lr_WinnerCount = WinnerCount activePaid,
           lr_EligibleForPrizes = EligibleForPayments activePaid, lr_Entries = []\<rparr> in
     if pointsByUser = [] then tx_ret result
     else tx_bind (buildEntries pointsByUser) (\<lambda>entries.
          tx_bind (PredictionStatsByQuiniela quinielaID) (\<lambda>stats.
          tx_bind (fetchTiebreakerDistances (extractUserIDs entries)) (\<lambda>distances.
          tx_ret (result\<lparr>lr_Entries := assignPrizes activePaid (sortAndRank stats distances entries)\<rparr>)))))"

definition GetQuinielaByID :: "int \<Rightarrow> Quiniela dbprog" where
  "GetQuinielaByID quinielaID = tx_bind (tx_query (\<lambda>s. get_quiniela s quinielaID)) (\<lambda>q.
     case q of
       None \<Rightarrow> tx_err (NotFound (''quiniela '' @ Itoa quinielaID @ '' not found''))
     | Some q \<Rightarrow> if q_DeletedAt q \<noteq> None then tx_err (NotFound (''quiniela '' @ Itoa quinielaID @ '' not found''))
         else tx_ret q)"

definition GetLeaderboard :: "((int \<times> int) list \<Rightarrow> (int \<times> int) list) \<Rightarrow> int \<Rightarrow> LeaderboardResult dbprog" where
  "GetLeaderboard order quinielaID = tx_bind (GetQuinielaByID quinielaID) (\<lambda>q.
     tx_bind (TotalPointsByQuiniela quinielaID (q_ScoreFromZero q) (quinielaSince q)) (\<lambda>pointsByUser.
     buildLeaderboard quinielaID (order pointsByUser)))"

definition GetPhaseLeaderboard ::
  "((int \<times> int) list \<Rightarrow> (int \<times> int) list) \<Rightarrow> int \<Rightarrow> MatchPhase \<Rightarrow> LeaderboardResult dbprog" where
  "GetPhaseLeaderboard order quinielaID phase = tx_bind (GetQuinielaByID quinielaID) (\<lambda>q.
     tx_bind (TotalPointsByQuinielaAndPhase quinielaID phase (q_ScoreFromZero q) (quinielaSince q)) (\<lambda>pointsByUser.
     buildLeaderboard quinielaID (order pointsByUser)))"

section \<open>The order of the leaderboard\<close>

definition entry_key ::
  "(int \<rightharpoonup> UserPredictionStats) \<Rightarrow> (int \<rightharpoonup> int) \<Rightarrow> LeaderboardEntry \<Rightarrow> int \<times> int \<times> int \<times> int \<times> int" where
  "entry_key stats distances e = (let st = statsFor stats (u_ID (le_User e)) in
     (- le_TotalPoints e, - ups_CorrectCount st, ups_TotalCount st, - ups_ExactCount st,
      tiebreakerDistance distances (u_ID (le_User e))))"

lemma entry_key_update [simp]:
  "entry_key stats distances (e\<lparr>le_Rank := r\<rparr>) = entry_key stats distances e"
  "entry_key stats distances (e\<lparr>le_PrizeWinner := b\<rparr>) = entry_key stats distances e"
  by (simp_all add: entry_key_def)

lemma entry_less_iff:
  "entry_less stats distances a b \<longleftrightarrow>
     (entry_key stats distances a, u_ID (le_User a)) < (entry_key stats distances b, u_ID (le_User b))"
  unfolding entry_less_def entry_key_def Let_def less_prod_simp by auto

lemma sameRank_iff: "sameRank stats distances a b \<longleftrightarrow> entry_key stats distances a = entry_key stats distances b"
  by (auto simp: sameRank_def entry_key_def Let_def)

interpretation leaderboard: key_order "entry_less stats distances"
  "\<lambda>e. (entry_key stats distances e, u_ID (le_User e))" for stats distances
  by unfold_locales (rule entry_less_iff)

text \<open>\<open>a\<close> is ahead of \<open>b\<close> on points or on one of the four tie-break rules.\<close>
definition outranks ::
  "(int \<rightharpoonup> UserPredictionStats) \<Rightarrow> (int \<rightharpoonup> int) \<Rightarrow> LeaderboardEntry \<Rightarrow> LeaderboardEntry \<Rightarrow> bool" where
  "outranks stats distances a b \<longleftrightarrow> entry_less stats distances a b \<and> \<not> sameRank stats distances a b"

lemma outranks_iff: "outranks stats distances a b \<longleftrightarrow> entry_key stats distances a < entry_key stats distances b"
  by (auto simp: outranks_def sameRank_iff entry_less_iff)

lemma assignRanks_from_eq:
  assumes "sorted (map (entry_key stats distances) (front @ es))"
    "prev = (if front = [] then None else
       Some (last front\<lparr>le_Rank := 1 + count_where (\<lambda>x. outranks stats distances x (last front)) (front @ es)\<rparr>))"
  shows "assignRanks_from stats distances (int (length front)) prev es =
    map (\<lambda>e. e\<lparr>le_Rank := 1 + count_where (\<lambda>x. outranks stats distances x e) (front @ es)\<rparr>) es"
  using assms
proof (induction es arbitrary: front prev)
  case (Cons e es)
  let ?k = "entry_key stats distances"
  let ?all = "front @ e # es"
  let ?r = "1 + count_where (\<lambda>x. outranks stats distances x e) ?all"
  have tail: "\<forall>x\<in>set (e # es). ?k e \<le> ?k x" and head: "\<forall>x\<in>set front. ?k x \<le> ?k e"
    using Cons.prems(1) by (auto simp: sorted_append)
  have count: "count_where (\<lambda>x. outranks stats distances x e) ?all = count_where (\<lambda>x. outranks stats distances x e) front"
    using count_where_none [of "e # es" "\<lambda>x. outranks stats distances x e"] tail
    by (auto simp: outranks_iff not_less)
  have step: "(case prev of None \<Rightarrow> e\<lparr>le_Rank := int (length front) + 1\<rparr>
      | Some p \<Rightarrow> if \<not> sameRank stats distances e p then e\<lparr>le_Rank := int (length front) + 1\<rparr> else e\<lparr>le_Rank := le_Rank p\<rparr>)
      = e\<lparr>le_Rank := ?r\<rparr>"
  proof (cases "front = []")
    case True
    then show ?thesis using Cons.prems(2) count by simp
  next
    case False
    then have lastin: "last front \<in> set front" by simp
    show ?thesis
    proof (cases "?k e = ?k (last front)")
      case True
      then have "(\<lambda>x. outranks stats distances x e) = (\<lambda>x. outranks stats distances x (last front))"
        by (simp add: outranks_iff)
      then show ?thesis using Cons.prems(2) False True by (simp add: sameRank_iff)
    next
      case neq: False
      have "\<forall>x\<in>set front. ?k x \<le> ?k (last front)"
        using Cons.prems(1) False by (induction front) (auto simp: sorted_append split: if_splits)
      moreover have "?k (last front) < ?k e" using head lastin neq by force
      ultimately have "count_where (\<lambda>x. outranks stats distances x e) front = int (length front)"
        by (intro count_where_all) (auto simp: outranks_iff)
      then show ?thesis using Cons.prems(2) False neq count by (simp add: sameRank_iff)
    qed
  qed
  have "assignRanks_from stats distances (int (length (front @ [e]))) (Some (e\<lparr>le_Rank := ?r\<rparr>)) es =
      map (\<lambda>x. x\<lparr>le_Rank := 1 + count_where (\<lambda>y. outranks stats distances y x) ((front @ [e]) @ es)\<rparr>) es"
    by (rule Cons.IH) (use Cons.prems(1) in simp_all)
  then show ?case using step by (simp add: add.commute)
qed simp

lemma assignRanks_eq:
  assumes "sorted (map (entry_key stats distances) es)"
  shows "assignRanks stats distances es =
    map (\<lambda>e. e\<lparr>le_Rank := 1 + count_where (\<lambda>x. outranks stats distances x e) es\<rparr>) es"
  using assignRanks_from_eq [of stats distances "[]" es None] assms by (simp add: assignRanks_def)

lemma sorted_entry_keys: "sorted (map (entry_key stats distances) (sort_slice (entry_less stats distances) xs))"
proof -
  have "sorted_wrt (\<lambda>a b. entry_key stats distances a \<le> entry_key stats distances b) (sort_slice (entry_less stats distances) xs)"
    by (rule sorted_wrt_mono_rel [OF _ leaderboard.no_inversions]) (auto simp: entry_less_iff not_less)
  then show ?thesis by (simp add: sorted_map)
qed

lemma sortAndRank_eq:
  "sortAndRank stats distances xs =
    map (\<lambda>e. e\<lparr>le_Rank := 1 + count_where (\<lambda>x. outranks stats distances x e) xs\<rparr>) (sort_slice (entry_less stats distances) xs)"
proof -
  have "count_where P (sort_slice (entry_less stats distances) xs) = count_where P xs" for P
    by (rule count_where_mset) simp
  then show ?thesis by (simp add: sortAndRank_def assignRanks_eq [OF sorted_entry_keys])
qed

text \<open>
  C19: \<^verbatim>\<open>sortAndRank\<close> assigns standard competition ranks: the rank of every entry is one more than the
  number of entries that are ahead of it on points or on one of the four tie-break rules, so tied
  entries share a rank and the following ranks are skipped.
\<close>
theorem sortAndRank_competition_ranks:
  assumes "e \<in> set (sortAndRank stats distances xs)"
  shows "le_Rank e = 1 + count_where (\<lambda>x. entry_less stats distances x e \<and> \<not> sameRank stats distances x e) xs"
proof -
  obtain a where "e = a\<lparr>le_Rank := 1 + count_where (\<lambda>x. outranks stats distances x a) xs\<rparr>"
    using assms by (auto simp: sortAndRank_eq)
  then show ?thesis by (simp add: outranks_def [symmetric] outranks_iff)
qed

text \<open>Two orderings of the same entries, one per user, are ranked into the same list.\<close>
lemma sortAndRank_order_independent:
  assumes "mset xs = mset ys" "distinct (map (\<lambda>e. u_ID (le_User e)) xs)"
  shows "sortAndRank stats distances xs = sortAndRank stats distances ys"
proof -
  have "inj_on (\<lambda>e. (entry_key stats distances e, u_ID (le_User e))) (set xs)"
    using assms(2) by (auto simp: distinct_map inj_on_def)
  then have "sort_slice (entry_less stats distances) ys = sort_slice (entry_less stats distances) xs"
    by (intro leaderboard.sort_unique) (use assms leaderboard.no_inversions in auto)
  moreover have "count_where P xs = count_where P ys" for P by (rule count_where_mset [OF assms(1)])
  ultimately show ?thesis by (simp add: sortAndRank_eq)
qed

lemma outranks_update [simp]:
  "outranks stats distances (a\<lparr>le_Rank := r\<rparr>) b = outranks stats distances a b"
  "outranks stats distances a (b\<lparr>le_Rank := r\<rparr>) = outranks stats distances a b"
  "outranks stats distances a (b\<lparr>le_PrizeWinner := w\<rparr>) = outranks stats distances a b"
  by (simp_all add: outranks_iff)

text \<open>At the cut-off position: an entry is ranked at or above it iff fewer entries are ahead of it.\<close>
lemma cutoff_iff:
  assumes "sorted (map (entry_key stats distances) es)" "k < length es" "e \<in> set es"
  defines "ahead \<equiv> \<lambda>e. count_where (\<lambda>x. outranks stats distances x e) es"
  shows "ahead e \<le> ahead (es ! k) \<longleftrightarrow> ahead e < int k + 1"
proof -
  let ?k = "entry_key stats distances"
  have bound: "ahead (es ! k) \<le> int k"
  proof -
    have "count_where (\<lambda>x. outranks stats distances x (es ! k)) (drop k es) = 0"
    proof (rule count_where_none)
      fix x assume "x \<in> set (drop k es)"
      then obtain j where "k \<le> j" "j < length es" "x = es ! j"
        by (auto simp: in_set_conv_nth) (metis add.commute le_add2 less_diff_conv)
      then have "?k (es ! k) \<le> ?k x" using assms(1) sorted_nth_mono [of "map ?k es" k j] by simp
      then show "\<not> outranks stats distances x (es ! k)" by (simp add: outranks_iff not_less)
    qed
    moreover have "count_where (\<lambda>x. outranks stats distances x (es ! k)) (take k es) \<le> int (length (take k es))"
      by (rule count_where_le_length)
    ultimately show ?thesis
      unfolding ahead_def using count_where_append [of _ "take k es" "drop k es"] by simp
  qed
  have worse: "int k + 1 \<le> ahead e" if "?k (es ! k) < ?k e"
  proof -
    have "count_where (\<lambda>x. outranks stats distances x e) (take (Suc k) es) = int (length (take (Suc k) es))"
    proof (rule count_where_all)
      fix x assume "x \<in> set (take (Suc k) es)"
      then obtain j where "j \<le> k" "x = es ! j" by (auto simp: in_set_conv_nth less_Suc_eq_le)
      then have "?k x \<le> ?k (es ! k)" using assms(1,2) sorted_nth_mono [of "map ?k es" j k] by simp
      with that show "outranks stats distances x e" by (simp add: outranks_iff)
    qed
    then show ?thesis
      unfolding ahead_def using count_where_append [of _ "take (Suc k) es" "drop (Suc k) es"] assms(2) by simp
  qed
  have better: "ahead e \<le> ahead (es ! k)" if "?k e \<le> ?k (es ! k)"
    unfolding ahead_def using that by (intro count_where_mono) (auto simp: outranks_iff)
  show ?thesis using bound worse better by (metis add.commute le_less_trans less_le_not_le not_le zle_add1_eq_le)
qed

text \<open>
  The prize flags of a ranked leaderboard: an entry wins a prize exactly when fewer entries are
  ahead of it than there are prize positions for the paid members, ties at the boundary included.
\<close>
theorem assignPrizes_winners:
  assumes "\<forall>x\<in>set xs. \<not> le_PrizeWinner x"
    "e \<in> set (assignPrizes activePaid (sortAndRank stats distances xs))"
  shows "le_PrizeWinner e \<longleftrightarrow>
    count_where (\<lambda>x. entry_less stats distances x e \<and> \<not> sameRank stats distances x e) xs < WinnerCount activePaid"
proof -
  let ?w = "WinnerCount activePaid"
  let ?ss = "sort_slice (entry_less stats distances) xs"
  let ?ahead = "\<lambda>e. count_where (\<lambda>x. outranks stats distances x e) xs"
  have count: "count_where P ?ss = count_where P xs" for P by (rule count_where_mset) simp
  have w: "0 \<le> ?w" by (simp add: WinnerCount_def)
  have sr: "sortAndRank stats distances xs = map (\<lambda>e. e\<lparr>le_Rank := 1 + ?ahead e\<rparr>) ?ss" by (rule sortAndRank_eq)
  have goal: "(count_where (\<lambda>x. entry_less stats distances x e \<and> \<not> sameRank stats distances x e) xs < ?w) = (?ahead e < ?w)"
    by (simp add: outranks_def)
  consider "xs = []" | "xs \<noteq> []" "?w = 0" | "?w > int (length xs)" "xs \<noteq> []" "?w \<noteq> 0" | "?w \<noteq> 0" "?w \<le> int (length xs)" "xs \<noteq> []"
    by linarith
  then show ?thesis
  proof cases
    case 1
    with assms(2) show ?thesis by (simp add: assignPrizes_def sortAndRank_def assignRanks_def sort_slice_def)
  next
    case 2
    with assms(2) have "e \<in> set (sortAndRank stats distances xs)" by (simp add: assignPrizes_def Let_def split: if_splits)
    then have "\<not> le_PrizeWinner e" using assms(1) by (auto simp: sr)
    then show ?thesis using 2 goal by (simp add: not_less)
  next
    case 3
    with assms(2) have "le_PrizeWinner e" by (auto simp: assignPrizes_def sr Let_def)
    moreover have "?ahead e < ?w"
      using 3(1) count_where_le_length [of "\<lambda>x. outranks stats distances x e" xs] by linarith
    ultimately show ?thesis using goal by simp
  next
    case 4
    let ?c = "nat (?w - 1)"
    have c: "?c < length ?ss" using 4 w by simp
    have "?ss \<noteq> []" using c by auto
    with assms(2) 4 obtain a where a: "a \<in> set ?ss"
      "e = a\<lparr>le_Rank := 1 + ?ahead a, le_PrizeWinner := (1 + ?ahead a \<le> le_Rank (sortAndRank stats distances xs ! ?c))\<rparr>"
      by (auto simp: assignPrizes_def sr Let_def)
    have "le_Rank (sortAndRank stats distances xs ! ?c) = 1 + ?ahead (?ss ! ?c)" using c by (simp add: sr)
    with a(2) have "le_PrizeWinner e \<longleftrightarrow> ?ahead a \<le> ?ahead (?ss ! ?c)" by simp
    also have "\<dots> \<longleftrightarrow> ?ahead a < ?w"
      using cutoff_iff [OF sorted_entry_keys c a(1)] 4 w by (simp add: count)
    finally show ?thesis using goal a(2) by simp
  qed
qed

section \<open>Leaderboards\<close>

lemma mset_hydrate_sum: "mset (hydrate f xs) = (\<Sum>(i, p)\<in>#mset xs. case f i of None \<Rightarrow> {#}
    | Some u \<Rightarrow> {#\<lparr>le_User = u, le_TotalPoints = p, le_Rank = 0, le_PrizeWinner = False\<rparr>#})"
  by (induction f xs rule: hydrate.induct) (auto split: option.splits)

lemma mset_hydrate: "mset xs = mset ys \<Longrightarrow> mset (hydrate f xs) = mset (hydrate f ys)"
  by (simp add: mset_hydrate_sum)

lemma hydrate_flags: "e \<in> set (hydrate f xs) \<Longrightarrow> \<not> le_PrizeWinner e"
  by (induction f xs rule: hydrate.induct) (auto split: option.splits)

lemma distinct_hydrate:
  assumes "distinct (map fst xs)" "\<And>i u. f i = Some u \<Longrightarrow> u_ID u = i"
  shows "distinct (map (\<lambda>e. u_ID (le_User e)) (hydrate f xs))"
proof -
  have sub: "(\<lambda>e. u_ID (le_User e)) ` set (hydrate f ys) \<subseteq> fst ` set ys" for ys
    using assms(2) by (induction f ys rule: hydrate.induct) (auto split: option.splits)
  show ?thesis using assms(1)
  proof (induction xs)
    case (Cons x rest)
    obtain i p where x: "x = (i, p)" by (cases x)
    have "i \<notin> (\<lambda>e. u_ID (le_User e)) ` set (hydrate f rest)" using Cons.prems sub [of rest] x by auto
    then show ?case using Cons x assms(2) by (auto split: option.splits)
  qed simp
qed

definition users_found :: "db \<Rightarrow> int set \<Rightarrow> int \<rightharpoonup> User" where
  "users_found s ids i = (if i \<in> ids then
     (case db_users s i of Some u \<Rightarrow> if u_DeletedAt u = None then Some u else None | None \<Rightarrow> None) else None)"

lemma ListByIDs_run: "ListByIDs ids fs s = (Inr f, fs', s') \<Longrightarrow> f = users_found s (set ids) \<and> s' = s"
  by (auto simp: ListByIDs_def tx_runs users_found_def [abs_def] split: if_splits)

definition distances_of :: "db \<Rightarrow> int set \<Rightarrow> int \<rightharpoonup> int" where
  "distances_of s ids = (let ds = (\<lambda>id. if id \<in> ids then Some MaxInt else None) in
     case Option.bind (get_config s 1) tc_Result of
       None \<Rightarrow> ds
     | Some result \<Rightarrow> fold (\<lambda>tb ds. ds(tb_UserID tb \<mapsto> distance_to (tb_Prediction tb) result))
         (filter (\<lambda>tb. tb_UserID tb \<in> ids \<and> tb_TiebreakerConfigID tb = 1) (db_tiebreakers s)) ds)"

lemma fetchTiebreakerDistances_run:
  "fetchTiebreakerDistances ids fs s = (Inr f, fs', s') \<Longrightarrow> f = distances_of s (set ids) \<and> s' = s"
  by (auto simp: fetchTiebreakerDistances_def Let_def tx_runs distances_of_def split: option.splits if_splits)

text \<open>What a leaderboard request computes from the database and the point totals.\<close>
definition leaderboard_of :: "db \<Rightarrow> int \<Rightarrow> (int \<times> int) list \<Rightarrow> LeaderboardResult" where
  "leaderboard_of s quinielaID totals =
    (let activePaid = count_where (active_paid quinielaID) (db_memberships s);
         entries = hydrate (users_found s (set (map fst totals))) totals;
         stats = (\<lambda>userID. if \<exists>g\<in>set (db_memberships s). active_paid quinielaID g \<and> gm_UserID g = userID
           then Some (member_stats (db_predictions s) userID) else None)
     in \<lparr>lr_ActivePaidMembers = activePaid, lr_WinnerCount = WinnerCount activePaid,
         lr_EligibleForPrizes = EligibleForPayments activePaid,
         lr_Entries = assignPrizes activePaid (sortAndRank stats (distances_of s (set (extractUserIDs entries))) entries)\<rparr>)"

lemma buildLeaderboard_run:
  assumes "buildLeaderboard quinielaID totals fs s = (Inr r, fs', s')"
  shows "r = leaderboard_of s quinielaID totals \<and> s' = s"
proof (cases "totals = []")
  case True
  with assms show ?thesis
    by (auto simp: buildLeaderboard_def CountActivePaid_def tx_runs leaderboard_of_def Let_def assignPrizes_def
        sortAndRank_def assignRanks_def sort_slice_def)
next
  case False
  from assms False show ?thesis
    unfolding buildLeaderboard_def CountActivePaid_def buildEntries_def PredictionStatsByQuiniela_def Let_def
    by (auto simp: tx_runs leaderboard_of_def Let_def dest!: ListByIDs_run fetchTiebreakerDistances_run)
qed

lemma leaderboard_of_perm:
  assumes "mset totals = mset totals'" "distinct (map fst totals)" "\<And>i u. db_users s i = Some u \<Longrightarrow> u_ID u = i"
  shows "leaderboard_of s quinielaID totals = leaderboard_of s quinielaID totals'"
proof -
  have ids: "set (map fst totals) = set (map fst totals')"
    using assms(1) by (metis set_map set_mset_mset)
  let ?f = "users_found s (set (map fst totals))"
  have m: "mset (hydrate ?f totals) = mset (hydrate ?f totals')" by (rule mset_hydrate [OF assms(1)])
  have d: "distinct (map (\<lambda>e. u_ID (le_User e)) (hydrate ?f totals))"
    by (rule distinct_hydrate [OF assms(2)]) (auto simp: users_found_def assms(3) split: if_splits option.splits)
  have e: "set (extractUserIDs (hydrate ?f totals)) = set (extractUserIDs (hydrate ?f totals'))"
    using m by (metis extractUserIDs_def set_map set_mset_mset)
  show ?thesis
    using sortAndRank_order_independent [OF m d] unfolding leaderboard_of_def Let_def ids [symmetric] e by simp
qed

lemma set_hydrate:
  assumes "\<And>i u. f i = Some u \<Longrightarrow> u_ID u = i"
  shows "set (map (\<lambda>e. (u_ID (le_User e), le_TotalPoints e)) (hydrate f xs)) = {(i, p). (i, p) \<in> set xs \<and> f i \<noteq> None}"
  using assms by (induction f xs rule: hydrate.induct) (auto split: option.splits)

lemma entries_kept:
  assumes "\<And>e r. h (e\<lparr>le_Rank := r\<rparr>) = h e" "\<And>e w. h (e\<lparr>le_PrizeWinner := w\<rparr>) = h e"
  shows "mset (map h (assignPrizes n (sortAndRank stats distances xs))) = mset (map h xs)"
proof -
  have "map h (assignPrizes n ys) = map h ys" for ys
    using assms(2) by (simp add: assignPrizes_def Let_def)
  moreover have "map h (sortAndRank stats distances xs) = map h (sort_slice (entry_less stats distances) xs)"
    using assms(1) by (simp add: sortAndRank_eq)
  ultimately show ?thesis by (metis mset_map mset_sort_slice)
qed

text \<open>The rows a group leaderboard is computed from: one membership per user, users stored under their id.\<close>
definition leaderboard_db :: "db \<Rightarrow> bool" where
  "leaderboard_db s \<longleftrightarrow> distinct (map (\<lambda>g. (gm_QuinielaID g, gm_UserID g)) (db_memberships s)) \<and>
     (\<forall>i u. db_users s i = Some u \<longrightarrow> u_ID u = i)"

lemma distinct_point_totals:
  assumes "leaderboard_db s"
  shows "distinct (map fst (point_totals s phase quinielaID z since))"
proof -
  have "distinct (map (\<lambda>g. (gm_QuinielaID g, gm_UserID g)) (filter (active_paid quinielaID) (db_memberships s)))"
    using assms by (simp add: leaderboard_db_def distinct_map_filter)
  then show ?thesis
    by (auto simp: point_totals_def comp_def distinct_map inj_on_def active_paid_def)
qed

lemma GetLeaderboard_run:
  assumes "GetLeaderboard order quinielaID fs s = (Inr r, fs', s')"
  obtains q where "get_quiniela s quinielaID = Some q" "q_DeletedAt q = None" "s' = s"
    "r = leaderboard_of s quinielaID (order (point_totals s None quinielaID (q_ScoreFromZero q) (quinielaSince q)))"
  using assms unfolding GetLeaderboard_def GetQuinielaByID_def TotalPointsByQuiniela_def
  by (auto simp: tx_runs dest!: buildLeaderboard_run split: option.splits if_splits)

text \<open>
  C28: a leaderboard request is a deterministic read. Two successful requests on the same database return
  the same result and leave the database unchanged, whatever the map iteration orders and whatever
  the fault scripts of the two requests were.
\<close>
theorem GetLeaderboard_deterministic:
  assumes "leaderboard_db s" "\<And>xs. mset (order xs) = mset xs" "\<And>xs. mset (order' xs) = mset xs"
    "GetLeaderboard order quinielaID fs s = (Inr r, fs1, s1)" "GetLeaderboard order' quinielaID gs s = (Inr r', gs1, s2)"
  shows "r = r' \<and> s1 = s \<and> s2 = s"
proof -
  obtain q where q: "get_quiniela s quinielaID = Some q" "s1 = s"
    "r = leaderboard_of s quinielaID (order (point_totals s None quinielaID (q_ScoreFromZero q) (quinielaSince q)))"
    using GetLeaderboard_run [OF assms(4)] by metis
  obtain q' where q': "get_quiniela s quinielaID = Some q'" "s2 = s"
    "r' = leaderboard_of s quinielaID (order' (point_totals s None quinielaID (q_ScoreFromZero q') (quinielaSince q')))"
    using GetLeaderboard_run [OF assms(5)] by metis
  let ?t = "point_totals s None quinielaID (q_ScoreFromZero q) (quinielaSince q)"
  have "distinct (map fst (order ?t))"
    using distinct_point_totals [OF assms(1)] assms(2) by (metis mset_eq_imp_distinct_iff mset_map)
  then have "leaderboard_of s quinielaID (order ?t) = leaderboard_of s quinielaID (order' ?t)"
    using assms(1-3) by (intro leaderboard_of_perm) (auto simp: leaderboard_db_def)
  then show ?thesis using q q' by simp
qed

text \<open>
  The leaderboard of a group lists every active paid member with an account that is not deleted, once,
  with the sum of the points that count for that member, and nobody else; the prize metadata
  follows from the number of active paid members.
\<close>
theorem GetLeaderboard_members:
  assumes "leaderboard_db s" "\<And>xs. mset (order xs) = mset xs"
    "GetLeaderboard order quinielaID fs s = (Inr r, fs', s')" "get_quiniela s quinielaID = Some q"
  shows "{(u_ID (le_User e), le_TotalPoints e) | e. e \<in> set (lr_Entries r)} =
      {(gm_UserID g, member_points s None (q_ScoreFromZero q) (quinielaSince q) g) | g.
        g \<in> set (db_memberships s) \<and> active_paid quinielaID g \<and>
        (\<exists>u. db_users s (gm_UserID g) = Some u \<and> u_DeletedAt u = None)} \<and>
    distinct (map (\<lambda>e. u_ID (le_User e)) (lr_Entries r)) \<and>
    lr_WinnerCount r = WinnerCount (count_where (active_paid quinielaID) (db_memberships s))"
proof -
  obtain q' where q': "get_quiniela s quinielaID = Some q'"
    "r = leaderboard_of s quinielaID (order (point_totals s None quinielaID (q_ScoreFromZero q') (quinielaSince q')))"
    by (rule GetLeaderboard_run [OF assms(3)])
  let ?t = "point_totals s None quinielaID (q_ScoreFromZero q) (quinielaSince q)"
  let ?f = "users_found s (set (map fst (order ?t)))"
  have r: "r = leaderboard_of s quinielaID (order ?t)" using q' assms(4) by simp
  have t: "set (order ?t) = set ?t" using assms(2) by (metis set_mset_mset)
  have e: "set (map (\<lambda>e. (u_ID (le_User e), le_TotalPoints e)) (lr_Entries r)) =
      set (map (\<lambda>e. (u_ID (le_User e), le_TotalPoints e)) (hydrate ?f (order ?t)))"
    and d: "mset (map (\<lambda>e. u_ID (le_User e)) (lr_Entries r)) = mset (map (\<lambda>e. u_ID (le_User e)) (hydrate ?f (order ?t)))"
  proof -
    show "mset (map (\<lambda>e. u_ID (le_User e)) (lr_Entries r)) = mset (map (\<lambda>e. u_ID (le_User e)) (hydrate ?f (order ?t)))"
      unfolding r leaderboard_of_def Let_def by (simp only: LeaderboardResult.simps) (rule entries_kept; simp)
    have "mset (map (\<lambda>e. (u_ID (le_User e), le_TotalPoints e)) (lr_Entries r)) =
        mset (map (\<lambda>e. (u_ID (le_User e), le_TotalPoints e)) (hydrate ?f (order ?t)))"
      unfolding r leaderboard_of_def Let_def by (simp only: LeaderboardResult.simps) (rule entries_kept; simp)
    then show "set (map (\<lambda>e. (u_ID (le_User e), le_TotalPoints e)) (lr_Entries r)) =
        set (map (\<lambda>e. (u_ID (le_User e), le_TotalPoints e)) (hydrate ?f (order ?t)))" by (metis set_mset_mset)
  qed
  have "set (map (\<lambda>e. (u_ID (le_User e), le_TotalPoints e)) (hydrate ?f (order ?t))) =
      {(i, p). (i, p) \<in> set ?t \<and> (\<exists>u. db_users s i = Some u \<and> u_DeletedAt u = None)}"
    using assms(1) by (subst set_hydrate) (auto simp: t users_found_def leaderboard_db_def split: option.splits if_splits, force+)
  moreover have "distinct (map (\<lambda>e. u_ID (le_User e)) (lr_Entries r))"
  proof -
    have "distinct (map fst (order ?t))"
      using distinct_point_totals [OF assms(1)] assms(2) by (metis mset_eq_imp_distinct_iff mset_map)
    then have "distinct (map (\<lambda>e. u_ID (le_User e)) (hydrate ?f (order ?t)))"
      using assms(1) by (intro distinct_hydrate) (auto simp: users_found_def leaderboard_db_def split: option.splits if_splits)
    then show ?thesis using d by (metis mset_eq_imp_distinct_iff)
  qed
  moreover have "lr_WinnerCount r = WinnerCount (count_where (active_paid quinielaID) (db_memberships s))"
    by (simp add: r leaderboard_of_def Let_def)
  moreover have "{(u_ID (le_User e), le_TotalPoints e) | e. e \<in> set (lr_Entries r)} =
      set (map (\<lambda>e. (u_ID (le_User e), le_TotalPoints e)) (lr_Entries r))" by auto
  moreover have "{(i, p). (i, p) \<in> set ?t \<and> (\<exists>u. db_users s i = Some u \<and> u_DeletedAt u = None)} =
      {(gm_UserID g, member_points s None (q_ScoreFromZero q) (quinielaSince q) g) | g.
        g \<in> set (db_memberships s) \<and> active_paid quinielaID g \<and>
        (\<exists>u. db_users s (gm_UserID g) = Some u \<and> u_DeletedAt u = None)}" by (auto simp: point_totals_def)
  ultimately show ?thesis using e by simp
qed

subsection \<open>Concrete data\<close>

definition example_user :: "int \<Rightarrow> User" where
  "example_user i = \<lparr>u_ID = i, u_Name = ''u'', u_BannedAt = None, u_BalanceCents = 0, u_BalanceCurrency = ''GTQ'',
     u_ReservedCents = 0, u_KYCTier = 0, u_Locale = ''es'', u_DeletedAt = None\<rparr>"

definition example_entry :: "int \<Rightarrow> int \<Rightarrow> LeaderboardEntry" where
  "example_entry i pts = \<lparr>le_User = example_user i, le_TotalPoints = pts, le_Rank = 0, le_PrizeWinner = False\<rparr>"

definition example_member :: "int \<Rightarrow> GroupMembership" where
  "example_member i = \<lparr>gm_ID = i, gm_QuinielaID = 1, gm_UserID = i, gm_Role = MembershipRoleMember,
     gm_Status = MembershipActive, gm_Paid = True, gm_JoinedAt = Some 0, gm_RemovedAt = None, gm_RemovedBy = None, gm_CreatedAt = 0\<rparr>"

definition example_quiniela :: Quiniela where
  "example_quiniela = \<lparr>q_ID = 1, q_Name = ''g'', q_OwnerID = 1, q_InviteCode = ''abc'', q_InviteCodeExpiresAt = None, q_Status = QuinielaStatusInactive,
     q_EntryFee = 3000, q_Currency = ''GTQ'', q_IsPremium = False, q_ModeGeneral = False, q_ModeRound = False,
     q_RequireApproval = True, q_ScoreFromZero = False, q_ScoreFromZeroSince = None, q_DeletedAt = None,
     q_PrizesDistributedAt = None\<rparr>"

definition example_group_db :: db where
  "example_group_db = empty_db\<lparr>db_quinielas := [example_quiniela], db_memberships := [example_member 1, example_member 2],
     db_users := [1 \<mapsto> example_user 1, 2 \<mapsto> example_user 2]\<rparr>"

theorem sortAndRank_competition_ranks_witness:
  "le_Rank (sortAndRank Map.empty Map.empty [example_entry 1 3, example_entry 2 5, example_entry 3 5] ! 2) =
     1 + count_where (\<lambda>x. entry_less Map.empty Map.empty x (sortAndRank Map.empty Map.empty [example_entry 1 3, example_entry 2 5, example_entry 3 5] ! 2) \<and>
       \<not> sameRank Map.empty Map.empty x (sortAndRank Map.empty Map.empty [example_entry 1 3, example_entry 2 5, example_entry 3 5] ! 2))
       [example_entry 1 3, example_entry 2 5, example_entry 3 5]"
  by (rule sortAndRank_competition_ranks, rule nth_mem) code_simp

theorem assignPrizes_winners_witness:
  "le_PrizeWinner (assignPrizes 5 (sortAndRank Map.empty Map.empty [example_entry 1 3, example_entry 2 5, example_entry 3 5]) ! 2) \<longleftrightarrow>
    count_where (\<lambda>x. entry_less Map.empty Map.empty x (assignPrizes 5 (sortAndRank Map.empty Map.empty [example_entry 1 3, example_entry 2 5, example_entry 3 5]) ! 2) \<and>
       \<not> sameRank Map.empty Map.empty x (assignPrizes 5 (sortAndRank Map.empty Map.empty [example_entry 1 3, example_entry 2 5, example_entry 3 5]) ! 2))
      [example_entry 1 3, example_entry 2 5, example_entry 3 5] < WinnerCount 5"
proof (rule assignPrizes_winners)
  show "\<forall>x\<in>set [example_entry 1 3, example_entry 2 5, example_entry 3 5]. \<not> le_PrizeWinner x" by code_simp
  show "assignPrizes 5 (sortAndRank Map.empty Map.empty [example_entry 1 3, example_entry 2 5, example_entry 3 5]) ! 2
      \<in> set (assignPrizes 5 (sortAndRank Map.empty Map.empty [example_entry 1 3, example_entry 2 5, example_entry 3 5]))"
    by (rule nth_mem) code_simp
qed

lemma example_group_db_ok: "leaderboard_db example_group_db"
  by (auto simp: leaderboard_db_def example_group_db_def empty_db_def example_member_def example_user_def split: if_splits)

theorem GetLeaderboard_deterministic_witness:
  "projr (fst (GetLeaderboard id 1 [] example_group_db)) = projr (fst (GetLeaderboard rev 1 [None] example_group_db)) \<and>
   snd (snd (GetLeaderboard id 1 [] example_group_db)) = example_group_db \<and>
   snd (snd (GetLeaderboard rev 1 [None] example_group_db)) = example_group_db"
  by (rule GetLeaderboard_deterministic [OF example_group_db_ok _ _ is_ok_run is_ok_run]) (simp, simp, code_simp, code_simp)

theorem GetLeaderboard_members_witness:
  "{(u_ID (le_User e), le_TotalPoints e) | e. e \<in> set (lr_Entries (projr (fst (GetLeaderboard rev 1 [] example_group_db))))} =
      {(gm_UserID g, member_points example_group_db None (q_ScoreFromZero example_quiniela) (quinielaSince example_quiniela) g) | g.
        g \<in> set (db_memberships example_group_db) \<and> active_paid 1 g \<and>
        (\<exists>u. db_users example_group_db (gm_UserID g) = Some u \<and> u_DeletedAt u = None)} \<and>
    distinct (map (\<lambda>e. u_ID (le_User e)) (lr_Entries (projr (fst (GetLeaderboard rev 1 [] example_group_db))))) \<and>
    lr_WinnerCount (projr (fst (GetLeaderboard rev 1 [] example_group_db))) =
      WinnerCount (count_where (active_paid 1) (db_memberships example_group_db))"
  by (rule GetLeaderboard_members [OF example_group_db_ok _ is_ok_run]) (simp, code_simp, simp add: example_group_db_def get_quiniela_def example_quiniela_def)

end
