(* ===== verification/Standings.thy ===== *)
theory Standings
  imports Database GoSort
begin

text \<open>
  Group standings (\<^verbatim>\<open>service/tournament_service.go\<close>): the accumulation of match results, the FIFA
  order and the extraction of the best third-placed teams. The accumulator map of pointers is an
  association list from (group, team) to the standing; an update through a pointer is an update at
  its key, so a fixture of a team against itself would update one row twice, as in Go. \<open>order\<close> is
  the order in which a call ranges over a map.
\<close>

record GroupStanding =
  gs_Group :: string
  gs_Team :: string
  gs_Played :: int
  gs_Won :: int
  gs_Drawn :: int
  gs_Lost :: int
  gs_GF :: int
  gs_GC :: int
  gs_GD :: int
  gs_Points :: int

type_synonym standing_key = "string \<times> string"
type_synonym standings_acc = "(standing_key \<times> GroupStanding) list"

section \<open>Accumulation\<close>

definition new_standing :: "standing_key \<Rightarrow> GroupStanding" where
  "new_standing k = \<lparr>gs_Group = fst k, gs_Team = snd k, gs_Played = 0, gs_Won = 0, gs_Drawn = 0, gs_Lost = 0,
     gs_GF = 0, gs_GC = 0, gs_GD = 0, gs_Points = 0\<rparr>"

definition ensure :: "standing_key \<Rightarrow> standings_acc \<Rightarrow> standings_acc" where
  "ensure k acc = (case map_of acc k of None \<Rightarrow> acc @ [(k, new_standing k)] | Some _ \<Rightarrow> acc)"

definition store :: "standing_key \<Rightarrow> (GroupStanding \<Rightarrow> GroupStanding) \<Rightarrow> standings_acc \<Rightarrow> standings_acc" where
  "store k f acc = map (\<lambda>(k', st). if k' = k then (k', f st) else (k', st)) acc"

text \<open>\<^verbatim>\<open>applyMatchResult\<close>, assignment by assignment through the two pointers.\<close>
definition applyMatchResult ::
  "standing_key \<Rightarrow> standing_key \<Rightarrow> int \<Rightarrow> int \<Rightarrow> int \<Rightarrow> standings_acc \<Rightarrow> standings_acc" where
  "applyMatchResult home away hs as winPoints acc =
    (let acc = store home (\<lambda>st. st\<lparr>gs_Played := gs_Played st + 1\<rparr>) acc;
         acc = store away (\<lambda>st. st\<lparr>gs_Played := gs_Played st + 1\<rparr>) acc;
         acc = store home (\<lambda>st. st\<lparr>gs_GF := gs_GF st + hs\<rparr>) acc;
         acc = store home (\<lambda>st. st\<lparr>gs_GC := gs_GC st + as\<rparr>) acc;
         acc = store away (\<lambda>st. st\<lparr>gs_GF := gs_GF st + as\<rparr>) acc;
         acc = store away (\<lambda>st. st\<lparr>gs_GC := gs_GC st + hs\<rparr>) acc
     in if hs > as then
          store away (\<lambda>st. st\<lparr>gs_Lost := gs_Lost st + 1\<rparr>)
          (store home (\<lambda>st. st\<lparr>gs_Points := gs_Points st + winPoints\<rparr>)
          (store home (\<lambda>st. st\<lparr>gs_Won := gs_Won st + 1\<rparr>) acc))
        else if hs < as then
          store home (\<lambda>st. st\<lparr>gs_Lost := gs_Lost st + 1\<rparr>)
          (store away (\<lambda>st. st\<lparr>gs_Points := gs_Points st + winPoints\<rparr>)
          (store away (\<lambda>st. st\<lparr>gs_Won := gs_Won st + 1\<rparr>) acc))
        else
          store away (\<lambda>st. st\<lparr>gs_Points := gs_Points st + 1\<rparr>)
          (store away (\<lambda>st. st\<lparr>gs_Drawn := gs_Drawn st + 1\<rparr>)
          (store home (\<lambda>st. st\<lparr>gs_Points := gs_Points st + 1\<rparr>)
          (store home (\<lambda>st. st\<lparr>gs_Drawn := gs_Drawn st + 1\<rparr>) acc))))"

definition standings_step :: "int \<Rightarrow> Match \<Rightarrow> standings_acc \<Rightarrow> standings_acc" where
  "standings_step winPoints m acc = (case m_GroupLabel m of
     None \<Rightarrow> acc
   | Some g \<Rightarrow>
       let acc' = ensure (g, m_AwayTeam m) (ensure (g, m_HomeTeam m) acc) in
       if m_Status m \<noteq> MatchStatusFinished then acc'
       else case (m_HomeScore m, m_AwayScore m) of
         (Some hs, Some as) \<Rightarrow> applyMatchResult (g, m_HomeTeam m) (g, m_AwayTeam m) hs as winPoints acc'
       | _ \<Rightarrow> acc')"

definition accumulate :: "int \<Rightarrow> Match list \<Rightarrow> standings_acc" where
  "accumulate winPoints fixtures = fold (standings_step winPoints) fixtures []"

section \<open>Order and grouping\<close>

definition lessStanding :: "GroupStanding \<Rightarrow> GroupStanding \<Rightarrow> bool" where
  "lessStanding a b =
    (if gs_Points a \<noteq> gs_Points b then gs_Points a > gs_Points b
     else if gs_GD a \<noteq> gs_GD b then gs_GD a > gs_GD b
     else if gs_GF a \<noteq> gs_GF b then gs_GF a > gs_GF b
     else gs_Team a < gs_Team b)"

definition set_GD :: "GroupStanding \<Rightarrow> GroupStanding" where
  "set_GD st = st\<lparr>gs_GD := gs_GF st - gs_GC st\<rparr>"

definition group_rows :: "standings_acc \<Rightarrow> string \<Rightarrow> GroupStanding list" where
  "group_rows acc g = map (\<lambda>(k, st). set_GD st) (filter (\<lambda>(k, st). fst k = g) acc)"

definition buildStandings ::
  "(standings_acc \<Rightarrow> standings_acc) \<Rightarrow> Match list \<Rightarrow> int \<Rightarrow> string \<rightharpoonup> GroupStanding list" where
  "buildStandings order fixtures winPoints =
    (let acc = order (accumulate winPoints fixtures) in
     (\<lambda>g. case group_rows acc g of [] \<Rightarrow> None | rows \<Rightarrow> Some (sort_slice lessStanding rows)))"

section \<open>Service\<close>

definition ListByPhase :: "MatchPhase \<Rightarrow> Match list dbprog" where
  "ListByPhase phase = tx_query (\<lambda>s. sort_key m_KickoffAt (filter (\<lambda>m. m_Phase m = phase) (db_matches s)))"

definition ListByGroupLabel :: "string \<Rightarrow> Match list dbprog" where
  "ListByGroupLabel g = tx_query (\<lambda>s.
     sort_key m_KickoffAt (filter (\<lambda>m. m_Phase m = PhaseGroupStage \<and> m_GroupLabel m = Some g) (db_matches s)))"

definition win_points :: "db \<Rightarrow> int" where
  "win_points s = GetInt (db_params s) ''tournament.win_points'' StandingsWinPoints"

definition GetAllStandings :: "(standings_acc \<Rightarrow> standings_acc) \<Rightarrow> (string \<rightharpoonup> GroupStanding list) dbprog" where
  "GetAllStandings order = tx_bind (ListByPhase PhaseGroupStage) (\<lambda>fixtures.
     tx_bind (tx_read win_points) (\<lambda>winPoints. tx_ret (buildStandings order fixtures winPoints)))"

definition GetGroupStanding :: "(standings_acc \<Rightarrow> standings_acc) \<Rightarrow> string \<Rightarrow> GroupStanding list dbprog" where
  "GetGroupStanding order g =
    (if g = [] then tx_err (Validation ''group label is required'')
     else tx_bind (ListByPhase PhaseGroupStage) (\<lambda>fixtures.
       tx_bind (tx_read win_points) (\<lambda>winPoints.
         case buildStandings order fixtures winPoints g of
           None \<Rightarrow> tx_err (NotFound (''group '' @ g @ '' not found''))
         | Some entries \<Rightarrow> tx_ret entries)))"

section \<open>The best third-placed teams\<close>

text \<open>\<open>groups\<close> lists the keys of the standings map in the order of the range loop.\<close>
definition extractTopEightThirds :: "string list \<Rightarrow> (string \<rightharpoonup> GroupStanding list) \<Rightarrow> GroupStanding list" where
  "extractTopEightThirds groups allStandings =
    (let thirds = concat (map (\<lambda>g. case allStandings g of
         Some rows \<Rightarrow> if length rows \<ge> 3 then [rows ! 2] else []
       | None \<Rightarrow> []) groups)
     in take 8 (sort_slice lessStanding thirds))"

fun checkGroupStageComplete :: "Match list \<Rightarrow> unit result" where
  "checkGroupStageComplete [] = ok"
| "checkGroupStageComplete (m # ms) =
    (if m_Status m \<noteq> MatchStatusFinished \<and> m_Status m \<noteq> MatchStatusCancelled
       then Inl (Validation ''group stage is not yet complete; all group-stage matches must be finished before confirming best third-place slots'')
     else checkGroupStageComplete ms)"

section \<open>Reference tally\<close>

text \<open>One result seen from one side.\<close>
definition result_for :: "int \<Rightarrow> int \<Rightarrow> int \<Rightarrow> GroupStanding \<Rightarrow> GroupStanding" where
  "result_for gf ga wp st = st\<lparr>gs_Played := gs_Played st + 1, gs_GF := gs_GF st + gf, gs_GC := gs_GC st + ga,
     gs_Won := gs_Won st + (if gf > ga then 1 else 0), gs_Drawn := gs_Drawn st + (if gf = ga then 1 else 0),
     gs_Lost := gs_Lost st + (if gf < ga then 1 else 0),
     gs_Points := gs_Points st + (if gf > ga then wp else if gf = ga then 1 else 0)\<rparr>"

definition appears :: "standing_key \<Rightarrow> Match \<Rightarrow> bool" where
  "appears k m \<longleftrightarrow> m_GroupLabel m = Some (fst k) \<and> (m_HomeTeam m = snd k \<or> m_AwayTeam m = snd k)"

definition final_score :: "Match \<Rightarrow> (int \<times> int) option" where
  "final_score m = (if m_Status m = MatchStatusFinished then
     (case (m_HomeScore m, m_AwayScore m) of (Some hs, Some as) \<Rightarrow> Some (hs, as) | _ \<Rightarrow> None) else None)"

text \<open>The results of a team in its group, goals for first.\<close>
definition results_of :: "standing_key \<Rightarrow> Match \<Rightarrow> (int \<times> int) list" where
  "results_of k m = (if m_GroupLabel m = Some (fst k) then
     (case final_score m of None \<Rightarrow> []
      | Some (hs, as) \<Rightarrow> (if m_HomeTeam m = snd k then [(hs, as)] else []) @ (if m_AwayTeam m = snd k then [(as, hs)] else []))
     else [])"

definition tally :: "int \<Rightarrow> standing_key \<Rightarrow> (int \<times> int) list \<Rightarrow> GroupStanding" where
  "tally wp k rs = \<lparr>gs_Group = fst k, gs_Team = snd k, gs_Played = int (length rs),
     gs_Won = count_where (\<lambda>(gf, ga). gf > ga) rs, gs_Drawn = count_where (\<lambda>(gf, ga). gf = ga) rs,
     gs_Lost = count_where (\<lambda>(gf, ga). gf < ga) rs, gs_GF = (\<Sum>r\<leftarrow>rs. fst r), gs_GC = (\<Sum>r\<leftarrow>rs. snd r), gs_GD = 0,
     gs_Points = wp * count_where (\<lambda>(gf, ga). gf > ga) rs + count_where (\<lambda>(gf, ga). gf = ga) rs\<rparr>"

abbreviation all_results :: "standing_key \<Rightarrow> Match list \<Rightarrow> (int \<times> int) list" where
  "all_results k ms \<equiv> concat (map (results_of k) ms)"

lemma store_eq: "store k f acc = map (\<lambda>p. (fst p, if fst p = k then f (snd p) else snd p)) acc"
  by (induction acc) (auto simp: store_def)

lemma store_store: "store k f (store k g acc) = store k (\<lambda>st. f (g st)) acc"
  by (simp add: store_eq)

lemma store_swap: "h \<noteq> a \<Longrightarrow> store h f (store a g acc) = store a g (store h f acc)"
  by (simp add: store_eq)

lemma result_for_cases:
  "gf > ga \<Longrightarrow> result_for gf ga wp = (\<lambda>st. st\<lparr>gs_Played := gs_Played st + 1, gs_GF := gs_GF st + gf, gs_GC := gs_GC st + ga,
     gs_Won := gs_Won st + 1, gs_Points := gs_Points st + wp\<rparr>)"
  "gf < ga \<Longrightarrow> result_for gf ga wp = (\<lambda>st. st\<lparr>gs_Played := gs_Played st + 1, gs_GF := gs_GF st + gf, gs_GC := gs_GC st + ga,
     gs_Lost := gs_Lost st + 1\<rparr>)"
  "gf = ga \<Longrightarrow> result_for gf ga wp = (\<lambda>st. st\<lparr>gs_Played := gs_Played st + 1, gs_GF := gs_GF st + gf, gs_GC := gs_GC st + ga,
     gs_Drawn := gs_Drawn st + 1, gs_Points := gs_Points st + 1\<rparr>)"
  by (simp_all add: result_for_def fun_eq_iff)

lemma applyMatchResult_eq:
  "applyMatchResult h a hs as wp acc = store a (result_for as hs wp) (store h (result_for hs as wp) acc)"
proof (cases "h = a")
  case True
  consider "hs > as" | "hs < as" | "hs = as" by linarith
  then show ?thesis
    by cases (simp_all add: applyMatchResult_def Let_def store_store True result_for_cases,
        (rule arg_cong [where f = "\<lambda>f. store a f acc"], rule ext, rule GroupStanding.equality; simp)+)
next
  case False
  consider "hs > as" | "hs < as" | "hs = as" by linarith
  then show ?thesis
    by cases (simp_all add: applyMatchResult_def Let_def store_store store_swap [OF False] result_for_cases)
qed

lemma keys_store [simp]: "map fst (store k f acc) = map fst acc"
  by (simp add: store_eq)

lemma map_of_store: "map_of (store k f acc) k' = (if k' = k then map_option f (map_of acc k) else map_of acc k')"
  by (induction acc) (auto simp: store_def)

lemma map_of_ensure: "map_of (ensure k acc) k' =
    (if k' = k then Some (case map_of acc k of None \<Rightarrow> new_standing k | Some st \<Rightarrow> st) else map_of acc k')"
  by (auto simp: ensure_def map_add_def split: option.splits)

lemma distinct_ensure: "distinct (map fst acc) \<Longrightarrow> distinct (map fst (ensure k acc))"
  by (auto simp: ensure_def map_of_eq_None_iff split: option.splits)

lemma tally_Nil: "tally wp k [] = new_standing k"
  by (simp add: tally_def new_standing_def)

lemma tally_snoc: "tally wp k (rs @ [(gf, ga)]) = result_for gf ga wp (tally wp k rs)"
  by (simp add: tally_def result_for_def algebra_simps)

lemma results_not_appears: "\<not> appears k m \<Longrightarrow> results_of k m = []"
  by (auto simp: results_of_def appears_def split: option.splits)

lemma accumulate_snoc: "accumulate wp (ms @ [m]) = standings_step wp m (accumulate wp ms)"
  by (simp add: accumulate_def)

lemma distinct_accumulate: "distinct (map fst (accumulate wp ms))"
proof (induction ms rule: rev_induct)
  case (snoc m ms)
  then show ?case
    by (auto simp: accumulate_snoc standings_step_def applyMatchResult_eq Let_def distinct_ensure split: option.splits)
qed (simp add: accumulate_def)

lemma standings_step_map_of:
  assumes "\<And>k'. map_of acc k' = None \<or> map_of acc k' = Some (tally wp k' (rs k'))" "\<And>k'. map_of acc k' = None \<Longrightarrow> rs k' = []"
  shows "map_of (standings_step wp m acc) k =
    (if map_of acc k \<noteq> None \<or> appears k m then Some (tally wp k (rs k @ results_of k m)) else None)"
proof (cases "m_GroupLabel m")
  case None
  then show ?thesis using assms(1) [of k] by (auto simp: standings_step_def appears_def results_of_def)
next
  case (Some g)
  let ?h = "(g, m_HomeTeam m)" and ?a = "(g, m_AwayTeam m)"
  let ?acc = "ensure ?a (ensure ?h acc)"
  have ens: "map_of ?acc k' = (if map_of acc k' \<noteq> None \<or> k' = ?h \<or> k' = ?a then Some (tally wp k' (rs k')) else None)" for k'
    using assms(1) [of k'] assms(2) [of k'] by (auto simp: map_of_ensure tally_Nil split: option.splits)
  have app: "appears k m \<longleftrightarrow> k = ?h \<or> k = ?a" using Some by (cases k) (auto simp: appears_def)
  show ?thesis
  proof (cases "final_score m")
    case None
    then have "standings_step wp m acc = ?acc" "results_of k m = []"
      using Some by (auto simp: standings_step_def final_score_def results_of_def Let_def split: if_splits option.splits)
    then show ?thesis using ens [of k] app by simp
  next
    case sc: (Some p)
    obtain hs as where p: "p = (hs, as)" by (cases p)
    have step: "standings_step wp m acc = store ?a (result_for as hs wp) (store ?h (result_for hs as wp) ?acc)"
      using Some sc p by (auto simp: standings_step_def final_score_def applyMatchResult_eq Let_def split: if_splits option.splits)
    have res: "results_of k m = (if k = ?h then [(hs, as)] else []) @ (if k = ?a then [(as, hs)] else [])"
      using Some sc p by (cases k) (auto simp: results_of_def)
    show ?thesis unfolding step map_of_store ens res app
      by (auto simp: tally_snoc [symmetric])
  qed
qed

lemma map_of_accumulate:
  "map_of (accumulate wp ms) k = (if \<exists>m\<in>set ms. appears k m then Some (tally wp k (all_results k ms)) else None)"
proof (induction ms arbitrary: k rule: rev_induct)
  case (snoc m ms)
  have nil: "all_results k' ms = []" if "\<not> (\<exists>m\<in>set ms. appears k' m)" for k'
    using that results_not_appears by simp
  have "map_of (accumulate wp (ms @ [m])) k =
    (if map_of (accumulate wp ms) k \<noteq> None \<or> appears k m then Some (tally wp k (all_results k ms @ results_of k m)) else None)"
    unfolding accumulate_snoc 
    by (rule standings_step_map_of) (use nil in \<open>simp_all add: snoc.IH split: if_splits\<close>)
  then show ?case by (auto simp: snoc.IH)
qed (simp add: accumulate_def)

section \<open>The FIFA order\<close>

interpretation fifa: key_order lessStanding "\<lambda>st. (- gs_Points st, - gs_GD st, - gs_GF st, gs_Team st)"
  by unfold_locales (auto simp: lessStanding_def)

lemma lessStanding_irrefl: "\<not> lessStanding st st"
  by (simp add: lessStanding_def)

lemma lessStanding_total: "gs_Team a \<noteq> gs_Team b \<Longrightarrow> lessStanding a b \<or> lessStanding b a"
  by (auto simp: lessStanding_def)

lemma sort_standings_strict:
  assumes "distinct (map gs_Team rows)"
  shows "sorted_wrt lessStanding (sort_slice lessStanding rows)"
proof -
  have d: "distinct (map gs_Team (sort_slice lessStanding rows))"
    using assms by (metis mset_eq_imp_distinct_iff mset_map mset_sort_slice)
  have "sorted_wrt (\<lambda>a b. \<not> lessStanding b a) (sort_slice lessStanding rows)" by (rule fifa.no_inversions)
  then show ?thesis
    using d unfolding sorted_wrt_iff_nth_less distinct_conv_nth
    by (metis (no_types, lifting) length_map lessStanding_total nat_neq_iff nth_map order_less_trans)
qed

lemma sort_standings_perm:
  assumes "distinct (map gs_Team rows)" "mset rows = mset rows'"
  shows "sort_slice lessStanding rows = sort_slice lessStanding rows'"
proof -
  have "inj_on (\<lambda>st. (- gs_Points st, - gs_GD st, - gs_GF st, gs_Team st)) (set rows')"
  proof -
    have "distinct (map gs_Team rows')" using assms by (metis mset_eq_imp_distinct_iff mset_map)
    then show ?thesis by (auto simp: distinct_map inj_on_def)
  qed
  then show ?thesis using assms(2) fifa.no_inversions by (intro fifa.sort_unique) simp_all
qed

section \<open>Standings are the tally of the results\<close>

lemma accumulate_entries:
  "(k, st) \<in> set (accumulate wp ms) \<longleftrightarrow> (\<exists>m\<in>set ms. appears k m) \<and> st = tally wp k (all_results k ms)"
  using map_of_eq_Some_iff [OF distinct_accumulate, of wp ms k st] by (auto simp: map_of_accumulate split: if_splits)

lemma group_rows_set:
  assumes "\<And>xs. mset (order xs) = mset xs"
  shows "set (group_rows (order (accumulate wp ms)) g) =
    {set_GD (tally wp (g, t) (all_results (g, t) ms)) | t. \<exists>m\<in>set ms. appears (g, t) m}"
proof -
  have "set (order (accumulate wp ms)) = set (accumulate wp ms)" using assms by (metis set_mset_mset)
  then show ?thesis by (force simp: group_rows_def accumulate_entries)
qed

lemma team_set_GD [simp]: "gs_Team (set_GD st) = gs_Team st"
  by (simp add: set_GD_def)

lemma distinct_group_rows:
  assumes "\<And>xs. mset (order xs) = mset xs"
  shows "distinct (map gs_Team (group_rows (order (accumulate wp ms)) g))"
proof -
  let ?acc = "order (accumulate wp ms)"
  have set: "set ?acc = set (accumulate wp ms)" using assms by (metis set_mset_mset)
  have "distinct (map fst ?acc)" using assms distinct_accumulate by (metis mset_eq_imp_distinct_iff mset_map)
  then have d: "distinct (map fst (filter (\<lambda>(k, st). fst k = g) ?acc))" by (rule distinct_map_filter)
  have team: "gs_Team st = snd k" if "(k, st) \<in> set ?acc" for k st
    using that by (simp add: set accumulate_entries tally_def)
  have "map gs_Team (group_rows ?acc g) = map (\<lambda>p. snd (fst p)) (filter (\<lambda>(k, st). fst k = g) ?acc)"
    using team by (auto simp: group_rows_def)
  moreover have "distinct (map (\<lambda>p. snd (fst p)) (filter (\<lambda>(k, st). fst k = g) ?acc))"
    using d by (auto simp: distinct_map inj_on_def)
  ultimately show ?thesis by simp
qed

text \<open>
  C29: whatever the map iteration order, the standings of a group list every team of its fixtures exactly
  once, with the figures a direct tally of its finished matches gives (played, won, drawn, lost, goals,
  goal difference, points), strictly ordered by the FIFA criteria; a group without fixtures is absent.
\<close>
theorem buildStandings_tally:
  assumes "\<And>xs. mset (order xs) = mset xs"
  shows "case buildStandings order ms wp g of
      None \<Rightarrow> \<not> (\<exists>t. \<exists>m\<in>set ms. appears (g, t) m)
    | Some rows \<Rightarrow> set rows = {set_GD (tally wp (g, t) (all_results (g, t) ms)) | t. \<exists>m\<in>set ms. appears (g, t) m} \<and>
        distinct (map gs_Team rows) \<and> sorted_wrt lessStanding rows"
proof -
  let ?rows = "group_rows (order (accumulate wp ms)) g"
  have d: "distinct (map gs_Team ?rows)" by (rule distinct_group_rows [OF assms])
  have s: "set ?rows = {set_GD (tally wp (g, t) (all_results (g, t) ms)) | t. \<exists>m\<in>set ms. appears (g, t) m}"
    by (rule group_rows_set [OF assms])
  show ?thesis
  proof (cases ?rows)
    case Nil
    then show ?thesis using s by (auto simp: buildStandings_def)
  next
    case (Cons r rs)
    then have "buildStandings order ms wp g = Some (sort_slice lessStanding ?rows)" by (simp add: buildStandings_def)
    moreover have "distinct (map gs_Team (sort_slice lessStanding ?rows))"
      using d by (metis mset_eq_imp_distinct_iff mset_map mset_sort_slice)
    ultimately show ?thesis using s sort_standings_strict [OF d] by simp
  qed
qed

definition example_fixture :: "string \<Rightarrow> string \<Rightarrow> int \<Rightarrow> int \<Rightarrow> Match" where
  "example_fixture h a hs as = \<lparr>m_ID = 1, m_HomeTeam = h, m_AwayTeam = a, m_HomeScore = Some hs, m_AwayScore = Some as,
     m_Status = MatchStatusFinished, m_Phase = PhaseGroupStage, m_GroupLabel = Some ''A'', m_WinMethod = None,
     m_PenaltyWinner = None, m_Period = None, m_PenaltyHomeScore = None, m_PenaltyAwayScore = None, m_KickoffAt = 1, m_HomeSlotID = None, m_AwaySlotID = None, m_MatchCode = None,
     m_HalftimeHomeScore = None, m_HalftimeAwayScore = None, m_FirstScoringTeam = None,
     m_ExternalProvider = None, m_ExternalMatchID = None, m_LastSyncedAt = None\<rparr>"

definition example_fixtures :: "Match list" where
  "example_fixtures = [example_fixture ''X'' ''Y'' 2 1, example_fixture ''Y'' ''Z'' 0 0, example_fixture ''Z'' ''X'' 3 0]"

theorem buildStandings_tally_witness:
  "map gs_Team (the (buildStandings rev example_fixtures 3 ''A'')) = [''Z'', ''X'', ''Y''] \<and>
   set (the (buildStandings rev example_fixtures 3 ''A'')) =
     {set_GD (tally 3 (''A'', t) (all_results (''A'', t) example_fixtures)) | t. \<exists>m\<in>set example_fixtures. appears (''A'', t) m}"
proof
  have "map gs_Team (the (buildStandings rev example_fixtures 3 ''A'')) = [''Z'', ''X'', ''Y'']" by code_simp
  then show "map gs_Team (the (buildStandings rev example_fixtures 3 ''A'')) = [''Z'', ''X'', ''Y'']" .
  have "buildStandings rev example_fixtures 3 ''A'' \<noteq> None" by code_simp
  then show "set (the (buildStandings rev example_fixtures 3 ''A'')) =
     {set_GD (tally 3 (''A'', t) (all_results (''A'', t) example_fixtures)) | t. \<exists>m\<in>set example_fixtures. appears (''A'', t) m}"
    using buildStandings_tally [where order = rev and ms = example_fixtures and wp = 3 and g = "''A''"] by (simp split: option.splits)
qed

lemma buildStandings_if:
  "buildStandings order ms wp g = (let rows = group_rows (order (accumulate wp ms)) g in
     if rows = [] then None else Some (sort_slice lessStanding rows))"
  by (simp add: buildStandings_def Let_def split: list.split)

lemma buildStandings_order_independent:
  assumes "\<And>xs. mset (order xs) = mset xs" "\<And>xs. mset (order' xs) = mset xs"
  shows "buildStandings order ms wp = buildStandings order' ms wp"
proof
  fix g
  let ?r = "group_rows (order (accumulate wp ms)) g" and ?r' = "group_rows (order' (accumulate wp ms)) g"
  have "mset (order (accumulate wp ms)) = mset (order' (accumulate wp ms))" using assms by simp
  then have m: "mset ?r = mset ?r'" unfolding group_rows_def by (metis (no_types, lifting) mset_filter mset_map)
  then have "sort_slice lessStanding ?r = sort_slice lessStanding ?r'"
    by (intro sort_standings_perm distinct_group_rows assms)
  moreover have "?r = [] \<longleftrightarrow> ?r' = []" using m by (metis mset_zero_iff)
  ultimately show "buildStandings order ms wp g = buildStandings order' ms wp g"
    by (simp add: buildStandings_if Let_def)
qed

section \<open>Conservation\<close>

lemma sum_store:
  fixes \<phi> :: "GroupStanding \<Rightarrow> int"
  assumes "distinct (map fst acc)" "k \<in> fst ` set acc" "fst k = g" "\<And>st. \<phi> (f st) = \<phi> st + d"
  shows "(\<Sum>(k', st)\<leftarrow>filter (\<lambda>(k', st). fst k' = g) (store k f acc). \<phi> st) =
    (\<Sum>(k', st)\<leftarrow>filter (\<lambda>(k', st). fst k' = g) acc. \<phi> st) + d"
  using assms
proof (induction acc)
  case (Cons p acc)
  have none: "k \<notin> fst ` set acc \<Longrightarrow> store k f acc = acc"
    by (induction acc) (auto simp: store_def)
  obtain k' st where p: "p = (k', st)" by (cases p)
  have step: "store k f ((k', st) # acc) = (k', if k' = k then f st else st) # store k f acc"
    by (simp add: store_def)
  show ?case
  proof (cases "k' = k")
    case True
    then have "store k f acc = acc" using Cons.prems(1) none p by auto
    then show ?thesis using True Cons.prems(3,4) unfolding p step by simp
  next
    case False
    then have "k \<in> fst ` set acc" using Cons.prems(2) p by auto
    then show ?thesis using False Cons unfolding p step by simp
  qed
qed simp

abbreviation group_sum :: "(GroupStanding \<Rightarrow> int) \<Rightarrow> string \<Rightarrow> standings_acc \<Rightarrow> int" where
  "group_sum \<phi> g acc \<equiv> (\<Sum>(k, st)\<leftarrow>filter (\<lambda>(k, st). fst k = g) acc. \<phi> st)"

lemma sum_ensure: "\<phi> (new_standing k) = 0 \<Longrightarrow> group_sum \<phi> g (ensure k acc) = group_sum \<phi> g acc"
  by (auto simp: ensure_def split: option.splits)

lemma keys_ensure: "fst ` set (ensure k acc) = insert k (fst ` set acc)"
  by (auto simp: ensure_def split: option.splits dest: map_of_SomeD) (metis fst_conv image_eqI map_of_SomeD)

lemma keys_store_set: "fst ` set (store k f acc) = fst ` set acc"
  by (metis keys_store set_map)

text \<open>
  A figure that starts at zero and changes with every result by an amount depending on the result only:
  the sum over a group is the sum, over the finished matches of the group, of the two sides' amounts.
\<close>
lemma group_sum_accumulate:
  assumes "\<And>k. \<phi> (new_standing k) = 0" "\<And>gf ga st. \<phi> (result_for gf ga wp st) = \<phi> st + d gf ga"
  shows "group_sum \<phi> g (accumulate wp ms) =
    (\<Sum>m\<leftarrow>filter (\<lambda>m. m_GroupLabel m = Some g) ms. case final_score m of None \<Rightarrow> 0 | Some (hs, as) \<Rightarrow> d hs as + d as hs)"
proof (induction ms rule: rev_induct)
  case (snoc m ms)
  let ?acc = "accumulate wp ms"
  show ?case
  proof (cases "m_GroupLabel m")
    case None
    then show ?thesis using snoc by (simp add: accumulate_snoc standings_step_def)
  next
    case (Some l)
    let ?h = "(l, m_HomeTeam m)" and ?a = "(l, m_AwayTeam m)"
    let ?e = "ensure ?a (ensure ?h ?acc)"
    have e: "group_sum \<phi> g ?e = group_sum \<phi> g ?acc" using assms(1) by (simp add: sum_ensure)
    have de: "distinct (map fst ?e)" by (intro distinct_ensure distinct_accumulate)
    have ke: "?h \<in> fst ` set ?e" "?a \<in> fst ` set ?e" by (simp_all add: keys_ensure)
    show ?thesis
    proof (cases "final_score m")
      case None
      then have "standings_step wp m ?acc = ?e"
        using Some by (auto simp: standings_step_def final_score_def Let_def split: if_splits option.splits)
      then show ?thesis using snoc e None by (simp add: accumulate_snoc)
    next
      case sc: (Some p)
      obtain hs as where p: "p = (hs, as)" by (cases p)
      have step: "standings_step wp m ?acc = store ?a (result_for as hs wp) (store ?h (result_for hs as wp) ?e)"
        using Some sc p by (auto simp: standings_step_def final_score_def applyMatchResult_eq Let_def split: if_splits option.splits)
      show ?thesis
      proof (cases "l = g")
        case True
        have "group_sum \<phi> g (store ?a (result_for as hs wp) (store ?h (result_for hs as wp) ?e)) =
            group_sum \<phi> g (store ?h (result_for hs as wp) ?e) + d as hs"
          by (rule sum_store) (use de ke True assms(2) in \<open>simp_all add: keys_store_set\<close>)
        also have "group_sum \<phi> g (store ?h (result_for hs as wp) ?e) = group_sum \<phi> g ?e + d hs as"
          by (rule sum_store) (use de ke True assms(2) in simp_all)
        finally show ?thesis using snoc e Some sc p True by (simp add: accumulate_snoc step)
      next
        case False
        have "filter (\<lambda>(k, st). fst k = g) (store k f acc) = filter (\<lambda>(k, st). fst k = g) acc" if "fst k = l" for k f acc
          using that False by (induction acc) (auto simp: store_def split: if_splits)
        then show ?thesis using snoc e Some False by (simp add: accumulate_snoc step)
      qed
    qed
  qed
qed (simp add: accumulate_def)

lemma rows_sum:
  assumes "\<And>xs. mset (order xs) = mset xs" "buildStandings order ms wp g = Some rows" "\<And>st. \<phi> (set_GD st) = \<phi>' st"
  shows "(\<Sum>st\<leftarrow>rows. \<phi> st) = group_sum \<phi>' g (accumulate wp ms)"
proof -
  let ?rows = "group_rows (order (accumulate wp ms)) g"
  have "rows = sort_slice lessStanding ?rows" using assms(2) by (simp add: buildStandings_if Let_def split: if_splits)
  then have "(\<Sum>st\<leftarrow>rows. \<phi> st) = (\<Sum>st\<leftarrow>?rows. \<phi> st)"
    by (metis mset_map mset_sort_slice sum_mset_sum_list)
  also have "\<dots> = group_sum \<phi>' g (order (accumulate wp ms))"
    using assms(3) by (simp add: group_rows_def comp_def split_def)
  also have "\<dots> = group_sum \<phi>' g (accumulate wp ms)"
    using assms(1) by (metis (no_types, lifting) mset_filter mset_map sum_mset_sum_list)
  finally show ?thesis .
qed

text \<open>
  The books of a group balance. Over the rows of a group the wins equal the losses, the goal
  differences add up to zero, every finished match is played by two, and the points handed out are
  the win points for every decided match and two for every draw.
\<close>
theorem standings_conservation:
  assumes "\<And>xs. mset (order xs) = mset xs" "buildStandings order ms wp g = Some rows"
  defines "finished \<equiv> map (the \<circ> final_score) (filter (\<lambda>m. m_GroupLabel m = Some g \<and> final_score m \<noteq> None) ms)"
  shows "(\<Sum>st\<leftarrow>rows. gs_Won st) = (\<Sum>st\<leftarrow>rows. gs_Lost st) \<and> (\<Sum>st\<leftarrow>rows. gs_GD st) = 0 \<and>
    (\<Sum>st\<leftarrow>rows. gs_Played st) = 2 * int (length finished) \<and>
    (\<Sum>st\<leftarrow>rows. gs_Points st) =
      wp * count_where (\<lambda>(hs, as). hs \<noteq> as) finished + 2 * count_where (\<lambda>(hs, as). hs = as) finished"
proof -
  have fin: "(\<Sum>m\<leftarrow>filter (\<lambda>m. m_GroupLabel m = Some g) ms. case final_score m of None \<Rightarrow> 0 | Some (hs, as) \<Rightarrow> f hs as) =
      (\<Sum>(hs, as)\<leftarrow>finished. f hs as)" for f :: "int \<Rightarrow> int \<Rightarrow> int"
    unfolding finished_def by (induction ms) (auto split: option.splits)
  have upd: "gs_Won (set_GD st) = gs_Won st" "gs_Lost (set_GD st) = gs_Lost st" "gs_Played (set_GD st) = gs_Played st"
    "gs_Points (set_GD st) = gs_Points st" "gs_GD (set_GD st) = gs_GF st - gs_GC st" for st
    by (simp_all add: set_GD_def)
  note R = rows_sum [OF assms(1,2)]
  note A = group_sum_accumulate [where ms = ms and g = g and wp = wp, unfolded fin]
  have 1: "(\<Sum>st\<leftarrow>rows. gs_Won st) = (\<Sum>(hs, as)\<leftarrow>finished. (if hs > as then 1 else 0) + (if as > hs then 1 else 0))"
    unfolding R [of gs_Won gs_Won, OF upd(1)]
    by (rule A [where d = "\<lambda>gf ga. if gf > ga then 1 else 0"]) (simp_all add: new_standing_def result_for_def)
  have 2: "(\<Sum>st\<leftarrow>rows. gs_Lost st) = (\<Sum>(hs, as)\<leftarrow>finished. (if hs < as then 1 else 0) + (if as < hs then 1 else 0))"
    unfolding R [of gs_Lost gs_Lost, OF upd(2)]
    by (rule A [where d = "\<lambda>gf ga. if gf < ga then 1 else 0"]) (simp_all add: new_standing_def result_for_def)
  have 3: "(\<Sum>st\<leftarrow>rows. gs_GD st) = (\<Sum>(hs, as)\<leftarrow>finished. (hs - as) + (as - hs))"
    unfolding R [of gs_GD "\<lambda>st. gs_GF st - gs_GC st", OF upd(5)]
    by (rule A [where d = "\<lambda>gf ga. gf - ga"]) (simp_all add: new_standing_def result_for_def)
  have 4: "(\<Sum>st\<leftarrow>rows. gs_Played st) = (\<Sum>(hs, as)\<leftarrow>finished. 1 + 1)"
    unfolding R [of gs_Played gs_Played, OF upd(3)]
    by (rule A [where d = "\<lambda>gf ga. 1"]) (simp_all add: new_standing_def result_for_def)
  have 5: "(\<Sum>st\<leftarrow>rows. gs_Points st) = (\<Sum>(hs, as)\<leftarrow>finished.
      (if hs > as then wp else if hs = as then 1 else 0) + (if as > hs then wp else if as = hs then 1 else 0))"
    unfolding R [of gs_Points gs_Points, OF upd(4)]
    by (rule A [where d = "\<lambda>gf ga. if gf > ga then wp else if gf = ga then 1 else 0"]) (simp_all add: new_standing_def result_for_def)
  have "(\<Sum>(hs, as)\<leftarrow>finished. (if hs > as then wp else if hs = as then 1 else 0) + (if as > hs then wp else if as = hs then 1 else 0)) =
      wp * count_where (\<lambda>(hs, as). hs \<noteq> as) finished + 2 * count_where (\<lambda>(hs, as). hs = as) finished"
    by (induction finished) (auto simp: algebra_simps)
  moreover have "(\<Sum>(hs, as)\<leftarrow>finished. (if hs > as then 1 else 0) + (if as > hs then 1 else 0)) =
      (\<Sum>(hs, as)\<leftarrow>finished. (if hs < as then 1 else 0) + (if as < hs then (1::int) else 0))"
    by (simp add: add.commute)
  moreover have "(\<Sum>(hs, as)\<leftarrow>finished. (hs - as) + (as - hs)) = 0" by (induction finished) auto
  moreover have "(\<Sum>(hs, as)\<leftarrow>finished. 1 + (1::int)) = 2 * int (length finished)" by (induction finished) auto
  ultimately show ?thesis using 1 2 3 4 5 by simp
qed

theorem standings_conservation_witness:
  "(\<Sum>st\<leftarrow>the (buildStandings rev example_fixtures 3 ''A''). gs_Won st) =
   (\<Sum>st\<leftarrow>the (buildStandings rev example_fixtures 3 ''A''). gs_Lost st)"
proof -
  have "buildStandings rev example_fixtures 3 ''A'' \<noteq> None" by code_simp
  then have "buildStandings rev example_fixtures 3 ''A'' = Some (the (buildStandings rev example_fixtures 3 ''A''))" by simp
  from standings_conservation [OF _ this] show ?thesis by simp
qed

end
