(* ===== verification/Matching.thy ===== *)
theory Matching
  imports Standings
begin

text \<open>
  The assignment of the best third-placed teams to the round-of-32 slots
  (\<^verbatim>\<open>service/tournament_service.go\<close>, \<open>parseBestThirdEligibleGroups\<close> to \<open>matchBestThirdsToSlots\<close>): a
  depth-first augmenting-path matching. The slices \<open>visited\<close> and \<open>teamToSlot\<close> that the Go code mutates
  are threaded through the recursion. \<open>augment\<close> terminates because every recursive call marks a new
  team; an index outside the slices, which Go would answer with a panic, does not occur for the adjacency
  lists that \<open>buildBestThirdAdjacency\<close> builds, and makes the model stop.
\<close>

section \<open>Strings\<close>

fun Index :: "char \<Rightarrow> string \<Rightarrow> nat option" where
  "Index c [] = None"
| "Index c (x # xs) = (if x = c then Some 0 else map_option Suc (Index c xs))"

definition LastIndex :: "char \<Rightarrow> string \<Rightarrow> nat option" where
  "LastIndex c s = map_option (\<lambda>i. length s - 1 - i) (Index c (rev s))"

fun Split :: "char \<Rightarrow> string \<Rightarrow> string list" where
  "Split c [] = [[]]"
| "Split c (x # xs) = (if x = c then [] # Split c xs
     else case Split c xs of [] \<Rightarrow> [[x]] | p # ps \<Rightarrow> (x # p) # ps)"

text \<open>\<^verbatim>\<open>strings.TrimSpace\<close> on ASCII text.\<close>
definition ascii_space :: "char \<Rightarrow> bool" where
  "ascii_space c \<longleftrightarrow> c \<in> {CHR 0x09, CHR 0x0A, CHR 0x0B, CHR 0x0C, CHR 0x0D, CHR 0x20}"

definition TrimSpace :: "string \<Rightarrow> string" where
  "TrimSpace s = rev (dropWhile ascii_space (rev (dropWhile ascii_space s)))"

definition HasPrefix :: "string \<Rightarrow> string \<Rightarrow> bool" where
  "HasPrefix s p \<longleftrightarrow> take (length p) s = p"

section \<open>Slots\<close>

record thirdSlotEntry =
  tse_id :: int
  tse_label :: string
  tse_eligibleGroups :: "string list"

definition best_third_prefix :: string where
  "best_third_prefix = ''Mejor 3.'' @ [CHR 0xC2, CHR 0xB0]"

definition parseBestThirdEligibleGroups :: "string \<Rightarrow> string list" where
  "parseBestThirdEligibleGroups desc = (case (Index (CHR 0x28) desc, LastIndex (CHR 0x29) desc) of
     (Some op, Some cl) \<Rightarrow>
       if cl \<le> op then []
       else filter (\<lambda>p. p \<noteq> []) (map TrimSpace (Split (CHR 0x2F) (take (cl - (op + 1)) (drop (op + 1) desc))))
   | _ \<Rightarrow> [])"

definition filterBestThirdSlots :: "TournamentSlot list \<Rightarrow> thirdSlotEntry list" where
  "filterBestThirdSlots allSlots = concat (map (\<lambda>slot.
     if ts_AutoSource slot \<noteq> None \<or> \<not> HasPrefix (ts_Description slot) best_third_prefix then []
     else let eligible = parseBestThirdEligibleGroups (ts_Description slot) in
       if eligible = [] then []
       else [\<lparr>tse_id = ts_ID slot, tse_label = ts_Label slot, tse_eligibleGroups = eligible\<rparr>]) allSlots)"

fun groupForTeam :: "GroupStanding list \<Rightarrow> string \<Rightarrow> string" where
  "groupForTeam [] team = []"
| "groupForTeam (t # ts) team = (if gs_Team t = team then gs_Group t else groupForTeam ts team)"

section \<open>Augmenting paths\<close>

text \<open>
  The loop of \<^verbatim>\<open>augment\<close> over the teams \<open>js\<close> that are still to be tried for \<open>slotIdx\<close>; the result is the
  returned flag with the two slices.
\<close>
function augment_loop ::
  "nat list list \<Rightarrow> nat \<Rightarrow> nat list \<Rightarrow> bool list \<Rightarrow> int list \<Rightarrow> bool \<times> bool list \<times> int list" where
  "augment_loop adj slotIdx [] visited teamToSlot = (False, visited, teamToSlot)"
| "augment_loop adj slotIdx (teamIdx # js) visited teamToSlot =
    (if \<not> teamIdx < length visited then (False, visited, teamToSlot)
     else if visited ! teamIdx then augment_loop adj slotIdx js visited teamToSlot
     else
       let visited1 = visited[teamIdx := True] in
       if teamToSlot ! teamIdx = - 1 then (True, visited1, teamToSlot[teamIdx := int slotIdx])
       else
         let s' = nat (teamToSlot ! teamIdx); r = augment_loop adj s' (adj ! s') visited1 teamToSlot in
         if fst r then (True, fst (snd r), (snd (snd r))[teamIdx := int slotIdx])
         else augment_loop adj slotIdx js (fst (snd r)) (snd (snd r)))"
  by pat_completeness auto

lemma count_mark: "j < length v \<Longrightarrow> \<not> v ! j \<Longrightarrow> count_list (v[j := True]) False < count_list v False"
proof (induction v arbitrary: j)
  case (Cons x v)
  then show ?case by (cases j) auto
qed simp

lemma augment_loop_visited:
  "augment_loop_dom (adj, slotIdx, js, visited, teamToSlot) \<Longrightarrow>
   count_list (fst (snd (augment_loop adj slotIdx js visited teamToSlot))) False \<le> count_list visited False"
proof (induction adj slotIdx js visited teamToSlot rule: augment_loop.pinduct)
  case (1 adj slotIdx visited teamToSlot)
  then show ?case by (simp add: augment_loop.psimps)
next
  case (2 adj slotIdx j js v t)
  let ?v = "v[j := True]" and ?s = "nat (t ! j)"
  let ?r = "augment_loop adj ?s (adj ! ?s) ?v t"
  show ?case
  proof (cases "j < length v \<and> \<not> v ! j \<and> t ! j \<noteq> - 1")
    case True
    have r: "count_list (fst (snd ?r)) False \<le> count_list ?v False" using 2(3) True by simp
    have "count_list (fst (snd (augment_loop adj slotIdx js (fst (snd ?r)) (snd (snd ?r))))) False \<le>
        count_list (fst (snd ?r)) False" if "\<not> fst ?r" using 2(4) True that by simp
    with r True 2(1) count_mark [of j v] show ?thesis by (cases "fst ?r") (simp_all add: augment_loop.psimps Let_def)
  next
    case False
    then show ?thesis using 2(1,2) count_mark [of j v] by (auto simp: augment_loop.psimps Let_def)
  qed
qed

termination augment_loop
proof (relation "measures [\<lambda>(adj, s, js, v, t). count_list v False, \<lambda>(adj, s, js, v, t). length js]", goal_cases)
  case (4 adj slotIdx j js v t v1 s' r)
  then have "count_list (fst (snd r)) False \<le> count_list v1 False" using augment_loop_visited by blast
  with 4 count_mark [of j v] show ?case by (auto simp: split_beta)
qed (auto simp: count_mark)

definition augment :: "nat list list \<Rightarrow> nat \<Rightarrow> bool list \<Rightarrow> int list \<Rightarrow> bool \<times> bool list \<times> int list" where
  "augment adj slotIdx visited teamToSlot = augment_loop adj slotIdx (adj ! slotIdx) visited teamToSlot"

definition buildBestThirdAdjacency :: "thirdSlotEntry list \<Rightarrow> GroupStanding list \<Rightarrow> nat list list" where
  "buildBestThirdAdjacency slots teams =
     map (\<lambda>s. filter (\<lambda>j. gs_Group (teams ! j) \<in> set (tse_eligibleGroups s)) [0..<length teams]) slots"

text \<open>The loop over the slots: the slice and the number of slots matched so far.\<close>
fun match_loop :: "nat list list \<Rightarrow> nat \<Rightarrow> nat list \<Rightarrow> int list \<Rightarrow> nat \<Rightarrow> int list \<times> nat" where
  "match_loop adj m [] teamToSlot matched = (teamToSlot, matched)"
| "match_loop adj m (i # is) teamToSlot matched =
    (let r = augment adj i (replicate m False) teamToSlot in
     match_loop adj m is (snd (snd r)) (if fst r then matched + 1 else matched))"

definition matchBestThirdsToSlots :: "thirdSlotEntry list \<Rightarrow> GroupStanding list \<Rightarrow> (int \<rightharpoonup> string) option" where
  "matchBestThirdsToSlots slots teams =
    (let n = length slots; m = length teams in
     if n = 0 \<or> m = 0 then Some Map.empty
     else let r = match_loop (buildBestThirdAdjacency slots teams) m [0..<n] (replicate m (- 1)) 0 in
       if snd r \<noteq> n then None
       else Some (fold (\<lambda>teamIdx result. let slotIdx = fst r ! teamIdx in
           if slotIdx \<ge> 0 \<and> teamIdx < length teams
             then result(tse_id (slots ! nat slotIdx) \<mapsto> gs_Team (teams ! teamIdx)) else result)
         [0..<length (fst r)] Map.empty))"

section \<open>Correctness of the matching\<close>

text \<open>The pairs (team, slot) of the teams that are not marked.\<close>
definition pairs :: "bool list \<Rightarrow> int list \<Rightarrow> (nat \<times> nat) set" where
  "pairs v t = {(j, s). j < length t \<and> \<not> v ! j \<and> t ! j = int s}"

definition one_to_one :: "(nat \<times> nat) set \<Rightarrow> bool" where
  "one_to_one M \<longleftrightarrow> (\<forall>j j' s. (j, s) \<in> M \<longrightarrow> (j', s) \<in> M \<longrightarrow> j = j')"

definition adj_ok :: "nat list list \<Rightarrow> nat \<Rightarrow> bool" where
  "adj_ok adj m \<longleftrightarrow> (\<forall>s<length adj. \<forall>j\<in>set (adj ! s). j < m)"

definition assigned_ok :: "nat list list \<Rightarrow> nat \<Rightarrow> int list \<Rightarrow> bool" where
  "assigned_ok adj m t \<longleftrightarrow> length t = m \<and>
     (\<forall>j<m. t ! j = - 1 \<or> (\<exists>s<length adj. t ! j = int s \<and> j \<in> set (adj ! s)))"

definition aug_pre :: "nat list list \<Rightarrow> nat \<Rightarrow> nat \<Rightarrow> nat list \<Rightarrow> bool list \<Rightarrow> int list \<Rightarrow> bool" where
  "aug_pre adj m slot js v t \<longleftrightarrow> adj_ok adj m \<and> length v = m \<and> assigned_ok adj m t \<and> one_to_one (pairs v t) \<and>
     slot \<notin> snd ` pairs v t \<and> slot < length adj \<and> set js \<subseteq> set (adj ! slot)"

definition aug_post ::
  "nat list list \<Rightarrow> nat \<Rightarrow> nat \<Rightarrow> nat list \<Rightarrow> bool list \<Rightarrow> int list \<Rightarrow> bool \<times> bool list \<times> int list \<Rightarrow> bool" where
  "aug_post adj m slot js v t r \<longleftrightarrow> (case r of (b, v', t') \<Rightarrow>
     length v' = m \<and> (\<forall>j<m. v ! j \<longrightarrow> v' ! j) \<and> assigned_ok adj m t' \<and> (\<forall>j<m. v ! j \<longrightarrow> t' ! j = t ! j) \<and>
     (if b then one_to_one (pairs v t') \<and> snd ` pairs v t' = insert slot (snd ` pairs v t)
      else t' = t \<and> (\<forall>j\<in>set js. v' ! j) \<and>
        (\<forall>j<m. v' ! j \<longrightarrow> \<not> v ! j \<longrightarrow> t ! j \<noteq> - 1 \<and> (\<forall>j'\<in>set (adj ! nat (t ! j)). v' ! j'))))"

lemma pairs_mark:
  assumes "length v = length t" "j < length t" "\<not> v ! j" "t ! j = int s"
  shows "pairs v t = insert (j, s) (pairs (v[j := True]) t)"
  using assms by (auto simp: pairs_def nth_list_update split: if_splits)

lemma pairs_assign:
  assumes "length v = length t" "j < length t" "\<not> v ! j"
  shows "pairs v (t[j := int s]) = insert (j, s) (pairs (v[j := True]) t)"
  using assms by (auto simp: pairs_def nth_list_update split: if_splits)

lemma pairs_anti: "length v = length t \<Longrightarrow> length v' = length t \<Longrightarrow> \<forall>j<length t. v ! j \<longrightarrow> v' ! j \<Longrightarrow> pairs v' t \<subseteq> pairs v t"
  by (auto simp: pairs_def)

lemma one_to_one_subset: "one_to_one M \<Longrightarrow> N \<subseteq> M \<Longrightarrow> one_to_one N"
  unfolding one_to_one_def by blast

lemma one_to_one_insert: "one_to_one M \<Longrightarrow> s \<notin> snd ` M \<Longrightarrow> one_to_one (insert (j, s) M)"
  unfolding one_to_one_def by force

lemma assigned_ok_update:
  "assigned_ok adj m t \<Longrightarrow> j < m \<Longrightarrow> s < length adj \<Longrightarrow> j \<in> set (adj ! s) \<Longrightarrow> assigned_ok adj m (t[j := int s])"
  unfolding assigned_ok_def by (auto simp: nth_list_update)

lemma aug_free:
  assumes "aug_pre adj m slot (j # js) v t" "\<not> v ! j" "t ! j = - 1"
  shows "aug_post adj m slot (j # js) v t (True, v[j := True], t[j := int slot])"
proof -
  have l: "length v = m" "length t = m" "j < m" "slot < length adj" "j \<in> set (adj ! slot)"
    using assms(1) unfolding aug_pre_def assigned_ok_def adj_ok_def by auto
  have p: "pairs (v[j := True]) t = pairs v t" using assms(2,3) l by (auto simp: pairs_def nth_list_update split: if_splits)
  have "pairs v (t[j := int slot]) = insert (j, slot) (pairs v t)"
    using pairs_assign [of v t j slot] assms(2) l p by simp
  then show ?thesis
    using assms l one_to_one_insert [of "pairs v t" slot j] assigned_ok_update [of adj m t j slot]
    by (auto simp: aug_post_def aug_pre_def nth_list_update)
qed

lemma aug_recurse_pre:
  assumes "aug_pre adj m slot (j # js) v t" "\<not> v ! j" "t ! j \<noteq> - 1"
  obtains s where "t ! j = int s" "aug_pre adj m s (adj ! s) (v[j := True]) t" "(j, s) \<in> pairs v t" "s \<noteq> slot" "j < m"
proof -
  have l: "length v = m" "length t = m" "j < m" using assms(1) unfolding aug_pre_def assigned_ok_def adj_ok_def by auto
  obtain s where s: "t ! j = int s" "s < length adj"
    using assms(1,3) l unfolding aug_pre_def assigned_ok_def by auto
  have p: "pairs v t = insert (j, s) (pairs (v[j := True]) t)" using pairs_mark [of v t j s] l assms(2) s by simp
  have "s \<notin> snd ` pairs (v[j := True]) t"
  proof
    assume "s \<in> snd ` pairs (v[j := True]) t"
    then obtain j' where "(j', s) \<in> pairs (v[j := True]) t" by force
    moreover then have "j' \<noteq> j" using l by (auto simp: pairs_def)
    ultimately show False using assms(1) p unfolding aug_pre_def one_to_one_def by blast
  qed
  moreover have "one_to_one (pairs (v[j := True]) t)"
    using assms(1) p one_to_one_subset unfolding aug_pre_def by (metis subset_insertI)
  ultimately have "aug_pre adj m s (adj ! s) (v[j := True]) t" using assms(1) s l unfolding aug_pre_def by simp
  moreover have "s \<noteq> slot" using assms(1) p unfolding aug_pre_def by force
  ultimately show ?thesis using that s p l by blast
qed

lemma aug_recurse_success:
  assumes "aug_pre adj m slot (j # js) v t" "\<not> v ! j" "t ! j = int s"
    "aug_post adj m s (adj ! s) (v[j := True]) t (True, v2, t2)"
  shows "aug_post adj m slot (j # js) v t (True, v2, t2[j := int slot])"
proof -
  have l: "length v = m" "length t = m" "j < m" "slot < length adj" "j \<in> set (adj ! slot)"
    using assms(1) unfolding aug_pre_def assigned_ok_def adj_ok_def by auto
  have post: "length v2 = m" "\<forall>i<m. v[j := True] ! i \<longrightarrow> v2 ! i" "assigned_ok adj m t2"
    "\<forall>i<m. v[j := True] ! i \<longrightarrow> t2 ! i = t ! i" "one_to_one (pairs (v[j := True]) t2)"
    "snd ` pairs (v[j := True]) t2 = insert s (snd ` pairs (v[j := True]) t)"
    using assms(4) by (simp_all add: aug_post_def)
  have l2: "length t2 = m" using post(3) by (simp add: assigned_ok_def)
  have p: "pairs v t = insert (j, s) (pairs (v[j := True]) t)" using pairs_mark [of v t j s] l assms(2,3) by simp
  have p2: "pairs v (t2[j := int slot]) = insert (j, slot) (pairs (v[j := True]) t2)"
    using pairs_assign [of v t2 j slot] l l2 assms(2) by simp
  have slots: "insert s (snd ` pairs (v[j := True]) t) = snd ` pairs v t" using p by simp
  have new: "slot \<notin> snd ` pairs v t" using assms(1) by (simp add: aug_pre_def)
  have "one_to_one (pairs v (t2[j := int slot]))"
    unfolding p2 by (rule one_to_one_insert [OF post(5)]) (use post(6) slots new in simp)
  moreover have "snd ` pairs v (t2[j := int slot]) = insert slot (snd ` pairs v t)"
    unfolding p2 using post(6) slots by simp
  moreover have "assigned_ok adj m (t2[j := int slot])" by (rule assigned_ok_update) (use post(3) l in auto)
  moreover have "\<forall>i<m. v ! i \<longrightarrow> v2 ! i" "\<forall>i<m. v ! i \<longrightarrow> t2[j := int slot] ! i = t ! i"
    using post(2,4) assms(2) l l2 by (auto simp: nth_list_update split: if_splits)
  ultimately show ?thesis using post(1) by (simp add: aug_post_def)
qed

text \<open>After a failed recursive call the loop goes on with more marks; the pairs of the new marks stay as they were.\<close>
lemma aug_continue:
  assumes "aug_pre adj m slot (j # js) v t" "length v2 = m" "\<forall>i<m. v ! i \<longrightarrow> v2 ! i" "v2 ! j"
    "\<forall>i<m. v2 ! i \<longrightarrow> \<not> v ! i \<longrightarrow> t ! i \<noteq> - 1 \<and> (\<forall>j'\<in>set (adj ! nat (t ! i)). v2 ! j')"
    "aug_post adj m slot js v2 t r"
  shows "aug_post adj m slot (j # js) v t r"
proof -
  obtain b v' t' where r: "r = (b, v', t')" by (cases r)
  have l: "length v = m" "length t = m" "j < m" "slot \<notin> snd ` pairs v t" "one_to_one (pairs v t)"
    using assms(1) unfolding aug_pre_def assigned_ok_def adj_ok_def by auto
  have post: "length v' = m" "\<forall>i<m. v2 ! i \<longrightarrow> v' ! i" "assigned_ok adj m t'" "\<forall>i<m. v2 ! i \<longrightarrow> t' ! i = t ! i"
    using assms(6) by (simp_all add: aug_post_def r split: if_splits)
  have l': "length t' = m" using post(3) by (simp add: assigned_ok_def)
  show ?thesis
  proof (cases b)
    case True
    define old where "old = {(i, s). i < m \<and> v2 ! i \<and> \<not> v ! i \<and> t ! i = int s}"
    have succ: "one_to_one (pairs v2 t')" "snd ` pairs v2 t' = insert slot (snd ` pairs v2 t)"
      using assms(6) True by (simp_all add: aug_post_def r)
    have split: "pairs v t = pairs v2 t \<union> old" "pairs v t' = pairs v2 t' \<union> old"
      using assms(2,3) post(4) l l' by (auto simp: pairs_def old_def)
    have "one_to_one (pairs v t')"
      unfolding one_to_one_def
    proof (intro allI impI)
      fix i i' s assume ii: "(i, s) \<in> pairs v t'" "(i', s) \<in> pairs v t'"
      have sep: False if "(x, s) \<in> pairs v2 t'" "(y, s) \<in> old" for x y
      proof -
        have "s \<in> insert slot (snd ` pairs v2 t)" using that(1) succ(2) by force
        moreover have "s \<noteq> slot" using that(2) split(1) l(4) by force
        ultimately obtain z where z: "(z, s) \<in> pairs v2 t" by force
        then have "z = y" using that(2) split(1) l(5) unfolding one_to_one_def by blast
        then show False using z that(2) l by (auto simp: pairs_def old_def)
      qed
      have w: "(i, s) \<in> pairs v2 t' \<or> (i, s) \<in> old" "(i', s) \<in> pairs v2 t' \<or> (i', s) \<in> old"
        using ii by (simp_all only: split(2) Un_iff)
      have both_new: "i = i'" if "(i, s) \<in> pairs v2 t'" "(i', s) \<in> pairs v2 t'"
        using that succ(1) unfolding one_to_one_def by blast
      have both_old: "i = i'" if "(i, s) \<in> old" "(i', s) \<in> old"
        using that split(1) l(5) unfolding one_to_one_def by blast
      show "i = i'" using w(1)
      proof
        assume "(i, s) \<in> pairs v2 t'"
        then show ?thesis using w(2) both_new sep by blast
      next
        assume "(i, s) \<in> old"
        then show ?thesis using w(2) both_old sep by blast
      qed
    qed
    moreover have "snd ` pairs v t' = insert slot (snd ` pairs v t)" using succ(2) by (simp add: split image_Un)
    ultimately show ?thesis using post assms(3) True by (auto simp: aug_post_def r)
  next
    case False
    then have fail: "t' = t" "\<forall>i\<in>set js. v' ! i"
      "\<forall>i<m. v' ! i \<longrightarrow> \<not> v2 ! i \<longrightarrow> t ! i \<noteq> - 1 \<and> (\<forall>j'\<in>set (adj ! nat (t ! i)). v' ! j')"
      using assms(6) by (simp_all add: aug_post_def r)
    have adj: "\<forall>i<m. t ! i \<noteq> - 1 \<longrightarrow> (\<forall>j'\<in>set (adj ! nat (t ! i)). j' < m)"
      using assms(1) unfolding aug_pre_def assigned_ok_def adj_ok_def by (metis nat_int)
    have closed: "t ! i \<noteq> - 1 \<and> (\<forall>j'\<in>set (adj ! nat (t ! i)). v' ! j')" if "i < m" "v' ! i" "\<not> v ! i" for i
    proof (cases "v2 ! i")
      case True
      then show ?thesis using assms(5) post(2) adj that by blast
    next
      case False
      then show ?thesis using fail(3) that by blast
    qed
    have "\<forall>i<m. v ! i \<longrightarrow> v' ! i" using assms(3) post(2) by blast
    moreover have "\<forall>i\<in>set (j # js). v' ! i" using assms(4) post(2) l(3) fail(2) by simp
    moreover have "assigned_ok adj m t" using post(3) fail(1) by simp
    ultimately show ?thesis
      unfolding aug_post_def r prod.case if_not_P [OF False] fail(1) using post(1) closed by blast
  qed
qed

lemma aug_pre_continue:
  assumes "aug_pre adj m slot (j # js) v t" "length v2 = m" "\<forall>i<m. v ! i \<longrightarrow> v2 ! i"
  shows "aug_pre adj m slot js v2 t"
proof -
  have "pairs v2 t \<subseteq> pairs v t"
    by (rule pairs_anti) (use assms in \<open>auto simp: aug_pre_def assigned_ok_def\<close>)
  then show ?thesis using assms one_to_one_subset unfolding aug_pre_def by auto
qed

lemma augment_loop_correct:
  "aug_pre adj m slot js v t \<Longrightarrow> aug_post adj m slot js v t (augment_loop adj slot js v t)"
proof (induction adj slot js v t rule: augment_loop.induct)
  case (1 adj slot v t)
  then show ?case by (simp add: aug_post_def aug_pre_def)
next
  case (2 adj slot j js v t)
  have l: "length v = m" "j < m" using 2(4) unfolding aug_pre_def assigned_ok_def adj_ok_def by auto
  show ?case
  proof (cases "v ! j")
    case True
    have "aug_post adj m slot js v t (augment_loop adj slot js v t)"
      using 2(1) l True aug_pre_continue [OF 2(4), of v] by simp
    then have "aug_post adj m slot (j # js) v t (augment_loop adj slot js v t)"
      by (rule aug_continue [OF 2(4) l(1) _ True, rotated 2]) simp_all
    then show ?thesis using l True by simp
  next
    case nv: False
    show ?thesis
    proof (cases "t ! j = - 1")
      case True
      then show ?thesis using aug_free [OF 2(4) nv] l nv by simp
    next
      case False
      let ?v = "v[j := True]"
      obtain s where s: "t ! j = int s" "aug_pre adj m s (adj ! s) ?v t" by (rule aug_recurse_pre [OF 2(4) nv False])
      obtain b v2 t2 where r: "augment_loop adj s (adj ! s) ?v t = (b, v2, t2)" by (metis prod_cases3)
      have post: "aug_post adj m s (adj ! s) ?v t (b, v2, t2)" using 2(2) l nv False s r by simp
      show ?thesis
      proof (cases b)
        case True
        then show ?thesis using aug_recurse_success [OF 2(4) nv s(1)] post l nv False s(1) r by (simp add: Let_def)
      next
        case fb: False
        then have t2: "t2 = t" and v2: "length v2 = m" "\<forall>i<m. ?v ! i \<longrightarrow> v2 ! i" "\<forall>i\<in>set (adj ! s). v2 ! i"
          and cl: "\<forall>i<m. v2 ! i \<longrightarrow> \<not> ?v ! i \<longrightarrow> t ! i \<noteq> - 1 \<and> (\<forall>j'\<in>set (adj ! nat (t ! i)). v2 ! j')"
          using post by (simp_all add: aug_post_def)
        have vv: "\<forall>i<m. v ! i \<longrightarrow> v2 ! i" "v2 ! j" using v2(2) l by (auto simp: nth_list_update)
        have cl': "\<forall>i<m. v2 ! i \<longrightarrow> \<not> v ! i \<longrightarrow> t ! i \<noteq> - 1 \<and> (\<forall>j'\<in>set (adj ! nat (t ! i)). v2 ! j')"
        proof (intro allI impI)
          fix i assume i: "i < m" "v2 ! i" "\<not> v ! i"
          show "t ! i \<noteq> - 1 \<and> (\<forall>j'\<in>set (adj ! nat (t ! i)). v2 ! j')"
          proof (cases "i = j")
            case True
            then show ?thesis using v2(3) s(1) False by simp
          next
            case ij: False
            then have "\<not> ?v ! i" using i(3) by simp
            then show ?thesis using cl i(1,2) by blast
          qed
        qed
        have "aug_post adj m slot js v2 t (augment_loop adj slot js v2 t)"
          using 2(3) l nv False s(1) r fb t2 aug_pre_continue [OF 2(4) v2(1) vv(1)] by (simp add: Let_def)
        then have "aug_post adj m slot (j # js) v t (augment_loop adj slot js v2 t)"
          by (rule aug_continue [OF 2(4) v2(1) vv cl'])
        then show ?thesis using l nv False s(1) r fb t2 by (simp add: Let_def)
      qed
    qed
  qed
qed

definition eligible_assignment :: "thirdSlotEntry list \<Rightarrow> GroupStanding list \<Rightarrow> (nat \<Rightarrow> nat) \<Rightarrow> bool" where
  "eligible_assignment slots teams f \<longleftrightarrow> inj_on f {..<length slots} \<and>
     (\<forall>i<length slots. f i < length teams \<and> gs_Group (teams ! f i) \<in> set (tse_eligibleGroups (slots ! i)))"

definition perfect_adj :: "nat list list \<Rightarrow> (nat \<Rightarrow> nat) \<Rightarrow> bool" where
  "perfect_adj adj f \<longleftrightarrow> inj_on f {..<length adj} \<and> (\<forall>i<length adj. f i \<in> set (adj ! i))"

lemma perfect_adj_eligible: "perfect_adj (buildBestThirdAdjacency slots teams) f \<longleftrightarrow> eligible_assignment slots teams f"
  by (auto simp: perfect_adj_def eligible_assignment_def buildBestThirdAdjacency_def)

lemma adj_ok_build: "adj_ok (buildBestThirdAdjacency slots teams) (length teams)"
  by (auto simp: adj_ok_def buildBestThirdAdjacency_def)

text \<open>A failed search leaves a set of teams that is too small for the slots it has to serve.\<close>
lemma failed_search_no_matching:
  assumes pre: "aug_pre adj m i (adj ! i) (replicate m False) t"
    and post: "aug_post adj m i (adj ! i) (replicate m False) t (False, v', t')"
  shows "\<not> perfect_adj adj f"
proof
  assume f: "perfect_adj adj f"
  define V where "V = {j. j < m \<and> v' ! j}"
  define S where "S = insert i ((\<lambda>j. nat (t ! j)) ` V)"
  have lt: "length t = m" "i < length adj" "adj_ok adj m" "i \<notin> snd ` pairs (replicate m False) t"
    "one_to_one (pairs (replicate m False) t)" and ok: "assigned_ok adj m t"
    using pre by (auto simp: aug_pre_def assigned_ok_def)
  have V: "t ! j \<noteq> - 1" "\<forall>j'\<in>set (adj ! nat (t ! j)). v' ! j'" if "j \<in> V" for j
    using post that by (auto simp: aug_post_def V_def)
  have slot: "\<exists>s<length adj. t ! j = int s" if "j \<in> V" for j
    using ok V(1) [OF that] that by (auto simp: assigned_ok_def V_def)
  have pair: "(j, nat (t ! j)) \<in> pairs (replicate m False) t" if "j \<in> V" for j
    using slot [OF that] that lt by (auto simp: pairs_def V_def)
  have fin: "finite V" by (simp add: V_def)
  have inj: "inj_on (\<lambda>j. nat (t ! j)) V"
  proof (rule inj_onI)
    fix x y assume "x \<in> V" "y \<in> V" "nat (t ! x) = nat (t ! y)"
    then show "x = y" using pair [of x] pair [of y] lt(5) unfolding one_to_one_def by metis
  qed
  have "i \<notin> (\<lambda>j. nat (t ! j)) ` V" using pair lt(4) by force
  then have "card S = Suc (card V)" using fin by (simp add: S_def card_image [OF inj])
  moreover have "S \<subseteq> {..<length adj}" using slot lt(2) by (force simp: S_def)
  moreover have "f ` S \<subseteq> V"
  proof
    fix j assume "j \<in> f ` S"
    then obtain s where s: "s \<in> S" "j = f s" by blast
    then have "s < length adj" using \<open>S \<subseteq> {..<length adj}\<close> by auto
    then have j: "j \<in> set (adj ! s)" using f s by (simp add: perfect_adj_def)
    then have "j < m" using lt(3) \<open>s < length adj\<close> by (auto simp: adj_ok_def)
    moreover have "v' ! j" using s(1) j V(2) post by (auto simp: S_def aug_post_def)
    ultimately show "j \<in> V" by (simp add: V_def)
  qed
  moreover have "inj_on f S"
    by (rule inj_on_subset [OF _ \<open>S \<subseteq> {..<length adj}\<close>]) (use f in \<open>simp add: perfect_adj_def\<close>)
  ultimately show False using card_inj_on_le [of f S V] fin by simp
qed

definition loop_inv :: "nat list list \<Rightarrow> nat \<Rightarrow> nat \<Rightarrow> int list \<Rightarrow> bool" where
  "loop_inv adj m i t \<longleftrightarrow> assigned_ok adj m t \<and> one_to_one (pairs (replicate m False) t) \<and>
     snd ` pairs (replicate m False) t = {0..<i}"

lemma match_loop_count: "snd (match_loop adj m is t k) \<le> k + length is"
proof (induction "is" arbitrary: t k)
  case (Cons i "is")
  let ?t = "snd (snd (augment adj i (replicate m False) t))"
  show ?case using Cons [of ?t k] Cons [of ?t "Suc k"] by (auto simp: Let_def)
qed simp

lemma match_loop_correct:
  assumes "adj_ok adj m" "loop_inv adj m i t" "i \<le> length adj"
  shows "if snd (match_loop adj m [i..<length adj] t i) = length adj
    then loop_inv adj m (length adj) (fst (match_loop adj m [i..<length adj] t i))
    else \<forall>f. \<not> perfect_adj adj f"
  using assms
proof (induction "length adj - i" arbitrary: i t)
  case (Suc d)
  then have i: "i < length adj" "[i..<length adj] = i # [Suc i..<length adj]" by (simp_all add: upt_conv_Cons)
  let ?v = "replicate m False"
  obtain b v' t' where r: "augment adj i ?v t = (b, v', t')" by (metis prod_cases3)
  have pre: "aug_pre adj m i (adj ! i) ?v t" using Suc(3,4) i by (simp add: aug_pre_def loop_inv_def)
  have post: "aug_post adj m i (adj ! i) ?v t (b, v', t')" using augment_loop_correct [OF pre] r by (simp add: augment_def)
  show ?case
  proof (cases b)
    case True
    then have "loop_inv adj m (Suc i) t'" using post Suc(4) by (auto simp: aug_post_def loop_inv_def)
    then show ?thesis using Suc(1) [of "Suc i" t'] Suc(2,3) i r True by simp
  next
    case False
    then have "\<forall>f. \<not> perfect_adj adj f" using failed_search_no_matching [OF pre, of v' t'] post by simp
    moreover have "snd (match_loop adj m [i..<length adj] t i) < length adj"
      using match_loop_count [of adj m "[Suc i..<length adj]" t' i] i r False by simp
    ultimately show ?thesis by simp
  qed
qed simp

lemma fold_put:
  "fold (\<lambda>j r. if P j then r(g j \<mapsto> h j) else r) js m0 = m0 ++ map_of (rev (map (\<lambda>j. (g j, h j)) (filter P js)))"
  by (induction js arbitrary: m0) (auto simp: map_add_def fun_eq_iff split: option.splits)

lemma map_of_rev_distinct:
  "distinct (map fst xs) \<Longrightarrow> (k, y) \<in> set xs \<Longrightarrow> map_of (rev xs) k = Some y"
  by (rule map_of_is_SomeI) (simp_all add: rev_map [symmetric])

lemma loop_inv_slot:
  assumes "loop_inv adj m n t" "s < n"
  shows "\<exists>j. j < m \<and> t ! j = int s \<and> j \<in> set (adj ! s)"
proof -
  have "s \<in> snd ` pairs (replicate m False) t" using assms by (simp add: loop_inv_def)
  then obtain j where "j < length t" "t ! j = int s" by (auto simp: pairs_def)
  then show ?thesis using assms(1) by (intro exI [of _ j]) (force simp: loop_inv_def assigned_ok_def)
qed

text \<open>The result map of a complete run: every slot has the team whose entry of the slice points to it.\<close>
definition assignment_of :: "thirdSlotEntry list \<Rightarrow> GroupStanding list \<Rightarrow> int list \<Rightarrow> int \<rightharpoonup> string" where
  "assignment_of slots teams t = fold (\<lambda>teamIdx result. let slotIdx = t ! teamIdx in
           if slotIdx \<ge> 0 \<and> teamIdx < length teams
             then result(tse_id (slots ! nat slotIdx) \<mapsto> gs_Team (teams ! teamIdx)) else result)
         [0..<length t] Map.empty"

lemma assignment_of_slots:
  assumes inv: "loop_inv adj (length teams) (length slots) t" and adj: "length adj = length slots"
    and ids: "distinct (map tse_id slots)"
  shows "dom (assignment_of slots teams t) = tse_id ` set slots"
    and "j < length teams \<Longrightarrow> t ! j = int s \<Longrightarrow> s < length slots \<Longrightarrow>
       assignment_of slots teams t (tse_id (slots ! s)) = Some (gs_Team (teams ! j))"
proof -
  let ?P = "\<lambda>j. 0 \<le> t ! j \<and> j < length teams" and ?g = "\<lambda>j. tse_id (slots ! nat (t ! j))"
  let ?xs = "map (\<lambda>j. (?g j, gs_Team (teams ! j))) (filter ?P [0..<length t])"
  have lt: "length t = length teams" and o: "one_to_one (pairs (replicate (length teams) False) t)"
    and ok: "assigned_ok adj (length teams) t" using inv by (simp_all add: loop_inv_def assigned_ok_def)
  have r: "assignment_of slots teams t = map_of (rev ?xs)"
    using fold_put [of ?P ?g "\<lambda>j. gs_Team (teams ! j)" "[0..<length t]" Map.empty]
    by (simp add: assignment_of_def Let_def)
  have slot: "nat (t ! j) < length slots" if "?P j" for j using ok adj that by (auto simp: assigned_ok_def)
  have inj: "j = j'" if "?P j" "?P j'" "?g j = ?g j'" for j j'
  proof -
    have "nat (t ! j) = nat (t ! j')" using that slot [of j] slot [of j'] ids
      nth_eq_iff_index_eq [OF ids, of "nat (t ! j)" "nat (t ! j')"] by simp
    then have "(j, nat (t ! j)) \<in> pairs (replicate (length teams) False) t"
      "(j', nat (t ! j)) \<in> pairs (replicate (length teams) False) t" using that lt by (auto simp: pairs_def)
    then show ?thesis using o unfolding one_to_one_def by blast
  qed
  have "distinct (map ?g (filter ?P [0..<length t]))"
    unfolding distinct_map by (intro conjI inj_onI) (use inj in \<open>simp_all\<close>)
  then have dist: "distinct (map fst ?xs)" by (simp add: comp_def)
  show "dom (assignment_of slots teams t) = tse_id ` set slots"
  proof -
    have "dom (assignment_of slots teams t) = ?g ` {j. j < length t \<and> ?P j}"
      unfolding r by (simp add: dom_map_of_conv_image_fst image_image comp_def)
    also have "\<dots> = tse_id ` set slots"
    proof (intro equalityI subsetI)
      fix x assume "x \<in> ?g ` {j. j < length t \<and> ?P j}"
      then show "x \<in> tse_id ` set slots" using slot by auto
    next
      fix x assume "x \<in> tse_id ` set slots"
      then obtain s where s: "s < length slots" "x = tse_id (slots ! s)" by (auto simp: in_set_conv_nth)
      then obtain j where "j < length teams" "t ! j = int s" using loop_inv_slot [OF inv s(1)] by blast
      then show "x \<in> ?g ` {j. j < length t \<and> ?P j}" using s lt by (intro image_eqI [of _ _ j]) auto
    qed
    finally show ?thesis .
  qed
  assume "j < length teams" "t ! j = int s" "s < length slots"
  then have "(tse_id (slots ! s), gs_Team (teams ! j)) \<in> set ?xs" using lt by force
  then show "assignment_of slots teams t (tse_id (slots ! s)) = Some (gs_Team (teams ! j))"
    unfolding r by (rule map_of_rev_distinct [OF dist])
qed

lemma matchBestThirdsToSlots_cases:
  assumes "slots \<noteq> []" "teams \<noteq> []"
  obtains t where "matchBestThirdsToSlots slots teams = Some (assignment_of slots teams t)"
      "loop_inv (buildBestThirdAdjacency slots teams) (length teams) (length slots) t"
    | "matchBestThirdsToSlots slots teams = None" "\<forall>f. \<not> eligible_assignment slots teams f"
proof -
  let ?adj = "buildBestThirdAdjacency slots teams"
  let ?r = "match_loop ?adj (length teams) [0..<length slots] (replicate (length teams) (- 1)) 0"
  have n: "length ?adj = length slots" by (simp add: buildBestThirdAdjacency_def)
  have "loop_inv ?adj (length teams) 0 (replicate (length teams) (- 1))"
    by (auto simp: loop_inv_def assigned_ok_def one_to_one_def pairs_def)
  then have c: "if snd ?r = length slots then loop_inv ?adj (length teams) (length slots) (fst ?r)
     else \<forall>f. \<not> eligible_assignment slots teams f"
    using match_loop_correct [OF adj_ok_build, of slots teams 0 "replicate (length teams) (- 1)"]
    unfolding n perfect_adj_eligible by blast
  have e: "matchBestThirdsToSlots slots teams =
     (if snd ?r \<noteq> length slots then None else Some (assignment_of slots teams (fst ?r)))"
    using assms by (simp add: matchBestThirdsToSlots_def assignment_of_def Let_def)
  show ?thesis
  proof (cases "snd ?r = length slots")
    case True
    then show ?thesis using c e by (intro that(1) [of "fst ?r"]) simp_all
  next
    case False
    then show ?thesis using c e by (intro that(2)) simp_all
  qed
qed

text \<open>
  C5: the matching of third-placed teams to slots is sound and complete. With at least one slot and one
  team and pairwise different slot ids, \<open>matchBestThirdsToSlots\<close> reports failure exactly when no assignment of
  different eligible teams to all slots exists, and otherwise returns such an assignment: every slot and
  nothing else is in the map, with a team of an eligible group, and no team is used twice.
\<close>
theorem matchBestThirdsToSlots_complete:
  assumes "slots \<noteq> []" "teams \<noteq> []" "distinct (map tse_id slots)"
  shows "case matchBestThirdsToSlots slots teams of
      None \<Rightarrow> \<nexists>f. eligible_assignment slots teams f
    | Some r \<Rightarrow> dom r = tse_id ` set slots \<and> (\<exists>f. eligible_assignment slots teams f \<and>
        (\<forall>i<length slots. r (tse_id (slots ! i)) = Some (gs_Team (teams ! f i))))"
proof (rule matchBestThirdsToSlots_cases [OF assms(1,2)])
  fix t assume t: "matchBestThirdsToSlots slots teams = Some (assignment_of slots teams t)"
    "loop_inv (buildBestThirdAdjacency slots teams) (length teams) (length slots) t"
  have n: "length (buildBestThirdAdjacency slots teams) = length slots" by (simp add: buildBestThirdAdjacency_def)
  have "\<forall>s. \<exists>j. s < length slots \<longrightarrow> j < length teams \<and> t ! j = int s \<and> j \<in> set (buildBestThirdAdjacency slots teams ! s)"
    using loop_inv_slot [OF t(2)] by blast
  then obtain f where f: "\<forall>s. s < length slots \<longrightarrow> f s < length teams \<and> t ! f s = int s \<and>
      f s \<in> set (buildBestThirdAdjacency slots teams ! s)" by (rule choice [THEN exE])
  have "inj_on f {..<length slots}"
  proof (rule inj_onI)
    fix x y assume "x \<in> {..<length slots}" "y \<in> {..<length slots}" "f x = f y"
    then have "int x = int y" using f by (metis lessThan_iff)
    then show "x = y" by simp
  qed
  then have e: "eligible_assignment slots teams f" unfolding perfect_adj_eligible [symmetric] using f n by (simp add: perfect_adj_def)
  show ?thesis unfolding t(1) option.case
    by (intro conjI exI [of _ f] e allI impI assignment_of_slots [OF t(2) n assms(3)]) (use f in auto)
next
  assume "matchBestThirdsToSlots slots teams = None" "\<forall>f. \<not> eligible_assignment slots teams f"
  then show ?thesis by simp
qed

definition example_third :: "string \<Rightarrow> string \<Rightarrow> GroupStanding" where
  "example_third g t = (new_standing (g, t))"

definition example_third_slots :: "thirdSlotEntry list" where
  "example_third_slots =
    [\<lparr>tse_id = 7, tse_label = ''A'', tse_eligibleGroups = [''G'', ''H'']\<rparr>,
     \<lparr>tse_id = 9, tse_label = ''B'', tse_eligibleGroups = [''G'']\<rparr>]"

theorem matchBestThirdsToSlots_complete_witness:
  "(\<exists>r. matchBestThirdsToSlots example_third_slots [example_third ''G'' ''X'', example_third ''H'' ''Y''] = Some r \<and>
     dom r = {7, 9}) \<and>
   matchBestThirdsToSlots example_third_slots [example_third ''G'' ''X'', example_third ''K'' ''Y''] = None"
proof
  let ?ts = "[example_third ''G'' ''X'', example_third ''H'' ''Y'']"
  have "matchBestThirdsToSlots example_third_slots ?ts \<noteq> None" by code_simp
  then obtain r where r: "matchBestThirdsToSlots example_third_slots ?ts = Some r" by blast
  have "example_third_slots \<noteq> []" "?ts \<noteq> []" "distinct (map tse_id example_third_slots)"
    by (simp_all add: example_third_slots_def)
  from matchBestThirdsToSlots_complete [OF this] r
  have "dom r = tse_id ` set example_third_slots" by simp
  then show "\<exists>r. matchBestThirdsToSlots example_third_slots ?ts = Some r \<and> dom r = {7, 9}"
    using r by (simp add: example_third_slots_def)
next
  show "matchBestThirdsToSlots example_third_slots [example_third ''G'' ''X'', example_third ''K'' ''Y''] = None"
    by code_simp
qed

section \<open>Slot descriptions\<close>

fun join_slash :: "string list \<Rightarrow> string" where
  "join_slash [] = []"
| "join_slash [g] = g"
| "join_slash (g # gs) = g @ CHR 0x2F # join_slash gs"

definition group_name :: "string \<Rightarrow> bool" where
  "group_name g \<longleftrightarrow> g \<noteq> [] \<and> CHR 0x2F \<notin> set g \<and> CHR 0x29 \<notin> set g \<and> \<not> ascii_space (hd g) \<and> \<not> ascii_space (last g)"

lemma Split_single: "c \<notin> set g \<Longrightarrow> Split c g = [g]"
  by (induction g) auto

lemma Split_append: "c \<notin> set g \<Longrightarrow> Split c (g @ c # s) = g # Split c s"
  by (induction g) auto

lemma Split_join_slash:
  "gs \<noteq> [] \<Longrightarrow> \<forall>g\<in>set gs. CHR 0x2F \<notin> set g \<Longrightarrow> Split (CHR 0x2F) (join_slash gs) = gs"
  by (induction gs rule: join_slash.induct) (simp_all add: Split_single Split_append)

lemma TrimSpace_id: "g \<noteq> [] \<Longrightarrow> \<not> ascii_space (hd g) \<Longrightarrow> \<not> ascii_space (last g) \<Longrightarrow> TrimSpace g = g"
proof -
  assume g: "g \<noteq> []" "\<not> ascii_space (hd g)" "\<not> ascii_space (last g)"
  have "dropWhile ascii_space g = g" using g(1,2) by (cases g) simp_all
  moreover have "dropWhile ascii_space (rev g) = rev g" using g(1,3) by (cases g rule: rev_cases) simp_all
  ultimately show ?thesis by (simp add: TrimSpace_def)
qed

lemma Index_append: "c \<notin> set p \<Longrightarrow> Index c (p @ c # s) = Some (length p)"
  by (induction p) auto

lemma LastIndex_snoc: "LastIndex c (s @ [c]) = Some (length s)"
  by (simp add: LastIndex_def)

text \<open>
  A slot description of the form the seed data uses, the marker followed by the eligible groups in
  parentheses and separated by slashes, is read back as exactly those groups.
\<close>
theorem parseBestThirdEligibleGroups_round_trip:
  assumes "gs \<noteq> []" "\<forall>g\<in>set gs. group_name g"
  shows "parseBestThirdEligibleGroups (best_third_prefix @ '' ('' @ join_slash gs @ '')'') = gs"
proof -
  let ?p = "best_third_prefix @ '' ''" and ?j = "join_slash gs"
  let ?d = "?p @ CHR 0x28 # ?j @ [CHR 0x29]"
  have o: "Index (CHR 0x28) ?d = Some (length ?p)" by (rule Index_append) (simp add: best_third_prefix_def)
  have c: "LastIndex (CHR 0x29) ?d = Some (length ?p + 1 + length ?j)"
    using LastIndex_snoc [of "CHR 0x29" "?p @ CHR 0x28 # ?j"] by simp
  have inner: "take (length ?p + 1 + length ?j - (length ?p + 1)) (drop (length ?p + 1) ?d) = ?j" by simp
  have gs: "Split (CHR 0x2F) ?j = gs" "map TrimSpace gs = gs" "filter (\<lambda>p. p \<noteq> []) gs = gs"
    using assms by (auto simp: Split_join_slash group_name_def TrimSpace_id map_idI filter_id_conv)
  have "parseBestThirdEligibleGroups ?d = gs"
    unfolding parseBestThirdEligibleGroups_def o c prod.case option.case inner by (simp add: gs)
  then show ?thesis by simp
qed

theorem parseBestThirdEligibleGroups_round_trip_witness:
  "parseBestThirdEligibleGroups (best_third_prefix @ '' ('' @ join_slash [''A'', ''B'', ''F''] @ '')'') = [''A'', ''B'', ''F'']"
  by (rule parseBestThirdEligibleGroups_round_trip) (simp_all add: group_name_def ascii_space_def)

end
