(* ===== verification/Fixtures.thy ===== *)
theory Fixtures
  imports Scoring
begin

text \<open>
  The life of a match (\<^verbatim>\<open>service/match_service.go\<close>, \<^verbatim>\<open>repository/match_repository.go\<close>): creation, start,
  confirmation and correction of the result, cancellation, the link to bracket slots. Publishing an
  event is a statement that may fail; the published event is part of the result of the operation, so
  that the worker's handler can be composed with it. Audit entries and log lines are left out.
  The statements carry the constraints of the \<^verbatim>\<open>matches\<close> table: foreign keys to slots, the unique index
  on teams and kick-off, and the checks on labels and result columns.
\<close>

section \<open>Data\<close>

record ScoreUpdate =
  su_HomeScore :: int
  su_AwayScore :: int
  su_WinMethod :: "WinMethod option"
  su_PenaltyWinner :: "string option"
  su_PenaltyHomeScore :: "int option"
  su_PenaltyAwayScore :: "int option"
  su_HalftimeHomeScore :: "int option"
  su_HalftimeAwayScore :: "int option"
  su_FirstScoringTeam :: "string option"

record MatchFinished =
  mf_MatchID :: int
  mf_HomeTeam :: string
  mf_AwayTeam :: string
  mf_HomeScore :: int
  mf_AwayScore :: int
  mf_WinMethod :: string
  mf_Phase :: string
  mf_GroupLabel :: string
  mf_MatchCode :: string
  mf_PenaltyWinner :: string

section \<open>Constraints of the table\<close>

definition teams_kickoff_unique :: "Match list \<Rightarrow> bool" where
  "teams_kickoff_unique rows = distinct (map (\<lambda>m. (m_HomeTeam m, m_AwayTeam m, m_KickoffAt m)) rows)"

definition opt_in :: "'a option \<Rightarrow> 'a list \<Rightarrow> bool" where
  "opt_in x xs = (case x of None \<Rightarrow> True | Some y \<Rightarrow> y \<in> set xs)"

definition match_checks :: "Match \<Rightarrow> bool" where
  "match_checks m \<longleftrightarrow> m_Phase m \<in> set validPhases \<and>
     (case m_GroupLabel m of None \<Rightarrow> m_Phase m \<noteq> PhaseGroupStage
      | Some g \<Rightarrow> m_Phase m = PhaseGroupStage \<and> g \<in> set validGroupLabels) \<and>
     opt_in (m_WinMethod m) [WinMethodNormal, WinMethodExtraTime, WinMethodPenalties] \<and>
     opt_in (m_PenaltyWinner m) [''home'', ''away''] \<and> opt_in (m_FirstScoringTeam m) [''home'', ''away'', ''none'']"

definition slot_exists :: "db \<Rightarrow> int option \<Rightarrow> bool" where
  "slot_exists s i = (case i of None \<Rightarrow> True | Some k \<Rightarrow> k \<in> set (map ts_ID (db_slots s)))"

text \<open>Storing new contents of the table: the row checks first, then the unique index.\<close>
definition store_matches :: "Match list \<Rightarrow> 'a \<Rightarrow> db \<Rightarrow> go_error + 'a \<times> db" where
  "store_matches rows a s =
    (if \<not> list_all match_checks rows then Inl (PgError ''23514'')
     else if \<not> teams_kickoff_unique rows then Inl (PgError ''23505'')
     else Inr (a, s\<lparr>db_matches := rows\<rparr>))"

text \<open>A unique violation becomes a conflict, every other failure is internal.\<close>
definition conflict_if_unique :: "string \<Rightarrow> go_error \<Rightarrow> app_error" where
  "conflict_if_unique msg e = (if e = PgError ''23505'' then Conflict msg else Internal e)"

section \<open>Repository\<close>

text \<open>The columns the \<^verbatim>\<open>INSERT\<close> does not name are null.\<close>
definition inserted_row :: "int \<Rightarrow> Match \<Rightarrow> Match" where
  "inserted_row i m = m\<lparr>m_ID := i, m_HomeScore := None, m_AwayScore := None, m_PenaltyWinner := None, m_Period := None,
     m_PenaltyHomeScore := None, m_PenaltyAwayScore := None, m_MatchCode := None,
     m_HalftimeHomeScore := None, m_HalftimeAwayScore := None, m_FirstScoringTeam := None,
     m_ExternalProvider := None, m_ExternalMatchID := None, m_LastSyncedAt := None\<rparr>"

definition match_insert :: "Match \<Rightarrow> db \<Rightarrow> go_error + Match \<times> db" where
  "match_insert m s =
    (let row = inserted_row (db_seq s) m in
     if \<not> slot_exists s (m_HomeSlotID m) \<or> \<not> slot_exists s (m_AwaySlotID m) then Inl (PgError ''23503'')
     else store_matches (db_matches s @ [row]) row (s\<lparr>db_seq := db_seq s + 1\<rparr>))"

text \<open>\<^verbatim>\<open>UPDATE tournament_slots SET team, confirmed_at\<close>; the column check refuses an empty team.\<close>
definition slot_set_team :: "int \<Rightarrow> string \<Rightarrow> db \<Rightarrow> go_error + unit \<times> db" where
  "slot_set_team i team s =
    (let rows = update_where (\<lambda>t. ts_ID t = i) (\<lambda>t. t\<lparr>ts_Team := Some team, ts_ConfirmedAt := Some (db_now s)\<rparr>) (db_slots s) in
     if team = [] \<and> i \<in> set (map ts_ID (db_slots s)) then Inl (PgError ''23514'')
     else Inr ((), s\<lparr>db_slots := rows\<rparr>))"

definition fill_slot :: "int option \<Rightarrow> string \<Rightarrow> unit dbprog" where
  "fill_slot slotID team = (case slotID of
     None \<Rightarrow> tx_ret ()
   | Some i \<Rightarrow> if team = [] then tx_ret () else tx_exec (slot_set_team i team))"

definition MatchCreate :: "Match \<Rightarrow> Match dbprog" where
  "MatchCreate m = withTx (
     tx_bind (tx_stmt (conflict_if_unique ''a match between these teams at this kickoff time already exists'') (match_insert m)) (\<lambda>result.
     tx_bind (fill_slot (m_HomeSlotID m) (m_HomeTeam m)) (\<lambda>_.
     tx_bind (fill_slot (m_AwaySlotID m) (m_AwayTeam m)) (\<lambda>_.
     tx_ret result))))"

definition match_set :: "Match \<Rightarrow> Match \<Rightarrow> Match" where
  "match_set m r = r\<lparr>m_HomeTeam := m_HomeTeam m, m_AwayTeam := m_AwayTeam m, m_HomeScore := m_HomeScore m,
     m_AwayScore := m_AwayScore m, m_Status := m_Status m, m_Phase := m_Phase m, m_GroupLabel := m_GroupLabel m,
     m_WinMethod := m_WinMethod m, m_PenaltyWinner := m_PenaltyWinner m, m_Period := m_Period m,
     m_PenaltyHomeScore := m_PenaltyHomeScore m, m_PenaltyAwayScore := m_PenaltyAwayScore m,
     m_KickoffAt := m_KickoffAt m, m_HalftimeHomeScore := m_HalftimeHomeScore m,
     m_HalftimeAwayScore := m_HalftimeAwayScore m, m_FirstScoringTeam := m_FirstScoringTeam m\<rparr>"

text \<open>\<^verbatim>\<open>UPDATE ... WHERE id = $n RETURNING\<close>: no row, or the row as written.\<close>
definition update_match_row :: "int \<Rightarrow> (Match \<Rightarrow> Match) \<Rightarrow> db \<Rightarrow> go_error + Match option \<times> db" where
  "update_match_row i f s = (case get_match s i of
     None \<Rightarrow> Inr (None, s)
   | Some r \<Rightarrow> store_matches (update_where (\<lambda>r. m_ID r = i) f (db_matches s)) (Some (f r)) s)"

definition found_match :: "Match option dbprog \<Rightarrow> Match dbprog" where
  "found_match p = tx_bind p (\<lambda>r. case r of None \<Rightarrow> tx_err (NotFound ''match not found'') | Some m \<Rightarrow> tx_ret m)"

definition MatchUpdate :: "Match \<Rightarrow> Match dbprog" where
  "MatchUpdate m = found_match (tx_exec (update_match_row (m_ID m) (match_set m)))"

text \<open>The team a slot already has, for \<^verbatim>\<open>COALESCE((SELECT team ...), ...)\<close>.\<close>
definition slot_team :: "db \<Rightarrow> int option \<Rightarrow> string option" where
  "slot_team s i = (case i of None \<Rightarrow> None | Some k \<Rightarrow> Option.bind (find (\<lambda>t. ts_ID t = k) (db_slots s)) ts_Team)"

definition match_link_slots :: "int \<Rightarrow> int option \<Rightarrow> int option \<Rightarrow> db \<Rightarrow> go_error + Match option \<times> db" where
  "match_link_slots matchID homeSlotID awaySlotID s =
    (if get_match s matchID \<noteq> None \<and> (\<not> slot_exists s homeSlotID \<or> \<not> slot_exists s awaySlotID) then Inl (PgError ''23503'')
     else update_match_row matchID (\<lambda>r. r\<lparr>m_HomeSlotID := homeSlotID, m_AwaySlotID := awaySlotID,
       m_HomeTeam := (case slot_team s homeSlotID of Some t \<Rightarrow> t | None \<Rightarrow> m_HomeTeam r),
       m_AwayTeam := (case slot_team s awaySlotID of Some t \<Rightarrow> t | None \<Rightarrow> m_AwayTeam r)\<rparr>) s)"

definition UpdateSlots :: "int \<Rightarrow> int option \<Rightarrow> int option \<Rightarrow> Match dbprog" where
  "UpdateSlots matchID homeSlotID awaySlotID = found_match (tx_exec (match_link_slots matchID homeSlotID awaySlotID))"

definition UpdateKickoff :: "int \<Rightarrow> time \<Rightarrow> unit dbprog" where
  "UpdateKickoff matchID kickoffAt =
     tx_bind (tx_exec (update_match_row matchID (\<lambda>r. r\<lparr>m_KickoffAt := kickoffAt\<rparr>))) (\<lambda>_. tx_ret ())"

definition UpdateLiveProgress :: "int \<Rightarrow> string option \<Rightarrow> int option \<Rightarrow> int option \<Rightarrow> unit dbprog" where
  "UpdateLiveProgress matchID period penaltyHome penaltyAway =
     tx_bind (tx_exec (update_match_row matchID (\<lambda>r. r\<lparr>m_Period := period, m_PenaltyHomeScore := penaltyHome,
       m_PenaltyAwayScore := penaltyAway\<rparr>))) (\<lambda>_. tx_ret ())"

section \<open>Service\<close>

definition CreateMatch :: "Match \<Rightarrow> Match dbprog" where
  "CreateMatch m = tx_bind (tx_lift (ValidateMatch m)) (\<lambda>_. MatchCreate (m\<lparr>m_Status := MatchStatusScheduled\<rparr>))"

definition GetMatch :: "int \<Rightarrow> Match dbprog" where
  "GetMatch i = tx_bind (tx_query (\<lambda>s. get_match s i)) (\<lambda>r. case r of
     None \<Rightarrow> tx_err (NotFound (''match '' @ Itoa i @ '' not found''))
   | Some m \<Rightarrow> tx_ret m)"

text \<open>Publishing on the event bus: the state of the database is untouched.\<close>
definition Publish :: "unit dbprog" where
  "Publish = tx_stmt Raw (\<lambda>s. Inr ((), s))"

definition StartMatch :: "int \<Rightarrow> Match dbprog" where
  "StartMatch i = tx_bind (GetMatch i) (\<lambda>m.
     if m_Status m \<noteq> MatchStatusScheduled then tx_err (Validation ''match can only be started from scheduled status'')
     else tx_bind (MatchUpdate (m\<lparr>m_Status := MatchStatusLive\<rparr>)) (\<lambda>m'.
       tx_try Publish (\<lambda>_. tx_ret m') (\<lambda>_. tx_ret m')))"

definition derefString :: "string option \<Rightarrow> string" where
  "derefString s = (case s of None \<Rightarrow> [] | Some t \<Rightarrow> t)"

definition set_result :: "ScoreUpdate \<Rightarrow> Match \<Rightarrow> Match" where
  "set_result score m = m\<lparr>m_HomeScore := Some (su_HomeScore score), m_AwayScore := Some (su_AwayScore score),
     m_WinMethod := su_WinMethod score, m_PenaltyWinner := su_PenaltyWinner score,
     m_PenaltyHomeScore := su_PenaltyHomeScore score, m_PenaltyAwayScore := su_PenaltyAwayScore score,
     m_HalftimeHomeScore := su_HalftimeHomeScore score, m_HalftimeAwayScore := su_HalftimeAwayScore score,
     m_FirstScoringTeam := su_FirstScoringTeam score, m_Period := None, m_Status := MatchStatusFinished\<rparr>"

definition finished_event :: "ScoreUpdate \<Rightarrow> Match \<Rightarrow> MatchFinished" where
  "finished_event score m = \<lparr>mf_MatchID = m_ID m, mf_HomeTeam = m_HomeTeam m, mf_AwayTeam = m_AwayTeam m,
     mf_HomeScore = su_HomeScore score, mf_AwayScore = su_AwayScore score, mf_WinMethod = derefString (su_WinMethod score),
     mf_Phase = m_Phase m, mf_GroupLabel = derefString (m_GroupLabel m), mf_MatchCode = derefString (m_MatchCode m),
     mf_PenaltyWinner = derefString (su_PenaltyWinner score)\<rparr>"

definition penalty_winner_missing :: "ScoreUpdate \<Rightarrow> bool" where
  "penalty_winner_missing score \<longleftrightarrow> su_WinMethod score = Some WinMethodPenalties \<and>
     (case su_PenaltyWinner score of None \<Rightarrow> True | Some w \<Rightarrow> w \<noteq> ''home'' \<and> w \<noteq> ''away'')"

text \<open>
  The result is the stored match with the event, if publishing succeeded. When it fails the scorers run
  synchronously and their errors are logged only.
\<close>
definition applyScoreAndPublish :: "nat \<Rightarrow> Match \<Rightarrow> ScoreUpdate \<Rightarrow> (Match \<times> MatchFinished option) dbprog" where
  "applyScoreAndPublish maxAttempts m score =
    (if penalty_winner_missing score
       then tx_err (Validation ''penalty_winner must be \"home\" or \"away\" when win_method is \"penalties\"'')
     else tx_bind (MatchUpdate (set_result score m)) (\<lambda>m'.
       tx_try Publish
         (\<lambda>_. tx_bind (tx_ignore (ScoreMatch maxAttempts (m_ID m'))) (\<lambda>_.
            tx_bind (tx_ignore (ScoreExtras maxAttempts (m_ID m'))) (\<lambda>_. tx_ret (m', None))))
         (\<lambda>_. tx_ret (m', Some (finished_event score m')))))"

definition UpdateResult :: "nat \<Rightarrow> int \<Rightarrow> ScoreUpdate \<Rightarrow> (Match \<times> MatchFinished option) dbprog" where
  "UpdateResult maxAttempts i score =
     tx_bind (tx_lift (ValidateMatchResult (Some (su_HomeScore score)) (Some (su_AwayScore score)))) (\<lambda>_.
     tx_bind (GetMatch i) (\<lambda>m.
       if m_Status m \<noteq> MatchStatusLive
         then tx_err (Validation ''match result can only be confirmed while the match is live'')
       else applyScoreAndPublish maxAttempts m score))"

definition CorrectResult :: "nat \<Rightarrow> int \<Rightarrow> ScoreUpdate \<Rightarrow> (Match \<times> MatchFinished option) dbprog" where
  "CorrectResult maxAttempts i score =
     tx_bind (tx_lift (ValidateMatchResult (Some (su_HomeScore score)) (Some (su_AwayScore score)))) (\<lambda>_.
     tx_bind (GetMatch i) (\<lambda>m.
       if m_Status m \<noteq> MatchStatusFinished \<and> m_Status m \<noteq> MatchStatusLive
         then tx_err (Validation ''result can only be corrected on a live or finished match'')
       else applyScoreAndPublish maxAttempts m score))"

definition CancelMatch :: "int \<Rightarrow> Match dbprog" where
  "CancelMatch i = tx_bind (GetMatch i) (\<lambda>m.
     if m_Status m = MatchStatusFinished \<or> m_Status m = MatchStatusCancelled
       then tx_err (Validation ''only scheduled or live matches can be cancelled'')
     else MatchUpdate (m\<lparr>m_Status := MatchStatusCancelled\<rparr>))"

section \<open>The state machine\<close>

text \<open>The transitions of a match that the service promises.\<close>
inductive match_step :: "MatchStatus \<Rightarrow> MatchStatus \<Rightarrow> bool" where
  stay: "match_step st st"
| start: "match_step MatchStatusScheduled MatchStatusLive"
| finish: "match_step MatchStatusLive MatchStatusFinished"
| cancel: "st \<noteq> MatchStatusFinished \<Longrightarrow> match_step st MatchStatusCancelled"

inductive_simps match_step_iff: "match_step st st'"

lemma match_step_terminal:
  "match_step\<^sup>*\<^sup>* st st' \<Longrightarrow> st = MatchStatusFinished \<or> st = MatchStatusCancelled \<Longrightarrow> st' = st"
  by (induction rule: rtranclp_induct) (auto simp: match_step_iff)

datatype match_op =
    OpCreate Match | OpStart int | OpResult int ScoreUpdate | OpCorrect int ScoreUpdate | OpCancel int
  | OpSlots int "int option" "int option" | OpKickoff int time | OpLive int "string option" "int option" "int option"

definition run_match_op :: "nat \<Rightarrow> match_op \<Rightarrow> unit dbprog" where
  "run_match_op n oper = (case oper of
     OpCreate m \<Rightarrow> tx_bind (CreateMatch m) (\<lambda>_. tx_ret ())
   | OpStart i \<Rightarrow> tx_bind (StartMatch i) (\<lambda>_. tx_ret ())
   | OpResult i sc \<Rightarrow> tx_bind (UpdateResult n i sc) (\<lambda>_. tx_ret ())
   | OpCorrect i sc \<Rightarrow> tx_bind (CorrectResult n i sc) (\<lambda>_. tx_ret ())
   | OpCancel i \<Rightarrow> tx_bind (CancelMatch i) (\<lambda>_. tx_ret ())
   | OpSlots i h a \<Rightarrow> tx_bind (UpdateSlots i h a) (\<lambda>_. tx_ret ())
   | OpKickoff i t \<Rightarrow> UpdateKickoff i t
   | OpLive i p h a \<Rightarrow> UpdateLiveProgress i p h a)"

text \<open>
  Rows of the table: a finished match has a result, with a penalty winner whenever penalties decided, and a
  scheduled one has none. The synchronisation writes the current score of a live match.
\<close>
definition match_wf :: "Match \<Rightarrow> bool" where
  "match_wf m \<longleftrightarrow> (if m_Status m = MatchStatusFinished
     then (\<exists>h a. m_HomeScore m = Some h \<and> m_AwayScore m = Some a \<and> 0 \<le> h \<and> 0 \<le> a) \<and>
       (m_WinMethod m = Some WinMethodPenalties \<longrightarrow> m_PenaltyWinner m = Some ''home'' \<or> m_PenaltyWinner m = Some ''away'')
     else m_Status m = MatchStatusScheduled \<longrightarrow> m_HomeScore m = None \<and> m_AwayScore m = None)"

definition matches_wf :: "db \<Rightarrow> bool" where
  "matches_wf s \<longleftrightarrow> distinct (map m_ID (db_matches s)) \<and> (\<forall>m\<in>set (db_matches s). m_ID m < db_seq s \<and> match_wf m)"

definition match_result :: "Match \<Rightarrow> int option \<times> int option \<times> WinMethod option \<times> string option" where
  "match_result m = (m_HomeScore m, m_AwayScore m, m_WinMethod m, m_PenaltyWinner m)"

definition corrects :: "match_op \<Rightarrow> int \<Rightarrow> bool" where
  "corrects oper i \<longleftrightarrow> (\<exists>sc. oper = OpCorrect i sc)"

text \<open>What one operation may do to one row: a transition of the state machine, and no change of a final result except by a correction.\<close>
definition row_step :: "match_op \<Rightarrow> Match \<Rightarrow> Match \<Rightarrow> bool" where
  "row_step oper m m' \<longleftrightarrow> match_step (m_Status m) (m_Status m') \<and>
     (m_Status m = MatchStatusFinished \<longrightarrow> \<not> corrects oper (m_ID m) \<longrightarrow> match_result m' = match_result m)"

definition table_step :: "match_op \<Rightarrow> db \<Rightarrow> db \<Rightarrow> bool" where
  "table_step oper s s' \<longleftrightarrow> matches_wf s' \<and>
     (\<forall>i m. get_match s i = Some m \<longrightarrow> (\<exists>m'. get_match s' i = Some m' \<and> row_step oper m m'))"

lemma row_step_refl: "row_step oper m m"
  by (simp add: row_step_def match_step.stay)

lemma table_step_refl: "matches_wf s \<Longrightarrow> table_step oper s s"
  by (auto simp: table_step_def row_step_refl)

lemma get_match_SomeD: "get_match s i = Some m \<Longrightarrow> m \<in> set (db_matches s) \<and> m_ID m = i"
  by (auto simp: get_match_def find_Some_iff)

lemma find_update_where:
  assumes "\<And>r. key (f r) = key r"
  shows "find (\<lambda>r. key r = j) (update_where (\<lambda>r. key r = i) f rows) =
    (if j = i then map_option f (find (\<lambda>r. key r = i) rows) else find (\<lambda>r. key r = j) rows)"
  using assms by (induction rows) auto

text \<open>Writing one row: the table step follows from the step of the row.\<close>
lemma update_match_row_step:
  assumes wf: "matches_wf s" and ids: "\<And>r. m_ID (f r) = m_ID r"
    and row: "\<And>r. get_match s i = Some r \<Longrightarrow> match_wf (f r) \<and> row_step oper r (f r)"
    and upd: "update_match_row i f s = Inr (a, s')"
  shows "table_step oper s s'" and "\<And>r. a = Some r \<Longrightarrow> get_match s' i = Some r"
proof -
  have "table_step oper s s' \<and> (\<forall>r. a = Some r \<longrightarrow> get_match s' i = Some r)"
  proof (cases "get_match s i")
    case None
    then show ?thesis using upd wf by (auto simp: update_match_row_def table_step_refl)
  next
    case (Some r)
    then have s': "s' = s\<lparr>db_matches := update_where (\<lambda>r. m_ID r = i) f (db_matches s)\<rparr>" and a: "a = Some (f r)"
      using upd by (auto simp: update_match_row_def store_matches_def split: if_splits)
    have get: "get_match s' j = (if j = i then map_option f (get_match s i) else get_match s j)" for j
      unfolding get_match_def s' by (simp add: find_update_where ids)
    have "distinct (map m_ID (db_matches s'))" using wf by (simp add: s' matches_wf_def map_update_where ids)
    moreover have "m_ID m < db_seq s' \<and> match_wf m" if "m \<in> set (db_matches s')" for m
    proof -
      from that consider q where "q \<in> set (db_matches s)" "m_ID q = i" "m = f q" | "m \<in> set (db_matches s)"
        unfolding s' by (auto simp: set_update_where)
      then show ?thesis
      proof cases
        case 1
        then have "get_match s i = Some q"
          using wf Some get_match_SomeD [OF Some] unfolding matches_wf_def by (metis distinct_map inj_on_eq_iff)
        then show ?thesis using 1 row wf ids by (auto simp: matches_wf_def s')
      next
        case 2
        then show ?thesis using wf by (simp add: matches_wf_def s')
      qed
    qed
    ultimately show ?thesis using row Some a by (auto simp: table_step_def matches_wf_def get row_step_refl)
  qed
  then show "table_step oper s s'" "\<And>r. a = Some r \<Longrightarrow> get_match s' i = Some r" by blast+
qed

text \<open>Scoring leaves every part of the database but the predictions, the extras and the score log alone.\<close>
lemma ScoreMatch_keeps [tx_keep]:
  assumes "\<And>s f. g (db_predictions_update f s) = g s" "\<And>s f. g (db_score_log_update f s) = g s"
  shows "tx_keeps (\<lambda>s. g s = x) (ScoreMatch n i)"
proof -
  have chunk: "tx_keeps (\<lambda>s. g s = x) (applyChunkedPointsUpdate update_prediction_points pts k)" for pts k
    unfolding applyChunkedPointsUpdate_def
    by (intro tx_keep) (auto simp: update_prediction_points_def assms split: if_splits)
  have cfg: "tx_keeps (\<lambda>s. g s = x) (resolveConfig i ph)" for ph
    unfolding resolveConfig_def configForPhase_def GetScoringCfgSnapshot_def by (intro tx_keep)
  have log: "tx_keeps (\<lambda>s. g s = x) (writeScoringLog ps pts m h a c)" for ps pts m h a c
    unfolding writeScoringLog_def InsertScoringBatch_def by (intro tx_keep; auto simp: assms split: if_splits)
  have fin: "tx_keeps (\<lambda>s. g s = x) (score_finished n i m h a)" for m h a
    unfolding score_finished_def ScoreMatchBatch_def Let_def by (intro tx_keep chunk cfg log)
  show ?thesis unfolding ScoreMatch_def loadFinishedMatch_def prod.case by (intro tx_keep fin)
qed

lemma ScoreExtras_keeps [tx_keep]:
  assumes "\<And>s f. g (db_extra_predictions_update f s) = g s"
  shows "tx_keeps (\<lambda>s. g s = x) (ScoreExtras n i)"
proof -
  have chunk: "tx_keeps (\<lambda>s. g s = x) (applyChunkedPointsUpdate update_extra_points pts k)" for pts k
    unfolding applyChunkedPointsUpdate_def
    by (intro tx_keep) (auto simp: update_extra_points_def assms split: if_splits)
  have pts: "tx_keeps (\<lambda>s. g s = x) (extra_points ets)" for ets
    by (induction ets) (auto simp: pointsForType_def intro!: tx_keep)
  show ?thesis
    unfolding ScoreExtras_def loadFinishedMatch_def ExtraScoreMatchBatch_def Let_def by (intro tx_keep pts chunk)
qed

lemma table_step_frame:
  "db_matches s' = db_matches s \<Longrightarrow> db_seq s' = db_seq s \<Longrightarrow> table_step oper s0 s \<Longrightarrow> table_step oper s0 s'"
  by (simp add: table_step_def matches_wf_def get_match_def)

lemma scoring_keeps_table:
  "tx_keeps (table_step oper s0) (ScoreMatch n i)" "tx_keeps (table_step oper s0) (ScoreExtras n i)"
  by (rule tx_keeps_frame [where g = "\<lambda>s. (db_matches s, db_seq s)"]; simp add: ScoreMatch_keeps ScoreExtras_keeps table_step_frame)+

lemma GetMatch_valid:
  "tx_valid (\<lambda>s. s = s0) (GetMatch i) (\<lambda>m s. s = s0 \<and> get_match s0 i = Some m) (\<lambda>_ s. s = s0)"
  unfolding GetMatch_def by (rule tx_valid_bind [where R = "\<lambda>r s. s = s0 \<and> r = get_match s0 i"]) (auto intro!: tx_rules)

text \<open>Writing back a match that was read before: the row takes the new values.\<close>
lemma match_set_read:
  "match_set m r = m\<lparr>m_ID := m_ID r, m_HomeSlotID := m_HomeSlotID r, m_AwaySlotID := m_AwaySlotID r, m_MatchCode := m_MatchCode r,
     m_ExternalProvider := m_ExternalProvider r, m_ExternalMatchID := m_ExternalMatchID r, m_LastSyncedAt := m_LastSyncedAt r\<rparr>"
  by (simp add: match_set_def)

lemma MatchUpdate_valid:
  assumes wf: "matches_wf s0" and r: "get_match s0 (m_ID m) = Some r"
    and new: "match_wf (match_set m r)" "row_step oper r (match_set m r)"
  shows "tx_valid (\<lambda>s. s = s0) (MatchUpdate m) (\<lambda>m' s. table_step oper s0 s \<and> get_match s (m_ID m) = Some m')
    (\<lambda>_. table_step oper s0)"
proof -
  have "table_step oper s0 s" "a = Some q \<Longrightarrow> get_match s (m_ID m) = Some q"
    if "update_match_row (m_ID m) (match_set m) s0 = Inr (a, s)" for a s q
    using update_match_row_step [OF wf _ _ that, of oper] r new by (auto simp: match_set_def)
  then show ?thesis
    unfolding MatchUpdate_def found_match_def
    by (intro tx_valid_bind [where R = "\<lambda>a s. table_step oper s0 s \<and> (\<forall>q. a = Some q \<longrightarrow> get_match s (m_ID m) = Some q)"])
      (auto intro!: tx_rules simp: wf table_step_refl)
qed

lemma Publish_keeps [tx_keep]: "tx_keeps I Publish"
  unfolding Publish_def by (intro tx_keep) simp

lemma set_result_row:
  assumes "match_wf m" "0 \<le> su_HomeScore sc" "0 \<le> su_AwayScore sc" "\<not> penalty_winner_missing sc"
    "m_Status m = MatchStatusLive \<or> (m_Status m = MatchStatusFinished \<and> corrects oper (m_ID m))"
  shows "match_set (set_result sc m) m = set_result sc m" "match_wf (set_result sc m)" "row_step oper m (set_result sc m)"
proof -
  show "match_set (set_result sc m) m = set_result sc m" by (simp add: match_set_read set_result_def)
  show "match_wf (set_result sc m)"
    using assms(2-4) by (auto simp: match_wf_def set_result_def penalty_winner_missing_def split: option.splits)
  show "row_step oper m (set_result sc m)"
    using assms(5) by (auto simp: row_step_def set_result_def intro: match_step.intros)
qed

lemma applyScoreAndPublish_valid:
  assumes "matches_wf s0" "get_match s0 (m_ID m) = Some m" "0 \<le> su_HomeScore sc" "0 \<le> su_AwayScore sc"
    "m_Status m = MatchStatusLive \<or> (m_Status m = MatchStatusFinished \<and> corrects oper (m_ID m))"
  shows "tx_valid (\<lambda>s. s = s0) (applyScoreAndPublish n m sc) (\<lambda>_. table_step oper s0) (\<lambda>_. table_step oper s0)"
proof (cases "penalty_winner_missing sc")
  case True
  then show ?thesis unfolding applyScoreAndPublish_def by (auto intro!: tx_rules table_step_refl assms(1))
next
  case False
  have "match_wf m" using assms(1) get_match_SomeD [OF assms(2)] by (simp add: matches_wf_def)
  note row = set_result_row [OF this assms(3,4) False assms(5)]
  have id: "m_ID (set_result sc m) = m_ID m" by (simp add: set_result_def)
  have upd: "tx_valid (\<lambda>s. s = s0) (MatchUpdate (set_result sc m)) (\<lambda>_. table_step oper s0) (\<lambda>_. table_step oper s0)"
    by (rule tx_valid_weaken [OF MatchUpdate_valid [of s0 "set_result sc m" m oper]]) (use assms row id in auto)
  have rest: "tx_keeps (table_step oper s0)
      (tx_try Publish (\<lambda>_. tx_bind (tx_ignore (ScoreMatch n (m_ID m'))) (\<lambda>_.
            tx_bind (tx_ignore (ScoreExtras n (m_ID m'))) (\<lambda>_. tx_ret (m', None))))
         (\<lambda>_. tx_ret (m', Some (finished_event sc m'))))" for m'
    by (intro tx_keep scoring_keeps_table)
  show ?thesis unfolding applyScoreAndPublish_def if_not_P [OF False]
    by (rule tx_valid_bind [OF upd rest [unfolded tx_keeps_def]])
qed

lemma result_op_valid:
  assumes wf: "matches_wf s0" and ok: "\<And>m. get_match s0 i = Some m \<Longrightarrow> \<not> bad m \<Longrightarrow>
     m_Status m = MatchStatusLive \<or> (m_Status m = MatchStatusFinished \<and> corrects oper (m_ID m))"
  shows "tx_valid (\<lambda>s. s = s0)
     (tx_bind (tx_lift (ValidateMatchResult (Some (su_HomeScore sc)) (Some (su_AwayScore sc)))) (\<lambda>_.
      tx_bind (GetMatch i) (\<lambda>m. if bad m then tx_err e else applyScoreAndPublish n m sc)))
     (\<lambda>_. table_step oper s0) (\<lambda>_. table_step oper s0)"
proof (cases "0 \<le> su_HomeScore sc \<and> 0 \<le> su_AwayScore sc")
  case False
  then show ?thesis
    by (intro tx_valid_bind [where R = "\<lambda>_ _. False" and P = "\<lambda>s. s = s0"])
      (auto simp: ValidateMatchResult_def wf table_step_refl intro!: tx_valid_lift split: if_splits)
next
  case True
  have "tx_valid (\<lambda>s. s = s0 \<and> get_match s0 i = Some m) (if bad m then tx_err e else applyScoreAndPublish n m sc)
     (\<lambda>_. table_step oper s0) (\<lambda>_. table_step oper s0)" for m
  proof (cases "get_match s0 i = Some m \<and> \<not> bad m")
    case m: True
    then have "get_match s0 (m_ID m) = Some m" using get_match_SomeD by metis
    from applyScoreAndPublish_valid [OF wf this, of sc oper n] m True ok [of m] show ?thesis by simp
  next
    case False
    then show ?thesis by (cases "bad m") (auto intro!: tx_valid_err simp: wf table_step_refl)
  qed
  then show ?thesis
    by (intro tx_valid_bind [where R = "\<lambda>_ s. s = s0"] tx_valid_bind [where R = "\<lambda>m s. s = s0 \<and> get_match s0 i = Some m"]
        tx_valid_lift tx_valid_weaken [OF GetMatch_valid [of s0 i]]) (simp_all add: wf table_step_refl)
qed

lemma status_op_valid:
  assumes wf: "matches_wf s0" and m: "get_match s0 i = Some m" and st: "m_Status m \<noteq> MatchStatusFinished"
    "st \<noteq> MatchStatusFinished" "match_step (m_Status m) st"
  shows "tx_valid (\<lambda>s. s = s0) (MatchUpdate (m\<lparr>m_Status := st\<rparr>)) (\<lambda>_. table_step oper s0) (\<lambda>_. table_step oper s0)"
proof -
  have i: "m_ID m = i" and "match_wf m" using wf get_match_SomeD [OF m] by (simp_all add: matches_wf_def)
  moreover have "match_set (m\<lparr>m_Status := st\<rparr>) m = m\<lparr>m_Status := st\<rparr>" by (simp add: match_set_read)
  ultimately have "match_wf (match_set (m\<lparr>m_Status := st\<rparr>) m)" "row_step oper m (match_set (m\<lparr>m_Status := st\<rparr>) m)"
    using st by (auto simp: match_wf_def row_step_def match_step_iff)
  then show ?thesis
    by (intro tx_valid_weaken [OF MatchUpdate_valid [of s0 "m\<lparr>m_Status := st\<rparr>" m oper]]) (use wf m i in auto)
qed

lemma found_op_valid:
  assumes wf: "matches_wf s0" and upd: "\<And>a s. g s0 = Inr (a, s) \<Longrightarrow> table_step oper s0 s"
  shows "tx_valid (\<lambda>s. s = s0) (tx_exec g) (\<lambda>_. table_step oper s0) (\<lambda>_. table_step oper s0)"
  by (rule tx_valid_exec) (use wf upd in \<open>auto simp: table_step_refl\<close>)

lemma MatchCreate_valid:
  assumes wf: "matches_wf s0" and st: "m_Status m = MatchStatusScheduled"
  shows "tx_valid (\<lambda>s. s = s0) (MatchCreate m) (\<lambda>_. table_step oper s0) (\<lambda>_. table_step oper s0)"
proof -
  have fill: "tx_keeps (table_step oper s0) (fill_slot i t)" for i t
  proof (rule tx_keeps_frame [where g = "\<lambda>s. (db_matches s, db_seq s)"])
    show "tx_keeps (\<lambda>s. (db_matches s, db_seq s) = x) (fill_slot i t)" for x
      unfolding fill_slot_def by (intro tx_keep) (auto simp: slot_set_team_def Let_def split: if_splits)
  qed (simp add: table_step_frame)
  have ins: "table_step oper s0 s" if "match_insert m s0 = Inr (a, s)" for a s
  proof -
    define row where "row = inserted_row (db_seq s0) m"
    have row: "m_ID row = db_seq s0" "match_wf row" using st by (simp_all add: row_def inserted_row_def match_wf_def)
    have s: "s = s0\<lparr>db_seq := db_seq s0 + 1, db_matches := db_matches s0 @ [row]\<rparr>"
      using that by (auto simp: match_insert_def store_matches_def Let_def row_def split: if_splits)
    have "get_match s i = Some r" if "get_match s0 i = Some r" for i r
      using that by (simp add: get_match_def s find_append)
    moreover have "matches_wf s" using wf row by (fastforce simp: matches_wf_def s)
    ultimately show ?thesis by (auto simp: table_step_def row_step_refl)
  qed
  show ?thesis unfolding MatchCreate_def
    by (intro tx_valid_withTx tx_valid_bind [where R = "\<lambda>_. table_step oper s0"] tx_valid_stmt
        tx_valid_weaken [OF fill [unfolded tx_keeps_def]] tx_valid_ret)
      (use wf ins in \<open>auto simp: table_step_refl\<close>)
qed

lemma table_step_unit:
  "tx_valid P p (\<lambda>_. table_step oper s0) (\<lambda>_. table_step oper s0) \<Longrightarrow>
   tx_valid P (tx_bind p (\<lambda>_. tx_ret ())) (\<lambda>_. table_step oper s0) (\<lambda>_. table_step oper s0)"
  by (rule tx_valid_bind) (auto intro: tx_valid_ret)

lemma guarded_op_valid:
  assumes wf: "matches_wf s0" and ok: "\<And>m. get_match s0 i = Some m \<Longrightarrow> \<not> bad m \<Longrightarrow>
     tx_valid (\<lambda>s. s = s0) (p m) (\<lambda>_. table_step oper s0) (\<lambda>_. table_step oper s0)"
  shows "tx_valid (\<lambda>s. s = s0) (tx_bind (GetMatch i) (\<lambda>m. if bad m then tx_err e else p m))
     (\<lambda>_. table_step oper s0) (\<lambda>_. table_step oper s0)"
proof -
  have "tx_valid (\<lambda>s. s = s0 \<and> get_match s0 i = Some m) (if bad m then tx_err e else p m)
     (\<lambda>_. table_step oper s0) (\<lambda>_. table_step oper s0)" for m
    using ok [of m] by (cases "get_match s0 i = Some m"; cases "bad m") (auto intro!: tx_valid_err simp: wf table_step_refl)
  then show ?thesis
    by (intro tx_valid_bind [where R = "\<lambda>m s. s = s0 \<and> get_match s0 i = Some m"] tx_valid_weaken [OF GetMatch_valid [of s0 i]])
      (simp_all add: wf table_step_refl)
qed

lemma StartMatch_valid:
  assumes wf: "matches_wf s0"
  shows "tx_valid (\<lambda>s. s = s0) (StartMatch i) (\<lambda>_. table_step oper s0) (\<lambda>_. table_step oper s0)"
  unfolding StartMatch_def
proof (rule guarded_op_valid [OF wf])
  fix m assume m: "get_match s0 i = Some m" "\<not> m_Status m \<noteq> MatchStatusScheduled"
  have "tx_keeps (table_step oper s0) (tx_try Publish (\<lambda>_. tx_ret m') (\<lambda>_. tx_ret m'))" for m' :: Match by (intro tx_keep)
  then show "tx_valid (\<lambda>s. s = s0) (tx_bind (MatchUpdate (m\<lparr>m_Status := MatchStatusLive\<rparr>)) (\<lambda>m'.
      tx_try Publish (\<lambda>_. tx_ret m') (\<lambda>_. tx_ret m'))) (\<lambda>_. table_step oper s0) (\<lambda>_. table_step oper s0)"
    unfolding tx_keeps_def
    by (intro tx_valid_bind [OF status_op_valid [OF wf m(1)]]) (use m in \<open>auto intro: match_step.intros\<close>)
qed

lemma CancelMatch_valid:
  assumes wf: "matches_wf s0"
  shows "tx_valid (\<lambda>s. s = s0) (CancelMatch i) (\<lambda>_. table_step oper s0) (\<lambda>_. table_step oper s0)"
  unfolding CancelMatch_def
  by (rule guarded_op_valid [OF wf], rule status_op_valid [OF wf]) (auto intro: match_step.intros)

lemma plain_update_step:
  assumes "matches_wf s0" "update_match_row i f s0 = Inr (a, s)"
    "\<And>r. m_ID (f r) = m_ID r" "\<And>r. m_Status (f r) = m_Status r" "\<And>r. match_result (f r) = match_result r"
  shows "table_step oper s0 s"
proof (rule update_match_row_step(1) [OF assms(1,3) _ assms(2)])
  fix r assume "get_match s0 i = Some r"
  then have "match_wf r" using assms(1) get_match_SomeD by (metis matches_wf_def)
  moreover have "match_wf (f r) \<longleftrightarrow> match_wf r"
    using assms(4,5) [of r] by (cases "m_Status r = MatchStatusFinished") (auto simp: match_wf_def match_result_def)
  ultimately show "match_wf (f r) \<and> row_step oper r (f r)"
    using assms(4,5) [of r] by (simp add: row_step_def match_step.stay)
qed

lemma plain_row_update_valid:
  assumes wf: "matches_wf s0" and f: "\<And>r. m_ID (f r) = m_ID r" "\<And>r. m_Status (f r) = m_Status r" "\<And>r. match_result (f r) = match_result r"
  shows "tx_valid (\<lambda>s. s = s0) (tx_exec (update_match_row i f)) (\<lambda>_. table_step oper s0) (\<lambda>_. table_step oper s0)"
  by (rule found_op_valid [OF wf], rule plain_update_step [OF wf _ f])

text \<open>Every operation on matches, under every fault script, is a step of the table.\<close>
lemma match_op_valid:
  assumes wf: "matches_wf s0"
  shows "tx_valid (\<lambda>s. s = s0) (run_match_op n oper) (\<lambda>_. table_step oper s0) (\<lambda>_. table_step oper s0)"
proof (cases oper)
  case (OpCreate m)
  have "tx_valid (\<lambda>s. s = s0) (CreateMatch m) (\<lambda>_. table_step oper s0) (\<lambda>_. table_step oper s0)"
    unfolding CreateMatch_def
    by (rule tx_valid_bind [OF _ MatchCreate_valid [OF wf]]) (auto intro!: tx_valid_lift simp: wf table_step_refl)
  then show ?thesis by (simp add: OpCreate run_match_op_def table_step_unit)
next
  case (OpStart i)
  then show ?thesis by (simp add: run_match_op_def table_step_unit StartMatch_valid wf)
next
  case (OpResult i sc)
  have "tx_valid (\<lambda>s. s = s0) (UpdateResult n i sc) (\<lambda>_. table_step oper s0) (\<lambda>_. table_step oper s0)"
    unfolding UpdateResult_def by (rule result_op_valid [OF wf]) simp
  then show ?thesis by (simp add: OpResult run_match_op_def table_step_unit)
next
  case (OpCorrect i sc)
  have "tx_valid (\<lambda>s. s = s0) (CorrectResult n i sc) (\<lambda>_. table_step oper s0) (\<lambda>_. table_step oper s0)"
    unfolding CorrectResult_def
    by (rule result_op_valid [OF wf]) (auto simp: OpCorrect corrects_def dest: get_match_SomeD)
  then show ?thesis by (simp add: OpCorrect run_match_op_def table_step_unit)
next
  case (OpCancel i)
  then show ?thesis by (simp add: run_match_op_def table_step_unit CancelMatch_valid wf)
next
  case (OpSlots i h a)
  have "tx_valid (\<lambda>s. s = s0) (tx_exec (match_link_slots i h a)) (\<lambda>_. table_step oper s0) (\<lambda>_. table_step oper s0)"
  proof (rule found_op_valid [OF wf])
    fix x s assume "match_link_slots i h a s0 = Inr (x, s)"
    then have "update_match_row i (\<lambda>r. r\<lparr>m_HomeSlotID := h, m_AwaySlotID := a,
       m_HomeTeam := (case slot_team s0 h of Some t \<Rightarrow> t | None \<Rightarrow> m_HomeTeam r),
       m_AwayTeam := (case slot_team s0 a of Some t \<Rightarrow> t | None \<Rightarrow> m_AwayTeam r)\<rparr>) s0 = Inr (x, s)"
      by (auto simp: match_link_slots_def split: if_splits)
    then show "table_step oper s0 s" by (rule plain_update_step [OF wf]) (simp_all add: match_result_def)
  qed
  then have "tx_valid (\<lambda>s. s = s0) (UpdateSlots i h a) (\<lambda>_. table_step oper s0) (\<lambda>_. table_step oper s0)"
    unfolding UpdateSlots_def found_match_def by (rule tx_valid_bind) (auto intro!: tx_rules)
  then show ?thesis by (simp add: OpSlots run_match_op_def table_step_unit)
next
  case (OpKickoff i t)
  then show ?thesis
    by (simp add: run_match_op_def UpdateKickoff_def table_step_unit plain_row_update_valid wf match_result_def)
next
  case (OpLive i p h a)
  then show ?thesis
    by (simp add: run_match_op_def UpdateLiveProgress_def table_step_unit plain_row_update_valid wf match_result_def)
qed

lemma match_op_step:
  "matches_wf s \<Longrightarrow> table_step oper s (snd (snd (run_match_op n oper fs s)))"
  using tx_validD [OF match_op_valid [of s n oper] refl, of fs] by (metis prod.collapse sum.exhaust_sel)

lemma table_step_path:
  assumes "table_step oper s s1" "get_match s i = Some m"
  obtains m1 where "get_match s1 i = Some m1" "match_step (m_Status m) (m_Status m1)"
    "m_Status m = MatchStatusFinished \<longrightarrow> \<not> corrects oper i \<longrightarrow> match_result m1 = match_result m"
  using assms get_match_SomeD [OF assms(2)] unfolding table_step_def row_step_def by metis


definition example_score :: ScoreUpdate where
  "example_score = \<lparr>su_HomeScore = 2, su_AwayScore = 1, su_WinMethod = None, su_PenaltyWinner = None,
     su_PenaltyHomeScore = None, su_PenaltyAwayScore = None, su_HalftimeHomeScore = Some 1, su_HalftimeAwayScore = Some 0,
     su_FirstScoringTeam = Some ''home''\<rparr>"

definition example_live_db :: db where
  "example_live_db = example_db\<lparr>db_seq := 10, db_matches := [(example_match 2 1)\<lparr>m_HomeScore := None, m_AwayScore := None, m_Status := MatchStatusLive\<rparr>]\<rparr>"

lemma example_live_wf: "matches_wf example_live_db"
  by (simp add: matches_wf_def match_wf_def example_live_db_def example_match_def)


end
