(* ===== verification/Bracket.thy ===== *)
theory Bracket
  imports Matching Fixtures Ranking
begin

text \<open>
  The knockout bracket: tournament slots (\<^verbatim>\<open>repository/tournament_repository.go\<close>), their confirmation by the
  administrator and by results (\<^verbatim>\<open>service/tournament_service.go\<close>) and the worker's reaction to a finished
  match (\<^verbatim>\<open>cmd/worker/handlers.go\<close>). \<open>order\<close> and \<open>groups\<close> are the orders in which a call ranges over its
  maps. Log lines and audit entries are left out; an error that the code only logs is dropped.
\<close>

section \<open>Repository\<close>

definition slot_insert :: "string \<Rightarrow> string \<Rightarrow> db \<Rightarrow> go_error + TournamentSlot \<times> db" where
  "slot_insert label description s =
    (let row = \<lparr>ts_ID = db_seq s, ts_Label = label, ts_Description = description, ts_Team = None, ts_AutoSource = None,
         ts_ConfirmedAt = None, ts_ConfirmedByUserID = None\<rparr> in
     if label \<in> set (map ts_Label (db_slots s)) then Inl (PgError ''23505'')
     else Inr (row, s\<lparr>db_seq := db_seq s + 1, db_slots := db_slots s @ [row]\<rparr>))"

definition SlotCreate :: "string \<Rightarrow> string \<Rightarrow> TournamentSlot dbprog" where
  "SlotCreate label description =
     tx_stmt (conflict_if_unique ''a tournament slot with this label already exists'') (slot_insert label description)"

definition get_slot :: "db \<Rightarrow> int \<rightharpoonup> TournamentSlot" where
  "get_slot s i = find (\<lambda>t. ts_ID t = i) (db_slots s)"

text \<open>The slots in id order, one row for every match that refers to a slot and one for a slot without matches.\<close>
definition ListSlots :: "TournamentSlot list dbprog" where
  "ListSlots = tx_query (\<lambda>s. concat (map (\<lambda>t.
     let n = length (filter (\<lambda>m. m_HomeSlotID m = Some (ts_ID t) \<or> m_AwaySlotID m = Some (ts_ID t)) (db_matches s)) in
     replicate (max 1 n) t) (sort_key ts_ID (db_slots s))))"

text \<open>\<^verbatim>\<open>UPDATE tournament_slots ... RETURNING\<close> on the rows of one id that satisfy \<open>p\<close>.\<close>
definition slot_update :: "int \<Rightarrow> (TournamentSlot \<Rightarrow> bool) \<Rightarrow> (TournamentSlot \<Rightarrow> TournamentSlot) \<Rightarrow> db \<Rightarrow>
    go_error + TournamentSlot option \<times> db" where
  "slot_update i p f s = (case get_slot s i of
     None \<Rightarrow> Inr (None, s)
   | Some t \<Rightarrow>
       if \<not> p t then Inr (None, s)
       else if ts_Team (f t) = Some [] then Inl (PgError ''23514'')
       else if (case ts_ConfirmedByUserID (f t) of None \<Rightarrow> False | Some u \<Rightarrow> db_users s u = None) then Inl (PgError ''23503'')
       else Inr (Some (f t), s\<lparr>db_slots := update_where (\<lambda>t. ts_ID t = i) f (db_slots s)\<rparr>))"

text \<open>The two statements that write the team into the matches of a slot.\<close>
definition propagate_home :: "int \<Rightarrow> string \<Rightarrow> unit dbprog" where
  "propagate_home slotID team = tx_exec (\<lambda>s.
     store_matches (update_where (\<lambda>m. m_HomeSlotID m = Some slotID) (\<lambda>m. m\<lparr>m_HomeTeam := team\<rparr>) (db_matches s)) () s)"

definition propagate_away :: "int \<Rightarrow> string \<Rightarrow> unit dbprog" where
  "propagate_away slotID team = tx_exec (\<lambda>s.
     store_matches (update_where (\<lambda>m. m_AwaySlotID m = Some slotID) (\<lambda>m. m\<lparr>m_AwayTeam := team\<rparr>) (db_matches s)) () s)"

definition SlotConfirm :: "int \<Rightarrow> int \<Rightarrow> string \<Rightarrow> TournamentSlot dbprog" where
  "SlotConfirm slotID confirmedByUserID team = withTx (
     tx_bind (tx_exec (\<lambda>s. slot_update slotID (\<lambda>_. True)
       (\<lambda>t. t\<lparr>ts_Team := Some team, ts_ConfirmedAt := Some (db_now s), ts_ConfirmedByUserID := Some confirmedByUserID\<rparr>) s)) (\<lambda>r.
     case r of
       None \<Rightarrow> tx_err (NotFound ''tournament slot not found'')
     | Some slot \<Rightarrow>
         tx_bind (propagate_home slotID team) (\<lambda>_.
         tx_bind (propagate_away slotID team) (\<lambda>_. tx_ret slot))))"

definition FindSlotByAutoSource :: "string \<Rightarrow> TournamentSlot option dbprog" where
  "FindSlotByAutoSource autoSource = tx_query (\<lambda>s. find (\<lambda>t. ts_AutoSource t = Some autoSource) (db_slots s))"

text \<open>
  The early return for a slot that has its team already commits without changes and hands the error of the
  commit on as it is, which the callers treat like any other error.
\<close>
definition AutoConfirmSlot :: "int \<Rightarrow> string \<Rightarrow> TournamentSlot dbprog" where
  "AutoConfirmSlot slotID team = withTx (
     tx_bind (tx_exec (\<lambda>s. slot_update slotID (\<lambda>t. ts_Team t = None)
       (\<lambda>t. t\<lparr>ts_Team := Some team, ts_ConfirmedAt := Some (db_now s)\<rparr>) s)) (\<lambda>r.
     case r of
       None \<Rightarrow> tx_bind (tx_query (\<lambda>s. get_slot s slotID)) (\<lambda>r2. case r2 of
           None \<Rightarrow> tx_err (NotFound ''tournament slot not found'')
         | Some slot \<Rightarrow> tx_ret slot)
     | Some slot \<Rightarrow>
         tx_bind (propagate_home slotID team) (\<lambda>_.
         tx_bind (propagate_away slotID team) (\<lambda>_. tx_ret slot))))"

section \<open>Service\<close>

definition CreateSlot :: "string \<Rightarrow> string \<Rightarrow> TournamentSlot dbprog" where
  "CreateSlot label description =
    (if label = [] then tx_err (Validation ''slot label is required'') else SlotCreate label description)"

definition ConfirmSlot :: "int \<Rightarrow> int \<Rightarrow> string \<Rightarrow> TournamentSlot dbprog" where
  "ConfirmSlot slotID adminID team =
    (if team = [] then tx_err (Validation ''team name is required'') else SlotConfirm slotID adminID team)"

definition autoConfirmBySource :: "string \<Rightarrow> string \<Rightarrow> unit dbprog" where
  "autoConfirmBySource autoSource team = tx_bind (FindSlotByAutoSource autoSource) (\<lambda>r.
     case r of
       None \<Rightarrow> tx_ret ()
     | Some slot \<Rightarrow>
         if ts_Team slot \<noteq> None then tx_ret ()
         else tx_bind (AutoConfirmSlot (ts_ID slot) team) (\<lambda>_. tx_ret ()))"

definition match_settled :: "Match \<Rightarrow> bool" where
  "match_settled m \<longleftrightarrow> m_Status m = MatchStatusFinished \<or> m_Status m = MatchStatusCancelled"

definition AutoConfirmGroupSlots :: "(standings_acc \<Rightarrow> standings_acc) \<Rightarrow> string \<Rightarrow> unit dbprog" where
  "AutoConfirmGroupSlots order groupLabel = tx_bind (ListByGroupLabel groupLabel) (\<lambda>fixtures.
     if \<not> list_all match_settled fixtures then tx_ret ()
     else tx_bind (tx_read win_points) (\<lambda>winPoints.
       let standings = (case buildStandings order fixtures winPoints groupLabel of None \<Rightarrow> [] | Some rows \<Rightarrow> rows) in
       if length standings < 2 then tx_ret ()
       else tx_bind (tx_ignore (autoConfirmBySource (''1'' @ groupLabel) (gs_Team (standings ! 0)))) (\<lambda>_.
            tx_bind (tx_ignore (autoConfirmBySource (''2'' @ groupLabel) (gs_Team (standings ! 1)))) (\<lambda>_.
            tx_ret ()))))"

definition TrimPrefix :: "string \<Rightarrow> string \<Rightarrow> string" where
  "TrimPrefix s p = (if HasPrefix s p then drop (length p) s else s)"

definition AutoConfirmMatchResultSlots :: "string \<Rightarrow> string \<Rightarrow> string \<Rightarrow> unit dbprog" where
  "AutoConfirmMatchResultSlots matchCode winner loser =
    (if matchCode = [] then tx_ret ()
     else let num = TrimPrefix matchCode ''M'' in
       if num = [] then tx_ret ()
       else tx_bind (if winner \<noteq> [] then tx_ignore (autoConfirmBySource (''W'' @ num) winner) else tx_ret ()) (\<lambda>_.
            tx_bind (if loser \<noteq> [] then tx_ignore (autoConfirmBySource (''L'' @ num) loser) else tx_ret ()) (\<lambda>_.
            tx_ret ())))"

definition slotWinnerLoser :: "Match \<Rightarrow> string \<times> string" where
  "slotWinnerLoser m = (case (m_HomeScore m, m_AwayScore m) of
     (Some hs, Some as) \<Rightarrow>
       if hs > as then (m_HomeTeam m, m_AwayTeam m)
       else if as > hs then (m_AwayTeam m, m_HomeTeam m)
       else if m_WinMethod m = Some WinMethodPenalties \<and> m_PenaltyWinner m \<noteq> None then
         (if m_PenaltyWinner m = Some ''home'' then (m_HomeTeam m, m_AwayTeam m) else (m_AwayTeam m, m_HomeTeam m))
       else ([], [])
   | _ \<Rightarrow> ([], []))"

definition backfill_match :: "Match \<Rightarrow> unit dbprog" where
  "backfill_match m = (case m_MatchCode m of
     None \<Rightarrow> tx_ret ()
   | Some code \<Rightarrow>
       if m_Status m \<noteq> MatchStatusFinished then tx_ret ()
       else tx_ignore (AutoConfirmMatchResultSlots code (fst (slotWinnerLoser m)) (snd (slotWinnerLoser m))))"

definition backfill_phase :: "MatchPhase \<Rightarrow> unit dbprog" where
  "backfill_phase phase = tx_try (ListByPhase phase) (\<lambda>_. tx_ret ()) (\<lambda>fixtures. tx_iter backfill_match fixtures)"

definition knockoutPhases :: "MatchPhase list" where
  "knockoutPhases = [PhaseRoundOf32, PhaseRoundOf16, PhaseQuarterFinal, PhaseSemiFinal, PhaseThirdPlace, PhaseFinal]"

definition BackfillSlots :: "(standings_acc \<Rightarrow> standings_acc) \<Rightarrow> unit dbprog" where
  "BackfillSlots order =
     tx_bind (tx_iter (\<lambda>g. tx_ignore (AutoConfirmGroupSlots order g)) validGroupLabels) (\<lambda>_.
     tx_iter backfill_phase knockoutPhases)"

record BestThirdAssignment =
  bt_SlotLabel :: string
  bt_Group :: string
  bt_Team :: string

text \<open>The loop over the slots: a slot whose confirmation fails is skipped.\<close>
fun confirm_thirds :: "int \<Rightarrow> GroupStanding list \<Rightarrow> (int \<rightharpoonup> string) \<Rightarrow> thirdSlotEntry list \<Rightarrow> BestThirdAssignment list dbprog" where
  "confirm_thirds adminID thirds assignment [] = tx_ret []"
| "confirm_thirds adminID thirds assignment (ts # rest) = (case assignment (tse_id ts) of
     None \<Rightarrow> confirm_thirds adminID thirds assignment rest
   | Some team \<Rightarrow> tx_try (SlotConfirm (tse_id ts) adminID team)
       (\<lambda>_. confirm_thirds adminID thirds assignment rest)
       (\<lambda>_. tx_bind (confirm_thirds adminID thirds assignment rest) (\<lambda>results.
          tx_ret (\<lparr>bt_SlotLabel = tse_label ts, bt_Group = groupForTeam thirds team, bt_Team = team\<rparr> # results))))"

definition AutoConfirmBestThirdSlots ::
  "(standings_acc \<Rightarrow> standings_acc) \<Rightarrow> string list \<Rightarrow> int \<Rightarrow> BestThirdAssignment list dbprog" where
  "AutoConfirmBestThirdSlots order groups adminID = tx_bind (ListByPhase PhaseGroupStage) (\<lambda>groupMatches.
     tx_bind (tx_lift (checkGroupStageComplete groupMatches)) (\<lambda>_.
     tx_bind (tx_read win_points) (\<lambda>winPoints.
     let thirds = extractTopEightThirds groups (buildStandings order groupMatches winPoints) in
     tx_bind ListSlots (\<lambda>allSlots.
     let thirdSlots = filterBestThirdSlots allSlots in
     case matchBestThirdsToSlots thirdSlots thirds of
       None \<Rightarrow> tx_err (Internal (OtherError ''could not resolve best-third slot assignment; slot eligible-group data may be inconsistent''))
     | Some assignment \<Rightarrow> confirm_thirds adminID thirds assignment thirdSlots))))"

section \<open>The worker\<close>

definition knockoutWinnerLoser :: "MatchFinished \<Rightarrow> string \<times> string" where
  "knockoutWinnerLoser mf =
    (if mf_HomeScore mf > mf_AwayScore mf then (mf_HomeTeam mf, mf_AwayTeam mf)
     else if mf_AwayScore mf > mf_HomeScore mf then (mf_AwayTeam mf, mf_HomeTeam mf)
     else if mf_PenaltyWinner mf = ''home'' then (mf_HomeTeam mf, mf_AwayTeam mf)
     else if mf_PenaltyWinner mf = ''away'' then (mf_AwayTeam mf, mf_HomeTeam mf)
     else ([], []))"

definition runSlotAutoConfirm :: "(standings_acc \<Rightarrow> standings_acc) \<Rightarrow> MatchFinished \<Rightarrow> unit dbprog" where
  "runSlotAutoConfirm order mf =
    (if mf_Phase mf = ''group_stage'' \<and> mf_GroupLabel mf \<noteq> [] then tx_ignore (AutoConfirmGroupSlots order (mf_GroupLabel mf))
     else if mf_MatchCode mf \<noteq> [] then
       tx_ignore (AutoConfirmMatchResultSlots (mf_MatchCode mf) (fst (knockoutWinnerLoser mf)) (snd (knockoutWinnerLoser mf)))
     else tx_ret ())"

text \<open>The handler up to its best-effort tail of cache, broadcast and snapshot work.\<close>
definition newMatchFinishedHandler :: "nat \<Rightarrow> (standings_acc \<Rightarrow> standings_acc) \<Rightarrow> MatchFinished \<Rightarrow> unit dbprog" where
  "newMatchFinishedHandler maxAttempts order mf =
     tx_bind (ScoreMatch maxAttempts (mf_MatchID mf)) (\<lambda>_.
     tx_bind (tx_ignore (ScoreExtras maxAttempts (mf_MatchID mf))) (\<lambda>_.
     runSlotAutoConfirm order mf))"

section \<open>Confirmed slots are final for the automatic path\<close>

lemma slot_team_get: "slot_team s (Some i) = Option.bind (get_slot s i) ts_Team"
  by (simp add: slot_team_def get_slot_def)

lemma slot_team_None [simp]: "slot_team s None = None"
  by (simp add: slot_team_def)

lemma get_slot_update:
  assumes "\<And>t. ts_ID (f t) = ts_ID t" "db_slots s' = update_where (\<lambda>t. ts_ID t = i) f (db_slots s)"
  shows "get_slot s' j = (if j = i then map_option f (get_slot s i) else get_slot s j)"
  unfolding get_slot_def assms(2) by (rule find_update_where) (rule assms(1))

lemma slot_update_run:
  assumes "slot_update i p f s = Inr (Some t', s')"
  obtains t where "get_slot s i = Some t" "p t" "t' = f t" "s' = s\<lparr>db_slots := update_where (\<lambda>t. ts_ID t = i) f (db_slots s)\<rparr>"
    "ts_Team t' \<noteq> Some []"
  using assms by (auto simp: slot_update_def split: option.splits if_splits)

lemma slot_update_None: "slot_update i p f s = Inr (None, s') \<Longrightarrow> s' = s"
  by (auto simp: slot_update_def split: option.splits if_splits)

abbreviation slots_are :: "int \<Rightarrow> string \<Rightarrow> db \<Rightarrow> bool" where
  "slots_are i team s \<equiv> slot_team s (Some i) = Some team"

lemma propagate_keeps [tx_keep]: "tx_keeps (slots_are i team) (propagate_home j t)" "tx_keeps (slots_are i team) (propagate_away j t)"
  unfolding propagate_home_def propagate_away_def
  by (intro tx_keep; auto simp: store_matches_def slot_team_def split: if_splits)+

lemma AutoConfirmSlot_keeps [tx_keep]: "tx_keeps (slots_are i team) (AutoConfirmSlot j t)"
  unfolding AutoConfirmSlot_def
proof (intro tx_keep)
  fix s r s' assume s: "slots_are i team s"
    and u: "slot_update j (\<lambda>t. ts_Team t = None) (\<lambda>x. x\<lparr>ts_Team := Some t, ts_ConfirmedAt := Some (db_now s)\<rparr>) s = Inr (r, s')"
  show "slots_are i team s'"
  proof (cases r)
    case None
    with u s show ?thesis using slot_update_None by blast
  next
    case (Some t')
    from u [unfolded Some] obtain x where x: "get_slot s j = Some x" "ts_Team x = None"
      and s': "s' = s\<lparr>db_slots := update_where (\<lambda>t. ts_ID t = j) (\<lambda>x. x\<lparr>ts_Team := Some t, ts_ConfirmedAt := Some (db_now s)\<rparr>) (db_slots s)\<rparr>"
      by (rule slot_update_run)
    have "i \<noteq> j" using s x by (auto simp: slot_team_get)
    then show ?thesis using s get_slot_update [of _ s' j s i] by (simp add: slot_team_get s')
  qed
qed

lemma autoConfirmBySource_keeps [tx_keep]: "tx_keeps (slots_are i team) (autoConfirmBySource src t)"
  unfolding autoConfirmBySource_def FindSlotByAutoSource_def by (intro tx_keep)

lemma AutoConfirm_keeps [tx_keep]:
  "tx_keeps (slots_are i team) (AutoConfirmGroupSlots order g)"
  "tx_keeps (slots_are i team) (AutoConfirmMatchResultSlots code w l)"
  unfolding AutoConfirmGroupSlots_def ListByGroupLabel_def AutoConfirmMatchResultSlots_def Let_def by (intro tx_keep)+

lemma BackfillSlots_keeps: "tx_keeps (slots_are i team) (BackfillSlots order)"
  unfolding BackfillSlots_def backfill_phase_def backfill_match_def ListByPhase_def by (intro tx_keep)

lemma handler_keeps: "tx_keeps (slots_are i team) (newMatchFinishedHandler n order mf)"
  unfolding newMatchFinishedHandler_def runSlotAutoConfirm_def
  by (intro tx_keep; simp add: slot_team_def)

text \<open>
  C31: a bracket slot that has a team, set by the administrator or by an earlier result, is never overwritten by
  the automatic path: neither the handler of a finished match (a replay or a corrected result included) nor
  the start-up backfill changes the team of a confirmed slot, whatever fails on the way.
\<close>
theorem auto_confirm_never_overwrites:
  assumes "slot_team s (Some i) = Some team"
  shows "slot_team (snd (snd (newMatchFinishedHandler n order mf fs s))) (Some i) = Some team \<and>
    slot_team (snd (snd (BackfillSlots order fs s))) (Some i) = Some team"
  using tx_keeps_run [OF handler_keeps assms] tx_keeps_run [OF BackfillSlots_keeps assms] by blast

definition example_slot :: "int \<Rightarrow> string option \<Rightarrow> string option \<Rightarrow> TournamentSlot" where
  "example_slot i src team = \<lparr>ts_ID = i, ts_Label = Itoa i, ts_Description = ''r32'', ts_Team = team, ts_AutoSource = src,
     ts_ConfirmedAt = None, ts_ConfirmedByUserID = None\<rparr>"

definition example_bracket_db :: db where
  "example_bracket_db = example_db\<lparr>db_seq := 100, db_users := [1 \<mapsto> example_user 1],
     db_slots := [example_slot 1 (Some ''1A'') None, example_slot 2 (Some ''2A'') (Some ''MEX'')],
     db_matches := [example_match 2 1,
       (example_match 2 1)\<lparr>m_ID := 8, m_HomeTeam := ''1A'', m_AwayTeam := ''MEX'', m_HomeScore := None, m_AwayScore := None,
         m_Status := MatchStatusScheduled, m_Phase := PhaseRoundOf32, m_GroupLabel := None, m_KickoffAt := 50,
         m_HomeSlotID := Some 1, m_AwaySlotID := Some 2, m_MatchCode := Some ''M73''\<rparr>]\<rparr>"

definition example_event :: MatchFinished where
  "example_event = finished_event \<lparr>su_HomeScore = 2, su_AwayScore = 1, su_WinMethod = None, su_PenaltyWinner = None,
     su_PenaltyHomeScore = None, su_PenaltyAwayScore = None, su_HalftimeHomeScore = Some 1, su_HalftimeAwayScore = Some 0,
     su_FirstScoringTeam = Some ''home''\<rparr> (example_match 2 1)"

theorem auto_confirm_never_overwrites_witness:
  "slot_team (snd (snd (newMatchFinishedHandler 3 rev example_event [] example_bracket_db))) (Some 2) = Some ''MEX''"
  using auto_confirm_never_overwrites [of example_bracket_db 2 "''MEX''" 3 rev example_event "[]"]
  by (simp add: example_bracket_db_def slot_team_def example_slot_def)

section \<open>Slots and fixtures agree\<close>

text \<open>A match linked to a confirmed slot plays with the team of the slot.\<close>
definition row_agrees :: "db \<Rightarrow> Match \<Rightarrow> bool" where
  "row_agrees s m \<longleftrightarrow> slot_team s (m_HomeSlotID m) \<in> {None, Some (m_HomeTeam m)} \<and>
     slot_team s (m_AwaySlotID m) \<in> {None, Some (m_AwayTeam m)}"

definition bracket_agrees :: "db \<Rightarrow> bool" where
  "bracket_agrees s \<longleftrightarrow> (\<forall>m\<in>set (db_matches s). row_agrees s m)"

lemma slot_team_update:
  assumes "get_slot s i = Some t0" "\<And>t. ts_ID (f t) = ts_ID t" "\<And>t. ts_Team (f t) = Some team"
    "db_slots s' = update_where (\<lambda>t. ts_ID t = i) f (db_slots s)"
  shows "slot_team s' j = (if j = Some i then Some team else slot_team s j)"
proof (cases j)
  case (Some k)
  then show ?thesis using get_slot_update [OF assms(2,4), of k] assms(1,3) by (simp add: slot_team_get)
qed simp

text \<open>Setting the team of a slot and writing it to both sides restores agreement.\<close>
lemma propagated_agrees:
  assumes "bracket_agrees s" "\<And>j. slot_team s' j = (if j = Some i then Some team else slot_team s j)"
    "db_matches s' = update_where (\<lambda>m. m_AwaySlotID m = Some i) (\<lambda>m. m\<lparr>m_AwayTeam := team\<rparr>)
       (update_where (\<lambda>m. m_HomeSlotID m = Some i) (\<lambda>m. m\<lparr>m_HomeTeam := team\<rparr>) (db_matches s))"
  shows "bracket_agrees s'"
  using assms(1) unfolding bracket_agrees_def row_agrees_def assms(2,3) set_update_where by auto

lemma propagate_run:
  assumes "tx_bind (propagate_home i team) (\<lambda>_. tx_bind (propagate_away i team) (\<lambda>_. tx_ret t)) fs s = (Inr r, fs', s')"
  shows "db_slots s' = db_slots s" "db_matches s' = update_where (\<lambda>m. m_AwaySlotID m = Some i) (\<lambda>m. m\<lparr>m_AwayTeam := team\<rparr>)
       (update_where (\<lambda>m. m_HomeSlotID m = Some i) (\<lambda>m. m\<lparr>m_HomeTeam := team\<rparr>) (db_matches s))"
  using assms
  by (auto simp: tx_runs propagate_home_def propagate_away_def store_matches_def split: if_splits)

text \<open>Both confirmation transactions have this shape.\<close>
lemma confirm_tx_keeps:
  assumes "\<And>s t. ts_ID (f s t) = ts_ID t" "\<And>s t. ts_Team (f s t) = Some team" "tx_keeps bracket_agrees other"
  shows "tx_keeps bracket_agrees (withTx (tx_bind (tx_exec (\<lambda>s. slot_update i p (f s) s)) (\<lambda>r. case r of None \<Rightarrow> other
     | Some slot \<Rightarrow> tx_bind (propagate_home i team) (\<lambda>_. tx_bind (propagate_away i team) (\<lambda>_. tx_ret slot)))))"
  unfolding tx_keeps_def
proof (rule tx_valid_withTx, rule tx_validI)
  fix fs s a fs' s'
  assume I: "bracket_agrees s" and run: "tx_bind (tx_exec (\<lambda>s. slot_update i p (f s) s)) (\<lambda>r. case r of None \<Rightarrow> other
     | Some slot \<Rightarrow> tx_bind (propagate_home i team) (\<lambda>_. tx_bind (propagate_away i team) (\<lambda>_. tx_ret slot))) fs s = (Inr a, fs', s')"
  then obtain r fs1 s1 where u: "slot_update i p (f s) s = Inr (r, s1)"
    and rest: "(case r of None \<Rightarrow> other
     | Some slot \<Rightarrow> tx_bind (propagate_home i team) (\<lambda>_. tx_bind (propagate_away i team) (\<lambda>_. tx_ret slot))) fs1 s1 = (Inr a, fs', s')"
    unfolding tx_bind_run [of "tx_exec _"] tx_exec_run by blast
  show "bracket_agrees s'"
  proof (cases r)
    case None
    then show ?thesis using rest u I slot_update_None tx_keepsD [OF assms(3)] by (metis option.simps(4))
  next
    case (Some t')
    obtain t where t: "get_slot s i = Some t" "s1 = s\<lparr>db_slots := update_where (\<lambda>t. ts_ID t = i) (f s) (db_slots s)\<rparr>"
      by (rule slot_update_run [OF u [unfolded Some]])
    note p = propagate_run [OF rest [unfolded Some option.case]]
    show ?thesis
      by (rule propagated_agrees [OF I]) (rule slot_team_update [OF t(1) assms(1,2)], use p t(2) in simp_all)
  qed
qed auto

lemma SlotConfirm_agrees [tx_keep]: "tx_keeps bracket_agrees (SlotConfirm i u team)"
  unfolding SlotConfirm_def by (rule confirm_tx_keeps) (auto intro: tx_keep)

lemma AutoConfirmSlot_agrees [tx_keep]: "tx_keeps bracket_agrees (AutoConfirmSlot i team)"
  unfolding AutoConfirmSlot_def by (rule confirm_tx_keeps) (auto intro!: tx_keep)

lemma auto_agrees [tx_keep]:
  "tx_keeps bracket_agrees (autoConfirmBySource src team)"
  "tx_keeps bracket_agrees (AutoConfirmGroupSlots order g)"
  "tx_keeps bracket_agrees (AutoConfirmMatchResultSlots code w l)"
  unfolding AutoConfirmGroupSlots_def ListByGroupLabel_def AutoConfirmMatchResultSlots_def Let_def autoConfirmBySource_def
    FindSlotByAutoSource_def by (intro tx_keep)+

lemma agrees_frame: "bracket_agrees s \<Longrightarrow> (db_matches s', db_slots s') = (db_matches s, db_slots s) \<Longrightarrow> bracket_agrees s'"
proof -
  assume "bracket_agrees s" "(db_matches s', db_slots s') = (db_matches s, db_slots s)"
  moreover then have "slot_team s' = slot_team s" by (intro ext) (simp add: slot_team_def split: option.split)
  ultimately show ?thesis by (simp add: bracket_agrees_def row_agrees_def)
qed

lemma scoring_agrees [tx_keep]: "tx_keeps bracket_agrees (ScoreMatch n i)" "tx_keeps bracket_agrees (ScoreExtras n i)"
  by (rule tx_keeps_frame [where g = "\<lambda>s. (db_matches s, db_slots s)"], simp add: ScoreMatch_keeps ScoreExtras_keeps, erule agrees_frame, assumption)+

lemma confirm_thirds_agrees: "tx_keeps bracket_agrees (confirm_thirds u ts asg es)"
  by (induction es) (auto intro!: tx_keep)

text \<open>The operations on the bracket do not touch what the match service relies on.\<close>
lemma wf_frame: "matches_wf s \<Longrightarrow> (db_matches s', db_seq s') = (db_matches s, db_seq s) \<Longrightarrow> matches_wf s'"
  by (simp add: matches_wf_def)

lemma slot_update_seq:
  assumes "slot_update i p f s = Inr (r, s')"
  shows "(db_matches s', db_seq s') = (db_matches s, db_seq s)"
  using assms by (auto simp: slot_update_def split: option.splits if_splits)

lemma store_update_wf:
  assumes "\<And>m. m_ID (f m) = m_ID m" "\<And>m. match_wf (f m) = match_wf m"
  shows "tx_keeps matches_wf (tx_exec (\<lambda>s. store_matches (update_where p f (db_matches s)) a s))"
proof (intro tx_keep)
  fix s b s' assume "matches_wf s" "store_matches (update_where p f (db_matches s)) a s = Inr (b, s')"
  then show "matches_wf s'"
    by (auto simp: store_matches_def matches_wf_def map_update_where assms set_update_where split: if_splits)
qed

lemma confirm_wf [tx_keep]:
  "tx_keeps matches_wf (propagate_home i team)" "tx_keeps matches_wf (propagate_away i team)"
  "tx_keeps matches_wf (tx_exec (\<lambda>s. slot_update i p (f s) s))"
proof -
  show "tx_keeps matches_wf (propagate_home i team)" "tx_keeps matches_wf (propagate_away i team)"
    unfolding propagate_home_def propagate_away_def by (rule store_update_wf; simp add: match_wf_def)+
  show "tx_keeps matches_wf (tx_exec (\<lambda>s. slot_update i p (f s) s))"
    by (intro tx_keep) (rule wf_frame, assumption, rule slot_update_seq)
qed

lemma slot_ops_wf [tx_keep]: "tx_keeps matches_wf (SlotConfirm i u team)" "tx_keeps matches_wf (AutoConfirmSlot i team)"
  unfolding SlotConfirm_def AutoConfirmSlot_def by (intro tx_keep)+

lemma auto_wf [tx_keep]:
  "tx_keeps matches_wf (autoConfirmBySource src team)"
  "tx_keeps matches_wf (AutoConfirmGroupSlots order g)"
  "tx_keeps matches_wf (AutoConfirmMatchResultSlots code w l)"
  unfolding AutoConfirmGroupSlots_def ListByGroupLabel_def AutoConfirmMatchResultSlots_def Let_def autoConfirmBySource_def
    FindSlotByAutoSource_def by (intro tx_keep)+

lemma scoring_wf [tx_keep]: "tx_keeps matches_wf (ScoreMatch n i)" "tx_keeps matches_wf (ScoreExtras n i)"
  by (rule tx_keeps_frame [where g = "\<lambda>s. (db_matches s, db_seq s)"], simp add: ScoreMatch_keeps ScoreExtras_keeps, erule wf_frame, assumption)+

lemma confirm_thirds_wf: "tx_keeps matches_wf (confirm_thirds u ts asg es)"
  by (induction es) (auto intro!: tx_keep)

section \<open>All operations together\<close>

datatype bracket_op =
    BMatch match_op | BSlot string string | BConfirm int int string | BThirds "string list" int
  | BBackfill | BHandler MatchFinished

definition run_bracket_op :: "nat \<Rightarrow> (standings_acc \<Rightarrow> standings_acc) \<Rightarrow> bracket_op \<Rightarrow> unit dbprog" where
  "run_bracket_op n order oper = (case oper of
     BMatch mo \<Rightarrow> run_match_op n mo
   | BSlot l d \<Rightarrow> tx_bind (CreateSlot l d) (\<lambda>_. tx_ret ())
   | BConfirm i u team \<Rightarrow> tx_bind (ConfirmSlot i u team) (\<lambda>_. tx_ret ())
   | BThirds groups u \<Rightarrow> tx_bind (AutoConfirmBestThirdSlots order groups u) (\<lambda>_. tx_ret ())
   | BBackfill \<Rightarrow> BackfillSlots order
   | BHandler mf \<Rightarrow> newMatchFinishedHandler n order mf)"

text \<open>A created match must not bring teams of its own into slots, which other fixtures may refer to.\<close>
definition links_no_slots :: "bracket_op \<Rightarrow> bool" where
  "links_no_slots oper = (case oper of BMatch (OpCreate m) \<Rightarrow> m_HomeSlotID m = None \<and> m_AwaySlotID m = None | _ \<Rightarrow> True)"

lemma slot_team_frame: "db_slots s' = db_slots s \<Longrightarrow> slot_team s' = slot_team s"
  by (intro ext) (simp add: slot_team_def split: option.split)

lemma agrees_row_update:
  assumes "matches_wf s" "bracket_agrees s" "update_match_row i f s = Inr (a, s')"
    "\<And>r. get_match s i = Some r \<Longrightarrow> row_agrees s (f r)"
  shows "bracket_agrees s'"
proof (cases "get_match s i")
  case None
  then show ?thesis using assms by (simp add: update_match_row_def)
next
  case (Some r)
  then have s': "s' = s\<lparr>db_matches := update_where (\<lambda>r. m_ID r = i) f (db_matches s)\<rparr>"
    using assms(3) by (auto simp: update_match_row_def store_matches_def split: if_splits)
  have "q = r" if "q \<in> set (db_matches s)" "m_ID q = i" for q
    using that assms(1) get_match_SomeD [OF Some] unfolding matches_wf_def by (metis distinct_map inj_on_eq_iff)
  moreover have "slot_team s' = slot_team s" by (rule slot_team_frame) (simp add: s')
  ultimately show ?thesis using assms(2,4) Some by (auto simp: bracket_agrees_def row_agrees_def s' set_update_where)
qed

lemma get_match_agrees: "bracket_agrees s \<Longrightarrow> get_match s i = Some m \<Longrightarrow> row_agrees s m"
  using get_match_SomeD unfolding bracket_agrees_def by blast

lemma MatchUpdate_agrees:
  assumes "matches_wf s0" "bracket_agrees s0" "get_match s0 i = Some m" "m_ID m' = i"
    "m_HomeTeam m' = m_HomeTeam m" "m_AwayTeam m' = m_AwayTeam m"
  shows "tx_valid (\<lambda>s. s = s0) (MatchUpdate m') (\<lambda>_. bracket_agrees) (\<lambda>_. bracket_agrees)"
proof -
  have "row_agrees s0 (match_set m' m)"
    using get_match_agrees [OF assms(2,3)] assms(5,6) by (simp add: row_agrees_def match_set_def)
  then have upd: "bracket_agrees s" if "update_match_row i (match_set m') s0 = Inr (a, s)" for a s
    using agrees_row_update [OF assms(1,2) that] assms(3) by simp
  show ?thesis unfolding MatchUpdate_def found_match_def assms(4)
    by (intro tx_valid_bind [where R = "\<lambda>_. bracket_agrees"] tx_rules) (use assms(2) upd in auto)
qed

lemma GetMatch_then:
  assumes "bracket_agrees s0" "\<And>m. get_match s0 i = Some m \<Longrightarrow>
     tx_valid (\<lambda>s. s = s0) (p m) (\<lambda>_. bracket_agrees) (\<lambda>_. bracket_agrees)"
  shows "tx_valid (\<lambda>s. s = s0) (tx_bind (GetMatch i) p) (\<lambda>_. bracket_agrees) (\<lambda>_. bracket_agrees)"
proof -
  have "tx_valid (\<lambda>s. s = s0 \<and> get_match s0 i = Some m) (p m) (\<lambda>_. bracket_agrees) (\<lambda>_. bracket_agrees)" for m
    using assms(2) [of m] by (cases "get_match s0 i = Some m") simp_all
  then show ?thesis
    by (intro tx_valid_bind [where R = "\<lambda>m s. s = s0 \<and> get_match s0 i = Some m"] tx_valid_weaken [OF GetMatch_valid [of s0 i]])
      (simp_all add: assms(1))
qed

lemma tx_valid_then_keeps:
  "tx_valid P m (\<lambda>_. I) (\<lambda>_. I) \<Longrightarrow> (\<And>a. tx_keeps I (f a)) \<Longrightarrow> tx_valid P (tx_bind m f) (\<lambda>_. I) (\<lambda>_. I)"
  unfolding tx_keeps_def by (rule tx_valid_bind)

lemma applyScoreAndPublish_agrees:
  assumes "matches_wf s0" "bracket_agrees s0" "get_match s0 i = Some m"
  shows "tx_valid (\<lambda>s. s = s0) (applyScoreAndPublish n m sc) (\<lambda>_. bracket_agrees) (\<lambda>_. bracket_agrees)"
  unfolding applyScoreAndPublish_def
  by (intro tx_valid_if tx_valid_err tx_valid_then_keeps MatchUpdate_agrees [OF assms] tx_keep)
    (use assms get_match_SomeD in \<open>auto simp: set_result_def\<close>)

lemma match_op_agrees:
  assumes wf: "matches_wf s0" and I: "bracket_agrees s0" and links: "links_no_slots (BMatch oper)"
  shows "tx_valid (\<lambda>s. s = s0) (run_match_op n oper) (\<lambda>_. bracket_agrees) (\<lambda>_. bracket_agrees)"
proof (cases oper)
  case (OpCreate m)
  have ins: "bracket_agrees s" if "match_insert (m\<lparr>m_Status := st\<rparr>) s0 = Inr (a, s)" for a s st
  proof -
    have "s = s0\<lparr>db_seq := db_seq s0 + 1, db_matches := db_matches s0 @ [inserted_row (db_seq s0) (m\<lparr>m_Status := st\<rparr>)]\<rparr>"
      using that by (auto simp: match_insert_def store_matches_def Let_def split: if_splits)
    moreover then have "slot_team s = slot_team s0" by (intro slot_team_frame) simp
    ultimately show ?thesis
      using I links by (auto simp: bracket_agrees_def row_agrees_def inserted_row_def links_no_slots_def OpCreate)
  qed
  have none: "fill_slot None t = tx_ret ()" for t by (simp add: fill_slot_def)
  have "tx_valid (\<lambda>s. s = s0) (CreateMatch m) (\<lambda>_. bracket_agrees) (\<lambda>_. bracket_agrees)"
    unfolding CreateMatch_def MatchCreate_def
    by (intro tx_valid_bind [where R = "\<lambda>_ s. s = s0"] tx_valid_lift tx_valid_withTx
        tx_valid_bind [where R = "\<lambda>_. bracket_agrees"] tx_valid_stmt)
      (use I ins links in \<open>auto simp: none links_no_slots_def OpCreate intro!: tx_rules\<close>)
  then show ?thesis by (auto simp: OpCreate run_match_op_def intro: tx_valid_then_keeps tx_keep)
next
  case (OpStart i)
  show ?thesis unfolding OpStart run_match_op_def match_op.case StartMatch_def
    by (intro tx_valid_then_keeps GetMatch_then I tx_valid_if tx_valid_err MatchUpdate_agrees [OF wf I] tx_keep)
      (use I get_match_SomeD in auto)
next
  case (OpResult i sc)
  show ?thesis unfolding OpResult run_match_op_def match_op.case UpdateResult_def
    by (intro tx_valid_then_keeps tx_valid_bind [where R = "\<lambda>_ s. s = s0" and m = "tx_lift _"] tx_valid_lift GetMatch_then I tx_valid_if
        tx_valid_err applyScoreAndPublish_agrees [OF wf I] tx_keep) (use I in auto)
next
  case (OpCorrect i sc)
  show ?thesis unfolding OpCorrect run_match_op_def match_op.case CorrectResult_def
    by (intro tx_valid_then_keeps tx_valid_bind [where R = "\<lambda>_ s. s = s0" and m = "tx_lift _"] tx_valid_lift GetMatch_then I tx_valid_if
        tx_valid_err applyScoreAndPublish_agrees [OF wf I] tx_keep) (use I in auto)
next
  case (OpCancel i)
  show ?thesis unfolding OpCancel run_match_op_def match_op.case CancelMatch_def
    by (intro tx_valid_then_keeps GetMatch_then I tx_valid_if tx_valid_err MatchUpdate_agrees [OF wf I] tx_keep)
      (use I get_match_SomeD in auto)
next
  case (OpSlots i h a)
  have "bracket_agrees s" if "match_link_slots i h a s0 = Inr (r, s)" for r s
    by (rule agrees_row_update [OF wf I, of i _ r])
      (use that in \<open>auto simp: match_link_slots_def row_agrees_def split: if_splits option.splits\<close>)
  then show ?thesis unfolding OpSlots run_match_op_def match_op.case UpdateSlots_def found_match_def
    by (intro tx_valid_then_keeps tx_valid_exec tx_keep) (use I in auto)
next
  case (OpKickoff i t)
  have "bracket_agrees s" if "update_match_row i (\<lambda>r. r\<lparr>m_KickoffAt := t\<rparr>) s0 = Inr (r, s)" for r s
    by (rule agrees_row_update [OF wf I that]) (use get_match_agrees [OF I] in \<open>simp add: row_agrees_def\<close>)
  then show ?thesis unfolding OpKickoff run_match_op_def match_op.case UpdateKickoff_def
    by (intro tx_valid_then_keeps tx_valid_exec tx_keep) (use I in auto)
next
  case (OpLive i p h a)
  have "bracket_agrees s" if "update_match_row i (\<lambda>r. r\<lparr>m_Period := p, m_PenaltyHomeScore := h, m_PenaltyAwayScore := a\<rparr>) s0 = Inr (r, s)" for r s
    by (rule agrees_row_update [OF wf I that]) (use get_match_agrees [OF I] in \<open>simp add: row_agrees_def\<close>)
  then show ?thesis unfolding OpLive run_match_op_def match_op.case UpdateLiveProgress_def
    by (intro tx_valid_then_keeps tx_valid_exec tx_keep) (use I in auto)
qed

definition bracket_inv :: "db \<Rightarrow> bool" where
  "bracket_inv s \<longleftrightarrow> matches_wf s \<and> bracket_agrees s"

lemma tx_keeps_conj: "tx_keeps I m \<Longrightarrow> tx_keeps J m \<Longrightarrow> tx_keeps (\<lambda>s. I s \<and> J s) m"
  by (rule tx_keepsI) (blast dest: tx_keepsD)

lemma CreateSlot_keeps: "tx_keeps bracket_inv (CreateSlot l d)"
proof -
  have "bracket_inv s'" if I: "bracket_inv s" and ins: "slot_insert l d s = Inr (a, s')" for s a s'
  proof -
    have s': "db_matches s' = db_matches s" "db_seq s' = db_seq s + 1" "\<exists>t. ts_Team t = None \<and> db_slots s' = db_slots s @ [t]"
      using ins by (auto simp: slot_insert_def Let_def split: if_splits)
    have "slot_team s' = slot_team s"
      using s'(3) by (intro ext) (auto simp: slot_team_def find_append split: option.splits)
    then show ?thesis using I s'(1,2) by (auto simp: bracket_inv_def matches_wf_def bracket_agrees_def row_agrees_def)
  qed
  then show ?thesis unfolding CreateSlot_def SlotCreate_def by (intro tx_keep)
qed

lemma bracket_op_keeps:
  assumes "links_no_slots oper"
  shows "tx_keeps bracket_inv (run_bracket_op n order oper)"
proof (cases oper)
  case (BMatch mo)
  show ?thesis
  proof (rule tx_keepsI)
    fix fs s r fs' s' assume I: "bracket_inv s" and run: "run_bracket_op n order oper fs s = (r, fs', s')"
    then have wf: "matches_wf s" and ag: "bracket_agrees s" by (simp_all add: bracket_inv_def)
    have "matches_wf s'" using match_op_step [OF wf, of mo n fs] run by (simp add: BMatch run_bracket_op_def table_step_def)
    moreover have "bracket_agrees s'"
      using tx_validD [OF match_op_agrees [OF wf ag assms [unfolded BMatch], of n] refl, of fs] run
      by (cases r) (simp_all add: BMatch run_bracket_op_def)
    ultimately show "bracket_inv s'" by (simp add: bracket_inv_def)
  qed
next
  case (BSlot l d)
  then show ?thesis by (auto simp: run_bracket_op_def intro!: tx_keep CreateSlot_keeps)
next
  case (BConfirm i u team)
  then show ?thesis unfolding bracket_inv_def
    by (auto simp: run_bracket_op_def ConfirmSlot_def intro!: tx_keeps_conj tx_keep)
next
  case (BThirds groups u)
  have "tx_keeps bracket_agrees (AutoConfirmBestThirdSlots order groups u)" "tx_keeps matches_wf (AutoConfirmBestThirdSlots order groups u)"
    unfolding AutoConfirmBestThirdSlots_def ListByPhase_def ListSlots_def Let_def
    by (intro tx_keep confirm_thirds_agrees confirm_thirds_wf)+
  then show ?thesis unfolding bracket_inv_def BThirds run_bracket_op_def bracket_op.case by (intro tx_keeps_conj tx_keep)
next
  case BBackfill
  then show ?thesis unfolding bracket_inv_def BBackfill run_bracket_op_def bracket_op.case
      BackfillSlots_def backfill_phase_def backfill_match_def ListByPhase_def by (intro tx_keeps_conj tx_keep)
next
  case (BHandler mf)
  then show ?thesis unfolding bracket_inv_def BHandler run_bracket_op_def bracket_op.case
      newMatchFinishedHandler_def runSlotAutoConfirm_def by (intro tx_keeps_conj tx_keep)
qed



section \<open>From the result to the points\<close>

lemma AutoConfirmSlot_frame [tx_keep]:
  assumes "\<And>s f. g (db_slots_update f s) = g s" "\<And>s f. g (db_matches_update f s) = g s"
  shows "tx_keeps (\<lambda>s. g s = x) (AutoConfirmSlot i team)"
  unfolding AutoConfirmSlot_def propagate_home_def propagate_away_def slot_update_def
  by (intro tx_keep) (auto simp: assms store_matches_def split: if_splits option.splits)

lemma runSlotAutoConfirm_keeps:
  assumes "\<And>s f. g (db_slots_update f s) = g s" "\<And>s f. g (db_matches_update f s) = g s"
  shows "tx_keeps (\<lambda>s. g s = x) (runSlotAutoConfirm order mf)"
  unfolding runSlotAutoConfirm_def AutoConfirmGroupSlots_def AutoConfirmMatchResultSlots_def autoConfirmBySource_def
    FindSlotByAutoSource_def ListByGroupLabel_def Let_def
  by (intro tx_keep assms)

lemma UpdateResult_stored:
  assumes "UpdateResult n i sc fs s = (Inr (m', Some ev), fs', s')"
  shows "get_match s' i = Some m' \<and> mf_MatchID ev = i \<and> m_Status m' = MatchStatusFinished \<and>
    m_HomeScore m' = Some (su_HomeScore sc) \<and> m_AwayScore m' = Some (su_AwayScore sc) \<and>
    m_WinMethod m' = su_WinMethod sc \<and> m_PenaltyWinner m' = su_PenaltyWinner sc \<and> db_predictions s' = db_predictions s \<and>
    ev = finished_event sc m' \<and> \<not> penalty_winner_missing sc"
proof -
  obtain m fs1 fs2 where m: "get_match s i = Some m" and pw: "\<not> penalty_winner_missing sc"
    and upd: "MatchUpdate (set_result sc m) fs1 s = (Inr m', fs2, s')" and ev: "ev = finished_event sc m'"
    using assms by (auto simp: UpdateResult_def GetMatch_def applyScoreAndPublish_def tx_runs Publish_def split: if_splits option.splits)
  have id: "m_ID (set_result sc m) = i" using get_match_SomeD [OF m] by (simp add: set_result_def)
  have u: "update_match_row i (match_set (set_result sc m)) s = Inr (Some m', s')"
    using upd by (auto simp: MatchUpdate_def found_match_def tx_runs id split: option.splits)
  have m': "m' = match_set (set_result sc m) m" and s': "s' = s\<lparr>db_matches := update_where (\<lambda>r. m_ID r = i) (match_set (set_result sc m)) (db_matches s)\<rparr>"
    using u m by (auto simp: update_match_row_def store_matches_def split: if_splits)
  have "get_match s' i = Some m'"
    using m unfolding get_match_def s' by (simp add: find_update_where match_set_def m')
  then show ?thesis
    using get_match_SomeD pw by (auto simp: ev finished_event_def m' match_set_def set_result_def s')
qed


lemma example_score_fields:
  "su_HomeScore example_score = 2" "su_AwayScore example_score = 1" "su_WinMethod example_score = None" "su_PenaltyWinner example_score = None"
  by (simp_all add: example_score_def)

lemma example_update:
  "case fst (UpdateResult 3 7 example_score [] example_live_db) of Inr (m, Some ev) \<Rightarrow>
     is_ok (fst (newMatchFinishedHandler 3 rev ev [] (snd (snd (UpdateResult 3 7 example_score [] example_live_db)))))
   | _ \<Rightarrow> False"
  by code_simp

lemma example_update_run:
  obtains m ev fs1 s1 fs3 s2 where "UpdateResult 3 7 example_score [] example_live_db = (Inr (m, Some ev), fs1, s1)"
    "newMatchFinishedHandler 3 rev ev [] s1 = (Inr (), fs3, s2)"
proof -
  from example_update obtain m ev fs1 s1 where u: "UpdateResult 3 7 example_score [] example_live_db = (Inr (m, Some ev), fs1, s1)"
    by (cases "UpdateResult 3 7 example_score [] example_live_db") (auto split: sum.splits option.splits prod.splits)
  moreover from this example_update obtain fs3 s2 where "newMatchFinishedHandler 3 rev ev [] s1 = (Inr (), fs3, s2)"
    by (cases "newMatchFinishedHandler 3 rev ev [] s1") (auto simp: is_ok_iff)
  ultimately show ?thesis using that by blast
qed


text \<open>
  The event path and the backfill name the same winner. For every result that \<open>UpdateResult\<close> stored and published, with a
  penalty winner only where penalties decided, the winner and loser the worker derives from the event are those the
  backfill derives from the stored match.
\<close>
theorem worker_and_backfill_agree:
  assumes "UpdateResult n i sc fs s = (Inr (m', Some ev), fs1, s1)"
    "su_PenaltyWinner sc \<noteq> None \<longrightarrow> su_WinMethod sc = Some WinMethodPenalties"
  shows "knockoutWinnerLoser ev = slotWinnerLoser m'"
  using UpdateResult_stored [OF assms(1)] assms(2)
  by (auto simp: knockoutWinnerLoser_def slotWinnerLoser_def finished_event_def penalty_winner_missing_def derefString_def
      split: option.splits)

theorem worker_and_backfill_agree_witness:
  "\<exists>ev m. knockoutWinnerLoser ev = slotWinnerLoser m \<and> slotWinnerLoser m = (''GUA'', ''MEX'')"
proof -
  obtain m ev fs1 s1 fs3 s2 where run: "UpdateResult 3 7 example_score [] example_live_db = (Inr (m, Some ev), fs1, s1)"
    "newMatchFinishedHandler 3 rev ev [] s1 = (Inr (), fs3, s2)" by (rule example_update_run)
  have "slotWinnerLoser (fst (projr (fst (UpdateResult 3 7 example_score [] example_live_db)))) = (''GUA'', ''MEX'')" by code_simp
  then have "slotWinnerLoser m = (''GUA'', ''MEX'')" using run by simp
  moreover have "knockoutWinnerLoser ev = slotWinnerLoser m"
    by (rule worker_and_backfill_agree [OF run(1)]) (simp add: example_score_def)
  ultimately show ?thesis by blast
qed

end
