(* ===== verification/Ledger.thy ===== *)
theory Ledger
  imports Ranking
begin

text \<open>
  Account balances and the balance ledger (\<^verbatim>\<open>repository/balance_ledger_repository.go\<close>). Every change of a
  balance is an \<^verbatim>\<open>UPDATE users\<close> followed by one appended ledger row in the same transaction. The statements
  carry the 32-bit columns (22003), the non-negativity checks (23514), the foreign keys (23503) and the
  unique index on the reference (23505). The client address stored with a row is left out.
\<close>

section \<open>Statements\<close>

text \<open>
  \<^verbatim>\<open>UPDATE users SET ... WHERE id = $1 AND deleted_at IS NULL AND guard RETURNING\<close>: no row, or the row as written.
\<close>
definition user_update :: "int \<Rightarrow> (User \<Rightarrow> bool) \<Rightarrow> (User \<Rightarrow> User) \<Rightarrow> db \<Rightarrow> go_error + User option \<times> db" where
  "user_update i guard f s = (case db_users s i of
     None \<Rightarrow> Inr (None, s)
   | Some u \<Rightarrow>
       if u_DeletedAt u \<noteq> None \<or> \<not> guard u then Inr (None, s)
       else let u' = f u in
         if \<not> in_int32 (u_BalanceCents u') \<or> \<not> in_int32 (u_ReservedCents u') then Inl (PgError ''22003'')
         else if u_BalanceCents u' < 0 \<or> u_ReservedCents u' < 0 then Inl (PgError ''23514'')
         else Inr (Some u', s\<lparr>db_users := (db_users s)(i \<mapsto> u')\<rparr>))"

definition add_balance :: "int \<Rightarrow> User \<Rightarrow> User" where
  "add_balance delta u = u\<lparr>u_BalanceCents := u_BalanceCents u + delta\<rparr>"

text \<open>The payload of one ledger row; zero and empty values are stored as null.\<close>
record ledgerRow =
  lrow_UserID :: int
  lrow_DeltaCents :: int
  lrow_Kind :: BalanceLedgerKind
  lrow_BalanceAfter :: int
  lrow_RefID :: int
  lrow_RefType :: string
  lrow_Reference :: string
  lrow_CreatorID :: int
  lrow_SourceCurrency :: string
  lrow_SourceAmountCents :: int

definition null_int :: "int \<Rightarrow> int option" where
  "null_int n = (if n \<noteq> 0 then Some n else None)"

definition null_string :: "string \<Rightarrow> string option" where
  "null_string t = (if t \<noteq> [] then Some t else None)"

definition user_exists :: "db \<Rightarrow> int option \<Rightarrow> bool" where
  "user_exists s i = (case i of None \<Rightarrow> True | Some k \<Rightarrow> db_users s k \<noteq> None)"

definition fits_int4 :: "int option \<Rightarrow> bool" where
  "fits_int4 n = (case n of None \<Rightarrow> True | Some v \<Rightarrow> in_int32 v)"

definition ledger_row_of :: "int \<Rightarrow> time \<Rightarrow> ledgerRow \<Rightarrow> BalanceLedger" where
  "ledger_row_of i now e = \<lparr>bl_ID = i, bl_UserID = lrow_UserID e, bl_DeltaCents = lrow_DeltaCents e, bl_Kind = lrow_Kind e,
     bl_BalanceAfter = lrow_BalanceAfter e, bl_RefID = null_int (lrow_RefID e), bl_RefType = null_string (lrow_RefType e),
     bl_Reference = null_string (lrow_Reference e), bl_CreatedBy = null_int (lrow_CreatorID e),
     bl_SourceCurrency = null_string (lrow_SourceCurrency e), bl_SourceAmountCents = null_int (lrow_SourceAmountCents e),
     bl_CreatedAt = now\<rparr>"

text \<open>The columns and constraints of the table, the unique index apart.\<close>
definition ledger_checks :: "db \<Rightarrow> BalanceLedger \<Rightarrow> go_error option" where
  "ledger_checks s r =
    (if \<not> in_int32 (bl_DeltaCents r) \<or> \<not> in_int32 (bl_BalanceAfter r) \<or> \<not> fits_int4 (bl_SourceAmountCents r)
       then Some (PgError ''22003'')
     else if bl_BalanceAfter r < 0 then Some (PgError ''23514'')
     else if \<not> user_exists s (Some (bl_UserID r)) \<or> \<not> user_exists s (bl_CreatedBy r) then Some (PgError ''23503'')
     else None)"

definition reference_used :: "db \<Rightarrow> string option \<Rightarrow> bool" where
  "reference_used s r \<longleftrightarrow> r \<noteq> None \<and> r \<in> set (map bl_Reference (db_ledger s))"

definition ledger_append :: "BalanceLedger \<Rightarrow> db \<Rightarrow> db" where
  "ledger_append r s = s\<lparr>db_seq := db_seq s + 1, db_ledger := db_ledger s @ [r]\<rparr>"

definition ledger_insert :: "ledgerRow \<Rightarrow> db \<Rightarrow> go_error + unit \<times> db" where
  "ledger_insert e s = (let r = ledger_row_of (db_seq s) (db_now s) e in
     case ledger_checks s r of
       Some err \<Rightarrow> Inl err
     | None \<Rightarrow> if reference_used s (bl_Reference r) then Inl (PgError ''23505'') else Inr ((), ledger_append r s))"

definition insertLedgerTx :: "ledgerRow \<Rightarrow> unit dbprog" where
  "insertLedgerTx e = tx_exec (ledger_insert e)"

section \<open>Operations\<close>

definition user_found :: "User option \<Rightarrow> User dbprog" where
  "user_found r = (case r of None \<Rightarrow> tx_err (NotFound ''user not found'') | Some u \<Rightarrow> tx_ret u)"

definition Credit :: "nat \<Rightarrow> int \<Rightarrow> int \<Rightarrow> BalanceLedgerKind \<Rightarrow> int \<Rightarrow> string \<Rightarrow> int \<Rightarrow> unit dbprog" where
  "Credit maxAttempts userID deltaCents kind refID refType creatorID = withRetryTx () maxAttempts (
     tx_bind (tx_exec (user_update userID (\<lambda>_. True) (add_balance deltaCents))) (\<lambda>r.
     tx_bind (user_found r) (\<lambda>u.
     insertLedgerTx \<lparr>lrow_UserID = userID, lrow_DeltaCents = deltaCents, lrow_Kind = kind, lrow_BalanceAfter = u_BalanceCents u,
       lrow_RefID = refID, lrow_RefType = refType, lrow_Reference = [], lrow_CreatorID = creatorID,
       lrow_SourceCurrency = [], lrow_SourceAmountCents = 0\<rparr>)))"

definition SumTransactionsByUserAndPeriod :: "int \<Rightarrow> BalanceLedgerKind list \<Rightarrow> time \<Rightarrow> int dbprog" where
  "SumTransactionsByUserAndPeriod userID kinds since = tx_query (\<lambda>s.
     \<Sum>r\<leftarrow>filter (\<lambda>r. bl_UserID r = userID \<and> bl_Kind r \<in> set kinds \<and> bl_CreatedAt r \<ge> since) (db_ledger s). \<bar>bl_DeltaCents r\<bar>)"

definition creditUserWithCurrencyTx :: "int \<Rightarrow> int \<Rightarrow> string option \<Rightarrow> int dbprog" where
  "creditUserWithCurrencyTx userID deltaCents srcCur =
     tx_bind (tx_exec (user_update userID (\<lambda>_. True) (\<lambda>u. (add_balance deltaCents u)
       \<lparr>u_BalanceCurrency := (case srcCur of Some c \<Rightarrow> c | None \<Rightarrow> u_BalanceCurrency u)\<rparr>))) (\<lambda>r.
     tx_bind (user_found r) (\<lambda>u. tx_ret (u_BalanceCents u)))"

text \<open>Step 1 of \<^verbatim>\<open>CreditIdempotent\<close>: \<^verbatim>\<open>INSERT ... ON CONFLICT (reference) DO NOTHING RETURNING id\<close>.\<close>
definition ledger_claim :: "ledgerRow \<Rightarrow> db \<Rightarrow> go_error + int option \<times> db" where
  "ledger_claim e s = (let r = ledger_row_of (db_seq s) (db_now s) e in
     if ledger_checks s r = Some (PgError ''22003'') then Inl (PgError ''22003'')
     else if reference_used s (bl_Reference r) then Inr (None, s)
     else case ledger_checks s r of
       Some err \<Rightarrow> Inl err
     | None \<Rightarrow> Inr (Some (bl_ID r), ledger_append r s))"

definition claim_error :: "go_error \<Rightarrow> app_error" where
  "claim_error e = (if e = PgError ''23503'' then NotFound ''user not found'' else Internal e)"

definition ledger_backfill :: "int \<Rightarrow> int \<Rightarrow> db \<Rightarrow> go_error + unit \<times> db" where
  "ledger_backfill i balanceAfter s =
    (if \<not> in_int32 balanceAfter then Inl (PgError ''22003'')
     else if balanceAfter < 0 \<and> i \<in> set (map bl_ID (db_ledger s)) then Inl (PgError ''23514'')
     else Inr ((), s\<lparr>db_ledger := update_where (\<lambda>r. bl_ID r = i) (\<lambda>r. r\<lparr>bl_BalanceAfter := balanceAfter\<rparr>) (db_ledger s)\<rparr>))"

definition claim_row :: "int \<Rightarrow> int \<Rightarrow> BalanceLedgerKind \<Rightarrow> string \<Rightarrow> string \<Rightarrow> int \<Rightarrow> ledgerRow" where
  "claim_row userID deltaCents kind reference sourceCurrency sourceAmountCents =
     \<lparr>lrow_UserID = userID, lrow_DeltaCents = deltaCents, lrow_Kind = kind, lrow_BalanceAfter = 0, lrow_RefID = 0, lrow_RefType = [],
      lrow_Reference = reference, lrow_CreatorID = 0, lrow_SourceCurrency = sourceCurrency, lrow_SourceAmountCents = sourceAmountCents\<rparr>"

definition CreditIdempotent ::
  "nat \<Rightarrow> int \<Rightarrow> int \<Rightarrow> BalanceLedgerKind \<Rightarrow> string \<Rightarrow> string \<Rightarrow> int \<Rightarrow> bool dbprog" where
  "CreditIdempotent maxAttempts userID deltaCents kind reference sourceCurrency sourceAmountCents =
    (if reference = [] then tx_err (Validation ''reference is required for idempotent credit'')
     else withRetryTx False maxAttempts (
       tx_bind (tx_stmt claim_error (ledger_claim (claim_row userID deltaCents kind reference sourceCurrency sourceAmountCents))) (\<lambda>r.
       case r of
         None \<Rightarrow> tx_ret False
       | Some insertedID \<Rightarrow>
           tx_bind (creditUserWithCurrencyTx userID deltaCents (null_string sourceCurrency)) (\<lambda>balanceAfter.
           tx_bind (tx_exec (ledger_backfill insertedID balanceAfter)) (\<lambda>_.
           tx_ret True)))))"

definition insufficientOrNotFound :: "int \<Rightarrow> 'a dbprog" where
  "insufficientOrNotFound userID =
     tx_bind (tx_query (\<lambda>s. case db_users s userID of None \<Rightarrow> False | Some u \<Rightarrow> u_DeletedAt u = None)) (\<lambda>exists.
       if \<not> exists then tx_err (NotFound ''user not found'') else tx_err (Conflict ''insufficient available balance''))"

section \<open>The books\<close>

definition user_sum :: "int \<Rightarrow> BalanceLedger list \<Rightarrow> int" where
  "user_sum i rows = (\<Sum>r\<leftarrow>filter (\<lambda>r. bl_UserID r = i) rows. bl_DeltaCents r)"

text \<open>Every row records the running total of its account.\<close>
definition running_totals :: "BalanceLedger list \<Rightarrow> bool" where
  "running_totals rows \<longleftrightarrow> (\<forall>k<length rows. bl_BalanceAfter (rows ! k) = user_sum (bl_UserID (rows ! k)) (take (Suc k) rows))"

text \<open>
  The books balance: every account equals the sum of its ledger rows, within the range of the column; the
  rows record running totals; ids and references are unique.
\<close>
definition books :: "db \<Rightarrow> bool" where
  "books s \<longleftrightarrow> (\<forall>i u. db_users s i = Some u \<longrightarrow> u_BalanceCents u = user_sum i (db_ledger s) \<and>
       0 \<le> u_BalanceCents u \<and> in_int32 (u_BalanceCents u)) \<and>
     running_totals (db_ledger s) \<and> (\<forall>r\<in>set (db_ledger s). bl_ID r < db_seq s) \<and>
     distinct (map bl_Reference (filter (\<lambda>r. bl_Reference r \<noteq> None) (db_ledger s)))"

lemma user_sum_simps [simp]:
  "user_sum i [] = 0" "user_sum i (r # rows) = (if bl_UserID r = i then bl_DeltaCents r else 0) + user_sum i rows"
  "user_sum i (xs @ ys) = user_sum i xs + user_sum i ys"
  by (simp_all add: user_sum_def)

lemma running_totals_snoc:
  "running_totals (rows @ [r]) \<longleftrightarrow> running_totals rows \<and> bl_BalanceAfter r = user_sum (bl_UserID r) rows + bl_DeltaCents r"
  by (auto simp: running_totals_def nth_append less_Suc_eq)

text \<open>
  A posting: one account changes by \<open>d\<close> and one row that says so is appended; no other account changes.
\<close>
definition posting :: "int \<Rightarrow> int \<Rightarrow> db \<Rightarrow> db \<Rightarrow> bool" where
  "posting i d s s' \<longleftrightarrow> (\<exists>u u' r. db_users s i = Some u \<and> u_DeletedAt u = None \<and> db_users s' = (db_users s)(i \<mapsto> u') \<and>
     u_BalanceCents u' = u_BalanceCents u + d \<and> 0 \<le> u_BalanceCents u' \<and> in_int32 (u_BalanceCents u') \<and>
     db_ledger s' = db_ledger s @ [r] \<and> bl_UserID r = i \<and> bl_DeltaCents r = d \<and> bl_BalanceAfter r = u_BalanceCents u' \<and>
     db_seq s \<le> bl_ID r \<and> bl_ID r < db_seq s' \<and> \<not> reference_used s (bl_Reference r))"

lemma booksD:
  assumes "books s" "db_users s i = Some u"
  shows "u_BalanceCents u = user_sum i (db_ledger s)" "0 \<le> u_BalanceCents u" "in_int32 (u_BalanceCents u)"
  using assms unfolding books_def by blast+

lemma posting_books:
  assumes "books s" "posting i d s s'"
  shows "books s'"
proof -
  obtain u u' r where p: "db_users s i = Some u" "db_users s' = (db_users s)(i \<mapsto> u')"
     "u_BalanceCents u' = u_BalanceCents u + d" "0 \<le> u_BalanceCents u'" "in_int32 (u_BalanceCents u')"
     "db_ledger s' = db_ledger s @ [r]" "bl_UserID r = i" "bl_DeltaCents r = d" "bl_BalanceAfter r = u_BalanceCents u'"
     "db_seq s \<le> bl_ID r" "bl_ID r < db_seq s'" "\<not> reference_used s (bl_Reference r)"
    using assms(2) unfolding posting_def by blast
  have old: "u_BalanceCents u = user_sum i (db_ledger s)" using assms(1) p(1) by (simp add: books_def)
  have "u_BalanceCents x = user_sum k (db_ledger s') \<and> 0 \<le> u_BalanceCents x \<and> in_int32 (u_BalanceCents x)"
    if "db_users s' k = Some x" for k x
  proof (cases "k = i")
    case True
    then show ?thesis using that p old by simp
  next
    case False
    then show ?thesis using that booksD [OF assms(1), of k x] p(2,6,7) by simp
  qed
  moreover have "running_totals (db_ledger s')" using assms(1) p old by (simp add: books_def running_totals_snoc)
  moreover have "\<forall>r\<in>set (db_ledger s'). bl_ID r < db_seq s'" using assms(1) p(6,10,11) by (auto simp: books_def)
  moreover have "distinct (map bl_Reference (filter (\<lambda>r. bl_Reference r \<noteq> None) (db_ledger s')))"
    using assms(1) p(6,12) by (auto simp: books_def reference_used_def)
  ultimately show ?thesis unfolding books_def by blast
qed

text \<open>What every statement that is not a posting leaves alone.\<close>
definition accounts :: "db \<Rightarrow> int \<rightharpoonup> int" where
  "accounts s = (\<lambda>i. map_option u_BalanceCents (db_users s i))"

lemma books_frame:
  assumes "books s" "accounts s' = accounts s" "db_ledger s' = db_ledger s" "db_seq s \<le> db_seq s'"
  shows "books s'"
proof -
  have "\<exists>x. db_users s i = Some x \<and> u_BalanceCents x = u_BalanceCents u" if "db_users s' i = Some u" for i u
    using fun_cong [OF assms(2), of i] that by (cases "db_users s i") (simp_all add: accounts_def)
  then show ?thesis using assms by (fastforce simp: books_def)
qed

section \<open>The two halves of a posting\<close>

lemma user_update_Some:
  assumes "user_update i g f s = Inr (Some u', s')"
  obtains u where "db_users s i = Some u" "u_DeletedAt u = None" "g u" "u' = f u" "s' = s\<lparr>db_users := (db_users s)(i \<mapsto> u')\<rparr>"
    "0 \<le> u_BalanceCents u'" "in_int32 (u_BalanceCents u')" "0 \<le> u_ReservedCents u'"
  using assms by (auto simp: user_update_def Let_def split: option.splits if_splits)

lemma user_update_None: "user_update i g f s = Inr (None, s') \<Longrightarrow> s' = s"
  by (auto simp: user_update_def Let_def split: option.splits if_splits)

lemma user_found_run [tx_runs]: "user_found r fs s = (Inr u, fs', s') \<longleftrightarrow> r = Some u \<and> fs' = fs \<and> s' = s"
  by (auto simp: user_found_def tx_runs split: option.splits)

lemma insertLedgerTx_run [tx_runs]:
  "insertLedgerTx e fs s = (Inr x, fs', s') \<longleftrightarrow> next_fault fs = (None, fs') \<and> ledger_insert e s = Inr (x, s')"
  by (simp add: insertLedgerTx_def tx_runs)

lemma ledger_insert_run:
  assumes "ledger_insert e s = Inr (x, s')"
  shows "s' = ledger_append (ledger_row_of (db_seq s) (db_now s) e) s"
    "\<not> reference_used s (bl_Reference (ledger_row_of (db_seq s) (db_now s) e))"
  using assms by (auto simp: ledger_insert_def Let_def split: option.splits if_splits)

text \<open>
  An update of an account and, after statements that leave accounts and ledger alone, the matching
  ledger row are a posting.
\<close>
lemma posting_by:
  assumes upd: "user_update i g f s = Inr (Some u', s1)"
    and mid: "db_users s2 = db_users s1" "db_ledger s2 = db_ledger s1" "db_seq s1 \<le> db_seq s2"
    and ins: "ledger_insert e s2 = Inr (x, s3)"
    and row: "lrow_UserID e = i" "lrow_DeltaCents e = d" "lrow_BalanceAfter e = u_BalanceCents u'"
    and bal: "\<And>u. u_BalanceCents (f u) = u_BalanceCents u + d"
  shows "posting i d s s3"
proof -
  obtain u where u: "db_users s i = Some u" "u_DeletedAt u = None" "u' = f u" "s1 = s\<lparr>db_users := (db_users s)(i \<mapsto> u')\<rparr>"
    "0 \<le> u_BalanceCents u'" "in_int32 (u_BalanceCents u')" by (rule user_update_Some [OF upd])
  have "reference_used s2 = reference_used s" using mid(2) u(4) by (intro ext) (simp add: reference_used_def)
  then show ?thesis
    using u mid row bal ledger_insert_run [OF ins] unfolding posting_def ledger_append_def
    by (intro exI [of _ u] exI [of _ u'] exI [of _ "ledger_row_of (db_seq s2) (db_now s2) e"]) (simp add: ledger_row_of_def)
qed

section \<open>Operations on money\<close>

text \<open>A step of the bank: a posting, or a change that touches neither accounts nor ledger.\<close>
definition quiet :: "db \<Rightarrow> db \<Rightarrow> bool" where
  "quiet s s' \<longleftrightarrow> accounts s' = accounts s \<and> db_ledger s' = db_ledger s \<and> db_seq s \<le> db_seq s'"

definition bank_step :: "db \<Rightarrow> db \<Rightarrow> bool" where
  "bank_step s s' \<longleftrightarrow> quiet s s' \<or> (\<exists>i d. posting i d s s')"

lemma bank_stepI: "posting i d s s' \<Longrightarrow> bank_step\<^sup>*\<^sup>* s s'" "quiet s s' \<Longrightarrow> bank_step\<^sup>*\<^sup>* s s'"
  "posting i d s s1 \<Longrightarrow> quiet s1 s' \<Longrightarrow> bank_step\<^sup>*\<^sup>* s s'"
  unfolding bank_step_def by (blast intro: r_into_rtranclp converse_rtranclp_into_rtranclp)+

lemma bank_steps_books: "bank_step\<^sup>*\<^sup>* s s' \<Longrightarrow> books s \<Longrightarrow> books s'"
  by (induction rule: rtranclp_induct) (auto simp: bank_step_def quiet_def intro: posting_books books_frame)

text \<open>The contract of an operation that moves money: it is atomic, and a success is a sequence of steps of the bank.\<close>
locale money_op = atomic_op oper for oper :: "(db, 'a) prog" +
  assumes success_steps: "books s \<Longrightarrow> oper fs s = (Inr a, fs', s') \<Longrightarrow> bank_step\<^sup>*\<^sup>* s s'"
begin

lemma keeps_books: "tx_keeps books oper"
  by (rule invariant_if_success) (use bank_steps_books success_steps in blast)

lemma runs_steps: "tx_keeps (\<lambda>s. books s \<and> bank_step\<^sup>*\<^sup>* s0 s) oper"
  by (rule invariant_if_success) (use bank_steps_books success_steps rtranclp_trans in \<open>metis (full_types)\<close>)

end

lemma withRetryTx_cases:
  assumes "withRetryTx z n fn fs s = (Inr a, fs', s')"
  obtains "s' = s" "a = z" | fs1 fs2 where "fn fs1 s = (Inr a, fs2, s')"
proof (cases n)
  case 0
  then show ?thesis using assms that(1) by simp
next
  case (Suc k)
  then show ?thesis using withRetryTx_Inr [OF assms] that(2) by blast
qed

lemma Credit_run:
  assumes "Credit n i d k ri rt c fs s = (Inr x, fs', s')"
  shows "s' = s \<or> posting i d s s'"
  using assms unfolding Credit_def
  by (auto simp: tx_runs elim!: withRetryTx_cases) (erule notE, rule posting_by, assumption, auto simp: add_balance_def)

interpretation credit: money_op "Credit n i d k ri rt c"
proof
  show "s' = s" if "Credit n i d k ri rt c fs s = (Inl e, fs', s')" for fs s e fs' s'
    using that unfolding Credit_def by (rule withRetryTx_Inl)
  show "bank_step\<^sup>*\<^sup>* s s'" if "books s" "Credit n i d k ri rt c fs s = (Inr a, fs', s')" for s fs a fs' s'
    using Credit_run [OF that(2)] by (auto intro: bank_stepI)
qed

section \<open>Idempotent credits\<close>

lemma ledger_backfill_row:
  assumes "\<forall>r\<in>set rows. bl_ID r < n" "bl_ID r = n"
  shows "update_where (\<lambda>r. bl_ID r = n) f (rows @ [r]) = rows @ [f r]"
proof -
  have "update_where (\<lambda>r. bl_ID r = n) f rows = rows" by (rule update_where_none) (use assms(1) in auto)
  then show ?thesis by (simp add: assms(2))
qed

lemma CreditIdempotent_claimed:
  assumes "books s" and claim: "ledger_claim e s = Inr (Some k, s1)" and e: "lrow_UserID e = i" "lrow_DeltaCents e = d"
    and upd: "user_update i g f s1 = Inr (Some u', s2)" "\<And>u. u_BalanceCents (f u) = u_BalanceCents u + d"
    and bf: "ledger_backfill k (u_BalanceCents u') s2 = Inr (x, s3)"
  shows "posting i d s s3" "reference_used s3 (null_string (lrow_Reference e)) \<or> lrow_Reference e = []"
proof -
  let ?r = "ledger_row_of (db_seq s) (db_now s) e"
  have c: "k = db_seq s" "s1 = ledger_append ?r s" "\<not> reference_used s (bl_Reference ?r)"
    using claim by (auto simp: ledger_claim_def Let_def ledger_row_of_def split: option.splits if_splits)
  obtain u where u: "db_users s1 i = Some u" "u_DeletedAt u = None" "u' = f u" "s2 = s1\<lparr>db_users := (db_users s1)(i \<mapsto> u')\<rparr>"
    "0 \<le> u_BalanceCents u'" "in_int32 (u_BalanceCents u')" by (rule user_update_Some [OF upd(1)])
  let ?r' = "?r\<lparr>bl_BalanceAfter := u_BalanceCents u'\<rparr>"
  have led: "db_ledger s3 = db_ledger s @ [?r']" and us: "db_users s3 = (db_users s)(i \<mapsto> u')" and sq: "db_seq s3 = db_seq s + 1"
    using bf assms(1) ledger_backfill_row [of "db_ledger s" "db_seq s" ?r]
    by (auto simp: ledger_backfill_def c(1,2) u(4) ledger_append_def books_def ledger_row_of_def split: if_splits)
  show "posting i d s s3" unfolding posting_def
    by (intro exI [of _ u] exI [of _ u'] exI [of _ ?r'])
      (use u c upd(2) e led us sq in \<open>simp add: ledger_append_def ledger_row_of_def\<close>)
  show "reference_used s3 (null_string (lrow_Reference e)) \<or> lrow_Reference e = []"
    by (auto simp: reference_used_def led ledger_row_of_def null_string_def)
qed

lemma creditUserWithCurrencyTx_run [tx_runs]:
  "creditUserWithCurrencyTx i d cur fs s = (Inr b, fs', s') \<longleftrightarrow> next_fault fs = (None, fs') \<and>
     (\<exists>u'. user_update i (\<lambda>_. True) (\<lambda>u. (add_balance d u)\<lparr>u_BalanceCurrency := (case cur of Some c \<Rightarrow> c | None \<Rightarrow> u_BalanceCurrency u)\<rparr>) s
       = Inr (Some u', s') \<and> b = u_BalanceCents u')"
  by (auto simp: creditUserWithCurrencyTx_def tx_runs)

lemma ledger_claim_None: "ledger_claim e s = Inr (None, s') \<Longrightarrow> s' = s \<and> reference_used s (null_string (lrow_Reference e))"
  by (auto simp: ledger_claim_def Let_def ledger_row_of_def split: option.splits if_splits)

text \<open>A successful run either posts the credit and claims the reference, or changes nothing because the reference was claimed.\<close>
lemma CreditIdempotent_run:
  assumes "CreditIdempotent n i d k ref cur amt fs s = (Inr b, fs', s')" "books s"
  shows "if b then posting i d s s' \<and> reference_used s' (Some ref) else s' = s \<and> (n = 0 \<or> reference_used s (Some ref))"
proof (cases "n = 0")
  case True
  then show ?thesis using assms(1) by (auto simp: CreditIdempotent_def tx_runs split: if_splits)
next
  case False
  let ?e = "claim_row i d k ref cur amt"
  have ref: "ref \<noteq> []" using assms(1) by (auto simp: CreditIdempotent_def tx_runs split: if_splits)
  obtain r fs1 fs2 s1 where claim: "ledger_claim ?e s = Inr (r, s1)"
    and rest: "(case r of None \<Rightarrow> tx_ret False | Some insertedID \<Rightarrow>
           tx_bind (creditUserWithCurrencyTx i d (null_string cur)) (\<lambda>balanceAfter.
           tx_bind (tx_exec (ledger_backfill insertedID balanceAfter)) (\<lambda>_. tx_ret True))) fs1 s1 = (Inr b, fs2, s')"
    using assms(1) ref False by (auto simp: CreditIdempotent_def tx_runs dest!: withRetryTx_Inr)
  show ?thesis
  proof (cases r)
    case None
    then show ?thesis using claim rest ref ledger_claim_None [of ?e s s1] by (auto simp: tx_runs claim_row_def null_string_def)
  next
    case (Some kk)
    then obtain u' s2 x where u: "user_update i (\<lambda>_. True) (\<lambda>u. (add_balance d u)\<lparr>u_BalanceCurrency :=
        (case null_string cur of Some c \<Rightarrow> c | None \<Rightarrow> u_BalanceCurrency u)\<rparr>) s1 = Inr (Some u', s2)"
      "ledger_backfill kk (u_BalanceCents u') s2 = Inr (x, s')" "b"
      using rest by (auto simp: tx_runs)
    have "posting i d s s'" "reference_used s' (null_string (lrow_Reference ?e)) \<or> lrow_Reference ?e = []"
      using CreditIdempotent_claimed [OF assms(2) claim [unfolded Some] _ _ u(1) _ u(2)] by (simp_all add: claim_row_def add_balance_def)
    then show ?thesis using ref u(3) by (simp add: claim_row_def null_string_def)
  qed
qed

lemma CreditIdempotent_error:
  "CreditIdempotent n i d k ref cur amt fs s = (Inl e, fs', s') \<Longrightarrow> s' = s"
  by (auto simp: CreditIdempotent_def tx_err_def split: if_splits dest: withRetryTx_Inl)

interpretation credit_once: money_op "CreditIdempotent n i d k ref cur amt"
proof
  show "s' = s" if "CreditIdempotent n i d k ref cur amt fs s = (Inl e, fs', s')" for fs s e fs' s'
    using that by (rule CreditIdempotent_error)
  show "bank_step\<^sup>*\<^sup>* s s'" if "books s" "CreditIdempotent n i d k ref cur amt fs s = (Inr a, fs', s')" for s fs a fs' s'
    using CreditIdempotent_run [OF that(2,1)] by (cases a) (auto intro: bank_stepI)
qed

lemma CreditIdempotent_used:
  assumes "reference_used s (Some ref)" "books s"
  shows "snd (snd (CreditIdempotent n i d k ref cur amt fs s)) = s \<and> fst (CreditIdempotent n i d k ref cur amt fs s) \<noteq> Inr True"
proof -
  obtain r fs' s' where run: "CreditIdempotent n i d k ref cur amt fs s = (r, fs', s')" by (metis prod_cases3)
  show ?thesis
  proof (cases r)
    case (Inl e)
    then show ?thesis using run CreditIdempotent_error [of n i d k ref cur amt fs s e fs' s'] by simp
  next
    case (Inr b)
    have "ref \<noteq> []" using run Inr by (auto simp: CreditIdempotent_def tx_runs split: if_splits)
    have "\<not> b"
    proof
      assume b
      with run Inr \<open>ref \<noteq> []\<close> assms(1) show False
        by (auto simp: CreditIdempotent_def tx_runs ledger_claim_def Let_def ledger_row_of_def claim_row_def null_string_def
            elim!: withRetryTx_cases split: if_splits)
    qed
    then show ?thesis using CreditIdempotent_run [OF run [unfolded Inr] assms(2)] run Inr by simp
  qed
qed

text \<open>
  C32: a webhook delivery is credited exactly once. When \<open>CreditIdempotent\<close> reports that it credited, the account has grown by
  exactly the amount and one ledger row was appended, every other account is unchanged, and from then on no
  call with the same reference, for whatever account and amount and with whatever failures, changes
  anything or reports a credit.
\<close>
theorem CreditIdempotent_exactly_once:
  assumes "books s" "CreditIdempotent n i d k ref cur amt fs s = (Inr True, fs1, s1)"
  shows "accounts s1 = (accounts s)(i := map_option (\<lambda>b. b + d) (accounts s i)) \<and> accounts s i \<noteq> None \<and>
    length (db_ledger s1) = length (db_ledger s) + 1 \<and>
    snd (snd (CreditIdempotent n' i' d' k' ref cur' amt' fs' s1)) = s1 \<and>
    fst (CreditIdempotent n' i' d' k' ref cur' amt' fs' s1) \<noteq> Inr True"
proof -
  have p: "posting i d s s1" "reference_used s1 (Some ref)" using CreditIdempotent_run [OF assms(2,1)] by simp_all
  have "books s1" using posting_books assms(1) p(1) by blast
  from CreditIdempotent_used [OF p(2) this] show ?thesis
    using p(1) by (auto simp: posting_def accounts_def fun_eq_iff)
qed

definition example_bank_db :: db where
  "example_bank_db = empty_db\<lparr>db_users := [1 \<mapsto> (example_user 1)\<lparr>u_BalanceCents := 0\<rparr>, 2 \<mapsto> (example_user 2)\<lparr>u_BalanceCents := 0\<rparr>]\<rparr>"

lemma example_bank_books: "books example_bank_db"
  by (auto simp: books_def example_bank_db_def empty_db_def running_totals_def in_int32_def split: if_splits)

theorem CreditIdempotent_exactly_once_witness:
  "accounts (snd (snd (CreditIdempotent 3 1 500 LedgerKindWebhookPayPal ''paypal:1'' ''USD'' 100 [] example_bank_db))) 1 = Some 500"
proof -
  have "fst (CreditIdempotent 3 1 500 LedgerKindWebhookPayPal ''paypal:1'' ''USD'' 100 [] example_bank_db) = Inr True" by code_simp
  from CreditIdempotent_exactly_once [OF example_bank_books run_eta [OF this]]
  show ?thesis by (simp add: accounts_def example_bank_db_def)
qed

end
