(* ===== verification/Membership.thy ===== *)
theory Membership
  imports Ledger
begin

text \<open>
  Group membership: \<^verbatim>\<open>repository/group_membership_repository.go\<close> and \<^verbatim>\<open>service/group_membership_service.go\<close>, the
  authorisation checks of \<^verbatim>\<open>service/group_authz_service.go\<close>, the membership part of
  \<^verbatim>\<open>service/admin_group_service.go\<close>, and the entry-fee records of \<^verbatim>\<open>repository/payment_record_repository.go\<close>
  and \<^verbatim>\<open>service/payment_service.go\<close>. The clock of the service is \<open>db_now\<close>. The audit log and the best-effort
  outbox events are left out. The currency conversion of the exchange-rate service is the parameter
  \<open>fx\<close>; \<open>None\<close> is a service without one.
\<close>

section \<open>Statements\<close>

definition is_active :: "int \<Rightarrow> GroupMembership \<Rightarrow> bool" where
  "is_active quinielaID g \<longleftrightarrow> gm_QuinielaID g = quinielaID \<and> gm_Status g = MembershipActive"

definition count_active :: "int \<Rightarrow> db \<Rightarrow> int" where
  "count_active quinielaID s = count_where (is_active quinielaID) (db_memberships s)"

text \<open>\<^verbatim>\<open>UPDATE group_memberships ... WHERE ... RETURNING\<close>; \<open>removed_by\<close> references \<open>users\<close>.\<close>
definition member_update ::
  "(GroupMembership \<Rightarrow> bool) \<Rightarrow> (GroupMembership \<Rightarrow> GroupMembership) \<Rightarrow> db \<Rightarrow> go_error + GroupMembership list \<times> db" where
  "member_update p f s = (let rows = map f (filter p (db_memberships s)) in
     if list_ex (\<lambda>g. \<not> user_exists s (gm_RemovedBy g)) rows then Inl (PgError ''23503'')
     else Inr (rows, s\<lparr>db_memberships := update_where p f (db_memberships s)\<rparr>))"

text \<open>\<^verbatim>\<open>INSERT INTO group_memberships\<close>: unique per group and user, both foreign keys.\<close>
definition member_insert :: "GroupMembership \<Rightarrow> db \<Rightarrow> go_error + GroupMembership \<times> db" where
  "member_insert g s = (let g' = g\<lparr>gm_ID := db_seq s, gm_RemovedAt := None, gm_RemovedBy := None, gm_CreatedAt := db_now s\<rparr> in
     if list_ex (\<lambda>x. gm_QuinielaID x = gm_QuinielaID g \<and> gm_UserID x = gm_UserID g) (db_memberships s) then Inl (PgError ''23505'')
     else if get_quiniela s (gm_QuinielaID g) = None \<or> \<not> user_exists s (Some (gm_UserID g)) then Inl (PgError ''23503'')
     else Inr (g', s\<lparr>db_seq := db_seq s + 1, db_memberships := db_memberships s @ [g']\<rparr>))"

definition quiniela_update :: "(Quiniela \<Rightarrow> bool) \<Rightarrow> (Quiniela \<Rightarrow> Quiniela) \<Rightarrow> db \<Rightarrow> go_error + Quiniela list \<times> db" where
  "quiniela_update p f s = Inr (map f (filter p (db_quinielas s)), s\<lparr>db_quinielas := update_where p f (db_quinielas s)\<rparr>)"

text \<open>\<^verbatim>\<open>QueryRow\<close> reads the first row.\<close>
definition first_row :: "'a list \<Rightarrow> 'a option" where
  "first_row rows = (case rows of [] \<Rightarrow> None | r # _ \<Rightarrow> Some r)"

definition row_or :: "app_error \<Rightarrow> 'a list \<Rightarrow> 'a dbprog" where
  "row_or e rows = (case rows of [] \<Rightarrow> tx_err e | r # _ \<Rightarrow> tx_ret r)"

section \<open>Repository\<close>

definition findQuinielaByInviteCode :: "string \<Rightarrow> Quiniela dbprog" where
  "findQuinielaByInviteCode inviteCode =
     tx_bind (tx_query (\<lambda>s. filter (\<lambda>q. q_InviteCode q = inviteCode \<and> q_DeletedAt q = None \<and>
       (case q_InviteCodeExpiresAt q of None \<Rightarrow> True | Some t \<Rightarrow> t > db_now s)) (db_quinielas s)))
     (row_or (NotFound ''group not found for the given invite code''))"

definition findMembershipForLocking :: "int \<Rightarrow> int \<Rightarrow> GroupMembership option dbprog" where
  "findMembershipForLocking quinielaID userID =
     tx_query (\<lambda>s. find (\<lambda>g. gm_QuinielaID g = quinielaID \<and> gm_UserID g = userID) (db_memberships s))"

definition validateMembershipStatus :: "GroupMembership option \<Rightarrow> unit result" where
  "validateMembershipStatus existing = (case existing of
     None \<Rightarrow> Inr ()
   | Some g \<Rightarrow> (case gm_Status g of
       MembershipActive \<Rightarrow> Inl (Conflict ''you are already a member of this group'')
     | MembershipPending \<Rightarrow> Inl (Conflict ''you already have a pending join request for this group'')
     | MembershipLeft \<Rightarrow> Inr ()))"

definition errMsgMaxMembersReached :: string where
  "errMsgMaxMembersReached = ''this group has reached its maximum number of members''"

definition errMsgFreeMaxMembersReached :: string where
  "errMsgFreeMaxMembersReached = ''this free group has reached its member limit; upgrade to premium to add more members''"

definition enforceMaxMembers :: "int \<Rightarrow> int \<Rightarrow> unit dbprog" where
  "enforceMaxMembers quinielaID maxMembers = tx_bind (tx_query (count_active quinielaID)) (\<lambda>count.
     tx_guard (\<not> count \<ge> maxMembers) (Conflict errMsgMaxMembersReached))"

definition enforceFreeMax :: "int \<Rightarrow> int \<Rightarrow> unit dbprog" where
  "enforceFreeMax quinielaID freeMax = tx_bind (tx_query (count_active quinielaID)) (\<lambda>count.
     tx_guard (\<not> count \<ge> freeMax) (Conflict errMsgFreeMaxMembersReached))"

definition enforceJoinCapacity :: "Quiniela \<Rightarrow> int \<Rightarrow> int \<Rightarrow> unit dbprog" where
  "enforceJoinCapacity q freeMaxMembers maxMembers =
     tx_bind (if \<not> q_IsPremium q \<and> freeMaxMembers > 0 then enforceFreeMax (q_ID q) freeMaxMembers else tx_ret ()) (\<lambda>_.
     enforceMaxMembers (q_ID q) maxMembers)"

definition reactivateMembership :: "int \<Rightarrow> bool \<Rightarrow> GroupMembership dbprog" where
  "reactivateMembership membershipID autoPaid =
     tx_bind (tx_exec (member_update (\<lambda>g. gm_ID g = membershipID \<and> gm_Status g = MembershipLeft)
       (\<lambda>g. g\<lparr>gm_Status := MembershipPending, gm_Paid := autoPaid, gm_JoinedAt := None, gm_RemovedAt := None, gm_RemovedBy := None\<rparr>)))
     (row_or (Conflict ''this membership request changed; please retry''))"

definition unique_conflict :: "string \<Rightarrow> go_error \<Rightarrow> app_error" where
  "unique_conflict msg e = (if e = PgError ''23505'' then Conflict msg else Internal e)"

definition new_membership :: "int \<Rightarrow> int \<Rightarrow> MembershipStatus \<Rightarrow> MembershipRole \<Rightarrow> bool \<Rightarrow> time option \<Rightarrow> GroupMembership" where
  "new_membership quinielaID userID st r paid joinedAt = \<lparr>gm_ID = 0, gm_QuinielaID = quinielaID, gm_UserID = userID, gm_Role = r,
     gm_Status = st, gm_Paid = paid, gm_JoinedAt = joinedAt, gm_RemovedAt = None, gm_RemovedBy = None, gm_CreatedAt = 0\<rparr>"

definition createPendingMembership :: "int \<Rightarrow> int \<Rightarrow> bool \<Rightarrow> GroupMembership dbprog" where
  "createPendingMembership quinielaID userID autoPaid =
     tx_stmt (unique_conflict ''you already have a membership record for this group'')
       (member_insert (new_membership quinielaID userID MembershipPending MembershipRoleMember autoPaid None))"

definition RequestJoinByInviteCode :: "string \<Rightarrow> int \<Rightarrow> int \<Rightarrow> int \<Rightarrow> (Quiniela \<times> GroupMembership) dbprog" where
  "RequestJoinByInviteCode inviteCode userID maxMembers freeMaxMembers = withTx (
     tx_bind (findQuinielaByInviteCode inviteCode) (\<lambda>q.
     tx_bind (findMembershipForLocking (q_ID q) userID) (\<lambda>existing.
     tx_bind (tx_lift (validateMembershipStatus existing)) (\<lambda>_.
     tx_bind (enforceJoinCapacity q freeMaxMembers maxMembers) (\<lambda>_.
     let autoPaid = (q_EntryFee q = 0) in
     tx_bind (case existing of
         Some g \<Rightarrow> reactivateMembership (gm_ID g) autoPaid
       | None \<Rightarrow> createPendingMembership (q_ID q) userID autoPaid) (\<lambda>m.
     tx_ret (q, m)))))))"

definition GetMembershipByID :: "int \<Rightarrow> GroupMembership option dbprog" where
  "GetMembershipByID membershipID = tx_query (\<lambda>s. find (\<lambda>g. gm_ID g = membershipID) (db_memberships s))"

definition GetByQuinielaAndUser :: "int \<Rightarrow> int \<Rightarrow> GroupMembership option dbprog" where
  "GetByQuinielaAndUser quinielaID userID =
     tx_query (\<lambda>s. find (\<lambda>g. gm_QuinielaID g = quinielaID \<and> gm_UserID g = userID) (db_memberships s))"

definition CountActive :: "int \<Rightarrow> int dbprog" where
  "CountActive quinielaID = tx_query (count_active quinielaID)"

definition errMembershipNotFound :: string where
  "errMembershipNotFound = ''membership not found''"

definition MarkPaid :: "int \<Rightarrow> int \<Rightarrow> GroupMembership dbprog" where
  "MarkPaid quinielaID userID =
     tx_bind (tx_exec (member_update (\<lambda>g. gm_QuinielaID g = quinielaID \<and> gm_UserID g = userID) (\<lambda>g. g\<lparr>gm_Paid := True\<rparr>)))
     (row_or (NotFound errMembershipNotFound))"

text \<open>\<^verbatim>\<open>ORDER BY joined_at ASC\<close>: nulls last, ties in insertion order.\<close>
definition by_joined_at :: "GroupMembership list \<Rightarrow> GroupMembership list" where
  "by_joined_at rows = sort_key (\<lambda>g. case gm_JoinedAt g of None \<Rightarrow> 0 | Some t \<Rightarrow> t) (filter (\<lambda>g. gm_JoinedAt g \<noteq> None) rows) @
     filter (\<lambda>g. gm_JoinedAt g = None) rows"

definition OldestActiveMember :: "int \<Rightarrow> int \<Rightarrow> GroupMembership option dbprog" where
  "OldestActiveMember quinielaID excludeUserID =
     tx_query (\<lambda>s. first_row (by_joined_at (filter (\<lambda>g. is_active quinielaID g \<and> gm_UserID g \<noteq> excludeUserID) (db_memberships s))))"

definition affected :: "app_error \<Rightarrow> 'a list \<Rightarrow> unit dbprog" where
  "affected e rows = tx_guard (rows \<noteq> []) e"

definition SetRole :: "int \<Rightarrow> MembershipRole \<Rightarrow> unit dbprog" where
  "SetRole membershipID r =
     tx_bind (tx_exec (member_update (\<lambda>g. gm_ID g = membershipID) (\<lambda>g. g\<lparr>gm_Role := r\<rparr>))) (affected (NotFound errMembershipNotFound))"

definition RemoveByAdmin :: "int \<Rightarrow> int \<Rightarrow> unit dbprog" where
  "RemoveByAdmin membershipID adminID =
     tx_bind (tx_exec (\<lambda>s. member_update (\<lambda>g. gm_ID g = membershipID \<and> gm_Status g = MembershipActive)
       (\<lambda>g. g\<lparr>gm_Status := MembershipLeft, gm_RemovedAt := Some (db_now s), gm_RemovedBy := Some adminID\<rparr>) s))
     (affected (NotFound errMembershipNotFound))"

definition ListGroupIDsWithoutOwner :: "int list dbprog" where
  "ListGroupIDsWithoutOwner = tx_query (\<lambda>s. map q_ID (filter (\<lambda>q. q_DeletedAt q = None \<and>
     \<not> list_ex (\<lambda>g. is_active (q_ID q) g \<and> gm_Role g = MembershipRoleCreateOwner) (db_memberships s)) (db_quinielas s)))"

definition ListStalePending :: "time \<Rightarrow> GroupMembership list dbprog" where
  "ListStalePending olderThan = tx_query (\<lambda>s. sort_key gm_CreatedAt
     (filter (\<lambda>g. gm_Status g = MembershipPending \<and> gm_CreatedAt g < olderThan) (db_memberships s)))"

definition BulkRemoveByAdmin :: "int \<Rightarrow> int list \<Rightarrow> int \<Rightarrow> int list dbprog" where
  "BulkRemoveByAdmin quinielaID ids adminID = (if ids = [] then tx_ret [] else
     tx_bind (tx_exec (\<lambda>s. member_update (\<lambda>g. gm_ID g \<in> set ids \<and> is_active quinielaID g)
       (\<lambda>g. g\<lparr>gm_Status := MembershipLeft, gm_RemovedAt := Some (db_now s), gm_RemovedBy := Some adminID\<rparr>) s)) (\<lambda>rows.
     tx_ret (map gm_ID rows)))"

definition demote_owners :: "int \<Rightarrow> db \<Rightarrow> go_error + GroupMembership list \<times> db" where
  "demote_owners quinielaID = member_update (\<lambda>g. is_active quinielaID g \<and> gm_Role g = MembershipRoleCreateOwner)
     (\<lambda>g. g\<lparr>gm_Role := MembershipRoleMember\<rparr>)"

definition TransferOwnershipRoles :: "int \<Rightarrow> int \<Rightarrow> unit dbprog" where
  "TransferOwnershipRoles quinielaID newOwnerMembershipID = withTx (
     tx_bind (tx_exec (demote_owners quinielaID)) (\<lambda>_.
     tx_bind (tx_exec (member_update (\<lambda>g. gm_ID g = newOwnerMembershipID) (\<lambda>g. g\<lparr>gm_Role := MembershipRoleCreateOwner\<rparr>)))
     (affected (NotFound ''new owner membership not found''))))"

definition syncStatusInTx :: "int \<Rightarrow> int \<Rightarrow> unit dbprog" where
  "syncStatusInTx quinielaID minMembers =
     tx_bind (tx_exec (\<lambda>s. quiniela_update (\<lambda>q. q_ID q = quinielaID \<and> q_DeletedAt q = None)
       (\<lambda>q. q\<lparr>q_Status := if count_active quinielaID s \<ge> minMembers then QuinielaStatusActive else QuinielaStatusInactive\<rparr>) s))
     (\<lambda>_. tx_ret ())"

definition lock_quiniela :: "int \<Rightarrow> unit dbprog" where
  "lock_quiniela quinielaID = tx_exec (\<lambda>s. if get_quiniela s quinielaID = None then Inl ErrNoRows else Inr ((), s))"

definition ApproveMembership :: "int \<Rightarrow> int \<Rightarrow> time \<Rightarrow> int \<Rightarrow> int \<Rightarrow> GroupMembership dbprog" where
  "ApproveMembership membershipID quinielaID now minMembers maxMembers = withTx (
     tx_bind (lock_quiniela quinielaID) (\<lambda>_.
     tx_bind (enforceMaxMembers quinielaID maxMembers) (\<lambda>_.
     tx_bind (tx_exec (member_update (\<lambda>g. gm_ID g = membershipID \<and> gm_QuinielaID g = quinielaID \<and> gm_Status g = MembershipPending)
       (\<lambda>g. g\<lparr>gm_Status := MembershipActive, gm_JoinedAt := Some now\<rparr>))) (\<lambda>rows.
     tx_bind (row_or (Conflict ''this join request is no longer pending'') rows) (\<lambda>m.
     tx_bind (syncStatusInTx quinielaID minMembers) (\<lambda>_.
     tx_ret m))))))"

definition LeaveMembership :: "int \<Rightarrow> int \<Rightarrow> time \<Rightarrow> int \<Rightarrow> unit dbprog" where
  "LeaveMembership quinielaID userID now minMembers = withTx (
     tx_bind (tx_exec (member_update (\<lambda>g. is_active quinielaID g \<and> gm_UserID g = userID)
       (\<lambda>g. g\<lparr>gm_Status := MembershipLeft, gm_JoinedAt := None, gm_RemovedAt := Some now, gm_RemovedBy := None\<rparr>))) (\<lambda>rows.
     tx_bind (affected (Conflict ''you are no longer an active member of this group'') rows) (\<lambda>_.
     syncStatusInTx quinielaID minMembers)))"

definition LeaveMembershipAndTransferOwnership :: "int \<Rightarrow> int \<Rightarrow> int \<Rightarrow> time \<Rightarrow> int \<Rightarrow> unit dbprog" where
  "LeaveMembershipAndTransferOwnership quinielaID leavingUserID successorMembershipID now minMembers = withTx (
     tx_bind (tx_exec (demote_owners quinielaID)) (\<lambda>_.
     tx_bind (tx_exec (member_update (\<lambda>g. gm_ID g = successorMembershipID \<and> is_active quinielaID g \<and> gm_UserID g \<noteq> leavingUserID)
       (\<lambda>g. g\<lparr>gm_Role := MembershipRoleCreateOwner\<rparr>))) (\<lambda>promoted.
     tx_bind (affected (NotFound ''new owner membership not found'') promoted) (\<lambda>_.
     tx_bind (tx_exec (member_update (\<lambda>g. is_active quinielaID g \<and> gm_UserID g = leavingUserID)
       (\<lambda>g. g\<lparr>gm_Status := MembershipLeft, gm_Role := MembershipRoleMember, gm_JoinedAt := None, gm_RemovedAt := Some now, gm_RemovedBy := None\<rparr>))) (\<lambda>left.
     tx_bind (affected (Conflict ''you are no longer an active member of this group'') left) (\<lambda>_.
     syncStatusInTx quinielaID minMembers))))))"

text \<open>\<^verbatim>\<open>UPDATE users SET balance_cents = balance_cents - $2 WHERE ... balance_cents - reserved_cents >= $2\<close> and its ledger row.\<close>
definition debit_entry_fee :: "int \<Rightarrow> int \<Rightarrow> int \<Rightarrow> unit dbprog" where
  "debit_entry_fee quinielaID userID amountCents =
     tx_bind (tx_exec (user_update userID (\<lambda>u. u_BalanceCents u - u_ReservedCents u \<ge> amountCents) (add_balance (- amountCents)))) (\<lambda>r.
     case r of
       None \<Rightarrow> insufficientOrNotFound userID
     | Some u \<Rightarrow> insertLedgerTx \<lparr>lrow_UserID = userID, lrow_DeltaCents = - amountCents, lrow_Kind = LedgerKindEntryFee,
         lrow_BalanceAfter = u_BalanceCents u, lrow_RefID = quinielaID, lrow_RefType = ''group_membership'', lrow_Reference = [],
         lrow_CreatorID = 0, lrow_SourceCurrency = [], lrow_SourceAmountCents = 0\<rparr>)"

definition DebitBalanceAndMarkPaid :: "nat \<Rightarrow> int \<Rightarrow> int \<Rightarrow> int \<Rightarrow> GroupMembership option dbprog" where
  "DebitBalanceAndMarkPaid maxAttempts quinielaID userID amountCents = withRetryTx None maxAttempts (
     tx_bind (debit_entry_fee quinielaID userID amountCents) (\<lambda>_.
     tx_bind (tx_exec (member_update (\<lambda>g. gm_QuinielaID g = quinielaID \<and> gm_UserID g = userID) (\<lambda>g. g\<lparr>gm_Paid := True\<rparr>))) (\<lambda>rows.
     tx_bind (row_or (NotFound errMembershipNotFound) rows) (\<lambda>m.
     tx_ret (Some m)))))"

definition fetchUnpaidMemberIDs :: "int \<Rightarrow> int list dbprog" where
  "fetchUnpaidMemberIDs quinielaID = tx_query (\<lambda>s. map gm_UserID (by_joined_at
     (filter (\<lambda>g. is_active quinielaID g \<and> \<not> gm_Paid g \<and> gm_RemovedAt g = None) (db_memberships s))))"

definition debitMemberAndMarkPaid :: "int \<Rightarrow> int \<Rightarrow> int \<Rightarrow> unit dbprog" where
  "debitMemberAndMarkPaid quinielaID amountCents userID =
     tx_bind (debit_entry_fee quinielaID userID amountCents) (\<lambda>_.
     tx_bind (tx_exec (member_update (\<lambda>g. is_active quinielaID g \<and> gm_UserID g = userID) (\<lambda>g. g\<lparr>gm_Paid := True\<rparr>))) (\<lambda>_.
     tx_ret ()))"

definition BulkDebitAndMarkPaid :: "nat \<Rightarrow> int \<Rightarrow> int \<Rightarrow> int list dbprog" where
  "BulkDebitAndMarkPaid maxAttempts quinielaID amountCents = withRetryTx [] maxAttempts (
     tx_bind (fetchUnpaidMemberIDs quinielaID) (\<lambda>userIDs.
     tx_bind (tx_iter (debitMemberAndMarkPaid quinielaID amountCents) userIDs) (\<lambda>_.
     tx_ret userIDs)))"

section \<open>Entry-fee records\<close>

definition payment_conflict :: "PaymentRecord list \<Rightarrow> string option \<Rightarrow> PaymentRecord option" where
  "payment_conflict rows r = (if r = None \<or> r = Some [] then None else find (\<lambda>p. pr_Reference p = r) rows)"

text \<open>\<^verbatim>\<open>INSERT ... ON CONFLICT (reference) DO UPDATE SET updated_at = payment_records.updated_at RETURNING\<close>.\<close>
definition payment_insert :: "PaymentRecord \<Rightarrow> db \<Rightarrow> go_error + PaymentRecord \<times> db" where
  "payment_insert p s = (let p' = p\<lparr>pr_ID := db_seq s, pr_Status := PaymentStatusPending, pr_ReviewedBy := None, pr_Notes := [],
       pr_ConfirmedAt := None, pr_CreatedAt := db_now s\<rparr> in
     if \<not> in_int32 (pr_Amount p) then Inl (PgError ''22003'')
     else if pr_Amount p < 0 then Inl (PgError ''23514'')
     else case payment_conflict (db_payments s) (pr_Reference p) of
       Some old \<Rightarrow> Inr (old, s)
     | None \<Rightarrow>
         if get_quiniela s (pr_QuinielaID p) = None \<or> \<not> user_exists s (Some (pr_UserID p)) then Inl (PgError ''23503'')
         else Inr (p', s\<lparr>db_seq := db_seq s + 1, db_payments := db_payments s @ [p']\<rparr>))"

definition CreatePayment :: "PaymentRecord \<Rightarrow> PaymentRecord dbprog" where
  "CreatePayment p = tx_exec (payment_insert p)"

definition GetPaymentByID :: "int \<Rightarrow> PaymentRecord option dbprog" where
  "GetPaymentByID i = tx_query (\<lambda>s. find (\<lambda>p. pr_ID p = i) (db_payments s))"

fun payment_status_text :: "PaymentStatus \<Rightarrow> string" where
  "payment_status_text PaymentStatusPending = ''pending''"
| "payment_status_text PaymentStatusConfirmed = ''confirmed''"
| "payment_status_text PaymentStatusRefunded = ''refunded''"
| "payment_status_text PaymentStatusRejected = ''rejected''"

text \<open>\<^verbatim>\<open>UPDATE payment_records ... WHERE id = $1 AND status = 'pending' RETURNING\<close>.\<close>
definition payment_review :: "int \<Rightarrow> int \<Rightarrow> string \<Rightarrow> PaymentStatus \<Rightarrow> bool \<Rightarrow> db \<Rightarrow> go_error + PaymentRecord list \<times> db" where
  "payment_review i adminID notes newStatus setConfirmedAt s =
     (let p = (\<lambda>r. pr_ID r = i \<and> pr_Status r = PaymentStatusPending);
          f = (\<lambda>r. r\<lparr>pr_Status := newStatus, pr_ConfirmedAt := if setConfirmedAt then Some (db_now s) else pr_ConfirmedAt r,
                  pr_ReviewedBy := Some adminID, pr_Notes := notes\<rparr>)
      in if list_ex p (db_payments s) \<and> \<not> user_exists s (Some adminID) then Inl (PgError ''23503'')
         else Inr (map f (filter p (db_payments s)), s\<lparr>db_payments := update_where p f (db_payments s)\<rparr>))"

text \<open>No row was pending: a retry of the same decision returns the record, anything else is an error.\<close>
definition payment_settled :: "int \<Rightarrow> PaymentStatus \<Rightarrow> PaymentRecord dbprog" where
  "payment_settled i newStatus = tx_bind (GetPaymentByID i) (\<lambda>existing. case existing of
     None \<Rightarrow> tx_err (NotFound ''payment record not found'')
   | Some p \<Rightarrow> if pr_Status p = newStatus then tx_ret p
       else tx_err (Conflict (''payment already '' @ payment_status_text (pr_Status p))))"

definition reviewPending :: "int \<Rightarrow> int \<Rightarrow> string \<Rightarrow> PaymentStatus \<Rightarrow> bool \<Rightarrow> PaymentRecord dbprog" where
  "reviewPending i adminID notes newStatus setConfirmedAt =
     tx_bind (tx_exec (payment_review i adminID notes newStatus setConfirmedAt)) (\<lambda>rows.
     case rows of [] \<Rightarrow> payment_settled i newStatus | r # _ \<Rightarrow> tx_ret r)"

definition ValidatePayment :: "int \<Rightarrow> int \<Rightarrow> string \<Rightarrow> PaymentRecord dbprog" where
  "ValidatePayment i adminID notes = reviewPending i adminID notes PaymentStatusConfirmed True"

definition RejectPayment :: "int \<Rightarrow> int \<Rightarrow> string \<Rightarrow> PaymentRecord dbprog" where
  "RejectPayment i adminID notes = reviewPending i adminID notes PaymentStatusRejected False"

definition ValidateAndMarkPaid :: "int \<Rightarrow> int \<Rightarrow> string \<Rightarrow> PaymentRecord dbprog" where
  "ValidateAndMarkPaid i adminID notes =
     tx_bind (withTx (tx_bind (tx_exec (payment_review i adminID notes PaymentStatusConfirmed True)) (\<lambda>rows.
       case rows of
         [] \<Rightarrow> tx_ret None
       | p # _ \<Rightarrow>
           tx_bind (tx_exec (member_update (\<lambda>g. gm_QuinielaID g = pr_QuinielaID p \<and> gm_UserID g = pr_UserID p) (\<lambda>g. g\<lparr>gm_Paid := True\<rparr>))) (\<lambda>_.
           tx_ret (Some p))))) (\<lambda>r.
     case r of Some p \<Rightarrow> tx_ret p | None \<Rightarrow> payment_settled i PaymentStatusConfirmed)"

definition CreateRecord :: "int \<Rightarrow> int \<Rightarrow> int \<Rightarrow> string \<Rightarrow> string \<Rightarrow> PaymentRecord dbprog" where
  "CreateRecord quinielaID userID amount currency reference = CreatePayment
     \<lparr>pr_ID = 0, pr_QuinielaID = quinielaID, pr_UserID = userID, pr_Amount = amount, pr_Currency = currency, pr_Status = PaymentStatusPending,
      pr_Reference = Some reference, pr_ReviewedBy = None, pr_Notes = [], pr_ConfirmedAt = None, pr_CreatedAt = 0\<rparr>"

definition ValidateDeposit :: "int \<Rightarrow> int \<Rightarrow> string \<Rightarrow> PaymentRecord dbprog" where
  "ValidateDeposit paymentID adminID notes = ValidateAndMarkPaid paymentID adminID notes"

definition RejectDeposit :: "int \<Rightarrow> int \<Rightarrow> string \<Rightarrow> PaymentRecord dbprog" where
  "RejectDeposit paymentID adminID notes = RejectPayment paymentID adminID notes"

section \<open>Services\<close>

definition DefaultGroupFreeMaxMembers :: int where [domain_consts]: "DefaultGroupFreeMaxMembers = 5"

definition RequireOwner :: "int \<Rightarrow> int \<Rightarrow> unit dbprog" where
  "RequireOwner quinielaID callerID = tx_bind (GetByQuinielaAndUser quinielaID callerID) (\<lambda>m. case m of
     None \<Rightarrow> tx_err (Forbidden ''only the group owner can perform this action'')
   | Some g \<Rightarrow> tx_guard (gm_Role g = MembershipRoleCreateOwner) (Forbidden ''only the group owner can perform this action''))"

definition RequireActiveMember :: "int \<Rightarrow> int \<Rightarrow> unit dbprog" where
  "RequireActiveMember quinielaID callerID = tx_bind (GetByQuinielaAndUser quinielaID callerID) (\<lambda>m. case m of
     None \<Rightarrow> tx_err (Forbidden ''caller is not an active member of this group'')
   | Some g \<Rightarrow> tx_guard (gm_Status g = MembershipActive) (Forbidden ''caller is not an active member of this group''))"

definition param_int :: "string \<Rightarrow> int \<Rightarrow> int dbprog" where
  "param_int key defaultVal = tx_read (\<lambda>s. GetInt (db_params s) key defaultVal)"

definition group_max :: "int dbprog" where
  "group_max = param_int ''group.max_size'' MaxMembersPerGroup"

definition group_free_max :: "int dbprog" where
  "group_free_max = param_int ''group.free_max_members'' DefaultGroupFreeMaxMembers"

definition group_min :: "int dbprog" where
  "group_min = param_int ''group.min_members_for_active'' MinMembersForActive"

definition createPendingPayment :: "Quiniela \<Rightarrow> int \<Rightarrow> unit dbprog" where
  "createPendingPayment q userID = tx_ignore (tx_bind (CreateRecord (q_ID q) userID (q_EntryFee q) (q_Currency q) []) (\<lambda>_. tx_ret ()))"

definition Join :: "string \<Rightarrow> int \<Rightarrow> GroupMembership dbprog" where
  "Join inviteCode userID =
     tx_bind group_max (\<lambda>maxMembers.
     tx_bind group_free_max (\<lambda>freeMax.
     tx_bind (RequestJoinByInviteCode inviteCode userID maxMembers freeMax) (\<lambda>(q, m).
     tx_bind (if q_EntryFee q > 0 then createPendingPayment q userID else tx_ret ()) (\<lambda>_.
     if \<not> q_RequireApproval q then
       tx_bind group_min (\<lambda>minMembers.
       tx_bind (tx_read db_now) (\<lambda>now.
       ApproveMembership (gm_ID m) (q_ID q) now minMembers maxMembers))
     else tx_ret m))))"

definition GetBalanceCurrency :: "int \<Rightarrow> string dbprog" where
  "GetBalanceCurrency userID = tx_bind (tx_query (\<lambda>s. db_users s userID)) (\<lambda>r. case r of
     None \<Rightarrow> tx_err (NotFound ''user not found'')
   | Some u \<Rightarrow> if u_DeletedAt u \<noteq> None then tx_err (NotFound ''user not found'') else tx_ret (u_BalanceCurrency u))"

definition entryFeeInUserCurrency :: "(int \<Rightarrow> int dbprog) option \<Rightarrow> int \<Rightarrow> int \<Rightarrow> int dbprog" where
  "entryFeeInUserCurrency fx userID gtqFeeCents = (case fx of
     None \<Rightarrow> tx_ret gtqFeeCents
   | Some convert \<Rightarrow>
       if gtqFeeCents = 0 then tx_ret gtqFeeCents
       else tx_try (GetBalanceCurrency userID) (\<lambda>_. tx_ret gtqFeeCents) (\<lambda>balCurrency.
         if balCurrency \<noteq> ''USD'' then tx_ret gtqFeeCents
         else tx_try (convert gtqFeeCents) (\<lambda>_. tx_ret gtqFeeCents) tx_ret))"

definition JoinWithBalance :: "nat \<Rightarrow> (int \<Rightarrow> int dbprog) option \<Rightarrow> string \<Rightarrow> int \<Rightarrow> GroupMembership dbprog" where
  "JoinWithBalance maxAttempts fx inviteCode userID =
     tx_bind group_max (\<lambda>maxMembers.
     tx_bind group_free_max (\<lambda>freeMax.
     tx_bind (RequestJoinByInviteCode inviteCode userID maxMembers freeMax) (\<lambda>(q, m).
     if q_EntryFee q \<le> 0 then tx_err (Conflict ''this quiniela has no entry fee - use the standard join endpoint'')
     else
       tx_bind (entryFeeInUserCurrency fx userID (q_EntryFee q)) (\<lambda>feeCents.
       tx_bind (DebitBalanceAndMarkPaid maxAttempts (q_ID q) userID feeCents) (\<lambda>_.
       if \<not> q_RequireApproval q then
         tx_bind group_min (\<lambda>minMembers.
         tx_bind group_max (\<lambda>maxMembers.
         tx_bind (tx_read db_now) (\<lambda>now.
         ApproveMembership (gm_ID m) (q_ID q) now minMembers maxMembers)))
       else tx_ret m)))))"

definition enforceApprovalFeeRules :: "nat \<Rightarrow> (int \<Rightarrow> int dbprog) option \<Rightarrow> Quiniela \<Rightarrow> GroupMembership \<Rightarrow> unit dbprog" where
  "enforceApprovalFeeRules maxAttempts fx q pending =
    (if \<not> q_IsPremium q then
       tx_bind group_free_max (\<lambda>freeMax.
       tx_bind (CountActive (q_ID q)) (\<lambda>count.
       tx_guard (\<not> count \<ge> freeMax) (Conflict errMsgFreeMaxMembersReached)))
     else if \<not> gm_Paid pending \<and> q_EntryFee q > 0 then
       tx_bind (entryFeeInUserCurrency fx (gm_UserID pending) (q_EntryFee q)) (\<lambda>feeCents.
       tx_bind (DebitBalanceAndMarkPaid maxAttempts (q_ID q) (gm_UserID pending) feeCents) (\<lambda>_. tx_ret ()))
     else tx_ret ())"

text \<open>The lookup both decisions on a join request start with.\<close>
definition pending_request :: "int \<Rightarrow> int \<Rightarrow> GroupMembership dbprog" where
  "pending_request quinielaID membershipID = tx_bind (GetMembershipByID membershipID) (\<lambda>r. case r of
     None \<Rightarrow> tx_err (NotFound ''join request not found'')
   | Some g \<Rightarrow>
       if gm_QuinielaID g \<noteq> quinielaID then tx_err (NotFound ''join request not found'')
       else if gm_Status g \<noteq> MembershipPending then tx_err (Conflict ''this join request is no longer pending'')
       else tx_ret g)"

definition GetGroup :: "int \<Rightarrow> Quiniela option dbprog" where
  "GetGroup quinielaID = tx_query (\<lambda>s. case get_quiniela s quinielaID of
     None \<Rightarrow> None | Some q \<Rightarrow> if q_DeletedAt q \<noteq> None then None else Some q)"

definition ApproveJoin :: "nat \<Rightarrow> (int \<Rightarrow> int dbprog) option \<Rightarrow> int \<Rightarrow> int \<Rightarrow> int \<Rightarrow> GroupMembership dbprog" where
  "ApproveJoin maxAttempts fx quinielaID membershipID approverUserID =
     tx_bind (RequireActiveMember quinielaID approverUserID) (\<lambda>_.
     tx_bind (pending_request quinielaID membershipID) (\<lambda>pending.
     tx_bind (GetGroup quinielaID) (\<lambda>r. case r of
       None \<Rightarrow> tx_err (NotFound ''group not found'')
     | Some q \<Rightarrow>
         tx_bind (enforceApprovalFeeRules maxAttempts fx q pending) (\<lambda>_.
         tx_bind group_min (\<lambda>minMembers.
         tx_bind group_max (\<lambda>maxMembers.
         tx_bind (tx_read db_now) (\<lambda>now.
         ApproveMembership membershipID quinielaID now minMembers maxMembers)))))))"

definition RejectJoin :: "int \<Rightarrow> int \<Rightarrow> int \<Rightarrow> unit dbprog" where
  "RejectJoin quinielaID membershipID rejectorUserID =
     tx_bind (RequireActiveMember quinielaID rejectorUserID) (\<lambda>_.
     tx_bind (pending_request quinielaID membershipID) (\<lambda>_.
     RemoveByAdmin membershipID rejectorUserID))"

definition Leave :: "int \<Rightarrow> int \<Rightarrow> unit dbprog" where
  "Leave quinielaID callerUserID =
     tx_bind (GetByQuinielaAndUser quinielaID callerUserID) (\<lambda>r. case r of
       None \<Rightarrow> tx_err (Validation ''you are not an active member of this group'')
     | Some m \<Rightarrow>
         if gm_Status m \<noteq> MembershipActive then tx_err (Validation ''you are not an active member of this group'')
         else
           tx_bind group_min (\<lambda>minMembers.
           tx_bind (if gm_Role m = MembershipRoleCreateOwner then OldestActiveMember quinielaID callerUserID else tx_ret None) (\<lambda>successor.
           tx_bind (tx_read db_now) (\<lambda>now. case successor of
             Some g \<Rightarrow> LeaveMembershipAndTransferOwnership quinielaID callerUserID (gm_ID g) now minMembers
           | None \<Rightarrow> LeaveMembership quinielaID callerUserID now minMembers))))"

definition TransferOwnership :: "int \<Rightarrow> int \<Rightarrow> unit dbprog" where
  "TransferOwnership quinielaID newOwnerUserID =
     tx_bind (GetByQuinielaAndUser quinielaID newOwnerUserID) (\<lambda>r. case r of
       None \<Rightarrow> tx_err (NotFound ''new owner must be an active member of this group'')
     | Some g \<Rightarrow>
         if gm_Status g \<noteq> MembershipActive then tx_err (NotFound ''new owner must be an active member of this group'')
         else TransferOwnershipRoles quinielaID (gm_ID g))"

definition RemoveMember :: "int \<Rightarrow> int \<Rightarrow> unit dbprog" where
  "RemoveMember membershipID adminID = RemoveByAdmin membershipID adminID"

definition diffBulkResult :: "int list \<Rightarrow> int list \<Rightarrow> int list \<times> int list" where
  "diffBulkResult ids succeeded = (succeeded, filter (\<lambda>i. i \<notin> set succeeded) ids)"

definition BulkRemoveMembers :: "int \<Rightarrow> int list \<Rightarrow> int \<Rightarrow> (int list \<times> int list) dbprog" where
  "BulkRemoveMembers quinielaID ids adminID = tx_bind (BulkRemoveByAdmin quinielaID ids adminID) (\<lambda>succeeded.
     tx_ret (diffBulkResult ids succeeded))"

section \<open>Well-formed memberships\<close>

text \<open>The keys of the tables: generated ids are fresh and unique, one membership per group and user.\<close>
definition members_wf :: "db \<Rightarrow> bool" where
  "members_wf s \<longleftrightarrow> distinct (map q_ID (db_quinielas s)) \<and> distinct (map gm_ID (db_memberships s)) \<and>
     distinct (map (\<lambda>g. (gm_QuinielaID g, gm_UserID g)) (db_memberships s)) \<and> (\<forall>g\<in>set (db_memberships s). gm_ID g < db_seq s)"

lemma member_update_run [tx_runs]:
  "member_update p f s = Inr (rows, s') \<longleftrightarrow> \<not> list_ex (\<lambda>g. \<not> user_exists s (gm_RemovedBy g)) (map f (filter p (db_memberships s))) \<and>
     rows = map f (filter p (db_memberships s)) \<and> s' = s\<lparr>db_memberships := update_where p f (db_memberships s)\<rparr>"
  by (auto simp: member_update_def Let_def)

lemma quiniela_update_run [tx_runs]:
  "quiniela_update p f s = Inr (rows, s') \<longleftrightarrow>
     rows = map f (filter p (db_quinielas s)) \<and> s' = s\<lparr>db_quinielas := update_where p f (db_quinielas s)\<rparr>"
  by (auto simp: quiniela_update_def)

lemma row_or_run [tx_runs]: "row_or e rows fs s = (Inr r, fs', s') \<longleftrightarrow> (\<exists>rest. rows = r # rest) \<and> fs' = fs \<and> s' = s"
  by (auto simp: row_or_def tx_runs split: list.splits)

lemma affected_run [tx_runs]: "affected e rows fs s = (Inr x, fs', s') \<longleftrightarrow> rows \<noteq> [] \<and> fs' = fs \<and> s' = s"
  by (auto simp: affected_def tx_runs)

lemma tx_keeps_row_or [tx_keep]: "tx_keeps I (row_or e rows)"
  unfolding row_or_def by (auto split: list.split intro!: tx_keep)

lemma tx_keeps_affected [tx_keep]: "tx_keeps I (affected e rows)"
  unfolding affected_def by (rule tx_keep)

lemma tx_keeps_member_update [tx_keep]:
  assumes "\<And>s. I s \<Longrightarrow> I (s\<lparr>db_memberships := update_where (p s) (f s) (db_memberships s)\<rparr>)"
  shows "tx_keeps I (tx_exec (\<lambda>s. member_update (p s) (f s) s))"
  by (rule tx_keep) (auto simp: tx_runs assms)

lemma tx_keeps_member_update' [tx_keep]:
  assumes "\<And>s. I s \<Longrightarrow> I (s\<lparr>db_memberships := update_where p f (db_memberships s)\<rparr>)"
  shows "tx_keeps I (tx_exec (member_update p f))"
  using tx_keeps_member_update [of I "\<lambda>_. p" "\<lambda>_. f"] assms by simp

text \<open>Updates that keep the keys of a row keep the tables well formed.\<close>
lemma members_wf_update:
  assumes "members_wf s" "\<And>g. gm_ID (f g) = gm_ID g" "\<And>g. gm_QuinielaID (f g) = gm_QuinielaID g" "\<And>g. gm_UserID (f g) = gm_UserID g"
  shows "members_wf (s\<lparr>db_memberships := update_where p f (db_memberships s)\<rparr>)"
  using assms by (auto simp: members_wf_def map_update_where set_update_where)

lemma count_update_where:
  assumes "\<And>g. g \<in> set rows \<Longrightarrow> p g \<Longrightarrow> P (f g) \<Longrightarrow> P g"
  shows "count_where P (update_where p f rows) \<le> count_where P rows"
  using assms by (induction rows) auto

section \<open>Group sizes\<close>

text \<open>What the size rules look at: the keys and the status of every membership, the groups and the parameters.\<close>
definition roster :: "db \<Rightarrow> (int \<times> int \<times> int \<times> MembershipStatus) list \<times> Quiniela list \<times> (string \<rightharpoonup> string)" where
  "roster s = (map (\<lambda>g. (gm_ID g, gm_QuinielaID g, gm_UserID g, gm_Status g)) (db_memberships s), db_quinielas s, db_params s)"

lemma count_where_map: "count_where P (map h rows) = count_where (\<lambda>r. P (h r)) rows"
  by (induction rows) auto

lemma roster_count: "roster s' = roster s \<Longrightarrow> count_active i s' = count_active i s"
proof -
  have "count_active i s = count_where (\<lambda>(_, q, _, st). q = i \<and> st = MembershipActive) (fst (roster s))" for s
    by (simp add: count_active_def is_active_def [abs_def] roster_def count_where_map)
  then show "roster s' = roster s \<Longrightarrow> count_active i s' = count_active i s" by simp
qed

lemma roster_wf:
  assumes "members_wf s" "roster s' = roster s" "db_seq s \<le> db_seq s'"
  shows "members_wf s'"
proof -
  have k: "map gm_ID (db_memberships s) = map fst (fst (roster s))"
    "map (\<lambda>g. (gm_QuinielaID g, gm_UserID g)) (db_memberships s) = map (\<lambda>(_, q, u, _). (q, u)) (fst (roster s))"
    "(\<forall>g\<in>set (db_memberships s). gm_ID g < n) \<longleftrightarrow> (\<forall>x\<in>set (map gm_ID (db_memberships s)). x < n)" for s n
    by (simp_all add: roster_def comp_def)
  have "map gm_ID (db_memberships s') = map gm_ID (db_memberships s)" "db_quinielas s' = db_quinielas s"
    "map (\<lambda>g. (gm_QuinielaID g, gm_UserID g)) (db_memberships s') = map (\<lambda>g. (gm_QuinielaID g, gm_UserID g)) (db_memberships s)"
    using assms(2) by (simp_all add: k(1,2)) (simp add: roster_def)
  with assms(1,3) show ?thesis unfolding members_wf_def k(3) by (auto intro: order_less_le_trans)
qed

text \<open>A condition that only looks at the roster is kept by everything that moves money or changes a role.\<close>
locale roster_condition =
  fixes K :: "db \<Rightarrow> bool"
  assumes stable: "K s \<Longrightarrow> roster s' = roster s \<Longrightarrow> db_seq s \<le> db_seq s' \<Longrightarrow> K s'"
begin

lemma keeps_quiet_update:
  assumes "\<And>g. gm_ID (f g) = gm_ID g" "\<And>g. gm_QuinielaID (f g) = gm_QuinielaID g" "\<And>g. gm_UserID (f g) = gm_UserID g"
    "\<And>g. gm_Status (f g) = gm_Status g"
  shows "tx_keeps K (tx_exec (member_update p f))"
proof (rule tx_keeps_member_update')
  fix s assume "K s"
  then show "K (s\<lparr>db_memberships := update_where p f (db_memberships s)\<rparr>)"
    by (rule stable) (simp_all add: roster_def map_update_where assms)
qed

lemma keeps_user_update: "tx_keeps K (tx_exec (user_update i g f))"
proof (rule tx_keeps_exec)
  fix s a s' assume "K s" "user_update i g f s = Inr (a, s')"
  then show "K s'" by (intro stable [of s s']) (auto simp: user_update_def Let_def roster_def split: option.splits if_splits)
qed

lemma keeps_ledger: "tx_keeps K (insertLedgerTx e)"
  unfolding insertLedgerTx_def
proof (rule tx_keeps_exec)
  fix s a s' assume "K s" "ledger_insert e s = Inr (a, s')"
  then show "K s'" by (intro stable [of s s']) (auto simp: roster_def ledger_append_def dest: ledger_insert_run(1))
qed

lemma keeps_debit: "tx_keeps K (debit_entry_fee q u a)"
  unfolding debit_entry_fee_def insufficientOrNotFound_def by (intro tx_keep keeps_user_update keeps_ledger)

lemma keeps_DebitBalanceAndMarkPaid: "tx_keeps K (DebitBalanceAndMarkPaid n q u a)"
  unfolding DebitBalanceAndMarkPaid_def by (intro tx_keep keeps_debit keeps_quiet_update) simp_all

lemma keeps_BulkDebitAndMarkPaid: "tx_keeps K (BulkDebitAndMarkPaid n q a)"
  unfolding BulkDebitAndMarkPaid_def fetchUnpaidMemberIDs_def debitMemberAndMarkPaid_def
  by (intro tx_keep keeps_debit keeps_quiet_update) simp_all

lemma keeps_createPendingPayment: "tx_keeps K (createPendingPayment q u)"
  unfolding createPendingPayment_def CreateRecord_def CreatePayment_def
proof (intro tx_keep)
  fix s a s' p assume "K s" "payment_insert p s = Inr (a, s')"
  then show "K s'" by (intro stable [of s s']) (auto simp: payment_insert_def Let_def roster_def split: option.splits if_splits)
qed

lemma keeps_payment_review: "tx_keeps K (tx_exec (payment_review i a t st b))"
proof (rule tx_keeps_exec)
  fix s r s' assume "K s" "payment_review i a t st b s = Inr (r, s')"
  then show "K s'" by (intro stable [of s s']) (auto simp: payment_review_def Let_def roster_def split: if_splits)
qed

lemma keeps_payment_settled: "tx_keeps K (payment_settled i st)"
  unfolding payment_settled_def GetPaymentByID_def by (intro tx_keep)

end

definition group_max_of :: "(string \<rightharpoonup> string) \<Rightarrow> int" where
  "group_max_of params = GetInt params ''group.max_size'' MaxMembersPerGroup"

definition group_free_max_of :: "(string \<rightharpoonup> string) \<Rightarrow> int" where
  "group_free_max_of params = GetInt params ''group.free_max_members'' DefaultGroupFreeMaxMembers"

text \<open>The number of active members the rules allow a group.\<close>
definition group_limit :: "(string \<rightharpoonup> string) \<Rightarrow> Quiniela \<Rightarrow> int" where
  "group_limit params q = (if \<not> q_IsPremium q \<and> group_free_max_of params > 0 then min (group_max_of params) (group_free_max_of params)
     else group_max_of params)"

definition size_bound :: "(string \<rightharpoonup> string) \<Rightarrow> (int \<Rightarrow> int) \<Rightarrow> db \<Rightarrow> bool" where
  "size_bound params c s \<longleftrightarrow> members_wf s \<and> db_params s = params \<and>
     (\<forall>q\<in>set (db_quinielas s). count_active (q_ID q) s \<le> max (group_limit params q) (c (q_ID q)))"

definition has_room :: "(string \<rightharpoonup> string) \<Rightarrow> int \<Rightarrow> db \<Rightarrow> bool" where
  "has_room params i s \<longleftrightarrow> (\<forall>q\<in>set (db_quinielas s). q_ID q = i \<and> \<not> q_IsPremium q \<and> 0 < group_free_max_of params \<longrightarrow>
     count_active i s < group_free_max_of params)"

interpretation sizes: roster_condition "size_bound params c"
proof
  fix s s' assume a: "size_bound params c s" "roster s' = roster s" "db_seq s \<le> db_seq s'"
  from a(2) have "db_quinielas s' = db_quinielas s" "db_params s' = db_params s" by (simp_all add: roster_def)
  then show "size_bound params c s'" using a(1) roster_count [OF a(2)] roster_wf [OF _ a(2,3)] by (simp add: size_bound_def)
qed

interpretation room: roster_condition "\<lambda>s. size_bound params c s \<and> has_room params i s"
proof
  fix s s' assume a: "size_bound params c s \<and> has_room params i s" "roster s' = roster s" "db_seq s \<le> db_seq s'"
  from a(2) have "db_quinielas s' = db_quinielas s" by (simp add: roster_def)
  then show "size_bound params c s' \<and> has_room params i s'"
    using a(1) sizes.stable [OF _ a(2,3)] roster_count [OF a(2)] by (simp add: has_room_def)
qed

text \<open>Removals and rejections: an update that keeps the keys and activates nobody.\<close>
lemma size_bound_update:
  assumes "size_bound params c s" "\<And>g. gm_ID (f g) = gm_ID g" "\<And>g. gm_QuinielaID (f g) = gm_QuinielaID g" "\<And>g. gm_UserID (f g) = gm_UserID g"
    "\<And>g. p g \<Longrightarrow> gm_Status (f g) = MembershipActive \<Longrightarrow> gm_Status g = MembershipActive"
  shows "size_bound params c (s\<lparr>db_memberships := update_where p f (db_memberships s)\<rparr>)"
proof -
  have "count_active i (s\<lparr>db_memberships := update_where p f (db_memberships s)\<rparr>) \<le> count_active i s" for i
    unfolding count_active_def by (simp, rule count_update_where) (auto simp: is_active_def assms(3,5))
  moreover have "members_wf (s\<lparr>db_memberships := update_where p f (db_memberships s)\<rparr>)"
    using assms by (intro members_wf_update) (simp_all add: size_bound_def)
  ultimately show ?thesis using assms(1) by (auto simp: size_bound_def intro: order_trans)
qed

lemma count_active_quinielas [simp]: "count_active i (s\<lparr>db_quinielas := x\<rparr>) = count_active i s"
  by (simp add: count_active_def)

lemma size_bound_sync:
  assumes "size_bound params c s" "\<And>q. q_ID (f q) = q_ID q" "\<And>q. q_IsPremium (f q) = q_IsPremium q"
  shows "size_bound params c (s\<lparr>db_quinielas := update_where p f (db_quinielas s)\<rparr>)"
  using assms by (auto simp: size_bound_def members_wf_def map_update_where set_update_where group_limit_def)

lemma member_insert_run:
  assumes "member_insert g s = Inr (m, s')"
  shows "m = g\<lparr>gm_ID := db_seq s, gm_RemovedAt := None, gm_RemovedBy := None, gm_CreatedAt := db_now s\<rparr>"
    "s' = s\<lparr>db_seq := db_seq s + 1, db_memberships := db_memberships s @ [m]\<rparr>"
    "(gm_QuinielaID g, gm_UserID g) \<notin> (\<lambda>g. (gm_QuinielaID g, gm_UserID g)) ` set (db_memberships s)"
  using assms by (auto simp: member_insert_def Let_def list_ex_iff split: if_splits)

lemma members_wf_insert:
  assumes "members_wf s" "member_insert g s = Inr (m, s')"
  shows "members_wf s'"
proof -
  note r = member_insert_run [OF assms(2)]
  have "db_seq s \<notin> gm_ID ` set (db_memberships s)" using assms(1) by (auto simp: members_wf_def)
  then show ?thesis using assms(1) r(3) unfolding members_wf_def r(2) by (auto simp: r(1) intro: less_imp_le)
qed

lemma size_bound_insert:
  assumes "size_bound params c s" "member_insert g s = Inr (m, s')" "gm_Status g \<noteq> MembershipActive"
  shows "size_bound params c s' \<and> db_quinielas s' = db_quinielas s \<and> (\<forall>i. count_active i s' = count_active i s)"
proof -
  note r = member_insert_run [OF assms(2)]
  have "\<And>i. count_active i s' = count_active i s" "db_quinielas s' = db_quinielas s" "db_params s' = db_params s"
    using assms(3) by (simp_all add: count_active_def is_active_def r(1,2))
  then show ?thesis using assms(1) members_wf_insert [OF _ assms(2)] by (simp add: size_bound_def)
qed

lemma syncStatusInTx_keeps: "tx_keeps (size_bound params c) (syncStatusInTx i n)"
  unfolding syncStatusInTx_def by (intro tx_keep) (auto simp: tx_runs intro!: size_bound_sync)

lemma filter_hd: "filter P rows = r # rest \<Longrightarrow> r \<in> set rows \<and> P r"
  by (metis (lifting) list.set_intros(1) mem_Collect_eq set_filter)

text \<open>A successful request found its group below its limits, and then wrote one pending membership.\<close>
lemma RequestJoinByInviteCode_run:
  assumes "RequestJoinByInviteCode code u mx fr fs s = (Inr (q, m), fs', s')"
  obtains existing fs1 fs2 where "q \<in> set (db_quinielas s)" "q_InviteCode q = code" "q_DeletedAt q = None"
    "existing = find (\<lambda>g. gm_QuinielaID g = q_ID q \<and> gm_UserID g = u) (db_memberships s)"
    "validateMembershipStatus existing = Inr ()" "count_active (q_ID q) s < mx"
    "\<not> q_IsPremium q \<and> 0 < fr \<longrightarrow> count_active (q_ID q) s < fr"
    "(case existing of Some g \<Rightarrow> reactivateMembership (gm_ID g) (q_EntryFee q = 0)
       | None \<Rightarrow> createPendingMembership (q_ID q) u (q_EntryFee q = 0)) fs1 s = (Inr m, fs2, s')"
proof -
  obtain fs1 fs2 where "(tx_bind (findQuinielaByInviteCode code) (\<lambda>q.
     tx_bind (findMembershipForLocking (q_ID q) u) (\<lambda>existing.
     tx_bind (tx_lift (validateMembershipStatus existing)) (\<lambda>_.
     tx_bind (enforceJoinCapacity q fr mx) (\<lambda>_.
     let autoPaid = (q_EntryFee q = 0) in
     tx_bind (case existing of
         Some g \<Rightarrow> reactivateMembership (gm_ID g) autoPaid
       | None \<Rightarrow> createPendingMembership (q_ID q) u autoPaid) (\<lambda>m.
     tx_ret (q, m))))))) fs1 s = (Inr (q, m), fs2, s')"
    using withTx_Inr [OF assms [unfolded RequestJoinByInviteCode_def]] by blast
  then show ?thesis
    unfolding Let_def tx_bind_run findQuinielaByInviteCode_def findMembershipForLocking_def enforceJoinCapacity_def enforceFreeMax_def enforceMaxMembers_def
    by (auto simp: tx_runs not_le dest!: filter_hd intro!: that split: if_splits)
qed

lemma pending_membership_run:
  assumes "size_bound params c s" "(case existing of Some g \<Rightarrow> reactivateMembership (gm_ID g) b
       | None \<Rightarrow> createPendingMembership i u b) fs s = (Inr m, fs', s')"
  shows "size_bound params c s' \<and> db_quinielas s' = db_quinielas s \<and> (\<forall>i. count_active i s' = count_active i s)"
proof (cases existing)
  case None
  then show ?thesis using assms size_bound_insert [OF assms(1)] by (fastforce simp: createPendingMembership_def tx_runs new_membership_def)
next
  case (Some g)
  let ?p = "\<lambda>x. gm_ID x = gm_ID g \<and> gm_Status x = MembershipLeft"
  let ?f = "\<lambda>g. g\<lparr>gm_Status := MembershipPending, gm_Paid := b, gm_JoinedAt := None, gm_RemovedAt := None, gm_RemovedBy := None\<rparr>"
  have s': "s' = s\<lparr>db_memberships := update_where ?p ?f (db_memberships s)\<rparr>"
    using assms(2) Some by (auto simp: reactivateMembership_def tx_runs)
  have "count_where (is_active i) (update_where ?p ?f rows) = count_where (is_active i) rows" for i rows
    by (induction rows) (auto simp: is_active_def)
  then show ?thesis using size_bound_update [OF assms(1), of ?f ?p] by (simp add: s' count_active_def)
qed

lemma RequestJoin_room:
  "tx_valid (size_bound params c) (RequestJoinByInviteCode code u (group_max_of params) (group_free_max_of params))
     (\<lambda>(q, m) s. size_bound params c s \<and> has_room params (q_ID q) s) (\<lambda>_. size_bound params c)"
proof (rule tx_validI)
  fix fs s e fs' s' assume "size_bound params c s"
    "RequestJoinByInviteCode code u (group_max_of params) (group_free_max_of params) fs s = (Inl e, fs', s')"
  then show "size_bound params c s'" by (auto simp: RequestJoinByInviteCode_def dest: withTx_Inl)
next
  fix fs s x fs' s' assume I: "size_bound params c s"
    and run: "RequestJoinByInviteCode code u (group_max_of params) (group_free_max_of params) fs s = (Inr x, fs', s')"
  obtain q m where x: "x = (q, m)" by (cases x)
  obtain existing fs1 fs2 where q: "q \<in> set (db_quinielas s)" and "q_InviteCode q = code" "q_DeletedAt q = None"
    "existing = find (\<lambda>g. gm_QuinielaID g = q_ID q \<and> gm_UserID g = u) (db_memberships s)"
    "validateMembershipStatus existing = Inr ()" "count_active (q_ID q) s < group_max_of params"
    and cap: "\<not> q_IsPremium q \<and> 0 < group_free_max_of params \<longrightarrow> count_active (q_ID q) s < group_free_max_of params"
    and w: "(case existing of Some g \<Rightarrow> reactivateMembership (gm_ID g) (q_EntryFee q = 0)
       | None \<Rightarrow> createPendingMembership (q_ID q) u (q_EntryFee q = 0)) fs1 s = (Inr m, fs2, s')"
    by (rule RequestJoinByInviteCode_run [OF run [unfolded x]])
  have same: "size_bound params c s'" "db_quinielas s' = db_quinielas s" "\<forall>i. count_active i s' = count_active i s"
    using pending_membership_run [OF I w] by auto
  have "q' = q" if "q' \<in> set (db_quinielas s)" "q_ID q' = q_ID q" for q'
    using that q I by (auto simp: size_bound_def members_wf_def distinct_map inj_on_def)
  then show "(case x of (q, m) \<Rightarrow> \<lambda>s. size_bound params c s \<and> has_room params (q_ID q) s) s'"
    using x cap same by (auto simp: has_room_def)
qed

lemma activate_count:
  assumes "distinct (map gm_ID rows)"
  shows "count_where (is_active j) (update_where (\<lambda>g. gm_ID g = k \<and> gm_QuinielaID g = i \<and> gm_Status g = MembershipPending)
     (\<lambda>g. g\<lparr>gm_Status := MembershipActive, gm_JoinedAt := t\<rparr>) rows) \<le> count_where (is_active j) rows + (if i = j then 1 else 0)"
  using assms
proof (induction rows)
  case (Cons r rows)
  have "k \<notin> gm_ID ` set rows" if "gm_ID r = k" using Cons.prems that by simp
  then have "update_where (\<lambda>g. gm_ID g = k \<and> gm_QuinielaID g = i \<and> gm_Status g = MembershipPending) f rows = rows" if "gm_ID r = k" for f
    using that by (intro update_where_none) blast
  with Cons show ?case by (cases "gm_ID r = k") (auto simp: is_active_def)
qed simp

lemma ApproveMembership_run:
  assumes "ApproveMembership k i now mn mx fs s = (Inr m, fs', s')"
  shows "\<exists>s1. s1 = s\<lparr>db_memberships := update_where (\<lambda>g. gm_ID g = k \<and> gm_QuinielaID g = i \<and> gm_Status g = MembershipPending)
       (\<lambda>g. g\<lparr>gm_Status := MembershipActive, gm_JoinedAt := Some now\<rparr>) (db_memberships s)\<rparr> \<and>
     (\<exists>g\<in>set (db_memberships s). gm_ID g = k \<and> gm_QuinielaID g = i \<and> gm_Status g = MembershipPending) \<and>
     get_quiniela s i \<noteq> None \<and> count_active i s < mx \<and>
     s' = s1\<lparr>db_quinielas := update_where (\<lambda>q. q_ID q = i \<and> q_DeletedAt q = None) (\<lambda>q. q\<lparr>q_Status :=
       if count_active i s1 \<ge> mn then QuinielaStatusActive else QuinielaStatusInactive\<rparr>) (db_quinielas s)\<rparr>"
  using withTx_Inr [OF assms [unfolded ApproveMembership_def]]
  unfolding lock_quiniela_def enforceMaxMembers_def syncStatusInTx_def
  by (auto simp: tx_runs not_le dest!: filter_hd split: if_splits)

lemma ApproveMembership_valid:
  "tx_valid (\<lambda>s. size_bound params c s \<and> has_room params i s) (ApproveMembership k i now mn (group_max_of params))
     (\<lambda>_. size_bound params c) (\<lambda>_. size_bound params c)"
proof (rule tx_validI)
  fix fs s e fs' s' assume "size_bound params c s \<and> has_room params i s"
    "ApproveMembership k i now mn (group_max_of params) fs s = (Inl e, fs', s')"
  then show "size_bound params c s'" by (auto simp: ApproveMembership_def dest: withTx_Inl)
next
  fix fs s m fs' s' assume I: "size_bound params c s \<and> has_room params i s"
    and run: "ApproveMembership k i now mn (group_max_of params) fs s = (Inr m, fs', s')"
  define s1 where "s1 = s\<lparr>db_memberships := update_where (\<lambda>g. gm_ID g = k \<and> gm_QuinielaID g = i \<and> gm_Status g = MembershipPending)
       (\<lambda>g. g\<lparr>gm_Status := MembershipActive, gm_JoinedAt := Some now\<rparr>) (db_memberships s)\<rparr>"
  have r: "count_active i s < group_max_of params" "s' = s1\<lparr>db_quinielas := update_where (\<lambda>q. q_ID q = i \<and> q_DeletedAt q = None) (\<lambda>q. q\<lparr>q_Status :=
       if count_active i s1 \<ge> mn then QuinielaStatusActive else QuinielaStatusInactive\<rparr>) (db_quinielas s1)\<rparr>"
    using ApproveMembership_run [OF run] by (auto simp: s1_def)
  have "count_active j s1 \<le> count_active j s + (if i = j then 1 else 0)" for j
    using activate_count [of "db_memberships s"] I by (simp add: count_active_def s1_def size_bound_def members_wf_def)
  note grow = this
  have "count_active (q_ID q) s1 \<le> max (group_limit params q) (c (q_ID q))" if q: "q \<in> set (db_quinielas s)" for q
  proof (cases "q_ID q = i")
    case True
    have "\<not> q_IsPremium q \<and> 0 < group_free_max_of params \<longrightarrow> count_active i s < group_free_max_of params"
      using I q True unfolding has_room_def by blast
    then have "count_active i s + 1 \<le> group_limit params q" using r(1) unfolding group_limit_def by auto
    then show ?thesis using grow [of i] True by simp
  next
    case False
    then have "count_active (q_ID q) s1 \<le> count_active (q_ID q) s" using grow [of "q_ID q"] by simp
    also have "\<dots> \<le> max (group_limit params q) (c (q_ID q))" using I q unfolding size_bound_def by blast
    finally show ?thesis .
  qed
  moreover have "members_wf s1" unfolding s1_def using I by (intro members_wf_update) (simp_all add: size_bound_def)
  ultimately have "size_bound params c s1" using I by (simp add: size_bound_def s1_def)
  then show "size_bound params c s'" unfolding r(2) by (rule size_bound_sync) simp_all
qed

section \<open>The requests of the membership service\<close>

datatype membership_op =
    OpJoin string int
  | OpJoinWithBalance string int
  | OpApproveJoin int int int
  | OpRejectJoin int int int
  | OpLeave int int
  | OpMarkPaid int int
  | OpTransferOwnership int int
  | OpRemoveMember int int
  | OpBulkRemoveMembers int "int list" int
  | OpChargeAll int int
  | OpValidateDeposit int int string
  | OpRejectDeposit int int string

fun run_membership_op :: "nat \<Rightarrow> (int \<Rightarrow> int dbprog) option \<Rightarrow> membership_op \<Rightarrow> unit dbprog" where
  "run_membership_op n fx (OpJoin code u) = tx_void (Join code u)"
| "run_membership_op n fx (OpJoinWithBalance code u) = tx_void (JoinWithBalance n fx code u)"
| "run_membership_op n fx (OpApproveJoin q k u) = tx_void (ApproveJoin n fx q k u)"
| "run_membership_op n fx (OpRejectJoin q k u) = RejectJoin q k u"
| "run_membership_op n fx (OpLeave q u) = Leave q u"
| "run_membership_op n fx (OpMarkPaid q u) = tx_void (MarkPaid q u)"
| "run_membership_op n fx (OpTransferOwnership q u) = TransferOwnership q u"
| "run_membership_op n fx (OpRemoveMember k a) = RemoveMember k a"
| "run_membership_op n fx (OpBulkRemoveMembers q ks a) = tx_void (BulkRemoveMembers q ks a)"
| "run_membership_op n fx (OpChargeAll q amount) = tx_void (BulkDebitAndMarkPaid n q amount)"
| "run_membership_op n fx (OpValidateDeposit p a t) = tx_void (ValidateDeposit p a t)"
| "run_membership_op n fx (OpRejectDeposit p a t) = tx_void (RejectDeposit p a t)"

text \<open>The conversion service only reads.\<close>
definition fx_reads :: "(int \<Rightarrow> int dbprog) option \<Rightarrow> bool" where
  "fx_reads fx \<longleftrightarrow> (\<forall>convert c. fx = Some convert \<longrightarrow> reads_only (convert c))"

lemma entryFee_keeps: "fx_reads fx \<Longrightarrow> tx_keeps I (entryFeeInUserCurrency fx u fee)"
  unfolding entryFeeInUserCurrency_def GetBalanceCurrency_def
  by (intro tx_keep) (auto simp: fx_reads_def intro!: tx_keep reads_only_keeps)

lemma size_bound_params: "size_bound params c s \<Longrightarrow> db_params s = params"
  by (simp add: size_bound_def)

lemmas room_valid = tx_valid_of_keeps [where I = "\<lambda>s. size_bound params c s \<and> has_room params i s" and E = "size_bound params c" for params c i]

lemma approve_step:
  "tx_valid (\<lambda>s. size_bound params c s \<and> has_room params i s)
     (tx_bind (tx_read db_now) (\<lambda>now. ApproveMembership k i now mn (group_max_of params)))
     (\<lambda>_. size_bound params c) (\<lambda>_. size_bound params c)"
  by (rule tx_valid_bind [where R = "\<lambda>_ s. size_bound params c s \<and> has_room params i s"])
     (auto intro!: tx_valid_read ApproveMembership_valid)

lemma params_step:
  assumes "\<And>s. P s \<Longrightarrow> db_params s = params" "tx_valid P (f (GetInt params key d)) Q E"
  shows "tx_valid P (tx_bind (param_int key d) f) Q E"
  unfolding param_int_def by (rule tx_valid_read_const [where v = "GetInt params key d"]) (use assms in auto)

lemma group_max_step:
  assumes "\<And>s. P s \<Longrightarrow> db_params s = params" "tx_valid P (f (group_max_of params)) Q E"
  shows "tx_valid P (tx_bind group_max f) Q E"
  using assms unfolding group_max_def group_max_of_def by (rule params_step)

lemma group_free_max_step:
  assumes "\<And>s. P s \<Longrightarrow> db_params s = params" "tx_valid P (f (group_free_max_of params)) Q E"
  shows "tx_valid P (tx_bind group_free_max f) Q E"
  using assms unfolding group_free_max_def group_free_max_of_def by (rule params_step)

lemma approve_now:
  "tx_valid (\<lambda>s. size_bound params c s \<and> has_room params i s)
     (tx_bind group_min (\<lambda>minMembers. tx_bind (tx_read db_now) (\<lambda>now. ApproveMembership k i now minMembers (group_max_of params))))
     (\<lambda>_. size_bound params c) (\<lambda>_. size_bound params c)"
  unfolding group_min_def by (rule params_step [where params = params]) (auto dest: size_bound_params intro: approve_step)

lemma join_step:
  assumes "\<And>q m. tx_valid (\<lambda>s. size_bound params c s \<and> has_room params (q_ID q) s) (f (group_max_of params) q m)
     (\<lambda>_. size_bound params c) (\<lambda>_. size_bound params c)"
  shows "tx_keeps (size_bound params c) (tx_bind group_max (\<lambda>maxMembers. tx_bind group_free_max (\<lambda>freeMax.
     tx_bind (RequestJoinByInviteCode code u maxMembers freeMax) (\<lambda>(q, m). f maxMembers q m))))"
  unfolding tx_keeps_def
proof (rule group_max_step [where params = params], erule size_bound_params, rule group_free_max_step [where params = params], erule size_bound_params,
    rule tx_valid_bind [OF RequestJoin_room])
  fix x :: "Quiniela \<times> GroupMembership"
  obtain q m where "x = (q, m)" by (cases x)
  then show "tx_valid (case x of (q, m) \<Rightarrow> \<lambda>s. size_bound params c s \<and> has_room params (q_ID q) s) (case x of (q, m) \<Rightarrow> f (group_max_of params) q m)
     (\<lambda>_. size_bound params c) (\<lambda>_. size_bound params c)" using assms by simp
qed

lemma Join_keeps: "tx_keeps (size_bound params c) (Join code u)"
  unfolding Join_def
proof (rule join_step)
  fix q :: Quiniela and m
  let ?J = "\<lambda>s. size_bound params c s \<and> has_room params (q_ID q) s"
  show "tx_valid ?J (tx_bind (if q_EntryFee q > 0 then createPendingPayment q u else tx_ret ()) (\<lambda>_.
     if \<not> q_RequireApproval q then
       tx_bind group_min (\<lambda>minMembers. tx_bind (tx_read db_now) (\<lambda>now. ApproveMembership (gm_ID m) (q_ID q) now minMembers (group_max_of params)))
     else tx_ret m)) (\<lambda>_. size_bound params c) (\<lambda>_. size_bound params c)"
    by (rule tx_valid_bind [OF room_valid]) (auto intro!: tx_keep room.keeps_createPendingPayment approve_now tx_valid_ret)
qed

lemma JoinWithBalance_keeps: "fx_reads fx \<Longrightarrow> tx_keeps (size_bound params c) (JoinWithBalance n fx code u)"
  unfolding JoinWithBalance_def
proof (rule join_step)
  fix q :: Quiniela and m assume fx: "fx_reads fx"
  let ?J = "\<lambda>s. size_bound params c s \<and> has_room params (q_ID q) s"
  have a: "tx_valid ?J (if \<not> q_RequireApproval q then
         tx_bind group_min (\<lambda>minMembers. tx_bind group_max (\<lambda>maxMembers. tx_bind (tx_read db_now) (\<lambda>now.
         ApproveMembership (gm_ID m) (q_ID q) now minMembers maxMembers)))
       else tx_ret m) (\<lambda>_. size_bound params c) (\<lambda>_. size_bound params c)" for m
    unfolding group_min_def
    by (intro tx_valid_if params_step [where params = params] group_max_step [where params = params])
       (auto dest: size_bound_params intro!: tx_valid_ret intro: approve_step)
  show "tx_valid ?J (if q_EntryFee q \<le> 0 then tx_err (Conflict ''this quiniela has no entry fee - use the standard join endpoint'')
     else
       tx_bind (entryFeeInUserCurrency fx u (q_EntryFee q)) (\<lambda>feeCents.
       tx_bind (DebitBalanceAndMarkPaid n (q_ID q) u feeCents) (\<lambda>_.
       if \<not> q_RequireApproval q then
         tx_bind group_min (\<lambda>minMembers.
         tx_bind group_max (\<lambda>maxMembers.
         tx_bind (tx_read db_now) (\<lambda>now.
         ApproveMembership (gm_ID m) (q_ID q) now minMembers maxMembers)))
       else tx_ret m))) (\<lambda>_. size_bound params c) (\<lambda>_. size_bound params c)"
    by (intro tx_valid_if tx_valid_bind [OF room_valid] a)
       (auto intro!: tx_valid_err entryFee_keeps [OF fx] room.keeps_DebitBalanceAndMarkPaid)
qed

lemma pending_request_keeps: "tx_keeps I (pending_request q k)"
  unfolding pending_request_def GetMembershipByID_def by (intro tx_keep)

lemma RequireActiveMember_keeps: "tx_keeps I (RequireActiveMember q u)"
  unfolding RequireActiveMember_def GetByQuinielaAndUser_def by (intro tx_keep)

text \<open>The fee rules leave room in the group: a free group is below its limit, a premium group has none of its own.\<close>
lemma enforceApprovalFeeRules_room:
  assumes "fx_reads fx"
  shows "tx_valid (\<lambda>s. size_bound params c s \<and> q \<in> set (db_quinielas s)) (enforceApprovalFeeRules n fx q pending)
     (\<lambda>_ s. size_bound params c s \<and> has_room params (q_ID q) s) (\<lambda>_. size_bound params c)"
proof (cases "q_IsPremium q")
  case True
  have "has_room params (q_ID q) s" if "size_bound params c s" "q \<in> set (db_quinielas s)" for s
    using that True by (auto simp: has_room_def size_bound_def members_wf_def distinct_map inj_on_def)
  moreover have "tx_valid (\<lambda>s. size_bound params c s \<and> has_room params (q_ID q) s) (enforceApprovalFeeRules n fx q pending)
     (\<lambda>_ s. size_bound params c s \<and> has_room params (q_ID q) s) (\<lambda>_. size_bound params c)"
    using True unfolding enforceApprovalFeeRules_def
    by (intro room_valid) (auto intro!: tx_keep entryFee_keeps [OF assms] room.keeps_DebitBalanceAndMarkPaid)
  ultimately show ?thesis by (elim tx_valid_weaken) auto
next
  case False
  then show ?thesis unfolding enforceApprovalFeeRules_def CountActive_def
    by (simp, intro group_free_max_step [where params = params] tx_valid_bind [where R = "\<lambda>n s. size_bound params c s \<and> n = count_active (q_ID q) s"])
       (auto dest: size_bound_params intro!: tx_valid_query tx_valid_guard simp: has_room_def)
qed

lemma ApproveJoin_keeps:
  assumes "fx_reads fx"
  shows "tx_keeps (size_bound params c) (ApproveJoin n fx i k u)"
  unfolding ApproveJoin_def tx_keeps_def
proof (rule tx_valid_bind [OF tx_valid_of_keeps [OF RequireActiveMember_keeps]], assumption, rule tx_valid_bind [OF tx_valid_of_keeps [OF pending_request_keeps]], assumption)
  fix x :: unit and pending :: GroupMembership
  let ?I = "size_bound params c"
  have g: "tx_valid ?I (GetGroup i) (\<lambda>r s. ?I s \<and> (\<forall>q. r = Some q \<longrightarrow> q \<in> set (db_quinielas s) \<and> q_ID q = i)) (\<lambda>_. ?I)"
    unfolding GetGroup_def get_quiniela_def
    by (rule tx_valid_query) (auto split: option.splits if_splits simp: find_Some_iff dest: nth_mem)
  have a: "tx_valid (\<lambda>s. ?I s \<and> q \<in> set (db_quinielas s)) (tx_bind (enforceApprovalFeeRules n fx q pending) (\<lambda>_.
         tx_bind group_min (\<lambda>minMembers. tx_bind group_max (\<lambda>maxMembers. tx_bind (tx_read db_now) (\<lambda>now.
         ApproveMembership k (q_ID q) now minMembers maxMembers))))) (\<lambda>_. ?I) (\<lambda>_. ?I)" for q
    unfolding group_min_def
    by (intro tx_valid_bind [OF enforceApprovalFeeRules_room [OF assms]] params_step [where params = params] group_max_step [where params = params])
       (auto dest: size_bound_params intro: approve_step)
  show "tx_valid ?I (tx_bind (GetGroup i) (\<lambda>r. case r of None \<Rightarrow> tx_err (NotFound ''group not found'')
     | Some q \<Rightarrow> tx_bind (enforceApprovalFeeRules n fx q pending) (\<lambda>_.
         tx_bind group_min (\<lambda>minMembers. tx_bind group_max (\<lambda>maxMembers. tx_bind (tx_read db_now) (\<lambda>now.
         ApproveMembership k i now minMembers maxMembers)))))) (\<lambda>_. ?I) (\<lambda>_. ?I)"
  proof (rule tx_valid_bind [OF g])
    fix r
    show "tx_valid (\<lambda>s. ?I s \<and> (\<forall>q. r = Some q \<longrightarrow> q \<in> set (db_quinielas s) \<and> q_ID q = i)) (case r of None \<Rightarrow> tx_err (NotFound ''group not found'')
     | Some q \<Rightarrow> tx_bind (enforceApprovalFeeRules n fx q pending) (\<lambda>_.
         tx_bind group_min (\<lambda>minMembers. tx_bind group_max (\<lambda>maxMembers. tx_bind (tx_read db_now) (\<lambda>now.
         ApproveMembership k i now minMembers maxMembers))))) (\<lambda>_. ?I) (\<lambda>_. ?I)"
    proof (cases r)
      case (Some q)
      then show ?thesis using a [of q] by (cases "q_ID q = i") (auto elim!: tx_valid_weaken)
    qed (auto intro!: tx_valid_err)
  qed
qed

lemma leave_keeps:
  "tx_keeps (size_bound params c) (LeaveMembership q u now mn)"
  "tx_keeps (size_bound params c) (LeaveMembershipAndTransferOwnership q u k now mn)"
  "tx_keeps (size_bound params c) (TransferOwnershipRoles q k)"
  "tx_keeps (size_bound params c) (RemoveByAdmin k a)"
  "tx_keeps (size_bound params c) (BulkRemoveByAdmin q ks a)"
  unfolding LeaveMembership_def LeaveMembershipAndTransferOwnership_def TransferOwnershipRoles_def demote_owners_def
    RemoveByAdmin_def BulkRemoveByAdmin_def
  by (intro tx_keep syncStatusInTx_keeps; auto simp: tx_runs intro!: size_bound_update)+

lemma run_membership_op_keeps:
  assumes "fx_reads fx"
  shows "tx_keeps (size_bound params c) (run_membership_op n fx oper)"
proof (cases oper)
  case (OpLeave q u)
  have "tx_keeps (size_bound params c) (Leave q u)"
    unfolding Leave_def GetByQuinielaAndUser_def OldestActiveMember_def group_min_def param_int_def by (intro tx_keep leave_keeps)
  then show ?thesis using OpLeave by simp
next
  case (OpMarkPaid q u)
  then show ?thesis by (simp add: MarkPaid_def) (intro tx_keep sizes.keeps_quiet_update; simp)
next
  case (OpValidateDeposit p a t)
  then show ?thesis
    by (simp add: ValidateDeposit_def ValidateAndMarkPaid_def)
      (intro tx_keep sizes.keeps_quiet_update sizes.keeps_payment_review sizes.keeps_payment_settled; simp)
next
  case (OpRejectDeposit p a t)
  then show ?thesis
    by (simp add: RejectDeposit_def RejectPayment_def reviewPending_def) (intro tx_keep sizes.keeps_payment_review sizes.keeps_payment_settled)
next
  case (OpTransferOwnership q u)
  then show ?thesis by (simp add: TransferOwnership_def GetByQuinielaAndUser_def) (intro tx_keep leave_keeps)
next
  case (OpRejectJoin q k u)
  then show ?thesis by (simp add: RejectJoin_def) (intro tx_keep RequireActiveMember_keeps pending_request_keeps leave_keeps)
next
  case (OpBulkRemoveMembers q ks a)
  then show ?thesis by (simp add: BulkRemoveMembers_def) (intro tx_keep leave_keeps)
qed (simp_all add: RemoveMember_def Join_keeps JoinWithBalance_keeps [OF assms] ApproveJoin_keeps [OF assms] leave_keeps
       sizes.keeps_BulkDebitAndMarkPaid tx_keeps_void)


definition example_open_db :: db where
  "example_open_db = example_group_db\<lparr>db_seq := 10, db_params := [''group.max_size'' \<mapsto> ''3''], db_quinielas := [example_quiniela\<lparr>q_RequireApproval := False\<rparr>],
     db_users := (\<lambda>i. if i \<in> {1, 2, 3, 4} then Some (example_user i) else None)\<rparr>"

lemma example_open_db_wf: "members_wf example_open_db"
  by (simp add: members_wf_def example_open_db_def example_group_db_def empty_db_def example_quiniela_def example_member_def)


section \<open>Rejections\<close>

lemma find_Some_in: "find P xs = Some x \<Longrightarrow> x \<in> set xs \<and> P x"
  by (auto simp: find_Some_iff)

lemma members_wf_same:
  "members_wf s \<Longrightarrow> g \<in> set (db_memberships s) \<Longrightarrow> h \<in> set (db_memberships s) \<Longrightarrow> gm_ID g = gm_ID h \<Longrightarrow> g = h"
  unfolding members_wf_def distinct_map by (blast dest: inj_onD)

text \<open>
  A join request cannot be rejected. \<open>RejectJoin\<close> requires the request to be pending and then calls \<open>RemoveByAdmin\<close>, whose
  update only matches active memberships: every call ends in an error and leaves the database as it was.
\<close>
theorem RejectJoin_never_succeeds:
  assumes "members_wf s"
  shows "\<not> is_ok (fst (RejectJoin quinielaID membershipID rejectorUserID fs s)) \<and> snd (snd (RejectJoin quinielaID membershipID rejectorUserID fs s)) = s"
proof -
  have "tx_valid (\<lambda>x. x = s) (pending_request quinielaID membershipID) (\<lambda>g x. x = s \<and> gm_ID g = membershipID \<and> g \<in> set (db_memberships s) \<and> gm_Status g = MembershipPending) (\<lambda>_ x. x = s)"
    unfolding pending_request_def GetMembershipByID_def
    by (rule tx_valid_bind [where R = "\<lambda>r x. x = s \<and> r = find (\<lambda>g. gm_ID g = membershipID) (db_memberships s)"])
      (auto intro!: tx_valid_query tx_valid_option tx_valid_if tx_valid_err tx_valid_ret dest!: sym [of "Some _"] find_Some_in)
  moreover have "tx_valid (\<lambda>x. x = s \<and> gm_ID g = membershipID \<and> g \<in> set (db_memberships s) \<and> gm_Status g = MembershipPending)
      (RemoveByAdmin membershipID rejectorUserID) (\<lambda>_ _. False) (\<lambda>_ x. x = s)" for g
  proof (cases "gm_ID g = membershipID \<and> g \<in> set (db_memberships s) \<and> gm_Status g = MembershipPending")
    case True
    have none: "\<not> (gm_ID x = membershipID \<and> gm_Status x = MembershipActive)" if "x \<in> set (db_memberships s)" for x
    proof
      assume x: "gm_ID x = membershipID \<and> gm_Status x = MembershipActive"
      then have "g = x" using True that by (intro members_wf_same [OF assms]) simp_all
      then show False using True x by simp
    qed
    have "filter (\<lambda>x. gm_ID x = membershipID \<and> gm_Status x = MembershipActive) (db_memberships s) = []"
      using none unfolding filter_empty_conv by blast
    moreover have "update_where (\<lambda>x. gm_ID x = membershipID \<and> gm_Status x = MembershipActive) f (db_memberships s) = db_memberships s" for f
      using none by (rule update_where_none)
    ultimately show ?thesis unfolding RemoveByAdmin_def affected_def
      by (intro tx_valid_bind [where R = "\<lambda>rows x. rows = [] \<and> x = s"]) (auto simp: tx_runs intro!: tx_valid_exec tx_valid_guard)
  qed (auto simp: tx_valid_def)
  ultimately have "tx_valid (\<lambda>x. x = s) (RejectJoin quinielaID membershipID rejectorUserID) (\<lambda>_ _. False) (\<lambda>_ x. x = s)"
    unfolding RejectJoin_def
    by (intro tx_valid_bind [OF tx_valid_of_keeps [OF RequireActiveMember_keeps]]) (auto intro: tx_valid_bind)
  note v = tx_validD [OF this refl]
  obtain r fs' s' where run: "RejectJoin quinielaID membershipID rejectorUserID fs s = (r, fs', s')" by (metis prod_cases3)
  then show ?thesis using v by (cases r) auto
qed

theorem RejectJoin_never_succeeds_witness:
  "\<not> is_ok (fst (RejectJoin 1 5 1 [] (example_group_db\<lparr>db_seq := 10, db_memberships := [example_member 1, (example_member 5)\<lparr>gm_Status := MembershipPending\<rparr>]\<rparr>)))"
  using RejectJoin_never_succeeds [of "example_group_db\<lparr>db_seq := 10, db_memberships := [example_member 1, (example_member 5)\<lparr>gm_Status := MembershipPending\<rparr>]\<rparr>"]
  by (simp add: members_wf_def example_group_db_def empty_db_def example_member_def)

section \<open>Ownership\<close>

definition is_owner :: "int \<Rightarrow> GroupMembership \<Rightarrow> bool" where
  "is_owner quinielaID g \<longleftrightarrow> is_active quinielaID g \<and> gm_Role g = MembershipRoleCreateOwner"

text \<open>\<open>g\<close> comes no later than \<open>h\<close> in the order of \<open>joined_at\<close>, nulls last.\<close>
definition joined_before :: "GroupMembership \<Rightarrow> GroupMembership \<Rightarrow> bool" where
  "joined_before g h \<longleftrightarrow> (case (gm_JoinedAt g, gm_JoinedAt h) of
     (_, None) \<Rightarrow> True | (None, Some _) \<Rightarrow> False | (Some a, Some b) \<Rightarrow> a \<le> b)"

lemma first_by_joined_at:
  assumes "first_row (by_joined_at rows) = Some g"
  shows "g \<in> set rows \<and> (\<forall>h\<in>set rows. joined_before g h)"
proof -
  let ?k = "\<lambda>g. case gm_JoinedAt g of None \<Rightarrow> 0 | Some t \<Rightarrow> t"
  let ?xs = "sort_key ?k (filter (\<lambda>g. gm_JoinedAt g \<noteq> None) rows)"
  show ?thesis
  proof (cases ?xs)
    case Nil
    then have "filter (\<lambda>g. gm_JoinedAt g \<noteq> None) rows = []" by (metis length_0_conv length_sort)
    then have "\<forall>g\<in>set rows. gm_JoinedAt g = None" by (simp add: filter_empty_conv)
    moreover from this have "by_joined_at rows = rows" by (simp add: by_joined_at_def)
    ultimately show ?thesis using assms by (auto simp: first_row_def joined_before_def split: list.splits)
  next
    case (Cons x xs)
    then have "g = x" using assms by (simp add: by_joined_at_def first_row_def)
    have "sorted (map ?k (x # xs))" using sorted_sort_key [of ?k] Cons by metis
    then have le: "?k x \<le> ?k h" if "h \<in> set (x # xs)" for h using that by auto
    have "set (x # xs) = {g \<in> set rows. gm_JoinedAt g \<noteq> None}" unfolding Cons [symmetric] by simp
    then have x: "x \<in> set rows" "gm_JoinedAt x \<noteq> None" and all: "\<And>h. h \<in> set rows \<Longrightarrow> gm_JoinedAt h \<noteq> None \<Longrightarrow> h \<in> set (x # xs)"
      by auto
    have "joined_before x h" if "h \<in> set rows" for h
      using x(2) le [OF all [OF that]] by (auto simp: joined_before_def split: option.splits)
    then show ?thesis using \<open>g = x\<close> x(1) by simp
  qed
qed

lemma filter_map_single:
  assumes "distinct (map key rows)" "r \<in> set rows" "\<And>x. x \<in> set rows \<Longrightarrow> P (F x) \<longleftrightarrow> key x = key r"
  shows "filter P (map F rows) = [F r]"
proof -
  have "filter P (map F rows) = map F (filter (\<lambda>x. P (F x)) rows)" by (simp add: filter_map comp_def)
  also have "filter (\<lambda>x. P (F x)) rows = filter (\<lambda>x. key x = key r) rows" using assms(3) by (intro filter_cong) auto
  also have "\<dots> = [r]" using assms(1,2)
  proof (induction rows)
    case (Cons a rows)
    then show ?case by (cases "a = r") (auto simp: filter_empty_conv image_iff)
  qed simp
  finally show ?thesis by simp
qed

lemma update_where_comp3:
  "update_where p3 f3 (update_where p2 f2 (update_where p1 f1 rows)) =
   map (\<lambda>x. let x1 = (if p1 x then f1 x else x); x2 = (if p2 x1 then f2 x1 else x1) in if p3 x2 then f3 x2 else x2) rows"
  by (simp add: update_where_def Let_def)

lemma members_wf_pairs: "members_wf s \<Longrightarrow> distinct (map (\<lambda>g. (gm_QuinielaID g, gm_UserID g)) (db_memberships s))"
  by (simp add: members_wf_def)

lemma find_unique:
  assumes "distinct (map (\<lambda>g. (gm_QuinielaID g, gm_UserID g)) rows)" "g \<in> set rows" "gm_QuinielaID g = q" "gm_UserID g = u"
  shows "find (\<lambda>g. gm_QuinielaID g = q \<and> gm_UserID g = u) rows = Some g"
  using assms by (induction rows) (auto simp: image_iff)

lemma set_by_joined_at: "set (by_joined_at rows) = set rows"
  by (auto simp: by_joined_at_def)

lemma LeaveMembershipAndTransferOwnership_owners:
  assumes "members_wf s" "LeaveMembershipAndTransferOwnership i u (gm_ID x) now mn fs s = (Inr (), fs', s')"
    and x: "x \<in> set (db_memberships s)" "is_active i x" "gm_UserID x \<noteq> u"
  shows "filter (is_owner i) (db_memberships s') = [x\<lparr>gm_Role := MembershipRoleCreateOwner\<rparr>]"
proof -
  let ?F = "\<lambda>g. let g1 = (if is_active i g \<and> gm_Role g = MembershipRoleCreateOwner then g\<lparr>gm_Role := MembershipRoleMember\<rparr> else g);
      g2 = (if gm_ID g1 = gm_ID x \<and> is_active i g1 \<and> gm_UserID g1 \<noteq> u then g1\<lparr>gm_Role := MembershipRoleCreateOwner\<rparr> else g1)
    in if is_active i g2 \<and> gm_UserID g2 = u
       then g2\<lparr>gm_Status := MembershipLeft, gm_Role := MembershipRoleMember, gm_JoinedAt := None, gm_RemovedAt := Some now, gm_RemovedBy := None\<rparr> else g2"
  have "db_memberships s' = map ?F (db_memberships s)"
    using withTx_Inr [OF assms(2) [unfolded LeaveMembershipAndTransferOwnership_def]]
    unfolding demote_owners_def syncStatusInTx_def by (auto simp: tx_runs update_where_comp3)
  moreover have "filter (is_owner i) (map ?F (db_memberships s)) = [?F x]"
    using assms(1) x by (intro filter_map_single [where key = gm_ID]) (auto simp: members_wf_def is_owner_def is_active_def Let_def dest: members_wf_same [OF assms(1) _ x(1)])
  moreover have "?F x = x\<lparr>gm_Role := MembershipRoleCreateOwner\<rparr>" using x(2,3) by (simp add: Let_def is_active_def)
  ultimately show ?thesis by simp
qed

text \<open>
  An owner who leaves hands the group over. When the owner of a group leaves and another active member remains, the group
  has exactly one active owner afterwards: the remaining active member who joined first, whose membership is
  otherwise unchanged.
\<close>
theorem Leave_hands_over_ownership:
  assumes "members_wf s" "Leave quinielaID u fs s = (Inr (), fs', s')"
    and "g \<in> set (db_memberships s)" "is_owner quinielaID g" "gm_UserID g = u"
    and "h \<in> set (db_memberships s)" "is_active quinielaID h" "gm_UserID h \<noteq> u"
  shows "\<exists>x\<in>set (db_memberships s). is_active quinielaID x \<and> gm_UserID x \<noteq> u \<and>
    (\<forall>y\<in>set (db_memberships s). is_active quinielaID y \<and> gm_UserID y \<noteq> u \<longrightarrow> joined_before x y) \<and>
    filter (is_owner quinielaID) (db_memberships s') = [x\<lparr>gm_Role := MembershipRoleCreateOwner\<rparr>]"
proof -
  let ?others = "filter (\<lambda>g. is_active quinielaID g \<and> gm_UserID g \<noteq> u) (db_memberships s)"
  have f: "find (\<lambda>g. gm_QuinielaID g = quinielaID \<and> gm_UserID g = u) (db_memberships s) = Some g"
    using assms(3-5) by (intro find_unique [OF members_wf_pairs [OF assms(1)]]) (auto simp: is_owner_def is_active_def)
  have "by_joined_at ?others \<noteq> []" using assms(6-8) set_by_joined_at [of ?others] by (metis (mono_tags, lifting) filter_empty_conv set_empty)
  then obtain x where x: "first_row (by_joined_at ?others) = Some x" by (cases "by_joined_at ?others") (auto simp: first_row_def)
  have x': "x \<in> set (db_memberships s)" "is_active quinielaID x" "gm_UserID x \<noteq> u"
    "\<forall>y\<in>set (db_memberships s). is_active quinielaID y \<and> gm_UserID y \<noteq> u \<longrightarrow> joined_before x y"
    using first_by_joined_at [OF x] by auto
  obtain fs1 fs2 now mn where run: "LeaveMembershipAndTransferOwnership quinielaID u (gm_ID x) now mn fs1 s = (Inr (), fs2, s')"
    using assms(2,4) f x by (auto simp: Leave_def GetByQuinielaAndUser_def OldestActiveMember_def is_owner_def is_active_def tx_runs group_min_def param_int_def)
  show ?thesis using x' LeaveMembershipAndTransferOwnership_owners [OF assms(1) run x'(1-3)] by blast
qed

definition example_owner_db :: db where
  "example_owner_db = example_group_db\<lparr>db_seq := 10, db_memberships := [(example_member 1)\<lparr>gm_Role := MembershipRoleCreateOwner\<rparr>,
     (example_member 2)\<lparr>gm_JoinedAt := Some 7\<rparr>, (example_member 3)\<lparr>gm_JoinedAt := Some 4\<rparr>]\<rparr>"

lemma example_owner_db_wf: "members_wf example_owner_db"
  by (simp add: members_wf_def example_owner_db_def example_group_db_def empty_db_def example_quiniela_def example_member_def)

theorem Leave_hands_over_ownership_witness:
  "\<exists>x\<in>set (db_memberships example_owner_db). is_active 1 x \<and> gm_UserID x \<noteq> 1 \<and>
    (\<forall>y\<in>set (db_memberships example_owner_db). is_active 1 y \<and> gm_UserID y \<noteq> 1 \<longrightarrow> joined_before x y) \<and>
    filter (is_owner 1) (db_memberships (snd (snd (Leave 1 1 [] example_owner_db)))) = [x\<lparr>gm_Role := MembershipRoleCreateOwner\<rparr>]"
proof (rule Leave_hands_over_ownership [OF example_owner_db_wf run_eta, where g = "(example_member 1)\<lparr>gm_Role := MembershipRoleCreateOwner\<rparr>" and
     h = "(example_member 2)\<lparr>gm_JoinedAt := Some 7\<rparr>"])
  show "fst (Leave 1 1 [] example_owner_db) = Inr ()" by code_simp
qed (simp_all add: example_owner_db_def is_owner_def is_active_def example_member_def)

end
