(* ===== verification/Fees.thy ===== *)
theory Fees
  imports Membership
begin

text \<open>
  Entry fees: the charges of \<^verbatim>\<open>repository/group_membership_repository.go\<close> as operations on the books. A single charge
  and the charge of a whole group are atomic and keep the books; the bulk charge is all or nothing.
\<close>

section \<open>Single charges\<close>

lemma insufficientOrNotFound_run [tx_runs]: "insufficientOrNotFound u fs s = (Inr x, fs', s') \<longleftrightarrow> False"
  by (auto simp: insufficientOrNotFound_def tx_runs split: if_splits)

text \<open>A charge is a posting that the available balance covers; memberships are untouched.\<close>
lemma debit_entry_fee_run:
  assumes "debit_entry_fee q u a fs s = (Inr x, fs', s')"
  shows "posting u (- a) s s'" "db_memberships s' = db_memberships s"
    "\<exists>usr. db_users s u = Some usr \<and> a \<le> u_BalanceCents usr - u_ReservedCents usr"
proof -
  obtain u' s1 where upd: "user_update u (\<lambda>u. u_BalanceCents u - u_ReservedCents u \<ge> a) (add_balance (- a)) s = Inr (Some u', s1)"
    and ins: "ledger_insert \<lparr>lrow_UserID = u, lrow_DeltaCents = - a, lrow_Kind = LedgerKindEntryFee,
         lrow_BalanceAfter = u_BalanceCents u', lrow_RefID = q, lrow_RefType = ''group_membership'', lrow_Reference = [],
         lrow_CreatorID = 0, lrow_SourceCurrency = [], lrow_SourceAmountCents = 0\<rparr> s1 = Inr (x, s')"
    using assms by (auto simp: debit_entry_fee_def tx_runs split: option.splits)
  show "posting u (- a) s s'" by (rule posting_by [OF upd _ _ _ ins]) (simp_all add: add_balance_def)
  obtain usr where "db_users s u = Some usr" "u_BalanceCents usr - u_ReservedCents usr \<ge> a" "s1 = s\<lparr>db_users := (db_users s)(u \<mapsto> u')\<rparr>"
    by (rule user_update_Some [OF upd])
  then show "\<exists>usr. db_users s u = Some usr \<and> a \<le> u_BalanceCents usr - u_ReservedCents usr" "db_memberships s' = db_memberships s"
    using ledger_insert_run(1) [OF ins] by (auto simp: ledger_append_def)
qed

lemma posting_accounts: "posting i d s s' \<Longrightarrow> accounts s' = (accounts s)(i := map_option (\<lambda>b. b + d) (accounts s i))"
  by (auto simp: posting_def accounts_def fun_eq_iff)

lemma posting_length: "posting i d s s' \<Longrightarrow> length (db_ledger s') = length (db_ledger s) + 1"
  by (auto simp: posting_def)

lemma books_memberships [simp]: "books (s\<lparr>db_memberships := m\<rparr>) = books s" "accounts (s\<lparr>db_memberships := m\<rparr>) = accounts s"
  by (simp_all add: books_def accounts_def)

lemma DebitBalanceAndMarkPaid_run:
  assumes "DebitBalanceAndMarkPaid n q u a fs s = (Inr r, fs', s')"
  shows "s' = s \<or> (\<exists>s1. posting u (- a) s s1 \<and>
    s' = s1\<lparr>db_memberships := update_where (\<lambda>g. gm_QuinielaID g = q \<and> gm_UserID g = u) (\<lambda>g. g\<lparr>gm_Paid := True\<rparr>) (db_memberships s)\<rparr>)"
  using assms unfolding DebitBalanceAndMarkPaid_def
proof (rule withRetryTx_cases)
  fix fs1 fs2 assume "tx_bind (debit_entry_fee q u a) (\<lambda>_.
     tx_bind (tx_exec (member_update (\<lambda>g. gm_QuinielaID g = q \<and> gm_UserID g = u) (\<lambda>g. g\<lparr>gm_Paid := True\<rparr>))) (\<lambda>rows.
     tx_bind (row_or (NotFound errMembershipNotFound) rows) (\<lambda>m. tx_ret (Some m)))) fs1 s = (Inr r, fs2, s')"
  then obtain fs3 s1 where d: "debit_entry_fee q u a fs1 s = (Inr (), fs3, s1)"
    and "s' = s1\<lparr>db_memberships := update_where (\<lambda>g. gm_QuinielaID g = q \<and> gm_UserID g = u) (\<lambda>g. g\<lparr>gm_Paid := True\<rparr>) (db_memberships s1)\<rparr>"
    by (auto simp: tx_runs)
  then show ?thesis using debit_entry_fee_run(1,2) [OF d] by auto
qed simp

interpretation debit: money_op "DebitBalanceAndMarkPaid n q u a"
proof
  show "s' = s" if "DebitBalanceAndMarkPaid n q u a fs s = (Inl e, fs', s')" for fs s e fs' s'
    using that unfolding DebitBalanceAndMarkPaid_def by (rule withRetryTx_Inl)
  show "bank_step\<^sup>*\<^sup>* s s'" if "books s" "DebitBalanceAndMarkPaid n q u a fs s = (Inr r, fs', s')" for s fs r fs' s'
    using DebitBalanceAndMarkPaid_run [OF that(2)] by (auto intro: bank_stepI(3) simp: quiet_def accounts_def)
qed

section \<open>Charging a group\<close>

text \<open>Every user of \<open>us\<close> is charged \<open>a\<close> once and marked paid, and nobody else is touched.\<close>
definition charged :: "int \<Rightarrow> int \<Rightarrow> int list \<Rightarrow> db \<Rightarrow> db \<Rightarrow> bool" where
  "charged q a us s s' \<longleftrightarrow> books s' \<and>
     accounts s' = (\<lambda>i. if i \<in> set us then map_option (\<lambda>b. b - a) (accounts s i) else accounts s i) \<and>
     length (db_ledger s') = length (db_ledger s) + length us \<and>
     db_memberships s' = update_where (\<lambda>g. is_active q g \<and> gm_UserID g \<in> set us) (\<lambda>g. g\<lparr>gm_Paid := True\<rparr>) (db_memberships s)"

lemma pay_one_more:
  "update_where (\<lambda>g. is_active q g \<and> gm_UserID g \<in> U) (\<lambda>g. g\<lparr>gm_Paid := True\<rparr>)
     (update_where (\<lambda>g. is_active q g \<and> gm_UserID g = u) (\<lambda>g. g\<lparr>gm_Paid := True\<rparr>) rows) =
   update_where (\<lambda>g. is_active q g \<and> gm_UserID g \<in> insert u U) (\<lambda>g. g\<lparr>gm_Paid := True\<rparr>) rows"
  by (induction rows) (auto simp: is_active_def)

lemma debitMemberAndMarkPaid_run:
  assumes "debitMemberAndMarkPaid q a u fs s = (Inr (), fs', s')"
  obtains fs1 s1 where "debit_entry_fee q u a fs s = (Inr (), fs1, s1)"
    "s' = s1\<lparr>db_memberships := update_where (\<lambda>g. is_active q g \<and> gm_UserID g = u) (\<lambda>g. g\<lparr>gm_Paid := True\<rparr>) (db_memberships s1)\<rparr>"
  using assms by (auto simp: debitMemberAndMarkPaid_def tx_runs)

lemma charge_loop:
  assumes "tx_iter (debitMemberAndMarkPaid q a) us fs s = (Inr (), fs', s')" "books s" "distinct us"
  shows "charged q a us s s'"
  using assms
proof (induction us arbitrary: fs s)
  case Nil
  then show ?case by (simp add: tx_runs charged_def update_where_none)
next
  case (Cons u us)
  from Cons.prems(1) obtain fs2 s2 where one: "debitMemberAndMarkPaid q a u fs s = (Inr (), fs2, s2)"
    and rest: "tx_iter (debitMemberAndMarkPaid q a) us fs2 s2 = (Inr (), fs', s')"
    by (auto simp: tx_runs)
  obtain fs1 s1 where d: "debit_entry_fee q u a fs s = (Inr (), fs1, s1)"
    and s2: "s2 = s1\<lparr>db_memberships := update_where (\<lambda>g. is_active q g \<and> gm_UserID g = u) (\<lambda>g. g\<lparr>gm_Paid := True\<rparr>) (db_memberships s1)\<rparr>"
    by (rule debitMemberAndMarkPaid_run [OF one])
  note p = debit_entry_fee_run [OF d]
  have "books s2" using posting_books [OF Cons.prems(2) p(1)] by (simp add: s2)
  then have c: "charged q a us s2 s'" using Cons.IH [OF rest] Cons.prems(3) by simp
  have acc: "accounts s2 = (accounts s)(u := map_option (\<lambda>b. b - a) (accounts s u))" using posting_accounts [OF p(1)] by (simp add: s2)
  have len: "length (db_ledger s2) = length (db_ledger s) + 1" using posting_length [OF p(1)] by (simp add: s2)
  have mem: "db_memberships s2 = update_where (\<lambda>g. is_active q g \<and> gm_UserID g = u) (\<lambda>g. g\<lparr>gm_Paid := True\<rparr>) (db_memberships s)"
    using p(2) by (simp add: s2)
  show ?case using c Cons.prems(3) unfolding charged_def acc len mem pay_one_more by (auto simp: fun_eq_iff)
qed

lemma mset_by_joined_at: "mset (by_joined_at rows) = mset rows"
  using multiset_partition [of "mset rows" "\<lambda>g. gm_JoinedAt g \<noteq> None"] by (simp add: by_joined_at_def)

lemma BulkDebitAndMarkPaid_run:
  assumes "BulkDebitAndMarkPaid n q a fs s = (Inr us, fs', s')" "books s" "members_wf s" "n \<noteq> 0"
  shows "us = map gm_UserID (by_joined_at (filter (\<lambda>g. is_active q g \<and> \<not> gm_Paid g \<and> gm_RemovedAt g = None) (db_memberships s)))"
    "charged q a us s s'"
proof -
  let ?due = "filter (\<lambda>g. is_active q g \<and> \<not> gm_Paid g \<and> gm_RemovedAt g = None) (db_memberships s)"
  obtain fs1 fs2 where us: "us = map gm_UserID (by_joined_at ?due)"
    and run: "tx_iter (debitMemberAndMarkPaid q a) us fs1 s = (Inr (), fs2, s')"
    using assms(1,4) unfolding BulkDebitAndMarkPaid_def fetchUnpaidMemberIDs_def by (auto simp: tx_runs dest!: withRetryTx_Inr)
  show "us = map gm_UserID (by_joined_at ?due)" by (rule us)
  have "distinct (map (\<lambda>g. (gm_QuinielaID g, gm_UserID g)) ?due)" using members_wf_pairs [OF assms(3)] by (rule distinct_map_filter)
  then have "distinct (map gm_UserID ?due)" by (auto simp: distinct_map inj_on_def is_active_def)
  moreover have "mset (map gm_UserID (by_joined_at ?due)) = mset (map gm_UserID ?due)" by (simp add: mset_by_joined_at)
  ultimately have "distinct us" unfolding us using mset_eq_imp_distinct_iff by blast
  then show "charged q a us s s'" by (rule charge_loop [OF run assms(2)])
qed

lemma BulkDebitAndMarkPaid_settles:
  assumes "BulkDebitAndMarkPaid n q a fs s = (Inr us, fs', s')" "books s" "members_wf s" "n \<noteq> 0"
  shows "set us = {gm_UserID g |g. g \<in> set (db_memberships s) \<and> is_active q g \<and> \<not> gm_Paid g \<and> gm_RemovedAt g = None}"
    "g \<in> set (db_memberships s') \<Longrightarrow> is_active q g \<Longrightarrow> gm_RemovedAt g = None \<Longrightarrow> gm_Paid g"
proof -
  note r = BulkDebitAndMarkPaid_run [OF assms]
  show set: "set us = {gm_UserID g |g. g \<in> set (db_memberships s) \<and> is_active q g \<and> \<not> gm_Paid g \<and> gm_RemovedAt g = None}"
    unfolding r(1) by (auto simp: set_by_joined_at)
  show "gm_Paid g" if "g \<in> set (db_memberships s')" "is_active q g" "gm_RemovedAt g = None" for g
  proof (rule ccontr)
    assume unpaid: "\<not> gm_Paid g"
    have "g \<in> set (db_memberships s)" "\<not> (is_active q g \<and> gm_UserID g \<in> set us)"
      using that(1) r(2) unpaid by (auto simp: charged_def set_update_where)
    moreover from this(1) that(2,3) unpaid have "gm_UserID g \<in> set us" unfolding set by blast
    ultimately show False using that(2) by simp
  qed
qed

lemma charge_loop_steps:
  "tx_iter (debitMemberAndMarkPaid q a) us fs s = (Inr (), fs', s') \<Longrightarrow> bank_step\<^sup>*\<^sup>* s s'"
proof (induction us arbitrary: fs s)
  case (Cons u us)
  then obtain fs1 s1 where one: "debitMemberAndMarkPaid q a u fs s = (Inr (), fs1, s1)"
    and rest: "tx_iter (debitMemberAndMarkPaid q a) us fs1 s1 = (Inr (), fs', s')" by (auto simp: tx_runs)
  from one have "bank_step\<^sup>*\<^sup>* s s1"
    by (rule debitMemberAndMarkPaid_run) (auto dest!: debit_entry_fee_run(1) intro: bank_stepI(3) simp: quiet_def accounts_def)
  then show ?case using Cons.IH [OF rest] by (rule rtranclp_trans)
qed (simp add: tx_runs)

interpretation bulk_debit: money_op "BulkDebitAndMarkPaid n q a"
proof
  show "s' = s" if "BulkDebitAndMarkPaid n q a fs s = (Inl e, fs', s')" for fs s e fs' s'
    using that unfolding BulkDebitAndMarkPaid_def by (rule withRetryTx_Inl)
  show "bank_step\<^sup>*\<^sup>* s s'" if "books s" "BulkDebitAndMarkPaid n q a fs s = (Inr r, fs', s')" for s fs r fs' s'
    using that(2) unfolding BulkDebitAndMarkPaid_def fetchUnpaidMemberIDs_def
    by (rule withRetryTx_cases) (auto simp: tx_runs intro: charge_loop_steps)
qed

text \<open>
  Charging a whole group is all or nothing. When the bulk charge of a group succeeds, every active member who had
  not paid is charged the amount exactly once and everybody active has paid, and no other account
  changes; when it fails, for one member or for any other reason and after however many retries, nothing
  at all has changed.
\<close>
theorem BulkDebitAndMarkPaid_all_or_nothing:
  assumes "books s" "members_wf s" "0 < n" "BulkDebitAndMarkPaid n quinielaID amountCents fs s = (r, fs', s')"
  shows "case r of
     Inl e \<Rightarrow> s' = s
   | Inr us \<Rightarrow>
       set us = {gm_UserID g |g. g \<in> set (db_memberships s) \<and> is_active quinielaID g \<and> \<not> gm_Paid g \<and> gm_RemovedAt g = None} \<and>
       accounts s' = (\<lambda>i. if i \<in> set us then map_option (\<lambda>b. b - amountCents) (accounts s i) else accounts s i) \<and>
       length (db_ledger s') = length (db_ledger s) + length us \<and> books s' \<and>
       (\<forall>g\<in>set (db_memberships s'). is_active quinielaID g \<and> gm_RemovedAt g = None \<longrightarrow> gm_Paid g)"
proof (cases r)
  case (Inl e)
  then show ?thesis using assms(4) bulk_debit.no_trace by simp
next
  case (Inr us)
  note run = assms(4) [unfolded Inr] assms(1,2) assms(3) [THEN gr_implies_not0]
  show ?thesis using BulkDebitAndMarkPaid_run(2) [OF run] BulkDebitAndMarkPaid_settles [OF run] unfolding Inr charged_def by simp
qed

definition example_charge_db :: db where
  "example_charge_db = example_bank_db\<lparr>db_seq := 10, db_quinielas := [example_quiniela],
     db_memberships := [(example_member 1)\<lparr>gm_Paid := False\<rparr>, example_member 2],
     db_users := [1 \<mapsto> (example_user 1)\<lparr>u_BalanceCents := 500\<rparr>, 2 \<mapsto> example_user 2],
     db_ledger := [ledger_row_of 1 0 (claim_row 1 500 LedgerKindBankTransfer ''t'' ''GTQ'' 500)\<lparr>bl_BalanceAfter := 500\<rparr>]\<rparr>"

lemma example_charge_books: "books example_charge_db"
  by (auto simp: books_def example_charge_db_def example_bank_db_def empty_db_def running_totals_def in_int32_def ledger_row_of_def claim_row_def
      example_user_def split: if_splits)

lemma example_charge_wf: "members_wf example_charge_db"
  by (simp add: members_wf_def example_charge_db_def example_bank_db_def empty_db_def example_member_def)

theorem BulkDebitAndMarkPaid_all_or_nothing_witness:
  "accounts (snd (snd (BulkDebitAndMarkPaid 3 1 300 [] example_charge_db))) = (\<lambda>i. if i = 1 then Some 200 else accounts example_charge_db i)"
proof -
  have "fst (BulkDebitAndMarkPaid 3 1 300 [] example_charge_db) = Inr [1]" by code_simp
  from BulkDebitAndMarkPaid_all_or_nothing [OF example_charge_books example_charge_wf _ run_eta [OF this]]
  show ?thesis by (auto simp: fun_eq_iff accounts_def example_charge_db_def)
qed

end
