(* ===== verification/Withdrawals.thy ===== *)
theory Withdrawals
  imports Fees
begin

text \<open>
  Withdrawals: \<^verbatim>\<open>service/withdrawal_service.go\<close>, \<^verbatim>\<open>repository/withdrawal_request_repository.go\<close> and the limits of
  \<^verbatim>\<open>service/kyc_gate.go\<close> with its ledger and profile repositories wired. The localised texts of the gate are
  represented by their reason; payout details are stored as given, their encryption is left out.
\<close>

section \<open>Constants\<close>

definition KYCTierUnverified :: KYCTier where [domain_consts]: "KYCTierUnverified = 0"
definition KYCTierOne :: KYCTier where [domain_consts]: "KYCTierOne = 1"
definition KYCTierTwo :: KYCTier where [domain_consts]: "KYCTierTwo = 2"
definition KYCTierThree :: KYCTier where [domain_consts]: "KYCTierThree = 3"
definition DefaultUSDGTQRate :: int where [domain_consts]: "DefaultUSDGTQRate = 790"
definition DefaultWithdrawalMinCents :: int where [domain_consts]: "DefaultWithdrawalMinCents = 5000"
definition DefaultWithdrawalMaxCents :: int where [domain_consts]: "DefaultWithdrawalMaxCents = 500000"
definition DefaultWithdrawalMinUSDCents :: int where [domain_consts]: "DefaultWithdrawalMinUSDCents = 400"
definition DefaultKYCTier1DepositLimitCents :: int where [domain_consts]: "DefaultKYCTier1DepositLimitCents = 250000"
definition DefaultKYCTier2DepositLimitCents :: int where [domain_consts]: "DefaultKYCTier2DepositLimitCents = 1500000"
definition DefaultKYCTier2PayoutLimitCents :: int where [domain_consts]: "DefaultKYCTier2PayoutLimitCents = 1500000"
definition DefaultKYCAMLThresholdCents :: int where [domain_consts]: "DefaultKYCAMLThresholdCents = 2500000"
definition DefaultKYCIPVelocityWindowMinutes :: int where [domain_consts]: "DefaultKYCIPVelocityWindowMinutes = 60"
definition DefaultKYCIPVelocityMaxSubmissions :: int where [domain_consts]: "DefaultKYCIPVelocityMaxSubmissions = 3"
definition DefaultKYCTier1DepositVelocityCents :: int where [domain_consts]: "DefaultKYCTier1DepositVelocityCents = 5000000"
definition DefaultKYCTier2DepositVelocityCents :: int where [domain_consts]: "DefaultKYCTier2DepositVelocityCents = 20000000"
definition DefaultKYCTier1WithdrawalVelocityCents :: int where [domain_consts]: "DefaultKYCTier1WithdrawalVelocityCents = 0"
definition DefaultKYCTier2WithdrawalVelocityCents :: int where [domain_consts]: "DefaultKYCTier2WithdrawalVelocityCents = 10000000"

definition DefaultNotifyHighValueWithdrawalCents :: int where [domain_consts]: "DefaultNotifyHighValueWithdrawalCents = 1000000"

section \<open>The KYC gate\<close>

text \<open>A parameter read with a fallback for an absent key, a value that is no number, and a failed read.\<close>
definition intParam :: "string \<Rightarrow> int \<Rightarrow> int dbprog" where
  "intParam key defaultVal = tx_try (tx_query (\<lambda>s. db_params s key)) (\<lambda>_. tx_ret defaultVal) (\<lambda>p. tx_ret (case p of
     None \<Rightarrow> defaultVal
   | Some v \<Rightarrow> (case Atoi v of None \<Rightarrow> defaultVal | Some n \<Rightarrow> n)))"

definition userFor :: "int \<Rightarrow> User dbprog" where
  "userFor userID = tx_bind (tx_query (\<lambda>s. db_users s userID)) (\<lambda>r. case r of
     None \<Rightarrow> tx_err (NotFound ''user not found'')
   | Some u \<Rightarrow> if u_DeletedAt u \<noteq> None then tx_err (NotFound ''user not found'') else tx_ret u)"

definition gate_toGTQCents :: "int \<Rightarrow> string \<Rightarrow> int dbprog" where
  "gate_toGTQCents amountCents currency =
    (if currency = ''USD'' then tx_bind (intParam ''payment.usd_gtq_rate'' DefaultUSDGTQRate) (\<lambda>rate. tx_ret (go_quot (go64 (amountCents * rate)) 100))
     else tx_ret amountCents)"

definition CheckWithdrawal :: "int \<Rightarrow> int \<Rightarrow> string \<Rightarrow> unit dbprog" where
  "CheckWithdrawal userID amountCents currency =
     tx_bind (gate_toGTQCents amountCents currency) (\<lambda>amountCents.
     tx_bind (userFor userID) (\<lambda>u.
     if u_KYCTier u < KYCTierTwo then tx_err (Forbidden ''identity verification required'')
     else if u_KYCTier u = KYCTierTwo then
       tx_bind (intParam ''kyc.tier2_payout_limit_cents'' DefaultKYCTier2PayoutLimitCents) (\<lambda>lim.
       tx_guard (\<not> amountCents > lim) (Forbidden ''withdrawal amount exceeds the limit of the verification level''))
     else tx_ret ()))"

definition CheckDeposit :: "int \<Rightarrow> int \<Rightarrow> string \<Rightarrow> unit dbprog" where
  "CheckDeposit userID amountCents currency =
     tx_bind (gate_toGTQCents amountCents currency) (\<lambda>amountCents.
     tx_bind (userFor userID) (\<lambda>u.
     let cap_check = (\<lambda>lim. tx_guard (\<not> amountCents > lim) (Forbidden ''deposit amount exceeds the limit of the verification level'')) in
     if u_KYCTier u = KYCTierUnverified \<or> u_KYCTier u = KYCTierOne then
       tx_bind (intParam ''kyc.tier1_deposit_limit_cents'' DefaultKYCTier1DepositLimitCents) cap_check
     else if u_KYCTier u = KYCTierTwo then
       tx_bind (intParam ''kyc.tier2_deposit_limit_cents'' DefaultKYCTier2DepositLimitCents) cap_check
     else tx_ret ()))"

text \<open>\<^verbatim>\<open>%.2f\<close> of an amount of cents divided by 100 (the accents below are the bytes of UTF-8).\<close>
definition format_cents :: "int \<Rightarrow> string" where
  "format_cents n = (if n < 0 then ''-'' else []) @ Itoa (\<bar>n\<bar> div 100) @ ''.'' @ Itoa (\<bar>n\<bar> mod 100 div 10) @ Itoa (\<bar>n\<bar> mod 10)"

definition win_freeze_reason :: "Locale \<Rightarrow> int \<Rightarrow> string" where
  "win_freeze_reason locale prizeCents = LocaleStr
     (''You have won a prize of Q'' @ format_cents prizeCents @ ''. To receive your funds you must complete identity verification: '' @
      ''Guatemalan residents must upload a valid DPI; foreign residents must upload a valid official document '' @
      ''(passport, residency card or equivalent). Your balance has been held until the compliance team approves your application.'')
     (''Has ganado un premio de Q'' @ format_cents prizeCents @ ''. Para recibir tus fondos debes completar la verificaci'' @
      [CHR 0xC3, CHR 0xB3] @ ''n de identidad: '' @
      ''residentes en Guatemala deben subir su DPI vigente; extranjeros deben subir un documento oficial vigente '' @
      ''(pasaporte, c'' @ [CHR 0xC3, CHR 0xA9] @ ''dula de residencia u equivalente). '' @
      ''Tu saldo ha sido retenido hasta que el equipo de cumplimiento apruebe tu solicitud.'')
     locale"

definition CheckWinFreeze :: "int \<Rightarrow> int \<Rightarrow> (bool \<times> string) dbprog" where
  "CheckWinFreeze userID prizeCents = tx_bind (userFor userID) (\<lambda>u.
     if u_KYCTier u \<ge> KYCTierTwo then tx_ret (False, [])
     else tx_ret (True, win_freeze_reason (ParseLocale (u_Locale u)) prizeCents))"

definition ExceedsAMLThreshold :: "int \<Rightarrow> string \<Rightarrow> bool dbprog" where
  "ExceedsAMLThreshold amountCents currency =
     tx_bind (gate_toGTQCents amountCents currency) (\<lambda>amountCents.
     tx_bind (intParam ''kyc.aml_threshold_cents'' DefaultKYCAMLThresholdCents) (\<lambda>threshold.
     tx_ret (amountCents \<ge> threshold)))"

definition one_day :: duration where
  "one_day = 24 * 3600 * 10 ^ 9"

text \<open>The sum of a user's transactions of the given kinds in the last 24 hours.\<close>
definition day_sum :: "int \<Rightarrow> BalanceLedgerKind list \<Rightarrow> int dbprog" where
  "day_sum userID kinds = tx_bind (tx_read db_now) (\<lambda>now. SumTransactionsByUserAndPeriod userID kinds (now - one_day))"

definition CheckDepositVelocity :: "int \<Rightarrow> int \<Rightarrow> string \<Rightarrow> unit dbprog" where
  "CheckDepositVelocity userID amountCents currency =
     tx_bind (gate_toGTQCents amountCents currency) (\<lambda>amountCents.
     tx_bind (userFor userID) (\<lambda>u.
     let velocity = (\<lambda>lim.
           tx_bind (day_sum userID [LedgerKindBankTransfer, LedgerKindWebhookRecurrente, LedgerKindWebhookPayPal]) (\<lambda>sum.
           tx_guard (\<not> go64 (sum + amountCents) > lim) (Forbidden ''deposit exceeds the 24-hour limit of the verification level''))) in
     if u_KYCTier u = KYCTierUnverified \<or> u_KYCTier u = KYCTierOne then
       tx_bind (intParam ''kyc.tier1_deposit_velocity_cents'' DefaultKYCTier1DepositVelocityCents) velocity
     else if u_KYCTier u = KYCTierTwo then
       tx_bind (intParam ''kyc.tier2_deposit_velocity_cents'' DefaultKYCTier2DepositVelocityCents) velocity
     else tx_ret ()))"

definition CheckWithdrawalVelocity :: "int \<Rightarrow> int \<Rightarrow> string \<Rightarrow> unit dbprog" where
  "CheckWithdrawalVelocity userID amountCents currency =
     tx_bind (gate_toGTQCents amountCents currency) (\<lambda>amountCents.
     tx_bind (userFor userID) (\<lambda>u.
     let velocity = (\<lambda>lim.
           if lim = 0 then tx_err (Forbidden ''verification level does not permit withdrawals'')
           else tx_bind (day_sum userID [LedgerKindWithdrawalDeduct]) (\<lambda>sum.
           tx_guard (\<not> go64 (sum + amountCents) > lim) (Forbidden ''withdrawal exceeds the 24-hour limit of the verification level''))) in
     if u_KYCTier u = KYCTierUnverified \<or> u_KYCTier u = KYCTierOne then
       tx_bind (intParam ''kyc.tier1_withdrawal_velocity_cents'' DefaultKYCTier1WithdrawalVelocityCents) velocity
     else if u_KYCTier u = KYCTierTwo then
       tx_bind (intParam ''kyc.tier2_withdrawal_velocity_cents'' DefaultKYCTier2WithdrawalVelocityCents) velocity
     else tx_ret ()))"

definition ExceedsCumulativeAMLThreshold :: "int \<Rightarrow> int \<Rightarrow> string \<Rightarrow> bool dbprog" where
  "ExceedsCumulativeAMLThreshold userID amountCents currency =
     tx_bind (gate_toGTQCents amountCents currency) (\<lambda>amountCents.
     tx_bind (intParam ''kyc.aml_threshold_cents'' DefaultKYCAMLThresholdCents) (\<lambda>threshold.
     if amountCents \<ge> threshold then tx_ret True
     else tx_bind (day_sum userID [LedgerKindBankTransfer, LedgerKindWebhookRecurrente, LedgerKindWebhookPayPal, LedgerKindPrize]) (\<lambda>sum.
       tx_ret (go64 (sum + amountCents) \<ge> threshold))))"

section \<open>The repository\<close>

definition wr_open :: "WithdrawalRequest \<Rightarrow> bool" where
  "wr_open w \<longleftrightarrow> wr_Status w = WithdrawalPending \<or> wr_Status w = WithdrawalApproved"

text \<open>\<^verbatim>\<open>INSERT INTO withdrawal_requests\<close> with its columns, checks, keys and the unique index on open requests.\<close>
definition withdrawal_insert :: "WithdrawalRequest \<Rightarrow> db \<Rightarrow> go_error + WithdrawalRequest \<times> db" where
  "withdrawal_insert w s = (let w' = w\<lparr>wr_ID := db_seq s, wr_Status := WithdrawalPending, wr_ReviewedBy := None, wr_Notes := [], wr_ProcessedAt := None\<rparr> in
     if \<not> in_int32 (wr_AmountCents w) \<or> \<not> in_int32 (wr_GTQReservedCents w) then Inl (PgError ''22003'')
     else if \<not> wr_AmountCents w > 0 \<or> wr_Method w \<notin> {WithdrawalMethodBankGT, WithdrawalMethodPayPal} then Inl (PgError ''23514'')
     else if list_ex (\<lambda>x. wr_UserID x = wr_UserID w \<and> wr_open x) (db_withdrawals s) then Inl (PgError ''23505'')
     else if \<not> user_exists s (Some (wr_UserID w)) then Inl (PgError ''23503'')
     else Inr (w', s\<lparr>db_seq := db_seq s + 1, db_withdrawals := db_withdrawals s @ [w']\<rparr>))"

definition withdrawal_update ::
  "(WithdrawalRequest \<Rightarrow> bool) \<Rightarrow> (WithdrawalRequest \<Rightarrow> WithdrawalRequest) \<Rightarrow> db \<Rightarrow> go_error + WithdrawalRequest list \<times> db" where
  "withdrawal_update p f s = (let rows = map f (filter p (db_withdrawals s)) in
     if list_ex (\<lambda>w. \<not> user_exists s (wr_ReviewedBy w)) rows then Inl (PgError ''23503'')
     else Inr (rows, s\<lparr>db_withdrawals := update_where p f (db_withdrawals s)\<rparr>))"

definition CreateWithdrawal :: "WithdrawalRequest \<Rightarrow> WithdrawalRequest dbprog" where
  "CreateWithdrawal w = withTx (
     tx_bind (tx_query (\<lambda>s. db_users s (wr_UserID w))) (\<lambda>r.
     tx_bind (case r of
         None \<Rightarrow> tx_err (NotFound ''user not found'')
       | Some u \<Rightarrow> if u_DeletedAt u \<noteq> None then tx_err (NotFound ''user not found'') else tx_ret (u_BalanceCents u - u_ReservedCents u)) (\<lambda>available.
     if available < wr_GTQReservedCents w then tx_err (Conflict ''insufficient balance for withdrawal'')
     else tx_stmt (unique_conflict ''a withdrawal request is already pending for this user'') (withdrawal_insert w))))"

definition GetWithdrawalByID :: "int \<Rightarrow> WithdrawalRequest option dbprog" where
  "GetWithdrawalByID i = tx_query (\<lambda>s. find (\<lambda>w. wr_ID w = i) (db_withdrawals s))"

fun withdrawal_status_text :: "WithdrawalStatus \<Rightarrow> string" where
  "withdrawal_status_text WithdrawalPending = ''pending''"
| "withdrawal_status_text WithdrawalApproved = ''approved''"
| "withdrawal_status_text WithdrawalRejected = ''rejected''"
| "withdrawal_status_text WithdrawalProcessed = ''processed''"

definition notFoundOrConflict :: "int \<Rightarrow> WithdrawalStatus \<Rightarrow> WithdrawalRequest dbprog" where
  "notFoundOrConflict i targetStatus = tx_bind (GetWithdrawalByID i) (\<lambda>existing. case existing of
     None \<Rightarrow> tx_err (NotFound ''withdrawal request not found'')
   | Some w \<Rightarrow> if wr_Status w = targetStatus then tx_ret w
       else tx_err (Conflict (''withdrawal already '' @ withdrawal_status_text (wr_Status w))))"

text \<open>The closure of the approval; \<open>None\<close> when no request was pending.\<close>
definition approve_tx :: "int \<Rightarrow> int \<Rightarrow> string \<Rightarrow> WithdrawalRequest option dbprog" where
  "approve_tx i reviewerID notes =
     tx_bind (tx_exec (withdrawal_update (\<lambda>w. wr_ID w = i \<and> wr_Status w = WithdrawalPending)
       (\<lambda>w. w\<lparr>wr_Status := WithdrawalApproved, wr_ReviewedBy := Some reviewerID, wr_Notes := notes\<rparr>))) (\<lambda>rows. case rows of
       [] \<Rightarrow> tx_ret None
     | w # _ \<Rightarrow>
         tx_bind (tx_exec (user_update (wr_UserID w) (\<lambda>u. u_BalanceCents u - u_ReservedCents u \<ge> wr_GTQReservedCents w)
           (add_balance (- wr_GTQReservedCents w)))) (\<lambda>r. case r of
           None \<Rightarrow> tx_err (Conflict ''insufficient available balance to approve withdrawal'')
         | Some u \<Rightarrow>
             tx_bind (insertLedgerTx \<lparr>lrow_UserID = wr_UserID w, lrow_DeltaCents = - wr_GTQReservedCents w, lrow_Kind = LedgerKindWithdrawalDeduct,
               lrow_BalanceAfter = u_BalanceCents u, lrow_RefID = wr_ID w, lrow_RefType = ''withdrawal_request'', lrow_Reference = [],
               lrow_CreatorID = reviewerID, lrow_SourceCurrency = [], lrow_SourceAmountCents = 0\<rparr>) (\<lambda>_.
             tx_ret (Some w))))"

definition ApproveAndDebit :: "nat \<Rightarrow> int \<Rightarrow> int \<Rightarrow> string \<Rightarrow> WithdrawalRequest dbprog" where
  "ApproveAndDebit maxAttempts i reviewerID notes = tx_bind (withRetryTx None maxAttempts (approve_tx i reviewerID notes)) (\<lambda>r.
     case r of Some w \<Rightarrow> tx_ret w | None \<Rightarrow> notFoundOrConflict i WithdrawalApproved)"

definition RejectWithdrawal :: "int \<Rightarrow> int \<Rightarrow> string \<Rightarrow> WithdrawalRequest dbprog" where
  "RejectWithdrawal i reviewerID notes =
     tx_bind (tx_exec (withdrawal_update (\<lambda>w. wr_ID w = i \<and> wr_Status w = WithdrawalPending)
       (\<lambda>w. w\<lparr>wr_Status := WithdrawalRejected, wr_ReviewedBy := Some reviewerID, wr_Notes := notes\<rparr>))) (\<lambda>rows.
     case rows of w # _ \<Rightarrow> tx_ret w | [] \<Rightarrow> notFoundOrConflict i WithdrawalRejected)"

definition MarkProcessed :: "int \<Rightarrow> WithdrawalRequest dbprog" where
  "MarkProcessed i =
     tx_bind (tx_exec (\<lambda>s. withdrawal_update (\<lambda>w. wr_ID w = i \<and> wr_Status w = WithdrawalApproved)
       (\<lambda>w. w\<lparr>wr_Status := WithdrawalProcessed, wr_ProcessedAt := Some (db_now s)\<rparr>) s)) (\<lambda>rows.
     case rows of w # _ \<Rightarrow> tx_ret w | [] \<Rightarrow> notFoundOrConflict i WithdrawalProcessed)"

section \<open>The service\<close>

definition withdrawalLimits :: "(int \<times> int \<times> int) dbprog" where
  "withdrawalLimits =
     tx_bind (intParam ''payment.withdrawal_min_cents'' DefaultWithdrawalMinCents) (\<lambda>minCents.
     tx_bind (intParam ''payment.withdrawal_max_cents'' DefaultWithdrawalMaxCents) (\<lambda>maxCents.
     tx_bind (intParam ''payment.withdrawal_min_usd_cents'' DefaultWithdrawalMinUSDCents) (\<lambda>minUSDCents.
     tx_ret (minCents, maxCents, minUSDCents))))"

definition toGTQCents :: "int \<Rightarrow> string \<Rightarrow> int dbprog" where
  "toGTQCents amountCents currency =
    (if currency \<noteq> ''USD'' then tx_ret amountCents
     else tx_bind (intParam ''payment.usd_gtq_rate'' DefaultUSDGTQRate) (\<lambda>v.
       let rate = (if v > 0 then v else DefaultUSDGTQRate) in tx_ret (go_quot (go64 (amountCents * rate)) 100)))"

definition RequestWithdrawal :: "int \<Rightarrow> int \<Rightarrow> string \<Rightarrow> WithdrawalMethod \<Rightarrow> (string \<times> string) list \<Rightarrow> WithdrawalRequest dbprog" where
  "RequestWithdrawal userID amountCents currency0 method payoutDetails = (let currency = (if currency0 = [] then ''GTQ'' else currency0) in
     tx_bind (CheckWithdrawal userID amountCents currency) (\<lambda>_.
     tx_bind (CheckWithdrawalVelocity userID amountCents currency) (\<lambda>_.
     tx_bind withdrawalLimits (\<lambda>(minCents, maxCents, minUSDCents).
     tx_bind (tx_lift (
       if currency = ''USD'' then
         (if amountCents < minUSDCents then Inl (Validation ''withdrawal amount below minimum'') else Inr ())
       else if amountCents < minCents then Inl (Validation ''withdrawal amount below minimum'')
       else if amountCents > maxCents then Inl (Validation ''withdrawal amount above maximum'')
       else Inr ())) (\<lambda>_.
     tx_bind (toGTQCents amountCents currency) (\<lambda>gtq.
     CreateWithdrawal \<lparr>wr_ID = 0, wr_UserID = userID, wr_AmountCents = amountCents, wr_Currency = currency, wr_GTQReservedCents = gtq,
       wr_Method = method, wr_PayoutDetails = payoutDetails, wr_Status = WithdrawalPending, wr_ReviewedBy = None, wr_Notes = [], wr_ProcessedAt = None\<rparr>))))))"

definition ApproveRequest :: "nat \<Rightarrow> int \<Rightarrow> int \<Rightarrow> string \<Rightarrow> WithdrawalRequest dbprog" where
  "ApproveRequest maxAttempts requestID adminID notes = ApproveAndDebit maxAttempts requestID adminID notes"

definition RejectRequest :: "int \<Rightarrow> int \<Rightarrow> string \<Rightarrow> WithdrawalRequest dbprog" where
  "RejectRequest requestID adminID notes = RejectWithdrawal requestID adminID notes"

definition ProcessWithdrawal :: "int \<Rightarrow> WithdrawalRequest dbprog" where
  "ProcessWithdrawal requestID = MarkProcessed requestID"

definition isHighValueWithdrawal :: "int \<Rightarrow> bool dbprog" where
  "isHighValueWithdrawal amountCents = tx_bind (intParam ''notify.high_value_withdrawal_cents'' DefaultNotifyHighValueWithdrawalCents) (\<lambda>threshold. tx_ret (amountCents \<ge> threshold))"

section \<open>Every withdrawal is paid for exactly once\<close>

definition deducted :: "int \<Rightarrow> BalanceLedger list \<Rightarrow> (int \<times> int) list" where
  "deducted i rows = map (\<lambda>r. (bl_UserID r, bl_DeltaCents r)) (filter (\<lambda>r. bl_Kind r = LedgerKindWithdrawalDeduct \<and> bl_RefID r = Some i) rows)"

definition paid_out :: "WithdrawalRequest \<Rightarrow> bool" where
  "paid_out w \<longleftrightarrow> wr_Status w = WithdrawalApproved \<or> wr_Status w = WithdrawalProcessed"

text \<open>
  The ledger holds exactly one deduction of the reserved amount for an approved or processed request and
  none for any other; a user has at most one open request; ids are unique and none is ahead of the sequence.
\<close>
definition withdrawals_ok :: "db \<Rightarrow> bool" where
  "withdrawals_ok s \<longleftrightarrow>
     (\<forall>w\<in>set (db_withdrawals s). deducted (wr_ID w) (db_ledger s) = (if paid_out w then [(wr_UserID w, - wr_GTQReservedCents w)] else []) \<and>
        0 < wr_ID w \<and> wr_ID w < db_seq s) \<and>
     (\<forall>i\<ge>db_seq s. deducted i (db_ledger s) = []) \<and> 0 < db_seq s \<and>
     distinct (map wr_ID (db_withdrawals s)) \<and> distinct (map wr_UserID (filter wr_open (db_withdrawals s)))"

lemma withdrawal_update_run [tx_runs]:
  "withdrawal_update p f s = Inr (rows, s') \<longleftrightarrow> \<not> list_ex (\<lambda>g. \<not> user_exists s (wr_ReviewedBy g)) (map f (filter p (db_withdrawals s))) \<and>
     rows = map f (filter p (db_withdrawals s)) \<and> s' = s\<lparr>db_withdrawals := update_where p f (db_withdrawals s)\<rparr>"
  by (auto simp: withdrawal_update_def Let_def)

lemma deducted_append: "deducted i (rows @ [r]) =
   deducted i rows @ (if bl_Kind r = LedgerKindWithdrawalDeduct \<and> bl_RefID r = Some i then [(bl_UserID r, bl_DeltaCents r)] else [])"
  by (simp add: deducted_def)

text \<open>The state machine of a request.\<close>
inductive withdrawal_step :: "WithdrawalStatus \<Rightarrow> WithdrawalStatus \<Rightarrow> bool" where
  approve: "withdrawal_step WithdrawalPending WithdrawalApproved"
| reject: "withdrawal_step WithdrawalPending WithdrawalRejected"
| process: "withdrawal_step WithdrawalApproved WithdrawalProcessed"

inductive_simps withdrawal_step_simps [simp]: "withdrawal_step a b"

datatype withdrawal_op =
    OpRequestWithdrawal int int string WithdrawalMethod "(string \<times> string) list"
  | OpApproveRequest int int string
  | OpRejectRequest int int string
  | OpProcessWithdrawal int

fun run_withdrawal_op :: "nat \<Rightarrow> withdrawal_op \<Rightarrow> WithdrawalRequest dbprog" where
  "run_withdrawal_op n (OpRequestWithdrawal u a c m d) = RequestWithdrawal u a c m d"
| "run_withdrawal_op n (OpApproveRequest i a t) = ApproveRequest n i a t"
| "run_withdrawal_op n (OpRejectRequest i a t) = RejectRequest i a t"
| "run_withdrawal_op n (OpProcessWithdrawal i) = ProcessWithdrawal i"

lemma withdrawal_insert_run:
  assumes "withdrawal_insert w s = Inr (w', s')"
  shows "w' = w\<lparr>wr_ID := db_seq s, wr_Status := WithdrawalPending, wr_ReviewedBy := None, wr_Notes := [], wr_ProcessedAt := None\<rparr>"
    "s' = s\<lparr>db_seq := db_seq s + 1, db_withdrawals := db_withdrawals s @ [w']\<rparr>" "in_int32 (wr_AmountCents w)" "in_int32 (wr_GTQReservedCents w)" "0 < wr_AmountCents w"
    "\<forall>x\<in>set (db_withdrawals s). \<not> (wr_UserID x = wr_UserID w \<and> wr_open x)"
  using assms by (auto simp: withdrawal_insert_def Let_def list_ex_iff split: if_splits)

lemma withdrawals_ok_insert:
  assumes "withdrawals_ok s" "withdrawal_insert w s = Inr (w', s')"
  shows "withdrawals_ok s'"
proof -
  note r = withdrawal_insert_run [OF assms(2)]
  have "\<forall>w\<in>set (db_withdrawals s). deducted (wr_ID w) (db_ledger s) = (if paid_out w then [(wr_UserID w, - wr_GTQReservedCents w)] else []) \<and>
        0 < wr_ID w \<and> wr_ID w < db_seq s" "\<forall>i\<ge>db_seq s. deducted i (db_ledger s) = []" "0 < db_seq s"
     and d: "distinct (map wr_ID (db_withdrawals s))" "distinct (map wr_UserID (filter wr_open (db_withdrawals s)))"
    using assms(1) unfolding withdrawals_ok_def by blast+
  note i = this
  have "\<forall>x\<in>set (db_withdrawals s @ [w']). deducted (wr_ID x) (db_ledger s) = (if paid_out x then [(wr_UserID x, - wr_GTQReservedCents x)] else []) \<and>
        0 < wr_ID x \<and> wr_ID x < db_seq s + 1"
    using i(1,2,3) by (auto simp: r(1) paid_out_def)
  moreover have "distinct (map wr_ID (db_withdrawals s @ [w']))" using d(1) i(1) by (auto simp: r(1))
  moreover have "distinct (map wr_UserID (filter wr_open (db_withdrawals s @ [w'])))" using d(2) r(6) by (auto simp: r(1))
  moreover have "\<forall>k\<ge>db_seq s + 1. deducted k (db_ledger s) = []" using i(2) by auto
  ultimately show ?thesis using i(3) unfolding withdrawals_ok_def r(2) by simp
qed

lemma distinct_filter_update_where:
  assumes "distinct (map k (filter P rows))" "\<And>r. k (f r) = k r" "\<And>r. p r \<Longrightarrow> P (f r) \<Longrightarrow> P r"
  shows "distinct (map k (filter P (update_where p f rows)))"
  using assms(1)
proof (induction rows)
  case (Cons a rows)
  have "k ` set (filter P (update_where p f rows)) \<subseteq> k ` set (filter P rows)"
    by (auto simp: set_update_where assms(2) dest: assms(3))
  moreover have "P a \<Longrightarrow> k a \<notin> k ` set (filter P rows)" using Cons.prems by simp
  ultimately have new: "P a \<Longrightarrow> k a \<notin> k ` set (filter P (update_where p f rows))" by blast
  have IH: "distinct (map k (filter P (update_where p f rows)))" using Cons by (cases "P a") auto
  have "p a \<Longrightarrow> P (f a) \<Longrightarrow> k (f a) \<notin> k ` set (filter P (update_where p f rows))" using new assms(2,3) by metis
  then show ?case using IH new by (cases "p a"; cases "P a"; cases "P (f a)") simp_all
qed simp

text \<open>A change of state that moves no money.\<close>
lemma withdrawals_ok_update:
  assumes "withdrawals_ok s" "\<And>w. wr_ID (f w) = wr_ID w" "\<And>w. wr_UserID (f w) = wr_UserID w" "\<And>w. wr_GTQReservedCents (f w) = wr_GTQReservedCents w"
    "\<And>w. p w \<Longrightarrow> paid_out (f w) = paid_out w" "\<And>w. p w \<Longrightarrow> wr_open (f w) \<Longrightarrow> wr_open w"
  shows "withdrawals_ok (s\<lparr>db_withdrawals := update_where p f (db_withdrawals s)\<rparr>)"
  using assms(1) distinct_filter_update_where [of wr_UserID wr_open "db_withdrawals s" f p] assms(2-6)
  unfolding withdrawals_ok_def by (auto simp: set_update_where map_update_where)

lemma notFoundOrConflict_keeps [tx_keep]: "tx_keeps I (notFoundOrConflict i st)"
  unfolding notFoundOrConflict_def GetWithdrawalByID_def by (intro tx_keep)

lemma reject_process_keep:
  "tx_keeps withdrawals_ok (RejectWithdrawal i a t)" "tx_keeps withdrawals_ok (MarkProcessed i)"
  unfolding RejectWithdrawal_def MarkProcessed_def
  by (intro tx_keep; auto simp: tx_runs paid_out_def wr_open_def intro!: withdrawals_ok_update)+

text \<open>
  A request moved from pending to approved and its deduction posted.
\<close>
definition approved_by :: "int \<Rightarrow> int \<Rightarrow> string \<Rightarrow> db \<Rightarrow> db \<Rightarrow> bool" where
  "approved_by i a t s s' \<longleftrightarrow> (\<exists>w r. w \<in> set (db_withdrawals s) \<and> wr_ID w = i \<and> wr_Status w = WithdrawalPending \<and>
     posting (wr_UserID w) (- wr_GTQReservedCents w) s s' \<and> db_seq s' = db_seq s + 1 \<and>
     db_withdrawals s' = update_where (\<lambda>w. wr_ID w = i \<and> wr_Status w = WithdrawalPending)
       (\<lambda>w. w\<lparr>wr_Status := WithdrawalApproved, wr_ReviewedBy := Some a, wr_Notes := t\<rparr>) (db_withdrawals s) \<and>
     db_ledger s' = db_ledger s @ [r] \<and> bl_Kind r = LedgerKindWithdrawalDeduct \<and> bl_RefID r = null_int i \<and>
     bl_UserID r = wr_UserID w \<and> bl_DeltaCents r = - wr_GTQReservedCents w)"

lemma approve_tx_run:
  assumes "approve_tx i a t fs s = (Inr y, fs', s')"
  shows "if y = None then s' = s else approved_by i a t s s'"
proof -
  let ?p = "\<lambda>w. wr_ID w = i \<and> wr_Status w = WithdrawalPending"
  let ?f = "\<lambda>w. w\<lparr>wr_Status := WithdrawalApproved, wr_ReviewedBy := Some a, wr_Notes := t\<rparr>"
  show ?thesis
  proof (cases "filter ?p (db_withdrawals s)")
    case Nil
    then have "update_where ?p ?f (db_withdrawals s) = db_withdrawals s" by (intro update_where_none) (auto simp: filter_empty_conv)
    then show ?thesis using assms Nil unfolding approve_tx_def by (auto simp: tx_runs)
  next
    case (Cons w ws)
    let ?s1 = "s\<lparr>db_withdrawals := update_where ?p ?f (db_withdrawals s)\<rparr>"
    let ?e = "\<lambda>u. \<lparr>lrow_UserID = wr_UserID w, lrow_DeltaCents = - wr_GTQReservedCents w, lrow_Kind = LedgerKindWithdrawalDeduct,
             lrow_BalanceAfter = u_BalanceCents u, lrow_RefID = wr_ID w, lrow_RefType = ''withdrawal_request'', lrow_Reference = [],
             lrow_CreatorID = a, lrow_SourceCurrency = [], lrow_SourceAmountCents = 0\<rparr>"
    obtain u s2 z where upd: "user_update (wr_UserID w) (\<lambda>u. u_BalanceCents u - u_ReservedCents u \<ge> wr_GTQReservedCents w)
         (add_balance (- wr_GTQReservedCents w)) ?s1 = Inr (Some u, s2)"
      and ins: "ledger_insert (?e u) s2 = Inr (z, s')" and y: "y \<noteq> None"
      using assms Cons unfolding approve_tx_def by (auto simp: tx_runs split: option.splits)
    have p: "posting (wr_UserID w) (- wr_GTQReservedCents w) ?s1 s'"
      by (rule posting_by [OF upd _ _ _ ins]) (simp_all add: add_balance_def)
    obtain s2: "s2 = ?s1\<lparr>db_users := (db_users ?s1)(wr_UserID w \<mapsto> u)\<rparr>" by (rule user_update_Some [OF upd]) auto
    note led = ledger_insert_run(1) [OF ins]
    have "w \<in> set (db_withdrawals s)" "?p w" using filter_hd [OF Cons] by auto
    then have "approved_by i a t s s'" using p unfolding approved_by_def
      by (intro exI [of _ w] exI [of _ "ledger_row_of (db_seq s2) (db_now s2) (?e u)"])
        (simp add: led s2 ledger_append_def ledger_row_of_def posting_def reference_used_def)
    then show ?thesis using y by auto
  qed
qed

text \<open>An approval changes nothing when it fails or finds nothing pending.\<close>
lemma ApproveAndDebit_run:
  assumes "ApproveAndDebit n i a t fs s = (r, fs', s')"
  shows "s' = s \<or> (is_ok r \<and> approved_by i a t s s')"
proof -
  obtain y fs1 s1 where run: "withRetryTx None n (approve_tx i a t) fs s = (y, fs1, s1)" by (metis prod_cases3)
  show ?thesis
  proof (cases y)
    case (Inl e)
    then show ?thesis using run assms withRetryTx_Inl [of None n "approve_tx i a t" fs s e fs1 s1] by (simp add: ApproveAndDebit_def tx_bind_def)
  next
    case (Inr v)
    from run [unfolded Inr] have s1: "if v = None then s1 = s else approved_by i a t s s1"
      by (rule withRetryTx_cases) (auto dest: approve_tx_run)
    have rest: "(case v of Some w \<Rightarrow> tx_ret w | None \<Rightarrow> notFoundOrConflict i WithdrawalApproved) fs1 s1 = (r, fs', s')"
      using assms run Inr by (simp add: ApproveAndDebit_def tx_bind_def)
    show ?thesis
    proof (cases v)
      case None
      then have "s' = s1" using rest tx_keepsD [OF notFoundOrConflict_keeps [where I = "\<lambda>x. x = s1"]] by fastforce
      then show ?thesis using s1 None by simp
    next
      case (Some w)
      then show ?thesis using rest s1 by (auto simp: tx_ret_def)
    qed
  qed
qed

lemma approved_by_ok:
  assumes "withdrawals_ok s" "approved_by i a t s s'"
  shows "withdrawals_ok s'"
proof -
  let ?p = "\<lambda>w. wr_ID w = i \<and> wr_Status w = WithdrawalPending"
  let ?f = "\<lambda>w. w\<lparr>wr_Status := WithdrawalApproved, wr_ReviewedBy := Some a, wr_Notes := t\<rparr>"
  obtain w r where w: "w \<in> set (db_withdrawals s)" "wr_ID w = i" "wr_Status w = WithdrawalPending" and seq: "db_seq s' = db_seq s + 1"
    and wd: "db_withdrawals s' = update_where ?p ?f (db_withdrawals s)"
    and led: "db_ledger s' = db_ledger s @ [r]" "bl_Kind r = LedgerKindWithdrawalDeduct" "bl_RefID r = null_int i"
       "bl_UserID r = wr_UserID w" "bl_DeltaCents r = - wr_GTQReservedCents w"
    using assms(2) unfolding approved_by_def by blast
  have ok: "\<And>x. x \<in> set (db_withdrawals s) \<Longrightarrow> deducted (wr_ID x) (db_ledger s) = (if paid_out x then [(wr_UserID x, - wr_GTQReservedCents x)] else []) \<and>
        0 < wr_ID x \<and> wr_ID x < db_seq s" and d: "distinct (map wr_ID (db_withdrawals s))" "distinct (map wr_UserID (filter wr_open (db_withdrawals s)))"
    and ahead: "\<forall>k\<ge>db_seq s. deducted k (db_ledger s) = []" "0 < db_seq s"
    using assms(1) unfolding withdrawals_ok_def by blast+
  have i: "0 < i" "i < db_seq s" using ok [OF w(1)] w(2) by auto
  have ded: "deducted k (db_ledger s') = deducted k (db_ledger s) @ (if k = i then [(wr_UserID w, - wr_GTQReservedCents w)] else [])" for k
    using i(1) by (auto simp: led deducted_append null_int_def)
  have same: "x = w" if "x \<in> set (db_withdrawals s)" "wr_ID x = i" for x
    using that w(1,2) d(1) by (auto simp: distinct_map dest: inj_onD)
  have "deducted (wr_ID x) (db_ledger s') = (if paid_out x then [(wr_UserID x, - wr_GTQReservedCents x)] else []) \<and>
        0 < wr_ID x \<and> wr_ID x < db_seq s'" if x: "x \<in> set (db_withdrawals s')" for x
  proof (cases "wr_ID x = i")
    case True
    from x obtain y where y: "y \<in> set (db_withdrawals s)" and xy: "x = (if ?p y then ?f y else y)"
      unfolding wd update_where_def by auto
    have "wr_ID y = i" using True xy by (cases "?p y") simp_all
    then have "y = w" by (rule same [OF y])
    then have "x = ?f w" using xy w by simp
    then show ?thesis using ok [OF w(1)] w i seq by (simp add: ded paid_out_def)
  next
    case False
    then have "x \<in> set (db_withdrawals s)" using x unfolding wd by (auto simp: set_update_where)
    from ok [OF this] show ?thesis using False seq by (simp add: ded)
  qed
  moreover have "distinct (map wr_ID (db_withdrawals s'))" using d(1) by (simp add: wd map_update_where)
  moreover have "distinct (map wr_UserID (filter wr_open (db_withdrawals s')))"
    unfolding wd by (rule distinct_filter_update_where) (use d(2) in \<open>auto simp: wr_open_def\<close>)
  moreover have "\<forall>k\<ge>db_seq s'. deducted k (db_ledger s') = []" using ahead(1) i(2) seq by (auto simp: ded)
  ultimately show ?thesis using ahead(2) seq unfolding withdrawals_ok_def by simp
qed

lemma approved_by_posting: "approved_by i a t s s' \<Longrightarrow> \<exists>u d. posting u d s s'"
  unfolding approved_by_def by blast

interpretation approval: money_op "ApproveAndDebit n i a t"
proof
  show "s' = s" if "ApproveAndDebit n i a t fs s = (Inl e, fs', s')" for fs s e fs' s'
    using ApproveAndDebit_run [OF that] by simp
  show "bank_step\<^sup>*\<^sup>* s s'" if "books s" "ApproveAndDebit n i a t fs s = (Inr r, fs', s')" for s fs r fs' s'
    using ApproveAndDebit_run [OF that(2)] approved_by_posting by (blast intro: bank_stepI)
qed

lemma gate_keeps [tx_keep]:
  "tx_keeps I (intParam key d)" "tx_keeps I (userFor u)" "tx_keeps I (gate_toGTQCents a cur)" "tx_keeps I (day_sum u ks)"
  unfolding intParam_def userFor_def gate_toGTQCents_def day_sum_def SumTransactionsByUserAndPeriod_def by (intro tx_keep)+

lemma CheckWithdrawal_keeps [tx_keep]: "tx_keeps I (CheckWithdrawal u a cur)"
  unfolding CheckWithdrawal_def by (intro tx_keep)

lemma CheckWithdrawalVelocity_keeps [tx_keep]: "tx_keeps I (CheckWithdrawalVelocity u a cur)"
  unfolding CheckWithdrawalVelocity_def Let_def by (intro tx_keep)

lemma withdrawalLimits_keeps [tx_keep]: "tx_keeps I withdrawalLimits"
  unfolding withdrawalLimits_def by (intro tx_keep)

lemma toGTQCents_keeps [tx_keep]: "tx_keeps I (toGTQCents a cur)"
  unfolding toGTQCents_def Let_def by (intro tx_keep)

lemma RequestWithdrawal_keeps:
  assumes "\<And>s w w' s'. I s \<Longrightarrow> withdrawal_insert w s = Inr (w', s') \<Longrightarrow> I s'"
  shows "tx_keeps I (RequestWithdrawal u a cur m d)"
  unfolding RequestWithdrawal_def CreateWithdrawal_def Let_def by (intro tx_keep) (rule assms)

lemma run_withdrawal_op_keeps: "tx_keeps withdrawals_ok (run_withdrawal_op n oper)"
proof (cases oper)
  case (OpApproveRequest i a t)
  have "tx_keeps withdrawals_ok (ApproveAndDebit n i a t)"
    by (rule tx_keepsI) (metis ApproveAndDebit_run approved_by_ok)
  then show ?thesis using OpApproveRequest by (simp add: ApproveRequest_def)
next
  case (OpRequestWithdrawal u a c m d)
  then show ?thesis by simp (rule RequestWithdrawal_keeps, rule withdrawals_ok_insert)
qed (simp_all add: RejectRequest_def ProcessWithdrawal_def reject_process_keep)

text \<open>No request disappears or changes owner or amount, and its status only follows the state machine.\<close>
definition advances :: "db \<Rightarrow> db \<Rightarrow> bool" where
  "advances s0 s \<longleftrightarrow> (\<forall>w\<in>set (db_withdrawals s0). \<exists>v\<in>set (db_withdrawals s). wr_ID v = wr_ID w \<and> wr_UserID v = wr_UserID w \<and>
     wr_GTQReservedCents v = wr_GTQReservedCents w \<and> withdrawal_step\<^sup>*\<^sup>* (wr_Status w) (wr_Status v))"

lemma advances_refl: "advances s s"
  unfolding advances_def by blast

lemma advances_more: "advances s0 s \<Longrightarrow> set (db_withdrawals s) \<subseteq> set (db_withdrawals s') \<Longrightarrow> advances s0 s'"
  unfolding advances_def by blast

lemma advances_update:
  assumes "advances s0 s" "db_withdrawals s' = update_where p f (db_withdrawals s)"
    and "\<And>w. wr_ID (f w) = wr_ID w" "\<And>w. wr_UserID (f w) = wr_UserID w" "\<And>w. wr_GTQReservedCents (f w) = wr_GTQReservedCents w"
    and "\<And>w. p w \<Longrightarrow> withdrawal_step (wr_Status w) (wr_Status (f w))"
  shows "advances s0 s'"
  unfolding advances_def
proof
  fix w assume "w \<in> set (db_withdrawals s0)"
  then obtain v where v: "v \<in> set (db_withdrawals s)" "wr_ID v = wr_ID w" "wr_UserID v = wr_UserID w" "wr_GTQReservedCents v = wr_GTQReservedCents w"
    "withdrawal_step\<^sup>*\<^sup>* (wr_Status w) (wr_Status v)" using assms(1) unfolding advances_def by blast
  let ?v = "if p v then f v else v"
  have "?v \<in> set (db_withdrawals s')" using v(1) unfolding assms(2) update_where_def by (simp add: image_iff) blast
  moreover have "withdrawal_step\<^sup>*\<^sup>* (wr_Status w) (wr_Status ?v)" using v(5) assms(6) [of v] by (auto intro: rtranclp.rtrancl_into_rtrancl simp del: withdrawal_step_simps)
  ultimately show "\<exists>v\<in>set (db_withdrawals s'). wr_ID v = wr_ID w \<and> wr_UserID v = wr_UserID w \<and>
     wr_GTQReservedCents v = wr_GTQReservedCents w \<and> withdrawal_step\<^sup>*\<^sup>* (wr_Status w) (wr_Status v)"
    using v(2-4) assms(3-5) by (intro bexI [of _ ?v]) auto
qed

lemma run_withdrawal_op_advances: "tx_keeps (advances s0) (run_withdrawal_op n oper)"
proof (cases oper)
  case (OpApproveRequest i a t)
  have "advances s0 s'" if "advances s0 s" "approved_by i a t s s'" for s s'
    using that(2) unfolding approved_by_def by (elim exE conjE) (rule advances_update [OF that(1)], assumption, simp_all)
  then have "tx_keeps (advances s0) (ApproveAndDebit n i a t)" by (intro tx_keepsI) (metis ApproveAndDebit_run)
  then show ?thesis using OpApproveRequest by (simp add: ApproveRequest_def)
next
  case (OpRequestWithdrawal u a c m d)
  have "advances s0 s'" if "advances s0 s" "withdrawal_insert w s = Inr (w', s')" for s w w' s'
    by (rule advances_more [OF that(1)]) (simp add: withdrawal_insert_run(2) [OF that(2)] subset_insertI)
  then show ?thesis using OpRequestWithdrawal by simp (rule RequestWithdrawal_keeps)
next
  case (OpRejectRequest i a t)
  then show ?thesis unfolding run_withdrawal_op.simps OpRejectRequest RejectRequest_def RejectWithdrawal_def
    by (intro tx_keep) (auto simp: tx_runs elim!: advances_update)
next
  case (OpProcessWithdrawal i)
  then show ?thesis unfolding run_withdrawal_op.simps OpProcessWithdrawal ProcessWithdrawal_def MarkProcessed_def
    by (intro tx_keep) (auto simp: tx_runs elim!: advances_update)
qed

text \<open>
  C6: every withdrawal is paid for exactly once. After any sequence of requests, approvals, rejections and payouts, with whatever
  failures, the ledger holds exactly one deduction of the reserved amount from the right account for
  every approved or processed withdrawal and none for a pending or rejected one, a user has at most
  one open withdrawal, and every earlier withdrawal is still there with its amount and has only moved
  along pending, approved, processed or pending, rejected.
\<close>
theorem withdrawals_paid_exactly_once:
  assumes "withdrawals_ok s" "s' = run_all (map (\<lambda>(oper, fs). (run_withdrawal_op n oper, fs)) requests) s"
  shows "(\<forall>w\<in>set (db_withdrawals s'). deducted (wr_ID w) (db_ledger s') = (if paid_out w then [(wr_UserID w, - wr_GTQReservedCents w)] else [])) \<and>
    distinct (map wr_UserID (filter wr_open (db_withdrawals s'))) \<and> advances s s'"
proof -
  have "withdrawals_ok s'" unfolding assms(2)
    by (rule run_all_invariant [where I = withdrawals_ok]) (use run_withdrawal_op_keeps assms(1) in auto)
  moreover have "advances s s'" unfolding assms(2)
    by (rule run_all_invariant [where I = "advances s"]) (use run_withdrawal_op_advances advances_refl in auto)
  ultimately show ?thesis unfolding withdrawals_ok_def by blast
qed

definition example_withdrawal_db :: db where
  "example_withdrawal_db = example_charge_db\<lparr>db_users := [1 \<mapsto> (example_user 1)\<lparr>u_BalanceCents := 9000, u_KYCTier := 2\<rparr>, 2 \<mapsto> example_user 2],
     db_ledger := [ledger_row_of 1 0 (claim_row 1 9000 LedgerKindBankTransfer ''t'' ''GTQ'' 9000)\<lparr>bl_BalanceAfter := 9000\<rparr>]\<rparr>"

lemma example_withdrawal_ok: "withdrawals_ok example_withdrawal_db"
  by (simp add: withdrawals_ok_def deducted_def example_withdrawal_db_def example_charge_db_def example_bank_db_def empty_db_def ledger_row_of_def claim_row_def)

theorem withdrawals_paid_exactly_once_witness:
  "deducted 10 (db_ledger (run_all (map (\<lambda>(oper, fs). (run_withdrawal_op 3 oper, fs))
     [(OpRequestWithdrawal 1 6000 [] ''bank_gt'' [], []), (OpApproveRequest 10 2 ''ok'', []), (OpApproveRequest 10 2 ''ok'', [])]) example_withdrawal_db)) = [(1, -6000)]"
proof -
  let ?s = "run_all (map (\<lambda>(oper, fs). (run_withdrawal_op 3 oper, fs))
     [(OpRequestWithdrawal 1 6000 [] ''bank_gt'' [], []), (OpApproveRequest 10 2 ''ok'', []), (OpApproveRequest 10 2 ''ok'', [])]) example_withdrawal_db"
  have "map (\<lambda>w. (wr_ID w, paid_out w, wr_UserID w, wr_GTQReservedCents w)) (db_withdrawals ?s) = [(10, True, 1, 6000)]" by code_simp
  then show ?thesis using withdrawals_paid_exactly_once [OF example_withdrawal_ok refl, of 3
     "[(OpRequestWithdrawal 1 6000 [] ''bank_gt'' [], []), (OpApproveRequest 10 2 ''ok'', []), (OpApproveRequest 10 2 ''ok'', [])]"]
    by (auto simp: map_eq_Cons_conv)
qed

section \<open>The amount of a withdrawal\<close>

lemma intParam_run:
  assumes "intParam key d fs s = (Inr v, fs', s')"
  shows "s' = s" "v = d \<or> (\<exists>t. db_params s key = Some t \<and> Atoi t = Some v)"
  using assms by (auto simp: intParam_def tx_runs dest: tx_query_keeps split: option.splits)

lemma userFor_run:
  "userFor u fs s = (Inr x, fs', s') \<longleftrightarrow> next_fault fs = (None, fs') \<and> s' = s \<and> db_users s u = Some x \<and> u_DeletedAt x = None"
  by (auto simp: userFor_def tx_runs split: option.splits if_splits)

lemma keeps_same: "tx_keeps (\<lambda>x. x = s) m \<Longrightarrow> m fs s = (r, fs', s') \<Longrightarrow> s' = s"
  using tx_keepsD [of "\<lambda>x. x = s" m s fs r fs' s'] by simp

text \<open>Amounts of 32 bits and a rate within its configured range cannot overflow.\<close>
lemma conversion_exact:
  assumes "in_int32 a" "0 < a" "0 < rate" "rate \<le> 10000"
  shows "go_quot (go64 (a * rate)) 100 = a * rate div 100"
proof -
  have "a * rate \<le> 2 ^ 31 * 10000" using assms by (intro mult_mono) (auto simp: in_int32_def)
  moreover have "0 < a * rate" using assms by simp
  ultimately have "in_int64 (a * rate)" by (simp add: in_int64_def MaxInt_def)
  then show ?thesis using assms by (simp add: go_quot_nonneg)
qed

lemma CheckWithdrawal_run:
  assumes "CheckWithdrawal u a cur fs s = (Inr x, fs', s')"
  shows "s' = s" "\<exists>usr. db_users s u = Some usr \<and> KYCTierTwo \<le> u_KYCTier usr"
proof -
  show s': "s' = s" by (rule keeps_same [OF CheckWithdrawal_keeps assms])
  obtain b fs1 s1 where g: "gate_toGTQCents a cur fs s = (Inr b, fs1, s1)" and rest: "\<exists>usr fs2. userFor u fs1 s1 = (Inr usr, fs2, s1) \<and> \<not> u_KYCTier usr < KYCTierTwo"
    using assms unfolding CheckWithdrawal_def by (auto simp: tx_runs userFor_run split: if_splits)
  have "s1 = s" by (rule keeps_same [OF gate_keeps(3) g])
  then show "\<exists>usr. db_users s u = Some usr \<and> KYCTierTwo \<le> u_KYCTier usr" using rest by (auto simp: userFor_run)
qed

text \<open>The configured rate respects the upper bound the parameter service enforces.\<close>
definition rate_in_range :: "db \<Rightarrow> bool" where
  "rate_in_range s = (case db_params s ''payment.usd_gtq_rate'' of None \<Rightarrow> True
     | Some t \<Rightarrow> (case Atoi t of None \<Rightarrow> True | Some v \<Rightarrow> v \<le> 10000))"

lemma toGTQCents_run:
  assumes "toGTQCents a cur fs s = (Inr g, fs', s')" "rate_in_range s"
  shows "s' = s" "\<exists>rate. 0 < rate \<and> rate \<le> 10000 \<and> g = (if cur = ''USD'' then go_quot (go64 (a * rate)) 100 else a)"
proof -
  show "s' = s" by (rule keeps_same [OF toGTQCents_keeps assms(1)])
  show "\<exists>rate. 0 < rate \<and> rate \<le> 10000 \<and> g = (if cur = ''USD'' then go_quot (go64 (a * rate)) 100 else a)"
  proof (cases "cur = ''USD''")
    case True
    then obtain v fs1 s1 where v: "intParam ''payment.usd_gtq_rate'' DefaultUSDGTQRate fs s = (Inr v, fs1, s1)"
      and g: "g = go_quot (go64 (a * (if v > 0 then v else DefaultUSDGTQRate))) 100"
      using assms(1) unfolding toGTQCents_def by (auto simp: tx_runs Let_def)
    have "v \<le> 10000" using intParam_run(2) [OF v] assms(2) by (auto simp: DefaultUSDGTQRate_def rate_in_range_def)
    then show ?thesis using g True by (intro exI [of _ "if v > 0 then v else DefaultUSDGTQRate"]) (auto simp: DefaultUSDGTQRate_def)
  next
    case False
    then show ?thesis using assms(1) by (intro exI [of _ 1]) (auto simp: toGTQCents_def tx_runs)
  qed
qed

lemma CreateWithdrawal_run:
  assumes "CreateWithdrawal w fs s = (Inr w', fs', s')"
  shows "withdrawal_insert w s = Inr (w', s')"
    "\<exists>usr. db_users s (wr_UserID w) = Some usr \<and> u_DeletedAt usr = None \<and> wr_GTQReservedCents w \<le> u_BalanceCents usr - u_ReservedCents usr"
  using withTx_Inr [OF assms [unfolded CreateWithdrawal_def]] by (auto simp: tx_runs not_less split: option.splits if_splits)



end
