(* ===== verification/Intents.thy ===== *)
theory Intents
  imports Withdrawals
begin

text \<open>
  Card payments: \<^verbatim>\<open>repository/payment_intent_repository.go\<close>, \<^verbatim>\<open>service/payment_intent_service.go\<close> and
  \<^verbatim>\<open>service/webhook_payment_service.go\<close> with the KYC gate and the user repository wired. The conversion of the
  exchange-rate service is the parameter \<open>fx\<close>; the random token of a new intent is a parameter, \<open>None\<close> when the
  random source fails. The mismatch and threshold audit entries, which never change a result, are left out.
\<close>

section \<open>Statements\<close>

definition intent_insert :: "PaymentIntent \<Rightarrow> db \<Rightarrow> go_error + PaymentIntent \<times> db" where
  "intent_insert p s = (let p' = p\<lparr>pi_ID := db_seq s, pi_CaptureID := None, pi_ComprobanteKey := None, pi_ComprobanteContentType := None,
       pi_ComprobanteFileSize := None, pi_ComprobanteRequired := False, pi_UserNotes := [], pi_ReviewedBy := None, pi_ReviewNotes := [],
       pi_RejectedAt := None, pi_CreatedAt := db_now s\<rparr> in
     if \<not> in_int32 (pi_AmountCents p) then Inl (PgError ''22003'')
     else if \<not> pi_AmountCents p > 0 then Inl (PgError ''23514'')
     else if list_ex (\<lambda>x. pi_Token x = pi_Token p) (db_intents s) then Inl (PgError ''23505'')
     else if \<not> user_exists s (Some (pi_UserID p)) then Inl (PgError ''23503'')
     else Inr (p', s\<lparr>db_seq := db_seq s + 1, db_intents := db_intents s @ [p']\<rparr>))"

text \<open>\<^verbatim>\<open>UPDATE payment_intents ... RETURNING\<close>: capture ids are unique, reviewers are users.\<close>
definition intent_update ::
  "(PaymentIntent \<Rightarrow> bool) \<Rightarrow> (PaymentIntent \<Rightarrow> PaymentIntent) \<Rightarrow> db \<Rightarrow> go_error + PaymentIntent list \<times> db" where
  "intent_update p f s = (let rows = map f (filter p (db_intents s)); table = update_where p f (db_intents s) in
     if \<not> distinct (filter (\<lambda>c. c \<noteq> None) (map pi_CaptureID table)) then Inl (PgError ''23505'')
     else if list_ex (\<lambda>x. \<not> user_exists s (pi_ReviewedBy x)) rows then Inl (PgError ''23503'')
     else Inr (rows, s\<lparr>db_intents := table\<rparr>))"

section \<open>Repository\<close>

definition CreateIntent :: "PaymentIntent \<Rightarrow> PaymentIntent dbprog" where
  "CreateIntent p = tx_stmt Raw (intent_insert (p\<lparr>pi_Provider := if pi_Provider p = [] then ''paypal'' else pi_Provider p\<rparr>))"

definition GetByToken :: "string \<Rightarrow> PaymentIntent option dbprog" where
  "GetByToken token = tx_query (\<lambda>s. find (\<lambda>p. pi_Token p = token) (db_intents s))"

definition GetIntentByID :: "int \<Rightarrow> PaymentIntent option dbprog" where
  "GetIntentByID i = tx_query (\<lambda>s. find (\<lambda>p. pi_ID p = i) (db_intents s))"

definition captureIntentTx :: "string \<Rightarrow> string \<Rightarrow> PaymentIntent option dbprog" where
  "captureIntentTx token captureID = tx_bind (tx_exec (\<lambda>s. intent_update
       (\<lambda>p. pi_Token p = token \<and> pi_Status p = PaymentIntentPending \<and> pi_ExpiresAt p > db_now s)
       (\<lambda>p. p\<lparr>pi_Status := PaymentIntentCaptured, pi_CaptureID := Some captureID\<rparr>) s)) (\<lambda>rows. tx_ret (first_row rows))"

definition creditLedgerKind :: "string \<Rightarrow> BalanceLedgerKind" where
  "creditLedgerKind provider = (if provider = ''recurrente'' then LedgerKindWebhookRecurrente else LedgerKindWebhookPayPal)"

definition creditUserTx :: "PaymentIntent \<Rightarrow> int \<Rightarrow> string \<Rightarrow> int \<Rightarrow> unit dbprog" where
  "creditUserTx p creditAmountCents sourceCurrency sourceAmountCents =
     tx_bind (tx_exec (user_update (pi_UserID p) (\<lambda>_. True) (\<lambda>u.
       if sourceCurrency \<noteq> [] then (add_balance creditAmountCents u)\<lparr>u_BalanceCurrency := sourceCurrency\<rparr> else add_balance creditAmountCents u))) (\<lambda>r.
     tx_bind (user_found r) (\<lambda>u.
     insertLedgerTx \<lparr>lrow_UserID = pi_UserID p, lrow_DeltaCents = creditAmountCents, lrow_Kind = creditLedgerKind (pi_Provider p),
       lrow_BalanceAfter = u_BalanceCents u, lrow_RefID = pi_ID p, lrow_RefType = ''payment_intent'',
       lrow_Reference = (case pi_CaptureID p of None \<Rightarrow> [] | Some c \<Rightarrow> c), lrow_CreatorID = 0,
       lrow_SourceCurrency = sourceCurrency, lrow_SourceAmountCents = sourceAmountCents\<rparr>))"

text \<open>The sentinel of a repeated delivery.\<close>
definition ErrPaymentIntentAlreadyCaptured :: app_error where
  "ErrPaymentIntentAlreadyCaptured = Raw (OtherError ''payment intent already captured'')"

definition resolveCaptureMissTx :: "string \<Rightarrow> string \<Rightarrow> 'a dbprog" where
  "resolveCaptureMissTx token captureID = tx_bind (GetByToken token) (\<lambda>existing. case existing of
     None \<Rightarrow> tx_err (NotFound ''payment intent not found'')
   | Some p \<Rightarrow>
       if pi_Status p \<noteq> PaymentIntentCaptured then tx_err (NotFound ''payment intent expired or unavailable'')
       else if (case pi_CaptureID p of None \<Rightarrow> [] | Some c \<Rightarrow> c) = captureID then tx_err ErrPaymentIntentAlreadyCaptured
       else tx_err (Conflict ''payment intent already captured by a different transaction''))"

text \<open>The closure of a capture.\<close>
definition capture_tx :: "string \<Rightarrow> string \<Rightarrow> int \<Rightarrow> string \<Rightarrow> int \<Rightarrow> PaymentIntent option dbprog" where
  "capture_tx token captureID creditAmountCents sourceCurrency sourceAmountCents =
     tx_bind (captureIntentTx token captureID) (\<lambda>r. case r of
       None \<Rightarrow> resolveCaptureMissTx token captureID
     | Some p \<Rightarrow>
         tx_bind (creditUserTx p creditAmountCents sourceCurrency sourceAmountCents) (\<lambda>_. tx_ret (Some p)))"

definition CaptureAndCredit :: "nat \<Rightarrow> string \<Rightarrow> string \<Rightarrow> int \<Rightarrow> string \<Rightarrow> int \<Rightarrow> PaymentIntent option dbprog" where
  "CaptureAndCredit maxAttempts token captureID creditAmountCents sourceCurrency sourceAmountCents =
     withRetryTx None maxAttempts (capture_tx token captureID creditAmountCents sourceCurrency sourceAmountCents)"

definition MarkCapturedByToken :: "string \<Rightarrow> unit dbprog" where
  "MarkCapturedByToken token = tx_void (tx_exec (intent_update (\<lambda>p. pi_Token p = token \<and> pi_Status p = PaymentIntentPending)
     (\<lambda>p. p\<lparr>pi_Status := PaymentIntentCaptured\<rparr>)))"

definition SetComprobante :: "int \<Rightarrow> string \<Rightarrow> string \<Rightarrow> int \<Rightarrow> unit dbprog" where
  "SetComprobante i key contentType fileSize = tx_bind (tx_exec (intent_update
       (\<lambda>p. pi_ID p = i \<and> (pi_Status p = PaymentIntentPending \<or> pi_Status p = PaymentIntentExpired))
       (\<lambda>p. p\<lparr>pi_ComprobanteKey := Some key, pi_ComprobanteContentType := Some contentType, pi_ComprobanteFileSize := Some fileSize\<rparr>)))
     (affected (NotFound ''payment intent not found or not editable''))"

definition admin_capture_ref :: "int \<Rightarrow> string" where
  "admin_capture_ref i = ''admin-credit-intent-'' @ Itoa i"

text \<open>The closure of a manual credit.\<close>
definition admin_credit_tx :: "int \<Rightarrow> int \<Rightarrow> int \<Rightarrow> string \<Rightarrow> PaymentIntent option dbprog" where
  "admin_credit_tx i adminID creditAmountCents notes =
     tx_bind (GetIntentByID i) (\<lambda>r. case r of
       None \<Rightarrow> tx_err (NotFound ''payment intent not found'')
     | Some existing \<Rightarrow>
         if pi_Status existing = PaymentIntentCaptured then tx_err (Conflict ''payment intent already captured'')
         else
           tx_bind (tx_exec (user_update (pi_UserID existing) (\<lambda>_. True) (add_balance creditAmountCents))) (\<lambda>r.
           tx_bind (user_found r) (\<lambda>u.
           let captureRef = admin_capture_ref i in
           tx_bind (insertLedgerTx \<lparr>lrow_UserID = pi_UserID existing, lrow_DeltaCents = creditAmountCents, lrow_Kind = creditLedgerKind (pi_Provider existing),
             lrow_BalanceAfter = u_BalanceCents u, lrow_RefID = pi_ID existing, lrow_RefType = ''payment_intent'', lrow_Reference = captureRef,
             lrow_CreatorID = adminID, lrow_SourceCurrency = [], lrow_SourceAmountCents = 0\<rparr>) (\<lambda>_.
           tx_bind (tx_exec (intent_update (\<lambda>p. pi_ID p = i) (\<lambda>p. p\<lparr>pi_Status := PaymentIntentCaptured, pi_CaptureID := Some captureRef,
             pi_ReviewedBy := Some adminID, pi_ReviewNotes := notes\<rparr>))) (\<lambda>rows.
           tx_bind (row_or (Internal ErrNoRows) rows) (\<lambda>p. tx_ret (Some p)))))))"

definition AdminCreditExpired :: "nat \<Rightarrow> int \<Rightarrow> int \<Rightarrow> int \<Rightarrow> string \<Rightarrow> PaymentIntent option dbprog" where
  "AdminCreditExpired maxAttempts i adminID creditAmountCents notes = withRetryTx None maxAttempts (admin_credit_tx i adminID creditAmountCents notes)"

definition AdminReject :: "int \<Rightarrow> int \<Rightarrow> string \<Rightarrow> PaymentIntent dbprog" where
  "AdminReject i adminID notes = tx_bind (tx_exec (\<lambda>s. intent_update
       (\<lambda>p. pi_ID p = i \<and> pi_Status p \<in> {PaymentIntentPending, PaymentIntentExpired, PaymentIntentUnderReview})
       (\<lambda>p. p\<lparr>pi_Status := PaymentIntentRejected, pi_ReviewedBy := Some adminID, pi_ReviewNotes := notes, pi_RejectedAt := Some (db_now s)\<rparr>) s))
     (row_or (NotFound ''payment intent not found or not rejectable''))"

definition RequestComprobante :: "int \<Rightarrow> int \<Rightarrow> PaymentIntent dbprog" where
  "RequestComprobante i adminID = tx_bind (tx_exec (intent_update (\<lambda>p. pi_ID p = i \<and> pi_Status p = PaymentIntentPending)
       (\<lambda>p. p\<lparr>pi_ComprobanteRequired := True, pi_ReviewedBy := Some adminID\<rparr>)))
     (row_or (NotFound ''payment intent not found or not pending''))"

definition SubmitForReview :: "int \<Rightarrow> int \<Rightarrow> (string \<times> string \<times> int) option \<Rightarrow> string \<Rightarrow> PaymentIntent dbprog" where
  "SubmitForReview i userID comprobante notes = tx_bind (tx_exec (intent_update
       (\<lambda>p. pi_ID p = i \<and> pi_UserID p = userID \<and> pi_Status p = PaymentIntentRejected)
       (\<lambda>p. (case comprobante of None \<Rightarrow> p | Some (key, contentType, fileSize) \<Rightarrow>
           p\<lparr>pi_ComprobanteKey := Some key, pi_ComprobanteContentType := Some contentType, pi_ComprobanteFileSize := Some fileSize\<rparr>)
         \<lparr>pi_Status := PaymentIntentUnderReview, pi_UserNotes := notes\<rparr>)))
     (row_or (NotFound ''payment intent not found, not yours, or not rejectable''))"

definition CancelByToken :: "string \<Rightarrow> int \<Rightarrow> unit dbprog" where
  "CancelByToken token userID = tx_bind (tx_exec (intent_update
       (\<lambda>p. pi_Token p = token \<and> pi_UserID p = userID \<and> pi_Status p = PaymentIntentPending) (\<lambda>p. p\<lparr>pi_Status := PaymentIntentCancelled\<rparr>)))
     (affected (NotFound ''payment intent not found or not cancellable''))"

definition CancelStalePendingCardIntents :: "time \<Rightarrow> int dbprog" where
  "CancelStalePendingCardIntents before = tx_bind (tx_exec (intent_update
       (\<lambda>p. pi_Status p = PaymentIntentPending \<and> pi_Provider p \<in> {''recurrente'', ''paypal''} \<and> pi_CreatedAt p < before)
       (\<lambda>p. p\<lparr>pi_Status := PaymentIntentCancelled\<rparr>))) (\<lambda>rows. tx_ret (int (length rows)))"

section \<open>Services\<close>

definition DefaultPaymentIntentMaxCents :: int where [domain_consts]: "DefaultPaymentIntentMaxCents = 50000"
definition DefaultPaymentIntentTTLMinutes :: int where [domain_consts]: "DefaultPaymentIntentTTLMinutes = 60"

definition create_intent :: "int \<Rightarrow> int \<Rightarrow> string \<Rightarrow> string \<Rightarrow> string \<Rightarrow> PaymentIntent dbprog" where
  "create_intent userID amountCents currency provider token =
     tx_bind (param_int ''payment.intent_ttl_minutes'' DefaultPaymentIntentTTLMinutes) (\<lambda>minutes.
     tx_bind (tx_read db_now) (\<lambda>now.
     CreateIntent \<lparr>pi_ID = 0, pi_Token = token, pi_UserID = userID, pi_AmountCents = amountCents, pi_Currency = (if currency = [] then ''GTQ'' else currency),
       pi_Provider = provider, pi_Status = PaymentIntentPending, pi_CaptureID = None, pi_ExpiresAt = now + go64 (minutes * (60 * 10 ^ 9)),
       pi_ComprobanteKey = None, pi_ComprobanteContentType = None, pi_ComprobanteFileSize = None, pi_ComprobanteRequired = False, pi_UserNotes = [],
       pi_ReviewedBy = None, pi_ReviewNotes = [], pi_RejectedAt = None, pi_CreatedAt = 0\<rparr>))"

definition check_intent_amount :: "int \<Rightarrow> unit dbprog" where
  "check_intent_amount amountCents = tx_bind (param_int ''payment.intent_max_cents'' DefaultPaymentIntentMaxCents) (\<lambda>maxCents.
     tx_guard (\<not> amountCents > maxCents) (Validation (''amount_cents exceeds maximum of '' @ Itoa maxCents)))"

definition CreateForPayPal :: "string option \<Rightarrow> int \<Rightarrow> int \<Rightarrow> string \<Rightarrow> PaymentIntent dbprog" where
  "CreateForPayPal token userID amountCents currency =
    (if amountCents \<le> 0 then tx_err (Validation ''amount_cents must be positive'')
     else tx_bind (check_intent_amount amountCents) (\<lambda>_. case token of
       None \<Rightarrow> tx_err (Internal (OtherError ''generate intent token''))
     | Some t \<Rightarrow> create_intent userID amountCents currency ''paypal'' t))"

definition CreateForRecurrente :: "int \<Rightarrow> int \<Rightarrow> string \<Rightarrow> string \<Rightarrow> PaymentIntent dbprog" where
  "CreateForRecurrente userID amountCents currency reference =
    (if amountCents \<le> 0 then tx_err (Validation ''amount_cents must be positive'')
     else if reference = [] then tx_err (Validation ''reference is required'')
     else tx_bind (check_intent_amount amountCents) (\<lambda>_. create_intent userID amountCents currency ''recurrente'' reference))"

definition SetComprobanteByToken :: "int \<Rightarrow> string \<Rightarrow> string \<Rightarrow> string \<Rightarrow> int \<Rightarrow> unit dbprog" where
  "SetComprobanteByToken userID token key contentType fileSize = tx_bind (GetByToken token) (\<lambda>r. case r of
     None \<Rightarrow> tx_err (NotFound ''payment intent not found'')
   | Some p \<Rightarrow> if pi_UserID p \<noteq> userID then tx_err (NotFound ''payment intent not found'')
       else SetComprobante (pi_ID p) key contentType fileSize)"

definition ResubmitForReview :: "int \<Rightarrow> string \<Rightarrow> (string \<times> string \<times> int) option \<Rightarrow> string \<Rightarrow> PaymentIntent dbprog" where
  "ResubmitForReview userID token comprobante notes =
    (if notes = [] then tx_err (Validation ''notes are required when submitting for review'')
     else tx_bind (GetByToken token) (\<lambda>r. case r of
       None \<Rightarrow> tx_err (NotFound ''payment intent not found'')
     | Some p \<Rightarrow>
         if pi_UserID p \<noteq> userID then tx_err (NotFound ''payment intent not found'')
         else if pi_Status p \<noteq> PaymentIntentRejected then tx_err (Validation ''only rejected intents can be submitted for review'')
         else SubmitForReview (pi_ID p) userID comprobante notes))"

definition CancelIntent :: "string \<Rightarrow> int \<Rightarrow> unit dbprog" where
  "CancelIntent token userID = CancelByToken token userID"

definition checkRecurrenteKYC :: "int \<Rightarrow> int \<Rightarrow> string \<Rightarrow> unit dbprog" where
  "checkRecurrenteKYC userID amountCents currency =
     tx_bind (CheckDeposit userID amountCents currency) (\<lambda>_. CheckDepositVelocity userID amountCents currency)"

text \<open>A repeated delivery is not an error.\<close>
definition ignore_repeat :: "PaymentIntent option dbprog \<Rightarrow> unit dbprog" where
  "ignore_repeat m = tx_try m (\<lambda>e. if e = ErrPaymentIntentAlreadyCaptured then tx_ret () else tx_err e) (\<lambda>_. tx_ret ())"

definition ResolveAndCreditRecurrenteIntent :: "nat \<Rightarrow> string \<Rightarrow> int \<Rightarrow> int \<Rightarrow> string \<Rightarrow> unit dbprog" where
  "ResolveAndCreditRecurrenteIntent maxAttempts reference webhookUserID webhookAmountCents webhookCurrency =
    (if reference = [] then tx_err (Validation ''reference is required for webhook payments'')
     else tx_bind (GetByToken reference) (\<lambda>r. case r of
       None \<Rightarrow> tx_err (NotFound ''payment intent not found for reference'')
     | Some p \<Rightarrow>
         tx_bind (checkRecurrenteKYC (pi_UserID p) (pi_AmountCents p) (pi_Currency p)) (\<lambda>_.
         let (sourceCurrency, sourceAmountCents) = (if pi_Currency p = ''USD'' then (''USD'', pi_AmountCents p) else ([], 0)) in
         ignore_repeat (CaptureAndCredit maxAttempts reference reference (pi_AmountCents p) sourceCurrency sourceAmountCents))))"

definition fetchPendingAndCheckKYC :: "string \<Rightarrow> PaymentIntent option dbprog" where
  "fetchPendingAndCheckKYC token = tx_bind (GetByToken token) (\<lambda>pending. case pending of
     None \<Rightarrow> tx_ret None
   | Some p \<Rightarrow>
       if pi_Status p \<noteq> PaymentIntentPending then tx_ret (Some p)
       else tx_bind (CheckDeposit (pi_UserID p) (pi_AmountCents p) (pi_Currency p)) (\<lambda>_.
            tx_bind (CheckDepositVelocity (pi_UserID p) (pi_AmountCents p) (pi_Currency p)) (\<lambda>_.
            tx_ret (Some p))))"

definition resolveBalanceCurrency :: "int \<Rightarrow> string dbprog" where
  "resolveBalanceCurrency userID = tx_try (GetBalanceCurrency userID) (\<lambda>_. tx_ret ''GTQ'') (\<lambda>bc. tx_ret (if bc = [] then ''GTQ'' else bc))"

definition resolvePayPalCredit :: "(int \<Rightarrow> int dbprog) option \<Rightarrow> PaymentIntent option \<Rightarrow> (int \<times> string \<times> int) dbprog" where
  "resolvePayPalCredit fx pending = (case pending of
     None \<Rightarrow> tx_ret (0, [], 0)
   | Some p \<Rightarrow>
       if pi_Currency p \<noteq> ''USD'' then tx_ret (pi_AmountCents p, [], 0)
       else tx_bind (resolveBalanceCurrency (pi_UserID p)) (\<lambda>balCurrency. case fx of
           None \<Rightarrow> tx_ret (pi_AmountCents p, ''USD'', pi_AmountCents p)
         | Some convert \<Rightarrow>
             if balCurrency \<noteq> ''GTQ'' then tx_ret (pi_AmountCents p, ''USD'', pi_AmountCents p)
             else tx_try (convert (pi_AmountCents p)) (\<lambda>_. tx_ret (pi_AmountCents p, [], 0)) (\<lambda>gtq. tx_ret (gtq, [], 0))))"

definition ResolveAndCreditPayPalIntent :: "nat \<Rightarrow> (int \<Rightarrow> int dbprog) option \<Rightarrow> string \<Rightarrow> string \<Rightarrow> int \<Rightarrow> unit dbprog" where
  "ResolveAndCreditPayPalIntent maxAttempts fx intentToken captureID webhookAmountCents =
    (if intentToken = [] then tx_err (Validation ''intent token is required'')
     else if captureID = [] then tx_err (Validation ''capture ID is required'')
     else tx_bind (fetchPendingAndCheckKYC intentToken) (\<lambda>pending.
       tx_bind (resolvePayPalCredit fx pending) (\<lambda>(creditAmountCents, sourceCurrency, sourceAmountCents).
       ignore_repeat (CaptureAndCredit maxAttempts intentToken captureID creditAmountCents sourceCurrency sourceAmountCents))))"

section \<open>A payment is credited at most once\<close>

text \<open>The accounts the ledger credits for an intent.\<close>
definition credited_users :: "int \<Rightarrow> BalanceLedger list \<Rightarrow> int list" where
  "credited_users i rows = map bl_UserID (filter (\<lambda>r. bl_RefType r = Some ''payment_intent'' \<and> bl_RefID r = Some i) rows)"

text \<open>
  The ledger holds exactly one credit, to the account of the intent, for an intent that was captured under a capture id,
  and none for any other; only captured intents have a capture id; ids and tokens are unique.
\<close>
definition intents_ok :: "db \<Rightarrow> bool" where
  "intents_ok s \<longleftrightarrow>
     (\<forall>p\<in>set (db_intents s). credited_users (pi_ID p) (db_ledger s) = (if pi_CaptureID p = None then [] else [pi_UserID p]) \<and>
        (pi_CaptureID p \<noteq> None \<longrightarrow> pi_Status p = PaymentIntentCaptured) \<and> 0 < pi_ID p \<and> pi_ID p < db_seq s) \<and>
     (\<forall>i\<ge>db_seq s. credited_users i (db_ledger s) = []) \<and> 0 < db_seq s \<and>
     distinct (map pi_ID (db_intents s)) \<and> distinct (map pi_Token (db_intents s))"

lemma intents_okD:
  assumes "intents_ok s" "p \<in> set (db_intents s)"
  shows "credited_users (pi_ID p) (db_ledger s) = (if pi_CaptureID p = None then [] else [pi_UserID p])"
    "pi_CaptureID p \<noteq> None \<Longrightarrow> pi_Status p = PaymentIntentCaptured" "0 < pi_ID p" "pi_ID p < db_seq s"
  using assms unfolding intents_ok_def by blast+

lemma intents_ok_same:
  assumes "intents_ok s" "p \<in> set (db_intents s)" "q \<in> set (db_intents s)" "pi_ID p = pi_ID q \<or> pi_Token p = pi_Token q"
  shows "p = q"
  using assms unfolding intents_ok_def distinct_map by (blast dest: inj_onD)

lemma intent_update_run [tx_runs]:
  "intent_update p f s = Inr (rows, s') \<longleftrightarrow> distinct (filter (\<lambda>c. c \<noteq> None) (map pi_CaptureID (update_where p f (db_intents s)))) \<and>
     \<not> list_ex (\<lambda>x. \<not> user_exists s (pi_ReviewedBy x)) (map f (filter p (db_intents s))) \<and>
     rows = map f (filter p (db_intents s)) \<and> s' = s\<lparr>db_intents := update_where p f (db_intents s)\<rparr>"
  by (auto simp: intent_update_def Let_def)

lemma credited_users_append: "credited_users i (rows @ [r]) =
   credited_users i rows @ (if bl_RefType r = Some ''payment_intent'' \<and> bl_RefID r = Some i then [bl_UserID r] else [])"
  by (simp add: credited_users_def)

text \<open>Changes of state that credit nothing.\<close>
lemma intents_ok_update:
  assumes "intents_ok s" "\<And>p. pi_ID (f p) = pi_ID p" "\<And>p. pi_Token (f p) = pi_Token p" "\<And>p. pi_UserID (f p) = pi_UserID p"
    "\<And>p. pi_CaptureID (f p) = pi_CaptureID p" "\<And>p. P p \<Longrightarrow> pi_Status p \<noteq> PaymentIntentCaptured"
  shows "intents_ok (s\<lparr>db_intents := update_where P f (db_intents s)\<rparr>)"
proof -
  have "pi_CaptureID p = None" if "p \<in> set (db_intents s)" "P p" for p
    using intents_okD(2) [OF assms(1) that(1)] assms(6) [OF that(2)] by blast
  then show ?thesis using assms(1) unfolding intents_ok_def by (auto simp: assms(2-5) set_update_where map_update_where)
qed

lemma intents_ok_insert:
  assumes "intents_ok s" "intent_insert p s = Inr (q, s')"
  shows "intents_ok s'"
proof -
  have q: "pi_ID q = db_seq s" "pi_CaptureID q = None" "pi_Token q = pi_Token p"
    and s': "s' = s\<lparr>db_seq := db_seq s + 1, db_intents := db_intents s @ [q]\<rparr>" and new: "\<forall>x\<in>set (db_intents s). pi_Token x \<noteq> pi_Token p"
    using assms(2) by (auto simp: intent_insert_def Let_def list_ex_iff split: if_splits)
  have i: "\<forall>p\<in>set (db_intents s). credited_users (pi_ID p) (db_ledger s) = (if pi_CaptureID p = None then [] else [pi_UserID p]) \<and>
        (pi_CaptureID p \<noteq> None \<longrightarrow> pi_Status p = PaymentIntentCaptured) \<and> 0 < pi_ID p \<and> pi_ID p < db_seq s"
    "\<forall>i\<ge>db_seq s. credited_users i (db_ledger s) = []" "0 < db_seq s" "distinct (map pi_ID (db_intents s))" "distinct (map pi_Token (db_intents s))"
    using assms(1) unfolding intents_ok_def by blast+
  have "\<forall>x\<in>set (db_intents s @ [q]). credited_users (pi_ID x) (db_ledger s) = (if pi_CaptureID x = None then [] else [pi_UserID x]) \<and>
        (pi_CaptureID x \<noteq> None \<longrightarrow> pi_Status x = PaymentIntentCaptured) \<and> 0 < pi_ID x \<and> pi_ID x < db_seq s + 1"
    using i(1-3) q by auto
  moreover have "distinct (map pi_ID (db_intents s @ [q]))" "distinct (map pi_Token (db_intents s @ [q]))" using i(1,4,5) q new by auto
  moreover have "\<forall>k\<ge>db_seq s + 1. credited_users k (db_ledger s) = []" using i(2) by auto
  ultimately show ?thesis using i(3) unfolding intents_ok_def s' by simp
qed

text \<open>One intent that had not been captured is captured and its account credited.\<close>
definition captured_by :: "int \<Rightarrow> db \<Rightarrow> db \<Rightarrow> bool" where
  "captured_by d s s' \<longleftrightarrow> (\<exists>p P f r. p \<in> set (db_intents s) \<and> pi_Status p \<noteq> PaymentIntentCaptured \<and>
     (\<forall>q\<in>set (db_intents s). P q \<longrightarrow> q = p) \<and> P p \<and>
     pi_ID (f p) = pi_ID p \<and> pi_Token (f p) = pi_Token p \<and> pi_UserID (f p) = pi_UserID p \<and> pi_CaptureID (f p) \<noteq> None \<and>
     pi_Status (f p) = PaymentIntentCaptured \<and>
     posting (pi_UserID p) d s s' \<and> db_seq s' = db_seq s + 1 \<and> db_intents s' = update_where P f (db_intents s) \<and>
     db_ledger s' = db_ledger s @ [r] \<and> bl_RefType r = Some ''payment_intent'' \<and> bl_RefID r = null_int (pi_ID p) \<and> bl_UserID r = pi_UserID p)"

lemma captured_byI:
  assumes "p \<in> set (db_intents s)" "\<forall>q\<in>set (db_intents s). P q \<longrightarrow> q = p" "P p" "pi_Status p \<noteq> PaymentIntentCaptured"
    "posting (pi_UserID p) d s s'" "db_seq s' = db_seq s + 1" "db_intents s' = update_where P f (db_intents s)"
    "pi_ID (f p) = pi_ID p \<and> pi_Token (f p) = pi_Token p \<and> pi_UserID (f p) = pi_UserID p \<and> pi_CaptureID (f p) \<noteq> None \<and> pi_Status (f p) = PaymentIntentCaptured"
    "db_ledger s' = db_ledger s @ [r]" "bl_RefType r = Some ''payment_intent'' \<and> bl_RefID r = null_int (pi_ID p) \<and> bl_UserID r = pi_UserID p"
  shows "captured_by d s s'"
  using assms unfolding captured_by_def by blast

lemma captured_by_ok:
  assumes "intents_ok s" "captured_by d s s'"
  shows "intents_ok s'"
proof -
  obtain p P f r where p: "p \<in> set (db_intents s)" "pi_Status p \<noteq> PaymentIntentCaptured" and P: "\<forall>q\<in>set (db_intents s). P q \<longrightarrow> q = p" "P p"
    and f: "pi_ID (f p) = pi_ID p" "pi_Token (f p) = pi_Token p" "pi_UserID (f p) = pi_UserID p" "pi_CaptureID (f p) \<noteq> None" "pi_Status (f p) = PaymentIntentCaptured"
    and seq: "db_seq s' = db_seq s + 1" and upd: "db_intents s' = update_where P f (db_intents s)"
    and led: "db_ledger s' = db_ledger s @ [r]" "bl_RefType r = Some ''payment_intent''" "bl_RefID r = null_int (pi_ID p)" "bl_UserID r = pi_UserID p"
    using assms(2) unfolding captured_by_def by blast
  note ok = intents_okD [OF assms(1)]
  have cr: "credited_users k (db_ledger s') = credited_users k (db_ledger s) @ (if k = pi_ID p then [pi_UserID p] else [])" for k
    using ok(3) [OF p(1)] by (auto simp: led credited_users_append null_int_def)
  have none: "pi_CaptureID p = None" using ok(2) [OF p(1)] p(2) by blast
  have "credited_users (pi_ID x) (db_ledger s') = (if pi_CaptureID x = None then [] else [pi_UserID x]) \<and>
        (pi_CaptureID x \<noteq> None \<longrightarrow> pi_Status x = PaymentIntentCaptured) \<and> 0 < pi_ID x \<and> pi_ID x < db_seq s'" if x: "x \<in> set (db_intents s')" for x
  proof -
    obtain y where y: "y \<in> set (db_intents s)" "x = (if P y then f y else y)" using x unfolding upd update_where_def by auto
    show ?thesis
    proof (cases "y = p")
      case True
      then have "x = f p" using y(2) P(2) by simp
      then show ?thesis using f ok(1,3,4) [OF p(1)] none seq by (simp add: cr)
    next
      case False
      then have "x = y" "pi_ID y \<noteq> pi_ID p" using y P(1) intents_ok_same [OF assms(1) y(1) p(1)] by auto
      then show ?thesis using ok [OF y(1)] seq by (simp add: cr)
    qed
  qed
  moreover have "map pi_ID (db_intents s') = map pi_ID (db_intents s)" "map pi_Token (db_intents s') = map pi_Token (db_intents s)"
    unfolding upd update_where_def using P(1) f(1,2) by auto
  moreover have "\<forall>k\<ge>db_seq s'. credited_users k (db_ledger s') = []" using assms(1) ok(4) [OF p(1)] seq by (auto simp: cr intents_ok_def)
  ultimately show ?thesis using assms(1) seq unfolding intents_ok_def by simp
qed

lemma resolveCaptureMissTx_run [tx_runs]: "resolveCaptureMissTx t c fs s = (Inr x, fs', s') \<longleftrightarrow> False"
  by (auto simp: resolveCaptureMissTx_def tx_runs GetByToken_def split: option.splits if_splits)

text \<open>The update of an account and the ledger row that follow a capture.\<close>
lemma creditUserTx_run:
  assumes "creditUserTx p d cur amt fs s = (Inr x, fs', s')"
  shows "posting (pi_UserID p) d s s'" "db_intents s' = db_intents s" "db_seq s' = db_seq s + 1"
    "\<exists>r. db_ledger s' = db_ledger s @ [r] \<and> bl_RefType r = Some ''payment_intent'' \<and> bl_RefID r = null_int (pi_ID p) \<and> bl_UserID r = pi_UserID p"
proof -
  let ?e = "\<lambda>u. \<lparr>lrow_UserID = pi_UserID p, lrow_DeltaCents = d, lrow_Kind = creditLedgerKind (pi_Provider p),
       lrow_BalanceAfter = u_BalanceCents u, lrow_RefID = pi_ID p, lrow_RefType = ''payment_intent'',
       lrow_Reference = (case pi_CaptureID p of None \<Rightarrow> [] | Some c \<Rightarrow> c), lrow_CreatorID = 0,
       lrow_SourceCurrency = cur, lrow_SourceAmountCents = amt\<rparr>"
  obtain u s1 where upd: "user_update (pi_UserID p) (\<lambda>_. True) (\<lambda>u.
       if cur \<noteq> [] then (add_balance d u)\<lparr>u_BalanceCurrency := cur\<rparr> else add_balance d u) s = Inr (Some u, s1)"
    and ins: "ledger_insert (?e u) s1 = Inr (x, s')"
    using assms unfolding creditUserTx_def by (auto simp: tx_runs)
  show "posting (pi_UserID p) d s s'" by (rule posting_by [OF upd _ _ _ ins]) (simp_all add: add_balance_def)
  obtain s1: "s1 = s\<lparr>db_users := (db_users s)(pi_UserID p \<mapsto> u)\<rparr>" by (rule user_update_Some [OF upd]) auto
  show "db_intents s' = db_intents s" "db_seq s' = db_seq s + 1"
    "\<exists>r. db_ledger s' = db_ledger s @ [r] \<and> bl_RefType r = Some ''payment_intent'' \<and> bl_RefID r = null_int (pi_ID p) \<and> bl_UserID r = pi_UserID p"
    using ledger_insert_run(1) [OF ins] by (simp_all add: s1 ledger_append_def ledger_row_of_def null_string_def)
qed

lemma posting_intents: "posting i d (s\<lparr>db_intents := x\<rparr>) s' \<longleftrightarrow> posting i d s s'" "posting i d s (s'\<lparr>db_intents := x\<rparr>) \<longleftrightarrow> posting i d s s'"
  by (simp_all add: posting_def reference_used_def)

lemma captureIntentTx_run:
  assumes "captureIntentTx t c fs s = (Inr r, fs', s')"
  shows "r = first_row (map (\<lambda>p. p\<lparr>pi_Status := PaymentIntentCaptured, pi_CaptureID := Some c\<rparr>)
      (filter (\<lambda>p. pi_Token p = t \<and> pi_Status p = PaymentIntentPending \<and> pi_ExpiresAt p > db_now s) (db_intents s)))"
    "s' = s\<lparr>db_intents := update_where (\<lambda>p. pi_Token p = t \<and> pi_Status p = PaymentIntentPending \<and> pi_ExpiresAt p > db_now s)
      (\<lambda>p. p\<lparr>pi_Status := PaymentIntentCaptured, pi_CaptureID := Some c\<rparr>) (db_intents s)\<rparr>"
  using assms unfolding captureIntentTx_def by (simp_all add: tx_bind_run tx_exec_run tx_ret_run intent_update_run)

lemma capture_tx_cases:
  assumes "capture_tx t c d cur amt fs s = (Inr x, fs', s')"
  obtains p ps fs1 fs2 where "filter (\<lambda>p. pi_Token p = t \<and> pi_Status p = PaymentIntentPending \<and> pi_ExpiresAt p > db_now s) (db_intents s) = p # ps"
    "creditUserTx (p\<lparr>pi_Status := PaymentIntentCaptured, pi_CaptureID := Some c\<rparr>) d cur amt fs1
      (s\<lparr>db_intents := update_where (\<lambda>p. pi_Token p = t \<and> pi_Status p = PaymentIntentPending \<and> pi_ExpiresAt p > db_now s)
        (\<lambda>p. p\<lparr>pi_Status := PaymentIntentCaptured, pi_CaptureID := Some c\<rparr>) (db_intents s)\<rparr>) = (Inr (), fs2, s')"
proof -
  let ?P = "\<lambda>p. pi_Token p = t \<and> pi_Status p = PaymentIntentPending \<and> pi_ExpiresAt p > db_now s"
  let ?f = "\<lambda>p. p\<lparr>pi_Status := PaymentIntentCaptured, pi_CaptureID := Some c\<rparr>"
  obtain r fs0 s0 where c: "captureIntentTx t c fs s = (Inr r, fs0, s0)" and rest: "(case r of None \<Rightarrow> resolveCaptureMissTx t c
     | Some p \<Rightarrow> tx_bind (creditUserTx p d cur amt) (\<lambda>_. tx_ret (Some p))) fs0 s0 = (Inr x, fs', s')"
    using assms unfolding capture_tx_def tx_bind_run [of "captureIntentTx t c"] by blast
  note cap = captureIntentTx_run [OF c]
  obtain p ps where p: "filter ?P (db_intents s) = p # ps" using rest cap(1) by (cases "filter ?P (db_intents s)") (auto simp: first_row_def tx_runs)
  then have "r = Some (?f p)" using cap(1) by (simp add: first_row_def)
  then show ?thesis using that [OF p] rest cap(2) by (auto simp: tx_runs)
qed

lemma capture_tx_run:
  assumes "capture_tx t c d cur amt fs s = (Inr x, fs', s')"
  obtains p where "p \<in> set (db_intents s)" "pi_Token p = t" "pi_Status p = PaymentIntentPending" "db_now s < pi_ExpiresAt p"
    "posting (pi_UserID p) d s s'" "intents_ok s \<Longrightarrow> captured_by d s s'"
proof (rule capture_tx_cases [OF assms])
  let ?P = "\<lambda>p. pi_Token p = t \<and> pi_Status p = PaymentIntentPending \<and> pi_ExpiresAt p > db_now s"
  let ?f = "\<lambda>p. p\<lparr>pi_Status := PaymentIntentCaptured, pi_CaptureID := Some c\<rparr>"
  fix p ps fs1 fs2 assume p: "filter ?P (db_intents s) = p # ps"
    and cr: "creditUserTx (?f p) d cur amt fs1 (s\<lparr>db_intents := update_where ?P ?f (db_intents s)\<rparr>) = (Inr (), fs2, s')"
  note r = creditUserTx_run [OF cr]
  have pin: "p \<in> set (db_intents s)" "?P p" using filter_hd [OF p] by auto
  have post: "posting (pi_UserID p) d s s'" using r(1) by (simp add: posting_intents)
  obtain row where row: "db_ledger s' = db_ledger s @ [row]" "bl_RefType row = Some ''payment_intent''" "bl_RefID row = null_int (pi_ID p)" "bl_UserID row = pi_UserID p"
    using r(4) by auto
  have "captured_by d s s'" if ok: "intents_ok s"
  proof -
    have P: "\<forall>q\<in>set (db_intents s). ?P q \<longrightarrow> q = p"
    proof (intro ballI impI)
      fix q assume "q \<in> set (db_intents s)" "?P q"
      then show "q = p" by (intro intents_ok_same [OF ok _ pin(1)]) (simp_all add: pin(2))
    qed
    show ?thesis by (rule captured_byI [OF pin(1) P, where f = ?f and r = row]) (use pin(2) post row r(2,3) in simp_all)
  qed
  then show ?thesis using that [OF pin(1) _ _ _ post] pin(2) by blast
qed

lemma admin_credit_tx_run:
  assumes "admin_credit_tx i a d t fs s = (Inr x, fs', s')"
  obtains u where "posting u d s s'" "intents_ok s \<Longrightarrow> captured_by d s s'"
proof -
  let ?c = "admin_capture_ref i"
  let ?f = "\<lambda>p. p\<lparr>pi_Status := PaymentIntentCaptured, pi_CaptureID := Some ?c, pi_ReviewedBy := Some a, pi_ReviewNotes := t\<rparr>"
  let ?e = "\<lambda>p u. \<lparr>lrow_UserID = pi_UserID p, lrow_DeltaCents = d, lrow_Kind = creditLedgerKind (pi_Provider p),
             lrow_BalanceAfter = u_BalanceCents u, lrow_RefID = pi_ID p, lrow_RefType = ''payment_intent'', lrow_Reference = ?c,
             lrow_CreatorID = a, lrow_SourceCurrency = [], lrow_SourceAmountCents = 0\<rparr>"
  obtain p where p: "find (\<lambda>p. pi_ID p = i) (db_intents s) = Some p" "pi_Status p \<noteq> PaymentIntentCaptured"
    using assms unfolding admin_credit_tx_def GetIntentByID_def by (auto simp: tx_runs split: option.splits if_splits)
  obtain u s1 s2 where upd: "user_update (pi_UserID p) (\<lambda>_. True) (add_balance d) s = Inr (Some u, s1)" and ins: "ledger_insert (?e p u) s1 = Inr ((), s2)"
    and s': "s' = s2\<lparr>db_intents := update_where (\<lambda>p. pi_ID p = i) ?f (db_intents s2)\<rparr>"
    using assms p unfolding admin_credit_tx_def GetIntentByID_def Let_def by (auto simp: tx_runs)
  have post: "posting (pi_UserID p) d s s'" using posting_by [OF upd _ _ _ ins] by (simp add: add_balance_def s' posting_intents)
  obtain s1: "s1 = s\<lparr>db_users := (db_users s)(pi_UserID p \<mapsto> u)\<rparr>" by (rule user_update_Some [OF upd]) auto
  have pin: "p \<in> set (db_intents s)" "pi_ID p = i" using find_Some_in [OF p(1)] by auto
  have "captured_by d s s'" if ok: "intents_ok s"
  proof -
    have P: "\<forall>q\<in>set (db_intents s). pi_ID q = i \<longrightarrow> q = p"
    proof (intro ballI impI)
      fix q assume "q \<in> set (db_intents s)" "pi_ID q = i"
      then show "q = p" by (intro intents_ok_same [OF ok _ pin(1)]) (simp_all add: pin(2))
    qed
    show ?thesis
      by (rule captured_byI [OF pin(1) P, where f = ?f and r = "ledger_row_of (db_seq s1) (db_now s1) (?e p u)"])
        (use pin(2) p(2) post in \<open>simp_all add: ledger_insert_run(1) [OF ins] s' s1 ledger_append_def ledger_row_of_def null_string_def\<close>)
  qed
  then show ?thesis using that [OF post] by blast
qed

interpretation capture: money_op "CaptureAndCredit n t c d cur amt"
proof
  show "s' = s" if "CaptureAndCredit n t c d cur amt fs s = (Inl e, fs', s')" for fs s e fs' s'
    using that unfolding CaptureAndCredit_def by (rule withRetryTx_Inl)
  show "bank_step\<^sup>*\<^sup>* s s'" if "books s" "CaptureAndCredit n t c d cur amt fs s = (Inr r, fs', s')" for s fs r fs' s'
    using that(2) unfolding CaptureAndCredit_def
    by (rule withRetryTx_cases) (auto elim: capture_tx_run intro: bank_stepI)
qed

interpretation admin_credit: money_op "AdminCreditExpired n i a d t"
proof
  show "s' = s" if "AdminCreditExpired n i a d t fs s = (Inl e, fs', s')" for fs s e fs' s'
    using that unfolding AdminCreditExpired_def by (rule withRetryTx_Inl)
  show "bank_step\<^sup>*\<^sup>* s s'" if "books s" "AdminCreditExpired n i a d t fs s = (Inr r, fs', s')" for s fs r fs' s'
    using that(2) unfolding AdminCreditExpired_def
    by (rule withRetryTx_cases) (auto elim: admin_credit_tx_run intro: bank_stepI)
qed

lemma capture_keeps_ok: "tx_keeps intents_ok (CaptureAndCredit n t c d cur amt)"
proof (rule capture.invariant_if_success)
  fix fs s a fs' s' assume ok: "intents_ok s" and run: "CaptureAndCredit n t c d cur amt fs s = (Inr a, fs', s')"
  from run [unfolded CaptureAndCredit_def] show "intents_ok s'"
    by (rule withRetryTx_cases) (use ok captured_by_ok in \<open>auto elim!: capture_tx_run\<close>)
qed

lemma admin_credit_keeps_ok: "tx_keeps intents_ok (AdminCreditExpired n i a d t)"
proof (rule admin_credit.invariant_if_success)
  fix fs s r fs' s' assume ok: "intents_ok s" and run: "AdminCreditExpired n i a d t fs s = (Inr r, fs', s')"
  from run [unfolded AdminCreditExpired_def] show "intents_ok s'"
    by (rule withRetryTx_cases) (use ok captured_by_ok in \<open>auto elim!: admin_credit_tx_run\<close>)
qed

datatype intent_op =
    OpCreateForPayPal "string option" int int string
  | OpCreateForRecurrente int int string string
  | OpRecurrenteWebhook string int int string
  | OpPayPalWebhook string string int
  | OpAdminCredit int int int string
  | OpAdminReject int int string
  | OpRequestComprobante int int
  | OpSetComprobante int string string string int
  | OpResubmit int string "(string \<times> string \<times> int) option" string
  | OpCancelIntent string int
  | OpCancelStale time
  | OpMarkCaptured string

fun run_intent_op :: "nat \<Rightarrow> (int \<Rightarrow> int dbprog) option \<Rightarrow> intent_op \<Rightarrow> unit dbprog" where
  "run_intent_op n fx (OpCreateForPayPal t u a c) = tx_void (CreateForPayPal t u a c)"
| "run_intent_op n fx (OpCreateForRecurrente u a c r) = tx_void (CreateForRecurrente u a c r)"
| "run_intent_op n fx (OpRecurrenteWebhook r u a c) = ResolveAndCreditRecurrenteIntent n r u a c"
| "run_intent_op n fx (OpPayPalWebhook t c a) = ResolveAndCreditPayPalIntent n fx t c a"
| "run_intent_op n fx (OpAdminCredit i a d t) = tx_void (AdminCreditExpired n i a d t)"
| "run_intent_op n fx (OpAdminReject i a t) = tx_void (AdminReject i a t)"
| "run_intent_op n fx (OpRequestComprobante i a) = tx_void (RequestComprobante i a)"
| "run_intent_op n fx (OpSetComprobante u t k c z) = SetComprobanteByToken u t k c z"
| "run_intent_op n fx (OpResubmit u t c m) = tx_void (ResubmitForReview u t c m)"
| "run_intent_op n fx (OpCancelIntent t u) = CancelIntent t u"
| "run_intent_op n fx (OpCancelStale b) = tx_void (CancelStalePendingCardIntents b)"
| "run_intent_op n fx (OpMarkCaptured t) = MarkCapturedByToken t"

lemma deposit_gate_keeps [tx_keep]: "tx_keeps I (CheckDeposit u a cur)" "tx_keeps I (CheckDepositVelocity u a cur)"
  unfolding CheckDeposit_def CheckDepositVelocity_def Let_def by (intro tx_keep)+

lemma ignore_repeat_keeps [tx_keep]: "tx_keeps I m \<Longrightarrow> tx_keeps I (ignore_repeat m)"
  unfolding ignore_repeat_def by (intro tx_keep)

lemma fetchPending_keeps [tx_keep]: "tx_keeps I (fetchPendingAndCheckKYC t)"
  unfolding fetchPendingAndCheckKYC_def GetByToken_def by (intro tx_keep)

lemma resolvePayPalCredit_keeps: "fx_reads fx \<Longrightarrow> tx_keeps I (resolvePayPalCredit fx p)"
  unfolding resolvePayPalCredit_def resolveBalanceCurrency_def GetBalanceCurrency_def
  by (intro tx_keep) (auto simp: fx_reads_def intro!: reads_only_keeps)

lemma webhooks_keep:
  assumes "\<And>t c d cur amt. tx_keeps I (CaptureAndCredit n t c d cur amt)"
  shows "tx_keeps I (ResolveAndCreditRecurrenteIntent n r u a c)" "fx_reads fx \<Longrightarrow> tx_keeps I (ResolveAndCreditPayPalIntent n fx t c' a)"
  unfolding ResolveAndCreditRecurrenteIntent_def ResolveAndCreditPayPalIntent_def checkRecurrenteKYC_def GetByToken_def Let_def
  by (intro tx_keep assms resolvePayPalCredit_keeps; assumption)+

lemma intent_update_keeps:
  assumes "\<And>s p. pi_ID (f s p) = pi_ID p \<and> pi_Token (f s p) = pi_Token p \<and> pi_UserID (f s p) = pi_UserID p \<and> pi_CaptureID (f s p) = pi_CaptureID p"
    "\<And>s p. P s p \<Longrightarrow> pi_Status p \<noteq> PaymentIntentCaptured"
  shows "tx_keeps intents_ok (tx_exec (\<lambda>s. intent_update (P s) (f s) s))"
  by (rule tx_keeps_exec) (use assms in \<open>auto simp: tx_runs intro!: intents_ok_update\<close>)

lemmas intent_update_keeps' = intent_update_keeps [where f = "\<lambda>_. f" and P = "\<lambda>_. P" for f P]

lemma create_intent_keeps:
  assumes "\<And>s p q s'. I s \<Longrightarrow> intent_insert p s = Inr (q, s') \<Longrightarrow> I s'"
  shows "tx_keeps I (create_intent u a c pr t)"
  unfolding create_intent_def CreateIntent_def param_int_def by (intro tx_keep) (rule assms)

lemma creates_keep:
  assumes "\<And>s p q s'. I s \<Longrightarrow> intent_insert p s = Inr (q, s') \<Longrightarrow> I s'"
  shows "tx_keeps I (CreateForPayPal t u a c)" "tx_keeps I (CreateForRecurrente u a c r)"
  unfolding CreateForPayPal_def CreateForRecurrente_def check_intent_amount_def param_int_def
  by (intro tx_keep create_intent_keeps; erule assms; assumption)+

lemma reviews_keep:
  "tx_keeps intents_ok (AdminReject i a t)" "tx_keeps intents_ok (RequestComprobante i a)" "tx_keeps intents_ok (SetComprobanteByToken u tok k c z)"
  "tx_keeps intents_ok (CancelIntent tok u)" "tx_keeps intents_ok (CancelStalePendingCardIntents b)" "tx_keeps intents_ok (MarkCapturedByToken tok)"
  "tx_keeps intents_ok (ResubmitForReview u tok cc t)"
  unfolding AdminReject_def RequestComprobante_def SetComprobanteByToken_def SetComprobante_def CancelIntent_def CancelByToken_def
    CancelStalePendingCardIntents_def MarkCapturedByToken_def GetByToken_def ResubmitForReview_def SubmitForReview_def
  by (intro tx_keeps_void tx_keeps_bind tx_keeps_option tx_keeps_if tx_keeps_base tx_keeps_row_or tx_keeps_affected intent_update_keeps
      intent_update_keeps'; auto split: option.splits)+

lemma run_intent_op_keeps:
  assumes "fx_reads fx"
  shows "tx_keeps intents_ok (run_intent_op n fx oper)"
  by (cases oper) (simp_all add: webhooks_keep [OF capture_keeps_ok] assms tx_keeps_void admin_credit_keeps_ok reviews_keep creates_keep [OF intents_ok_insert])

text \<open>
  C7: a card payment is credited at most once. After any sequence of checkouts, webhook deliveries (repeated, forged or late), manual
  credits, rejections, resubmissions and cancellations, with whatever failures, the ledger holds exactly one credit for an intent
  that was captured under a capture id, to the account of that intent, and none for any other intent.
\<close>
theorem intents_credited_at_most_once:
  assumes "intents_ok s" "fx_reads fx" "s' = run_all (map (\<lambda>(oper, fs). (run_intent_op n fx oper, fs)) requests) s"
  shows "\<forall>p\<in>set (db_intents s'). credited_users (pi_ID p) (db_ledger s') = (if pi_CaptureID p = None then [] else [pi_UserID p])"
proof -
  have "intents_ok s'" unfolding assms(3)
    by (rule run_all_invariant [where I = intents_ok]) (use run_intent_op_keeps [OF assms(2)] assms(1) in auto)
  then show ?thesis unfolding intents_ok_def by blast
qed

lemma capture_posts:
  assumes "intents_ok s" "p \<in> set (db_intents s)" "pi_Token p = t"
  shows "tx_valid (\<lambda>x. x = s) (CaptureAndCredit n t c d cur amt)
     (\<lambda>_ x. x = s \<or> (pi_Status p = PaymentIntentPending \<and> db_now s < pi_ExpiresAt p \<and> posting (pi_UserID p) d s x)) (\<lambda>_ x. x = s)"
proof (rule tx_validI)
  fix fs x a fs' s' assume "x = s" "CaptureAndCredit n t c d cur amt fs x = (Inr a, fs', s')"
  then have "CaptureAndCredit n t c d cur amt fs s = (Inr a, fs', s')" by simp
  then show "s' = s \<or> (pi_Status p = PaymentIntentPending \<and> db_now s < pi_ExpiresAt p \<and> posting (pi_UserID p) d s s')"
    unfolding CaptureAndCredit_def
  proof (rule withRetryTx_cases)
    fix fs1 fs2 assume "capture_tx t c d cur amt fs1 s = (Inr a, fs2, s')"
    then show ?thesis
    proof (rule capture_tx_run)
      fix q assume q: "q \<in> set (db_intents s)" "pi_Token q = t" "pi_Status q = PaymentIntentPending" "db_now s < pi_ExpiresAt q" "posting (pi_UserID q) d s s'"
      have "q = p" by (rule intents_ok_same [OF assms(1) q(1) assms(2)]) (simp add: q(2) assms(3))
      then show ?thesis using q by simp
    qed
  qed simp
qed (auto dest: capture.no_trace)

text \<open>
  C34: a webhook cannot choose who is credited or how much. A Recurrente delivery that is accepted either changes nothing or
  credits the amount of the stored intent to the account of the stored intent, and only while that intent is pending and not expired;
  the user, amount and currency the payload declares have no influence.
\<close>
theorem Recurrente_webhook_credits_stored_intent:
  assumes "intents_ok s" "ResolveAndCreditRecurrenteIntent n reference wUser wAmount wCurrency fs s = (r, fs', s')"
  shows "s' = s \<or> (\<exists>p\<in>set (db_intents s). pi_Token p = reference \<and> pi_Status p = PaymentIntentPending \<and> db_now s < pi_ExpiresAt p \<and>
    accounts s' = (accounts s)(pi_UserID p := map_option (\<lambda>b. b + pi_AmountCents p) (accounts s (pi_UserID p))) \<and>
    length (db_ledger s') = length (db_ledger s) + 1)"
proof -
  let ?Q = "\<lambda>p x. x = s \<or> (pi_Status p = PaymentIntentPending \<and> db_now s < pi_ExpiresAt p \<and> posting (pi_UserID p) (pi_AmountCents p) s x)"
  let ?R = "\<lambda>x. x = s \<or> (\<exists>p\<in>set (db_intents s). pi_Token p = reference \<and> pi_Status p = PaymentIntentPending \<and> db_now s < pi_ExpiresAt p \<and>
     posting (pi_UserID p) (pi_AmountCents p) s x)"
  have "tx_valid (\<lambda>x. x = s) (ignore_repeat (CaptureAndCredit n reference reference (pi_AmountCents p) cur amt)) (\<lambda>_. ?R) (\<lambda>_. ?R)"
    if "p \<in> set (db_intents s)" "pi_Token p = reference" for p cur amt
    unfolding ignore_repeat_def
    by (rule tx_valid_try [OF capture_posts [OF assms(1) that]]) (use that in \<open>auto intro!: tx_valid_ret tx_valid_if tx_valid_err\<close>)
  note cap = this
  have found: "tx_valid (\<lambda>x. x = s) (tx_bind (checkRecurrenteKYC (pi_UserID p) (pi_AmountCents p) (pi_Currency p)) (\<lambda>_.
         let (sourceCurrency, sourceAmountCents) = (if pi_Currency p = ''USD'' then (''USD'', pi_AmountCents p) else ([], 0)) in
         ignore_repeat (CaptureAndCredit n reference reference (pi_AmountCents p) sourceCurrency sourceAmountCents))) (\<lambda>_. ?R) (\<lambda>_. ?R)"
    if "p \<in> set (db_intents s)" "pi_Token p = reference" for p
    unfolding checkRecurrenteKYC_def Let_def
    by (rule tx_valid_bind [OF tx_valid_of_keeps [where I = "\<lambda>x. x = s"]], intro tx_keep) (simp_all add: cap [OF that])
  have get: "tx_valid (\<lambda>x. x = s) (GetByToken reference) (\<lambda>p x. x = s \<and> (\<forall>q. p = Some q \<longrightarrow> q \<in> set (db_intents s) \<and> pi_Token q = reference)) (\<lambda>_. ?R)"
    unfolding GetByToken_def by (rule tx_valid_query) (auto dest: find_Some_in)
  have "tx_valid (\<lambda>x. x = s) (ResolveAndCreditRecurrenteIntent n reference wUser wAmount wCurrency) (\<lambda>_. ?R) (\<lambda>_. ?R)"
    unfolding ResolveAndCreditRecurrenteIntent_def
  proof (intro tx_valid_if tx_valid_bind [OF get])
    fix r :: "PaymentIntent option"
    show "tx_valid (\<lambda>x. x = s \<and> (\<forall>q. r = Some q \<longrightarrow> q \<in> set (db_intents s) \<and> pi_Token q = reference)) (case r of
       None \<Rightarrow> tx_err (NotFound ''payment intent not found for reference'')
     | Some p \<Rightarrow>
         tx_bind (checkRecurrenteKYC (pi_UserID p) (pi_AmountCents p) (pi_Currency p)) (\<lambda>_.
         let (sourceCurrency, sourceAmountCents) = (if pi_Currency p = ''USD'' then (''USD'', pi_AmountCents p) else ([], 0)) in
         ignore_repeat (CaptureAndCredit n reference reference (pi_AmountCents p) sourceCurrency sourceAmountCents))) (\<lambda>_. ?R) (\<lambda>_. ?R)"
    proof (cases r)
      case (Some p)
      then show ?thesis using found [of p] by (cases "p \<in> set (db_intents s) \<and> pi_Token p = reference") (auto elim!: tx_valid_weaken)
    qed (auto intro!: tx_valid_err)
  qed (auto intro!: tx_valid_err)
  from tx_validD [OF this refl] assms(2) have "?R s'" by (cases r) auto
  then show ?thesis using posting_accounts posting_length by blast
qed

definition example_intent_db :: db where
  "example_intent_db = example_bank_db\<lparr>db_seq := 10\<rparr>"

lemma example_intent_ok: "intents_ok example_intent_db"
  by (simp add: intents_ok_def credited_users_def example_intent_db_def example_bank_db_def empty_db_def)

theorem intents_credited_at_most_once_witness:
  "credited_users 10 (db_ledger (run_all (map (\<lambda>(oper, fs). (run_intent_op 3 None oper, fs))
     [(OpCreateForRecurrente 1 700 [] ''ref'', []), (OpRecurrenteWebhook ''ref'' 2 99999 ''USD'', []), (OpRecurrenteWebhook ''ref'' 1 700 [], [])]) example_intent_db)) = [1]"
proof -
  let ?ops = "[(OpCreateForRecurrente 1 700 [] ''ref'', []), (OpRecurrenteWebhook ''ref'' 2 99999 ''USD'', []), (OpRecurrenteWebhook ''ref'' 1 700 [], [])]"
  let ?s = "run_all (map (\<lambda>(oper, fs). (run_intent_op 3 None oper, fs)) ?ops) example_intent_db"
  have "fx_reads None" by (simp add: fx_reads_def)
  moreover have "map (\<lambda>p. (pi_ID p, pi_UserID p, pi_CaptureID p)) (db_intents ?s) = [(10, 1, Some ''ref'')]" by code_simp
  ultimately show ?thesis using intents_credited_at_most_once [OF example_intent_ok, of None _ 3 ?ops] by (auto simp: map_eq_Cons_conv)
qed

definition example_paid_db :: db where
  "example_paid_db = snd (snd (CreateForRecurrente 1 700 [] ''ref'' [] example_intent_db))"

lemma example_paid_ok: "intents_ok example_paid_db"
proof -
  have "tx_keeps intents_ok (CreateForRecurrente 1 700 [] ''ref'')" by (rule creates_keep(2), rule intents_ok_insert)
  then show ?thesis unfolding example_paid_db_def using example_intent_ok by (rule tx_keeps_run [where I = intents_ok])
qed

theorem Recurrente_webhook_credits_stored_intent_witness:
  "accounts (snd (snd (ResolveAndCreditRecurrenteIntent 3 ''ref'' 2 99999 ''USD'' [] example_paid_db))) 1 = Some 700"
proof -
  let ?r = "ResolveAndCreditRecurrenteIntent 3 ''ref'' 2 99999 ''USD'' [] example_paid_db"
  have "length (db_ledger (snd (snd ?r))) \<noteq> length (db_ledger example_paid_db)"
    "map (\<lambda>p. (pi_UserID p, pi_AmountCents p)) (db_intents example_paid_db) = [(1, 700)]" "accounts example_paid_db 1 = Some 0" by code_simp+
  then show ?thesis
    using Recurrente_webhook_credits_stored_intent [OF example_paid_ok, of 3 "''ref''" 2 99999 "''USD''" "[]" "fst ?r" "fst (snd ?r)" "snd (snd ?r)"]
    by (auto simp: map_eq_Cons_conv)
qed

end
