(* ===== verification/Predictions.thy ===== *)
theory Predictions
  imports Bracket Membership
begin

text \<open>
  Submitting and changing predictions: \<^verbatim>\<open>service/prediction_service.go\<close>, \<^verbatim>\<open>service/extra_prediction_service.go\<close> and
  the statements of \<^verbatim>\<open>repository/prediction_repository.go\<close> and \<^verbatim>\<open>repository/extra_prediction_repository.go\<close>
  they use. The clock of the services is \<open>db_now\<close>. The pointer the Go functions fill in is the row they
  return.
\<close>

section \<open>Statements\<close>

text \<open>The columns and checks of a row of \<open>predictions\<close>.\<close>
definition prediction_checks :: "Prediction \<Rightarrow> go_error option" where
  "prediction_checks p =
    (if \<not> in_int32 (p_HomeScore p) \<or> \<not> in_int32 (p_AwayScore p) \<or> \<not> fits_int4 (p_Points p) then Some (PgError ''22003'')
     else if p_PredictedWinMethod p \<notin> {None, Some WinMethodNormal, Some WinMethodExtraTime, Some WinMethodPenalties} \<or>
       p_PredictedPenaltyWinner p \<notin> {None, Some ''home'', Some ''away''} then Some (PgError ''23514'')
     else None)"

definition prediction_refs :: "db \<Rightarrow> Prediction \<Rightarrow> bool" where
  "prediction_refs s p \<longleftrightarrow> user_exists s (Some (p_UserID p)) \<and> get_match s (p_MatchID p) \<noteq> None"

definition same_guess_key :: "Prediction \<Rightarrow> Prediction \<Rightarrow> bool" where
  "same_guess_key p q \<longleftrightarrow> p_UserID q = p_UserID p \<and> p_MatchID q = p_MatchID p"

definition new_prediction :: "db \<Rightarrow> Prediction \<Rightarrow> Prediction" where
  "new_prediction s p = p\<lparr>p_ID := db_seq s, p_Points := None, p_ScoredAt := None, p_UpdatedAt := db_now s\<rparr>"

text \<open>
  \<^verbatim>\<open>INSERT ... ON CONFLICT (user_id, match_id) DO UPDATE SET updated_at = predictions.updated_at RETURNING\<close>:
  the checks of the proposed row come before the conflict, its foreign keys after. The flag is \<^verbatim>\<open>xmax = 0\<close>.
\<close>
definition prediction_upsert :: "Prediction \<Rightarrow> db \<Rightarrow> go_error + (Prediction \<times> bool) \<times> db" where
  "prediction_upsert p s = (let p' = new_prediction s p in
     case prediction_checks p' of
       Some e \<Rightarrow> Inl e
     | None \<Rightarrow> (case find (same_guess_key p) (db_predictions s) of
         Some old \<Rightarrow> Inr ((old, False), s)
       | None \<Rightarrow>
           if \<not> prediction_refs s p then Inl (PgError ''23503'')
           else Inr ((p', True), s\<lparr>db_seq := db_seq s + 1, db_predictions := db_predictions s @ [p']\<rparr>)))"

text \<open>\<^verbatim>\<open>UPDATE predictions SET ... WHERE ... RETURNING\<close> with the values of \<open>p\<close>.\<close>
definition prediction_update :: "(Prediction \<Rightarrow> bool) \<Rightarrow> Prediction \<Rightarrow> db \<Rightarrow> go_error + Prediction list \<times> db" where
  "prediction_update w p s =
     (let f = (\<lambda>r. r\<lparr>p_HomeScore := p_HomeScore p, p_AwayScore := p_AwayScore p, p_PredictedWinMethod := p_PredictedWinMethod p,
            p_PredictedPenaltyWinner := p_PredictedPenaltyWinner p, p_Points := p_Points p, p_UpdatedAt := db_now s\<rparr>);
          rows = map f (filter w (db_predictions s))
      in case find (\<lambda>r. prediction_checks r \<noteq> None) rows of
           Some r \<Rightarrow> Inl (the (prediction_checks r))
         | None \<Rightarrow> Inr (rows, s\<lparr>db_predictions := update_where w f (db_predictions s)\<rparr>))"

section \<open>Repository\<close>

definition PredictionUpsert :: "Prediction \<Rightarrow> (Prediction \<times> bool) dbprog" where
  "PredictionUpsert p = tx_exec (prediction_upsert p)"

definition errMsgDuplicatePrediction :: string where
  "errMsgDuplicatePrediction = ''a prediction for this match has already been submitted''"

definition PredictionCreate :: "Prediction \<Rightarrow> Prediction dbprog" where
  "PredictionCreate p = tx_stmt (unique_conflict errMsgDuplicatePrediction) (\<lambda>s. let p' = new_prediction s p in
     case prediction_checks p' of
       Some e \<Rightarrow> Inl e
     | None \<Rightarrow>
         if list_ex (same_guess_key p) (db_predictions s) then Inl (PgError ''23505'')
         else if \<not> prediction_refs s p then Inl (PgError ''23503'')
         else Inr (p', s\<lparr>db_seq := db_seq s + 1, db_predictions := db_predictions s @ [p']\<rparr>))"

definition GetPredictionByID :: "int \<Rightarrow> Prediction option dbprog" where
  "GetPredictionByID i = tx_query (\<lambda>s. find (\<lambda>p. p_ID p = i) (db_predictions s))"

definition PredictionUpdate :: "Prediction \<Rightarrow> Prediction dbprog" where
  "PredictionUpdate p = tx_bind (tx_exec (prediction_update (\<lambda>r. p_ID r = p_ID p) p)) (row_or (NotFound ''prediction not found''))"

definition UpdateIfUnchanged :: "Prediction \<Rightarrow> time \<Rightarrow> Prediction dbprog" where
  "UpdateIfUnchanged p expectedUpdatedAt =
     tx_bind (tx_exec (prediction_update (\<lambda>r. p_ID r = p_ID p \<and> p_UpdatedAt r = expectedUpdatedAt) p))
     (row_or (Conflict ''prediction was modified by another request; please retry''))"

definition GetByUserAndMatch :: "int \<Rightarrow> int \<Rightarrow> Prediction option dbprog" where
  "GetByUserAndMatch userID matchID = tx_query (\<lambda>s. find (\<lambda>p. p_UserID p = userID \<and> p_MatchID p = matchID) (db_predictions s))"

text \<open>Rows are appended in the order of \<^verbatim>\<open>created_at\<close>, by which the listings are sorted.\<close>
definition PredictionListByUser :: "int \<Rightarrow> Prediction list dbprog" where
  "PredictionListByUser userID = tx_query (\<lambda>s. filter (\<lambda>p. p_UserID p = userID) (db_predictions s))"

definition PredictionListByMatch :: "int \<Rightarrow> Prediction list dbprog" where
  "PredictionListByMatch matchID = tx_query (\<lambda>s. filter (\<lambda>p. p_MatchID p = matchID) (db_predictions s))"

definition ListByUserAndQuiniela :: "int \<Rightarrow> int \<Rightarrow> Prediction list dbprog" where
  "ListByUserAndQuiniela userID quinielaID = tx_query (\<lambda>s.
     if list_ex (\<lambda>g. is_active quinielaID g \<and> gm_UserID g = userID) (db_memberships s)
     then filter (\<lambda>p. p_UserID p = userID) (db_predictions s) else [])"

definition ListQuinielaIDsByMatch :: "int \<Rightarrow> int list dbprog" where
  "ListQuinielaIDsByMatch matchID = tx_query (\<lambda>s. remdups (map gm_QuinielaID (filter (\<lambda>g. gm_Status g = MembershipActive \<and> gm_Paid g \<and>
     list_ex (\<lambda>p. p_UserID p = gm_UserID g \<and> p_MatchID p = matchID) (db_predictions s)) (db_memberships s))))"

definition same_extra_key :: "ExtraPrediction \<Rightarrow> ExtraPrediction \<Rightarrow> bool" where
  "same_extra_key p q \<longleftrightarrow> ep_UserID q = ep_UserID p \<and> ep_MatchID q = ep_MatchID p \<and> ep_ExtraType q = ep_ExtraType p"

text \<open>\<^verbatim>\<open>INSERT ... ON CONFLICT (user_id, match_id, extra_type) DO UPDATE SET answer = EXCLUDED.answer RETURNING\<close>.\<close>
definition extra_upsert :: "ExtraPrediction \<Rightarrow> db \<Rightarrow> go_error + (ExtraPrediction \<times> bool) \<times> db" where
  "extra_upsert p s = (let p' = p\<lparr>ep_ID := db_seq s, ep_Points := None, ep_ScoredAt := None\<rparr> in
     if ep_ExtraType p \<notin> set AllExtraTypes then Inl (PgError ''23514'')
     else case find (same_extra_key p) (db_extra_predictions s) of
       Some old \<Rightarrow> Inr ((old\<lparr>ep_Answer := ep_Answer p\<rparr>, False),
         s\<lparr>db_extra_predictions := update_where (same_extra_key p) (\<lambda>r. r\<lparr>ep_Answer := ep_Answer p\<rparr>) (db_extra_predictions s)\<rparr>)
     | None \<Rightarrow>
         if \<not> user_exists s (Some (ep_UserID p)) \<or> get_match s (ep_MatchID p) = None then Inl (PgError ''23503'')
         else Inr ((p', True), s\<lparr>db_seq := db_seq s + 1, db_extra_predictions := db_extra_predictions s @ [p']\<rparr>))"

definition ExtraUpsert :: "ExtraPrediction \<Rightarrow> (ExtraPrediction \<times> bool) dbprog" where
  "ExtraUpsert p = tx_exec (extra_upsert p)"

section \<open>Services\<close>

definition DefaultPredictionDeadlineMin :: int where [domain_consts]: "DefaultPredictionDeadlineMin = 5"

definition deadlineOffset :: "duration dbprog" where
  "deadlineOffset = tx_bind (param_int ''prediction.deadline_minutes'' DefaultPredictionDeadlineMin) (\<lambda>mins. tx_ret (go64 (mins * (60 * 10 ^ 9))))"

text \<open>The match of a prediction, which must not have started.\<close>
definition scheduled_match :: "int \<Rightarrow> string \<Rightarrow> Match dbprog" where
  "scheduled_match matchID msg = tx_bind (tx_query (\<lambda>s. get_match s matchID)) (\<lambda>r. case r of
     None \<Rightarrow> tx_err (NotFound (''match '' @ Itoa matchID @ '' not found''))
   | Some m \<Rightarrow> if m_Status m \<noteq> MatchStatusScheduled then tx_err (Validation msg) else tx_ret m)"

definition Submit :: "Prediction \<Rightarrow> (Prediction \<times> bool) dbprog" where
  "Submit prediction =
     tx_bind (scheduled_match (p_MatchID prediction) ''cannot predict on a match that has already started'') (\<lambda>m.
     tx_bind (tx_read db_now) (\<lambda>now.
     tx_bind deadlineOffset (\<lambda>offset.
     tx_bind (tx_lift (ValidatePrediction prediction (m_KickoffAt m) now offset)) (\<lambda>_.
     PredictionUpsert prediction))))"

definition Update :: "int \<Rightarrow> int \<Rightarrow> int \<Rightarrow> int \<Rightarrow> WinMethod option \<Rightarrow> string option \<Rightarrow> Prediction dbprog" where
  "Update callerUserID i homeScore awayScore predictedWinMethod predictedPenaltyWinner =
     tx_bind (GetPredictionByID i) (\<lambda>r. case r of
       None \<Rightarrow> tx_err (NotFound (''prediction '' @ Itoa i @ '' not found''))
     | Some pred \<Rightarrow>
         if p_UserID pred \<noteq> callerUserID then tx_err (Forbidden ''cannot modify another user's prediction'')
         else
           tx_bind (scheduled_match (p_MatchID pred) ''cannot modify a prediction for a match that has already started'') (\<lambda>m.
           if p_HomeScore pred = homeScore \<and> p_AwayScore pred = awayScore \<and> p_PredictedWinMethod pred = predictedWinMethod \<and>
             p_PredictedPenaltyWinner pred = predictedPenaltyWinner then tx_ret pred
           else
             let updated = pred\<lparr>p_HomeScore := homeScore, p_AwayScore := awayScore, p_PredictedWinMethod := predictedWinMethod,
               p_PredictedPenaltyWinner := predictedPenaltyWinner\<rparr> in
             tx_bind (tx_read db_now) (\<lambda>now.
             tx_bind deadlineOffset (\<lambda>offset.
             tx_bind (tx_lift (ValidatePrediction updated (m_KickoffAt m) now offset)) (\<lambda>_.
             UpdateIfUnchanged updated (p_UpdatedAt pred))))))"

definition ExtraSubmit :: "int \<Rightarrow> int \<Rightarrow> ExtraType \<Rightarrow> string \<Rightarrow> ExtraPrediction dbprog" where
  "ExtraSubmit userID matchID extraType answer =
     tx_bind (tx_lift (ParseExtraType extraType)) (\<lambda>_.
     tx_bind (tx_lift (ValidateExtraAnswer extraType answer)) (\<lambda>_.
     tx_bind (scheduled_match matchID ''cannot submit an extra for a match that has already started'') (\<lambda>m.
     tx_bind (tx_read db_now) (\<lambda>now.
     tx_bind deadlineOffset (\<lambda>offset.
     tx_bind (tx_lift (ValidatePredictionDeadline (m_KickoffAt m) now offset)) (\<lambda>_.
     tx_bind (GetByUserAndMatch userID matchID) (\<lambda>r. case r of
       None \<Rightarrow> tx_err (Validation ''submit your scoreline prediction for this match before submitting extras'')
     | Some existingPrediction \<Rightarrow>
         tx_bind (tx_lift (ValidateExtraAnswerAgainstPrediction extraType answer (p_HomeScore existingPrediction) (p_AwayScore existingPrediction))) (\<lambda>_.
         tx_bind (ExtraUpsert \<lparr>ep_ID = 0, ep_UserID = userID, ep_MatchID = matchID, ep_ExtraType = extraType, ep_Answer = answer,
           ep_Points = None, ep_ScoredAt = None\<rparr>) (\<lambda>(p, _). tx_ret p)))))))))"

section \<open>Who can change which guess\<close>

text \<open>What a user has guessed, and everything the scoring of a match leaves alone.\<close>
definition guess :: "Prediction \<Rightarrow> int \<times> int \<times> int \<times> int \<times> int \<times> WinMethod option \<times> string option" where
  "guess p = (p_ID p, p_UserID p, p_MatchID p, p_HomeScore p, p_AwayScore p, p_PredictedWinMethod p, p_PredictedPenaltyWinner p)"

definition extra_guess :: "ExtraPrediction \<Rightarrow> int \<times> int \<times> int \<times> ExtraType \<times> string" where
  "extra_guess p = (ep_ID p, ep_UserID p, ep_MatchID p, ep_ExtraType p, ep_Answer p)"

text \<open>A match takes predictions: it is scheduled and its deadline has not passed.\<close>
definition is_open :: "db \<Rightarrow> int \<Rightarrow> bool" where
  "is_open s matchID \<longleftrightarrow> (case get_match s matchID of None \<Rightarrow> False | Some m \<Rightarrow>
     m_Status m = MatchStatusScheduled \<and>
     db_now s \<le> m_KickoffAt m - go64 (GetInt (db_params s) ''prediction.deadline_minutes'' DefaultPredictionDeadlineMin * (60 * 10 ^ 9)))"

lemma deadlineOffset_run [tx_runs]:
  "deadlineOffset fs s = (Inr d, fs', s') \<longleftrightarrow>
     d = go64 (GetInt (db_params s) ''prediction.deadline_minutes'' DefaultPredictionDeadlineMin * (60 * 10 ^ 9)) \<and> fs' = fs \<and> s' = s"
  by (auto simp: deadlineOffset_def param_int_def tx_runs)

lemma scheduled_match_run [tx_runs]:
  "scheduled_match i msg fs s = (Inr m, fs', s') \<longleftrightarrow>
     next_fault fs = (None, fs') \<and> s' = s \<and> get_match s i = Some m \<and> m_Status m = MatchStatusScheduled"
  by (auto simp: scheduled_match_def tx_runs split: option.splits if_splits)

lemma ValidatePredictionDeadline_ok: "ValidatePredictionDeadline k now d = Inr u \<longleftrightarrow> now \<le> k - d"
  by (auto simp: ValidatePredictionDeadline_def Let_def)

lemma ValidatePrediction_ok:
  "ValidatePrediction p k now d = Inr u \<longleftrightarrow> 0 \<le> p_HomeScore p \<and> 0 \<le> p_AwayScore p \<and> now \<le> k - d"
  by (auto simp: ValidatePrediction_def ValidatePredictionDeadline_ok)


lemma UpdateIfUnchanged_atomic: "atomic_op (UpdateIfUnchanged p t)"
  by (auto simp: atomic_op_iff UpdateIfUnchanged_def prediction_update_def Let_def tx_bind_def tx_exec_def tx_stmt_def row_or_def tx_ret_def tx_err_def
      filter_empty_conv update_where_none split: prod.splits option.splits list.splits sum.splits)

lemma reads_services [simp]:
  "reads_only (scheduled_match i msg)" "reads_only deadlineOffset" "reads_only (GetPredictionByID j)" "reads_only (GetByUserAndMatch u m)"
  unfolding reads_only_def scheduled_match_def deadlineOffset_def GetPredictionByID_def GetByUserAndMatch_def param_int_def by (intro allI tx_keep)+

text \<open>The services only read before their last statement, so a failed call changes nothing.\<close>
interpretation submit: atomic_op "Submit p"
  unfolding Submit_def PredictionUpsert_def by (intro tx_atomic) simp_all

interpretation revise: atomic_op "Update u i h a wm pw"
  unfolding Update_def Let_def by (intro tx_atomic; simp add: UpdateIfUnchanged_atomic)

interpretation extra_submit: atomic_op "ExtraSubmit u m t ans"
  unfolding ExtraSubmit_def ExtraUpsert_def case_prod_unfold by (intro tx_atomic; simp)

text \<open>What each call can have done.\<close>
lemma Submit_run:
  assumes "Submit p fs s = (r, fs', s')" "s' \<noteq> s"
  shows "is_open s (p_MatchID p)" "0 \<le> p_HomeScore p" "0 \<le> p_AwayScore p" "prediction_checks (new_prediction s p) = None" "prediction_refs s p"
    "\<forall>q\<in>set (db_predictions s). \<not> same_guess_key p q"
    "s' = s\<lparr>db_seq := db_seq s + 1, db_predictions := db_predictions s @ [new_prediction s p]\<rparr>"
proof -
  obtain x where x: "r = Inr x" using assms submit.no_trace by (cases r) auto
  show "is_open s (p_MatchID p)" "0 \<le> p_HomeScore p" "0 \<le> p_AwayScore p" "prediction_checks (new_prediction s p) = None" "prediction_refs s p"
    "\<forall>q\<in>set (db_predictions s). \<not> same_guess_key p q"
    "s' = s\<lparr>db_seq := db_seq s + 1, db_predictions := db_predictions s @ [new_prediction s p]\<rparr>"
    using assms unfolding x
    by (auto simp: Submit_def PredictionUpsert_def prediction_upsert_def Let_def tx_runs ValidatePrediction_ok is_open_def find_None_iff
        split: option.splits if_splits)
qed

definition revised :: "int \<Rightarrow> int \<Rightarrow> WinMethod option \<Rightarrow> string option \<Rightarrow> time \<Rightarrow> Prediction \<Rightarrow> Prediction" where
  "revised h a wm pw now r = r\<lparr>p_HomeScore := h, p_AwayScore := a, p_PredictedWinMethod := wm, p_PredictedPenaltyWinner := pw, p_UpdatedAt := now\<rparr>"

lemma Update_run:
  assumes "Update u i h a wm pw fs s = (r, fs', s')" "s' \<noteq> s" "distinct (map p_ID (db_predictions s))"
  obtains p where "p \<in> set (db_predictions s)" "p_ID p = i" "p_UserID p = u" "is_open s (p_MatchID p)" "0 \<le> h" "0 \<le> a"
    "prediction_checks (revised h a wm pw (db_now s) p) = None"
    "s' = s\<lparr>db_predictions := update_where (\<lambda>r. p_ID r = i) (revised h a wm pw (db_now s)) (db_predictions s)\<rparr>"
proof -
  obtain x where x: "r = Inr x" using assms(1,2) revise.no_trace by (cases r) auto
  let ?upd = "\<lambda>p. p\<lparr>p_HomeScore := h, p_AwayScore := a, p_PredictedWinMethod := wm, p_PredictedPenaltyWinner := pw\<rparr>"
  obtain p rows where p: "find (\<lambda>p. p_ID p = i) (db_predictions s) = Some p" "p_UserID p = u" "is_open s (p_MatchID p)" "0 \<le> h" "0 \<le> a"
    and upd: "prediction_update (\<lambda>r. p_ID r = p_ID (?upd p) \<and> p_UpdatedAt r = p_UpdatedAt p) (?upd p) s = Inr (rows, s')"
    using assms(1,2) unfolding x
    by (auto simp: Update_def GetPredictionByID_def UpdateIfUnchanged_def tx_runs ValidatePrediction_ok is_open_def Let_def split: option.splits if_splits)
  have pin: "p \<in> set (db_predictions s)" "p_ID p = i" using find_Some_in [OF p(1)] by simp_all
  have uniq: "q = p" if "q \<in> set (db_predictions s)" "p_ID q = i" for q
    using assms(3) pin that by (metis inj_onD distinct_map)
  let ?f = "\<lambda>r. r\<lparr>p_HomeScore := h, p_AwayScore := a, p_PredictedWinMethod := wm, p_PredictedPenaltyWinner := pw, p_Points := p_Points p, p_UpdatedAt := db_now s\<rparr>"
  have "p \<in> set (filter (\<lambda>r. p_ID r = i \<and> p_UpdatedAt r = p_UpdatedAt p) (db_predictions s))" using pin by simp
  then have chk: "prediction_checks (?f p) = None"
    using upd pin by (auto simp: prediction_update_def Let_def find_None_iff split: option.splits)
  have same: "?f p = revised h a wm pw (db_now s) p" by (simp add: revised_def)
  have "update_where (\<lambda>r. p_ID r = i \<and> p_UpdatedAt r = p_UpdatedAt p) ?f (db_predictions s) =
      update_where (\<lambda>r. p_ID r = i) (revised h a wm pw (db_now s)) (db_predictions s)"
    unfolding update_where_def by (rule map_cong) (use uniq same in auto)
  then have "s' = s\<lparr>db_predictions := update_where (\<lambda>r. p_ID r = i) (revised h a wm pw (db_now s)) (db_predictions s)\<rparr>"
    using upd pin by (auto simp: prediction_update_def Let_def split: option.splits)
  with that pin p chk same show ?thesis by metis
qed

lemma ExtraSubmit_run:
  assumes "ExtraSubmit u m t ans fs s = (r, fs', s')" "s' \<noteq> s"
  shows "is_open s m" "ParseExtraType t = Inr t" "ValidateExtraAnswer t ans = ok"
    "\<exists>x. extra_upsert \<lparr>ep_ID = 0, ep_UserID = u, ep_MatchID = m, ep_ExtraType = t, ep_Answer = ans, ep_Points = None, ep_ScoredAt = None\<rparr> s = Inr (x, s')"
proof -
  obtain x where x: "r = Inr x" using assms extra_submit.no_trace by (cases r) auto
  show "is_open s m" "ParseExtraType t = Inr t" "ValidateExtraAnswer t ans = ok"
    "\<exists>x. extra_upsert \<lparr>ep_ID = 0, ep_UserID = u, ep_MatchID = m, ep_ExtraType = t, ep_Answer = ans, ep_Points = None, ep_ScoredAt = None\<rparr> s = Inr (x, s')"
    using assms unfolding x
    by (auto simp: ExtraSubmit_def ExtraUpsert_def GetByUserAndMatch_def tx_runs ValidatePredictionDeadline_ok is_open_def ParseExtraType_def
        split: option.splits if_splits prod.splits)
qed

section \<open>Sequences of requests\<close>

datatype prediction_op =
    OpSubmit Prediction
  | OpUpdate int int int int "WinMethod option" "string option"
  | OpExtraSubmit int int ExtraType string
  | OpScoreMatch int
  | OpScoreExtras int
  | OpWait nat

fun run_prediction_op :: "nat \<Rightarrow> prediction_op \<Rightarrow> unit dbprog" where
  "run_prediction_op n (OpSubmit p) = tx_void (Submit p)"
| "run_prediction_op n (OpUpdate u i h a wm pw) = tx_void (Update u i h a wm pw)"
| "run_prediction_op n (OpExtraSubmit u m t ans) = tx_void (ExtraSubmit u m t ans)"
| "run_prediction_op n (OpScoreMatch m) = ScoreMatch n m"
| "run_prediction_op n (OpScoreExtras m) = ScoreExtras n m"
| "run_prediction_op n (OpWait d) = (\<lambda>fs s. (Inr (), fs, s\<lparr>db_now := db_now s + int d\<rparr>))"

text \<open>The user a request is made by; scoring and the passing of time have none.\<close>
fun author :: "prediction_op \<Rightarrow> int option" where
  "author (OpSubmit p) = Some (p_UserID p)"
| "author (OpUpdate u _ _ _ _ _) = Some u"
| "author (OpExtraSubmit u _ _ _) = Some u"
| "author _ = None"

section \<open>Scoring leaves guesses alone\<close>

definition guess_frame where
  "guess_frame s = (map guess (db_predictions s), map extra_guess (db_extra_predictions s), db_matches s, db_params s, db_now s, db_users s, db_seq s)"

lemma map_apply_points:
  "(\<And>now v r. g (put now v r) = g r) \<Longrightarrow> map g (apply_points key scored put now pts rows) = map g rows"
  by (simp add: apply_points_def map_update_where)

lemma update_points_frame:
  "guess_frame (update_prediction_points now pts s) = guess_frame s" "guess_frame (update_extra_points now pts s) = guess_frame s"
  by (simp_all add: guess_frame_def update_prediction_points_def update_extra_points_def map_apply_points
      put_points_def put_extra_points_def guess_def extra_guess_def)

lemma applyChunked_frame:
  assumes "\<And>now pts s. guess_frame (stmt now pts s) = guess_frame s"
  shows "tx_keeps (\<lambda>s. guess_frame s = x) (applyChunkedPointsUpdate stmt pts n)"
  unfolding applyChunkedPointsUpdate_def by (intro tx_keep) (auto simp: assms split: if_splits)

lemma writeScoringLog_frame: "tx_keeps (\<lambda>s. guess_frame s = x) (writeScoringLog ps pts m h a cfg)"
  by (rule tx_keepsI) (auto simp: guess_frame_def dest!: writeScoringLog_run)

lemma reads_scoring:
  "reads_only (loadFinishedMatch i msg)" "reads_only (resolveConfig i ph)" "reads_only (extra_points ts)"
  unfolding reads_only_def by (auto intro!: tx_keepsI dest: loadFinishedMatch_keeps resolveConfig_keeps extra_points_keeps)

lemma scoring_frame:
  "tx_keeps (\<lambda>s. guess_frame s = x) (ScoreMatch n i)" "tx_keeps (\<lambda>s. guess_frame s = x) (ScoreExtras n i)"
  unfolding ScoreMatch_def score_finished_def ScoreMatchBatch_def ScoreExtras_def ExtraScoreMatchBatch_def Let_def
  by (intro tx_keep reads_only_keeps [OF reads_scoring(1)] reads_only_keeps [OF reads_scoring(2)] reads_only_keeps [OF reads_scoring(3)]
      applyChunked_frame writeScoringLog_frame update_points_frame; simp split: option.split; intro conjI allI impI tx_keep)+

section \<open>The tables are well formed\<close>

definition prediction_ok :: "db \<Rightarrow> Prediction \<Rightarrow> bool" where
  "prediction_ok s p \<longleftrightarrow> p_ID p < db_seq s \<and> 0 \<le> p_HomeScore p \<and> in_int32 (p_HomeScore p) \<and> 0 \<le> p_AwayScore p \<and> in_int32 (p_AwayScore p) \<and>
     p_PredictedWinMethod p \<in> {None, Some WinMethodNormal, Some WinMethodExtraTime, Some WinMethodPenalties} \<and>
     p_PredictedPenaltyWinner p \<in> {None, Some ''home'', Some ''away''} \<and> prediction_refs s p"

definition extra_ok :: "db \<Rightarrow> ExtraPrediction \<Rightarrow> bool" where
  "extra_ok s p \<longleftrightarrow> ep_ExtraType p \<in> set AllExtraTypes \<and> ValidateExtraAnswer (ep_ExtraType p) (ep_Answer p) = ok \<and>
     user_exists s (Some (ep_UserID p)) \<and> get_match s (ep_MatchID p) \<noteq> None"

definition predictions_wf :: "db \<Rightarrow> bool" where
  "predictions_wf s \<longleftrightarrow> distinct (map p_ID (db_predictions s)) \<and> distinct (map (\<lambda>p. (p_UserID p, p_MatchID p)) (db_predictions s)) \<and>
     (\<forall>p\<in>set (db_predictions s). prediction_ok s p) \<and>
     distinct (map (\<lambda>p. (ep_UserID p, ep_MatchID p, ep_ExtraType p)) (db_extra_predictions s)) \<and> (\<forall>p\<in>set (db_extra_predictions s). extra_ok s p)"

lemma predictions_wf_frame:
  assumes "predictions_wf s" "guess_frame s' = guess_frame s"
  shows "predictions_wf s'"
proof -
  have f: "map guess (db_predictions s') = map guess (db_predictions s)" "map extra_guess (db_extra_predictions s') = map extra_guess (db_extra_predictions s)"
    and "db_matches s' = db_matches s" "db_users s' = db_users s" "db_seq s' = db_seq s" using assms(2) by (simp_all add: guess_frame_def)
  then have ok: "prediction_ok s' = prediction_ok s" "extra_ok s' = extra_ok s"
    by (simp_all add: fun_eq_iff prediction_ok_def extra_ok_def prediction_refs_def user_exists_def get_match_def)
  have "map p_ID (db_predictions s') = map p_ID (db_predictions s)" by (rule map_factor [OF f(1)]) (simp add: guess_def)
  moreover have "map (\<lambda>p. (p_UserID p, p_MatchID p)) (db_predictions s') = map (\<lambda>p. (p_UserID p, p_MatchID p)) (db_predictions s)"
    by (rule map_factor [OF f(1)]) (simp add: guess_def)
  moreover have "(\<forall>p\<in>set (db_predictions s'). prediction_ok s p) = (\<forall>p\<in>set (db_predictions s). prediction_ok s p)"
    by (rule set_factor [OF f(1)]) (simp add: guess_def prediction_ok_def prediction_refs_def)
  moreover have "map (\<lambda>p. (ep_UserID p, ep_MatchID p, ep_ExtraType p)) (db_extra_predictions s') =
      map (\<lambda>p. (ep_UserID p, ep_MatchID p, ep_ExtraType p)) (db_extra_predictions s)" by (rule map_factor [OF f(2)]) (simp add: extra_guess_def)
  moreover have "(\<forall>p\<in>set (db_extra_predictions s'). extra_ok s p) = (\<forall>p\<in>set (db_extra_predictions s). extra_ok s p)"
    by (rule set_factor [OF f(2)]) (simp add: extra_guess_def extra_ok_def)
  ultimately show ?thesis using assms(1) unfolding predictions_wf_def ok by simp
qed

lemma wf_Submit: "tx_keeps predictions_wf (Submit p)"
proof (rule tx_keepsI)
  fix fs s r fs' s' assume wf: "predictions_wf s" and run: "Submit p fs s = (r, fs', s')"
  show "predictions_wf s'"
  proof (cases "s' = s")
    case False
    note r = Submit_run [OF run False]
    have ext: "prediction_ok s q \<Longrightarrow> prediction_ok s' q" "extra_ok s x \<Longrightarrow> extra_ok s' x" for q x
      by (auto simp: r(7) prediction_ok_def extra_ok_def prediction_refs_def user_exists_def get_match_def)
    have "prediction_ok s' (new_prediction s p)" using r(2-5)
      by (auto simp: r(7) prediction_ok_def prediction_checks_def prediction_refs_def user_exists_def get_match_def new_prediction_def split: if_splits)
    moreover have "db_seq s \<notin> p_ID ` set (db_predictions s)" using wf by (auto simp: predictions_wf_def prediction_ok_def)
    ultimately show ?thesis using wf r(6) ext
      by (auto simp: predictions_wf_def r(7) new_prediction_def same_guess_key_def)
  qed (use wf in simp)
qed

lemma wf_Update: "tx_keeps predictions_wf (Update u i h a wm pw)"
proof (rule tx_keepsI)
  fix fs s r fs' s' assume wf: "predictions_wf s" and run: "Update u i h a wm pw fs s = (r, fs', s')"
  show "predictions_wf s'"
  proof (cases "s' = s")
    case False
    have ids: "distinct (map p_ID (db_predictions s))" using wf by (simp add: predictions_wf_def)
    obtain p where p: "p \<in> set (db_predictions s)" "p_ID p = i" "0 \<le> h" "0 \<le> a" "prediction_checks (revised h a wm pw (db_now s) p) = None"
      "s' = s\<lparr>db_predictions := update_where (\<lambda>r. p_ID r = i) (revised h a wm pw (db_now s)) (db_predictions s)\<rparr>"
      by (rule Update_run [OF run False ids])
    have ext: "prediction_ok s' = prediction_ok s" "extra_ok s' = extra_ok s"
      by (auto simp: fun_eq_iff p(6) prediction_ok_def extra_ok_def prediction_refs_def user_exists_def get_match_def)
    have "prediction_ok s (revised h a wm pw (db_now s) q)" if "prediction_ok s q" for q
      using that p(3-5) by (auto simp: prediction_ok_def revised_def prediction_checks_def prediction_refs_def split: if_splits)
    then show ?thesis using wf unfolding predictions_wf_def ext unfolding p(6)
      by (auto simp: map_update_where set_update_where revised_def)
  qed (use wf in simp)
qed

lemma wf_ExtraSubmit: "tx_keeps predictions_wf (ExtraSubmit u m t ans)"
proof (rule tx_keepsI)
  fix fs s r fs' s' assume wf: "predictions_wf s" and run: "ExtraSubmit u m t ans fs s = (r, fs', s')"
  show "predictions_wf s'"
  proof (cases "s' = s")
    case False
    note r = ExtraSubmit_run [OF run False]
    have ext: "prediction_ok s q \<Longrightarrow> prediction_ok s' q" "extra_ok s' = extra_ok s" for q
      using r(4) by (auto simp: fun_eq_iff extra_upsert_def Let_def prediction_ok_def extra_ok_def prediction_refs_def user_exists_def get_match_def split: option.splits if_splits)
    show ?thesis using wf ext(1) r(3,4) unfolding predictions_wf_def ext(2)
      by (auto simp: extra_upsert_def Let_def same_extra_key_def find_None_iff map_update_where set_update_where extra_ok_def split: option.splits if_splits)
  qed (use wf in simp)
qed

lemma run_prediction_op_wf: "tx_keeps predictions_wf (run_prediction_op n oper)"
proof (cases oper)
  case (OpWait d)
  have "predictions_wf (s\<lparr>db_now := db_now s + int d\<rparr>) = predictions_wf s" for s
    by (simp add: predictions_wf_def prediction_ok_def extra_ok_def prediction_refs_def user_exists_def get_match_def)
  then show ?thesis by (auto intro!: tx_keepsI simp: OpWait)
qed (auto intro: tx_keeps_void wf_Submit wf_Update wf_ExtraSubmit tx_keeps_frame [where g = guess_frame] scoring_frame predictions_wf_frame)

section \<open>Protected guesses\<close>

definition guesses_of :: "(int \<Rightarrow> int \<Rightarrow> bool) \<Rightarrow> db \<Rightarrow> _" where
  "guesses_of P s = (filter (\<lambda>(i, u, m, _). P u m) (map guess (db_predictions s)), filter (\<lambda>(i, u, m, _). P u m) (map extra_guess (db_extra_predictions s)))"

text \<open>
  A set \<open>P\<close> of guesses, by user and match, is shielded from a set of requests when, in every state of interest, none
  of those requests comes from the user of such a guess while its match is open.
\<close>
locale shield =
  fixes P :: "int \<Rightarrow> int \<Rightarrow> bool" and R :: "db \<Rightarrow> bool" and allowed :: "prediction_op \<Rightarrow> bool"
  assumes stable: "R s \<Longrightarrow> db_matches s' = db_matches s \<Longrightarrow> db_params s' = db_params s \<Longrightarrow> db_now s \<le> db_now s' \<Longrightarrow> R s'"
    and closed: "R s \<Longrightarrow> allowed oper \<Longrightarrow> author oper = Some u \<Longrightarrow> P u m \<Longrightarrow> \<not> is_open s m"
begin

definition safe where
  "safe g s \<longleftrightarrow> predictions_wf s \<and> R s \<and> guesses_of P s = g"

lemma safe_step:
  assumes "safe g s" "predictions_wf s'" "guesses_of P s' = guesses_of P s"
    "db_matches s' = db_matches s" "db_params s' = db_params s" "db_now s \<le> db_now s'"
  shows "safe g s'"
  using assms stable by (auto simp: safe_def)

lemma safe_Submit:
  assumes "allowed (OpSubmit p)"
  shows "tx_keeps (safe g) (Submit p)"
proof (rule tx_keepsI)
  fix fs s r fs' s' assume sf: "safe g s" and run: "Submit p fs s = (r, fs', s')"
  show "safe g s'"
  proof (cases "s' = s")
    case False
    note r = Submit_run [OF run False]
    have "predictions_wf s'" using tx_keepsD [OF wf_Submit _ run] sf by (simp add: safe_def)
    moreover have "\<not> P (p_UserID p) (p_MatchID p)" using closed [OF _ assms, of s "p_UserID p" "p_MatchID p"] r(1) sf by (auto simp: safe_def)
    ultimately show ?thesis by (intro safe_step [OF sf]) (simp_all add: r(7) guesses_of_def guess_def new_prediction_def)
  qed (use sf in simp)
qed

lemma safe_Update:
  assumes "allowed (OpUpdate u i h a wm pw)"
  shows "tx_keeps (safe g) (Update u i h a wm pw)"
proof (rule tx_keepsI)
  fix fs s r fs' s' assume sf: "safe g s" and run: "Update u i h a wm pw fs s = (r, fs', s')"
  show "safe g s'"
  proof (cases "s' = s")
    case False
    have wf: "predictions_wf s" "predictions_wf s'" using sf tx_keepsD [OF wf_Update _ run] by (simp_all add: safe_def)
    have ids: "distinct (map p_ID (db_predictions s))" using wf by (simp add: predictions_wf_def)
    obtain p where p: "p \<in> set (db_predictions s)" "p_ID p = i" "p_UserID p = u" "is_open s (p_MatchID p)"
      "s' = s\<lparr>db_predictions := update_where (\<lambda>r. p_ID r = i) (revised h a wm pw (db_now s)) (db_predictions s)\<rparr>"
      by (rule Update_run [OF run False ids])
    have np: "\<not> P (p_UserID q) (p_MatchID q)" if "q \<in> set (db_predictions s)" "p_ID q = i" for q
    proof -
      have "q = p" using that ids p(1,2) by (metis distinct_map inj_onD)
      then show ?thesis using closed [OF _ assms, of s u "p_MatchID p"] p sf by (auto simp: safe_def)
    qed
    have "map guess (filter (\<lambda>p. P (p_UserID p) (p_MatchID p)) (update_where (\<lambda>r. p_ID r = i) (revised h a wm pw t) rows)) =
        map guess (filter (\<lambda>p. P (p_UserID p) (p_MatchID p)) rows)" if "set rows \<subseteq> set (db_predictions s)" for rows t
      using that np by (induction rows) (auto simp: revised_def)
    then have "guesses_of P s' = guesses_of P s" by (simp add: guesses_of_def filter_map comp_def guess_def case_prod_unfold p(5))
    with wf show ?thesis by (intro safe_step [OF sf]) (simp_all add: p(5))
  qed (use sf in simp)
qed

lemma safe_ExtraSubmit:
  assumes "allowed (OpExtraSubmit u m t ans)"
  shows "tx_keeps (safe g) (ExtraSubmit u m t ans)"
proof (rule tx_keepsI)
  fix fs s r fs' s' assume sf: "safe g s" and run: "ExtraSubmit u m t ans fs s = (r, fs', s')"
  show "safe g s'"
  proof (cases "s' = s")
    case False
    note r = ExtraSubmit_run [OF run False]
    have wf: "predictions_wf s'" using sf tx_keepsD [OF wf_ExtraSubmit _ run] by (simp add: safe_def)
    have np: "\<not> P u m" using closed [OF _ assms, of s u m] r(1) sf by (auto simp: safe_def)
    have same: "map extra_guess (filter (\<lambda>p. P (ep_UserID p) (ep_MatchID p)) (update_where (same_extra_key x) (\<lambda>r. r\<lparr>ep_Answer := v\<rparr>) rows)) =
        map extra_guess (filter (\<lambda>p. P (ep_UserID p) (ep_MatchID p)) rows)" if "ep_UserID x = u" "ep_MatchID x = m" for x v rows
      using that np by (induction rows) (auto simp: same_extra_key_def)
    have "guesses_of P s' = guesses_of P s"
      using r(4) np same by (auto simp: guesses_of_def filter_map comp_def extra_guess_def case_prod_unfold extra_upsert_def Let_def split: option.splits if_splits)
    moreover have "db_matches s' = db_matches s" "db_params s' = db_params s" "db_now s' = db_now s"
      using r(4) by (auto simp: extra_upsert_def Let_def split: option.splits if_splits)
    ultimately show ?thesis using wf by (intro safe_step [OF sf]) simp_all
  qed (use sf in simp)
qed

lemma safe_frame: "safe g s \<Longrightarrow> guess_frame s' = guess_frame s \<Longrightarrow> safe g s'"
  using safe_step [of g s s'] predictions_wf_frame [of s s'] by (simp add: safe_def guess_frame_def guesses_of_def)

lemma safe_run_op:
  assumes "allowed oper"
  shows "tx_keeps (safe g) (run_prediction_op n oper)"
proof (cases oper)
  case (OpWait d)
  have "safe g (s\<lparr>db_now := db_now s + int d\<rparr>)" if "safe g s" for s
    by (rule safe_step [OF that]) (use that tx_keepsD [OF run_prediction_op_wf [of n "OpWait d"], of s "[]"] in \<open>auto simp: safe_def guesses_of_def\<close>)
  then show ?thesis by (auto intro!: tx_keepsI simp: OpWait)
qed (use assms in \<open>auto intro: tx_keeps_void safe_Submit safe_Update safe_ExtraSubmit tx_keeps_frame [where g = guess_frame] scoring_frame safe_frame\<close>)

lemma guesses_kept:
  assumes "predictions_wf s" "R s" "\<forall>(oper, fs)\<in>set requests. allowed oper"
  shows "guesses_of P (run_all (map (\<lambda>(oper, fs). (run_prediction_op n oper, fs)) requests) s) = guesses_of P s"
proof -
  have "safe (guesses_of P s) (run_all (map (\<lambda>(oper, fs). (run_prediction_op n oper, fs)) requests) s)"
    by (rule run_all_invariant [where I = "safe (guesses_of P s)"]) (use assms in \<open>auto simp: safe_def [of _ s] intro!: safe_run_op\<close>)
  then show ?thesis by (simp add: safe_def)
qed

end

text \<open>The guesses on a closed match are shielded from everybody, those of a user from everybody else.\<close>
interpretation closed_match: shield "\<lambda>_ m. m = matchID" "\<lambda>s. \<not> is_open s matchID" "\<lambda>_. True" for matchID
  by unfold_locales (auto simp: is_open_def get_match_def split: option.splits)

interpretation own_guesses: shield "\<lambda>u _. u = userID" "\<lambda>_. True" "\<lambda>oper. author oper \<noteq> Some userID" for userID
  by unfold_locales auto

text \<open>
  C35: the tables of predictions stay well typed. Under any sequence of submissions, changes, extras, scoring runs and waiting, with any
  failures, there is one prediction per user and match and one extra per user, match and kind, identifiers are
  unique, scores are non-negative 32-bit numbers, win methods and answers are among the known ones, and every
  row refers to an existing user and match.
\<close>
theorem prediction_tables_stay_well_formed:
  assumes "predictions_wf s"
  shows "predictions_wf (run_all (map (\<lambda>(oper, fs). (run_prediction_op n oper, fs)) requests) s)"
  by (rule run_all_invariant [where I = predictions_wf]) (use assms run_prediction_op_wf in auto)


definition example_guess_db :: db where
  "example_guess_db = empty_db\<lparr>db_seq := 20, db_now := 1000, db_matches := [(example_match 0 0)\<lparr>m_Status := MatchStatusScheduled, m_KickoffAt := 10 ^ 12\<rparr>,
       (example_match 0 0)\<lparr>m_ID := 8, m_Status := MatchStatusScheduled\<rparr>],
     db_users := [1 \<mapsto> example_user 1, 2 \<mapsto> example_user 2], db_predictions := [(example_prediction 2 1 0)\<lparr>p_MatchID := 8\<rparr>]\<rparr>"

definition example_guess_ops :: "prediction_op list" where
  "example_guess_ops = [OpSubmit (example_prediction 1 2 1), OpUpdate 1 20 3 1 None None, OpUpdate 1 2 5 5 None None, OpUpdate 2 2 4 4 None None,
     OpExtraSubmit 1 7 ''first_scorer'' ''home'', OpWait 5]"

lemma example_guess_wf: "predictions_wf example_guess_db"
  by code_simp

theorem prediction_tables_stay_well_formed_witness:
  "predictions_wf (run_all (map (\<lambda>(oper, fs). (run_prediction_op 3 oper, fs)) (map (\<lambda>x. (x, [])) example_guess_ops)) example_guess_db)"
  by (rule prediction_tables_stay_well_formed [OF example_guess_wf])


lemma example_guess_runs:
  "map guess (db_predictions (run_all (map (\<lambda>(oper, fs). (run_prediction_op 3 oper, fs)) (map (\<lambda>x. (x, [])) example_guess_ops)) example_guess_db)) =
     [(2, 2, 8, 1, 0, None, None), (20, 1, 7, 3, 1, None, None)]"
  by code_simp

end
