(* ===== verification/Kyc.thy ===== *)
theory Kyc
  imports Withdrawals
begin

text \<open>
  Identity verification: \<^verbatim>\<open>service/kyc_service.go\<close>, \<^verbatim>\<open>repository/kyc_profile_repository.go\<close>,
  \<^verbatim>\<open>repository/kyc_document_repository.go\<close> and \<^verbatim>\<open>repository/kyc_event_repository.go\<close>. The verification level is
  stored twice, in the profile and in the row of the user; all limits read the second. Trace ids, the metadata
  of an event, the audit log, metrics and the cache of the risk dashboard are left out, and so is the
  notification that is written with a freeze. Only profiles of users exist.
\<close>

section \<open>Statements\<close>

definition errKYCProfileNotFound :: string where
  "errKYCProfileNotFound = ''kyc profile not found''"

definition KYCDocGovID :: KYCDocumentType where [domain_consts]: "KYCDocGovID = ''gov_id''"
definition KYCDocSelfie :: KYCDocumentType where [domain_consts]: "KYCDocSelfie = ''selfie''"
definition KYCDocProofOfAddress :: KYCDocumentType where [domain_consts]: "KYCDocProofOfAddress = ''proof_of_address''"
definition KYCDocProofOfFunds :: KYCDocumentType where [domain_consts]: "KYCDocProofOfFunds = ''proof_of_funds''"

definition known_doc_type :: "KYCDocumentType \<Rightarrow> bool" where
  "known_doc_type t \<longleftrightarrow> t \<in> {KYCDocGovID, KYCDocSelfie, KYCDocProofOfAddress, KYCDocProofOfFunds}"

text \<open>The columns, checks and the reviewer key of a row of \<open>kyc_profiles\<close>.\<close>
definition profile_checks :: "db \<Rightarrow> KYCProfile \<Rightarrow> go_error option" where
  "profile_checks s p =
    (if \<not> in_int32 (kp_Tier p) \<or> \<not> in_int32 (kp_FrozenAmountCents p) \<or> \<not> in_int32 (kp_RiskScore p) then Some (PgError ''22003'')
     else if (case kp_DocumentType p of None \<Rightarrow> False | Some t \<Rightarrow> \<not> known_doc_type t) \<or> kp_FrozenAmountCents p < 0 \<or>
       kp_RiskScore p < 0 \<or> kp_RiskScore p > 100 \<or> kp_Tier p < 0 \<or> kp_Tier p > 3 then Some (PgError ''23514'')
     else if \<not> user_exists s (kp_ReviewedBy p) then Some (PgError ''23503'')
     else None)"

text \<open>\<^verbatim>\<open>UPDATE kyc_profiles SET ... WHERE ... RETURNING\<close>.\<close>
definition profile_update :: "(KYCProfile \<Rightarrow> bool) \<Rightarrow> (KYCProfile \<Rightarrow> KYCProfile) \<Rightarrow> db \<Rightarrow> go_error + KYCProfile list \<times> db" where
  "profile_update w f s = (let rows = map f (filter w (db_kyc s)) in
     case find (\<lambda>r. profile_checks s r \<noteq> None) rows of
       Some r \<Rightarrow> Inl (the (profile_checks s r))
     | None \<Rightarrow> Inr (rows, s\<lparr>db_kyc := update_where w f (db_kyc s)\<rparr>))"

text \<open>\<^verbatim>\<open>UPDATE users SET kyc_tier = $2 WHERE id = $1\<close>: the number of rows.\<close>
definition set_user_tier :: "int \<Rightarrow> KYCTier \<Rightarrow> db \<Rightarrow> go_error + nat \<times> db" where
  "set_user_tier i tier s =
    (if \<not> in_int32 tier then Inl (PgError ''22003'')
     else case db_users s i of
       None \<Rightarrow> Inr (0, s)
     | Some u \<Rightarrow>
         if tier < 0 \<or> tier > 3 then Inl (PgError ''23514'')
         else Inr (1, s\<lparr>db_users := (db_users s)(i \<mapsto> u\<lparr>u_KYCTier := tier\<rparr>)\<rparr>))"

definition event_insert :: "KYCEvent \<Rightarrow> db \<Rightarrow> go_error + unit \<times> db" where
  "event_insert e s = (if \<not> user_exists s (ke_ActorID e) then Inl (PgError ''23503'')
     else Inr ((), s\<lparr>db_kyc_events := db_kyc_events s @ [e]\<rparr>))"

definition kyc_event :: "int \<Rightarrow> KYCEventType \<Rightarrow> int option \<Rightarrow> KYCStatus option \<Rightarrow> KYCStatus option \<Rightarrow> string \<Rightarrow> KYCEvent" where
  "kyc_event profileID t actor old new reason =
     \<lparr>ke_ProfileID = profileID, ke_EventType = t, ke_ActorID = actor, ke_OldStatus = old, ke_NewStatus = new, ke_Reason = reason\<rparr>"

section \<open>Repository\<close>

definition blank_profile :: "int \<Rightarrow> KYCProfile" where
  "blank_profile userID = \<lparr>kp_ID = 0, kp_UserID = userID, kp_Status = KYCStatusUnverified, kp_Tier = KYCTierUnverified, kp_FullName = [],
     kp_DateOfBirth = None, kp_Nationality = [], kp_DocumentType = None, kp_DocumentNumber = [], kp_AddressLine = [], kp_City = [],
     kp_Country = [], kp_PostalCode = [], kp_ReviewedAt = None, kp_ReviewedBy = None, kp_RejectionReason = [], kp_RiskScore = 0,
     kp_SubmissionIP = None, kp_SubmittedAt = None, kp_PEPFlag = False, kp_SanctionsFlag = False, kp_BalanceFrozen = False,
     kp_FrozenAmountCents = 0, kp_FrozenReason = [], kp_NextReviewAt = None\<rparr>"

definition profile_insert :: "KYCProfile \<Rightarrow> db \<Rightarrow> go_error + KYCProfile option \<times> db" where
  "profile_insert p s = (let p' = p\<lparr>kp_ID := db_seq s\<rparr> in
     if \<not> user_exists s (Some (kp_UserID p)) then Inl (PgError ''23503'')
     else Inr (Some p', s\<lparr>db_seq := db_seq s + 1, db_kyc := db_kyc s @ [p']\<rparr>))"

text \<open>
  \<^verbatim>\<open>INSERT ... ON CONFLICT (user_id) DO UPDATE SET ... RETURNING id\<close>: a resubmission keeps the level, the review, the
  flags, the freeze and the first address the profile was submitted from.
\<close>
definition profile_upsert :: "KYCProfile \<Rightarrow> db \<Rightarrow> go_error + int \<times> db" where
  "profile_upsert p s =
     (let ip = (if kp_SubmissionIP p = Some [] then None else kp_SubmissionIP p);
          own = (\<lambda>r. kp_UserID r = kp_UserID p);
          f = (\<lambda>r. r\<lparr>kp_Status := kp_Status p, kp_FullName := kp_FullName p, kp_DateOfBirth := kp_DateOfBirth p, kp_Nationality := kp_Nationality p,
            kp_DocumentType := kp_DocumentType p, kp_DocumentNumber := kp_DocumentNumber p, kp_AddressLine := kp_AddressLine p, kp_City := kp_City p,
            kp_Country := kp_Country p, kp_PostalCode := kp_PostalCode p,
            kp_SubmissionIP := (case kp_SubmissionIP r of None \<Rightarrow> ip | Some old \<Rightarrow> Some old), kp_SubmittedAt := kp_SubmittedAt p\<rparr>);
          p' = f ((blank_profile (kp_UserID p))\<lparr>kp_ID := db_seq s, kp_Tier := kp_Tier p\<rparr>)
      in case profile_checks s p' of
           Some e \<Rightarrow> Inl e
         | None \<Rightarrow> (case find own (db_kyc s) of
             Some old \<Rightarrow> Inr (kp_ID old, s\<lparr>db_kyc := update_where own f (db_kyc s)\<rparr>)
           | None \<Rightarrow>
               if \<not> user_exists s (Some (kp_UserID p)) then Inl (PgError ''23503'')
               else Inr (kp_ID p', s\<lparr>db_seq := db_seq s + 1, db_kyc := db_kyc s @ [p']\<rparr>)))"

definition ProfileUpsert :: "KYCProfile \<Rightarrow> int dbprog" where
  "ProfileUpsert p = tx_stmt Raw (profile_upsert p)"

definition GetProfileByUserID :: "int \<Rightarrow> KYCProfile option dbprog" where
  "GetProfileByUserID userID = tx_query (\<lambda>s. find (\<lambda>p. kp_UserID p = userID) (db_kyc s))"

definition GetProfileByID :: "int \<Rightarrow> KYCProfile option dbprog" where
  "GetProfileByID i = tx_query (\<lambda>s. find (\<lambda>p. kp_ID p = i) (db_kyc s))"

definition reviewerPtr :: "int \<Rightarrow> int option" where
  "reviewerPtr adminID = (if adminID = 0 then None else Some adminID)"

definition UpdateStatus :: "int \<Rightarrow> KYCStatus \<Rightarrow> int \<Rightarrow> string \<Rightarrow> unit dbprog" where
  "UpdateStatus profileID newStatus reviewedBy rejectionReason =
     tx_bind (tx_exec (\<lambda>s. profile_update (\<lambda>p. kp_ID p = profileID)
       (\<lambda>p. p\<lparr>kp_Status := newStatus, kp_ReviewedAt := Some (db_now s), kp_ReviewedBy := reviewerPtr reviewedBy, kp_RejectionReason := rejectionReason\<rparr>) s))
     (affected (NotFound errKYCProfileNotFound))"

record KYCStatusEvent =
  se_OldStatus :: KYCStatus
  se_NewStatus :: KYCStatus
  se_EventType :: KYCEventType
  se_Reason :: string
  se_DowngradeTier :: "KYCTier option"

definition updateKYCProfileStatusTx :: "int \<Rightarrow> int \<Rightarrow> KYCStatusEvent \<Rightarrow> int dbprog" where
  "updateKYCProfileStatusTx profileID adminID ev =
     tx_bind (tx_exec (\<lambda>s. profile_update (\<lambda>p. kp_ID p = profileID)
       (\<lambda>p. p\<lparr>kp_Status := se_NewStatus ev, kp_ReviewedAt := Some (db_now s), kp_ReviewedBy := reviewerPtr adminID,
          kp_RejectionReason := (if se_NewStatus ev = KYCStatusRejected then se_Reason ev else [])\<rparr>) s)) (\<lambda>rows.
     tx_bind (row_or (NotFound errKYCProfileNotFound) rows) (\<lambda>p. tx_ret (kp_UserID p)))"

definition downgradeKYCTierTx :: "int \<Rightarrow> int \<Rightarrow> KYCTier \<Rightarrow> unit dbprog" where
  "downgradeKYCTierTx profileID userID tier =
     tx_bind (tx_exec (profile_update (\<lambda>p. kp_ID p = profileID) (\<lambda>p. p\<lparr>kp_Tier := tier\<rparr>))) (\<lambda>_.
     tx_void (tx_exec (set_user_tier userID tier)))"

definition insertKYCEventTx :: "int \<Rightarrow> int \<Rightarrow> KYCStatusEvent \<Rightarrow> unit dbprog" where
  "insertKYCEventTx profileID adminID ev = tx_exec (event_insert (kyc_event profileID (se_EventType ev) (reviewerPtr adminID)
     (Some (se_OldStatus ev)) (Some (se_NewStatus ev)) (se_Reason ev)))"

definition UpdateStatusWithEvent :: "int \<Rightarrow> int \<Rightarrow> KYCStatusEvent \<Rightarrow> unit dbprog" where
  "UpdateStatusWithEvent profileID adminID ev = withTx (
     tx_bind (updateKYCProfileStatusTx profileID adminID ev) (\<lambda>userID.
     tx_bind (case se_DowngradeTier ev of None \<Rightarrow> tx_ret () | Some tier \<Rightarrow> downgradeKYCTierTx profileID userID tier) (\<lambda>_.
     insertKYCEventTx profileID adminID ev)))"

definition UpdateTier :: "int \<Rightarrow> KYCTier \<Rightarrow> time option \<Rightarrow> unit dbprog" where
  "UpdateTier userID tier nextReviewAt = withTx (
     tx_bind (tx_exec (profile_update (\<lambda>p. kp_UserID p = userID)
       (\<lambda>p. p\<lparr>kp_Tier := tier, kp_NextReviewAt := (case nextReviewAt of None \<Rightarrow> kp_NextReviewAt p | Some t \<Rightarrow> Some t)\<rparr>))) (\<lambda>rows.
     tx_bind (affected (NotFound errKYCProfileNotFound) rows) (\<lambda>_.
     tx_void (tx_exec (set_user_tier userID tier)))))"

definition SetFrozen :: "int \<Rightarrow> bool \<Rightarrow> int \<Rightarrow> string \<Rightarrow> unit dbprog" where
  "SetFrozen userID frozen amountCents reason =
     tx_bind (tx_exec (profile_update (\<lambda>p. kp_UserID p = userID)
       (\<lambda>p. p\<lparr>kp_BalanceFrozen := frozen, kp_FrozenAmountCents := (if frozen then amountCents else 0), kp_FrozenReason := (if frozen then reason else [])\<rparr>)))
     (affected (NotFound errKYCProfileNotFound))"

definition clear_freeze :: "int \<Rightarrow> db \<Rightarrow> go_error + KYCProfile list \<times> db" where
  "clear_freeze userID = profile_update (\<lambda>p. kp_UserID p = userID) (\<lambda>p. p\<lparr>kp_BalanceFrozen := False, kp_FrozenAmountCents := 0, kp_FrozenReason := []\<rparr>)"

definition ReleaseAndCreditFrozen :: "int \<Rightarrow> int \<Rightarrow> string \<Rightarrow> int dbprog" where
  "ReleaseAndCreditFrozen userID refID refType = withTx (
     tx_bind (tx_query (\<lambda>s. find (\<lambda>p. kp_UserID p = userID \<and> kp_BalanceFrozen p) (db_kyc s))) (\<lambda>r. case r of
       None \<Rightarrow> tx_ret 0
     | Some p \<Rightarrow>
         let frozenCents = kp_FrozenAmountCents p in
         if frozenCents = 0 then tx_bind (tx_stmt Raw (clear_freeze userID)) (\<lambda>_. tx_ret 0)
         else
           tx_bind (tx_exec (user_update userID (\<lambda>_. True) (add_balance frozenCents))) (\<lambda>r.
           tx_bind (user_found r) (\<lambda>u.
           tx_bind (insertLedgerTx \<lparr>lrow_UserID = userID, lrow_DeltaCents = frozenCents, lrow_Kind = LedgerKindPrize, lrow_BalanceAfter = u_BalanceCents u,
             lrow_RefID = refID, lrow_RefType = refType, lrow_Reference = [], lrow_CreatorID = 0, lrow_SourceCurrency = [], lrow_SourceAmountCents = 0\<rparr>) (\<lambda>_.
           tx_bind (tx_exec (clear_freeze userID)) (\<lambda>_. tx_ret frozenCents))))))"

definition CountRecentSubmissionsByIP :: "string \<Rightarrow> time \<Rightarrow> int dbprog" where
  "CountRecentSubmissionsByIP ip since = (if ip = [] then tx_ret 0 else tx_query (\<lambda>s.
     count_where (\<lambda>p. kp_SubmissionIP p = Some ip \<and> (case kp_SubmittedAt p of None \<Rightarrow> False | Some t \<Rightarrow> t \<ge> since)) (db_kyc s)))"

definition UpdateRiskScore :: "int \<Rightarrow> int \<Rightarrow> unit dbprog" where
  "UpdateRiskScore profileID score = tx_void (tx_exec (profile_update (\<lambda>p. kp_ID p = profileID) (\<lambda>p. p\<lparr>kp_RiskScore := score\<rparr>)))"

definition ExistsByDocumentIdentity :: "KYCDocumentType \<Rightarrow> string \<Rightarrow> time option \<Rightarrow> int \<Rightarrow> bool dbprog" where
  "ExistsByDocumentIdentity documentType documentNumber dateOfBirth excludeUserID = tx_query (\<lambda>s. list_ex (\<lambda>p.
     kp_DocumentType p = Some documentType \<and> kp_DocumentNumber p = documentNumber \<and> kp_DateOfBirth p = dateOfBirth \<and>
     kp_UserID p \<noteq> excludeUserID \<and> kp_Status p \<notin> {KYCStatusRejected, KYCStatusUnverified}) (db_kyc s))"

definition ListDueForReview :: "time \<Rightarrow> KYCProfile list dbprog" where
  "ListDueForReview threshold = tx_query (\<lambda>s. sort_key (\<lambda>p. case kp_NextReviewAt p of None \<Rightarrow> 0 | Some t \<Rightarrow> t)
     (filter (\<lambda>p. kp_Status p = KYCStatusApproved \<and> (case kp_NextReviewAt p of None \<Rightarrow> False | Some t \<Rightarrow> t \<le> threshold)) (db_kyc s)))"

definition CountReviewQueue :: "int dbprog" where
  "CountReviewQueue = tx_query (\<lambda>s. count_where (\<lambda>p. kp_Status p = KYCStatusUnderReview) (db_kyc s))"

definition SumFrozenAmountCents :: "int dbprog" where
  "SumFrozenAmountCents = tx_query (\<lambda>s. \<Sum>p\<leftarrow>filter kp_BalanceFrozen (db_kyc s). kp_FrozenAmountCents p)"

record KYCApprovalParams =
  ap_Tier :: KYCTier
  ap_NextReview :: time
  ap_Reason :: string
  ap_OldStatus :: KYCStatus

definition ApproveAndSetTier :: "int \<Rightarrow> int \<Rightarrow> KYCApprovalParams \<Rightarrow> unit dbprog" where
  "ApproveAndSetTier profileID adminID ap = withTx (
     tx_bind (tx_exec (\<lambda>s. profile_update (\<lambda>p. kp_ID p = profileID)
       (\<lambda>p. p\<lparr>kp_Status := KYCStatusApproved, kp_Tier := ap_Tier ap, kp_NextReviewAt := Some (ap_NextReview ap), kp_ReviewedBy := Some adminID,
          kp_ReviewedAt := Some (db_now s), kp_RejectionReason := []\<rparr>) s)) (\<lambda>rows.
     tx_bind (row_or (NotFound errKYCProfileNotFound) rows) (\<lambda>p.
     tx_bind (tx_exec (set_user_tier (kp_UserID p) (ap_Tier ap))) (\<lambda>n.
     tx_bind (tx_guard (n \<noteq> 0) (NotFound ''user not found for KYC tier update'')) (\<lambda>_.
     tx_exec (event_insert (kyc_event profileID KYCEventApproved (Some adminID) (Some (ap_OldStatus ap)) (Some KYCStatusApproved) (ap_Reason ap))))))))"

definition FreezeAtomicWithTxHook :: "int \<Rightarrow> int \<Rightarrow> string \<Rightarrow> unit dbprog \<Rightarrow> unit dbprog" where
  "FreezeAtomicWithTxHook userID amountCents reason hook = withTx (
     tx_bind (tx_exec (profile_update (\<lambda>p. kp_UserID p = userID)
       (\<lambda>p. p\<lparr>kp_BalanceFrozen := True, kp_FrozenAmountCents := amountCents, kp_FrozenReason := reason\<rparr>))) (\<lambda>rows.
     tx_bind (row_or (NotFound errKYCProfileNotFound) rows) (\<lambda>p.
     tx_bind (tx_exec (event_insert (kyc_event (kp_ID p) KYCEventFrozen None (Some (kp_Status p)) (Some (kp_Status p)) reason))) (\<lambda>_.
     hook))))"

definition FreezeAtomic :: "int \<Rightarrow> int \<Rightarrow> string \<Rightarrow> unit dbprog" where
  "FreezeAtomic userID amountCents reason = FreezeAtomicWithTxHook userID amountCents reason (tx_ret ())"

definition EnsureStub :: "int \<Rightarrow> unit dbprog" where
  "EnsureStub userID = tx_void (tx_exec (\<lambda>s.
     if list_ex (\<lambda>p. kp_UserID p = userID) (db_kyc s) then Inr (None, s) else profile_insert (blank_profile userID) s))"

text \<open>Documents; \<open>uploaded_at\<close> follows the order of insertion.\<close>
definition DocumentCreate :: "KYCDocument \<Rightarrow> KYCDocument dbprog" where
  "DocumentCreate d = tx_stmt (unique_conflict ''a document with identical content has already been submitted for this profile'') (\<lambda>s.
     let d' = d\<lparr>kd_ID := db_seq s, kd_Verified := False, kd_VerifiedBy := None\<rparr> in
     if \<not> in_int32 (kd_FileSize d) then Inl (PgError ''22003'')
     else if \<not> known_doc_type (kd_DocumentType d) \<or> \<not> kd_FileSize d > 0 then Inl (PgError ''23514'')
     else if kd_FileHash d \<noteq> [] \<and> list_ex (\<lambda>x. kd_ProfileID x = kd_ProfileID d \<and> kd_FileHash x = kd_FileHash d) (db_kyc_docs s) then Inl (PgError ''23505'')
     else Inr (d', s\<lparr>db_seq := db_seq s + 1, db_kyc_docs := db_kyc_docs s @ [d']\<rparr>))"

definition GetDocumentByID :: "int \<Rightarrow> KYCDocument option dbprog" where
  "GetDocumentByID i = tx_query (\<lambda>s. find (\<lambda>d. kd_ID d = i) (db_kyc_docs s))"

definition ListDocumentsByProfile :: "int \<Rightarrow> KYCDocument list dbprog" where
  "ListDocumentsByProfile profileID = tx_query (\<lambda>s. rev (filter (\<lambda>d. kd_ProfileID d = profileID) (db_kyc_docs s)))"

definition MarkVerified :: "int \<Rightarrow> int \<Rightarrow> unit dbprog" where
  "MarkVerified docID adminID = tx_bind (tx_exec (\<lambda>s.
     let w = (\<lambda>d. kd_ID d = docID) in
     if list_ex w (db_kyc_docs s) \<and> \<not> user_exists s (Some adminID) then Inl (PgError ''23503'')
     else Inr (filter w (db_kyc_docs s), s\<lparr>db_kyc_docs := update_where w (\<lambda>d. d\<lparr>kd_Verified := True, kd_VerifiedBy := Some adminID\<rparr>) (db_kyc_docs s)\<rparr>)))
     (affected (NotFound ''kyc document not found''))"

definition DeleteByID :: "int \<Rightarrow> unit dbprog" where
  "DeleteByID i = tx_bind (tx_exec (\<lambda>s. Inr (filter (\<lambda>d. kd_ID d = i) (db_kyc_docs s), s\<lparr>db_kyc_docs := filter (\<lambda>d. kd_ID d \<noteq> i) (db_kyc_docs s)\<rparr>)))
     (affected (NotFound ''kyc document not found''))"

section \<open>Service\<close>

definition DefaultKYCMaxDocUploadBytes :: int where [domain_consts]: "DefaultKYCMaxDocUploadBytes = 10 * 1024 * 1024"
definition DefaultKYCReviewIntervalDays :: int where [domain_consts]: "DefaultKYCReviewIntervalDays = 365"

record SubmitKYCRequest =
  sr_FullName :: string
  sr_DateOfBirth :: "time option"
  sr_Nationality :: string
  sr_DocumentType :: KYCDocumentType
  sr_DocumentNumber :: string
  sr_AddressLine :: string
  sr_City :: string
  sr_Country :: string
  sr_PostalCode :: string
  sr_SubmissionIP :: string

definition validateSubmitRequest :: "SubmitKYCRequest \<Rightarrow> unit result" where
  "validateSubmitRequest req =
    (if sr_FullName req = [] then Inl (Validation ''full_name is required'')
     else if sr_DocumentType req = [] then Inl (Validation ''document_type is required'')
     else if sr_DocumentNumber req = [] then Inl (Validation ''document_number is required'')
     else ok)"

definition checkSubmitConflicts :: "KYCProfile option \<Rightarrow> unit result" where
  "checkSubmitConflicts existing = (case existing of
     None \<Rightarrow> ok
   | Some p \<Rightarrow>
       if kp_Status p = KYCStatusPending then Inl (Conflict ''a KYC submission is already pending review'')
       else if kp_Status p = KYCStatusUnderReview then Inl (Conflict ''your KYC profile is currently under review'')
       else ok)"

text \<open>Best effort: a failed insert is logged.\<close>
definition appendEvent :: "KYCEvent \<Rightarrow> unit dbprog" where
  "appendEvent e = tx_ignore (tx_stmt Raw (event_insert e))"

definition CheckIPSubmissionVelocity :: "string \<Rightarrow> unit dbprog" where
  "CheckIPSubmissionVelocity ip = (if ip = [] then tx_ret () else
     tx_bind (intParam ''kyc.ip_velocity_max_submissions'' DefaultKYCIPVelocityMaxSubmissions) (\<lambda>maxSub.
     if maxSub \<le> 0 then tx_ret ()
     else
       tx_bind (intParam ''kyc.ip_velocity_window_minutes'' DefaultKYCIPVelocityWindowMinutes) (\<lambda>windowMins.
       tx_bind (tx_read db_now) (\<lambda>now.
       tx_bind (CountRecentSubmissionsByIP ip (now + go64 (- windowMins * (60 * 10 ^ 9)))) (\<lambda>count.
       tx_guard (\<not> count \<ge> maxSub) (RateLimited ''too many verification attempts from this network''))))))"

definition checkIPVelocity :: "int \<Rightarrow> string \<Rightarrow> KYCProfile option \<Rightarrow> unit dbprog" where
  "checkIPVelocity userID ip existing = tx_try (CheckIPSubmissionVelocity ip) (\<lambda>err.
     let profileID = (case existing of None \<Rightarrow> 0 | Some p \<Rightarrow> kp_ID p) in
     tx_bind (appendEvent (kyc_event profileID KYCEventIPVelocityFlag (Some userID) None None [])) (\<lambda>_. tx_err err)) tx_ret"

definition submitted_profile :: "int \<Rightarrow> SubmitKYCRequest \<Rightarrow> time \<Rightarrow> KYCProfile option \<Rightarrow> KYCProfile" where
  "submitted_profile userID req now existing = (blank_profile userID)
     \<lparr>kp_Status := KYCStatusPending, kp_Tier := (case existing of None \<Rightarrow> KYCTierUnverified | Some p \<Rightarrow> kp_Tier p), kp_FullName := sr_FullName req,
      kp_DateOfBirth := sr_DateOfBirth req, kp_Nationality := sr_Nationality req, kp_DocumentType := Some (sr_DocumentType req),
      kp_DocumentNumber := sr_DocumentNumber req, kp_AddressLine := sr_AddressLine req, kp_City := sr_City req, kp_Country := sr_Country req,
      kp_PostalCode := sr_PostalCode req, kp_SubmissionIP := null_string (sr_SubmissionIP req), kp_SubmittedAt := Some now\<rparr>"

definition SubmitKYC :: "int \<Rightarrow> SubmitKYCRequest \<Rightarrow> KYCProfile dbprog" where
  "SubmitKYC userID req =
     tx_bind (tx_lift (validateSubmitRequest req)) (\<lambda>_.
     tx_bind (GetProfileByUserID userID) (\<lambda>existing.
     tx_bind (tx_lift (checkSubmitConflicts existing)) (\<lambda>_.
     tx_bind (ExistsByDocumentIdentity (sr_DocumentType req) (sr_DocumentNumber req) (sr_DateOfBirth req) userID) (\<lambda>dupExists.
     if dupExists then tx_err (Conflict ''this identity document is already associated with another account'')
     else
       tx_bind (checkIPVelocity userID (sr_SubmissionIP req) existing) (\<lambda>_.
       tx_bind (tx_read db_now) (\<lambda>now.
       let profile = submitted_profile userID req now existing in
       tx_bind (ProfileUpsert profile) (\<lambda>i.
       tx_bind (appendEvent (kyc_event i KYCEventSubmitted (Some userID) (map_option kp_Status existing) (Some KYCStatusPending) [])) (\<lambda>_.
       tx_ret (profile\<lparr>kp_ID := i\<rparr>)))))))))"

definition UploadDocument :: "KYCDocument \<Rightarrow> KYCDocument dbprog" where
  "UploadDocument d =
    (if kd_StorageKey d = [] then tx_err (Validation ''storage_key is required'')
     else if kd_FileSize d \<le> 0 then tx_err (Validation ''file_size must be positive'')
     else tx_bind (param_int ''kyc.max_doc_upload_bytes'' DefaultKYCMaxDocUploadBytes) (\<lambda>maxBytes.
       if kd_FileSize d > maxBytes then tx_err (Validation (''document size ('' @ Itoa (kd_FileSize d) @ '' bytes) exceeds the maximum allowed ('' @
         Itoa maxBytes @ '' bytes)''))
       else DocumentCreate d))"

definition ListDocuments :: "int \<Rightarrow> KYCDocument list dbprog" where
  "ListDocuments userID = tx_bind (GetProfileByUserID userID) (\<lambda>profile. case profile of
     None \<Rightarrow> tx_ret [] | Some p \<Rightarrow> ListDocumentsByProfile (kp_ID p))"

definition DeleteDocument :: "int \<Rightarrow> int \<Rightarrow> string dbprog" where
  "DeleteDocument userID docID = tx_bind (GetProfileByUserID userID) (\<lambda>profile. case profile of
     None \<Rightarrow> tx_err (Forbidden ''no KYC profile found for this user'')
   | Some p \<Rightarrow> tx_bind (GetDocumentByID docID) (\<lambda>doc. case doc of
       None \<Rightarrow> tx_err (NotFound ''kyc document not found'')
     | Some d \<Rightarrow>
         if kd_ProfileID d \<noteq> kp_ID p then tx_err (Forbidden ''document does not belong to this user'')
         else tx_bind (DeleteByID docID) (\<lambda>_. tx_ret (kd_StorageKey d))))"

definition tier2RequiredDocs :: "KYCDocumentType list" where
  "tier2RequiredDocs = [KYCDocGovID, KYCDocSelfie]"

record KYCRequirements =
  kr_CurrentTier :: KYCTier
  kr_CurrentStatus :: KYCStatus
  kr_RequiredDocs :: "KYCDocumentType list"
  kr_SubmittedDocs :: "KYCDocumentType list"
  kr_MissingDocs :: "KYCDocumentType list"

definition GetRequirements :: "int \<Rightarrow> KYCRequirements dbprog" where
  "GetRequirements userID = tx_bind (GetProfileByUserID userID) (\<lambda>profile. case profile of
     None \<Rightarrow> tx_ret \<lparr>kr_CurrentTier = KYCTierUnverified, kr_CurrentStatus = KYCStatusUnverified, kr_RequiredDocs = tier2RequiredDocs,
       kr_SubmittedDocs = [], kr_MissingDocs = tier2RequiredDocs\<rparr>
   | Some p \<Rightarrow> tx_bind (ListDocumentsByProfile (kp_ID p)) (\<lambda>docs.
       let submitted = map kd_DocumentType docs in
       tx_ret \<lparr>kr_CurrentTier = kp_Tier p, kr_CurrentStatus = kp_Status p, kr_RequiredDocs = tier2RequiredDocs,
         kr_SubmittedDocs = submitted, kr_MissingDocs = filter (\<lambda>t. t \<notin> set submitted) tier2RequiredDocs\<rparr>))"

text \<open>The profile an administrator acts on.\<close>
definition profile_or_404 :: "KYCProfile option \<Rightarrow> KYCProfile dbprog" where
  "profile_or_404 r = (case r of None \<Rightarrow> tx_err (NotFound errKYCProfileNotFound) | Some p \<Rightarrow> tx_ret p)"

definition Approve :: "int \<Rightarrow> int \<Rightarrow> KYCTier \<Rightarrow> unit dbprog" where
  "Approve profileID adminID tier =
     tx_bind (GetProfileByID profileID) (\<lambda>r.
     tx_bind (profile_or_404 r) (\<lambda>profile.
     tx_bind (param_int ''kyc.review_interval_days'' DefaultKYCReviewIntervalDays) (\<lambda>intervalDays.
     tx_bind (tx_read db_now) (\<lambda>now.
     ApproveAndSetTier profileID adminID \<lparr>ap_Tier = tier, ap_NextReview = now + intervalDays * one_day, ap_Reason = [], ap_OldStatus = kp_Status profile\<rparr>))))"

definition Reject :: "int \<Rightarrow> int \<Rightarrow> string \<Rightarrow> unit dbprog" where
  "Reject profileID adminID reason =
    (if reason = [] then tx_err (Validation ''rejection reason is required'')
     else tx_bind (GetProfileByID profileID) (\<lambda>r.
       tx_bind (profile_or_404 r) (\<lambda>profile.
       UpdateStatusWithEvent profileID adminID \<lparr>se_OldStatus = kp_Status profile, se_NewStatus = KYCStatusRejected, se_EventType = KYCEventRejected,
         se_Reason = reason, se_DowngradeTier = Some KYCTierUnverified\<rparr>)))"

definition Escalate :: "int \<Rightarrow> int \<Rightarrow> string \<Rightarrow> unit dbprog" where
  "Escalate profileID adminID reason =
     tx_bind (GetProfileByID profileID) (\<lambda>r.
     tx_bind (profile_or_404 r) (\<lambda>profile.
     UpdateStatusWithEvent profileID adminID \<lparr>se_OldStatus = kp_Status profile, se_NewStatus = KYCStatusEscalated, se_EventType = KYCEventEscalated,
       se_Reason = reason, se_DowngradeTier = Some KYCTierUnverified\<rparr>))"

definition RequestDocument :: "int \<Rightarrow> int \<Rightarrow> string \<Rightarrow> unit dbprog" where
  "RequestDocument profileID adminID reason =
     tx_bind (GetProfileByID profileID) (\<lambda>r.
     tx_bind (profile_or_404 r) (\<lambda>profile.
     appendEvent (kyc_event profileID KYCEventDocRequested (Some adminID) (Some (kp_Status profile)) (Some (kp_Status profile)) reason)))"

definition VerifyDocument :: "int \<Rightarrow> int \<Rightarrow> unit dbprog" where
  "VerifyDocument docID adminID = MarkVerified docID adminID"

definition ReleaseFrozenBalance :: "int \<Rightarrow> int \<Rightarrow> unit dbprog" where
  "ReleaseFrozenBalance userID adminID =
     tx_bind (GetProfileByUserID userID) (\<lambda>r.
     tx_bind (profile_or_404 r) (\<lambda>profile.
     tx_bind (ReleaseAndCreditFrozen userID (kp_ID profile) ''kyc_unfreeze'') (\<lambda>_.
     appendEvent (kyc_event (kp_ID profile) KYCEventUnfrozen (Some adminID) (Some (kp_Status profile)) (Some (kp_Status profile)) []))))"

definition FreezeBalance :: "int \<Rightarrow> int \<Rightarrow> string \<Rightarrow> unit dbprog" where
  "FreezeBalance userID prizeCents reason = FreezeAtomic userID prizeCents reason"

text \<open>The additive weights of the risk score.\<close>
definition tier_weight :: "KYCTier \<Rightarrow> int" where
  "tier_weight tier = (if tier = KYCTierUnverified then 30 else if tier = KYCTierOne then 20 else if tier = KYCTierTwo then 10 else 0)"

definition RecalculateRiskScore :: "int \<Rightarrow> int dbprog" where
  "RecalculateRiskScore userID =
     tx_bind (GetProfileByUserID userID) (\<lambda>r.
     tx_bind (profile_or_404 r) (\<lambda>profile.
     let score = tier_weight (kp_Tier profile) + (if kp_PEPFlag profile then 25 else 0) + (if kp_SanctionsFlag profile then 35 else 0) +
       (if kp_BalanceFrozen profile then 15 else 0) in
     tx_bind (param_int ''kyc.aml_threshold_cents'' DefaultKYCAMLThresholdCents) (\<lambda>threshold.
     tx_bind (tx_try (day_sum userID [LedgerKindBankTransfer, LedgerKindWebhookRecurrente, LedgerKindWebhookPayPal, LedgerKindPrize])
       (\<lambda>_. tx_ret score) (\<lambda>sum. tx_ret (if sum \<ge> threshold then score + 20 else score))) (\<lambda>score.
     let score = (if score > 100 then 100 else score) in
     tx_bind (UpdateRiskScore (kp_ID profile) score) (\<lambda>_. tx_ret score)))))"

section \<open>The verification level\<close>

text \<open>
  A rejected or escalated identity has no level, both copies of the level agree, and a user without a profile
  has none.
\<close>
definition profile_ok :: "db \<Rightarrow> KYCProfile \<Rightarrow> bool" where
  "profile_ok s p \<longleftrightarrow> kp_ID p < db_seq s \<and> (\<exists>u. db_users s (kp_UserID p) = Some u \<and> u_KYCTier u = kp_Tier p) \<and>
     (kp_Status p \<in> {KYCStatusRejected, KYCStatusEscalated} \<longrightarrow> kp_Tier p = KYCTierUnverified) \<and>
     0 \<le> kp_Tier p \<and> kp_Tier p \<le> 3 \<and> 0 \<le> kp_RiskScore p \<and> kp_RiskScore p \<le> 100 \<and> 0 \<le> kp_FrozenAmountCents p"

definition kyc_ok :: "db \<Rightarrow> bool" where
  "kyc_ok s \<longleftrightarrow> distinct (map kp_ID (db_kyc s)) \<and> distinct (map kp_UserID (db_kyc s)) \<and> (\<forall>p\<in>set (db_kyc s). profile_ok s p) \<and>
     (\<forall>i. i \<notin> kp_UserID ` set (db_kyc s) \<longrightarrow> map_option u_KYCTier (db_users s i) \<in> {None, Some KYCTierUnverified})"

lemma kyc_okD: "kyc_ok s \<Longrightarrow> p \<in> set (db_kyc s) \<Longrightarrow> profile_ok s p"
  unfolding kyc_ok_def by blast

lemma kyc_ok_same: "kyc_ok s \<Longrightarrow> p \<in> set (db_kyc s) \<Longrightarrow> q \<in> set (db_kyc s) \<Longrightarrow> kp_ID p = kp_ID q \<or> kp_UserID p = kp_UserID q \<Longrightarrow> p = q"
  unfolding kyc_ok_def distinct_map by (blast dest: inj_onD)

lemma kyc_ok_frame:
  assumes "kyc_ok s" "db_kyc s' = db_kyc s" "db_seq s \<le> db_seq s'" "\<And>i. map_option u_KYCTier (db_users s' i) = map_option u_KYCTier (db_users s i)"
  shows "kyc_ok s'"
proof -
  have "\<exists>u. db_users s' i = Some u \<and> u_KYCTier u = t" if "\<exists>u. db_users s i = Some u \<and> u_KYCTier u = t" for i t
    using that assms(4) [of i] by (cases "db_users s' i") auto
  then have "profile_ok s p \<Longrightarrow> profile_ok s' p" for p using assms(3) unfolding profile_ok_def by fastforce
  then show ?thesis using assms(1) unfolding kyc_ok_def assms(2,4) by blast
qed

definition keeps_identity :: "(KYCProfile \<Rightarrow> KYCProfile) \<Rightarrow> bool" where
  "keeps_identity f \<longleftrightarrow> (\<forall>p. kp_ID (f p) = kp_ID p \<and> kp_UserID (f p) = kp_UserID p)"

lemma profile_update_rows:
  assumes "profile_update w f s = Inr (rows, s')"
  shows "s' = s\<lparr>db_kyc := update_where w f (db_kyc s)\<rparr>" "rows = map f (filter w (db_kyc s))"
    "p \<in> set (db_kyc s) \<Longrightarrow> w p \<Longrightarrow> profile_checks s (f p) = None"
  using assms by (auto simp: profile_update_def Let_def find_None_iff split: option.splits)

text \<open>An update of one profile, with the level of its user, keeps the tables consistent.\<close>
lemma kyc_ok_step:
  assumes ok: "kyc_ok s" and id: "keeps_identity f" and kyc: "db_kyc s' = update_where w f (db_kyc s)" and seq: "db_seq s \<le> db_seq s'"
    and hit: "\<And>p. p \<in> set (db_kyc s) \<Longrightarrow> w p \<Longrightarrow> profile_ok s' (f p)"
    and miss: "\<And>i. i \<notin> kp_UserID ` {p \<in> set (db_kyc s). w p} \<Longrightarrow> map_option u_KYCTier (db_users s' i) = map_option u_KYCTier (db_users s i)"
  shows "kyc_ok s'"
proof -
  have same: "map kp_ID (db_kyc s') = map kp_ID (db_kyc s)" "map kp_UserID (db_kyc s') = map kp_UserID (db_kyc s)"
    using id unfolding kyc keeps_identity_def by (simp_all add: map_update_where)
  moreover have "profile_ok s' p" if "p \<in> set (db_kyc s)" "\<not> w p" for p
  proof -
    have "kp_UserID p \<notin> kp_UserID ` {p \<in> set (db_kyc s). w p}" using kyc_ok_same [OF ok that(1)] that(2) by auto
    from miss [OF this] have "\<exists>u. db_users s' (kp_UserID p) = Some u \<and> u_KYCTier u = kp_Tier p"
      using kyc_okD [OF ok that(1)] by (cases "db_users s' (kp_UserID p)") (auto simp: profile_ok_def)
    then show ?thesis using kyc_okD [OF ok that(1)] seq by (auto simp: profile_ok_def)
  qed
  moreover have "map_option u_KYCTier (db_users s' i) \<in> {None, Some KYCTierUnverified}" if "i \<notin> kp_UserID ` set (db_kyc s')" for i
  proof -
    have new: "i \<notin> kp_UserID ` set (db_kyc s)" using that same(2) by (metis list.set_map)
    have "map_option u_KYCTier (db_users s' i) = map_option u_KYCTier (db_users s i)" by (rule miss) (use new in auto)
    then show ?thesis using ok new unfolding kyc_ok_def by simp
  qed
  moreover have "profile_ok s' p" if "p \<in> set (db_kyc s')" for p using that hit calculation(3) unfolding kyc set_update_where by auto
  ultimately show ?thesis using ok unfolding kyc_ok_def by simp
qed

lemma profile_update_keeps:
  assumes "kyc_ok s" "profile_update w f s = Inr (rows, s')" "keeps_identity f"
    and "\<And>p. kp_Tier (f p) = kp_Tier p" "\<And>p. kp_Status (f p) \<in> {KYCStatusRejected, KYCStatusEscalated} \<Longrightarrow> kp_Status (f p) = kp_Status p"
  shows "kyc_ok s'"
proof (rule kyc_ok_step [OF assms(1,3)])
  note r = profile_update_rows [OF assms(2)]
  show "db_kyc s' = update_where w f (db_kyc s)" "db_seq s \<le> db_seq s'" by (simp_all add: r(1))
  show "map_option u_KYCTier (db_users s' i) = map_option u_KYCTier (db_users s i)" for i by (simp add: r(1))
  show "profile_ok s' (f p)" if "p \<in> set (db_kyc s)" "w p" for p
    using kyc_okD [OF assms(1) that(1)] r(3) [OF that] assms(3) assms(4,5) [of p]
    by (auto simp: profile_ok_def r(1) keeps_identity_def profile_checks_def split: if_splits)
qed

text \<open>Setting the level of a profile and of its user together.\<close>
lemma retier_keeps:
  assumes ok: "kyc_ok s" and upd: "profile_update (\<lambda>p. kp_ID p = i) f s = Inr (q # rest, s1)" and id: "keeps_identity f"
    and frozen: "\<And>p. kp_RiskScore (g (f p)) = kp_RiskScore p" "\<And>p. kp_FrozenAmountCents (g (f p)) = kp_FrozenAmountCents p"
    and g: "keeps_identity g" "db_kyc s2 = update_where (\<lambda>p. kp_ID p = i) g (db_kyc s1)" "\<And>p. kp_Tier (g (f p)) = t" "0 \<le> t" "t \<le> 3"
      "\<And>p. kp_Status (g (f p)) \<in> {KYCStatusRejected, KYCStatusEscalated} \<Longrightarrow> t = KYCTierUnverified"
    and usr: "db_users s2 = (case db_users s (kp_UserID q) of None \<Rightarrow> db_users s | Some u \<Rightarrow> (db_users s)(kp_UserID q \<mapsto> u\<lparr>u_KYCTier := t\<rparr>))"
      "db_seq s \<le> db_seq s2"
  shows "kyc_ok s2"
proof (rule kyc_ok_step [OF ok, of "\<lambda>p. g (f p)"])
  note r = profile_update_rows [OF upd]
  have "q \<in> set (map f (filter (\<lambda>p. kp_ID p = i) (db_kyc s)))" by (subst r(2) [symmetric]) simp
  then obtain p where p: "p \<in> set (db_kyc s)" "kp_ID p = i" "q = f p" by auto
  have uid: "kp_UserID q = kp_UserID p" using id p(3) by (simp add: keeps_identity_def)
  obtain u where u: "db_users s (kp_UserID p) = Some u" using kyc_okD [OF ok p(1)] by (auto simp: profile_ok_def)
  have users: "db_users s2 = (db_users s)(kp_UserID p \<mapsto> u\<lparr>u_KYCTier := t\<rparr>)" using usr(1) by (simp add: uid u)
  show "keeps_identity (\<lambda>p. g (f p))" using id g(1) by (simp add: keeps_identity_def)
  show "db_kyc s2 = update_where (\<lambda>p. kp_ID p = i) (\<lambda>p. g (f p)) (db_kyc s)"
    using id unfolding g(2) r(1) by (auto simp: update_where_def keeps_identity_def)
  show "db_seq s \<le> db_seq s2" by (rule usr(2))
  show "profile_ok s2 (g (f x))" if "x \<in> set (db_kyc s)" "kp_ID x = i" for x
  proof -
    have "x = p" using kyc_ok_same [OF ok that(1) p(1)] that(2) p(2) by simp
    then show ?thesis using kyc_okD [OF ok p(1)] id g(1,4,5) g(3,6) [of p] frozen [of p] usr(2)
      by (auto simp: profile_ok_def keeps_identity_def users)
  qed
  show "map_option u_KYCTier (db_users s2 k) = map_option u_KYCTier (db_users s k)" if "k \<notin> kp_UserID ` {x \<in> set (db_kyc s). kp_ID x = i}" for k
    using that p by (auto simp: users)
qed

lemma set_user_tier_run:
  assumes "set_user_tier i t s = Inr (n, s')"
  shows "db_users s' = (case db_users s i of None \<Rightarrow> db_users s | Some u \<Rightarrow> (db_users s)(i \<mapsto> u\<lparr>u_KYCTier := t\<rparr>))"
    "db_kyc s' = db_kyc s" "db_seq s' = db_seq s" "n \<noteq> 0 \<Longrightarrow> 0 \<le> t \<and> t \<le> 3"
  using assms by (auto simp: set_user_tier_def split: option.splits if_splits)

lemma event_insert_keeps: "kyc_ok s \<Longrightarrow> event_insert e s = Inr (x, s') \<Longrightarrow> kyc_ok s'"
  by (erule kyc_ok_frame) (auto simp: event_insert_def split: if_splits)

lemma appendEvent_keeps: "tx_keeps kyc_ok (appendEvent e)"
  unfolding appendEvent_def by (intro tx_keep) (rule event_insert_keeps)

lemma UpdateStatusWithEvent_keeps:
  assumes "se_DowngradeTier ev = Some KYCTierUnverified"
  shows "tx_keeps kyc_ok (UpdateStatusWithEvent i adminID ev)"
proof (rule tx_keepsI)
  fix fs s r fs' s' assume ok: "kyc_ok s" and run: "UpdateStatusWithEvent i adminID ev fs s = (r, fs', s')"
  show "kyc_ok s'"
  proof (cases r)
    case (Inl e)
    then show ?thesis using run ok unfolding UpdateStatusWithEvent_def by (auto dest: withTx_Inl)
  next
    case (Inr x)
    let ?f = "\<lambda>p. p\<lparr>kp_Status := se_NewStatus ev, kp_ReviewedAt := Some (db_now s), kp_ReviewedBy := reviewerPtr adminID,
          kp_RejectionReason := (if se_NewStatus ev = KYCStatusRejected then se_Reason ev else [])\<rparr>"
    let ?g = "\<lambda>p. p\<lparr>kp_Tier := KYCTierUnverified\<rparr>"
    obtain q rest s1 s2 rows s3 n y where st: "profile_update (\<lambda>p. kp_ID p = i) ?f s = Inr (q # rest, s1)"
      "profile_update (\<lambda>p. kp_ID p = i) ?g s1 = Inr (rows, s2)" "set_user_tier (kp_UserID q) KYCTierUnverified s2 = Inr (n, s3)"
      "event_insert y s3 = Inr (x, s')"
      using withTx_Inr [OF run [unfolded Inr UpdateStatusWithEvent_def]]
      unfolding updateKYCProfileStatusTx_def downgradeKYCTierTx_def insertKYCEventTx_def tx_void_def assms by (auto simp: tx_runs)
    note r1 = profile_update_rows [OF st(1)] and r2 = profile_update_rows [OF st(2)] and r3 = set_user_tier_run [OF st(3)]
    have "kyc_ok s3"
    proof (rule retier_keeps [OF ok st(1), where g = ?g and t = KYCTierUnverified])
      show "db_kyc s3 = update_where (\<lambda>p. kp_ID p = i) ?g (db_kyc s1)" by (simp add: r3(2) r2(1))
      show "db_users s3 = (case db_users s (kp_UserID q) of None \<Rightarrow> db_users s | Some u \<Rightarrow> (db_users s)(kp_UserID q \<mapsto> u\<lparr>u_KYCTier := KYCTierUnverified\<rparr>))"
        by (simp add: r3(1) r2(1) r1(1) split: option.split)
      show "db_seq s \<le> db_seq s3" by (simp add: r3(3) r2(1) r1(1))
    qed (simp_all add: keeps_identity_def KYCTierUnverified_def)
    then show ?thesis by (rule event_insert_keeps [OF _ st(4)])
  qed
qed

lemma ApproveAndSetTier_keeps: "tx_keeps kyc_ok (ApproveAndSetTier i adminID ap)"
proof (rule tx_keepsI)
  fix fs s r fs' s' assume ok: "kyc_ok s" and run: "ApproveAndSetTier i adminID ap fs s = (r, fs', s')"
  show "kyc_ok s'"
  proof (cases r)
    case (Inl e)
    then show ?thesis using run ok unfolding ApproveAndSetTier_def by (auto dest: withTx_Inl)
  next
    case (Inr x)
    let ?f = "\<lambda>p. p\<lparr>kp_Status := KYCStatusApproved, kp_Tier := ap_Tier ap, kp_NextReviewAt := Some (ap_NextReview ap), kp_ReviewedBy := Some adminID,
          kp_ReviewedAt := Some (db_now s), kp_RejectionReason := []\<rparr>"
    obtain q rest s1 n s2 y where st: "profile_update (\<lambda>p. kp_ID p = i) ?f s = Inr (q # rest, s1)"
      "set_user_tier (kp_UserID q) (ap_Tier ap) s1 = Inr (n, s2)" "n \<noteq> 0" "event_insert y s2 = Inr (x, s')"
      using withTx_Inr [OF run [unfolded Inr ApproveAndSetTier_def]] by (auto simp: tx_runs)
    note r1 = profile_update_rows [OF st(1)] and r2 = set_user_tier_run [OF st(2)]
    have "kyc_ok s2"
    proof (rule retier_keeps [OF ok st(1), where g = "\<lambda>p. p" and t = "ap_Tier ap"])
      show "db_kyc s2 = update_where (\<lambda>p. kp_ID p = i) (\<lambda>p. p) (db_kyc s1)" by (simp add: r2(2) update_where_def)
      show "db_users s2 = (case db_users s (kp_UserID q) of None \<Rightarrow> db_users s | Some u \<Rightarrow> (db_users s)(kp_UserID q \<mapsto> u\<lparr>u_KYCTier := ap_Tier ap\<rparr>))"
        by (simp add: r2(1) r1(1) split: option.split)
      show "db_seq s \<le> db_seq s2" by (simp add: r2(3) r1(1))
    qed (use r2(4) [OF st(3)] in \<open>simp_all add: keeps_identity_def\<close>)
    then show ?thesis by (rule event_insert_keeps [OF _ st(4)])
  qed
qed

lemma user_update_tiers:
  assumes "user_update i g (add_balance d) s = Inr (r, s')"
  shows "db_kyc s' = db_kyc s" "db_seq s' = db_seq s" "map_option u_KYCTier (db_users s' k) = map_option u_KYCTier (db_users s k)"
  using assms by (auto simp: user_update_def Let_def add_balance_def split: option.splits if_splits)

lemma money_keeps_kyc:
  "kyc_ok s \<Longrightarrow> user_update i g (add_balance d) s = Inr (r, s') \<Longrightarrow> kyc_ok s'"
  "kyc_ok s \<Longrightarrow> ledger_insert e s = Inr (x, s'') \<Longrightarrow> kyc_ok s''"
  by (erule kyc_ok_frame; simp add: user_update_tiers)
    (erule kyc_ok_frame; drule ledger_insert_run(1); simp add: ledger_append_def)

lemma freeze_columns_keep:
  "kyc_ok s \<Longrightarrow> profile_update w (\<lambda>p. p\<lparr>kp_BalanceFrozen := b, kp_FrozenAmountCents := a, kp_FrozenReason := t\<rparr>) s = Inr (rows, s') \<Longrightarrow> kyc_ok s'"
  "kyc_ok s \<Longrightarrow> profile_update w (\<lambda>p. p\<lparr>kp_RiskScore := a\<rparr>) s = Inr (rows, s') \<Longrightarrow> kyc_ok s'"
  by (erule profile_update_keeps, assumption; simp add: keeps_identity_def)+

lemma ReleaseFrozenBalance_keeps: "tx_keeps kyc_ok (ReleaseFrozenBalance u a)"
  unfolding ReleaseFrozenBalance_def ReleaseAndCreditFrozen_def GetProfileByUserID_def profile_or_404_def Let_def clear_freeze_def user_found_def insertLedgerTx_def
  by (intro tx_keep appendEvent_keeps) (erule (1) freeze_columns_keep money_keeps_kyc)+

lemma FreezeBalance_keeps: "tx_keeps kyc_ok (FreezeBalance u a t)"
  unfolding FreezeBalance_def FreezeAtomic_def FreezeAtomicWithTxHook_def row_or_def
  by (intro tx_keep) (erule (1) freeze_columns_keep event_insert_keeps)+

lemma RecalculateRiskScore_keeps: "tx_keeps kyc_ok (RecalculateRiskScore u)"
  unfolding RecalculateRiskScore_def GetProfileByUserID_def profile_or_404_def Let_def UpdateRiskScore_def param_int_def
  by (intro tx_keep) (erule (1) freeze_columns_keep)

lemma profile_insert_keeps:
  assumes "kyc_ok s" "\<not> list_ex (\<lambda>p. kp_UserID p = kp_UserID x) (db_kyc s)" "kp_ID x = db_seq s" "kp_Status x \<notin> {KYCStatusRejected, KYCStatusEscalated}"
    and "db_users s (kp_UserID x) = Some u" "u_KYCTier u = kp_Tier x" "0 \<le> kp_Tier x" "kp_Tier x \<le> 3" "kp_RiskScore x = 0" "kp_FrozenAmountCents x = 0"
  shows "kyc_ok (s\<lparr>db_seq := db_seq s + 1, db_kyc := db_kyc s @ [x]\<rparr>)"
proof -
  let ?s = "s\<lparr>db_seq := db_seq s + 1, db_kyc := db_kyc s @ [x]\<rparr>"
  have "profile_ok s p \<Longrightarrow> profile_ok ?s p" for p by (auto simp: profile_ok_def)
  moreover have "profile_ok ?s x" using assms by (auto simp: profile_ok_def)
  moreover have "kp_ID x \<notin> kp_ID ` set (db_kyc s)" using kyc_okD [OF assms(1)] assms(3) by (force simp: profile_ok_def)
  ultimately show ?thesis using assms(1,2) unfolding kyc_ok_def by (auto simp: list_ex_iff)
qed

lemma profile_upsert_keeps:
  assumes ok: "kyc_ok s" and run: "profile_upsert p s = Inr (i, s')" and st: "kp_Status p = KYCStatusPending"
    and new: "find (\<lambda>r. kp_UserID r = kp_UserID p) (db_kyc s) = None \<Longrightarrow> kp_Tier p = KYCTierUnverified"
  shows "kyc_ok s'"
proof (cases "find (\<lambda>r. kp_UserID r = kp_UserID p) (db_kyc s)")
  case None
  then obtain x where x: "s' = s\<lparr>db_seq := db_seq s + 1, db_kyc := db_kyc s @ [x]\<rparr>" "kp_ID x = db_seq s" "kp_UserID x = kp_UserID p" "kp_Status x = KYCStatusPending"
      "kp_Tier x = KYCTierUnverified" "kp_RiskScore x = 0" "kp_FrozenAmountCents x = 0" "db_users s (kp_UserID p) \<noteq> None"
    using run st new by (auto simp: profile_upsert_def Let_def blank_profile_def user_exists_def split: option.splits if_splits)
  from None have fresh: "kp_UserID p \<notin> kp_UserID ` set (db_kyc s)" by (auto simp: find_None_iff)
  obtain u where u: "db_users s (kp_UserID p) = Some u" using x(8) by blast
  have "u_KYCTier u = KYCTierUnverified" using ok fresh u unfolding kyc_ok_def by (metis insertE option.distinct(1) option.inject option.simps(9) singletonD)
  then show ?thesis unfolding x(1) using x fresh u by (intro profile_insert_keeps [OF ok]) (auto simp: list_ex_iff image_iff KYCTierUnverified_def)
next
  case (Some old)
  let ?f = "\<lambda>r. r\<lparr>kp_Status := kp_Status p, kp_FullName := kp_FullName p, kp_DateOfBirth := kp_DateOfBirth p, kp_Nationality := kp_Nationality p,
            kp_DocumentType := kp_DocumentType p, kp_DocumentNumber := kp_DocumentNumber p, kp_AddressLine := kp_AddressLine p, kp_City := kp_City p,
            kp_Country := kp_Country p, kp_PostalCode := kp_PostalCode p,
            kp_SubmissionIP := (case kp_SubmissionIP r of None \<Rightarrow> if kp_SubmissionIP p = Some [] then None else kp_SubmissionIP p | Some old \<Rightarrow> Some old),
            kp_SubmittedAt := kp_SubmittedAt p\<rparr>"
  have s': "s' = s\<lparr>db_kyc := update_where (\<lambda>r. kp_UserID r = kp_UserID p) ?f (db_kyc s)\<rparr>"
    using run Some by (auto simp: profile_upsert_def Let_def split: option.splits if_splits)
  show ?thesis
  proof (rule kyc_ok_step [OF ok, where f = ?f and w = "\<lambda>r. kp_UserID r = kp_UserID p"])
    show "profile_ok s' (?f q)" if "q \<in> set (db_kyc s)" for q using kyc_okD [OF ok that] st by (auto simp: profile_ok_def s')
  qed (simp_all add: s' keeps_identity_def)
qed

lemma appendEvent_keeps_kyc:
  assumes "\<And>s s'. P s \<Longrightarrow> db_kyc s' = db_kyc s \<Longrightarrow> db_users s' = db_users s \<Longrightarrow> db_seq s' = db_seq s \<Longrightarrow> P s'"
  shows "tx_keeps P (appendEvent e)"
  unfolding appendEvent_def by (intro tx_keep) (erule assms; auto simp: event_insert_def split: if_splits)

lemma SubmitKYC_keeps: "tx_keeps kyc_ok (SubmitKYC u req)"
proof -
  let ?J = "\<lambda>existing s. kyc_ok s \<and> find (\<lambda>p. kp_UserID p = u) (db_kyc s) = existing"
  have app: "tx_keeps (?J x) (appendEvent e)" for x e
    by (rule appendEvent_keeps_kyc) (auto intro: kyc_ok_frame)
  have ip: "tx_keeps (?J x) (checkIPVelocity u ip x)" for x ip
    unfolding checkIPVelocity_def CheckIPSubmissionVelocity_def CountRecentSubmissionsByIP_def Let_def by (intro tx_keep app)
  have ups: "tx_valid (?J x) (ProfileUpsert (submitted_profile u req now x)) (\<lambda>_. kyc_ok) (\<lambda>_. kyc_ok)" for x now
    unfolding ProfileUpsert_def
    by (rule tx_valid_stmt) (auto elim!: profile_upsert_keeps simp: submitted_profile_def blank_profile_def)
  have tail: "tx_valid kyc_ok (tx_bind (appendEvent e) (\<lambda>_. tx_ret q)) (\<lambda>_. kyc_ok) (\<lambda>_. kyc_ok)" for e q
    by (fold tx_keeps_def) (intro tx_keep appendEvent_keeps)
  show ?thesis unfolding tx_keeps_def SubmitKYC_def Let_def GetProfileByUserID_def ExistsByDocumentIdentity_def
    apply (rule tx_valid_keep_bind, rule tx_keeps_base, assumption)
    apply (rule tx_valid_bind [where R = ?J], rule tx_valid_query, assumption, simp)
    apply (rule tx_valid_keep_bind, rule tx_keeps_base, simp)
    apply (rule tx_valid_keep_bind, rule tx_keeps_base, simp)
    apply (rule tx_valid_if, rule tx_valid_err, simp)
    apply (rule tx_valid_keep_bind, rule ip, simp)
    apply (rule tx_valid_keep_bind, rule tx_keeps_base, simp)
    apply (rule tx_valid_bind, rule ups, rule tail)
    done
qed

datatype kyc_op =
    OpSubmitKYC int SubmitKYCRequest
  | OpUploadDocument KYCDocument
  | OpDeleteDocument int int
  | OpVerifyDocument int int
  | OpRequestDocument int int string
  | OpApprove int int KYCTier
  | OpReject int int string
  | OpEscalate int int string
  | OpFreeze int int string
  | OpRelease int int
  | OpRiskScore int
  | OpEnsureStub int

fun run_kyc_op :: "kyc_op \<Rightarrow> unit dbprog" where
  "run_kyc_op (OpSubmitKYC u req) = tx_void (SubmitKYC u req)"
| "run_kyc_op (OpUploadDocument d) = tx_void (UploadDocument d)"
| "run_kyc_op (OpDeleteDocument u d) = tx_void (DeleteDocument u d)"
| "run_kyc_op (OpVerifyDocument d a) = VerifyDocument d a"
| "run_kyc_op (OpRequestDocument p a r) = RequestDocument p a r"
| "run_kyc_op (OpApprove p a t) = Approve p a t"
| "run_kyc_op (OpReject p a r) = Reject p a r"
| "run_kyc_op (OpEscalate p a r) = Escalate p a r"
| "run_kyc_op (OpFreeze u c r) = FreezeBalance u c r"
| "run_kyc_op (OpRelease u a) = ReleaseFrozenBalance u a"
| "run_kyc_op (OpRiskScore u) = tx_void (RecalculateRiskScore u)"
| "run_kyc_op (OpEnsureStub u) = EnsureStub u"

lemma documents_keep:
  "tx_keeps kyc_ok (UploadDocument d)" "tx_keeps kyc_ok (DeleteDocument u i)" "tx_keeps kyc_ok (VerifyDocument i a)"
  unfolding UploadDocument_def DocumentCreate_def DeleteDocument_def DeleteByID_def GetProfileByUserID_def GetDocumentByID_def VerifyDocument_def MarkVerified_def
    param_int_def affected_def Let_def
  by (intro tx_keep; erule kyc_ok_frame; auto split: if_splits)+

lemma EnsureStub_keeps: "tx_keeps kyc_ok (EnsureStub u)"
proof -
  have "kyc_ok s'" if ok: "kyc_ok s" and new: "\<not> list_ex (\<lambda>p. kp_UserID p = u) (db_kyc s)" and ins: "profile_insert (blank_profile u) s = Inr (r, s')" for s r s'
  proof -
    obtain x where x: "db_users s u = Some x" "s' = s\<lparr>db_seq := db_seq s + 1, db_kyc := db_kyc s @ [(blank_profile u)\<lparr>kp_ID := db_seq s\<rparr>]\<rparr>"
      using ins by (auto simp: profile_insert_def Let_def user_exists_def blank_profile_def split: if_splits)
    have "u \<notin> kp_UserID ` set (db_kyc s)" using new by (auto simp: list_ex_iff)
    then have "u_KYCTier x = KYCTierUnverified" using ok x(1) unfolding kyc_ok_def by (metis insertE option.distinct(1) option.inject option.simps(9) singletonD)
    then show ?thesis unfolding x(2) using x(1) new by (intro profile_insert_keeps [OF ok]) (auto simp: blank_profile_def KYCTierUnverified_def)
  qed
  then show ?thesis unfolding EnsureStub_def by (intro tx_keep) (auto split: if_splits)
qed

lemma run_kyc_op_keeps: "tx_keeps kyc_ok (run_kyc_op oper)"
  by (cases oper)
    (auto intro!: tx_keep SubmitKYC_keeps documents_keep ApproveAndSetTier_keeps UpdateStatusWithEvent_keeps FreezeBalance_keeps ReleaseFrozenBalance_keeps
      RecalculateRiskScore_keeps EnsureStub_keeps appendEvent_keeps
      simp: RequestDocument_def Approve_def Reject_def Escalate_def GetProfileByID_def profile_or_404_def param_int_def)

lemma RequestWithdrawal_needs_level:
  assumes "is_ok (fst (RequestWithdrawal u a c m d fs s))"
  shows "\<exists>usr. db_users s u = Some usr \<and> KYCTierTwo \<le> u_KYCTier usr"
proof -
  obtain w fs' s' where "RequestWithdrawal u a c m d fs s = (Inr w, fs', s')" using is_ok_run [OF assms] by blast
  then obtain x fs1 s1 where "CheckWithdrawal u a (if c = [] then ''GTQ'' else c) fs s = (Inr x, fs1, s1)"
    unfolding RequestWithdrawal_def Let_def tx_bind_run by blast
  then show ?thesis by (rule CheckWithdrawal_run(2))
qed

text \<open>
  C18: a rejected or escalated identity cannot withdraw. After any sequence of submissions, document uploads, approvals, rejections,
  escalations, freezes and releases, with any failures, the level stored with a profile equals the level stored with its user,
  and every withdrawal request of a user whose profile is rejected or escalated fails, whatever was approved before.
\<close>
theorem rejected_identity_cannot_withdraw:
  assumes "kyc_ok s" "s' = run_all (map (\<lambda>(oper, fs). (run_kyc_op oper, fs)) requests) s" "p \<in> set (db_kyc s')"
  shows "map_option u_KYCTier (db_users s' (kp_UserID p)) = Some (kp_Tier p) \<and>
    (kp_Status p \<in> {KYCStatusRejected, KYCStatusEscalated} \<longrightarrow> \<not> is_ok (fst (RequestWithdrawal (kp_UserID p) amount currency payout details fs s')))"
proof -
  have "kyc_ok s'" unfolding assms(2) by (rule run_all_invariant [where I = kyc_ok]) (use run_kyc_op_keeps assms(1) in auto)
  from kyc_okD [OF this assms(3)] have ok: "profile_ok s' p" .
  have "\<not> is_ok (fst (RequestWithdrawal (kp_UserID p) amount currency payout details fs s'))" if "kp_Status p \<in> {KYCStatusRejected, KYCStatusEscalated}"
    using RequestWithdrawal_needs_level [of "kp_UserID p" amount currency payout details fs s'] ok that
    by (auto simp: profile_ok_def KYCTierUnverified_def KYCTierTwo_def)
  with ok show ?thesis by (auto simp: profile_ok_def)
qed

section \<open>Frozen prizes\<close>

lemma profile_update_quiet: "profile_update w f s = Inr (rows, s') \<Longrightarrow> quiet s s'"
  by (auto simp: quiet_def accounts_def dest!: profile_update_rows(1))

text \<open>A release credits the frozen amount, once, and clears the freeze.\<close>
lemma ReleaseAndCreditFrozen_run:
  assumes "ReleaseAndCreditFrozen u ri rt fs s = (Inr a, fs', s')"
  shows "(a = 0 \<and> accounts s' = accounts s \<and> db_ledger s' = db_ledger s \<and> db_seq s' = db_seq s) \<or>
    (\<exists>p s1 rows. find (\<lambda>p. kp_UserID p = u \<and> kp_BalanceFrozen p) (db_kyc s) = Some p \<and> a = kp_FrozenAmountCents p \<and> posting u a s s1 \<and> clear_freeze u s1 = Inr (rows, s'))"
proof -
  note run = withTx_Inr [OF assms [unfolded ReleaseAndCreditFrozen_def Let_def]]
  consider "find (\<lambda>p. kp_UserID p = u \<and> kp_BalanceFrozen p) (db_kyc s) = None"
    | p where "find (\<lambda>p. kp_UserID p = u \<and> kp_BalanceFrozen p) (db_kyc s) = Some p" "kp_FrozenAmountCents p = 0"
    | p where "find (\<lambda>p. kp_UserID p = u \<and> kp_BalanceFrozen p) (db_kyc s) = Some p" "kp_FrozenAmountCents p \<noteq> 0"
    by fastforce
  then show ?thesis
  proof cases
    case (3 p)
    then obtain us s0 e x s1 rows where st: "user_update u (\<lambda>_. True) (add_balance (kp_FrozenAmountCents p)) s = Inr (Some us, s0)"
      "ledger_insert e s0 = Inr (x, s1)" "lrow_UserID e = u" "lrow_DeltaCents e = kp_FrozenAmountCents p" "lrow_BalanceAfter e = u_BalanceCents us"
      "clear_freeze u s1 = Inr (rows, s')" "a = kp_FrozenAmountCents p"
      using run by (fastforce simp: tx_runs)
    have "posting u (kp_FrozenAmountCents p) s s1" by (rule posting_by [OF st(1) _ _ _ st(2-5)]) (simp_all add: add_balance_def)
    then show ?thesis using st(6,7) 3 by blast
  qed (use run in \<open>auto simp: tx_runs clear_freeze_def accounts_def dest!: profile_update_rows(1)\<close>)
qed

interpretation release: money_op "ReleaseAndCreditFrozen u ri rt"
proof
  show "s' = s" if "ReleaseAndCreditFrozen u ri rt fs s = (Inl e, fs', s')" for fs s e fs' s'
    using that unfolding ReleaseAndCreditFrozen_def by (rule withTx_Inl)
  show "bank_step\<^sup>*\<^sup>* s s'" if "books s" "ReleaseAndCreditFrozen u ri rt fs s = (Inr a, fs', s')" for s fs a fs' s'
    using ReleaseAndCreditFrozen_run [OF that(2)]
    by (auto simp: clear_freeze_def quiet_def intro: bank_stepI dest: profile_update_quiet)
qed

definition example_request :: SubmitKYCRequest where
  "example_request = \<lparr>sr_FullName = ''Ana'', sr_DateOfBirth = None, sr_Nationality = ''GT'', sr_DocumentType = ''gov_id'', sr_DocumentNumber = ''1'',
     sr_AddressLine = [], sr_City = [], sr_Country = [], sr_PostalCode = [], sr_SubmissionIP = ''10.0.0.1''\<rparr>"

definition example_kyc_db :: db where
  "example_kyc_db = example_bank_db\<lparr>db_seq := 10, db_users := [1 \<mapsto> (example_user 1)\<lparr>u_BalanceCents := 9000, u_KYCTier := 0\<rparr>, 2 \<mapsto> (example_user 2)\<lparr>u_KYCTier := 0\<rparr>]\<rparr>"

lemma example_kyc_ok: "kyc_ok example_kyc_db"
  by (auto simp: kyc_ok_def example_kyc_db_def example_bank_db_def empty_db_def KYCTierUnverified_def)

theorem rejected_identity_cannot_withdraw_witness:
  "\<not> is_ok (fst (RequestWithdrawal 1 6000 ''GTQ'' ''bank_gt'' [] []
     (run_all (map (\<lambda>(oper, fs). (run_kyc_op oper, fs)) [(OpSubmitKYC 1 example_request, []), (OpApprove 10 2 2, []), (OpReject 10 2 ''forged'', [])]) example_kyc_db)))"
proof -
  let ?ops = "[(OpSubmitKYC 1 example_request, []), (OpApprove 10 2 2, []), (OpReject 10 2 ''forged'', [])]"
  let ?s = "run_all (map (\<lambda>(oper, fs). (run_kyc_op oper, fs)) ?ops) example_kyc_db"
  have "map (\<lambda>p. (kp_UserID p, kp_Status p)) (db_kyc ?s) = [(1, KYCStatusRejected)]" by code_simp
  then obtain p where "p \<in> set (db_kyc ?s)" "kp_UserID p = 1" "kp_Status p = KYCStatusRejected" by (auto simp: map_eq_Cons_conv)
  then show ?thesis using rejected_identity_cannot_withdraw [OF example_kyc_ok refl, of p ?ops 6000 "''GTQ''" "''bank_gt''" "[]" "[]"] by simp
qed

lemma example_kyc_withdraws:
  "is_ok (fst (RequestWithdrawal 1 6000 ''GTQ'' ''bank_gt'' [] []
     (run_all (map (\<lambda>(oper, fs). (run_kyc_op oper, fs)) [(OpSubmitKYC 1 example_request, []), (OpApprove 10 2 2, [])]) example_kyc_db)))"
  by code_simp

text \<open>A second freeze replaces the amount of the first: of two frozen prizes only the second is ever released.\<close>
lemma example_second_freeze_replaces_first:
  "accounts (run_all (map (\<lambda>oper. (run_kyc_op oper, [])) [OpEnsureStub 2, OpFreeze 2 500 [], OpFreeze 2 300 [], OpRelease 2 1]) example_kyc_db) 2 =
     map_option (\<lambda>b. b + 300) (accounts example_kyc_db 2)"
  by code_simp

end
