(* ===== verification/Prizes.thy ===== *)
theory Prizes
  imports Kyc
begin

text \<open>
  Prizes: \<^verbatim>\<open>AdminGroupService.DistributePrizes\<close> with \<^verbatim>\<open>buildPrizeAllocations\<close> (\<^verbatim>\<open>service/admin_group_service.go\<close>),
  \<^verbatim>\<open>DistributePrizesAtomically\<close> and its helpers (\<^verbatim>\<open>repository/quiniela_repository.go\<close>) and \<^verbatim>\<open>CreditPrize\<close>
  (\<^verbatim>\<open>service/prize_service.go\<close>). Every entry of the leaderboard has a user. Notifications, metrics and the audit log are left out.
\<close>

record PrizeCredit =
  pc_UserID :: int
  pc_AmountCents :: int
  pc_RefID :: int
  pc_RefType :: string

record PrizeFreeze =
  pf_UserID :: int
  pf_AmountCents :: int
  pf_Reason :: string

definition freeze_reason :: "int \<Rightarrow> string" where
  "freeze_reason amount = ''Ha ganado un premio de Q'' @ format_cents amount @ ''. Para recibir tus fondos debes completar la verificaci'' @
     [CHR 0xC3, CHR 0xB3] @ ''n de identidad (DPI vigente para residentes en Guatemala; pasaporte u equivalente para extranjeros). '' @
     ''Tu saldo ha sido retenido hasta que el equipo de cumplimiento apruebe tu solicitud.''"

text \<open>One entry: nothing, a credit or a freeze of \<open>amount\<close>.\<close>
definition allocate :: "int \<Rightarrow> int \<Rightarrow> LeaderboardEntry \<Rightarrow> PrizeCredit list \<times> PrizeFreeze list" where
  "allocate quinielaID amount entry =
    (if u_KYCTier (le_User entry) \<ge> KYCTierTwo
     then ([\<lparr>pc_UserID = u_ID (le_User entry), pc_AmountCents = amount, pc_RefID = quinielaID, pc_RefType = ''quiniela''\<rparr>], [])
     else ([], [\<lparr>pf_UserID = u_ID (le_User entry), pf_AmountCents = amount, pf_Reason = freeze_reason amount\<rparr>]))"

text \<open>The loop over the entries; the flag is \<open>remainderAssigned\<close>.\<close>
fun prize_loop :: "int \<Rightarrow> int \<Rightarrow> int \<Rightarrow> bool \<Rightarrow> LeaderboardEntry list \<Rightarrow> PrizeCredit list \<times> PrizeFreeze list" where
  "prize_loop quinielaID prizePerWinner remainder assigned [] = ([], [])"
| "prize_loop quinielaID prizePerWinner remainder assigned (entry # entries) =
    (if \<not> le_PrizeWinner entry then prize_loop quinielaID prizePerWinner remainder assigned entries
     else let amount = (if \<not> assigned then go64 (prizePerWinner + remainder) else prizePerWinner);
              (cs, fs) = allocate quinielaID amount entry;
              (cs', fs') = prize_loop quinielaID prizePerWinner remainder True entries
          in (cs @ cs', fs @ fs'))"

definition buildPrizeAllocations :: "LeaderboardEntry list \<Rightarrow> int \<Rightarrow> int \<Rightarrow> int \<Rightarrow> PrizeCredit list \<times> PrizeFreeze list" where
  "buildPrizeAllocations entries quinielaID prizePerWinner remainder = prize_loop quinielaID prizePerWinner remainder False entries"

section \<open>The transaction\<close>

definition lockAndMarkDistributed :: "int \<Rightarrow> int \<Rightarrow> unit dbprog" where
  "lockAndMarkDistributed quinielaID expectedEntryFee =
     tx_bind (tx_query (\<lambda>s. find (\<lambda>q. q_ID q = quinielaID \<and> q_PrizesDistributedAt q = None \<and> q_DeletedAt q = None) (db_quinielas s))) (\<lambda>r. case r of
       None \<Rightarrow> tx_err (Conflict ''prizes already distributed for this quiniela'')
     | Some q \<Rightarrow>
         if q_EntryFee q \<noteq> expectedEntryFee then tx_err (Conflict ''entry_fee changed between leaderboard read and distribution - retry'')
         else tx_void (tx_exec (\<lambda>s. quiniela_update (\<lambda>q. q_ID q = quinielaID) (\<lambda>q. q\<lparr>q_PrizesDistributedAt := Some (db_now s)\<rparr>) s)))"

definition applyPrizeCreditTx :: "PrizeCredit \<Rightarrow> unit dbprog" where
  "applyPrizeCreditTx c =
     tx_bind (tx_exec (user_update (pc_UserID c) (\<lambda>_. True) (add_balance (pc_AmountCents c)))) (\<lambda>r. case r of
       None \<Rightarrow> tx_err (NotFound ''prize recipient not found'')
     | Some u \<Rightarrow> insertLedgerTx \<lparr>lrow_UserID = pc_UserID c, lrow_DeltaCents = pc_AmountCents c, lrow_Kind = LedgerKindPrize,
         lrow_BalanceAfter = u_BalanceCents u, lrow_RefID = pc_RefID c, lrow_RefType = pc_RefType c, lrow_Reference = [], lrow_CreatorID = 0,
         lrow_SourceCurrency = [], lrow_SourceAmountCents = 0\<rparr>)"

text \<open>A winner without a profile is skipped with a log entry.\<close>
definition applyPrizeFreezeTx :: "PrizeFreeze \<Rightarrow> unit dbprog" where
  "applyPrizeFreezeTx f =
     tx_bind (tx_exec (profile_update (\<lambda>p. kp_UserID p = pf_UserID f)
       (\<lambda>p. p\<lparr>kp_BalanceFrozen := True, kp_FrozenAmountCents := pf_AmountCents f, kp_FrozenReason := pf_Reason f\<rparr>))) (\<lambda>rows. case rows of
       [] \<Rightarrow> tx_ret ()
     | p # _ \<Rightarrow> tx_exec (event_insert (kyc_event (kp_ID p) KYCEventFrozen None (Some (kp_Status p)) (Some (kp_Status p)) (pf_Reason f))))"

definition DistributePrizesAtomically :: "int \<Rightarrow> int \<Rightarrow> PrizeCredit list \<Rightarrow> PrizeFreeze list \<Rightarrow> unit dbprog" where
  "DistributePrizesAtomically quinielaID expectedEntryFee credits freezes = withTx (
     tx_bind (lockAndMarkDistributed quinielaID expectedEntryFee) (\<lambda>_.
     tx_bind (tx_iter applyPrizeCreditTx credits) (\<lambda>_.
     tx_iter applyPrizeFreezeTx freezes)))"

section \<open>Services\<close>

definition DistributePrizes :: "((int \<times> int) list \<Rightarrow> (int \<times> int) list) \<Rightarrow> int \<Rightarrow> unit dbprog" where
  "DistributePrizes order quinielaID =
     tx_bind (GetGroup quinielaID) (\<lambda>r. case r of
       None \<Rightarrow> tx_err (NotFound ''quiniela not found'')
     | Some q \<Rightarrow>
         if q_EntryFee q = 0 then tx_err (Conflict ''quiniela has no entry fee; no prizes to distribute'')
         else
           tx_bind (GetLeaderboard order quinielaID) (\<lambda>result.
           if \<not> lr_EligibleForPrizes result \<or> lr_WinnerCount result = 0 then tx_err (Conflict ''quiniela is not eligible for prize distribution'')
           else
             let prizePool = go64 (q_EntryFee q * lr_ActivePaidMembers result);
                 prizePerWinner = go_quot prizePool (lr_WinnerCount result);
                 remainder = go_rem prizePool (lr_WinnerCount result);
                 (credits, freezes) = buildPrizeAllocations (lr_Entries result) quinielaID prizePerWinner remainder
             in DistributePrizesAtomically quinielaID (q_EntryFee q) credits freezes))"

text \<open>\<^verbatim>\<open>PrizeService.CreditPrize\<close>; \<open>fx\<close> converts quetzales to dollars.\<close>
definition CreditPrize :: "nat \<Rightarrow> (int \<Rightarrow> int dbprog) option \<Rightarrow> int \<Rightarrow> int \<Rightarrow> int \<Rightarrow> string \<Rightarrow> bool dbprog" where
  "CreditPrize maxAttempts fx userID prizeCents refID refType =
     tx_bind (case fx of
         None \<Rightarrow> tx_ret prizeCents
       | Some convert \<Rightarrow> tx_try (GetBalanceCurrency userID) (\<lambda>_. tx_ret prizeCents) (\<lambda>balCurrency.
           if balCurrency = ''USD'' then tx_try (convert prizeCents) (\<lambda>_. tx_ret prizeCents) tx_ret else tx_ret prizeCents)) (\<lambda>creditCents.
     tx_bind (CheckWinFreeze userID creditCents) (\<lambda>(shouldFreeze, reason).
     if shouldFreeze then tx_bind (FreezeBalance userID creditCents reason) (\<lambda>_. tx_ret False)
     else tx_bind (Credit maxAttempts userID creditCents LedgerKindPrize refID refType 0) (\<lambda>_. tx_ret True)))"

section \<open>Allocations\<close>

definition winner_ids :: "LeaderboardEntry list \<Rightarrow> int list" where
  "winner_ids entries = map (\<lambda>e. u_ID (le_User e)) (filter le_PrizeWinner entries)"

definition payouts :: "PrizeCredit list \<times> PrizeFreeze list \<Rightarrow> (int \<times> int) multiset" where
  "payouts a = mset (map (\<lambda>c. (pc_UserID c, pc_AmountCents c)) (fst a)) + mset (map (\<lambda>f. (pf_UserID f, pf_AmountCents f)) (snd a))"

lemma payouts_allocate: "payouts (allocate q a e) = {#(u_ID (le_User e), a)#}"
  by (simp add: allocate_def payouts_def)

lemma payouts_append: "payouts (cs @ cs', fs @ fs') = payouts (cs, fs) + payouts (cs', fs')"
  by (simp add: payouts_def)

lemma prize_loop_Cons:
  "le_PrizeWinner e \<Longrightarrow> payouts (prize_loop q p r b (e # es)) =
     {#(u_ID (le_User e), if b then p else go64 (p + r))#} + payouts (prize_loop q p r True es)"
  using payouts_allocate [of q "if \<not> b then go64 (p + r) else p" e]
  by (cases "allocate q (if \<not> b then go64 (p + r) else p) e") (auto simp: Let_def payouts_append split: prod.split)

lemma prize_loop_rest: "payouts (prize_loop q p r True es) = mset (zip (winner_ids es) (replicate (length (winner_ids es)) p))"
proof (induction es)
  case Nil
  then show ?case by (simp add: payouts_def winner_ids_def)
next
  case (Cons e es)
  then show ?case by (cases "le_PrizeWinner e") (simp_all add: prize_loop_Cons winner_ids_def del: prize_loop.simps(2) , simp add: winner_ids_def)
qed

text \<open>Every winner gets the base share; the first one gets the remainder on top.\<close>
lemma buildPrizeAllocations_shares:
  "payouts (buildPrizeAllocations es q p r) = mset (zip (winner_ids es) (go64 (p + r) # replicate (length (winner_ids es) - 1) p))"
  unfolding buildPrizeAllocations_def
proof (induction es)
  case Nil
  then show ?case by (simp add: payouts_def winner_ids_def)
next
  case (Cons e es)
  show ?case
  proof (cases "le_PrizeWinner e")
    case True
    then show ?thesis by (simp add: prize_loop_Cons prize_loop_rest winner_ids_def del: prize_loop.simps(2))
  qed (use Cons in \<open>simp add: winner_ids_def\<close>)
qed

section \<open>The transaction\<close>

definition pay_credit :: "PrizeCredit \<Rightarrow> (int \<rightharpoonup> int) \<Rightarrow> (int \<rightharpoonup> int)" where
  "pay_credit c m = m(pc_UserID c := map_option (\<lambda>b. b + pc_AmountCents c) (m (pc_UserID c)))"

definition hold_prize :: "PrizeFreeze \<Rightarrow> KYCProfile list \<Rightarrow> KYCProfile list" where
  "hold_prize f = update_where (\<lambda>p. kp_UserID p = pf_UserID f)
     (\<lambda>p. p\<lparr>kp_BalanceFrozen := True, kp_FrozenAmountCents := pf_AmountCents f, kp_FrozenReason := pf_Reason f\<rparr>)"

lemma posting_pays: "posting (pc_UserID c) (pc_AmountCents c) s s' \<Longrightarrow> accounts s' = pay_credit c (accounts s)"
  by (auto simp: posting_def accounts_def pay_credit_def fun_eq_iff)

lemma applyPrizeCreditTx_run:
  assumes "applyPrizeCreditTx c fs s = (Inr x, fs', s')"
  shows "posting (pc_UserID c) (pc_AmountCents c) s s'" "db_kyc s' = db_kyc s" "db_quinielas s' = db_quinielas s"
proof -
  obtain u s1 e where st: "user_update (pc_UserID c) (\<lambda>_. True) (add_balance (pc_AmountCents c)) s = Inr (Some u, s1)" "ledger_insert e s1 = Inr (x, s')"
    "lrow_UserID e = pc_UserID c" "lrow_DeltaCents e = pc_AmountCents c" "lrow_BalanceAfter e = u_BalanceCents u"
    using assms unfolding applyPrizeCreditTx_def by (fastforce simp: tx_runs split: option.splits)
  show "posting (pc_UserID c) (pc_AmountCents c) s s'" by (rule posting_by [OF st(1) _ _ _ st(2-5)]) (simp_all add: add_balance_def)
  show "db_kyc s' = db_kyc s" "db_quinielas s' = db_quinielas s"
    using st(1) ledger_insert_run(1) [OF st(2)] by (auto simp: ledger_append_def elim!: user_update_Some)
qed

lemma credits_run:
  "tx_iter applyPrizeCreditTx cs fs s = (Inr x, fs', s') \<Longrightarrow>
     accounts s' = fold pay_credit cs (accounts s) \<and> bank_step\<^sup>*\<^sup>* s s' \<and> db_kyc s' = db_kyc s \<and> db_quinielas s' = db_quinielas s"
proof (induction cs arbitrary: fs s)
  case (Cons c cs)
  then obtain y fs1 s1 where c: "applyPrizeCreditTx c fs s = (Inr y, fs1, s1)" and rest: "tx_iter applyPrizeCreditTx cs fs1 s1 = (Inr x, fs', s')"
    by (auto simp: tx_runs)
  note p = applyPrizeCreditTx_run [OF c]
  from Cons.IH [OF rest] show ?case using bank_stepI(1) [OF p(1)] by (auto simp: p(2,3) posting_pays [OF p(1)] intro: rtranclp_trans)
qed (simp add: tx_runs)

lemma applyPrizeFreezeTx_run:
  assumes "applyPrizeFreezeTx f fs s = (Inr x, fs', s')"
  shows "db_kyc s' = hold_prize f (db_kyc s)" "accounts s' = accounts s" "db_ledger s' = db_ledger s" "db_seq s' = db_seq s" "db_quinielas s' = db_quinielas s"
proof -
  obtain rows s1 fs1 where upd: "profile_update (\<lambda>p. kp_UserID p = pf_UserID f)
      (\<lambda>p. p\<lparr>kp_BalanceFrozen := True, kp_FrozenAmountCents := pf_AmountCents f, kp_FrozenReason := pf_Reason f\<rparr>) s = Inr (rows, s1)"
    and ev: "(case rows of [] \<Rightarrow> tx_ret ()
     | p # _ \<Rightarrow> tx_exec (event_insert (kyc_event (kp_ID p) KYCEventFrozen None (Some (kp_Status p)) (Some (kp_Status p)) (pf_Reason f)))) fs1 s1 = (Inr x, fs', s')"
    using assms unfolding applyPrizeFreezeTx_def tx_bind_run tx_exec_run by blast
  have "s' = s1 \<or> (\<exists>es. s' = s1\<lparr>db_kyc_events := es\<rparr>)"
    using ev by (cases rows) (auto simp: tx_runs event_insert_def split: if_splits)
  then show "db_kyc s' = hold_prize f (db_kyc s)" "accounts s' = accounts s" "db_ledger s' = db_ledger s" "db_seq s' = db_seq s" "db_quinielas s' = db_quinielas s"
    using profile_update_rows(1) [OF upd] by (auto simp: hold_prize_def accounts_def)
qed

lemma freezes_run:
  "tx_iter applyPrizeFreezeTx hs fs s = (Inr x, fs', s') \<Longrightarrow>
     quiet s s' \<and> db_kyc s' = fold hold_prize hs (db_kyc s) \<and> db_quinielas s' = db_quinielas s"
proof (induction hs arbitrary: fs s)
  case (Cons h hs)
  then obtain y fs1 s1 where c: "applyPrizeFreezeTx h fs s = (Inr y, fs1, s1)" and rest: "tx_iter applyPrizeFreezeTx hs fs1 s1 = (Inr x, fs', s')"
    by (auto simp: tx_runs)
  note p = applyPrizeFreezeTx_run [OF c]
  from Cons.IH [OF rest] show ?case by (simp add: p quiet_def)
qed (simp add: tx_runs quiet_def)

lemma lockAndMarkDistributed_run:
  assumes "lockAndMarkDistributed i fee fs s = (Inr x, fs', s')"
  shows "s' = s\<lparr>db_quinielas := update_where (\<lambda>q. q_ID q = i) (\<lambda>q. q\<lparr>q_PrizesDistributedAt := Some (db_now s)\<rparr>) (db_quinielas s)\<rparr>"
  using assms unfolding lockAndMarkDistributed_def by (auto simp: tx_runs tx_void_def quiniela_update_def split: option.splits if_splits)

definition distributed :: "int \<Rightarrow> Quiniela list \<Rightarrow> bool" where
  "distributed i qs \<longleftrightarrow> (\<forall>q\<in>set qs. q_ID q = i \<longrightarrow> q_PrizesDistributedAt q \<noteq> None)"

lemma distributed_mark: "distributed i (update_where (\<lambda>q. q_ID q = i) (\<lambda>q. q\<lparr>q_PrizesDistributedAt := Some t\<rparr>) qs)"
  by (induction qs) (simp_all add: distributed_def)

lemma DistributePrizesAtomically_run:
  assumes "DistributePrizesAtomically i fee cs hs fs s = (Inr x, fs', s')"
  shows "accounts s' = fold pay_credit cs (accounts s)" "bank_step\<^sup>*\<^sup>* s s'" "db_kyc s' = fold hold_prize hs (db_kyc s)" "distributed i (db_quinielas s')"
proof -
  obtain y z fs1 fs2 fs3 fs4 s1 s2 where l: "lockAndMarkDistributed i fee fs1 s = (Inr y, fs2, s1)" and c: "tx_iter applyPrizeCreditTx cs fs2 s1 = (Inr z, fs3, s2)"
    and h: "tx_iter applyPrizeFreezeTx hs fs3 s2 = (Inr x, fs4, s')"
    using withTx_Inr [OF assms [unfolded DistributePrizesAtomically_def]] by (auto simp: tx_runs)
  note m = lockAndMarkDistributed_run [OF l]
  have s1: "accounts s1 = accounts s" "db_kyc s1 = db_kyc s" by (simp_all add: m accounts_def)
  have s1': "quiet s s1" by (simp add: m accounts_def quiet_def)
  have s1'': "distributed i (db_quinielas s1)" by (simp add: m distributed_mark)
  note c' = credits_run [OF c] and h' = freezes_run [OF h]
  show "accounts s' = fold pay_credit cs (accounts s)" using c' h' s1(1) by (simp add: quiet_def)
  have "bank_step\<^sup>*\<^sup>* s s2" using c' bank_stepI(2) [OF s1'] by (auto intro: rtranclp_trans)
  then show "bank_step\<^sup>*\<^sup>* s s'" using h' by (auto intro: rtranclp_trans bank_stepI(2))
  show "db_kyc s' = fold hold_prize hs (db_kyc s)" using c' h' s1(2) by simp
  show "distributed i (db_quinielas s')" using c' h' s1'' by simp
qed

lemma GetLeaderboard_reads: "reads_only (GetLeaderboard order i)"
  unfolding reads_only_def GetLeaderboard_def GetQuinielaByID_def TotalPointsByQuiniela_def buildLeaderboard_def buildEntries_def fetchTiebreakerDistances_def
    CountActivePaid_def ListByIDs_def PredictionStatsByQuiniela_def Let_def
  by (intro allI tx_keep)

lemma DistributePrizes_run:
  assumes "DistributePrizes order i fs s = (Inr x, fs', s')"
  obtains q result fs1 fs2 fs3 cs hs where "get_quiniela s i = Some q" "GetLeaderboard order i fs1 s = (Inr result, fs2, s)"
    "lr_EligibleForPrizes result" "lr_WinnerCount result \<noteq> 0"
    "buildPrizeAllocations (lr_Entries result) i (go_quot (go64 (q_EntryFee q * lr_ActivePaidMembers result)) (lr_WinnerCount result))
       (go_rem (go64 (q_EntryFee q * lr_ActivePaidMembers result)) (lr_WinnerCount result)) = (cs, hs)"
    "DistributePrizesAtomically i (q_EntryFee q) cs hs fs3 s = (Inr x, fs', s')"
proof -
  obtain q fs1 result fs2 s2 where q: "get_quiniela s i = Some q" and lb: "GetLeaderboard order i fs1 s = (Inr result, fs2, s2)"
    and rest: "(if \<not> lr_EligibleForPrizes result \<or> lr_WinnerCount result = 0 then tx_err (Conflict ''quiniela is not eligible for prize distribution'')
           else let prizePool = go64 (q_EntryFee q * lr_ActivePaidMembers result);
                 prizePerWinner = go_quot prizePool (lr_WinnerCount result);
                 remainder = go_rem prizePool (lr_WinnerCount result);
                 (credits, freezes) = buildPrizeAllocations (lr_Entries result) i prizePerWinner remainder
             in DistributePrizesAtomically i (q_EntryFee q) credits freezes) fs2 s2 = (Inr x, fs', s')"
    using assms unfolding DistributePrizes_def GetGroup_def by (auto simp: tx_runs split: option.splits if_splits)
  have "s2 = s" by (rule reads_only_run [OF GetLeaderboard_reads lb])
  then show ?thesis using that q lb rest by (auto simp: tx_runs Let_def split: if_splits prod.splits)
qed

lemma DistributePrizes_error: "DistributePrizes order i fs s = (Inl e, fs', s') \<Longrightarrow> s' = s"
proof -
  have "atomic_op (DistributePrizes order i)"
    unfolding DistributePrizes_def DistributePrizesAtomically_def GetGroup_def Let_def case_prod_unfold
    by (intro tx_atomic) (auto simp: GetLeaderboard_reads atomic_op_iff tx_err_def dest: withTx_Inl)
  then show "DistributePrizes order i fs s = (Inl e, fs', s') \<Longrightarrow> s' = s" by (simp add: atomic_op_iff)
qed

interpretation prizes: money_op "DistributePrizes order i"
proof
  show "s' = s" if "DistributePrizes order i fs s = (Inl e, fs', s')" for fs s e fs' s' using that by (rule DistributePrizes_error)
  show "bank_step\<^sup>*\<^sup>* s s'" if "books s" "DistributePrizes order i fs s = (Inr a, fs', s')" for s fs a fs' s'
    by (rule DistributePrizes_run [OF that(2)]) (rule DistributePrizesAtomically_run(2))
qed

text \<open>Once marked, a group is never paid out again.\<close>
lemma distributed_blocks:
  assumes "distributed i (db_quinielas s)"
  shows "\<not> is_ok (fst (DistributePrizes order i fs s)) \<and> snd (snd (DistributePrizes order i fs s)) = s"
proof -
  obtain r fs' s' where run: "DistributePrizes order i fs s = (r, fs', s')" by (metis prod_cases3)
  have "\<not> is_ok r"
  proof
    assume "is_ok r"
    then obtain x where "r = Inr x" by (auto simp: is_ok_iff)
    with run obtain fee cs hs fs3 where "DistributePrizesAtomically i fee cs hs fs3 s = (Inr x, fs', s')" using DistributePrizes_run by metis
    then obtain fs1 y fs2 s1 where "lockAndMarkDistributed i fee fs1 s = (Inr y, fs2, s1)" unfolding DistributePrizesAtomically_def by (auto simp: tx_runs dest!: withTx_Inr)
    then obtain q where "find (\<lambda>q. q_ID q = i \<and> q_PrizesDistributedAt q = None \<and> q_DeletedAt q = None) (db_quinielas s) = Some q"
      unfolding lockAndMarkDistributed_def by (auto simp: tx_runs split: option.splits)
    from find_Some_in [OF this] assms show False by (auto simp: distributed_def)
  qed
  moreover from this have "s' = s" using run DistributePrizes_error by (cases r) (auto simp: is_ok_iff)
  ultimately show ?thesis using run by simp
qed

section \<open>What is paid\<close>

lemma pool_arith:
  assumes "0 < fee" "fee < 2 ^ 31" "0 \<le> n" "n < 2 ^ 31" "(0::int) < w"
  shows "go64 (fee * n) = fee * n" "go64 (fee * n div w + fee * n mod w) = fee * n div w + fee * n mod w"
proof -
  have "fee * n \<le> 2 ^ 31 * 2 ^ 31" by (rule mult_mono) (use assms in simp_all)
  then have n: "0 \<le> fee * n" "fee * n \<le> 2 ^ 31 * 2 ^ 31" using assms by simp_all
  then show "go64 (fee * n) = fee * n" by (intro go64_id) (simp add: in_int64_def MaxInt_def)
  have "fee * n div w * 1 \<le> fee * n div w * w" using n assms(5) by (intro mult_left_mono) (simp_all add: pos_imp_zdiv_nonneg_iff)
  then have "fee * n div w + fee * n mod w \<le> fee * n" using div_mult_mod_eq [of "fee * n" w] by linarith
  moreover have "0 \<le> fee * n div w + fee * n mod w" using n(1) assms(5) by (simp add: pos_imp_zdiv_nonneg_iff)
  ultimately show "go64 (fee * n div w + fee * n mod w) = fee * n div w + fee * n mod w"
    using n by (intro go64_id) (simp add: in_int64_def MaxInt_def)
qed

lemma sum_shares:
  assumes "xs \<noteq> []" "0 < (w::int)"
  shows "sum_mset (image_mset snd (mset (zip xs ((p div w + p mod w) # replicate (length xs - 1) (p div w))))) = p + (int (length xs) - w) * (p div w)"
proof -
  have len: "length xs = length ((p div w + p mod w) # replicate (length xs - 1) (p div w))" using assms(1) by (cases xs) auto
  have "sum_mset (image_mset snd (mset (zip xs ((p div w + p mod w) # replicate (length xs - 1) (p div w))))) =
      sum_list (map snd (zip xs ((p div w + p mod w) # replicate (length xs - 1) (p div w))))" by (metis mset_map sum_mset_sum_list)
  also have "\<dots> = p div w + p mod w + (int (length xs) - 1) * (p div w)"
    unfolding map_snd_zip [OF len] using assms(1) by (cases xs) (simp_all add: sum_list_replicate)
  also have "\<dots> = p + (int (length xs) - w) * (p div w)" using div_mult_mod_eq [of p w] by (simp add: algebra_simps)
  finally show ?thesis .
qed

text \<open>
  C17: prizes are paid once, in whole shares. When a distribution succeeds, every flagged winner gets the integer share of the pool and the
  first one also the remainder, as a credit or as a freeze, in one transaction that keeps the books; nobody else is paid. The total
  is the pool exactly when the number of winners equals the number of prize positions; with more winners, as after a tie,
  it exceeds the pool by a share for each. Afterwards every further distribution of the group fails and changes nothing.
\<close>
theorem DistributePrizes_pays_winners_once:
  assumes "books s" "DistributePrizes order i fs s = (Inr x, fs', s')" "get_quiniela s i = Some q"
    and "0 < q_EntryFee q" "q_EntryFee q < 2 ^ 31" "length (db_memberships s) < 2 ^ 31"
  shows "\<exists>result fs1 fs2 credits freezes. GetLeaderboard order i fs1 s = (Inr result, fs2, s) \<and>
    (let winners = winner_ids (lr_Entries result); pool = q_EntryFee q * lr_ActivePaidMembers result; w = lr_WinnerCount result in
      payouts (credits, freezes) = mset (zip winners ((pool div w + pool mod w) # replicate (length winners - 1) (pool div w))) \<and>
      (winners \<noteq> [] \<longrightarrow> sum_mset (image_mset snd (payouts (credits, freezes))) = pool + (int (length winners) - w) * (pool div w))) \<and>
    accounts s' = fold pay_credit credits (accounts s) \<and> db_kyc s' = fold hold_prize freezes (db_kyc s) \<and> books s' \<and>
    (\<forall>order' fs3 t. db_quinielas t = db_quinielas s' \<longrightarrow>
       \<not> is_ok (fst (DistributePrizes order' i fs3 t)) \<and> snd (snd (DistributePrizes order' i fs3 t)) = t)"
proof -
  obtain q' result fs1 fs2 fs3 cs hs where q': "get_quiniela s i = Some q'" and lb: "GetLeaderboard order i fs1 s = (Inr result, fs2, s)"
    and w0: "lr_WinnerCount result \<noteq> 0" and alloc: "buildPrizeAllocations (lr_Entries result) i (go_quot (go64 (q_EntryFee q' * lr_ActivePaidMembers result)) (lr_WinnerCount result))
       (go_rem (go64 (q_EntryFee q' * lr_ActivePaidMembers result)) (lr_WinnerCount result)) = (cs, hs)"
    and d: "DistributePrizesAtomically i (q_EntryFee q') cs hs fs3 s = (Inr x, fs', s')"
    by (rule DistributePrizes_run [OF assms(2)])
  let ?n = "lr_ActivePaidMembers result" and ?w = "lr_WinnerCount result" and ?W = "winner_ids (lr_Entries result)"
  obtain totals where "result = leaderboard_of s i totals" by (rule GetLeaderboard_run [OF lb])
  then have cnt: "?n = count_where (active_paid i) (db_memberships s)" "?w = WinnerCount ?n" by (simp_all add: leaderboard_of_def Let_def)
  have n: "0 \<le> ?n" "?n < 2 ^ 31" "0 < ?w"
    using count_where_le_length [of "active_paid i" "db_memberships s"] assms(6) w0 unfolding cnt by (simp_all add: WinnerCount_def split: if_splits)
  note ar = pool_arith [OF assms(4,5) n]
  have pos: "0 \<le> q_EntryFee q * ?n" using assms(4) n(1) by simp
  have q'': "q' = q" using q' assms(3) by simp
  have pay: "payouts (cs, hs) = mset (zip ?W ((q_EntryFee q * ?n div ?w + q_EntryFee q * ?n mod ?w) # replicate (length ?W - 1) (q_EntryFee q * ?n div ?w)))"
    using buildPrizeAllocations_shares [of "lr_Entries result" i "q_EntryFee q * ?n div ?w" "q_EntryFee q * ?n mod ?w"]
      alloc [unfolded q'' ar(1) go_quot_nonneg [OF pos n(3)] go_rem_nonneg [OF pos n(3)]] by (simp add: ar(2))
  note r = DistributePrizesAtomically_run [OF d]
  have "\<not> is_ok (fst (DistributePrizes order' i fs3 t)) \<and> snd (snd (DistributePrizes order' i fs3 t)) = t" if "db_quinielas t = db_quinielas s'" for order' fs3 t
    by (rule distributed_blocks) (simp add: that r(4))
  then show ?thesis using lb pay r(1,3) bank_steps_books [OF r(2) assms(1)] sum_shares [of ?W ?w "q_EntryFee q * ?n"] n(3)
    by (intro exI [of _ result] exI [of _ fs1] exI [of _ fs2] exI [of _ cs] exI [of _ hs]) (auto simp: Let_def)
qed

definition example_prize_db :: db where
  "example_prize_db = empty_db\<lparr>db_seq := 10, db_quinielas := [example_quiniela], db_memberships := map example_member [1, 2, 3, 4, 5],
     db_users := [1 \<mapsto> (example_user 1)\<lparr>u_KYCTier := 2\<rparr>, 2 \<mapsto> example_user 2, 3 \<mapsto> example_user 3, 4 \<mapsto> example_user 4, 5 \<mapsto> example_user 5],
     db_kyc := map (\<lambda>i. (blank_profile i)\<lparr>kp_ID := i\<rparr>) [2, 3, 4, 5]\<rparr>"

lemma example_prize_books: "books example_prize_db"
  by (auto simp: books_def example_prize_db_def empty_db_def example_user_def running_totals_def in_int32_def split: if_splits)

definition example_credits :: "PrizeCredit list" where
  "example_credits = [\<lparr>pc_UserID = 1, pc_AmountCents = 7500, pc_RefID = 1, pc_RefType = ''quiniela''\<rparr>]"

definition example_freezes :: "string \<Rightarrow> PrizeFreeze list" where
  "example_freezes reason = map (\<lambda>i. \<lparr>pf_UserID = i, pf_AmountCents = 7500, pf_Reason = reason\<rparr>) [2, 3, 4, 5]"

lemma example_leaders:
  obtains R fs where "GetLeaderboard id 1 [] example_prize_db = (Inr R, [], example_prize_db)" "lr_EligibleForPrizes R" "lr_ActivePaidMembers R = 5"
    "lr_WinnerCount R = 2" "winner_ids (lr_Entries R) = [1, 2, 3, 4, 5]" "buildPrizeAllocations (lr_Entries R) 1 7500 0 = (example_credits, example_freezes (freeze_reason 7500))"
proof -
  let ?L = "GetLeaderboard id 1 [] example_prize_db"
  let ?R = "projr (fst ?L)"
  have ok: "is_ok (fst ?L) \<and> fst (snd ?L) = []" by code_simp
  have f: "lr_EligibleForPrizes ?R \<and> lr_ActivePaidMembers ?R = 5 \<and> lr_WinnerCount ?R = 2 \<and>
      map (\<lambda>e. (le_PrizeWinner e, u_ID (le_User e), u_KYCTier (le_User e))) (lr_Entries ?R) = [(True, 1, 2), (True, 2, 0), (True, 3, 0), (True, 4, 0), (True, 5, 0)]"
    by code_simp
  have go: "go64 7500 = 7500" by (simp add: go64_def)
  have run: "?L = (Inr ?R, [], example_prize_db)" using is_ok_run [OF conjunct1 [OF ok]] ok reads_only_run [OF GetLeaderboard_reads] by metis
  have "buildPrizeAllocations (lr_Entries ?R) 1 7500 0 = (example_credits, example_freezes (freeze_reason 7500))" 
    using f by (auto simp: map_eq_Cons_conv buildPrizeAllocations_def allocate_def example_credits_def example_freezes_def KYCTierTwo_def go)
  moreover have "winner_ids (lr_Entries ?R) = [1, 2, 3, 4, 5]" using f by (auto simp: winner_ids_def map_eq_Cons_conv)
  ultimately show ?thesis using that run f by blast
qed

lemma example_distribution: "fst (DistributePrizesAtomically 1 3000 example_credits (example_freezes reason) [] example_prize_db) = Inr ()"
  by code_simp

lemma example_prizes_ok: "fst (DistributePrizes id 1 [] example_prize_db) = Inr ()"
proof -
  obtain R where R: "GetLeaderboard id 1 [] example_prize_db = (Inr R, [], example_prize_db)" "lr_EligibleForPrizes R" "lr_ActivePaidMembers R = 5"
    "lr_WinnerCount R = 2" "buildPrizeAllocations (lr_Entries R) 1 7500 0 = (example_credits, example_freezes (freeze_reason 7500))"
    by (rule example_leaders)
  have "go_quot (go64 15000) 2 = 7500" "go_rem (go64 15000) 2 = 0" by code_simp+
  moreover have "get_quiniela example_prize_db 1 = Some example_quiniela" "q_EntryFee example_quiniela = 3000" by code_simp+
  then have "GetGroup 1 [] example_prize_db = (Inr (Some example_quiniela), [], example_prize_db)" "q_EntryFee example_quiniela = 3000"
    by (simp_all add: GetGroup_def tx_defs example_quiniela_def)
  ultimately show ?thesis by (simp add: DistributePrizes_def tx_bind_def R example_distribution)
qed

text \<open>Five members pay 3000 each and all tie for the first of two positions: 37500 are paid out of a pool of 15000.\<close>
theorem DistributePrizes_pays_winners_once_witness:
  "\<exists>credits freezes. accounts (snd (snd (DistributePrizes id 1 [] example_prize_db))) = fold pay_credit credits (accounts example_prize_db) \<and>
     sum_mset (image_mset snd (payouts (credits, freezes))) = 37500 \<and>
     \<not> is_ok (fst (DistributePrizes id 1 [] (snd (snd (DistributePrizes id 1 [] example_prize_db)))))"
proof -
  let ?r = "DistributePrizes id 1 [] example_prize_db"
  obtain R fs where R: "GetLeaderboard id 1 [] example_prize_db = (Inr R, fs, example_prize_db)" "lr_ActivePaidMembers R = 5"
    "lr_WinnerCount R = 2" "winner_ids (lr_Entries R) = [1, 2, 3, 4, 5]" by (rule example_leaders)
  have lead: "result = R" if "GetLeaderboard id 1 fs1 example_prize_db = (Inr result, fs2, example_prize_db)" for fs1 result fs2
    using GetLeaderboard_run [OF that] GetLeaderboard_run [OF R(1)] by (metis option.inject)
  have q: "get_quiniela example_prize_db 1 = Some example_quiniela" by code_simp
  have fee: "q_EntryFee example_quiniela = 3000" "length (db_memberships example_prize_db) < 2 ^ 31"
    by (simp_all add: example_quiniela_def example_prize_db_def)
  obtain result fs1 fs2 credits freezes where
    r: "GetLeaderboard id 1 fs1 example_prize_db = (Inr result, fs2, example_prize_db)"
      "winner_ids (lr_Entries result) \<noteq> [] \<longrightarrow> sum_mset (image_mset snd (payouts (credits, freezes))) =
         3000 * lr_ActivePaidMembers result + (int (length (winner_ids (lr_Entries result))) - lr_WinnerCount result) * (3000 * lr_ActivePaidMembers result div lr_WinnerCount result)"
      "accounts (snd (snd ?r)) = fold pay_credit credits (accounts example_prize_db)" "\<not> is_ok (fst (DistributePrizes id 1 [] (snd (snd ?r))))"
    using DistributePrizes_pays_winners_once [OF example_prize_books run_eta [OF example_prizes_ok] q, unfolded Let_def fee(1)] fee(2)
    by (elim meta_impE) (simp, simp, assumption, blast)
  moreover have "sum_mset (image_mset snd (payouts (credits, freezes))) = 37500" using r(2) R(2-4) lead [OF r(1)] by simp
  ultimately show ?thesis by blast
qed

end
