(* ===== verification/Outbox.thy ===== *)
theory Outbox
  imports Database
begin

text \<open>
  The transactional outbox of the notification subsystem (\<^verbatim>\<open>internal/notification/outbox\<close>): the writer, the
  repository, the dispatch worker with its exponential back-off, and the replay of the dead-letter
  queue (\<^verbatim>\<open>dlq_worker.go\<close>, \<^verbatim>\<open>repository/notification_dlq_repository.go\<close>).

  The dispatcher and the clock are outside: a delivery attempt is a function from the entry to
  an optional error text (a recovered panic is an error), a different one in every cycle, and the log
  \<open>ox_sent\<close> records the attempts. A payload is given by its JSON text, \<open>None\<close> when it cannot be marshalled.
  \<^verbatim>\<open>rand.Int64N\<close> is the field \<open>w_rnd\<close> of the configuration. Rows with the same \<^verbatim>\<open>scheduled_at\<close> are claimed in the
  order of the table, which SQL leaves open. Log lines, metrics and lag alerts are left out.
\<close>

type_synonym EventType = string

datatype OutboxStatus = OutboxStatusPending | OutboxStatusProcessing | OutboxStatusDone | OutboxStatusFailed

record OutboxEntry =
  ob_ID :: int
  ob_EventType :: EventType
  ob_AggregateID :: string
  ob_AggregateType :: string
  ob_Payload :: string
  ob_Status :: OutboxStatus
  ob_Attempts :: int
  ob_MaxAttempts :: int
  ob_ScheduledAt :: time
  ob_LockedUntil :: "time option"
  ob_ProcessedAt :: "time option"
  ob_ErrorDetail :: "string option"
  ob_CreatedAt :: time
  ob_DedupKey :: "string option"

record NotificationDLQEntry =
  dlq_ID :: int
  dlq_Channel :: string
  dlq_EventType :: EventType
  dlq_Payload :: string
  dlq_ErrorDetail :: string
  dlq_Attempts :: int
  dlq_CreatedAt :: time
  dlq_LastRetryAt :: "time option"
  dlq_ResolvedAt :: "time option"

record outbox_db =
  ox_now :: time
  ox_seq :: int
  ox_rows :: "OutboxEntry list"
  ox_dlq :: "NotificationDLQEntry list"
  ox_sent :: "(int \<times> bool) list"

type_synonym 'a oxprog = "(outbox_db, 'a) prog"

section \<open>The table\<close>

text \<open>The key of the partial unique index over pending rows (migration 000093).\<close>
definition event_key :: "OutboxEntry \<Rightarrow> string \<times> string \<times> string" where
  "event_key e = (ob_AggregateType e, ob_AggregateID e, ob_EventType e)"

definition is_pending :: "OutboxEntry \<Rightarrow> bool" where
  "is_pending e \<longleftrightarrow> ob_Status e = OutboxStatusPending"

definition pending_unique :: "OutboxEntry list \<Rightarrow> bool" where
  "pending_unique rows \<longleftrightarrow> distinct (map event_key (filter is_pending rows))"

text \<open>An \<^verbatim>\<open>UPDATE\<close>, refused when it violates the index.\<close>
definition outbox_update :: "(OutboxEntry \<Rightarrow> bool) \<Rightarrow> (OutboxEntry \<Rightarrow> OutboxEntry) \<Rightarrow> outbox_db \<Rightarrow> go_error + int \<times> outbox_db" where
  "outbox_update p f s = (let rows = update_where p f (ox_rows s) in
     if \<not> pending_unique rows then Inl (PgError ''23505'')
     else Inr (int (length (filter p (ox_rows s))), s\<lparr>ox_rows := rows\<rparr>))"

text \<open>\<^verbatim>\<open>INSERT ... ON CONFLICT DO NOTHING\<close>: whether a row was written.\<close>
definition outbox_insert :: "OutboxEntry \<Rightarrow> outbox_db \<Rightarrow> go_error + bool \<times> outbox_db" where
  "outbox_insert e s =
    (if (\<exists>r\<in>set (ox_rows s). is_pending r \<and> event_key r = event_key e) \<or>
        (ob_DedupKey e \<noteq> None \<and> ob_DedupKey e \<in> set (map ob_DedupKey (ox_rows s))) then Inr (False, s)
     else Inr (True, s\<lparr>ox_rows := ox_rows s @ [e\<lparr>ob_ID := ox_seq s, ob_CreatedAt := ox_now s\<rparr>], ox_seq := ox_seq s + 1\<rparr>))"

section \<open>Writer\<close>

definition SyntheticEvents :: "EventType list" where
  "SyntheticEvents = [''leaderboard.updated'']"

definition rejectSynthetic :: "EventType \<Rightarrow> unit result" where
  "rejectSynthetic eventType = (if eventType \<in> set SyntheticEvents
     then Inl (Raw (OtherError (''outbox: synthetic event: '' @ eventType))) else Inr ())"

definition NewOutboxEntry :: "EventType \<Rightarrow> string \<Rightarrow> string \<Rightarrow> string option \<Rightarrow> time \<Rightarrow> OutboxEntry result" where
  "NewOutboxEntry eventType aggregateType aggregateID payload now = (case payload of
     None \<Rightarrow> Inl (Validation ''outbox: cannot marshal payload'')
   | Some raw \<Rightarrow> Inr \<lparr>ob_ID = 0, ob_EventType = eventType, ob_AggregateID = aggregateID, ob_AggregateType = aggregateType, ob_Payload = raw,
       ob_Status = OutboxStatusPending, ob_Attempts = 0, ob_MaxAttempts = 5, ob_ScheduledAt = now, ob_LockedUntil = None,
       ob_ProcessedAt = None, ob_ErrorDetail = None, ob_CreatedAt = now, ob_DedupKey = None\<rparr>)"

record BatchEvent =
  be_EventType :: EventType
  be_AggregateType :: string
  be_AggregateID :: string
  be_Payload :: "string option"

definition WriteInTx :: "BatchEvent \<Rightarrow> unit oxprog" where
  "WriteInTx e =
     tx_bind (tx_lift (rejectSynthetic (be_EventType e))) (\<lambda>_.
     tx_bind (tx_read ox_now) (\<lambda>now.
     tx_bind (tx_lift (NewOutboxEntry (be_EventType e) (be_AggregateType e) (be_AggregateID e) (be_Payload e) now)) (\<lambda>entry.
     tx_void (tx_exec (outbox_insert entry)))))"

text \<open>\<^verbatim>\<open>Write\<close> runs the same statement outside a transaction.\<close>
definition Write :: "BatchEvent \<Rightarrow> unit oxprog" where
  "Write e = WriteInTx e"

definition WriteBatch :: "BatchEvent list \<Rightarrow> unit oxprog" where
  "WriteBatch events = (if events = [] then tx_ret () else withTx (tx_iter WriteInTx events))"

definition WriteDedup :: "string \<Rightarrow> BatchEvent \<Rightarrow> bool oxprog" where
  "WriteDedup dedupKey e =
     tx_bind (tx_lift (rejectSynthetic (be_EventType e))) (\<lambda>_.
     tx_bind (tx_read ox_now) (\<lambda>now.
     tx_bind (tx_lift (NewOutboxEntry (be_EventType e) (be_AggregateType e) (be_AggregateID e) (be_Payload e) now)) (\<lambda>entry.
     tx_exec (outbox_insert (entry\<lparr>ob_DedupKey := Some dedupKey\<rparr>)))))"

section \<open>Repository\<close>

definition due :: "time \<Rightarrow> OutboxEntry \<Rightarrow> bool" where
  "due now e \<longleftrightarrow> is_pending e \<and> ob_ScheduledAt e \<le> now"

definition candidates :: "int \<Rightarrow> outbox_db \<Rightarrow> OutboxEntry list" where
  "candidates lim s = take (nat lim) (sort_key ob_ScheduledAt (filter (due (ox_now s)) (ox_rows s)))"

definition claim :: "time \<Rightarrow> OutboxEntry \<Rightarrow> OutboxEntry" where
  "claim until e = e\<lparr>ob_Status := OutboxStatusProcessing, ob_LockedUntil := Some until, ob_Attempts := ob_Attempts e + 1\<rparr>"

text \<open>The column \<^verbatim>\<open>attempts\<close> is a \<^verbatim>\<open>SMALLINT\<close>.\<close>
definition claim_batch :: "int \<Rightarrow> duration \<Rightarrow> outbox_db \<Rightarrow> go_error + OutboxEntry list \<times> outbox_db" where
  "claim_batch lim lockDuration s = (let cs = candidates lim s; until = ox_now s + lockDuration in
     if lim < 0 then Inl (PgError ''2201W'')
     else if \<exists>e\<in>set cs. ob_Attempts e \<ge> 32767 then Inl (PgError ''22003'')
     else Inr (map (claim until) cs, s\<lparr>ox_rows := update_where (\<lambda>e. ob_ID e \<in> ob_ID ` set cs) (claim until) (ox_rows s)\<rparr>))"

definition ClaimBatch :: "int \<Rightarrow> duration \<Rightarrow> OutboxEntry list oxprog" where
  "ClaimBatch lim lockDuration = tx_exec (claim_batch lim lockDuration)"

definition set_done :: "time \<Rightarrow> OutboxEntry \<Rightarrow> OutboxEntry" where
  "set_done now e = e\<lparr>ob_Status := OutboxStatusDone, ob_ProcessedAt := Some now, ob_LockedUntil := None\<rparr>"

definition set_failed :: "time \<Rightarrow> string \<Rightarrow> OutboxEntry \<Rightarrow> OutboxEntry" where
  "set_failed now detail e = e\<lparr>ob_Status := OutboxStatusFailed, ob_ErrorDetail := Some detail, ob_ProcessedAt := Some now, ob_LockedUntil := None\<rparr>"

definition set_pending :: "time \<Rightarrow> OutboxEntry \<Rightarrow> OutboxEntry" where
  "set_pending at e = e\<lparr>ob_Status := OutboxStatusPending, ob_ScheduledAt := at, ob_LockedUntil := None\<rparr>"

definition release :: "OutboxEntry \<Rightarrow> OutboxEntry" where
  "release e = e\<lparr>ob_Status := OutboxStatusPending, ob_LockedUntil := None\<rparr>"

definition MarkDone :: "int \<Rightarrow> unit oxprog" where
  "MarkDone i = tx_void (tx_exec (\<lambda>s. outbox_update (\<lambda>e. ob_ID e = i) (set_done (ox_now s)) s))"

definition MarkFailed :: "int \<Rightarrow> string \<Rightarrow> unit oxprog" where
  "MarkFailed i errorDetail = tx_void (tx_exec (\<lambda>s. outbox_update (\<lambda>e. ob_ID e = i) (set_failed (ox_now s) errorDetail) s))"

definition Schedule :: "int \<Rightarrow> time \<Rightarrow> unit oxprog" where
  "Schedule i scheduledAt = tx_void (tx_exec (outbox_update (\<lambda>e. ob_ID e = i) (set_pending scheduledAt)))"

definition stale :: "time \<Rightarrow> duration \<Rightarrow> OutboxEntry \<Rightarrow> bool" where
  "stale now staleThreshold e \<longleftrightarrow> ob_Status e = OutboxStatusProcessing \<and>
     (case ob_LockedUntil e of None \<Rightarrow> False | Some t \<Rightarrow> t < now - staleThreshold)"

definition UnlockStale :: "duration \<Rightarrow> int oxprog" where
  "UnlockStale staleThreshold = tx_exec (\<lambda>s. outbox_update (stale (ox_now s) staleThreshold) release s)"

definition CountPending :: "int oxprog" where
  "CountPending = tx_query (\<lambda>s. int (length (filter (due (ox_now s)) (ox_rows s))))"

section \<open>The dispatch worker\<close>

record Worker =
  w_batchSize :: int
  w_lockDuration :: duration
  w_maxAttempts :: int
  w_staleThreshold :: duration
  w_rnd :: "int \<Rightarrow> int"

type_synonym dispatcher = "OutboxEntry \<Rightarrow> string option"

definition five_minutes :: duration where
  "five_minutes = 5 * 60 * 10 ^ 9"

text \<open>\<^verbatim>\<open>1 << n\<close> on a 64-bit integer, and the delay before the next attempt; \<open>None\<close> is the panic of \<^verbatim>\<open>rand.Int64N\<close>.\<close>
definition shift_one :: "int \<Rightarrow> int" where
  "shift_one n = go64 (2 ^ nat n)"

definition backoff :: "(int \<Rightarrow> int) \<Rightarrow> int \<Rightarrow> duration option" where
  "backoff rnd attempts = (let full = min (go64 (shift_one attempts * 10 ^ 9)) five_minutes; half = go_quot full 2 in
     if go64 (half + 1) \<le> 0 then None else Some (go64 (half + rnd (go64 (half + 1)))))"

text \<open>\<^verbatim>\<open>safeDispatch\<close>: the outcome of the delivery, recorded in the log of attempts.\<close>
definition safeDispatch :: "dispatcher \<Rightarrow> OutboxEntry \<Rightarrow> string option oxprog" where
  "safeDispatch dispatch entry = (\<lambda>fs s. (Inr (dispatch entry), fs, s\<lparr>ox_sent := ox_sent s @ [(ob_ID entry, dispatch entry = None)]\<rparr>))"

definition panic :: "string \<Rightarrow> 'a oxprog" where
  "panic msg = tx_err (Raw (OtherError (''panic: '' @ msg)))"

definition process :: "Worker \<Rightarrow> dispatcher \<Rightarrow> OutboxEntry \<Rightarrow> unit oxprog" where
  "process w dispatch entry =
     tx_bind (safeDispatch dispatch entry) (\<lambda>r. case r of
       Some err \<Rightarrow>
         if ob_Attempts entry \<ge> w_maxAttempts w then tx_ignore (MarkFailed (ob_ID entry) err)
         else (case backoff (w_rnd w) (ob_Attempts entry) of
             None \<Rightarrow> panic ''invalid argument to Int64N''
           | Some delay \<Rightarrow> tx_bind (tx_read ox_now) (\<lambda>now. tx_ignore (Schedule (ob_ID entry) (now + delay))))
     | None \<Rightarrow> tx_ignore (MarkDone (ob_ID entry)))"

definition poll :: "Worker \<Rightarrow> dispatcher \<Rightarrow> unit oxprog" where
  "poll w dispatch = tx_bind (ClaimBatch (w_batchSize w) (w_lockDuration w)) (tx_iter (process w dispatch))"

definition unlockStale :: "Worker \<Rightarrow> unit oxprog" where
  "unlockStale w = tx_ignore (tx_void (UnlockStale (w_staleThreshold w)))"

text \<open>
  One round of the loop of \<^verbatim>\<open>Run\<close>, after a wait of \<open>d\<close>. An error of the poll is logged; after a panic the
  process restarts, which is the next round.
\<close>
definition tick :: "Worker \<Rightarrow> duration \<Rightarrow> dispatcher \<Rightarrow> unit oxprog" where
  "tick w d dispatch =
     tx_bind (\<lambda>fs s. (Inr (), fs, s\<lparr>ox_now := ox_now s + d\<rparr>)) (\<lambda>_.
     tx_bind (unlockStale w) (\<lambda>_. tx_ignore (poll w dispatch)))"

section \<open>Replay of the dead-letter queue\<close>

definition dlq_due :: "time \<Rightarrow> int \<Rightarrow> NotificationDLQEntry \<Rightarrow> bool" where
  "dlq_due now maxAttempts e \<longleftrightarrow> dlq_ResolvedAt e = None \<and> dlq_Attempts e < maxAttempts \<and>
     (case dlq_LastRetryAt e of None \<Rightarrow> True | Some t \<Rightarrow> t < now - 10 ^ 9 * 2 ^ nat (dlq_Attempts e))"

definition DLQClaimBatch :: "int \<Rightarrow> int \<Rightarrow> NotificationDLQEntry list oxprog" where
  "DLQClaimBatch lim maxAttempts = tx_exec (\<lambda>s. if lim < 0 then Inl (PgError ''2201W'')
     else Inr (take (nat lim) (sort_key dlq_CreatedAt (filter (dlq_due (ox_now s) maxAttempts) (ox_dlq s))), s))"

definition DLQInsert :: "NotificationDLQEntry \<Rightarrow> unit oxprog" where
  "DLQInsert e = tx_exec (\<lambda>s. if dlq_Channel e \<notin> {''email'', ''push'', ''sse''} then Inl (PgError ''23514'')
     else Inr ((), s\<lparr>ox_dlq := ox_dlq s @ [e\<lparr>dlq_ID := ox_seq s, dlq_Attempts := 1, dlq_CreatedAt := ox_now s, dlq_LastRetryAt := None, dlq_ResolvedAt := None\<rparr>],
       ox_seq := ox_seq s + 1\<rparr>))"

definition MarkResolved :: "int \<Rightarrow> unit oxprog" where
  "MarkResolved i = tx_exec (\<lambda>s. Inr ((), s\<lparr>ox_dlq := update_where (\<lambda>e. dlq_ID e = i) (\<lambda>e. e\<lparr>dlq_ResolvedAt := Some (ox_now s)\<rparr>) (ox_dlq s)\<rparr>))"

definition RecordFailure :: "int \<Rightarrow> string \<Rightarrow> unit oxprog" where
  "RecordFailure i errDetail = tx_exec (\<lambda>s.
     if \<exists>e\<in>set (ox_dlq s). dlq_ID e = i \<and> dlq_Attempts e \<ge> 32767 then Inl (PgError ''22003'')
     else Inr ((), s\<lparr>ox_dlq := update_where (\<lambda>e. dlq_ID e = i)
       (\<lambda>e. e\<lparr>dlq_Attempts := dlq_Attempts e + 1, dlq_LastRetryAt := Some (ox_now s), dlq_ErrorDetail := errDetail\<rparr>) (ox_dlq s)\<rparr>))"

definition CountUnresolved :: "int oxprog" where
  "CountUnresolved = tx_query (\<lambda>s. int (length (filter (\<lambda>e. dlq_ResolvedAt e = None) (ox_dlq s))))"

text \<open>The text of the error is passed as \<open>errText\<close>.\<close>
definition dlq_process :: "(app_error \<Rightarrow> string) \<Rightarrow> NotificationDLQEntry \<Rightarrow> unit oxprog" where
  "dlq_process errText entry =
     tx_try (Write \<lparr>be_EventType = dlq_EventType entry, be_AggregateType = ''dlq_replay'', be_AggregateID = ''dlq-'' @ Itoa (dlq_ID entry),
         be_Payload = Some (dlq_Payload entry)\<rparr>)
       (\<lambda>err. tx_ignore (RecordFailure (dlq_ID entry) (errText err)))
       (\<lambda>_. tx_ignore (MarkResolved (dlq_ID entry)))"

definition dlq_poll :: "(app_error \<Rightarrow> string) \<Rightarrow> int \<Rightarrow> int \<Rightarrow> unit oxprog" where
  "dlq_poll errText batchSize maxAttempts =
     tx_bind (tx_ignore (tx_void CountUnresolved)) (\<lambda>_.
     tx_try (DLQClaimBatch batchSize maxAttempts) (\<lambda>_. tx_ret ()) (tx_iter (dlq_process errText)))"

section \<open>The queue drains\<close>

definition unfinished :: "OutboxEntry \<Rightarrow> bool" where
  "unfinished e \<longleftrightarrow> ob_Status e = OutboxStatusPending \<or> ob_Status e = OutboxStatusProcessing"

definition steps_left :: "Worker \<Rightarrow> OutboxEntry \<Rightarrow> nat" where
  "steps_left w e = (if unfinished e then nat (max 1 (w_maxAttempts w + 1 - ob_Attempts e)) else 0)"

definition work :: "Worker \<Rightarrow> outbox_db \<Rightarrow> nat" where
  "work w s = (\<Sum>e\<leftarrow>ox_rows s. steps_left w e)"

definition keys_distinct :: "OutboxEntry list \<Rightarrow> bool" where
  "keys_distinct rows \<longleftrightarrow> distinct (map event_key (filter unfinished rows))"

definition worker_ok :: "Worker \<Rightarrow> bool" where
  "worker_ok w \<longleftrightarrow> 1 \<le> w_batchSize w \<and> 0 \<le> w_lockDuration w \<and> 0 \<le> w_staleThreshold w \<and> 1 \<le> w_maxAttempts w \<and> w_maxAttempts w \<le> 20 \<and>
     (\<forall>n>0. 0 \<le> w_rnd w n \<and> w_rnd w n < n)"

definition row_calm :: "Worker \<Rightarrow> time \<Rightarrow> OutboxEntry \<Rightarrow> bool" where
  "row_calm w now e \<longleftrightarrow> (unfinished e \<longrightarrow> 0 \<le> ob_Attempts e \<and> ob_Attempts e < 32767 \<and> ob_ScheduledAt e \<le> now + five_minutes \<and>
     (ob_Status e = OutboxStatusProcessing \<longrightarrow> (\<exists>t. ob_LockedUntil e = Some t \<and> t \<le> now + w_lockDuration w)))"

definition calm :: "Worker \<Rightarrow> outbox_db \<Rightarrow> bool" where
  "calm w s \<longleftrightarrow> distinct (map ob_ID (ox_rows s)) \<and> keys_distinct (ox_rows s) \<and> (\<forall>e\<in>set (ox_rows s). row_calm w (ox_now s) e)"

definition patient :: "Worker \<Rightarrow> duration \<Rightarrow> bool" where
  "patient w d \<longleftrightarrow> five_minutes \<le> d \<and> w_lockDuration w + w_staleThreshold w < d"

lemma backoff_bounds:
  assumes "worker_ok w" "0 \<le> a" "a < w_maxAttempts w"
  obtains d where "backoff (w_rnd w) a = Some d" "0 \<le> d" "d \<le> five_minutes"
proof -
  have "(2::int) ^ nat a \<le> 2 ^ 20" using assms by (intro power_increasing) (auto simp: worker_ok_def)
  moreover have "go64 p = p" "go64 (p * 10 ^ 9) = p * 10 ^ 9" if "0 \<le> p" "p \<le> 2 ^ 20" for p :: int
    using that by (auto intro!: go64_id simp: in_int64_def MaxInt_def)
  ultimately have sh: "shift_one a = 2 ^ nat a" "go64 (2 ^ nat a * 10 ^ 9) = 2 ^ nat a * 10 ^ 9" unfolding shift_one_def by simp_all
  define full where "full = min (2 ^ nat a * 10 ^ 9) five_minutes"
  define half where "half = go_quot full 2"
  have f: "0 \<le> full" "full \<le> five_minutes" by (auto simp: full_def five_minutes_def)
  then have h: "half = full div 2" unfolding half_def by (intro go_quot_nonneg) simp_all
  then have h2: "0 \<le> half" "2 * half \<le> full" using f by auto
  have g: "go64 (half + 1) = half + 1" using h2 f by (intro go64_id) (auto simp: in_int64_def MaxInt_def five_minutes_def)
  have r: "0 \<le> w_rnd w (half + 1)" "w_rnd w (half + 1) \<le> half" using assms(1) h2(1) unfolding worker_ok_def by (auto dest!: spec [of _ "half + 1"])
  have g2: "go64 (half + w_rnd w (half + 1)) = half + w_rnd w (half + 1)"
    using h2 f r by (intro go64_id) (auto simp: in_int64_def MaxInt_def five_minutes_def)
  have "backoff (w_rnd w) a = Some (half + w_rnd w (half + 1))"
    unfolding backoff_def Let_def sh full_def [symmetric] half_def [symmetric] g g2 using h2(1) by simp
  then show ?thesis using that [of "half + w_rnd w (half + 1)"] r h2 f by simp
qed

lemma keys_distinct_update:
  assumes "keys_distinct rows" "\<And>r. r \<in> set rows \<Longrightarrow> p r \<Longrightarrow> event_key (f r) = event_key r \<and> (unfinished (f r) \<longrightarrow> unfinished r)"
  shows "keys_distinct (update_where p f rows)"
proof -
  have "distinct (map event_key (filter unfinished (update_where p f rows))) \<and>
      set (map event_key (filter unfinished (update_where p f rows))) \<subseteq> set (map event_key (filter unfinished rows))"
    using assms
  proof (induction rows)
    case (Cons r rows)
    have IH: "distinct (map event_key (filter unfinished (update_where p f rows)))"
      "set (map event_key (filter unfinished (update_where p f rows))) \<subseteq> set (map event_key (filter unfinished rows))"
      using Cons by (auto simp: keys_distinct_def split: if_splits)
    have r: "p r \<Longrightarrow> event_key (f r) = event_key r" "p r \<Longrightarrow> unfinished (f r) \<Longrightarrow> unfinished r" using Cons.prems(2) by auto
    have "unfinished r \<Longrightarrow> event_key r \<notin> set (map event_key (filter unfinished (update_where p f rows)))"
      using Cons.prems(1) IH(2) by (auto simp only: keys_distinct_def filter.simps list.map distinct.simps if_True)
    then show ?case using IH r by (simp, blast)
  qed simp
  then show ?thesis by (simp add: keys_distinct_def)
qed

lemma keys_distinct_pending: "keys_distinct rows \<Longrightarrow> pending_unique rows"
proof (induction rows)
  case (Cons r rows)
  have "set (map event_key (filter is_pending rows)) \<subseteq> set (map event_key (filter unfinished rows))"
    by (auto simp: is_pending_def unfinished_def)
  then show ?case using Cons by (auto simp: keys_distinct_def pending_unique_def unfinished_def is_pending_def split: if_splits)
qed (simp add: pending_unique_def)

lemma event_key_set [simp]:
  "event_key (claim t e) = event_key e" "event_key (set_done t e) = event_key e" "event_key (set_failed t m e) = event_key e"
  "event_key (set_pending t e) = event_key e" "event_key (release e) = event_key e"
  by (simp_all add: event_key_def claim_def set_done_def set_failed_def set_pending_def release_def)

lemma ob_ID_set [simp]:
  "ob_ID (claim t e) = ob_ID e" "ob_ID (set_done t e) = ob_ID e" "ob_ID (set_failed t m e) = ob_ID e"
  "ob_ID (set_pending t e) = ob_ID e" "ob_ID (release e) = ob_ID e"
  by (simp_all add: claim_def set_done_def set_failed_def set_pending_def release_def)

text \<open>What a dispatch does to the row of a claimed entry when no statement fails.\<close>
definition settle :: "Worker \<Rightarrow> dispatcher \<Rightarrow> time \<Rightarrow> OutboxEntry \<Rightarrow> OutboxEntry" where
  "settle w dispatch now e = (case dispatch e of
     None \<Rightarrow> set_done now e
   | Some err \<Rightarrow> if ob_Attempts e \<ge> w_maxAttempts w then set_failed now err e
       else set_pending (now + the (backoff (w_rnd w) (ob_Attempts e))) e)"

lemma settle_simps [simp]: "ob_ID (settle w dp now e) = ob_ID e" "event_key (settle w dp now e) = event_key e"
  by (simp_all add: settle_def split: option.split)

lemma update_where_same: "(\<And>r. r \<in> set rows \<Longrightarrow> p r = p' r \<and> (p r \<longrightarrow> f r = f' r)) \<Longrightarrow> update_where p f rows = update_where p' f' rows"
  by (auto simp: update_where_def)

lemma distinct_ids_eq: "distinct (map ob_ID rows) \<Longrightarrow> e \<in> set rows \<Longrightarrow> r \<in> set rows \<Longrightarrow> ob_ID r = ob_ID e \<Longrightarrow> r = e"
  by (metis distinct_map inj_onD)

lemma ignored_update:
  assumes "keys_distinct (ox_rows s)" "\<And>r. r \<in> set (ox_rows s) \<Longrightarrow> p r \<Longrightarrow> event_key (f r) = event_key r \<and> (unfinished (f r) \<longrightarrow> unfinished r)"
  shows "outbox_update p f s = Inr (int (length (filter p (ox_rows s))), s\<lparr>ox_rows := update_where p f (ox_rows s)\<rparr>)"
  using keys_distinct_pending [OF keys_distinct_update [OF assms(1), of p f, OF assms(2)]] by (simp add: outbox_update_def Let_def)

lemma process_settles:
  assumes "worker_ok w" "distinct (map ob_ID (ox_rows s))" "keys_distinct (ox_rows s)" "e \<in> set (ox_rows s)" "ob_Status e = OutboxStatusProcessing" "0 \<le> ob_Attempts e"
  shows "process w dispatch e [] s = (Inr (), [], s\<lparr>ox_rows := update_where (\<lambda>r. ob_ID r = ob_ID e) (settle w dispatch (ox_now s)) (ox_rows s),
    ox_sent := ox_sent s @ [(ob_ID e, dispatch e = None)]\<rparr>)"
proof -
  let ?s = "s\<lparr>ox_sent := ox_sent s @ [(ob_ID e, dispatch e = None)]\<rparr>"
  have one: "r = e" if "r \<in> set (ox_rows ?s)" "ob_ID r = ob_ID e" for r using distinct_ids_eq [OF assms(2,4), of r] that by simp
  have upd: "outbox_update (\<lambda>r. ob_ID r = ob_ID e) f ?s =
      Inr (int (length (filter (\<lambda>r. ob_ID r = ob_ID e) (ox_rows s))), ?s\<lparr>ox_rows := update_where (\<lambda>r. ob_ID r = ob_ID e) f (ox_rows s)\<rparr>)"
    if "\<And>r. event_key (f r) = event_key r" for f
    using ignored_update [of ?s "\<lambda>r. ob_ID r = ob_ID e" f] assms(3,5) one that by (auto simp: unfinished_def)
  have st: "update_where (\<lambda>r. ob_ID r = ob_ID e) (settle w dispatch (ox_now s)) (ox_rows s) = update_where (\<lambda>r. ob_ID r = ob_ID e) f (ox_rows s)"
    if "f e = settle w dispatch (ox_now s) e" for f
    by (rule update_where_same) (use one that in \<open>force dest: one\<close>)
  show ?thesis
  proof (cases "dispatch e")
    case None
    then show ?thesis using st [of "set_done (ox_now s)"] upd [of "set_done (ox_now s)"]
      by (simp add: process_def safeDispatch_def MarkDone_def tx_ignore_def tx_void_def tx_defs settle_def)
  next
    case err: (Some err)
    show ?thesis
    proof (cases "ob_Attempts e \<ge> w_maxAttempts w")
      case True
      then show ?thesis using err st [of "set_failed (ox_now s) err"] upd [of "set_failed (ox_now s) err"]
        by (simp add: process_def safeDispatch_def MarkFailed_def tx_ignore_def tx_void_def tx_defs settle_def)
    next
      case False
      then have "ob_Attempts e < w_maxAttempts w" by simp
      then obtain d where "backoff (w_rnd w) (ob_Attempts e) = Some d" using backoff_bounds [OF assms(1,6)] by metis
      then show ?thesis using err False st [of "set_pending (ox_now s + d)"] upd [of "set_pending (ox_now s + d)"]
        by (simp add: process_def safeDispatch_def Schedule_def tx_ignore_def tx_void_def tx_defs settle_def)
    qed
  qed
qed

lemma update_where_twice:
  assumes "\<And>r. ob_ID (f r) = ob_ID r" "i \<notin> I"
  shows "update_where (\<lambda>r. ob_ID r \<in> I) f (update_where (\<lambda>r. ob_ID r = i) f rows) = update_where (\<lambda>r. ob_ID r = i \<or> ob_ID r \<in> I) f rows"
  using assms by (auto simp: update_where_def)

lemma map_ID_update: "(\<And>r. ob_ID (f r) = ob_ID r) \<Longrightarrow> map ob_ID (update_where p f rows) = map ob_ID rows"
  by (induction rows) auto

lemma process_loop:
  assumes "worker_ok w" "distinct (map ob_ID (ox_rows s))" "keys_distinct (ox_rows s)" "distinct (map ob_ID es)"
    "\<forall>e\<in>set es. e \<in> set (ox_rows s) \<and> ob_Status e = OutboxStatusProcessing \<and> 0 \<le> ob_Attempts e"
  shows "tx_iter (process w dispatch) es [] s = (Inr (), [], s\<lparr>ox_rows := update_where (\<lambda>r. ob_ID r \<in> ob_ID ` set es) (settle w dispatch (ox_now s)) (ox_rows s),
    ox_sent := ox_sent s @ map (\<lambda>e. (ob_ID e, dispatch e = None)) es\<rparr>)"
  using assms
proof (induction es arbitrary: s)
  case Nil
  then show ?case by (simp add: tx_ret_def update_where_def)
next
  case (Cons e es)
  let ?s = "s\<lparr>ox_rows := update_where (\<lambda>r. ob_ID r = ob_ID e) (settle w dispatch (ox_now s)) (ox_rows s), ox_sent := ox_sent s @ [(ob_ID e, dispatch e = None)]\<rparr>"
  have e: "e \<in> set (ox_rows s)" "ob_Status e = OutboxStatusProcessing" "0 \<le> ob_Attempts e" using Cons.prems(5) by auto
  have proc: "process w dispatch e [] s = (Inr (), [], ?s)" by (rule process_settles [OF Cons.prems(1-3) e])
  have kd: "keys_distinct (ox_rows ?s)"
    using keys_distinct_update [OF Cons.prems(3), of "\<lambda>r. ob_ID r = ob_ID e" "settle w dispatch (ox_now s)"] distinct_ids_eq [OF Cons.prems(2) e(1)] e(2)
    by (auto simp: unfinished_def)
  have mem: "e' \<in> set (ox_rows ?s)" if "e' \<in> set es" for e'
  proof -
    have "e' \<in> set (ox_rows s)" "ob_ID e' \<noteq> ob_ID e" using that Cons.prems(4,5) by (auto simp: image_iff)
    then show ?thesis by (auto simp: update_where_def intro: rev_image_eqI)
  qed
  have "tx_iter (process w dispatch) es [] ?s = (Inr (), [], ?s\<lparr>ox_rows := update_where (\<lambda>r. ob_ID r \<in> ob_ID ` set es) (settle w dispatch (ox_now ?s)) (ox_rows ?s),
      ox_sent := ox_sent ?s @ map (\<lambda>e. (ob_ID e, dispatch e = None)) es\<rparr>)"
    using Cons.prems mem kd by (intro Cons.IH) (auto simp: map_ID_update)
  then show ?case using Cons.prems(4) by (simp add: tx_bind_def proc update_where_twice)
qed

lemma update_where_mem: "r \<in> set rows \<Longrightarrow> p r \<Longrightarrow> f r \<in> set (update_where p f rows)"
  by (induction rows) auto

lemma set_candidates:
  "set (candidates lim s) \<subseteq> set (ox_rows s)" "e \<in> set (candidates lim s) \<Longrightarrow> due (ox_now s) e"
  "distinct (map ob_ID (ox_rows s)) \<Longrightarrow> distinct (map ob_ID (candidates lim s))"
proof -
  show "set (candidates lim s) \<subseteq> set (ox_rows s)" by (auto simp: candidates_def dest!: in_set_takeD)
  show "e \<in> set (candidates lim s) \<Longrightarrow> due (ox_now s) e" by (auto simp: candidates_def dest!: in_set_takeD)
  assume "distinct (map ob_ID (ox_rows s))"
  then have "distinct (map ob_ID (filter (due (ox_now s)) (ox_rows s)))" by (rule distinct_map_filter)
  then have "distinct (map ob_ID (sort_key ob_ScheduledAt (filter (due (ox_now s)) (ox_rows s))))"
    by (metis mset_map mset_sort mset_eq_imp_distinct_iff)
  then show "distinct (map ob_ID (candidates lim s))" by (simp add: candidates_def distinct_take flip: take_map)
qed

lemma candidates_nonempty:
  assumes "e \<in> set (ox_rows s)" "due (ox_now s) e" "1 \<le> lim"
  shows "candidates lim s \<noteq> []"
proof -
  have "e \<in> set (sort_key ob_ScheduledAt (filter (due (ox_now s)) (ox_rows s)))" using assms by simp
  then have "sort_key ob_ScheduledAt (filter (due (ox_now s)) (ox_rows s)) \<noteq> []" by force
  then show ?thesis unfolding candidates_def using assms(3) by simp
qed

definition wake :: "OutboxEntry \<Rightarrow> OutboxEntry" where
  "wake e = (if ob_Status e = OutboxStatusProcessing then release e else e)"

lemma wake_simps [simp]: "ob_ID (wake e) = ob_ID e" "event_key (wake e) = event_key e" "ob_Attempts (wake e) = ob_Attempts e" "unfinished (wake e) = unfinished e"
  by (simp_all add: wake_def release_def event_key_def unfinished_def)

text \<open>A round after a long enough wait, without failing statements.\<close>
lemma tick_run:
  assumes "worker_ok w" "calm w s" "patient w d"
  obtains cs now' until s' where "now' = ox_now s + d" "until = now' + w_lockDuration w" "tick w d dispatch [] s = (Inr (), [], s')"
    "ox_now s' = now'" "ox_sent s' = ox_sent s @ map (\<lambda>e. (ob_ID e, dispatch e = None)) (map (claim until) cs)"
    "ox_rows s' = map (\<lambda>e. if ob_ID e \<in> ob_ID ` set cs then settle w dispatch now' (claim until (wake e)) else wake e) (ox_rows s)"
    "set cs \<subseteq> wake ` {e \<in> set (ox_rows s). unfinished e}" "distinct (map ob_ID cs)" "(\<exists>e\<in>set (ox_rows s). unfinished e) \<longrightarrow> cs \<noteq> []"
proof -
  define now' where "now' = ox_now s + d"
  define until where "until = now' + w_lockDuration w"
  note calm = assms(2) [unfolded calm_def]
  let ?s0 = "s\<lparr>ox_now := now'\<rparr>" and ?s1 = "s\<lparr>ox_now := now', ox_rows := map wake (ox_rows s)\<rparr>"
  have st: "stale now' (w_staleThreshold w) e \<longleftrightarrow> ob_Status e = OutboxStatusProcessing" if "e \<in> set (ox_rows s)" for e
  proof -
    have "ob_Status e = OutboxStatusProcessing \<longrightarrow> (\<exists>t. ob_LockedUntil e = Some t \<and> t \<le> ox_now s + w_lockDuration w)"
      using calm that by (auto simp: row_calm_def unfinished_def)
    then show ?thesis using assms(3) by (auto simp: stale_def now'_def patient_def)
  qed
  then have wake: "update_where (stale now' (w_staleThreshold w)) release (ox_rows s) = map wake (ox_rows s)"
    by (auto simp: update_where_def wake_def)
  have un: "unlockStale w [] ?s0 = (Inr (), [], ?s1)"
    using ignored_update [of ?s0 "stale now' (w_staleThreshold w)" release] calm st
    by (simp add: unlockStale_def UnlockStale_def tx_ignore_def tx_void_def tx_defs wake unfinished_def)
  have kd: "keys_distinct (map wake (ox_rows s))"
    unfolding wake [symmetric] by (rule keys_distinct_update) (use calm st in \<open>auto simp: unfinished_def\<close>)
  define cs where "cs = candidates (w_batchSize w) ?s1"
  have cs: "set cs \<subseteq> wake ` {e \<in> set (ox_rows s). unfinished e}"
    using set_candidates(1) [of "w_batchSize w" ?s1] set_candidates(2) [of _ "w_batchSize w" ?s1] unfolding cs_def by (fastforce simp: due_def is_pending_def unfinished_def wake_def release_def)
  have dc: "distinct (map ob_ID cs)" unfolding cs_def by (rule set_candidates(3)) (use calm in \<open>simp add: comp_def\<close>)
  have ne: "cs \<noteq> []" if "e \<in> set (ox_rows s)" "unfinished e" for e
    unfolding cs_def
  proof (rule candidates_nonempty [of "wake e"])
    show "wake e \<in> set (ox_rows ?s1)" using that by simp
    have "ob_ScheduledAt e \<le> ox_now s + five_minutes" using calm that by (auto simp: row_calm_def)
    then show "due (ox_now ?s1) (wake e)" using that assms(3)
      by (auto simp: due_def is_pending_def wake_def release_def unfinished_def now'_def patient_def)
  qed (use assms(1) in \<open>simp add: worker_ok_def\<close>)
  have att: "0 \<le> ob_Attempts e \<and> ob_Attempts e < 32767" if "e \<in> set cs" for e
    using that cs calm by (force simp: row_calm_def)
  let ?R = "update_where (\<lambda>e. ob_ID e \<in> ob_ID ` set cs) (claim until) (map wake (ox_rows s))"
  let ?s2 = "s\<lparr>ox_now := now', ox_rows := ?R\<rparr>"
  have claim: "ClaimBatch (w_batchSize w) (w_lockDuration w) [] ?s1 = (Inr (map (claim until) cs), [], ?s2)"
    using assms(1) att unfolding ClaimBatch_def tx_defs claim_batch_def Let_def cs_def [symmetric]
    by (auto simp: until_def worker_ok_def not_le split: if_splits)
  have csR: "claim until e \<in> set ?R" if "e \<in> set cs" for e
  proof -
    have "e \<in> wake ` {e \<in> set (ox_rows s). unfinished e}" using cs that by (rule subsetD)
    then obtain r where "r \<in> set (ox_rows s)" "e = wake r" by auto
    then have "e \<in> set (map wake (ox_rows s))" by simp
    then show ?thesis using that by (intro update_where_mem) auto
  qed
  have ids: "distinct (map ob_ID ?R)" using calm by (simp add: map_ID_update comp_def)
  have dw: "distinct (map ob_ID (map wake (ox_rows s)))" using calm by (simp add: comp_def)
  have one: "unfinished r" if "r \<in> set (map wake (ox_rows s))" and mem: "ob_ID r \<in> ob_ID ` set cs" for r
  proof -
    obtain c where c: "c \<in> set cs" "ob_ID c = ob_ID r" using mem by auto
    have c': "c \<in> wake ` {e \<in> set (ox_rows s). unfinished e}" using cs c(1) by (rule subsetD)
    then have "c \<in> set (map wake (ox_rows s))" by auto
    then have "r = c" by (rule distinct_ids_eq [OF dw _ that(1) c(2) [symmetric]])
    then show ?thesis using c' by auto
  qed
  have kd2: "keys_distinct ?R" by (rule keys_distinct_update [OF kd]) (use one in auto)
  have loop: "tx_iter (process w dispatch) (map (claim until) cs) [] ?s2 = (Inr (), [], ?s2\<lparr>ox_rows := update_where (\<lambda>r. ob_ID r \<in> ob_ID ` set (map (claim until) cs)) (settle w dispatch (ox_now ?s2)) (ox_rows ?s2),
    ox_sent := ox_sent ?s2 @ map (\<lambda>e. (ob_ID e, dispatch e = None)) (map (claim until) cs)\<rparr>)"
    by (rule process_loop [OF assms(1)]) (use ids kd2 dc csR att in \<open>auto simp: comp_def claim_def\<close>)
  let ?s' = "?s2\<lparr>ox_rows := update_where (\<lambda>r. ob_ID r \<in> ob_ID ` set cs) (settle w dispatch now') ?R,
    ox_sent := ox_sent s @ map (\<lambda>e. (ob_ID e, dispatch e = None)) (map (claim until) cs)\<rparr>"
  have "tick w d dispatch [] s = (Inr (), [], ?s')"
    using loop by (simp add: tick_def poll_def tx_bind_def tx_ignore_def tx_try_def tx_ret_def now'_def [symmetric] un claim image_image)
  moreover have "ox_rows ?s' = map (\<lambda>e. if ob_ID e \<in> ob_ID ` set cs then settle w dispatch now' (claim until (wake e)) else wake e) (ox_rows s)"
    by (auto simp: update_where_def)
  ultimately show ?thesis using that [of now' until ?s' cs] now'_def until_def cs dc ne by auto
qed

lemma settle_steps:
  assumes "unfinished e" "0 \<le> ob_Attempts e"
  shows "steps_left w (settle w dispatch now (claim until (wake e))) + 1 \<le> steps_left w e"
  using assms by (auto simp: settle_def steps_left_def unfinished_def set_done_def set_failed_def set_pending_def claim_def split: option.split)

lemma settle_calm:
  assumes "worker_ok w" "unfinished e" "0 \<le> ob_Attempts e"
  shows "row_calm w now (settle w dispatch now (claim until (wake e)))"
proof (cases "ob_Attempts e + 1 < w_maxAttempts w")
  case True
  then obtain d where "backoff (w_rnd w) (ob_Attempts e + 1) = Some d" "d \<le> five_minutes" using backoff_bounds [OF assms(1), of "ob_Attempts e + 1"] assms(3) by auto
  then show ?thesis using assms True
    by (auto simp: row_calm_def settle_def unfinished_def set_done_def set_failed_def set_pending_def claim_def worker_ok_def split: option.split)
next
  case False
  then show ?thesis by (auto simp: row_calm_def settle_def unfinished_def set_done_def set_failed_def set_pending_def claim_def split: option.split)
qed

lemma wake_calm: "row_calm w now e \<Longrightarrow> now \<le> now' \<Longrightarrow> row_calm w now' (wake e)"
  by (auto simp: row_calm_def wake_def release_def unfinished_def)

lemma sum_list_count: "(\<And>x. x \<in> set xs \<Longrightarrow> f x + (if P x then 1 else 0) \<le> g x) \<Longrightarrow> sum_list (map f xs) + length (filter P xs) \<le> (sum_list (map g xs) :: nat)"
  by (induction xs) fastforce+

lemma count_ids:
  assumes "distinct (map ob_ID rows)" "distinct (map ob_ID cs)" "ob_ID ` set cs \<subseteq> ob_ID ` set rows"
  shows "length (filter (\<lambda>e. ob_ID e \<in> ob_ID ` set cs) rows) = length cs"
proof -
  have "set (map ob_ID (filter (\<lambda>e. ob_ID e \<in> ob_ID ` set cs) rows)) = ob_ID ` set rows \<inter> ob_ID ` set cs" by auto
  then have "set (map ob_ID (filter (\<lambda>e. ob_ID e \<in> ob_ID ` set cs) rows)) = set (map ob_ID cs)" using assms(3) by (simp add: Int_absorb1)
  moreover have "distinct (map ob_ID (filter (\<lambda>e. ob_ID e \<in> ob_ID ` set cs) rows))" using assms(1) by (rule distinct_map_filter)
  ultimately show ?thesis using assms(2) by (metis distinct_card length_map)
qed

lemma tick_progress:
  assumes "worker_ok w" "calm w s" "patient w d"
  obtains s' where "tick w d dispatch [] s = (Inr (), [], s')" "calm w s'" "work w s' + (length (ox_sent s') - length (ox_sent s)) \<le> work w s"
    "work w s = 0 \<or> work w s' < work w s"
proof -
  obtain cs now' until s' where r: "now' = ox_now s + d" "until = now' + w_lockDuration w" "tick w d dispatch [] s = (Inr (), [], s')"
    "ox_now s' = now'" "ox_sent s' = ox_sent s @ map (\<lambda>e. (ob_ID e, dispatch e = None)) (map (claim until) cs)"
    "ox_rows s' = map (\<lambda>e. if ob_ID e \<in> ob_ID ` set cs then settle w dispatch now' (claim until (wake e)) else wake e) (ox_rows s)"
    "set cs \<subseteq> wake ` {e \<in> set (ox_rows s). unfinished e}" "distinct (map ob_ID cs)" "(\<exists>e\<in>set (ox_rows s). unfinished e) \<longrightarrow> cs \<noteq> []"
    by (rule tick_run [OF assms])
  note calm = assms(2) [unfolded calm_def]
  let ?g = "\<lambda>e. if ob_ID e \<in> ob_ID ` set cs then settle w dispatch now' (claim until (wake e)) else wake e"
  have un: "unfinished e" if row: "e \<in> set (ox_rows s)" and mem: "ob_ID e \<in> ob_ID ` set cs" for e
  proof -
    obtain c where c: "c \<in> set cs" "ob_ID c = ob_ID e" using mem by auto
    then obtain r where "r \<in> set (ox_rows s)" "unfinished r" "c = wake r" using r(7) by auto
    then show ?thesis using distinct_ids_eq [of "ox_rows s" r e] row c(2) calm by simp
  qed
  have att: "0 \<le> ob_Attempts e" if "e \<in> set (ox_rows s)" "unfinished e" for e using calm that by (auto simp: row_calm_def)
  have steps: "steps_left w (?g e) + (if ob_ID e \<in> ob_ID ` set cs then 1 else 0) \<le> steps_left w e" if "e \<in> set (ox_rows s)" for e
    using settle_steps [of e w dispatch now' until] un [OF that] att [OF that] by (auto simp: steps_left_def)
  have sub: "ob_ID ` set cs \<subseteq> ob_ID ` set (ox_rows s)" using r(7) by auto
  have "work w s' + length (filter (\<lambda>e. ob_ID e \<in> ob_ID ` set cs) (ox_rows s)) \<le> work w s"
    unfolding work_def r(6) map_map comp_def by (rule sum_list_count) (rule steps)
  then have le: "work w s' + length cs \<le> work w s" using count_ids [OF _ r(8) sub] calm by simp
  have pos: "work w s = 0" if "cs = []" using r(9) that by (auto simp: work_def steps_left_def)
  have "distinct (map ob_ID (ox_rows s'))" using calm by (simp add: r(6) comp_def if_distrib cong: if_cong)
  moreover have "keys_distinct (ox_rows s')"
    using keys_distinct_update [of "ox_rows s" "\<lambda>_. True" ?g] calm un by (auto simp: r(6) update_where_def)
  moreover have "row_calm w now' (?g e)" if "e \<in> set (ox_rows s)" for e
    using settle_calm [OF assms(1), of e now' dispatch until] un [OF that] att [OF that] wake_calm [of w "ox_now s" e now'] calm that assms(3)
    by (simp add: r(1) patient_def five_minutes_def)
  ultimately have "calm w s'" unfolding calm_def r(4) unfolding r(6) set_map ball_simps by blast
  moreover have "work w s = 0 \<or> work w s' < work w s" using pos le by (cases cs) auto
  ultimately show ?thesis using that r(3,5) le by simp
qed

fun run_ticks :: "Worker \<Rightarrow> (duration \<times> dispatcher) list \<Rightarrow> outbox_db \<Rightarrow> outbox_db" where
  "run_ticks w [] s = s"
| "run_ticks w ((d, dispatch) # ts) s = run_ticks w ts (snd (snd (tick w d dispatch [] s)))"

lemma run_ticks_work:
  assumes "worker_ok w" "calm w s" "\<forall>(d, dispatch)\<in>set ts. patient w d"
  shows "work w (run_ticks w ts s) \<le> work w s - length ts \<and> length (ox_sent (run_ticks w ts s)) + work w (run_ticks w ts s) \<le> length (ox_sent s) + work w s"
  using assms
proof (induction w ts s rule: run_ticks.induct)
  case (2 w d dispatch ts s)
  have "patient w d" using 2 by simp
  then obtain s' where s': "tick w d dispatch [] s = (Inr (), [], s')" "calm w s'" "work w s' + (length (ox_sent s') - length (ox_sent s)) \<le> work w s"
    "work w s = 0 \<or> work w s' < work w s" by (rule tick_progress [OF "2.prems"(1,2)])
  have "work w (run_ticks w ts s') \<le> work w s' - length ts \<and> length (ox_sent (run_ticks w ts s')) + work w (run_ticks w ts s') \<le> length (ox_sent s') + work w s'"
    using "2.IH" [unfolded s'(1)] 2 s'(2) by simp
  then show ?case using s' by auto
qed simp

lemma work_zero: "work w s = 0 \<longleftrightarrow> (\<forall>e\<in>set (ox_rows s). \<not> unfinished e)"
proof -
  have "steps_left w e = 0 \<longleftrightarrow> \<not> unfinished e" for e by (simp add: steps_left_def)
  then show ?thesis by (simp add: work_def)
qed


definition example_worker :: Worker where
  "example_worker = \<lparr>w_batchSize = 50, w_lockDuration = 300 * 10 ^ 9, w_maxAttempts = 2, w_staleThreshold = 600 * 10 ^ 9, w_rnd = (\<lambda>n. n - 1)\<rparr>"

definition example_outbox_event :: "string \<Rightarrow> string \<Rightarrow> BatchEvent" where
  "example_outbox_event t i = \<lparr>be_EventType = t, be_AggregateType = ''withdrawal'', be_AggregateID = i, be_Payload = Some ''{}''\<rparr>"

definition example_outbox :: outbox_db where
  "example_outbox = snd (snd (WriteBatch [example_outbox_event ''withdrawal.approved'' ''1'', example_outbox_event ''withdrawal.approved'' ''2''] []
     \<lparr>ox_now = 0, ox_seq = 1, ox_rows = [], ox_dlq = [], ox_sent = []\<rparr>))"

lemma example_outbox_rows: "map (\<lambda>e. (ob_ID e, ob_Status e, ob_Attempts e, ob_ScheduledAt e, event_key e)) (ox_rows example_outbox) =
    [(1, OutboxStatusPending, 0, 0, ''withdrawal'', ''1'', ''withdrawal.approved''), (2, OutboxStatusPending, 0, 0, ''withdrawal'', ''2'', ''withdrawal.approved'')]"
  "ox_now example_outbox = 0" "ox_sent example_outbox = []"
  by code_simp+

lemma example_outbox_calm: "calm example_worker example_outbox" "work example_worker example_outbox = 6"
  using example_outbox_rows by (auto simp: map_eq_Cons_conv calm_def keys_distinct_def row_calm_def unfinished_def five_minutes_def work_def steps_left_def example_worker_def)


section \<open>No event is lost\<close>

definition count_sent :: "int \<Rightarrow> outbox_db \<Rightarrow> int" where
  "count_sent i s = int (length (filter (\<lambda>p. fst p = i) (ox_sent s)))"

definition row_ok :: "int \<Rightarrow> outbox_db \<Rightarrow> OutboxEntry \<Rightarrow> bool" where
  "row_ok M s r \<longleftrightarrow> ob_ID r < ox_seq s \<and> count_sent (ob_ID r) s \<le> ob_Attempts r \<and>
     (ob_Status r = OutboxStatusDone \<longrightarrow> (ob_ID r, True) \<in> set (ox_sent s)) \<and>
     (ob_Status r = OutboxStatusFailed \<longrightarrow> M \<le> ob_Attempts r \<and> (ob_ID r, False) \<in> set (ox_sent s))"

definition outbox_ok :: "int \<Rightarrow> outbox_db \<Rightarrow> bool" where
  "outbox_ok M s \<longleftrightarrow> distinct (map ob_ID (ox_rows s)) \<and> (\<forall>r\<in>set (ox_rows s). row_ok M s r) \<and> (\<forall>p\<in>set (ox_sent s). fst p < ox_seq s)"

text \<open>What may happen to a row: its event stays, attempts grow, and a finished row is frozen.\<close>
definition row_grows :: "OutboxEntry \<Rightarrow> OutboxEntry \<Rightarrow> bool" where
  "row_grows r r' \<longleftrightarrow> ob_ID r' = ob_ID r \<and> event_key r' = event_key r \<and> ob_Payload r' = ob_Payload r \<and> ob_Attempts r \<le> ob_Attempts r' \<and>
     (\<not> unfinished r \<longrightarrow> r' = r)"

definition extends :: "OutboxEntry list \<Rightarrow> outbox_db \<Rightarrow> bool" where
  "extends R s \<longleftrightarrow> (\<forall>r\<in>set R. \<exists>r'\<in>set (ox_rows s). row_grows r r')"

lemma row_grows_trans: "row_grows a b \<Longrightarrow> row_grows b c \<Longrightarrow> row_grows a c"
  by (auto simp: row_grows_def)

lemma row_grows_refl [simp]: "row_grows r r"
  by (simp add: row_grows_def)

lemma row_grows_set:
  "unfinished r \<Longrightarrow> row_grows r (claim t r)" "unfinished r \<Longrightarrow> row_grows r (set_done t r)" "unfinished r \<Longrightarrow> row_grows r (set_failed t m r)"
  "unfinished r \<Longrightarrow> row_grows r (set_pending t r)" "unfinished r \<Longrightarrow> row_grows r (release r)"
  by (simp_all add: row_grows_def event_key_def claim_def set_done_def set_failed_def set_pending_def release_def)

lemma row_ok_set:
  "row_ok M s r \<Longrightarrow> row_ok M s (claim t r)" "row_ok M s r \<Longrightarrow> row_ok M s (set_pending t r)" "row_ok M s r \<Longrightarrow> row_ok M s (release r)"
  "row_ok M s r \<Longrightarrow> (ob_ID r, True) \<in> set (ox_sent s) \<Longrightarrow> row_ok M s (set_done t r)"
  "row_ok M s r \<Longrightarrow> (ob_ID r, False) \<in> set (ox_sent s) \<Longrightarrow> M \<le> ob_Attempts r \<Longrightarrow> row_ok M s (set_failed t m r)"
  by (simp_all add: row_ok_def claim_def set_done_def set_failed_def set_pending_def release_def)

definition outbox_inv :: "int \<Rightarrow> OutboxEntry list \<Rightarrow> outbox_db \<Rightarrow> bool" where
  "outbox_inv M R s \<longleftrightarrow> outbox_ok M s \<and> extends R s"

lemma outbox_invI:
  assumes "outbox_inv M R s" "ox_rows s' = update_where p f (ox_rows s)" "ox_seq s' = ox_seq s" "ox_sent s' = ox_sent s"
    "\<And>r. r \<in> set (ox_rows s) \<Longrightarrow> p r \<Longrightarrow> row_grows r (f r) \<and> row_ok M s (f r)"
  shows "outbox_inv M R s'"
proof -
  have same: "row_ok M s' r = row_ok M s r" for r by (simp add: row_ok_def count_sent_def assms(3,4))
  have "map ob_ID (ox_rows s') = map ob_ID (ox_rows s)" using assms(5) by (auto simp: assms(2) update_where_def row_grows_def)
  moreover have "\<exists>r''\<in>set (ox_rows s'). row_grows r r''" if "r' \<in> set (ox_rows s)" "row_grows r r'" for r r'
  proof (rule bexI)
    show "(if p r' then f r' else r') \<in> set (ox_rows s')" using that(1) by (simp add: assms(2) update_where_def)
    show "row_grows r (if p r' then f r' else r')" using that assms(5) [of r'] row_grows_trans [of r r'] by auto
  qed
  moreover have "row_ok M s' r" if "r \<in> set (ox_rows s')" for r
    using that assms(1,5) by (auto simp: same assms(2) update_where_def outbox_inv_def outbox_ok_def split: if_splits)
  ultimately show ?thesis using assms(1) by (auto simp: outbox_inv_def outbox_ok_def extends_def assms(3,4))
qed

lemma outbox_update_run:
  "outbox_update p f s = Inr (n, s') \<Longrightarrow> s' = s\<lparr>ox_rows := update_where p f (ox_rows s)\<rparr>"
  by (auto simp: outbox_update_def Let_def split: if_splits)

lemma inv_rowD: "outbox_inv M R s \<Longrightarrow> r \<in> set (ox_rows s) \<Longrightarrow> row_ok M s r"
  by (simp add: outbox_inv_def outbox_ok_def)

lemma unlockStale_keeps: "tx_keeps (outbox_inv M R) (unlockStale w)"
  unfolding unlockStale_def UnlockStale_def
proof (intro tx_keep)
  fix s n s' assume inv: "outbox_inv M R s" and upd: "outbox_update (stale (ox_now s) (w_staleThreshold w)) release s = Inr (n, s')"
  show "outbox_inv M R s'"
    by (rule outbox_invI [OF inv, where p = "stale (ox_now s) (w_staleThreshold w)" and f = release])
      (use outbox_update_run [OF upd] inv_rowD [OF inv] in \<open>auto simp: row_grows_set row_ok_set unfinished_def stale_def\<close>)
qed

lemma insert_keeps:
  assumes "outbox_inv M R s" "outbox_insert e s = Inr (b, s')" "ob_Attempts e = 0" "ob_Status e = OutboxStatusPending"
  shows "outbox_inv M R s'"
proof (cases b)
  case True
  then have s': "s' = s\<lparr>ox_rows := ox_rows s @ [e\<lparr>ob_ID := ox_seq s, ob_CreatedAt := ox_now s\<rparr>], ox_seq := ox_seq s + 1\<rparr>"
    using assms(2) by (auto simp: outbox_insert_def split: if_splits)
  have none: "filter (\<lambda>p. fst p = ox_seq s) (ox_sent s) = []" using assms(1) by (auto simp: outbox_inv_def outbox_ok_def filter_empty_conv)
  show ?thesis using assms(1,3,4) none
    by (fastforce simp: s' outbox_inv_def outbox_ok_def extends_def row_ok_def count_sent_def)
next
  case False
  then show ?thesis using assms(1,2) by (auto simp: outbox_insert_def split: if_splits)
qed

lemma NewOutboxEntry_fresh: "NewOutboxEntry t a i pl now = Inr e \<Longrightarrow> ob_Attempts e = 0 \<and> ob_Status e = OutboxStatusPending"
  by (auto simp: NewOutboxEntry_def split: option.splits)

lemma tx_keeps_lift_bind: "(\<And>a. r = Inr a \<Longrightarrow> tx_keeps I (f a)) \<Longrightarrow> tx_keeps I (tx_bind (tx_lift r) f)"
  by (cases r) (auto simp: tx_keeps_def tx_valid_def tx_bind_def tx_lift_def tx_err_def tx_ret_def)

lemma writes_keep: "tx_keeps (outbox_inv M R) (WriteInTx e)" "tx_keeps (outbox_inv M R) (WriteDedup k e)"
  unfolding WriteInTx_def WriteDedup_def
  by (intro tx_keeps_lift_bind tx_keep; (drule NewOutboxEntry_fresh)?; auto elim!: insert_keeps)+

text \<open>The entries a worker holds: their rows are as claimed, with an attempt not yet used.\<close>
definition holds_entry :: "outbox_db \<Rightarrow> OutboxEntry \<Rightarrow> bool" where
  "holds_entry s e \<longleftrightarrow> e \<in> set (ox_rows s) \<and> ob_Status e = OutboxStatusProcessing"

definition batch_inv :: "int \<Rightarrow> OutboxEntry list \<Rightarrow> OutboxEntry list \<Rightarrow> outbox_db \<Rightarrow> bool" where
  "batch_inv M R es s \<longleftrightarrow> outbox_inv M R s \<and> distinct (map ob_ID es) \<and> (\<forall>e\<in>set es. holds_entry s e \<and> count_sent (ob_ID e) s < ob_Attempts e)"

lemma mark_run:
  assumes "batch_inv M R es s" "holds_entry s e" "ob_ID e \<notin> ob_ID ` set es" "row_ok M s (f e)" "row_grows e (f e)"
    "outbox_update (\<lambda>r. ob_ID r = ob_ID e) f s = Inr (n, s')"
  shows "batch_inv M R es s'"
proof -
  note s' = outbox_update_run [OF assms(6)]
  have inv: "outbox_inv M R s" using assms(1) by (simp add: batch_inv_def)
  have one: "r = e" if "r \<in> set (ox_rows s)" "ob_ID r = ob_ID e" for r
    using that assms(2) inv by (auto simp: holds_entry_def outbox_inv_def outbox_ok_def intro: distinct_ids_eq)
  have "outbox_inv M R s'"
    by (rule outbox_invI [OF inv, where p = "\<lambda>r. ob_ID r = ob_ID e" and f = f]) (use assms(4,5) in \<open>auto simp: s' dest: one\<close>)
  moreover have "x \<in> set (ox_rows s')" if "x \<in> set es" "x \<in> set (ox_rows s)" for x
    using that assms(3) by (auto simp: s' update_where_def intro: rev_image_eqI)
  ultimately show ?thesis using assms(1) by (auto simp: batch_inv_def holds_entry_def count_sent_def s')
qed

lemma mark_valid:
  assumes "\<And>s. row_ok M s e \<Longrightarrow> (ob_ID e, b) \<in> set (ox_sent s) \<Longrightarrow> row_ok M s (f (ox_now s) e)" "\<And>t. row_grows e (f t e)" "ob_ID e \<notin> ob_ID ` set es"
  shows "tx_valid (\<lambda>s. batch_inv M R es s \<and> holds_entry s e \<and> (ob_ID e, b) \<in> set (ox_sent s))
    (tx_ignore (tx_void (tx_exec (\<lambda>s. outbox_update (\<lambda>r. ob_ID r = ob_ID e) (f (ox_now s)) s)))) (\<lambda>_. batch_inv M R es) (\<lambda>_. outbox_inv M R)"
proof (rule tx_valid_ignore, unfold tx_void_def, rule tx_valid_bind [where R = "\<lambda>_. batch_inv M R es"], rule tx_valid_exec)
  fix s n s' assume "batch_inv M R es s \<and> holds_entry s e \<and> (ob_ID e, b) \<in> set (ox_sent s)"
    and upd: "outbox_update (\<lambda>r. ob_ID r = ob_ID e) (f (ox_now s)) s = Inr (n, s')"
  then have *: "batch_inv M R es s" "holds_entry s e" "(ob_ID e, b) \<in> set (ox_sent s)" by auto
  then have "row_ok M s e" by (auto simp: batch_inv_def holds_entry_def dest: inv_rowD)
  then show "batch_inv M R es s'" using mark_run [OF *(1,2) assms(3) _ assms(2) upd] assms(1) *(3) by blast
qed (auto intro: tx_valid_ret)

lemma safeDispatch_valid:
  "tx_valid (batch_inv M R (e # es)) (safeDispatch dispatch e)
    (\<lambda>r s. r = dispatch e \<and> batch_inv M R es s \<and> holds_entry s e \<and> (ob_ID e, dispatch e = None) \<in> set (ox_sent s)) (\<lambda>_. outbox_inv M R)"
proof (rule tx_validI)
  fix fs s r fs' s' assume inv: "batch_inv M R (e # es) s" and run: "safeDispatch dispatch e fs s = (Inr r, fs', s')"
  have s': "s' = s\<lparr>ox_sent := ox_sent s @ [(ob_ID e, dispatch e = None)]\<rparr>" "r = dispatch e" using run by (auto simp: safeDispatch_def)
  have e: "e \<in> set (ox_rows s)" "count_sent (ob_ID e) s < ob_Attempts e" "ob_ID e \<notin> ob_ID ` set es" "outbox_inv M R s"
    using inv by (auto simp: batch_inv_def holds_entry_def)
  have ne: "ob_ID x \<noteq> ob_ID e" if "x \<in> set es" for x using e(3) that by (auto simp: image_iff)
  have cnt: "count_sent i s' = count_sent i s + (if i = ob_ID e then 1 else 0)" for i by (simp add: count_sent_def s')
  have "row_ok M s' r" if "r \<in> set (ox_rows s)" for r
  proof -
    have "r = e" if "ob_ID r = ob_ID e"
      using that e(1,4) \<open>r \<in> set (ox_rows s)\<close> by (auto simp: outbox_inv_def outbox_ok_def intro: distinct_ids_eq)
    then show ?thesis using inv_rowD [OF e(4) that] e(2) by (auto simp: row_ok_def cnt [unfolded s'(1)] s')
  qed
  moreover have "ob_ID e < ox_seq s" using inv_rowD [OF e(4,1)] by (simp add: row_ok_def)
  ultimately have "outbox_inv M R s'" using e(4) by (auto simp: outbox_inv_def outbox_ok_def extends_def s')
  then show "r = dispatch e \<and> batch_inv M R es s' \<and> holds_entry s' e \<and> (ob_ID e, dispatch e = None) \<in> set (ox_sent s')"
    using inv ne by (auto simp: batch_inv_def holds_entry_def cnt [unfolded s'(1)] s')
qed (simp add: safeDispatch_def)

lemma process_valid:
  assumes "w_maxAttempts w = M"
  shows "tx_valid (batch_inv M R (e # es)) (process w dispatch e) (\<lambda>_. batch_inv M R es) (\<lambda>_. outbox_inv M R)"
proof (cases "ob_ID e \<notin> ob_ID ` set es \<and> ob_Status e = OutboxStatusProcessing")
  case False
  then show ?thesis by (auto simp: tx_valid_def batch_inv_def holds_entry_def)
next
  case True
  then have e: "ob_ID e \<notin> ob_ID ` set es" "unfinished e" by (simp_all add: unfinished_def)
  let ?P = "\<lambda>b s. batch_inv M R es s \<and> holds_entry s e \<and> (ob_ID e, b) \<in> set (ox_sent s)"
  have don: "tx_valid (?P True) (tx_ignore (MarkDone (ob_ID e))) (\<lambda>_. batch_inv M R es) (\<lambda>_. outbox_inv M R)"
    unfolding MarkDone_def by (rule mark_valid) (use e in \<open>auto simp: row_ok_set row_grows_set\<close>)
  have failed: "tx_valid (?P False) (tx_ignore (MarkFailed (ob_ID e) err)) (\<lambda>_. batch_inv M R es) (\<lambda>_. outbox_inv M R)" if "M \<le> ob_Attempts e" for err
    unfolding MarkFailed_def by (rule mark_valid) (use e that in \<open>auto simp: row_ok_set row_grows_set\<close>)
  have sched: "tx_valid (?P False) (tx_ignore (Schedule (ob_ID e) at)) (\<lambda>_. batch_inv M R es) (\<lambda>_. outbox_inv M R)" for at
    unfolding Schedule_def by (rule mark_valid [where f = "\<lambda>_. set_pending at", simplified]) (use e in \<open>auto simp: row_ok_set row_grows_set\<close>)
  have "tx_valid (\<lambda>s. r = dispatch e \<and> ?P (dispatch e = None) s)
    (case r of None \<Rightarrow> tx_ignore (MarkDone (ob_ID e))
     | Some err \<Rightarrow> if w_maxAttempts w \<le> ob_Attempts e then tx_ignore (MarkFailed (ob_ID e) err)
        else case backoff (w_rnd w) (ob_Attempts e) of None \<Rightarrow> panic ''invalid argument to Int64N''
          | Some delay \<Rightarrow> tx_bind (tx_read ox_now) (\<lambda>now. tx_ignore (Schedule (ob_ID e) (now + delay)))) (\<lambda>_. batch_inv M R es) (\<lambda>_. outbox_inv M R)" for r
  proof (cases "r = dispatch e")
    case r: True
    show ?thesis
    proof (cases r)
      case None
      then show ?thesis using don r by simp
    next
      case (Some err)
      then show ?thesis using failed [of err] sched r assms unfolding panic_def
        by (auto split: option.split intro!: tx_valid_err tx_valid_bind [where R = "\<lambda>_. ?P False"] tx_valid_read simp: batch_inv_def)
    qed
  qed simp
  then show ?thesis unfolding process_def by (rule tx_valid_bind [OF safeDispatch_valid])
qed

lemma processes_valid:
  assumes "w_maxAttempts w = M"
  shows "tx_valid (batch_inv M R es) (tx_iter (process w dispatch) es) (\<lambda>_. outbox_inv M R) (\<lambda>_. outbox_inv M R)"
proof (induction es)
  case Nil
  then show ?case by (auto simp: batch_inv_def intro!: tx_valid_ret)
next
  case (Cons e es)
  then show ?case by (simp, intro tx_valid_bind [OF process_valid [OF assms]])
qed

lemma claim_valid: "tx_valid (outbox_inv M R) (ClaimBatch lim lock) (\<lambda>es. batch_inv M R es) (\<lambda>_. outbox_inv M R)"
  unfolding ClaimBatch_def
proof (rule tx_valid_exec)
  fix s es s' assume inv: "outbox_inv M R s" and run: "claim_batch lim lock s = Inr (es, s')"
  define cs where "cs = candidates lim s"
  define until where "until = ox_now s + lock"
  have r: "es = map (claim until) cs" "s' = s\<lparr>ox_rows := update_where (\<lambda>e. ob_ID e \<in> ob_ID ` set cs) (claim until) (ox_rows s)\<rparr>"
    using run by (auto simp: claim_batch_def Let_def cs_def until_def split: if_splits)
  have ids: "distinct (map ob_ID (ox_rows s))" using inv by (simp add: outbox_inv_def outbox_ok_def)
  have pend: "is_pending c" "c \<in> set (ox_rows s)" if "c \<in> set cs" for c
    using that set_candidates(1,2) unfolding cs_def by (auto simp: due_def)
  have own: "r \<in> set cs" if "r \<in> set (ox_rows s)" "ob_ID r \<in> ob_ID ` set cs" for r
    using that pend(2) distinct_ids_eq [OF ids] by (metis imageE)
  have "outbox_inv M R s'"
    by (rule outbox_invI [OF inv, where p = "\<lambda>e. ob_ID e \<in> ob_ID ` set cs" and f = "claim until"])
      (use own pend inv_rowD [OF inv] in \<open>auto simp: r(2) row_grows_set row_ok_set unfinished_def is_pending_def\<close>)
  moreover have "holds_entry s' (claim until c) \<and> count_sent (ob_ID c) s' < ob_Attempts (claim until c)" if "c \<in> set cs" for c
    using that pend [OF that] inv_rowD [OF inv pend(2) [OF that]] update_where_mem [of c "ox_rows s" "\<lambda>e. ob_ID e \<in> ob_ID ` set cs" "claim until"]
    by (auto simp: holds_entry_def r(2) row_ok_def count_sent_def claim_def)
  ultimately show "batch_inv M R es s'" using set_candidates(3) [OF ids, of lim]
    by (auto simp: batch_inv_def r(1) comp_def cs_def)
qed

lemma poll_keeps: "w_maxAttempts w = M \<Longrightarrow> tx_keeps (outbox_inv M R) (poll w dispatch)"
  unfolding tx_keeps_def poll_def by (rule tx_valid_bind [OF claim_valid processes_valid])

datatype outbox_op =
    OpWrite BatchEvent
  | OpWriteBatch "BatchEvent list"
  | OpWriteDedup string BatchEvent
  | OpTick duration dispatcher
  | OpDeadLetter NotificationDLQEntry
  | OpReplay int int

fun run_outbox_op :: "Worker \<Rightarrow> (app_error \<Rightarrow> string) \<Rightarrow> outbox_op \<Rightarrow> unit oxprog" where
  "run_outbox_op w errText (OpWrite e) = Write e"
| "run_outbox_op w errText (OpWriteBatch es) = WriteBatch es"
| "run_outbox_op w errText (OpWriteDedup k e) = tx_void (WriteDedup k e)"
| "run_outbox_op w errText (OpTick d dispatch) = tick w d dispatch"
| "run_outbox_op w errText (OpDeadLetter e) = DLQInsert e"
| "run_outbox_op w errText (OpReplay batch maxAttempts) = dlq_poll errText batch maxAttempts"

lemma outbox_inv_same: "outbox_inv M R s \<Longrightarrow> ox_rows s' = ox_rows s \<Longrightarrow> ox_sent s' = ox_sent s \<Longrightarrow> ox_seq s \<le> ox_seq s' \<Longrightarrow> outbox_inv M R s'"
  by (fastforce simp: outbox_inv_def outbox_ok_def extends_def row_ok_def count_sent_def)

lemma tick_keeps:
  assumes "w_maxAttempts w = M"
  shows "tx_keeps (outbox_inv M R) (tick w d dispatch)"
proof -
  have "tx_keeps (outbox_inv M R) (\<lambda>fs s. (Inr (), fs, s\<lparr>ox_now := ox_now s + d\<rparr>))"
    by (rule tx_keepsI) (auto elim!: outbox_inv_same)
  then show ?thesis unfolding tick_def by (intro tx_keep unlockStale_keeps poll_keeps [OF assms])
qed

lemma dlq_keeps:
  "tx_keeps (outbox_inv M R) (DLQInsert e)" "tx_keeps (outbox_inv M R) (DLQClaimBatch lim mx)" "tx_keeps (outbox_inv M R) (MarkResolved i)" "tx_keeps (outbox_inv M R) (RecordFailure i t)"
  unfolding DLQInsert_def DLQClaimBatch_def MarkResolved_def RecordFailure_def
  by (intro tx_keep; auto elim!: outbox_inv_same split: if_splits)+

lemma run_outbox_op_keeps: "w_maxAttempts w = M \<Longrightarrow> tx_keeps (outbox_inv M R) (run_outbox_op w errText oper)"
  by (cases oper) (auto simp: Write_def WriteBatch_def dlq_poll_def dlq_process_def CountUnresolved_def intro!: tx_keep writes_keep tick_keeps dlq_keeps)

text \<open>
  C10: no event is lost and none is reported delivered that was not. After any sequence of writes, worker rounds and replays, with any
  delivery outcomes and any failing statements (a crashed worker is one whose remaining statements fail), every row of
  the outbox is still there with its event and payload; a row marked done was delivered, a row marked
  failed used up all its attempts and failed at least once; no row is delivered more often than it was claimed, and a finished row is never touched again.
\<close>
theorem outbox_at_least_once:
  assumes "outbox_ok (w_maxAttempts w) s" "s' = run_all (map (\<lambda>(oper, fs). (run_outbox_op w errText oper, fs)) requests) s"
  shows "(\<forall>r\<in>set (ox_rows s). \<exists>r'\<in>set (ox_rows s'). row_grows r r') \<and>
    (\<forall>r\<in>set (ox_rows s'). count_sent (ob_ID r) s' \<le> ob_Attempts r \<and> (ob_Status r = OutboxStatusDone \<longrightarrow> (ob_ID r, True) \<in> set (ox_sent s')) \<and>
      (ob_Status r = OutboxStatusFailed \<longrightarrow> w_maxAttempts w \<le> ob_Attempts r \<and> (ob_ID r, False) \<in> set (ox_sent s')))"
proof -
  have "outbox_inv (w_maxAttempts w) (ox_rows s) s" using assms(1) row_grows_refl unfolding outbox_inv_def extends_def by blast
  then have "outbox_inv (w_maxAttempts w) (ox_rows s) s'"
    unfolding assms(2) by (intro run_all_invariant [where I = "outbox_inv (w_maxAttempts w) (ox_rows s)"]) (use run_outbox_op_keeps in auto)
  then show ?thesis by (auto simp: outbox_inv_def outbox_ok_def extends_def row_ok_def)
qed

definition example_requests :: "(outbox_op \<times> fault_script) list" where
  "example_requests = [(OpWrite (example_outbox_event ''withdrawal.rejected'' ''3''), []), (OpTick 10 (\<lambda>e. None), [None, None, None, Some ContextError]),
     (OpTick (10 ^ 12) (\<lambda>e. if ob_ID e = 3 then Some ''down'' else None), [])]"

lemma example_outbox_ok: "outbox_ok (w_maxAttempts example_worker) example_outbox"
proof -
  have "ox_seq example_outbox = 3" by code_simp
  then show ?thesis using example_outbox_rows by (auto simp: map_eq_Cons_conv outbox_ok_def row_ok_def count_sent_def)
qed

text \<open>The first worker delivers event 2 but cannot mark it done: it is delivered twice.\<close>
theorem outbox_at_least_once_witness:
  "(let s = run_all (map (\<lambda>(oper, fs). (run_outbox_op example_worker (\<lambda>_. []) oper, fs)) example_requests) example_outbox in
    map (\<lambda>r. (ob_ID r, ob_Status r, count_sent (ob_ID r) s)) (ox_rows s) =
      [(1, OutboxStatusDone, 1), (2, OutboxStatusDone, 2), (3, OutboxStatusDone, 1)] \<and>
    (\<forall>r\<in>set (ox_rows s). ob_Status r = OutboxStatusDone \<longrightarrow> (ob_ID r, True) \<in> set (ox_sent s)))"
proof -
  let ?s = "run_all (map (\<lambda>(oper, fs). (run_outbox_op example_worker (\<lambda>_. []) oper, fs)) example_requests) example_outbox"
  have "map (\<lambda>r. (ob_ID r, ob_Status r, count_sent (ob_ID r) ?s)) (ox_rows ?s) =
      [(1, OutboxStatusDone, 1), (2, OutboxStatusDone, 2), (3, OutboxStatusDone, 1)]" by code_simp
  then show ?thesis using outbox_at_least_once [OF example_outbox_ok refl, of "\<lambda>_. []" example_requests] by (simp add: Let_def)
qed

section \<open>Two abandoned rows of one event\<close>

text \<open>Two distinct rows of the same event, both in processing with an expired lock.\<close>
definition stuck :: "Worker \<Rightarrow> OutboxEntry \<Rightarrow> OutboxEntry \<Rightarrow> outbox_db \<Rightarrow> bool" where
  "stuck w a b s \<longleftrightarrow> distinct (map ob_ID (ox_rows s)) \<and> a \<in> set (ox_rows s) \<and> b \<in> set (ox_rows s) \<and> a \<noteq> b \<and> event_key a = event_key b \<and>
     stale (ox_now s) (w_staleThreshold w) a \<and> stale (ox_now s) (w_staleThreshold w) b"

lemma not_pending_unique: "a \<in> set rows \<Longrightarrow> b \<in> set rows \<Longrightarrow> a \<noteq> b \<Longrightarrow> is_pending a \<Longrightarrow> is_pending b \<Longrightarrow> event_key a = event_key b \<Longrightarrow> \<not> pending_unique rows"
  unfolding pending_unique_def distinct_map by (auto simp: inj_on_def)

lemma unlock_refused:
  assumes "stuck w a b s"
  shows "outbox_update (stale (ox_now s) (w_staleThreshold w)) release s = Inl (PgError ''23505'')"
proof -
  let ?st = "stale (ox_now s) (w_staleThreshold w)"
  have "ob_ID a \<noteq> ob_ID b" using assms distinct_ids_eq [of "ox_rows s" a b] by (auto simp: stuck_def)
  then have "release a \<noteq> release b" by (metis ob_ID_set(5))
  moreover have "release a \<in> set (update_where ?st release (ox_rows s))" "release b \<in> set (update_where ?st release (ox_rows s))"
    using assms by (simp_all add: stuck_def update_where_mem)
  ultimately have "\<not> pending_unique (update_where ?st release (ox_rows s))"
    using assms by (intro not_pending_unique [of "release a" _ "release b"]) (auto simp: stuck_def is_pending_def release_def event_key_def)
  then show ?thesis by (simp add: outbox_update_def)
qed

lemma stuck_update:
  assumes "stuck w a b s" "\<And>r. ob_ID (f r) = ob_ID r" "\<not> p a" "\<not> p b"
  shows "stuck w a b (s\<lparr>ox_rows := update_where p f (ox_rows s)\<rparr>)"
  using assms by (auto simp: stuck_def map_ID_update) (auto simp: update_where_def intro: rev_image_eqI)

lemma stuck_mark:
  assumes "\<And>t r. ob_ID (f t r) = ob_ID r" "i \<noteq> ob_ID a" "i \<noteq> ob_ID b"
  shows "tx_keeps (stuck w a b) (tx_void (tx_exec (\<lambda>s. outbox_update (\<lambda>r. ob_ID r = i) (f (ox_now s)) s)))"
  by (intro tx_keep) (use assms in \<open>auto dest!: outbox_update_run intro!: stuck_update\<close>)

lemma stuck_process:
  assumes "ob_ID e \<noteq> ob_ID a" "ob_ID e \<noteq> ob_ID b"
  shows "tx_keeps (stuck w a b) (process w' dispatch e)"
proof -
  have "tx_keeps (stuck w a b) (safeDispatch dispatch e)" by (rule tx_keepsI) (auto simp: safeDispatch_def stuck_def)
  moreover have "tx_keeps (stuck w a b) (MarkDone (ob_ID e))" "tx_keeps (stuck w a b) (MarkFailed (ob_ID e) err)"
    "tx_keeps (stuck w a b) (Schedule (ob_ID e) at)" for err at
    unfolding MarkDone_def MarkFailed_def Schedule_def
    using stuck_mark [where f = "set_done" and i = "ob_ID e" and a = a and b = b] stuck_mark [where f = "\<lambda>t. set_failed t err" and i = "ob_ID e" and a = a and b = b]
      stuck_mark [where f = "\<lambda>_. set_pending at" and i = "ob_ID e" and a = a and b = b] assms by simp_all
  ultimately show ?thesis unfolding process_def panic_def by (intro tx_keep)
qed

lemma stuck_claim:
  "tx_valid (stuck w a b) (ClaimBatch lim lock) (\<lambda>es s. stuck w a b s \<and> ob_ID a \<notin> ob_ID ` set es \<and> ob_ID b \<notin> ob_ID ` set es) (\<lambda>_. stuck w a b)"
  unfolding ClaimBatch_def
proof (rule tx_valid_exec)
  fix s es s' assume st: "stuck w a b s" and run: "claim_batch lim lock s = Inr (es, s')"
  define cs where "cs = candidates lim s"
  define until where "until = ox_now s + lock"
  have r: "es = map (claim until) cs" "s' = s\<lparr>ox_rows := update_where (\<lambda>e. ob_ID e \<in> ob_ID ` set cs) (claim until) (ox_rows s)\<rparr>"
    using run by (auto simp: claim_batch_def Let_def cs_def until_def split: if_splits)
  have "ob_ID x \<notin> ob_ID ` set cs" if x: "x \<in> set (ox_rows s)" "ob_Status x = OutboxStatusProcessing" for x
  proof
    assume "ob_ID x \<in> ob_ID ` set cs"
    then obtain c where "c \<in> set cs" "ob_ID c = ob_ID x" by auto
    moreover from this have "c \<in> set (ox_rows s)" "is_pending c" using set_candidates(1,2) unfolding cs_def by (auto simp: due_def)
    ultimately show False using distinct_ids_eq [of "ox_rows s" x c] st x by (auto simp: stuck_def is_pending_def)
  qed
  then have *: "ob_ID a \<notin> ob_ID ` set cs" "ob_ID b \<notin> ob_ID ` set cs" using st by (auto simp: stuck_def stale_def)
  then have "stuck w a b s'" unfolding r(2) by (intro stuck_update [OF st]) auto
  then show "stuck w a b s' \<and> ob_ID a \<notin> ob_ID ` set es \<and> ob_ID b \<notin> ob_ID ` set es" using * by (auto simp: r(1) image_image)
qed

lemma stuck_poll: "tx_keeps (stuck w a b) (poll w dispatch)"
  unfolding tx_keeps_def poll_def
proof (rule tx_valid_bind [OF stuck_claim])
  fix es
  show "tx_valid (\<lambda>s. stuck w a b s \<and> ob_ID a \<notin> ob_ID ` set es \<and> ob_ID b \<notin> ob_ID ` set es) (tx_iter (process w dispatch) es) (\<lambda>_. stuck w a b) (\<lambda>_. stuck w a b)"
  proof (cases "ob_ID a \<notin> ob_ID ` set es \<and> ob_ID b \<notin> ob_ID ` set es")
    case True
    have "tx_keeps (stuck w a b) (tx_iter (process w dispatch) es)"
      by (rule tx_keeps_iter, rule stuck_process) (use True in \<open>auto simp: image_iff\<close>)
    then show ?thesis using True by (simp add: tx_keeps_def)
  qed (auto simp: tx_valid_def)
qed

lemma stuck_tick:
  assumes "0 \<le> d"
  shows "tx_keeps (stuck w a b) (tick w d dispatch)"
proof -
  have "tx_keeps (stuck w a b) (\<lambda>fs s. (Inr (), fs, s\<lparr>ox_now := ox_now s + d\<rparr>))"
    by (rule tx_keepsI) (use assms in \<open>auto simp: stuck_def stale_def split: option.splits\<close>)
  moreover have "tx_keeps (stuck w a b) (unlockStale w)"
    unfolding unlockStale_def UnlockStale_def by (intro tx_keep) (auto dest: unlock_refused)
  ultimately show ?thesis unfolding tick_def by (intro tx_keep stuck_poll)
qed

text \<open>
  C36: two abandoned rows of one event block the recovery of the outbox. When two rows with the same event key are in processing with expired locks,
  releasing them would violate the index over pending rows, so the recovery statement fails as a whole: after any number of
  rounds, whatever is delivered and whatever else fails, both rows are still in processing, although their locks expired.
\<close>
theorem abandoned_duplicates_stay_stuck:
  assumes "stuck w a b s" "\<forall>((d, dispatch), fs)\<in>set ts. 0 \<le> d"
  shows "{a, b} \<subseteq> set (ox_rows (run_all (map (\<lambda>((d, dispatch), fs). (tick w d dispatch, fs)) ts) s)) \<and>
    \<not> is_ok (fst (UnlockStale (w_staleThreshold w) fs (run_all (map (\<lambda>((d, dispatch), fs). (tick w d dispatch, fs)) ts) s)))"
proof -
  let ?s = "run_all (map (\<lambda>((d, dispatch), fs). (tick w d dispatch, fs)) ts) s"
  have "stuck w a b ?s" by (rule run_all_invariant [where I = "stuck w a b"]) (use assms in \<open>auto intro: stuck_tick\<close>)
  then show ?thesis using unlock_refused [of w a b ?s] by (auto simp: stuck_def UnlockStale_def tx_defs is_ok_iff split: option.split prod.split)
qed

text \<open>
  Such a state is reached without a failing statement: the event is written again while its first row is being delivered, the delivery fails,
  and the index refuses to put the first row back; the same happens to the second row.
\<close>
definition example_stuck :: outbox_db where
  "example_stuck = (let ev = example_outbox_event ''withdrawal.approved'' ''1'';
       s0 = \<lparr>ox_now = 0, ox_seq = 1, ox_rows = [], ox_dlq = [], ox_sent = []\<rparr>;
       s1 = snd (snd (Write ev [] s0)); (r1, _, s2) = ClaimBatch 50 300 [] s1;
       s3 = snd (snd (Write ev [] s2)); s4 = snd (snd (tx_iter (process example_worker (\<lambda>_. Some ''down'')) (projr r1) [] s3));
       (r2, _, s5) = ClaimBatch 50 300 [] s4;
       s6 = snd (snd (Write ev [] s5)); s7 = snd (snd (tx_iter (process example_worker (\<lambda>_. Some ''down'')) (projr r2) [] s6))
     in s7\<lparr>ox_now := 10 ^ 13\<rparr>)"

theorem abandoned_duplicates_stay_stuck_witness:
  "\<not> is_ok (fst (UnlockStale (w_staleThreshold example_worker) [] (run_all (map (\<lambda>((d, dispatch), fs). (tick example_worker d dispatch, fs))
     [((1, \<lambda>_. None), []), ((10 ^ 12, \<lambda>_. None), [])]) example_stuck)))"
proof -
  let ?w = example_worker
  have rows: "map (\<lambda>r. (ob_ID r, ob_Status r, ob_LockedUntil r, event_key r)) (ox_rows example_stuck) =
    [(1, OutboxStatusProcessing, Some 300, ''withdrawal'', ''1'', ''withdrawal.approved''), (2, OutboxStatusProcessing, Some 300, ''withdrawal'', ''1'', ''withdrawal.approved''),
     (3, OutboxStatusPending, None, ''withdrawal'', ''1'', ''withdrawal.approved'')]" by code_simp
  have now: "ox_now example_stuck = 10 ^ 13" by code_simp
  obtain a b where "stuck ?w a b example_stuck"
    using rows now by (fastforce simp: map_eq_Cons_conv stuck_def stale_def example_worker_def)
  from abandoned_duplicates_stay_stuck [OF this, of "[((1, \<lambda>_. None), []), ((10 ^ 12, \<lambda>_. None), [])]" "[]"] show ?thesis by simp
qed

end
