(* ===== verification/Params.thy ===== *)
theory Params
  imports Matching "HOL-Library.List_Lexorder"
begin

text \<open>
  Runtime parameters: \<^verbatim>\<open>service/system_param_service.go\<close> with \<^verbatim>\<open>repository/system_param_repository.go\<close> and the history table.

  Several replicas of the server share the table; each has its own cache with a time to live, so
  every operation of the service takes the number of its replica. \<^verbatim>\<open>time.ParseDuration\<close>,
  \<^verbatim>\<open>time.LoadLocation\<close> (which reads the time-zone database of the host) and \<^verbatim>\<open>time.Parse\<close> enter only as acceptance tests and are the
  fields of \<open>golib\<close>; no seeded parameter has the type \<^verbatim>\<open>duration\<close>. Mutation hooks and the audit log are left out.
\<close>

datatype SystemParamType = SystemParamTypeString | SystemParamTypeInt | SystemParamTypeBool | SystemParamTypeDuration

record SystemParam =
  sp_Key :: string
  sp_Value :: string
  sp_DefaultValue :: string
  sp_Type :: SystemParamType
  sp_Category :: string
  sp_IsRuntime :: bool
  sp_UpdatedAt :: time

record SystemParamHistory =
  sh_Key :: string
  sh_OldValue :: string
  sh_NewValue :: string
  sh_ActorID :: int
  sh_Action :: string
  sh_ChangedAt :: time

record ParamDiff =
  pd_Key :: string
  pd_OldValue :: string
  pd_NewValue :: string
  pd_IsSensitive :: bool

type_synonym replica = nat

record params_db =
  pm_now :: time
  pm_table :: "string \<rightharpoonup> SystemParam"
  pm_history :: "SystemParamHistory list"
  pm_cache :: "replica \<Rightarrow> string \<rightharpoonup> SystemParam \<times> time"

type_synonym 'a pmprog = "(params_db, 'a) prog"

record golib =
  gl_ParseDuration :: "string \<Rightarrow> bool"
  gl_LoadLocation :: "string \<Rightarrow> bool"
  gl_ParseRFC3339 :: "string \<Rightarrow> bool"

section \<open>Repository\<close>

definition repo_Get :: "string \<Rightarrow> SystemParam option pmprog" where
  "repo_Get key = tx_query (\<lambda>s. pm_table s key)"

definition upsert_row :: "time \<Rightarrow> string \<Rightarrow> string \<Rightarrow> SystemParam option \<Rightarrow> SystemParam" where
  "upsert_row now key value r = (case r of
     None \<Rightarrow> \<lparr>sp_Key = key, sp_Value = value, sp_DefaultValue = value, sp_Type = SystemParamTypeString, sp_Category = ''general'',
       sp_IsRuntime = True, sp_UpdatedAt = now\<rparr>
   | Some p \<Rightarrow> p\<lparr>sp_Value := value, sp_UpdatedAt := now\<rparr>)"

definition param_upsert :: "string \<Rightarrow> string \<Rightarrow> params_db \<Rightarrow> SystemParam \<times> params_db" where
  "param_upsert key value s = (let p = upsert_row (pm_now s) key value (pm_table s key) in (p, s\<lparr>pm_table := (pm_table s)(key \<mapsto> p)\<rparr>))"

definition repo_Set :: "string \<Rightarrow> string \<Rightarrow> SystemParam pmprog" where
  "repo_Set key value = tx_exec (\<lambda>s. Inr (param_upsert key value s))"

text \<open>One statement for all entries; the keys of a Go map are distinct.\<close>
definition repo_BulkSet :: "(string \<times> string) list \<Rightarrow> unit pmprog" where
  "repo_BulkSet params = (if params = [] then tx_ret ()
     else tx_exec (\<lambda>s. Inr ((), fold (\<lambda>(k, v) s. snd (param_upsert k v s)) params s)))"

definition repo_ResetToDefault :: "string \<Rightarrow> SystemParam option pmprog" where
  "repo_ResetToDefault key = tx_exec (\<lambda>s. case pm_table s key of
     None \<Rightarrow> Inr (None, s)
   | Some p \<Rightarrow> let p' = p\<lparr>sp_Value := sp_DefaultValue p, sp_UpdatedAt := pm_now s\<rparr> in Inr (Some p', s\<lparr>pm_table := (pm_table s)(key \<mapsto> p')\<rparr>))"

definition Record :: "SystemParamHistory \<Rightarrow> unit pmprog" where
  "Record h = tx_exec (\<lambda>s. if pm_table s (sh_Key h) = None then Inl (PgError ''23503'')
     else if sh_Action h \<notin> {''set'', ''reset''} then Inl (PgError ''23514'')
     else Inr ((), s\<lparr>pm_history := pm_history s @ [h\<lparr>sh_ChangedAt := pm_now s\<rparr>]\<rparr>))"

section \<open>Cache\<close>

definition defaultCacheTTL :: duration where "defaultCacheTTL = 5 * 60 * 10 ^ 9"
definition defaultRuntimeCacheTTL :: duration where "defaultRuntimeCacheTTL = 30 * 10 ^ 9"

definition ttl_of :: "SystemParam \<Rightarrow> duration" where
  "ttl_of p = (if sp_IsRuntime p then defaultRuntimeCacheTTL else defaultCacheTTL)"

definition fromCache :: "replica \<Rightarrow> string \<Rightarrow> params_db \<Rightarrow> SystemParam option" where
  "fromCache me key s = (case pm_cache s me key of None \<Rightarrow> None | Some (p, expiresAt) \<Rightarrow> if pm_now s < expiresAt then Some p else None)"

definition cache_put :: "replica \<Rightarrow> string \<Rightarrow> (SystemParam \<times> time) option \<Rightarrow> params_db \<Rightarrow> params_db" where
  "cache_put me key e s = s\<lparr>pm_cache := (pm_cache s)(me := (pm_cache s me)(key := e))\<rparr>"

definition setCache :: "replica \<Rightarrow> string \<Rightarrow> SystemParam \<Rightarrow> unit pmprog" where
  "setCache me key p = (\<lambda>fs s. (Inr (), fs, cache_put me key (Some (p, pm_now s + ttl_of p)) s))"

definition evict :: "replica \<Rightarrow> string \<Rightarrow> unit pmprog" where
  "evict me key = (\<lambda>fs s. (Inr (), fs, cache_put me key None s))"

definition ParamGet :: "replica \<Rightarrow> string \<Rightarrow> SystemParam option pmprog" where
  "ParamGet me key = tx_bind (tx_read (fromCache me key)) (\<lambda>r. case r of
     Some p \<Rightarrow> tx_ret (Some p)
   | None \<Rightarrow> tx_bind (repo_Get key) (\<lambda>r. case r of
       None \<Rightarrow> tx_ret None
     | Some p \<Rightarrow> tx_bind (setCache me key p) (\<lambda>_. tx_ret (Some p))))"

section \<open>Validation\<close>

definition bool_literals :: "string list" where
  "bool_literals = [''1'', ''t'', ''T'', ''TRUE'', ''true'', ''True'', ''0'', ''f'', ''F'', ''FALSE'', ''false'', ''False'']"

text \<open>\<^verbatim>\<open>strconv.ParseBool\<close>.\<close>
definition ParseBool :: "string \<Rightarrow> bool option" where
  "ParseBool v = (if v \<in> set bool_literals then Some (v \<in> set (take 6 bool_literals)) else None)"

definition validateParamValue :: "golib \<Rightarrow> string \<Rightarrow> SystemParamType \<Rightarrow> unit result" where
  "validateParamValue gl value typ = (case typ of
     SystemParamTypeInt \<Rightarrow> if Atoi value = None then Inl (Validation (''value '' @ quote value @ '' cannot be parsed as int'')) else Inr ()
   | SystemParamTypeBool \<Rightarrow> if ParseBool value = None then Inl (Validation (''value '' @ quote value @ '' cannot be parsed as bool (accepted: true, false, 1, 0)'')) else Inr ()
   | SystemParamTypeDuration \<Rightarrow> if \<not> gl_ParseDuration gl value then Inl (Validation (''value '' @ quote value @ '' cannot be parsed as duration (e.g. 5m, 30s, 1h)'')) else Inr ()
   | SystemParamTypeString \<Rightarrow> Inr ())"

text \<open>The ranges of the integer parameters, in the order of the source.\<close>

definition base_constraints :: "(string \<times> int \<times> int) list" where
  "base_constraints = [
    (''scoring.exact_score'', 1, 100),
    (''scoring.correct_outcome'', 0, 100),
    (''scoring.goal_difference'', 0, 100),
    (''scoring.extra_time_bonus'', 0, 100),
    (''scoring.penalties_bonus'', 0, 100),
    (''scoring.update_chunk_size'', 50, 10000),
    (''prediction.deadline_minutes'', 0, 1440),
    (''group.min_members_for_active'', 2, 1000),
    (''group.max_size'', 2, 1000),
    (''group.invite_code_length'', 6, 64),
    (''group.entry_fee_cents'', 0, 1000000),
    (''conflict.stale_days'', 1, 365),
    (''conflict.max_scan'', 100, 100000),
    (''pagination.default_limit'', 1, 1000),
    (''pagination.max_limit'', 1, 10000),
    (''tournament.win_points'', 1, 10),
    (''admin.bulk_max_items'', 1, 10000),
    (''cache.match_ttl_seconds'', 0, 86400),
    (''cache.leaderboard_ttl_seconds'', 0, 86400),
    (''cache.dashboard_ttl_seconds'', 0, 86400),
    (''audit.write_timeout_seconds'', 1, 60),
    (''auth.validation_timeout_seconds'', 1, 60),
    (''auth.session_max_age_seconds'', 300, 2592000),
    (''auth.require_mfa'', 0, 1),
    (''audit.max_retries'', 1, 10),
    (''audit.retry_delay_ms'', 10, 10000),
    (''audit.max_in_flight'', 10, 10000)]"

definition infra_constraints :: "(string \<times> int \<times> int) list" where
  "infra_constraints = [
    (''dlq.sample_size'', 1, 100),
    (''dlq.replay_default_limit'', 1, 1000),
    (''messaging.max_retries'', 1, 20),
    (''messaging.stream_max_len'', 10000, 10000000),
    (''messaging.stream_worker_count'', 1, 64),
    (''messaging.stream_read_block_sec'', 1, 60),
    (''worker.snapshot_concurrency'', 1, 256),
    (''worker.snapshot_retry_base_ms'', 10, 10000),
    (''worker.snapshot_max_attempts'', 1, 10),
    (''worker.dlq_monitor_interval_sec'', 10, 86400),
    (''worker.purge_interval_hours'', 1, 720),
    (''worker.sched_pred_deadline_interval_sec'', 60, 3600),
    (''worker.sched_match_result_interval_sec'', 60, 3600),
    (''worker.sched_pending_reminder_interval_sec'', 60, 86400),
    (''worker.sched_stale_escalation_interval_sec'', 60, 86400),
    (''worker.sched_push_prune_interval_sec'', 3600, 604800),
    (''worker.sched_daily_summary_interval_sec'', 60, 3600),
    (''worker.sched_daily_summary_result_delay_min'', 1, 120),
    (''worker.leaderboard_publish_max_attempts'', 1, 10),
    (''worker.leaderboard_publish_base_delay_ms'', 10, 5000),
    (''system.purge_retention_days'', 1, 365),
    (''worker.outbox_retention_days'', 1, 365),
    (''payment.intent_retention_days'', 1, 90),
    (''api.body_size_limit_bytes'', 1024, 10485760),
    (''api.rate_limit_rate_per_sec'', 1, 1000),
    (''api.rate_limit_burst'', 1, 1000),
    (''admin.rate_limit_rate_per_sec'', 1, 100),
    (''admin.rate_limit_burst'', 1, 100),
    (''api.ip_rate_limit_global_rps'', 1, 10000),
    (''api.ip_rate_limit_global_burst'', 1, 10000),
    (''api.ip_rate_limit_webhook_rps'', 1, 1000),
    (''api.ip_rate_limit_webhook_burst'', 1, 1000),
    (''snapshot.keep_latest_count'', 1, 1000),
    (''system.param_history_retention_days'', 1, 365),
    (''fx.history_retention_days'', 7, 730)]"

definition money_constraints :: "(string \<times> int \<times> int) list" where
  "money_constraints = [
    (''payment.max_upload_bytes'', 102400, 52428800),
    (''payment.withdrawal_min_cents'', 100, 1000000),
    (''payment.withdrawal_max_cents'', 1000, 100000000),
    (''payment.withdrawal_min_usd_cents'', 1, 100000),
    (''payment.bank_transfer_min_amount_cents'', 100, 1000000),
    (''payment.bank_transfer_max_amount_cents'', 1000, 100000000),
    (''payment.intent_ttl_minutes'', 5, 1440),
    (''payment.intent_max_cents'', 1, 10000000),
    (''payment.usd_gtq_rate'', 100, 10000),
    (''payment.exchange_rate_margin_bps'', 0, 500),
    (''fx.buy_margin_bps'', 0, 500),
    (''fx.sell_margin_bps'', 0, 500),
    (''fx.display_decimals'', 2, 8),
    (''fx.stale_threshold_h'', 1, 72),
    (''fx.banguat_timeout_sec'', 1, 60),
    (''fx.exchange_rate_api_timeout_sec'', 1, 60),
    (''fx.open_exchange_timeout_sec'', 1, 60),
    (''api.idempotency_ttl_hours'', 1, 720),
    (''api.idempotency_key_max_len'', 16, 4096),
    (''breaker.paypal_cert_max_fails'', 1, 100),
    (''breaker.paypal_cert_cooldown_sec'', 1, 3600),
    (''breaker.file_store_max_fails'', 1, 100),
    (''breaker.file_store_cooldown_sec'', 1, 3600),
    (''breaker.cache_max_fails'', 1, 100),
    (''breaker.cache_cooldown_sec'', 1, 3600),
    (''repository.tx_retry_max_attempts'', 1, 20),
    (''repository.tx_retry_base_delay_ms'', 1, 10000),
    (''repository.tx_retry_max_delay_ms'', 1, 60000),
    (''notify.bank_transfer_stale_sec'', 3600, 172800),
    (''notify.withdrawal_stale_sec'', 3600, 259200),
    (''notify.high_value_withdrawal_cents'', 100000, 100000000),
    (''notify.pending_reminder_interval_sec'', 1800, 86400),
    (''notify.prediction_deadline_lead_min_1'', 5, 120)]"

definition notify_constraints :: "(string \<times> int \<times> int) list" where
  "notify_constraints = [
    (''notify.prediction_deadline_lead_min_2'', 5, 60),
    (''notify.prediction_missing_lead_min'', 15, 240),
    (''notify.sse_heartbeat_interval_sec'', 5, 300),
    (''notify.web_push_ttl_sec'', 3600, 2592000),
    (''notify.bank_transfer_queue_depth_threshold'', 1, 500),
    (''notify.template_cache_ttl_seconds'', 30, 3600),
    (''notify.push_title_max_chars'', 10, 500),
    (''notify.push_body_max_chars'', 50, 2000),
    (''notify.push_sub_retention_days'', 1, 365),
    (''notify.push_digest_window_sec'', 30, 3600),
    (''notify.push_digest_threshold'', 1, 100),
    (''notify.render_timeout_ms'', 100, 30000),
    (''notify.dlq_replay_batch_size'', 1, 500),
    (''notify.dlq_replay_poll_interval_sec'', 5, 3600),
    (''notify.dlq_replay_max_attempts'', 1, 20),
    (''notify.dlq_replay_alert_threshold'', 1, 10000),
    (''notify.outbox_batch_size'', 1, 1000),
    (''notify.outbox_poll_interval_sec'', 1, 3600),
    (''notify.outbox_lock_duration_sec'', 30, 3600),
    (''notify.outbox_max_attempts'', 1, 20),
    (''notify.outbox_lag_alert_threshold_sec'', 1, 3600),
    (''notify.outbox_lag_critical_sec'', 1, 86400),
    (''notify.dlq_warning_threshold'', 1, 10000),
    (''notify.sse_chan_buf_size'', 8, 1024),
    (''notify.sse_max_conns_per_user'', 0, 100),
    (''notify.sse_evict_after_drops'', 2, 50),
    (''notify.outbox_stale_lock_threshold_sec'', 60, 86400),
    (''kyc.tier1_deposit_limit_cents'', 100000, 500000000),
    (''kyc.tier2_deposit_limit_cents'', 100000, 1000000000)]"

definition late_constraints :: "(string \<times> int \<times> int) list" where
  "late_constraints = [
    (''kyc.tier2_payout_limit_cents'', 100000, 1000000000),
    (''kyc.aml_threshold_cents'', 100000, 2000000000),
    (''kyc.review_interval_days'', 30, 1825),
    (''kyc.max_doc_upload_bytes'', 102400, 52428800),
    (''kyc.tier1_deposit_velocity_cents'', 0, 50000000),
    (''kyc.tier2_deposit_velocity_cents'', 100000, 500000000),
    (''kyc.tier1_withdrawal_velocity_cents'', 0, 50000000),
    (''kyc.tier2_withdrawal_velocity_cents'', 0, 500000000),
    (''kyc.risk_dashboard_cache_ttl_sec'', 10, 3600),
    (''kyc.ip_velocity_window_minutes'', 5, 1440),
    (''kyc.ip_velocity_max_submissions'', 0, 100),
    (''kyc.doc_retention_years'', 1, 20),
    (''tournament.general_entry_fee_cents'', 0, 100000000),
    (''tournament.round_entry_fee_cents'', 0, 100000000),
    (''group.free_max_members'', 1, 1000),
    (''match.sync.fast_poll_interval_sec'', 5, 300),
    (''match.sync.slow_poll_interval_sec'', 60, 3600),
    (''match.sync.league_id'', 1, 99999),
    (''match.sync.season'', 2020, 2100),
    (''match.dailysync.hour'', 0, 23),
    (''match.sync.prematch_window_min'', 0, 120),
    (''match.sync.stop_after_zero_live_count'', 1, 20),
    (''match.sync.no_matches_pause_sec'', 60, 86400)]"

definition paramIntConstraints :: "string \<rightharpoonup> int \<times> int" where
  "paramIntConstraints = map_of (base_constraints @ infra_constraints @ money_constraints @ notify_constraints @ late_constraints)"

text \<open>\<^verbatim>\<open>base64.RawURLEncoding.DecodeString\<close>: the number of bytes decoded; line breaks are skipped.\<close>
definition url64_char :: "char \<Rightarrow> bool" where
  "url64_char c \<longleftrightarrow> (let n = of_char c :: nat in 65 \<le> n \<and> n \<le> 90 \<or> 97 \<le> n \<and> n \<le> 122 \<or> 48 \<le> n \<and> n \<le> 57 \<or> n = 45 \<or> n = 95)"

definition raw_url_decoded_len :: "string \<Rightarrow> nat option" where
  "raw_url_decoded_len v = (let w = filter (\<lambda>c. c \<noteq> CHR 0x0A \<and> c \<noteq> CHR 0x0D) v in
     if list_all url64_char w \<and> length w mod 4 \<noteq> 1 then Some (length w * 6 div 8) else None)"

definition bool_or_empty :: "string \<Rightarrow> bool" where
  "bool_or_empty v \<longleftrightarrow> v \<in> {[], ''true'', ''false'', ''1'', ''0''}"

definition relative_path :: "string \<Rightarrow> bool" where
  "relative_path v \<longleftrightarrow> v = [] \<or> HasPrefix v ''/'' \<and> \<not> HasPrefix v ''//''"

text \<open>\<^verbatim>\<open>paramStringConstraints\<close>: the acceptance test of a key, if it has one.\<close>
definition paramStringConstraints :: "golib \<Rightarrow> string \<rightharpoonup> (string \<Rightarrow> bool)" where
  "paramStringConstraints gl = map_of [
     (''group.currency'', \<lambda>v. v \<in> {[], ''GTQ'', ''USD''}),
     (''notify.default_locale'', \<lambda>v. v \<in> {[], ''en'', ''es''}),
     (''notify.scheduler_timezone'', \<lambda>v. v = [] \<or> gl_LoadLocation gl v),
     (''notify.from_address'', \<lambda>v. v = [] \<or> CHR ''@'' \<in> set v),
     (''notify.push_icon_url'', relative_path),
     (''notify.push_badge_url'', relative_path),
     (''notify.web_push_vapid_public_key'', \<lambda>v. v = [] \<or> raw_url_decoded_len v = Some 65),
     (''notify.web_push_vapid_subject'', \<lambda>v. v = [] \<or> HasPrefix v ''https://'' \<or> HasPrefix v ''mailto:''),
     (''match.sync.enabled'', bool_or_empty),
     (''match.sync.provider'', \<lambda>v. v \<in> {[], ''api-football''}),
     (''system.date'', \<lambda>v. v = [] \<or> gl_ParseRFC3339 gl v),
     (''featflag.paypal'', bool_or_empty),
     (''notify.admin_emails'', \<lambda>v. v = [] \<or> list_all (\<lambda>a. CHR ''@'' \<in> set (TrimSpace a)) (Split (CHR '','') v))]"

text \<open>A string constraint is its acceptance test; the messages of failed ones, which only differ in their wording, are one.\<close>
definition validateParamConstraints :: "golib \<Rightarrow> string \<Rightarrow> string \<Rightarrow> SystemParamType \<Rightarrow> unit result" where
  "validateParamConstraints gl key value typ = (case typ of
     SystemParamTypeInt \<Rightarrow> (let n = (case Atoi value of None \<Rightarrow> 0 | Some n \<Rightarrow> n) in case paramIntConstraints key of
         None \<Rightarrow> Inr ()
       | Some (lo, hi) \<Rightarrow> if n < lo \<or> n > hi then Inl (Validation (''value '' @ Itoa n @ '' is out of allowed range ['' @ Itoa lo @ '', '' @ Itoa hi @ '']'')) else Inr ())
   | SystemParamTypeString \<Rightarrow> (case paramStringConstraints gl key of
         None \<Rightarrow> Inr ()
       | Some accepts \<Rightarrow> if accepts value then Inr () else Inl (Validation (''value of '' @ key @ '' is not accepted'')))
   | _ \<Rightarrow> Inr ())"

definition validateAndGetExisting :: "golib \<Rightarrow> replica \<Rightarrow> string \<Rightarrow> string \<Rightarrow> SystemParam option pmprog" where
  "validateAndGetExisting gl me key value =
     tx_bind (ParamGet me key) (\<lambda>existing. case existing of
       None \<Rightarrow> tx_ret None
     | Some p \<Rightarrow>
         tx_bind (tx_lift (validateParamValue gl value (sp_Type p))) (\<lambda>_.
         tx_bind (tx_lift (validateParamConstraints gl key value (sp_Type p))) (\<lambda>_. tx_ret (Some p))))"

section \<open>Service\<close>

definition recordHistory :: "string \<Rightarrow> string \<Rightarrow> string \<Rightarrow> int \<Rightarrow> string \<Rightarrow> unit pmprog" where
  "recordHistory key oldValue newValue actorID action =
     tx_ignore (Record \<lparr>sh_Key = key, sh_OldValue = oldValue, sh_NewValue = newValue, sh_ActorID = actorID, sh_Action = action, sh_ChangedAt = 0\<rparr>)"

definition ParamSet :: "golib \<Rightarrow> replica \<Rightarrow> string \<Rightarrow> string \<Rightarrow> int \<Rightarrow> SystemParam pmprog" where
  "ParamSet gl me key value actorID =
     tx_bind (validateAndGetExisting gl me key value) (\<lambda>old.
     tx_bind (repo_Set key value) (\<lambda>p.
     tx_bind (evict me key) (\<lambda>_.
     tx_bind (case old of None \<Rightarrow> tx_ret () | Some o' \<Rightarrow> recordHistory key (sp_Value o') value actorID ''set'') (\<lambda>_. tx_ret p))))"

definition ResetToDefault :: "replica \<Rightarrow> string \<Rightarrow> int \<Rightarrow> SystemParam pmprog" where
  "ResetToDefault me key actorID =
     tx_bind (tx_try (ParamGet me key) (\<lambda>_. tx_ret None) tx_ret) (\<lambda>old.
     tx_bind (repo_ResetToDefault key) (\<lambda>r. case r of
       None \<Rightarrow> tx_err (NotFound (''system param not found: '' @ key))
     | Some p \<Rightarrow>
         tx_bind (evict me key) (\<lambda>_.
         tx_bind (case old of None \<Rightarrow> tx_ret () | Some o' \<Rightarrow> recordHistory key (sp_Value o') (sp_Value p) actorID ''reset'') (\<lambda>_. tx_ret p))))"

text \<open>The entries of a Go map, in the order of one iteration.\<close>
fun collect_old :: "golib \<Rightarrow> replica \<Rightarrow> (string \<times> string) list \<Rightarrow> (string \<times> string \<times> string) list pmprog" where
  "collect_old gl me [] = tx_ret []"
| "collect_old gl me ((key, value) # ps) =
     tx_bind (validateAndGetExisting gl me key value) (\<lambda>existing.
     tx_bind (collect_old gl me ps) (\<lambda>olds. tx_ret (case existing of None \<Rightarrow> olds | Some p \<Rightarrow> (key, sp_Value p, value) # olds)))"

definition BulkSet :: "golib \<Rightarrow> replica \<Rightarrow> (string \<times> string) list \<Rightarrow> int \<Rightarrow> unit pmprog" where
  "BulkSet gl me params actorID =
     tx_bind (collect_old gl me params) (\<lambda>olds.
     tx_bind (repo_BulkSet params) (\<lambda>_.
     tx_bind (tx_iter (\<lambda>(key, _). evict me key) params) (\<lambda>_.
     tx_iter (\<lambda>(key, oldValue, newValue). recordHistory key oldValue newValue actorID ''set'') olds)))"

definition sensitiveParamPrefixes :: "string list" where
  "sensitiveParamPrefixes = [''scoring.'', ''payment.'', ''fx.'']"

definition IsSensitiveParamKey :: "string \<Rightarrow> bool" where
  "IsSensitiveParamKey key \<longleftrightarrow> list_ex (HasPrefix key) sensitiveParamPrefixes"

fun collect_diffs :: "golib \<Rightarrow> replica \<Rightarrow> (string \<times> string) list \<Rightarrow> ParamDiff list pmprog" where
  "collect_diffs gl me [] = tx_ret []"
| "collect_diffs gl me ((key, newValue) # ps) =
     tx_bind (validateAndGetExisting gl me key newValue) (\<lambda>existing.
     tx_bind (collect_diffs gl me ps) (\<lambda>diffs.
     tx_ret (\<lparr>pd_Key = key, pd_OldValue = (case existing of None \<Rightarrow> [] | Some p \<Rightarrow> sp_Value p), pd_NewValue = newValue,
       pd_IsSensitive = IsSensitiveParamKey key\<rparr> # diffs)))"

definition byte_string :: "string \<Rightarrow> nat list" where
  "byte_string s = map of_char s"

definition BulkPreview :: "golib \<Rightarrow> replica \<Rightarrow> (string \<times> string) list \<Rightarrow> ParamDiff list pmprog" where
  "BulkPreview gl me params = tx_bind (collect_diffs gl me params) (\<lambda>diffs. tx_ret (sort_key (\<lambda>d. byte_string (pd_Key d)) diffs))"

definition ParamGetString :: "replica \<Rightarrow> string \<Rightarrow> string \<Rightarrow> string pmprog" where
  "ParamGetString me key defaultVal = tx_try (ParamGet me key) (\<lambda>_. tx_ret defaultVal) (\<lambda>r. case r of None \<Rightarrow> tx_ret defaultVal | Some p \<Rightarrow> tx_ret (sp_Value p))"

definition ParamGetInt :: "replica \<Rightarrow> string \<Rightarrow> int \<Rightarrow> int pmprog" where
  "ParamGetInt me key defaultVal = tx_bind (ParamGetString me key []) (\<lambda>raw.
     tx_ret (if raw = [] then defaultVal else case Atoi raw of None \<Rightarrow> defaultVal | Some n \<Rightarrow> n))"

definition ParamGetBool :: "replica \<Rightarrow> string \<Rightarrow> bool \<Rightarrow> bool pmprog" where
  "ParamGetBool me key defaultVal = tx_bind (ParamGetString me key []) (\<lambda>raw.
     tx_ret (if raw = [] then defaultVal else case ParseBool raw of None \<Rightarrow> defaultVal | Some b \<Rightarrow> b))"

section \<open>Stored values stay in range\<close>

definition good_int :: "string \<Rightarrow> string \<Rightarrow> bool" where
  "good_int k v \<longleftrightarrow> (\<exists>n. Atoi v = Some n \<and> (\<forall>lo hi. paramIntConstraints k = Some (lo, hi) \<longrightarrow> lo \<le> n \<and> n \<le> hi))"

definition int_ok :: "string \<Rightarrow> SystemParam \<Rightarrow> bool" where
  "int_ok k p \<longleftrightarrow> (sp_Type p = SystemParamTypeInt \<longrightarrow> good_int k (sp_Value p) \<and> good_int k (sp_DefaultValue p))"

definition same_kind :: "SystemParam \<Rightarrow> SystemParam \<Rightarrow> bool" where
  "same_kind p q \<longleftrightarrow> sp_Type q = sp_Type p \<and> sp_IsRuntime q = sp_IsRuntime p"

definition cached_ok :: "params_db \<Rightarrow> string \<Rightarrow> SystemParam \<times> time \<Rightarrow> bool" where
  "cached_ok s k = (\<lambda>(p, e). int_ok k p \<and> e - ttl_of p \<le> pm_now s \<and>
     (\<exists>q. pm_table s k = Some q \<and> same_kind p q \<and> (sp_UpdatedAt q < e - ttl_of p \<longrightarrow> q = p)))"

definition params_ok :: "params_db \<Rightarrow> bool" where
  "params_ok s \<longleftrightarrow> (\<forall>k p. pm_table s k = Some p \<longrightarrow> int_ok k p \<and> sp_UpdatedAt p \<le> pm_now s) \<and> (\<forall>i k e. pm_cache s i k = Some e \<longrightarrow> cached_ok s k e)"

text \<open>The rows of the table \<open>T\<close> are still there, with their type.\<close>
definition kinds_kept :: "(string \<rightharpoonup> SystemParam) \<Rightarrow> params_db \<Rightarrow> bool" where
  "kinds_kept T s \<longleftrightarrow> (\<forall>k p. T k = Some p \<longrightarrow> (\<exists>q. pm_table s k = Some q \<and> same_kind p q))"

definition params_inv :: "(string \<rightharpoonup> SystemParam) \<Rightarrow> params_db \<Rightarrow> bool" where
  "params_inv T s \<longleftrightarrow> params_ok s \<and> kinds_kept T s"

lemma same_kind_refl [simp]: "same_kind p p"
  by (simp add: same_kind_def)

lemma same_kind_trans: "same_kind p q \<Longrightarrow> same_kind q r \<Longrightarrow> same_kind p r"
  by (simp add: same_kind_def)

lemma params_okD:
  assumes "params_ok s"
  shows "pm_table s k = Some p \<Longrightarrow> int_ok k p" "pm_table s k = Some p \<Longrightarrow> sp_UpdatedAt p \<le> pm_now s" "pm_cache s i k = Some e \<Longrightarrow> cached_ok s k e"
  using assms unfolding params_ok_def by blast+

lemma inv_write:
  assumes "params_inv T s" "int_ok k q" "sp_UpdatedAt q = pm_now s" "\<And>q0. pm_table s k = Some q0 \<Longrightarrow> same_kind q0 q"
  shows "params_inv T (s\<lparr>pm_table := (pm_table s)(k \<mapsto> q)\<rparr>)" (is "params_inv T ?s")
proof -
  have ok: "params_ok s" and kept: "kinds_kept T s" using assms(1) by (simp_all add: params_inv_def)
  have "cached_ok ?s k' e" if "pm_cache s i k' = Some e" for i k' e
  proof -
    obtain p x where e: "e = (p, x)" by (cases e)
    from params_okD(3) [OF ok that] obtain q0 where c: "int_ok k' p" "x - ttl_of p \<le> pm_now s" "pm_table s k' = Some q0" "same_kind p q0" "sp_UpdatedAt q0 < x - ttl_of p \<longrightarrow> q0 = p"
      by (auto simp: cached_ok_def e)
    then show ?thesis using assms(3,4) same_kind_trans [of p q0 q] by (auto simp: cached_ok_def e)
  qed
  moreover have "int_ok k' p \<and> sp_UpdatedAt p \<le> pm_now s" if "pm_table ?s k' = Some p" for k' p
    using that params_okD(1,2) [OF ok] assms(2,3) by (auto split: if_splits)
  ultimately have "params_ok ?s" by (simp add: params_ok_def)
  moreover have "kinds_kept T ?s" using kept assms(4) unfolding kinds_kept_def
    by (metis (no_types, lifting) fun_upd_apply same_kind_trans params_db.select_convs(2) params_db.surjective params_db.update_convs(2))
  ultimately show ?thesis by (simp add: params_inv_def)
qed

lemma inv_cache:
  assumes "params_inv T s" "case e of None \<Rightarrow> True | Some (p, x) \<Rightarrow> pm_table s k = Some p \<and> x = pm_now s + ttl_of p"
  shows "params_inv T (cache_put i k e s)"
proof -
  have ok: "params_ok s" using assms(1) by (simp add: params_inv_def)
  have same: "cached_ok (cache_put i k e s) k' x = cached_ok s k' x" for k' x by (simp add: cached_ok_def cache_put_def)
  have "cached_ok s k' x" if "pm_cache (cache_put i k e s) j k' = Some x" for j k' x
    using that assms(2) params_okD [OF ok] by (auto simp: cache_put_def cached_ok_def split: if_splits option.splits)
  then have "params_ok (cache_put i k e s)" using ok by (simp add: params_ok_def same) (simp add: cache_put_def)
  then show ?thesis using assms(1) by (simp add: params_inv_def kinds_kept_def cache_put_def)
qed

lemma ParamGet_valid:
  "tx_valid (\<lambda>s. params_inv T s \<and> A (pm_table s)) (ParamGet me key)
    (\<lambda>r s. params_inv T s \<and> A (pm_table s) \<and> (case r of None \<Rightarrow> pm_table s key = None | Some p \<Rightarrow> int_ok key p \<and> (\<exists>q. pm_table s key = Some q \<and> same_kind p q)))
    (\<lambda>_ s. params_inv T s \<and> A (pm_table s))"
proof (rule tx_validI)
  fix fs s r fs' s' assume inv: "params_inv T s \<and> A (pm_table s)" and run: "ParamGet me key fs s = (Inr r, fs', s')"
  have ok: "params_ok s" using inv by (simp add: params_inv_def)
  show "params_inv T s' \<and> A (pm_table s') \<and> (case r of None \<Rightarrow> pm_table s' key = None | Some p \<Rightarrow> int_ok key p \<and> (\<exists>q. pm_table s' key = Some q \<and> same_kind p q))"
  proof (cases "fromCache me key s")
    case (Some p)
    then obtain x where "pm_cache s me key = Some (p, x)" by (auto simp: fromCache_def split: option.splits if_splits)
    then have "cached_ok s key (p, x)" by (rule params_okD(3) [OF ok])
    then show ?thesis using inv run Some by (auto simp: ParamGet_def tx_runs cached_ok_def)
  next
    case None
    show ?thesis
    proof (cases "pm_table s key")
      case None
      then show ?thesis using inv run \<open>fromCache me key s = None\<close> by (auto simp: ParamGet_def tx_runs repo_Get_def)
    next
      case (Some p)
      then have "s' = cache_put me key (Some (p, pm_now s + ttl_of p)) s" "r = Some p"
        using run \<open>fromCache me key s = None\<close> by (auto simp: ParamGet_def tx_runs repo_Get_def setCache_def)
      then show ?thesis using inv Some params_okD(1) [OF ok Some] inv_cache [of T s key "Some (p, pm_now s + ttl_of p)" me] by (auto simp: cache_put_def)
    qed
  qed
next
  fix fs s e fs' s' assume inv: "params_inv T s \<and> A (pm_table s)" and run: "ParamGet me key fs s = (Inl e, fs', s')"
  have "s' = s" using run by (auto simp: ParamGet_def tx_defs repo_Get_def setCache_def split: option.splits prod.splits)
  then show "params_inv T s' \<and> A (pm_table s')" using inv by simp
qed

text \<open>Writing \<open>v\<close> to the key keeps an integer row good.\<close>
definition acceptable :: "string \<Rightarrow> string \<Rightarrow> (string \<rightharpoonup> SystemParam) \<Rightarrow> bool" where
  "acceptable k v t \<longleftrightarrow> (\<forall>q. t k = Some q \<longrightarrow> sp_Type q = SystemParamTypeInt \<longrightarrow> good_int k v)"

lemma validated_good:
  assumes "validateParamValue gl v SystemParamTypeInt = Inr ()" "validateParamConstraints gl k v SystemParamTypeInt = Inr ()"
  shows "good_int k v"
  using assms by (auto simp: validateParamValue_def validateParamConstraints_def good_int_def Let_def split: if_splits option.splits)

lemma validate_valid:
  "tx_valid (\<lambda>s. params_inv T s \<and> A (pm_table s)) (validateAndGetExisting gl me key v)
    (\<lambda>_ s. params_inv T s \<and> A (pm_table s) \<and> acceptable key v (pm_table s)) (\<lambda>_. params_inv T)"
  unfolding validateAndGetExisting_def
proof -
  let ?R = "\<lambda>r s. params_inv T s \<and> A (pm_table s) \<and> (case r of None \<Rightarrow> pm_table s key = None | Some p \<Rightarrow> int_ok key p \<and> (\<exists>q. pm_table s key = Some q \<and> same_kind p q))"
  have get: "tx_valid (\<lambda>s. params_inv T s \<and> A (pm_table s)) (ParamGet me key) ?R (\<lambda>_. params_inv T)"
    by (rule tx_valid_weaken [OF ParamGet_valid [of T A me key]]) auto
  have step: "tx_valid (?R r) (case r of None \<Rightarrow> tx_ret None
     | Some p \<Rightarrow> tx_bind (tx_lift (validateParamValue gl v (sp_Type p))) (\<lambda>_.
         tx_bind (tx_lift (validateParamConstraints gl key v (sp_Type p))) (\<lambda>_. tx_ret (Some p))))
    (\<lambda>_ s. params_inv T s \<and> A (pm_table s) \<and> acceptable key v (pm_table s)) (\<lambda>_. params_inv T)" for r
  proof (cases r)
    case None
    then show ?thesis by (auto intro!: tx_valid_ret simp: acceptable_def)
  next
    case (Some p)
    have "acceptable key v (pm_table s)" if "validateParamValue gl v (sp_Type p) = Inr ()" "validateParamConstraints gl key v (sp_Type p) = Inr ()"
      "pm_table s key = Some q" "same_kind p q" for s q
      using that validated_good [of gl v key] by (auto simp: acceptable_def same_kind_def)
    then show ?thesis unfolding Some
      by (auto simp: tx_valid_def tx_defs split: sum.split)
  qed
  show "tx_valid (\<lambda>s. params_inv T s \<and> A (pm_table s)) (tx_bind (ParamGet me key) (\<lambda>existing. case existing of None \<Rightarrow> tx_ret None
     | Some p \<Rightarrow> tx_bind (tx_lift (validateParamValue gl v (sp_Type p))) (\<lambda>_.
         tx_bind (tx_lift (validateParamConstraints gl key v (sp_Type p))) (\<lambda>_. tx_ret (Some p)))))
    (\<lambda>_ s. params_inv T s \<and> A (pm_table s) \<and> acceptable key v (pm_table s)) (\<lambda>_. params_inv T)"
    by (rule tx_valid_bind [OF get step])
qed

lemma upsert_inv:
  assumes "params_inv T s" "acceptable k v (pm_table s)"
  shows "params_inv T (snd (param_upsert k v s))"
proof -
  have ok: "params_ok s" using assms(1) by (simp add: params_inv_def)
  let ?q = "upsert_row (pm_now s) k v (pm_table s k)"
  have "int_ok k ?q"
  proof (cases "pm_table s k")
    case (Some q)
    then show ?thesis using params_okD(1) [OF ok Some] assms(2) by (auto simp: int_ok_def upsert_row_def acceptable_def)
  qed (simp add: int_ok_def upsert_row_def)
  moreover have "sp_UpdatedAt ?q = pm_now s" by (simp add: upsert_row_def split: option.split)
  moreover have "same_kind q0 ?q" if "pm_table s k = Some q0" for q0 using that by (simp add: upsert_row_def same_kind_def)
  ultimately show ?thesis using inv_write [OF assms(1)] by (simp add: param_upsert_def Let_def)
qed

lemma acceptable_upsert: "acceptable k v (pm_table s) \<Longrightarrow> acceptable k v (pm_table (snd (param_upsert k' v' s)))"
  by (auto simp: acceptable_def param_upsert_def upsert_row_def Let_def split: option.splits)

lemma bulk_inv:
  "params_inv T s \<Longrightarrow> \<forall>(k, v)\<in>set ps. acceptable k v (pm_table s) \<Longrightarrow> params_inv T (fold (\<lambda>(k, v) s. snd (param_upsert k v s)) ps s)"
proof (induction ps arbitrary: s)
  case (Cons a ps)
  obtain k v where a: "a = (k, v)" by (cases a)
  show ?case unfolding a fold.simps comp_apply prod.case
    by (rule Cons.IH) (use Cons.prems upsert_inv acceptable_upsert in \<open>auto simp: a\<close>)
qed simp

lemma collect_old_valid:
  "tx_valid (\<lambda>s. params_inv T s \<and> A (pm_table s)) (collect_old gl me ps)
    (\<lambda>_ s. params_inv T s \<and> A (pm_table s) \<and> (\<forall>(k, v)\<in>set ps. acceptable k v (pm_table s))) (\<lambda>_. params_inv T)"
proof (induction ps arbitrary: A)
  case Nil
  then show ?case by (auto intro: tx_valid_ret)
next
  case (Cons a ps)
  obtain k v where a: "a = (k, v)" by (cases a)
  have "tx_valid (\<lambda>s. params_inv T s \<and> (A (pm_table s) \<and> acceptable k v (pm_table s))) (collect_old gl me ps)
    (\<lambda>_ s. params_inv T s \<and> (A (pm_table s) \<and> acceptable k v (pm_table s)) \<and> (\<forall>(k, v)\<in>set ps. acceptable k v (pm_table s))) (\<lambda>_. params_inv T)"
    by (rule Cons.IH [where A = "\<lambda>t. A t \<and> acceptable k v t"])
  then show ?case unfolding a collect_old.simps
    by (intro tx_valid_bind [OF validate_valid]) (auto intro!: tx_valid_ret elim!: tx_valid_bind)
qed

lemma small_keeps:
  "tx_keeps (params_inv T) (recordHistory k a b i c)" "tx_keeps (params_inv T) (evict me k)"
proof -
  show "tx_keeps (params_inv T) (recordHistory k a b i c)" unfolding recordHistory_def Record_def
    by (intro tx_keep) (auto split: if_splits simp: params_inv_def params_ok_def cached_ok_def kinds_kept_def)
  show "tx_keeps (params_inv T) (evict me k)" by (rule tx_keepsI) (auto simp: evict_def intro: inv_cache)
qed

lemma ParamSet_keeps: "tx_keeps (params_inv T) (ParamSet gl me k v actor)"
proof -
  have a: "tx_valid (params_inv T) (validateAndGetExisting gl me k v) (\<lambda>_ s. params_inv T s \<and> acceptable k v (pm_table s)) (\<lambda>_. params_inv T)"
    using validate_valid [of T "\<lambda>_. True"] by simp
  have b: "tx_valid (\<lambda>s. params_inv T s \<and> acceptable k v (pm_table s)) (repo_Set k v) (\<lambda>_. params_inv T) (\<lambda>_. params_inv T)"
    unfolding repo_Set_def by (rule tx_valid_exec) (auto dest: upsert_inv)
  have c: "tx_keeps (params_inv T) (tx_bind (evict me k) (\<lambda>_. tx_bind (case old of None \<Rightarrow> tx_ret () | Some o' \<Rightarrow> recordHistory k (sp_Value o') v actor ''set'') (\<lambda>_. tx_ret p)))" for old p
    by (intro tx_keep small_keeps)
  show ?thesis unfolding ParamSet_def tx_keeps_def by (rule tx_valid_bind [OF a], rule tx_valid_bind [OF b], rule c [unfolded tx_keeps_def])
qed

lemma BulkSet_keeps: "tx_keeps (params_inv T) (BulkSet gl me ps actor)"
proof -
  have a: "tx_valid (params_inv T) (collect_old gl me ps) (\<lambda>_ s. params_inv T s \<and> (\<forall>(k, v)\<in>set ps. acceptable k v (pm_table s))) (\<lambda>_. params_inv T)"
    using collect_old_valid [of T "\<lambda>_. True"] by simp
  have b: "tx_valid (\<lambda>s. params_inv T s \<and> (\<forall>(k, v)\<in>set ps. acceptable k v (pm_table s))) (repo_BulkSet ps) (\<lambda>_. params_inv T) (\<lambda>_. params_inv T)"
    unfolding repo_BulkSet_def by (intro tx_valid_if tx_valid_ret tx_valid_exec) (auto intro: bulk_inv)
  have c: "tx_keeps (params_inv T) (tx_bind (tx_iter (\<lambda>(key, _). evict me key) ps) (\<lambda>_. tx_iter (\<lambda>(key, oldValue, newValue). recordHistory key oldValue newValue actor ''set'') olds))" for olds
    by (intro tx_keep small_keeps)
  show ?thesis unfolding BulkSet_def tx_keeps_def by (rule tx_valid_bind [OF a], rule tx_valid_bind [OF b], rule c [unfolded tx_keeps_def])
qed

lemma ParamGet_keeps: "tx_keeps (params_inv T) (ParamGet me k)"
  unfolding tx_keeps_def by (rule tx_valid_weaken [OF ParamGet_valid [of T "\<lambda>_. True"]]) auto

lemma reset_inv:
  assumes "params_inv T s" "pm_table s k = Some p"
  shows "params_inv T (s\<lparr>pm_table := (pm_table s)(k \<mapsto> p\<lparr>sp_Value := sp_DefaultValue p, sp_UpdatedAt := pm_now s\<rparr>)\<rparr>)"
  by (rule inv_write [OF assms(1)]) (use assms params_okD(1) [of s k p] in \<open>auto simp: params_inv_def int_ok_def same_kind_def\<close>)

lemma Reset_keeps: "tx_keeps (params_inv T) (ResetToDefault me k actor)"
  unfolding ResetToDefault_def repo_ResetToDefault_def
  by (intro tx_keep ParamGet_keeps small_keeps) (auto simp: Let_def intro: reset_inv split: option.splits)

lemma preview_keeps: "tx_keeps (params_inv T) (BulkPreview gl me ps)"
proof -
  have v: "tx_keeps (params_inv T) (validateAndGetExisting gl me k v)" for k v
    unfolding validateAndGetExisting_def by (intro tx_keep ParamGet_keeps)
  have "tx_keeps (params_inv T) (collect_diffs gl me ps)" by (induction ps) (auto intro!: tx_keep v)
  then show ?thesis unfolding BulkPreview_def by (intro tx_keep)
qed

datatype param_op =
    OpParamSet replica string string int
  | OpBulkSet replica "(string \<times> string) list" int
  | OpReset replica string int
  | OpRead replica string
  | OpPreview replica "(string \<times> string) list"
  | OpWait duration

fun run_param_op :: "golib \<Rightarrow> param_op \<Rightarrow> unit pmprog" where
  "run_param_op gl (OpParamSet me k v actor) = tx_void (ParamSet gl me k v actor)"
| "run_param_op gl (OpBulkSet me ps actor) = BulkSet gl me ps actor"
| "run_param_op gl (OpReset me k actor) = tx_void (ResetToDefault me k actor)"
| "run_param_op gl (OpRead me k) = tx_void (ParamGet me k)"
| "run_param_op gl (OpPreview me ps) = tx_void (BulkPreview gl me ps)"
| "run_param_op gl (OpWait d) = (\<lambda>fs s. (Inr (), fs, s\<lparr>pm_now := pm_now s + max 0 d\<rparr>))"

lemma wait_keeps: "tx_keeps (params_inv T) (\<lambda>fs s. (Inr (), fs, s\<lparr>pm_now := pm_now s + max 0 d\<rparr>))"
  by (rule tx_keepsI) (fastforce simp: params_inv_def params_ok_def cached_ok_def kinds_kept_def)

lemma run_param_op_keeps: "tx_keeps (params_inv T) (run_param_op gl oper)"
  by (cases oper) (auto intro!: tx_keep ParamSet_keeps BulkSet_keeps Reset_keeps ParamGet_keeps preview_keeps wait_keeps)

lemma run_params:
  assumes "params_ok s" "s' = run_all (map (\<lambda>(oper, fs). (run_param_op gl oper, fs)) requests) s"
  shows "params_inv (pm_table s) s'"
proof -
  have "params_inv (pm_table s) s" using assms(1) by (auto simp: params_inv_def kinds_kept_def)
  then show ?thesis unfolding assms(2) by (intro run_all_invariant [where I = "params_inv (pm_table s)"]) (use run_param_op_keeps in auto)
qed

text \<open>
  C22: integer parameters stay in their range. Whatever administrators set, bulk-set or reset on any replica, in any order and with any
  failures, every read of a constrained integer parameter, from a cache or from the table, returns a number of its range, or
  the caller's default when the read fails; so code that relies on the range is safe.
\<close>
theorem parameters_stay_in_range:
  assumes "params_ok s" "s' = run_all (map (\<lambda>(oper, fs). (run_param_op gl oper, fs)) requests) s"
    and "pm_table s k = Some p" "sp_Type p = SystemParamTypeInt" "paramIntConstraints k = Some (lo, hi)" "lo \<le> dflt" "dflt \<le> hi"
  shows "\<exists>n. fst (ParamGetInt me k dflt fs s') = Inr n \<and> lo \<le> n \<and> n \<le> hi"
proof -
  have inv: "params_inv (pm_table s) s'" by (rule run_params [OF assms(1,2)])
  then obtain q where q: "pm_table s' k = Some q" "same_kind p q" using assms(3) by (auto simp: params_inv_def kinds_kept_def)
  obtain r fs' s'' where run: "ParamGet me k fs s' = (r, fs', s'')" by (metis prod_cases3)
  show ?thesis
  proof (cases r)
    case (Inl e)
    then show ?thesis using run assms(6,7) by (simp add: ParamGetInt_def ParamGetString_def tx_defs)
  next
    case (Inr x)
    have "case x of None \<Rightarrow> pm_table s'' k = None | Some p' \<Rightarrow> int_ok k p' \<and> (\<exists>q'. pm_table s'' k = Some q' \<and> same_kind p' q')" "pm_table s'' k = Some q"
      using tx_validD(1) [OF ParamGet_valid [of "pm_table s" "\<lambda>t. t k = Some q"] _ run [unfolded Inr]] inv q(1) by auto
    then obtain p' where "x = Some p'" "int_ok k p'" "sp_Type p' = SystemParamTypeInt" using q(2) assms(4) by (auto simp: same_kind_def split: option.splits)
    then have "good_int k (sp_Value p')" by (simp add: int_ok_def)
    then obtain n where n: "Atoi (sp_Value p') = Some n" "lo \<le> n \<and> n \<le> hi" using assms(5) by (auto simp: good_int_def)
    moreover have "sp_Value p' \<noteq> []" using n(1) by (auto simp: Atoi_def)
    ultimately show ?thesis using run \<open>x = Some p'\<close> Inr by (simp add: ParamGetInt_def ParamGetString_def tx_defs)
  qed
qed


text \<open>An uncached read is the read the other components are modelled with.\<close>
lemma ParamGetInt_uncached:
  assumes "pm_cache s me k = None"
  shows "fst (ParamGetInt me k d [] s) = Inr (GetInt (\<lambda>k. map_option sp_Value (pm_table s k)) k d)"
  using assms by (cases "pm_table s k")
    (auto simp: ParamGetInt_def ParamGetString_def ParamGet_def fromCache_def repo_Get_def setCache_def tx_defs GetInt_def GetString_def)

definition example_param :: "string \<Rightarrow> string \<Rightarrow> SystemParam" where
  "example_param k v = \<lparr>sp_Key = k, sp_Value = v, sp_DefaultValue = v, sp_Type = SystemParamTypeInt, sp_Category = ''payment'', sp_IsRuntime = True, sp_UpdatedAt = 0\<rparr>"

definition example_params :: params_db where
  "example_params = \<lparr>pm_now = 0, pm_table = [''payment.usd_gtq_rate'' \<mapsto> example_param ''payment.usd_gtq_rate'' ''775''], pm_history = [], pm_cache = (\<lambda>_. Map.empty)\<rparr>"

definition example_golib :: golib where
  "example_golib = \<lparr>gl_ParseDuration = (\<lambda>_. False), gl_LoadLocation = (\<lambda>_. False), gl_ParseRFC3339 = (\<lambda>_. False)\<rparr>"

lemma example_rate: "paramIntConstraints ''payment.usd_gtq_rate'' = Some (100, 10000)" "Atoi ''775'' = Some 775"
  by code_simp+

lemma example_params_ok: "params_ok example_params"
  by (auto simp: params_ok_def example_params_def example_param_def int_ok_def good_int_def example_rate split: if_splits)

lemma example_params_row:
  "pm_table example_params ''payment.usd_gtq_rate'' = Some (example_param ''payment.usd_gtq_rate'' ''775'')" "sp_Type (example_param k v) = SystemParamTypeInt"
  by (simp_all add: example_params_def example_param_def)

definition example_param_requests :: "(param_op \<times> fault_script) list" where
  "example_param_requests = [(OpRead 1 ''payment.usd_gtq_rate'', []), (OpParamSet 0 ''payment.usd_gtq_rate'' ''0'' 9, []), (OpParamSet 0 ''payment.usd_gtq_rate'' ''780'' 9, []),
     (OpWait 1, [])]"

text \<open>The rate 0 is refused; right after the change to 780 the other replica still reads 775, in the range.\<close>
theorem parameters_stay_in_range_witness:
  "\<exists>n. fst (ParamGetInt 1 ''payment.usd_gtq_rate'' 775 [] (run_all (map (\<lambda>(oper, fs). (run_param_op example_golib oper, fs)) example_param_requests) example_params)) = Inr n \<and>
     100 \<le> n \<and> n \<le> 10000"
  by (rule parameters_stay_in_range [OF example_params_ok refl example_params_row(1,2) example_rate(1)]) simp_all


end
