(* ===== verification/Breaker.thy ===== *)
theory Breaker
  imports Domain
begin

text \<open>
  The circuit breaker (\<^verbatim>\<open>pkg/breaker/breaker.go\<close>). \<^verbatim>\<open>Call\<close> runs \<^verbatim>\<open>allow\<close>, the guarded function and \<^verbatim>\<open>record\<close>; only the first and the last
  hold the mutex, so several calls may be in flight. A run of the breaker is therefore a sequence of
  these atomic steps in any interleaving: the step relation below has one rule per step. The hook on state changes
  is left out.
\<close>

datatype State = StateClosed | StateOpen | StateHalfOpen

record Breaker =
  b_maxFails :: int
  b_openFor :: duration
  b_state :: State
  b_consecutiveFails :: int
  b_openedAt :: time

definition New :: "int \<Rightarrow> duration \<Rightarrow> Breaker" where
  "New maxFails openFor = \<lparr>b_maxFails = (if maxFails < 1 then 1 else maxFails), b_openFor = (if openFor \<le> 0 then 10 ^ 9 else openFor),
     b_state = StateClosed, b_consecutiveFails = 0, b_openedAt = 0\<rparr>"

definition resolveState :: "time \<Rightarrow> Breaker \<Rightarrow> Breaker" where
  "resolveState now b = (if b_state b = StateOpen \<and> now - b_openedAt b \<ge> b_openFor b then b\<lparr>b_state := StateHalfOpen\<rparr> else b)"

text \<open>\<^verbatim>\<open>allow\<close>: whether the call proceeds, and the breaker afterwards.\<close>
definition allow :: "time \<Rightarrow> Breaker \<Rightarrow> bool \<times> Breaker" where
  "allow now b = (let b' = resolveState now b in (b_state b' \<noteq> StateOpen, b'))"

definition CurrentState :: "time \<Rightarrow> Breaker \<Rightarrow> State \<times> Breaker" where
  "CurrentState now b = (let b' = resolveState now b in (b_state b', b'))"

text \<open>\<^verbatim>\<open>record\<close>, with whether the function returned an error.\<close>
definition record_outcome :: "time \<Rightarrow> bool \<Rightarrow> Breaker \<Rightarrow> Breaker" where
  "record_outcome now failed b =
    (if \<not> failed then b\<lparr>b_consecutiveFails := 0, b_state := StateClosed\<rparr>
     else let n = go64 (b_consecutiveFails b + 1) in
       b\<lparr>b_consecutiveFails := n, b_openedAt := now,
         b_state := (if b_state b = StateHalfOpen \<or> n \<ge> b_maxFails b then StateOpen else b_state b)\<rparr>)"

section \<open>Interleaved calls\<close>

text \<open>The breaker, the clock, the calls in flight, and the outcomes recorded so far, newest first.\<close>
record brk =
  br :: Breaker
  br_now :: time
  br_flying :: nat
  br_log :: "(time \<times> bool) list"

inductive brk_step :: "brk \<Rightarrow> brk \<Rightarrow> bool" where
  wait: "0 \<le> d \<Longrightarrow> brk_step s (s\<lparr>br_now := br_now s + d\<rparr>)"
| refused: "allow (br_now s) (br s) = (False, b) \<Longrightarrow> brk_step s (s\<lparr>br := b\<rparr>)"
| started: "allow (br_now s) (br s) = (True, b) \<Longrightarrow> brk_step s (s\<lparr>br := b, br_flying := br_flying s + 1\<rparr>)"
| observed: "CurrentState (br_now s) (br s) = (st, b) \<Longrightarrow> brk_step s (s\<lparr>br := b\<rparr>)"
| finished: "br_flying s = Suc n \<Longrightarrow> brk_step s (s\<lparr>br := record_outcome (br_now s) failed (br s), br_flying := n, br_log := (br_now s, failed) # br_log s\<rparr>)"

inductive_cases brk_stepE: "brk_step s s'"

definition brk_init :: "int \<Rightarrow> duration \<Rightarrow> time \<Rightarrow> brk" where
  "brk_init maxFails openFor now = \<lparr>br = New maxFails openFor, br_now = now, br_flying = 0, br_log = []\<rparr>"

section \<open>Abstract breaker\<close>

text \<open>What the breaker promises, in terms of the recorded outcomes alone.\<close>
definition trailing_failures :: "(time \<times> bool) list \<Rightarrow> int" where
  "trailing_failures log = int (length (takeWhile snd log))"

definition spec_allows :: "int \<Rightarrow> duration \<Rightarrow> time \<Rightarrow> (time \<times> bool) list \<Rightarrow> bool" where
  "spec_allows maxFails openFor now log \<longleftrightarrow> trailing_failures log < maxFails \<or> now - fst (hd log) \<ge> openFor"

lemma trailing_simps [simp]:
  "trailing_failures [] = 0" "trailing_failures ((t, True) # log) = trailing_failures log + 1" "trailing_failures ((t, False) # log) = 0"
  by (simp_all add: trailing_failures_def)

lemma trailing_nonneg [simp]: "0 \<le> trailing_failures log"
  by (simp add: trailing_failures_def)

definition brk_rel :: "int \<Rightarrow> duration \<Rightarrow> brk \<Rightarrow> bool" where
  "brk_rel M W s \<longleftrightarrow> b_maxFails (br s) = M \<and> b_openFor (br s) = W \<and> b_consecutiveFails (br s) = trailing_failures (br_log s) \<and>
     (b_state (br s) = StateClosed \<longleftrightarrow> trailing_failures (br_log s) < M) \<and>
     (0 < trailing_failures (br_log s) \<longrightarrow> b_openedAt (br s) = fst (hd (br_log s))) \<and>
     (b_state (br s) = StateHalfOpen \<longrightarrow> W \<le> br_now s - b_openedAt (br s))"

lemma brk_rel_init: "brk_rel (b_maxFails (New m w)) (b_openFor (New m w)) (brk_init m w t)"
  by (simp add: brk_rel_def brk_init_def New_def)

lemma brk_rel_resolve: "brk_rel M W s \<Longrightarrow> brk_rel M W (s\<lparr>br := resolveState (br_now s) (br s)\<rparr>)"
  by (auto simp: brk_rel_def resolveState_def)

lemma trailing_le: "trailing_failures log \<le> int (length log)"
  by (simp add: trailing_failures_def length_takeWhile_le)

lemma brk_rel_record:
  assumes "brk_rel M W s" "1 \<le> M" "length (br_log s) < 2 ^ 63 - 1"
  shows "brk_rel M W (s\<lparr>br := record_outcome (br_now s) failed (br s), br_flying := n, br_log := (br_now s, failed) # br_log s\<rparr>)"
proof (cases failed)
  case True
  have "go64 (trailing_failures (br_log s) + 1) = trailing_failures (br_log s) + 1"
    using trailing_le [of "br_log s"] trailing_nonneg [of "br_log s"] assms(3) by (intro go64_id) (auto simp: in_int64_def MaxInt_def)
  then show ?thesis using assms(1,2) True by (cases "b_state (br s)") (auto simp: brk_rel_def record_outcome_def Let_def)
qed (use assms in \<open>auto simp: brk_rel_def record_outcome_def\<close>)

lemma brk_step_log: "brk_step s s' \<Longrightarrow> length (br_log s) \<le> length (br_log s')"
  by (auto elim: brk_stepE)

lemma brk_step_rel:
  assumes "brk_step s s'" "brk_rel M W s" "1 \<le> M" "length (br_log s') < 2 ^ 63"
  shows "brk_rel M W s'"
  using assms(1)
proof cases
  case (wait d)
  then show ?thesis using assms(2) by (auto simp: brk_rel_def)
next
  case (refused b)
  then show ?thesis using brk_rel_resolve [OF assms(2)] by (simp add: allow_def Let_def)
next
  case (started b)
  then show ?thesis using brk_rel_resolve [OF assms(2)] by (simp add: allow_def Let_def brk_rel_def)
next
  case (observed st b)
  then show ?thesis using brk_rel_resolve [OF assms(2)] by (simp add: CurrentState_def Let_def)
next
  case (finished n failed)
  then show ?thesis using assms(4) by (auto intro!: brk_rel_record [OF assms(2,3)])
qed

lemma brk_reach_rel:
  assumes "brk_step\<^sup>*\<^sup>* (brk_init m w t) s" "length (br_log s) < 2 ^ 63"
  shows "brk_rel (b_maxFails (New m w)) (b_openFor (New m w)) s"
  using assms
proof (induction rule: rtranclp_induct)
  case base
  show ?case by (rule brk_rel_init)
next
  case (step y z)
  then show ?case using brk_step_log [of y z] brk_step_rel [OF step.hyps(2)] by (simp add: New_def)
qed

text \<open>
  C20: the breaker implements its abstract specification. In every state reachable by interleaved calls, waits and queries, it lets a call pass exactly
  when fewer than \<open>maxFails\<close> failures were recorded since the last success, or the last failure is at
  least \<open>openFor\<close> old, and it is in the closed state exactly in the first case: neither the counters nor the
  interleaving are observable.
\<close>
theorem breaker_refines_history:
  assumes "brk_step\<^sup>*\<^sup>* (brk_init m w t) s" "length (br_log s) < 2 ^ 63"
  shows "fst (allow (br_now s) (br s)) = spec_allows (max 1 m) (if w \<le> 0 then 10 ^ 9 else w) (br_now s) (br_log s) \<and>
    (fst (CurrentState (br_now s) (br s)) = StateClosed) = (trailing_failures (br_log s) < max 1 m)"
proof -
  have "brk_rel (max 1 m) (if w \<le> 0 then 10 ^ 9 else w) s" using brk_reach_rel [OF assms] by (simp add: New_def max_def split: if_splits)
  then show ?thesis
    by (cases "b_state (br s)") (auto simp: brk_rel_def allow_def CurrentState_def resolveState_def spec_allows_def Let_def split: if_splits)
qed

definition example_brk :: brk where
  "example_brk = (brk_init 1 50 0)\<lparr>br := record_outcome 0 True (New 1 50), br_log := [(0, True)]\<rparr>"

lemma example_brk_reach: "brk_step\<^sup>*\<^sup>* (brk_init 1 50 0) example_brk"
proof -
  let ?s = "(brk_init 1 50 0)\<lparr>br_flying := 1\<rparr>"
  have "brk_step (brk_init 1 50 0) ((brk_init 1 50 0)\<lparr>br := New 1 50, br_flying := br_flying (brk_init 1 50 0) + 1\<rparr>)"
    by (rule started) (simp add: brk_init_def New_def allow_def resolveState_def)
  then have "brk_step (brk_init 1 50 0) ?s" by (simp add: brk_init_def)
  moreover have "brk_step ?s example_brk"
    using finished [of ?s 0 True] by (simp add: brk_init_def example_brk_def)
  ultimately show ?thesis by auto
qed

theorem breaker_refines_history_witness:
  "fst (allow (br_now example_brk) (br example_brk)) = spec_allows 1 50 0 [(0, True)] \<and> \<not> fst (allow (br_now example_brk) (br example_brk))"
proof -
  have "length (br_log example_brk) < 2 ^ 63" by (simp add: example_brk_def)
  from breaker_refines_history [OF example_brk_reach this] show ?thesis
    by (simp add: example_brk_def brk_init_def spec_allows_def)
qed

text \<open>
  The half-open state admits any number of calls at once, not a single trial: until the first of them returns, \<^verbatim>\<open>allow\<close> refuses none.
\<close>
lemma example_brk_br [simp]: "br example_brk = \<lparr>b_maxFails = 1, b_openFor = 50, b_state = StateOpen, b_consecutiveFails = 1, b_openedAt = 0\<rparr>"
  "br_now example_brk = 0" "br_flying example_brk = 0"
  by (simp_all add: example_brk_def brk_init_def New_def record_outcome_def Let_def go64_id in_int64_def MaxInt_def)

lemma half_open_admits_many: "\<exists>s. brk_step\<^sup>*\<^sup>* (brk_init 1 50 0) s \<and> b_state (br s) = StateHalfOpen \<and> br_flying s = Suc n"
proof (induction n)
  case 0
  let ?s = "example_brk\<lparr>br_now := br_now example_brk + 50\<rparr>"
  have "brk_step example_brk ?s" by (rule wait) simp
  moreover have "brk_step ?s (?s\<lparr>br := resolveState 50 (br ?s), br_flying := br_flying ?s + 1\<rparr>)"
    by (rule started) (simp add: allow_def resolveState_def)
  ultimately have "brk_step\<^sup>*\<^sup>* (brk_init 1 50 0) (?s\<lparr>br := resolveState 50 (br ?s), br_flying := br_flying ?s + 1\<rparr>)"
    using example_brk_reach by (meson rtranclp.rtrancl_into_rtrancl)
  moreover have "b_state (resolveState 50 (br ?s)) = StateHalfOpen" "br_flying ?s = 0"
    by (simp_all add: resolveState_def)
  ultimately show ?case by (intro exI conjI) auto
next
  case (Suc n)
  then obtain s where s: "brk_step\<^sup>*\<^sup>* (brk_init 1 50 0) s" "b_state (br s) = StateHalfOpen" "br_flying s = Suc n" by blast
  have "brk_step s (s\<lparr>br := br s, br_flying := br_flying s + 1\<rparr>)" by (rule started) (simp add: allow_def resolveState_def s(2) Let_def)
  then show ?case using s by (intro exI [of _ "s\<lparr>br_flying := br_flying s + 1\<rparr>"]) (auto intro: rtranclp.rtrancl_into_rtrancl)
qed

end
