(* ===== verification/Transfers.thy ===== *)
theory Transfers
  imports Intents
begin

text \<open>
  Bank transfers (\<^verbatim>\<open>service/bank_transfer_service.go\<close>, \<^verbatim>\<open>repository/bank_transfer_proof_repository.go\<close>): a user uploads the proof
  of a transfer, an administrator approves it, which credits the account, or rejects it. The limits of the gate
  are checked on upload and, for the rolling total, again on approval. Audit entries, the notification
  written after the commit and the listings are left out.
\<close>

section \<open>Repository\<close>

definition proof_insert :: "BankTransferProof \<Rightarrow> db \<Rightarrow> go_error + BankTransferProof \<times> db" where
  "proof_insert p s = (let p' = p\<lparr>bp_ID := db_seq s, bp_Status := BankTransferPending, bp_ReviewedBy := None, bp_Notes := [],
       bp_ApprovedAmountCents := None, bp_ApprovedAt := None, bp_CreatedAt := db_now s\<rparr> in
     if \<not> in_int32 (bp_AmountCents p) \<or> \<not> in_int32 (bp_FileSize p) then Inl (PgError ''22003'')
     else if bp_AmountCents p \<le> 0 \<or> bp_FileSize p \<le> 0 then Inl (PgError ''23514'')
     else if \<not> user_exists s (Some (bp_UserID p)) then Inl (PgError ''23503'')
     else Inr (p', s\<lparr>db_seq := db_seq s + 1, db_bank_proofs := db_bank_proofs s @ [p']\<rparr>))"

definition CreateProof :: "BankTransferProof \<Rightarrow> BankTransferProof dbprog" where
  "CreateProof p = tx_exec (proof_insert p)"

definition GetProofByID :: "int \<Rightarrow> BankTransferProof option dbprog" where
  "GetProofByID i = tx_query (\<lambda>s. find (\<lambda>p. bp_ID p = i) (db_bank_proofs s))"

text \<open>\<^verbatim>\<open>UPDATE bank_transfer_proofs ... WHERE id = $1 AND status = 'pending' RETURNING\<close>.\<close>
definition proof_review :: "int \<Rightarrow> (BankTransferProof \<Rightarrow> BankTransferProof) \<Rightarrow> db \<Rightarrow> go_error + BankTransferProof list \<times> db" where
  "proof_review i f s = (let p = (\<lambda>p. bp_ID p = i \<and> bp_Status p = BankTransferPending); rows = map f (filter p (db_bank_proofs s)) in
     if list_ex (\<lambda>p. \<not> fits_int4 (bp_ApprovedAmountCents p)) rows then Inl (PgError ''22003'')
     else if list_ex (\<lambda>p. \<not> user_exists s (bp_ReviewedBy p)) rows then Inl (PgError ''23503'')
     else Inr (rows, s\<lparr>db_bank_proofs := update_where p f (db_bank_proofs s)\<rparr>))"

fun bank_status_text :: "BankTransferStatus \<Rightarrow> string" where
  "bank_status_text BankTransferPending = ''pending''"
| "bank_status_text BankTransferApproved = ''approved''"
| "bank_status_text BankTransferRejected = ''rejected''"

definition notFoundOrConflictBankTransfer :: "int \<Rightarrow> BankTransferStatus \<Rightarrow> BankTransferProof dbprog" where
  "notFoundOrConflictBankTransfer i targetStatus = tx_bind (GetProofByID i) (\<lambda>existing. case existing of
     None \<Rightarrow> tx_err (NotFound ''bank transfer proof not found'')
   | Some p \<Rightarrow> if bp_Status p = targetStatus then tx_ret p
       else tx_err (Conflict (''bank transfer proof already '' @ bank_status_text (bp_Status p))))"

definition set_approved :: "int \<Rightarrow> int option \<Rightarrow> string \<Rightarrow> time \<Rightarrow> BankTransferProof \<Rightarrow> BankTransferProof" where
  "set_approved reviewerID override notes now p = p\<lparr>bp_Status := BankTransferApproved, bp_ReviewedBy := Some reviewerID, bp_Notes := notes,
     bp_ApprovedAmountCents := override, bp_ApprovedAt := Some now\<rparr>"

definition set_rejected :: "int \<Rightarrow> string \<Rightarrow> BankTransferProof \<Rightarrow> BankTransferProof" where
  "set_rejected reviewerID notes p = p\<lparr>bp_Status := BankTransferRejected, bp_ReviewedBy := Some reviewerID, bp_Notes := notes\<rparr>"

text \<open>The amount an approval credits: the override of the administrator or the declared amount.\<close>
definition credit_cents :: "int option \<Rightarrow> BankTransferProof \<Rightarrow> int" where
  "credit_cents override p = (case override of None \<Rightarrow> bp_AmountCents p | Some c \<Rightarrow> c)"

definition proof_row :: "int \<Rightarrow> int \<Rightarrow> BankTransferProof \<Rightarrow> int \<Rightarrow> ledgerRow" where
  "proof_row reviewerID cents p balanceAfter = \<lparr>lrow_UserID = bp_UserID p, lrow_DeltaCents = cents, lrow_Kind = LedgerKindBankTransfer,
     lrow_BalanceAfter = balanceAfter, lrow_RefID = bp_ID p, lrow_RefType = ''bank_transfer_proof'', lrow_Reference = [],
     lrow_CreatorID = reviewerID, lrow_SourceCurrency = [], lrow_SourceAmountCents = 0\<rparr>"

text \<open>The closure of the approval; \<open>None\<close> when no proof was pending.\<close>
definition approve_proof_tx :: "int \<Rightarrow> int \<Rightarrow> int option \<Rightarrow> string \<Rightarrow> BankTransferProof option dbprog" where
  "approve_proof_tx i reviewerID override notes =
     tx_bind (tx_exec (\<lambda>s. proof_review i (set_approved reviewerID override notes (db_now s)) s)) (\<lambda>rows. case rows of
       [] \<Rightarrow> tx_ret None
     | p # _ \<Rightarrow>
         tx_bind (tx_exec (user_update (bp_UserID p) (\<lambda>_. True) (add_balance (credit_cents override p)))) (\<lambda>r. case r of
           None \<Rightarrow> tx_err (Internal ErrNoRows)
         | Some u \<Rightarrow> tx_bind (insertLedgerTx (proof_row reviewerID (credit_cents override p) p (u_BalanceCents u))) (\<lambda>_. tx_ret (Some p))))"

definition ApproveAndCredit :: "int \<Rightarrow> int \<Rightarrow> int option \<Rightarrow> string \<Rightarrow> BankTransferProof dbprog" where
  "ApproveAndCredit i reviewerID override notes = tx_bind (withTx (approve_proof_tx i reviewerID override notes)) (\<lambda>r. case r of
     Some p \<Rightarrow> tx_ret p | None \<Rightarrow> notFoundOrConflictBankTransfer i BankTransferApproved)"

definition RejectProof :: "int \<Rightarrow> int \<Rightarrow> string \<Rightarrow> BankTransferProof dbprog" where
  "RejectProof i reviewerID notes = tx_bind (tx_exec (proof_review i (set_rejected reviewerID notes))) (\<lambda>rows. case rows of
     p # _ \<Rightarrow> tx_ret p | [] \<Rightarrow> notFoundOrConflictBankTransfer i BankTransferRejected)"

section \<open>Service\<close>

text \<open>The comparison with the reporting threshold only writes an audit entry.\<close>
definition Upload :: "int \<Rightarrow> int \<Rightarrow> string \<Rightarrow> string \<Rightarrow> string \<Rightarrow> int \<Rightarrow> BankTransferProof dbprog" where
  "Upload userID amountCents currency0 storageKey contentType fileSize = (let currency = (if currency0 = [] then ''GTQ'' else currency0) in
     tx_bind (CheckDeposit userID amountCents currency) (\<lambda>_.
     tx_bind (CheckDepositVelocity userID amountCents currency) (\<lambda>_.
     if amountCents \<le> 0 then tx_err (Validation ''amount_cents must be positive'')
     else if storageKey = [] then tx_err (Validation ''storage_key is required'')
     else tx_bind (CreateProof \<lparr>bp_ID = 0, bp_UserID = userID, bp_AmountCents = amountCents, bp_Currency = currency, bp_StorageKey = storageKey,
       bp_ContentType = contentType, bp_FileSize = fileSize, bp_Status = BankTransferPending, bp_ReviewedBy = None, bp_Notes = [],
       bp_ApprovedAmountCents = None, bp_ApprovedAt = None, bp_CreatedAt = 0\<rparr>) (\<lambda>p.
     tx_bind (tx_ignore (tx_void (ExceedsAMLThreshold amountCents currency))) (\<lambda>_. tx_ret p)))))"

definition ApproveTransfer :: "int \<Rightarrow> int \<Rightarrow> int option \<Rightarrow> string \<Rightarrow> BankTransferProof dbprog" where
  "ApproveTransfer proofID adminID override notes = tx_bind (GetProofByID proofID) (\<lambda>pending. case pending of
     None \<Rightarrow> tx_err (NotFound ''bank transfer proof not found'')
   | Some p \<Rightarrow>
       tx_bind (CheckDepositVelocity (bp_UserID p) (credit_cents override p) (bp_Currency p)) (\<lambda>_.
       ApproveAndCredit proofID adminID override notes))"

definition RejectTransfer :: "int \<Rightarrow> int \<Rightarrow> string \<Rightarrow> BankTransferProof dbprog" where
  "RejectTransfer proofID adminID notes = RejectProof proofID adminID notes"


section \<open>Every transfer is credited exactly once\<close>

definition credited :: "int \<Rightarrow> BalanceLedger list \<Rightarrow> (int \<times> int) list" where
  "credited i rows = map (\<lambda>r. (bl_UserID r, bl_DeltaCents r)) (filter (\<lambda>r. bl_Kind r = LedgerKindBankTransfer \<and> bl_RefID r = Some i) rows)"

definition owed :: "BankTransferProof \<Rightarrow> (int \<times> int) list" where
  "owed p = (if bp_Status p = BankTransferApproved then [(bp_UserID p, credit_cents (bp_ApprovedAmountCents p) p)] else [])"

text \<open>The ledger holds exactly one credit for an approved proof and none for any other; ids are unique and none is ahead of the sequence.\<close>
definition proofs_ok :: "db \<Rightarrow> bool" where
  "proofs_ok s \<longleftrightarrow> (\<forall>p\<in>set (db_bank_proofs s). credited (bp_ID p) (db_ledger s) = owed p \<and> 0 < bp_ID p \<and> bp_ID p < db_seq s) \<and>
     (\<forall>i\<ge>db_seq s. credited i (db_ledger s) = []) \<and> 0 < db_seq s \<and> distinct (map bp_ID (db_bank_proofs s))"

text \<open>What may become of a proof: a reviewed one is final, a pending one keeps its owner and its declared amount.\<close>
definition proof_grows :: "BankTransferProof \<Rightarrow> BankTransferProof \<Rightarrow> bool" where
  "proof_grows p p' \<longleftrightarrow> bp_ID p' = bp_ID p \<and> bp_UserID p' = bp_UserID p \<and> bp_AmountCents p' = bp_AmountCents p \<and>
     (bp_Status p \<noteq> BankTransferPending \<longrightarrow> p' = p)"

definition proofs_grow :: "db \<Rightarrow> db \<Rightarrow> bool" where
  "proofs_grow s0 s \<longleftrightarrow> (\<forall>p\<in>set (db_bank_proofs s0). \<exists>p'\<in>set (db_bank_proofs s). proof_grows p p')"

definition bank_inv :: "db \<Rightarrow> db \<Rightarrow> bool" where
  "bank_inv s0 s \<longleftrightarrow> proofs_ok s \<and> books s \<and> proofs_grow s0 s"

lemma credited_append: "credited i (rows @ [r]) =
   credited i rows @ (if bl_Kind r = LedgerKindBankTransfer \<and> bl_RefID r = Some i then [(bl_UserID r, bl_DeltaCents r)] else [])"
  by (simp add: credited_def)

lemma proofs_grow_refl: "proofs_grow s s"
  unfolding proofs_grow_def proof_grows_def by blast

lemma proofs_grow_update:
  assumes "proofs_grow s0 s" "db_bank_proofs s' = update_where p f (db_bank_proofs s)"
    "\<And>r. p r \<Longrightarrow> bp_Status r = BankTransferPending \<and> bp_ID (f r) = bp_ID r \<and> bp_UserID (f r) = bp_UserID r \<and> bp_AmountCents (f r) = bp_AmountCents r"
  shows "proofs_grow s0 s'"
  unfolding proofs_grow_def
proof
  fix q assume "q \<in> set (db_bank_proofs s0)"
  then obtain r where r: "r \<in> set (db_bank_proofs s)" "proof_grows q r" using assms(1) unfolding proofs_grow_def by blast
  let ?r = "if p r then f r else r"
  have "?r \<in> set (db_bank_proofs s')" using r(1) unfolding assms(2) update_where_def by (simp add: image_iff) blast
  moreover have "proof_grows q ?r" using r(2) assms(3) [of r] by (auto simp: proof_grows_def)
  ultimately show "\<exists>p'\<in>set (db_bank_proofs s'). proof_grows q p'" by blast
qed

lemma bank_inv_insert:
  assumes "bank_inv s0 s" "proof_insert p s = Inr (p', s')"
  shows "bank_inv s0 s'"
proof -
  have s': "s' = s\<lparr>db_seq := db_seq s + 1, db_bank_proofs := db_bank_proofs s @ [p']\<rparr>" and p': "bp_ID p' = db_seq s" "bp_Status p' = BankTransferPending"
    using assms(2) by (auto simp: proof_insert_def Let_def split: if_splits)
  have "books s'" by (rule books_frame [of s]) (use assms(1) in \<open>auto simp: bank_inv_def s' accounts_def\<close>)
  moreover have "proofs_ok s'" using assms(1) p' by (auto simp: bank_inv_def proofs_ok_def s' owed_def)
  moreover have "proofs_grow s0 s'" using assms(1) by (auto simp: bank_inv_def proofs_grow_def s')
  ultimately show ?thesis by (simp add: bank_inv_def)
qed

lemma proof_review_run [tx_runs]:
  "proof_review i f s = Inr (rows, s') \<longleftrightarrow>
     (let p = (\<lambda>p. bp_ID p = i \<and> bp_Status p = BankTransferPending) in
      \<not> list_ex (\<lambda>p. \<not> fits_int4 (bp_ApprovedAmountCents p)) (map f (filter p (db_bank_proofs s))) \<and>
      \<not> list_ex (\<lambda>p. \<not> user_exists s (bp_ReviewedBy p)) (map f (filter p (db_bank_proofs s))) \<and>
      rows = map f (filter p (db_bank_proofs s)) \<and> s' = s\<lparr>db_bank_proofs := update_where p f (db_bank_proofs s)\<rparr>)"
  by (auto simp: proof_review_def Let_def)

lemma bank_inv_reject:
  assumes "bank_inv s0 s"
  shows "bank_inv s0 (s\<lparr>db_bank_proofs := update_where (\<lambda>p. bp_ID p = i \<and> bp_Status p = BankTransferPending) (set_rejected a t) (db_bank_proofs s)\<rparr>)"
    (is "bank_inv s0 ?s")
proof -
  have "books ?s" by (rule books_frame [of s]) (use assms in \<open>auto simp: bank_inv_def accounts_def\<close>)
  moreover have "proofs_ok ?s" using assms by (auto simp: bank_inv_def proofs_ok_def set_update_where map_update_where set_rejected_def owed_def)
  moreover have "proofs_grow s0 ?s" by (rule proofs_grow_update [where s = s and p = "\<lambda>p. bp_ID p = i \<and> bp_Status p = BankTransferPending" and f = "set_rejected a t"])
      (use assms in \<open>auto simp: bank_inv_def set_rejected_def\<close>)
  ultimately show ?thesis by (simp add: bank_inv_def)
qed

text \<open>A proof moved from pending to approved and its credit posted.\<close>
definition approved_proof :: "int \<Rightarrow> int \<Rightarrow> int option \<Rightarrow> string \<Rightarrow> db \<Rightarrow> db \<Rightarrow> bool" where
  "approved_proof i a ov t s s' \<longleftrightarrow> (\<exists>p r. p \<in> set (db_bank_proofs s) \<and> bp_ID p = i \<and> bp_Status p = BankTransferPending \<and>
     posting (bp_UserID p) (credit_cents ov p) s s' \<and> db_seq s' = db_seq s + 1 \<and>
     db_bank_proofs s' = update_where (\<lambda>p. bp_ID p = i \<and> bp_Status p = BankTransferPending) (set_approved a ov t (db_now s)) (db_bank_proofs s) \<and>
     db_ledger s' = db_ledger s @ [r] \<and> bl_Kind r = LedgerKindBankTransfer \<and> bl_RefID r = null_int i \<and>
     bl_UserID r = bp_UserID p \<and> bl_DeltaCents r = credit_cents ov p)"

lemma approve_proof_tx_run:
  assumes "approve_proof_tx i a ov t fs s = (Inr y, fs', s')"
  shows "if y = None then s' = s else approved_proof i a ov t s s'"
proof -
  let ?p = "\<lambda>p. bp_ID p = i \<and> bp_Status p = BankTransferPending" and ?f = "set_approved a ov t (db_now s)"
  show ?thesis
  proof (cases "filter ?p (db_bank_proofs s)")
    case Nil
    then have "update_where ?p ?f (db_bank_proofs s) = db_bank_proofs s" by (intro update_where_none) (auto simp: filter_empty_conv)
    then show ?thesis using assms Nil unfolding approve_proof_tx_def by (auto simp: tx_runs Let_def)
  next
    case (Cons p ps)
    let ?s1 = "s\<lparr>db_bank_proofs := update_where ?p ?f (db_bank_proofs s)\<rparr>"
    have fp: "bp_UserID (?f p) = bp_UserID p" "credit_cents ov (?f p) = credit_cents ov p" "bp_ID (?f p) = bp_ID p"
      by (simp_all add: set_approved_def credit_cents_def split: option.split)
    obtain u s2 z where upd: "user_update (bp_UserID p) (\<lambda>_. True) (add_balance (credit_cents ov p)) ?s1 = Inr (Some u, s2)"
      and ins: "ledger_insert (proof_row a (credit_cents ov p) (?f p) (u_BalanceCents u)) s2 = Inr (z, s')" and y: "y \<noteq> None"
      using assms Cons unfolding approve_proof_tx_def by (auto simp: tx_runs Let_def fp split: option.splits)
    have p: "posting (bp_UserID p) (credit_cents ov p) ?s1 s'"
      by (rule posting_by [OF upd _ _ _ ins]) (simp_all add: add_balance_def proof_row_def fp)
    obtain s2: "s2 = ?s1\<lparr>db_users := (db_users ?s1)(bp_UserID p \<mapsto> u)\<rparr>" by (rule user_update_Some [OF upd]) auto
    have "p \<in> set (db_bank_proofs s)" "?p p" using filter_hd [OF Cons] by auto
    then have "approved_proof i a ov t s s'" using p unfolding approved_proof_def
      by (intro exI [of _ p] exI [of _ "ledger_row_of (db_seq s2) (db_now s2) (proof_row a (credit_cents ov p) (?f p) (u_BalanceCents u))"])
        (simp add: ledger_insert_run(1) [OF ins] s2 ledger_append_def ledger_row_of_def posting_def reference_used_def proof_row_def fp)
    then show ?thesis using y by auto
  qed
qed

lemma not_found_keeps [tx_keep]: "tx_keeps I (notFoundOrConflictBankTransfer i st)"
  unfolding notFoundOrConflictBankTransfer_def GetProofByID_def by (intro tx_keep)

lemma ApproveAndCredit_run:
  assumes "ApproveAndCredit i a ov t fs s = (r, fs', s')"
  shows "s' = s \<or> (is_ok r \<and> approved_proof i a ov t s s')"
proof -
  obtain y fs1 s1 where run: "withTx (approve_proof_tx i a ov t) fs s = (y, fs1, s1)" by (metis prod_cases3)
  show ?thesis
  proof (cases y)
    case (Inl e)
    then show ?thesis using run assms by (auto simp: ApproveAndCredit_def tx_bind_def dest: withTx_Inl)
  next
    case (Inr v)
    have s1: "if v = None then s1 = s else approved_proof i a ov t s s1" using withTx_Inr [OF run [unfolded Inr]] approve_proof_tx_run [of i a ov t _ s v _ s1] by blast
    have rest: "(case v of Some p \<Rightarrow> tx_ret p | None \<Rightarrow> notFoundOrConflictBankTransfer i BankTransferApproved) fs1 s1 = (r, fs', s')"
      using assms run Inr by (simp add: ApproveAndCredit_def tx_bind_def)
    show ?thesis
    proof (cases v)
      case None
      then have "s' = s1" using rest tx_keepsD [OF not_found_keeps [where I = "\<lambda>x. x = s1"]] by fastforce
      then show ?thesis using s1 None by simp
    next
      case (Some p)
      then show ?thesis using rest s1 by (auto simp: tx_ret_def)
    qed
  qed
qed

interpretation transfer: money_op "ApproveAndCredit i a ov t"
proof
  show "s' = s" if "ApproveAndCredit i a ov t fs s = (Inl e, fs', s')" for fs s e fs' s'
    using ApproveAndCredit_run [OF that] by simp
  show "bank_step\<^sup>*\<^sup>* s s'" if "books s" "ApproveAndCredit i a ov t fs s = (Inr r, fs', s')" for s fs r fs' s'
    using ApproveAndCredit_run [OF that(2)] unfolding approved_proof_def by (blast intro: bank_stepI)
qed


lemma bank_inv_approve:
  assumes "bank_inv s0 s" "approved_proof i a ov t s s'"
  shows "bank_inv s0 s'"
proof -
  let ?p = "\<lambda>p. bp_ID p = i \<and> bp_Status p = BankTransferPending" and ?f = "set_approved a ov t (db_now s)"
  obtain p r where p: "p \<in> set (db_bank_proofs s)" "bp_ID p = i" "bp_Status p = BankTransferPending" and post: "posting (bp_UserID p) (credit_cents ov p) s s'"
    and seq: "db_seq s' = db_seq s + 1" and rows: "db_bank_proofs s' = update_where ?p ?f (db_bank_proofs s)"
    and led: "db_ledger s' = db_ledger s @ [r]" "bl_Kind r = LedgerKindBankTransfer" "bl_RefID r = null_int i"
       "bl_UserID r = bp_UserID p" "bl_DeltaCents r = credit_cents ov p"
    using assms(2) unfolding approved_proof_def by blast
  have ok: "\<And>x. x \<in> set (db_bank_proofs s) \<Longrightarrow> credited (bp_ID x) (db_ledger s) = owed x \<and> 0 < bp_ID x \<and> bp_ID x < db_seq s"
    and d: "distinct (map bp_ID (db_bank_proofs s))" and ahead: "\<forall>k\<ge>db_seq s. credited k (db_ledger s) = []" "0 < db_seq s"
    and books: "books s" and grow: "proofs_grow s0 s"
    using assms(1) unfolding bank_inv_def proofs_ok_def by blast+
  have i: "0 < i" "i < db_seq s" using ok [OF p(1)] p(2) by auto
  have cred: "credited k (db_ledger s') = credited k (db_ledger s) @ (if k = i then [(bp_UserID p, credit_cents ov p)] else [])" for k
    using i(1) by (auto simp: led credited_append null_int_def)
  have f: "bp_ID (?f q) = bp_ID q" "bp_UserID (?f q) = bp_UserID q" "bp_AmountCents (?f q) = bp_AmountCents q" "owed (?f q) = [(bp_UserID q, credit_cents ov q)]" for q
    by (simp_all add: set_approved_def owed_def credit_cents_def split: option.split)
  have "credited (bp_ID x) (db_ledger s') = owed x \<and> 0 < bp_ID x \<and> bp_ID x < db_seq s'" if x: "x \<in> set (db_bank_proofs s')" for x
  proof -
    from x obtain y where y: "y \<in> set (db_bank_proofs s)" "x = (if ?p y then ?f y else y)" unfolding rows update_where_def by auto
    show ?thesis
    proof (cases "bp_ID y = i")
      case True
      then have "y = p" using y(1) p(1,2) d by (auto simp: distinct_map dest: inj_onD)
      then show ?thesis using y(2) ok [OF p(1)] p seq by (simp add: cred f) (simp add: owed_def)
    next
      case False
      then show ?thesis using y ok [OF y(1)] seq by (simp add: cred)
    qed
  qed
  moreover have "distinct (map bp_ID (db_bank_proofs s'))" using d by (simp add: rows map_update_where f)
  moreover have "\<forall>k\<ge>db_seq s'. credited k (db_ledger s') = []" using ahead(1) i(2) seq by (auto simp: cred)
  ultimately have "proofs_ok s'" using ahead(2) seq unfolding proofs_ok_def by simp
  moreover have "proofs_grow s0 s'" by (rule proofs_grow_update [OF grow rows]) (simp add: f)
  ultimately show ?thesis using posting_books [OF books post] by (simp add: bank_inv_def)
qed

datatype transfer_op = OpUpload int int string string string int | OpApproveTransfer int int "int option" string | OpRejectTransfer int int string

fun run_transfer_op :: "transfer_op \<Rightarrow> BankTransferProof dbprog" where
  "run_transfer_op (OpUpload u a c k ct sz) = Upload u a c k ct sz"
| "run_transfer_op (OpApproveTransfer i a ov t) = ApproveTransfer i a ov t"
| "run_transfer_op (OpRejectTransfer i a t) = RejectTransfer i a t"

lemma gate_aml_keeps [tx_keep]: "tx_keeps I (ExceedsAMLThreshold a cur)"
  unfolding ExceedsAMLThreshold_def by (intro tx_keep)

lemma run_transfer_op_keeps: "tx_keeps (bank_inv s0) (run_transfer_op oper)"
proof (cases oper)
  case (OpApproveTransfer i a ov t)
  have "tx_keeps (bank_inv s0) (ApproveAndCredit i a ov t)" by (rule tx_keepsI) (metis ApproveAndCredit_run bank_inv_approve)
  then show ?thesis unfolding OpApproveTransfer run_transfer_op.simps ApproveTransfer_def GetProofByID_def by (intro tx_keep)
next
  case (OpUpload u a c k ct sz)
  show ?thesis unfolding OpUpload run_transfer_op.simps Upload_def CreateProof_def Let_def by (intro tx_keep) (rule bank_inv_insert)
next
  case (OpRejectTransfer i a t)
  show ?thesis unfolding OpRejectTransfer run_transfer_op.simps RejectTransfer_def RejectProof_def
    by (intro tx_keep) (auto simp: tx_runs Let_def intro: bank_inv_reject)
qed

text \<open>
  C8: every bank transfer is credited exactly once. After any sequence of uploads, approvals, repeated approvals and rejections, with
  whatever failures, the ledger holds exactly one credit for every approved proof, to its owner and of the amount the
  administrator approved or else the declared one, and none for a pending or rejected proof; a reviewed proof
  never changes again, and the books balance.
\<close>
theorem transfers_credited_exactly_once:
  assumes "proofs_ok s" "books s" "s' = run_all (map (\<lambda>(oper, fs). (run_transfer_op oper, fs)) requests) s"
  shows "(\<forall>p\<in>set (db_bank_proofs s'). credited (bp_ID p) (db_ledger s') =
      (if bp_Status p = BankTransferApproved then [(bp_UserID p, credit_cents (bp_ApprovedAmountCents p) p)] else [])) \<and>
    (\<forall>p\<in>set (db_bank_proofs s). \<exists>p'\<in>set (db_bank_proofs s'). proof_grows p p') \<and> books s'"
proof -
  have "bank_inv s s'" unfolding assms(3)
    by (rule run_all_invariant [where I = "bank_inv s"]) (use run_transfer_op_keeps proofs_grow_refl assms(1,2) in \<open>auto simp: bank_inv_def\<close>)
  then show ?thesis unfolding bank_inv_def proofs_ok_def proofs_grow_def owed_def by blast
qed

definition example_transfers :: "(transfer_op \<times> fault_script) list" where
  "example_transfers = [(OpUpload 1 5000 [] ''k'' ''image/png'' 10, []), (OpApproveTransfer 1 2 (Some 4500) ''ok'', [None, None, None, None, None, None, None, Some ContextError]),
     (OpApproveTransfer 1 2 (Some 4500) ''ok'', []), (OpApproveTransfer 1 2 None ''again'', [])]"

text \<open>The first approval fails half-way, the second credits the amount on the receipt, the third changes nothing.\<close>
theorem transfers_credited_exactly_once_witness:
  "let s = run_all (map (\<lambda>(oper, fs). (run_transfer_op oper, fs)) example_transfers) example_bank_db in
     map bp_Status (db_bank_proofs s) = [BankTransferApproved] \<and> map bl_DeltaCents (db_ledger s) = [4500] \<and> books s"
proof -
  let ?s = "run_all (map (\<lambda>(oper, fs). (run_transfer_op oper, fs)) example_transfers) example_bank_db"
  have "proofs_ok example_bank_db" by (simp add: proofs_ok_def credited_def example_bank_db_def empty_db_def)
  from transfers_credited_exactly_once [OF this example_bank_books refl, of example_transfers] have "books ?s" by blast
  moreover have "map bp_Status (db_bank_proofs ?s) = [BankTransferApproved]" by code_simp
  moreover have "map bl_DeltaCents (db_ledger ?s) = [4500]" by code_simp
  ultimately show ?thesis by simp
qed

end
