(* ===== verification/Money.thy ===== *)
theory Money
  imports Transfers Kyc Prizes
begin

text \<open>
  All operations that move money, together. The abstract bank is a map from accounts to balances and a list of entries that
  may not overdraw an account; every operation of the platform is one of its runs.
\<close>

section \<open>The abstract bank\<close>

fun bank_run :: "(int \<times> int) list \<Rightarrow> (int \<rightharpoonup> int) \<Rightarrow> (int \<rightharpoonup> int) option" where
  "bank_run [] A = Some A"
| "bank_run ((i, d) # es) A = (case A i of None \<Rightarrow> None | Some b \<Rightarrow> if b + d < 0 then None else bank_run es (A(i \<mapsto> b + d)))"

definition entries :: "BalanceLedger list \<Rightarrow> (int \<times> int) list" where
  "entries rows = map (\<lambda>r. (bl_UserID r, bl_DeltaCents r)) rows"

lemma bank_run_append: "bank_run (xs @ ys) A = Option.bind (bank_run xs A) (bank_run ys)"
  by (induction xs arbitrary: A) (auto split: option.split)

lemma posting_entry:
  assumes "posting i d s s'"
  obtains r where "db_ledger s' = db_ledger s @ [r]" "bank_run (entries [r]) (accounts s) = Some (accounts s')"
  using assms unfolding posting_def by (force simp: entries_def accounts_def fun_eq_iff)

text \<open>The simulation: what the bank does is what the new rows of the ledger say.\<close>
lemma bank_steps_simulate:
  "bank_step\<^sup>*\<^sup>* s s' \<Longrightarrow> \<exists>rows. db_ledger s' = db_ledger s @ rows \<and> bank_run (entries rows) (accounts s) = Some (accounts s')"
proof (induction rule: rtranclp_induct)
  case base
  show ?case by (rule exI [of _ "[]"]) (simp add: entries_def)
next
  case (step y z)
  then obtain rows where IH: "db_ledger y = db_ledger s @ rows" "bank_run (entries rows) (accounts s) = Some (accounts y)" by blast
  from step.hyps(2) consider "quiet y z" | i d where "posting i d y z" unfolding bank_step_def by blast
  then show ?case
  proof cases
    case 1
    then show ?thesis using IH by (auto simp: quiet_def)
  next
    case 2
    then obtain r where "db_ledger z = db_ledger y @ [r]" "bank_run (entries [r]) (accounts y) = Some (accounts z)" by (rule posting_entry)
    then show ?thesis using IH by (intro exI [of _ "rows @ [r]"]) (simp add: entries_def bank_run_append)
  qed
qed

section \<open>The operations\<close>

datatype money_request =
    MCredit int int BalanceLedgerKind int string int
  | MCreditIdempotent int int BalanceLedgerKind string string int
  | MEntryFee int int int
  | MBulkEntryFee int int
  | MApproveWithdrawal int int string
  | MCaptureIntent string string int string int
  | MCreditExpired int int int string
  | MApproveTransfer int int "int option" string
  | MReleaseFrozen int int string
  | MDistributePrizes int

text \<open>Every one with the retry policy \<open>n\<close> and the iteration order \<open>order\<close> of the totals where the code has them.\<close>
fun run_money :: "nat \<Rightarrow> ((int \<times> int) list \<Rightarrow> (int \<times> int) list) \<Rightarrow> money_request \<Rightarrow> unit dbprog" where
  "run_money n order (MCredit i d k ri rt c) = tx_void (Credit n i d k ri rt c)"
| "run_money n order (MCreditIdempotent i d k ref cur amt) = tx_void (CreditIdempotent n i d k ref cur amt)"
| "run_money n order (MEntryFee q u a) = tx_void (DebitBalanceAndMarkPaid n q u a)"
| "run_money n order (MBulkEntryFee q a) = tx_void (BulkDebitAndMarkPaid n q a)"
| "run_money n order (MApproveWithdrawal i a t) = tx_void (ApproveAndDebit n i a t)"
| "run_money n order (MCaptureIntent t c d cur amt) = tx_void (CaptureAndCredit n t c d cur amt)"
| "run_money n order (MCreditExpired i a d t) = tx_void (AdminCreditExpired n i a d t)"
| "run_money n order (MApproveTransfer i a ov t) = tx_void (ApproveAndCredit i a ov t)"
| "run_money n order (MReleaseFrozen u ri rt) = tx_void (ReleaseAndCreditFrozen u ri rt)"
| "run_money n order (MDistributePrizes i) = tx_void (DistributePrizes order i)"

lemma run_money_steps: "tx_keeps (\<lambda>s. books s \<and> bank_step\<^sup>*\<^sup>* s0 s) (run_money n order r)"
  by (cases r) (simp_all add: tx_keeps_void credit.runs_steps credit_once.runs_steps debit.runs_steps bulk_debit.runs_steps approval.runs_steps
    capture.runs_steps admin_credit.runs_steps transfer.runs_steps release.runs_steps prizes.runs_steps)

text \<open>
  C1: the platform implements a bank. Whatever sequence of credits, entry fees, withdrawals, captured payments, bank transfers, released
  freezes and prize distributions runs, with whatever failures and retries, the ledger only grows; replaying
  its new rows on the initial balances, refusing any overdraft, gives exactly the final balances; and the
  books still balance: every account is the sum of its rows, never negative and within the column, every row
  records the running total, and no reference occurs twice.
\<close>
theorem money_refines_bank:
  assumes "books s" "s' = run_all (map (\<lambda>(r, fs). (run_money n order r, fs)) requests) s"
  shows "books s' \<and> (\<exists>rows. db_ledger s' = db_ledger s @ rows \<and> bank_run (entries rows) (accounts s) = Some (accounts s'))"
proof -
  have "books s' \<and> bank_step\<^sup>*\<^sup>* s s'" unfolding assms(2)
    by (rule run_all_invariant [where I = "\<lambda>t. books t \<and> bank_step\<^sup>*\<^sup>* s t"]) (use run_money_steps assms(1) in auto)
  then show ?thesis using bank_steps_simulate by blast
qed

definition example_money :: "(money_request \<times> fault_script) list" where
  "example_money = [(MCreditIdempotent 1 500 LedgerKindWebhookPayPal ''pp-1'' ''GTQ'' 500, []), (MCreditIdempotent 1 500 LedgerKindWebhookPayPal ''pp-1'' ''GTQ'' 500, []),
     (MCredit 2 70 LedgerKindPrize 1 ''quiniela'' 0, [None, None, Some ContextError]), (MCredit 1 (- 600) LedgerKindEntryFee 1 ''quiniela'' 0, []),
     (MCredit 2 70 LedgerKindPrize 1 ''quiniela'' 0, [])]"

text \<open>A repeated delivery, a failed credit and an overdraft leave no trace.\<close>
theorem money_refines_bank_witness:
  "let s = run_all (map (\<lambda>(r, fs). (run_money 1 id r, fs)) example_money) example_bank_db in
     books s \<and> entries (db_ledger s) = [(1, 500), (2, 70)] \<and> (\<exists>rows. db_ledger s = rows \<and> bank_run (entries rows) (accounts example_bank_db) = Some (accounts s))"
proof -
  let ?s = "run_all (map (\<lambda>(r, fs). (run_money 1 id r, fs)) example_money) example_bank_db"
  have "entries (db_ledger ?s) = [(1, 500), (2, 70)]" by code_simp
  moreover have "db_ledger example_bank_db = []" by (simp add: example_bank_db_def empty_db_def)
  ultimately show ?thesis using money_refines_bank [OF example_bank_books refl, of 1 id example_money] by (simp add: Let_def)
qed

end
