(* ===== verification/MatchSync.thy ===== *)
theory MatchSync
  imports Fixtures
begin

text \<open>
  The synchronisation of matches with a football data provider (\<^verbatim>\<open>service/match_sync_service.go\<close>, \<^verbatim>\<open>pkg/footballprovider/provider.go\<close>
  and the queries of \<^verbatim>\<open>repository/match_repository.go\<close> it uses). The provider is a parameter: a record of its answers, \<open>None\<close>
  being a failed request, fixed during one call of the service. The letter folding \<^verbatim>\<open>lower\<close> of the database is a parameter too. Log lines and
  tracing are left out. A day is the number of days since the epoch.
\<close>

section \<open>The provider\<close>

datatype FixtureStatus =
    StatusNotStarted | StatusFirstHalf | StatusHalfTime | StatusSecondHalf | StatusExtraTime | StatusPenLive
  | StatusFullTime | StatusAfterET | StatusAfterPEN | StatusPostponed | StatusCancelled | StatusAbandoned | StatusUnknown

fun status_code :: "FixtureStatus \<Rightarrow> string" where
  "status_code StatusNotStarted = ''NS''"
| "status_code StatusFirstHalf = ''1H''"
| "status_code StatusHalfTime = ''HT''"
| "status_code StatusSecondHalf = ''2H''"
| "status_code StatusExtraTime = ''ET''"
| "status_code StatusPenLive = ''PEN_LIVE''"
| "status_code StatusFullTime = ''FT''"
| "status_code StatusAfterET = ''AET''"
| "status_code StatusAfterPEN = ''PEN''"
| "status_code StatusPostponed = ''PST''"
| "status_code StatusCancelled = ''CANC''"
| "status_code StatusAbandoned = ''ABD''"
| "status_code StatusUnknown = ''UNKNOWN''"

definition IsLive :: "FixtureStatus \<Rightarrow> bool" where
  "IsLive st \<longleftrightarrow> st \<in> {StatusFirstHalf, StatusHalfTime, StatusSecondHalf, StatusExtraTime, StatusPenLive}"

definition IsFinished :: "FixtureStatus \<Rightarrow> bool" where
  "IsFinished st \<longleftrightarrow> st \<in> {StatusFullTime, StatusAfterET, StatusAfterPEN}"

definition IsCancelled :: "FixtureStatus \<Rightarrow> bool" where
  "IsCancelled st \<longleftrightarrow> st \<in> {StatusPostponed, StatusCancelled, StatusAbandoned}"

text \<open>The zero kick-off time is \<open>None\<close>.\<close>
record Fixture =
  fx_ExternalID :: int
  fx_HomeTeam :: string
  fx_AwayTeam :: string
  fx_Status :: FixtureStatus
  fx_HomeScore :: int
  fx_AwayScore :: int
  fx_KickoffUTC :: "time option"
  fx_PenaltyHomeScore :: "int option"
  fx_PenaltyAwayScore :: "int option"
  fx_HalftimeHomeScore :: "int option"
  fx_HalftimeAwayScore :: "int option"

record MatchEvent =
  ev_TeamName :: string
  ev_ElapsedMin :: int

fun earliest_event :: "MatchEvent \<Rightarrow> MatchEvent list \<Rightarrow> MatchEvent" where
  "earliest_event first [] = first"
| "earliest_event first (e # es) = earliest_event (if ev_ElapsedMin e < ev_ElapsedMin first then e else first) es"

definition FirstScoringTeam :: "MatchEvent list \<Rightarrow> string \<Rightarrow> string \<Rightarrow> string option" where
  "FirstScoringTeam events homeTeam awayTeam = (case events of
     [] \<Rightarrow> None
   | e # es \<Rightarrow> let first = earliest_event e es in
       if ev_TeamName first = homeTeam then Some ''home'' else if ev_TeamName first = awayTeam then Some ''away'' else None)"

record Client =
  fc_GetFixture :: "int \<Rightarrow> Fixture option"
  fc_GetFixturesByDate :: "int \<Rightarrow> int \<Rightarrow> int \<Rightarrow> Fixture list option"
  fc_GetFixtureEvents :: "int \<Rightarrow> MatchEvent list option"

section \<open>Repository\<close>

definition external_free :: "int \<Rightarrow> string \<Rightarrow> int \<Rightarrow> db \<Rightarrow> bool" where
  "external_free matchID provider externalID s \<longleftrightarrow>
     (\<forall>r\<in>set (db_matches s). m_ID r \<noteq> matchID \<longrightarrow> \<not> (m_ExternalProvider r = Some provider \<and> m_ExternalMatchID r = Some externalID))"

definition match_link :: "int \<Rightarrow> string \<Rightarrow> int \<Rightarrow> db \<Rightarrow> go_error + Match option \<times> db" where
  "match_link matchID provider externalID s =
    (if get_match s matchID \<noteq> None \<and> \<not> external_free matchID provider externalID s then Inl (PgError ''23505'')
     else update_match_row matchID (\<lambda>r. r\<lparr>m_ExternalProvider := Some provider, m_ExternalMatchID := Some externalID, m_LastSyncedAt := None\<rparr>) s)"

definition repo_LinkExternal :: "int \<Rightarrow> string \<Rightarrow> int \<Rightarrow> unit dbprog" where
  "repo_LinkExternal matchID provider externalID = tx_void (found_match (tx_exec (match_link matchID provider externalID)))"

definition repo_UnlinkExternal :: "int \<Rightarrow> unit dbprog" where
  "repo_UnlinkExternal matchID = tx_void (found_match (tx_exec (update_match_row matchID
     (\<lambda>r. r\<lparr>m_ExternalProvider := None, m_ExternalMatchID := None, m_LastSyncedAt := None\<rparr>))))"

definition is_candidate :: "int \<Rightarrow> time \<Rightarrow> Match \<Rightarrow> bool" where
  "is_candidate prematchWindowMin now m \<longleftrightarrow> m_ExternalMatchID m \<noteq> None \<and>
     (m_Status m = MatchStatusLive \<or> m_Status m = MatchStatusScheduled \<and>
        (prematchWindowMin = 0 \<or> m_KickoffAt m \<le> now + prematchWindowMin * 60 * 10 ^ 9))"

definition ListSyncCandidates :: "int \<Rightarrow> Match list dbprog" where
  "ListSyncCandidates prematchWindowMin = tx_query (\<lambda>s. sort_key m_KickoffAt (filter (is_candidate prematchWindowMin (db_now s)) (db_matches s)))"

definition lacks_penalty_winner :: "Match \<Rightarrow> bool" where
  "lacks_penalty_winner m \<longleftrightarrow> m_Status m = MatchStatusFinished \<and> m_WinMethod m = Some WinMethodPenalties \<and>
     m_PenaltyWinner m = None \<and> m_ExternalMatchID m \<noteq> None"

definition ListFinishedPenaltyMatchesMissingWinner :: "Match list dbprog" where
  "ListFinishedPenaltyMatchesMissingWinner = tx_query (\<lambda>s. sort_key m_KickoffAt (filter lacks_penalty_winner (db_matches s)))"

text \<open>The canonical name of a team of the provider: its alias or the name itself.\<close>
definition canonical :: "(string \<Rightarrow> string) \<Rightarrow> (string \<times> string) list \<Rightarrow> string \<Rightarrow> string" where
  "canonical lower aliases t = (case find (\<lambda>(provider_name, _). lower provider_name = lower t) aliases of None \<Rightarrow> t | Some (_, c) \<Rightarrow> c)"

definition FindByTeams :: "(string \<Rightarrow> string) \<Rightarrow> string \<Rightarrow> string \<Rightarrow> Match option dbprog" where
  "FindByTeams lower homeTeam awayTeam = tx_query (\<lambda>s. find (\<lambda>m.
     lower (m_HomeTeam m) = lower (canonical lower (db_team_aliases s) homeTeam) \<and>
     lower (m_AwayTeam m) = lower (canonical lower (db_team_aliases s) awayTeam)) (db_matches s))"

definition UpdateSyncState :: "int \<Rightarrow> unit dbprog" where
  "UpdateSyncState matchID = tx_void (tx_exec (\<lambda>s. update_match_row matchID (\<lambda>r. r\<lparr>m_LastSyncedAt := Some (db_now s)\<rparr>) s))"

section \<open>Results of the provider\<close>

definition derivePenaltyWinner :: "Fixture \<Rightarrow> string option" where
  "derivePenaltyWinner fix = (if fx_Status fix \<noteq> StatusAfterPEN then None
     else case (fx_PenaltyHomeScore fix, fx_PenaltyAwayScore fix) of
       (Some h, Some a) \<Rightarrow> if h > a then Some ''home'' else if a > h then Some ''away'' else None
     | _ \<Rightarrow> None)"

definition winMethodFromStatus :: "FixtureStatus \<Rightarrow> WinMethod option" where
  "winMethodFromStatus st = (case st of
     StatusAfterET \<Rightarrow> Some WinMethodExtraTime
   | StatusAfterPEN \<Rightarrow> Some WinMethodPenalties
   | _ \<Rightarrow> None)"

definition resolveExtrasFields :: "Client \<Rightarrow> Fixture \<Rightarrow> string option \<Rightarrow> int option \<times> int option \<times> string option" where
  "resolveExtrasFields provider fix existingFirstScorer = (fx_HalftimeHomeScore fix, fx_HalftimeAwayScore fix,
     if existingFirstScorer \<noteq> None then existingFirstScorer
     else if fx_HomeScore fix = 0 \<and> fx_AwayScore fix = 0 then Some ''none''
     else case fc_GetFixtureEvents provider (fx_ExternalID fix) of
       None \<Rightarrow> None
     | Some events \<Rightarrow> FirstScoringTeam events (fx_HomeTeam fix) (fx_AwayTeam fix))"

definition provider_score :: "Client \<Rightarrow> Fixture \<Rightarrow> string option \<Rightarrow> ScoreUpdate" where
  "provider_score provider fix existingFirstScorer = (let (htHome, htAway, firstScorer) = resolveExtrasFields provider fix existingFirstScorer in
     \<lparr>su_HomeScore = fx_HomeScore fix, su_AwayScore = fx_AwayScore fix, su_WinMethod = winMethodFromStatus (fx_Status fix),
      su_PenaltyWinner = derivePenaltyWinner fix, su_PenaltyHomeScore = fx_PenaltyHomeScore fix, su_PenaltyAwayScore = fx_PenaltyAwayScore fix,
      su_HalftimeHomeScore = htHome, su_HalftimeAwayScore = htAway, su_FirstScoringTeam = firstScorer\<rparr>)"

section \<open>Polling\<close>

definition is_validation :: "app_error \<Rightarrow> bool" where
  "is_validation e \<longleftrightarrow> error_code e = Some CodeValidation"

definition LinkExternal :: "int \<Rightarrow> string \<Rightarrow> int \<Rightarrow> unit dbprog" where
  "LinkExternal matchID provider externalID =
    (if provider \<noteq> ''api-football'' then tx_err (Validation (''unsupported provider '' @ quote provider @ '': only 'api-football' is accepted''))
     else if externalID \<le> 0 then tx_err (Validation ''externalID must be a positive integer'')
     else repo_LinkExternal matchID provider externalID)"

definition UnlinkExternal :: "int \<Rightarrow> unit dbprog" where
  "UnlinkExternal matchID = repo_UnlinkExternal matchID"

text \<open>The steps below return whether the match is live and whether a transition was applied.\<close>

definition applyKickoff :: "int \<Rightarrow> (bool \<times> bool) dbprog" where
  "applyKickoff matchID = tx_try (StartMatch matchID)
     (\<lambda>err. if is_validation err then tx_ret (True, False) else tx_err err) (\<lambda>_. tx_ret (True, True))"

text \<open>\<open>m\<close> is the row as it was when the candidates were listed.\<close>
definition applyLiveScore :: "Match \<Rightarrow> Fixture \<Rightarrow> Match dbprog" where
  "applyLiveScore m fix = MatchUpdate (m\<lparr>m_HomeScore := Some (fx_HomeScore fix), m_AwayScore := Some (fx_AwayScore fix),
     m_Period := Some (status_code (fx_Status fix)), m_PenaltyHomeScore := fx_PenaltyHomeScore fix, m_PenaltyAwayScore := fx_PenaltyAwayScore fix\<rparr>)"

definition applyResult :: "nat \<Rightarrow> Client \<Rightarrow> int \<Rightarrow> Fixture \<Rightarrow> (bool \<times> bool) dbprog" where
  "applyResult n provider matchID fix = tx_try (UpdateResult n matchID (provider_score provider fix None))
     (\<lambda>err. if is_validation err then tx_ret (False, False) else tx_err err) (\<lambda>_. tx_ret (False, True))"

definition startMissed :: "int \<Rightarrow> unit dbprog" where
  "startMissed matchID = tx_try (StartMatch matchID) (\<lambda>err. if is_validation err then tx_ret () else tx_err err) (\<lambda>_. tx_ret ())"

definition processOne :: "nat \<Rightarrow> Client \<Rightarrow> Match \<Rightarrow> (bool \<times> bool) dbprog" where
  "processOne n provider m = (case m_ExternalMatchID m of
     None \<Rightarrow> tx_ret (False, False)
   | Some e \<Rightarrow> (case fc_GetFixture provider e of
       None \<Rightarrow> tx_err (Raw (OtherError ''GetFixture''))
     | Some fix \<Rightarrow>
         if fx_Status fix = StatusNotStarted \<and> m_Status m = MatchStatusScheduled then tx_ret (False, False)
         else if IsLive (fx_Status fix) \<and> m_Status m = MatchStatusScheduled then applyKickoff (m_ID m)
         else if IsLive (fx_Status fix) \<and> m_Status m = MatchStatusLive then
           tx_bind (tx_ignore (tx_void (applyLiveScore m fix))) (\<lambda>_. tx_ret (True, False))
         else if IsFinished (fx_Status fix) \<and> m_Status m = MatchStatusScheduled then
           tx_bind (startMissed (m_ID m)) (\<lambda>_. applyResult n provider (m_ID m) fix)
         else if IsFinished (fx_Status fix) \<and> m_Status m = MatchStatusLive then applyResult n provider (m_ID m) fix
         else tx_ret (False, False)))"

fun poll_loop :: "nat \<Rightarrow> Client \<Rightarrow> Match list \<Rightarrow> int \<Rightarrow> int dbprog" where
  "poll_loop n provider [] liveCount = tx_ret liveCount"
| "poll_loop n provider (m # ms) liveCount = tx_try (processOne n provider m)
     (\<lambda>_. poll_loop n provider ms liveCount)
     (\<lambda>(live, _). tx_bind (tx_ignore (UpdateSyncState (m_ID m))) (\<lambda>_. poll_loop n provider ms (if live then liveCount + 1 else liveCount)))"

definition no_provider :: "'a dbprog" where
  "no_provider = tx_err (Raw (OtherError ''match sync: no provider configured (missing API key)''))"

definition PollAndApply :: "nat \<Rightarrow> Client option \<Rightarrow> int \<Rightarrow> int dbprog" where
  "PollAndApply n provider prematchWindowMin = (case provider of
     None \<Rightarrow> no_provider
   | Some c \<Rightarrow> tx_bind (ListSyncCandidates prematchWindowMin) (\<lambda>candidates. poll_loop n c candidates 0))"

record SyncDiff =
  sd_MatchID :: int
  sd_InternalStatus :: MatchStatus
  sd_ExternalStatus :: FixtureStatus
  sd_InternalHome :: "int option"
  sd_InternalAway :: "int option"
  sd_ExternalHome :: int
  sd_ExternalAway :: int

definition diverges :: "Match \<Rightarrow> Fixture \<Rightarrow> bool" where
  "diverges m fix \<longleftrightarrow> (m_Status m = MatchStatusFinished) \<noteq> IsFinished (fx_Status fix) \<or>
     (m_HomeScore m \<noteq> None \<and> m_AwayScore m \<noteq> None \<and> (m_HomeScore m \<noteq> Some (fx_HomeScore fix) \<or> m_AwayScore m \<noteq> Some (fx_AwayScore fix)))"

definition sync_diff :: "Client \<Rightarrow> Match \<Rightarrow> SyncDiff option" where
  "sync_diff c m = (case Option.bind (m_ExternalMatchID m) (fc_GetFixture c) of
     None \<Rightarrow> None
   | Some fix \<Rightarrow> if diverges m fix then Some \<lparr>sd_MatchID = m_ID m, sd_InternalStatus = m_Status m, sd_ExternalStatus = fx_Status fix,
       sd_InternalHome = m_HomeScore m, sd_InternalAway = m_AwayScore m, sd_ExternalHome = fx_HomeScore fix, sd_ExternalAway = fx_AwayScore fix\<rparr> else None)"

definition ReconcileDate :: "Client option \<Rightarrow> SyncDiff list dbprog" where
  "ReconcileDate provider = (case provider of
     None \<Rightarrow> no_provider
   | Some c \<Rightarrow> tx_bind (ListSyncCandidates 0) (\<lambda>candidates. tx_ret (List.map_filter (sync_diff c) candidates)))"

section \<open>The daily synchronisation\<close>

record DailySyncResult =
  ds_Total :: int
  ds_Linked :: int
  ds_Updated :: int
  ds_Corrected :: int

text \<open>The counter of new links and the matches linked earlier in the run.\<close>
type_synonym link_state = "int \<times> int list"

definition link_match :: "Fixture \<Rightarrow> link_state \<Rightarrow> Match \<Rightarrow> link_state dbprog" where
  "link_match fix st m =
    (if m_ExternalMatchID m \<noteq> None \<or> m_ID m \<in> set (snd st) then tx_ret st
     else tx_try (repo_LinkExternal (m_ID m) ''api-football'' (fx_ExternalID fix)) (\<lambda>_. tx_ret st) (\<lambda>_. tx_ret (fst st + 1, m_ID m # snd st)))"

definition tryAutoLink :: "(string \<Rightarrow> string) \<Rightarrow> link_state \<Rightarrow> Fixture \<Rightarrow> link_state dbprog" where
  "tryAutoLink lower st fix = tx_try (FindByTeams lower (fx_HomeTeam fix) (fx_AwayTeam fix)) (\<lambda>_. tx_ret st) (\<lambda>r. case r of
     Some m \<Rightarrow> link_match fix st m
   | None \<Rightarrow> tx_try (FindByTeams lower (fx_AwayTeam fix) (fx_HomeTeam fix)) (\<lambda>_. tx_ret st) (\<lambda>r. case r of
       None \<Rightarrow> tx_ret st
     | Some m \<Rightarrow> link_match fix st m))"

fun link_fixtures :: "(string \<Rightarrow> string) \<Rightarrow> link_state \<Rightarrow> Fixture list \<Rightarrow> link_state dbprog" where
  "link_fixtures lower st [] = tx_ret st"
| "link_fixtures lower st (fx # fxs) = tx_bind (tryAutoLink lower st fx) (\<lambda>st'. link_fixtures lower st' fxs)"

definition day_of :: "time \<Rightarrow> int" where
  "day_of t = t div (24 * 3600 * 10 ^ 9)"

definition sync_days :: "time \<Rightarrow> time option \<Rightarrow> time option \<Rightarrow> int list" where
  "sync_days now startDate endDate =
     [(case startDate of None \<Rightarrow> day_of now - 30 | Some t \<Rightarrow> day_of t)..(case endDate of None \<Rightarrow> day_of now + 1 | Some t \<Rightarrow> day_of t)]"

definition autoLinkByDateRange ::
  "(string \<Rightarrow> string) \<Rightarrow> Client \<Rightarrow> int \<Rightarrow> int \<Rightarrow> time option \<Rightarrow> time option \<Rightarrow> int dbprog" where
  "autoLinkByDateRange lower provider leagueID season startDate endDate = tx_bind (tx_read db_now) (\<lambda>now.
     tx_bind (link_fixtures lower (0, []) (concat (map (\<lambda>d. case fc_GetFixturesByDate provider leagueID season d of None \<Rightarrow> [] | Some fs \<Rightarrow> fs)
       (sync_days now startDate endDate)))) (\<lambda>st. tx_ret (fst st)))"

definition filterByDateRange :: "Match list \<Rightarrow> time option \<Rightarrow> time option \<Rightarrow> Match list" where
  "filterByDateRange candidates startDate endDate = filter (\<lambda>m.
     (case startDate of None \<Rightarrow> True | Some t \<Rightarrow> \<not> m_KickoffAt m < t) \<and> (case endDate of None \<Rightarrow> True | Some t \<Rightarrow> \<not> m_KickoffAt m > t)) candidates"

text \<open>Whether a kick-off time was corrected.\<close>
definition maybeCorrectKickoff :: "Match \<Rightarrow> Fixture \<Rightarrow> bool dbprog" where
  "maybeCorrectKickoff m fix = (case fx_KickoffUTC fix of
     None \<Rightarrow> tx_ret False
   | Some t \<Rightarrow>
       if m_Status m \<noteq> MatchStatusScheduled \<or> \<bar>t div 10 ^ 9 - m_KickoffAt m div 10 ^ 9\<bar> \<le> 60 then tx_ret False
       else tx_try (UpdateKickoff (m_ID m) t) (\<lambda>_. tx_ret False) (\<lambda>_. tx_ret True))"

definition applyStartTransition :: "Match \<Rightarrow> unit dbprog" where
  "applyStartTransition m = tx_ignore (tx_void (StartMatch (m_ID m)))"

definition applyResultFromProvider :: "nat \<Rightarrow> Client \<Rightarrow> Match \<Rightarrow> Fixture \<Rightarrow> unit dbprog" where
  "applyResultFromProvider n provider m fix = tx_try (if m_Status m = MatchStatusScheduled then startMissed (m_ID m) else tx_ret ()) (\<lambda>_. tx_ret ())
     (\<lambda>_. tx_ignore (tx_void (UpdateResult n (m_ID m) (provider_score provider fix None))))"

text \<open>Whether the repair was applied.\<close>
definition repairPenaltyDataIfMissing :: "nat \<Rightarrow> Client \<Rightarrow> Match \<Rightarrow> Fixture \<Rightarrow> bool dbprog" where
  "repairPenaltyDataIfMissing n provider m fix =
    (if fx_Status fix \<noteq> StatusAfterPEN \<or> m_PenaltyWinner m \<noteq> None \<or> derivePenaltyWinner fix = None then tx_ret False
     else tx_try (CorrectResult n (m_ID m) (provider_score provider fix (m_FirstScoringTeam m))) (\<lambda>_. tx_ret False) (\<lambda>_. tx_ret True))"

definition applyFinishedTransition :: "nat \<Rightarrow> Client \<Rightarrow> Match \<Rightarrow> Fixture \<Rightarrow> unit dbprog" where
  "applyFinishedTransition n provider m fix = (case m_Status m of
     MatchStatusFinished \<Rightarrow> tx_void (repairPenaltyDataIfMissing n provider m fix)
   | MatchStatusCancelled \<Rightarrow> tx_ret ()
   | _ \<Rightarrow> applyResultFromProvider n provider m fix)"

definition maybeTransitionStatus :: "nat \<Rightarrow> Client \<Rightarrow> Match \<Rightarrow> Fixture \<Rightarrow> unit dbprog" where
  "maybeTransitionStatus n provider m fix =
    (if IsFinished (fx_Status fix) then applyFinishedTransition n provider m fix
     else if IsLive (fx_Status fix) \<and> m_Status m = MatchStatusScheduled then applyStartTransition m
     else tx_ret ())"

definition dailySyncOneMatch :: "nat \<Rightarrow> Client \<Rightarrow> Match \<Rightarrow> bool dbprog" where
  "dailySyncOneMatch n provider m = (case Option.bind (m_ExternalMatchID m) (fc_GetFixture provider) of
     None \<Rightarrow> tx_ret False
   | Some fix \<Rightarrow> tx_bind (maybeCorrectKickoff m fix) (\<lambda>updated. tx_bind (maybeTransitionStatus n provider m fix) (\<lambda>_. tx_ret updated)))"

definition repairFinished :: "nat \<Rightarrow> Client \<Rightarrow> Match \<Rightarrow> bool dbprog" where
  "repairFinished n provider m = (case Option.bind (m_ExternalMatchID m) (fc_GetFixture provider) of
     None \<Rightarrow> tx_ret False
   | Some fix \<Rightarrow> repairPenaltyDataIfMissing n provider m fix)"

text \<open>A loop over matches that counts the answers \<open>True\<close>.\<close>
fun count_loop :: "(Match \<Rightarrow> bool dbprog) \<Rightarrow> Match list \<Rightarrow> int \<Rightarrow> int dbprog" where
  "count_loop f [] k = tx_ret k"
| "count_loop f (m # ms) k = tx_bind (f m) (\<lambda>b. count_loop f ms (if b then k + 1 else k))"

definition repairFinishedPenaltyMatches :: "nat \<Rightarrow> Client \<Rightarrow> int dbprog" where
  "repairFinishedPenaltyMatches n provider = tx_try ListFinishedPenaltyMatchesMissingWinner (\<lambda>_. tx_ret 0) (\<lambda>toRepair. count_loop (repairFinished n provider) toRepair 0)"

definition DailyFixtureSync ::
  "nat \<Rightarrow> (string \<Rightarrow> string) \<Rightarrow> Client option \<Rightarrow> int \<Rightarrow> int \<Rightarrow> time option \<Rightarrow> time option \<Rightarrow> DailySyncResult dbprog" where
  "DailyFixtureSync n lower provider leagueID season startDate endDate = (case provider of
     None \<Rightarrow> no_provider
   | Some c \<Rightarrow>
       tx_bind (autoLinkByDateRange lower c leagueID season startDate endDate) (\<lambda>linked.
       tx_bind (ListSyncCandidates 0) (\<lambda>all. let candidates = filterByDateRange all startDate endDate in
       tx_bind (count_loop (dailySyncOneMatch n c) candidates 0) (\<lambda>updated.
       tx_bind (repairFinishedPenaltyMatches n c) (\<lambda>corrected.
       tx_ret \<lparr>ds_Total = int (length candidates), ds_Linked = linked, ds_Updated = updated, ds_Corrected = corrected\<rparr>)))))"


section \<open>The life of a match under synchronisation\<close>

text \<open>Since \<open>s0\<close> every status moved along the state machine and no final result changed.\<close>
definition sync_inv :: "db \<Rightarrow> db \<Rightarrow> bool" where
  "sync_inv s0 s \<longleftrightarrow> matches_wf s \<and> (\<forall>i m. get_match s0 i = Some m \<longrightarrow>
     (\<exists>m'. get_match s i = Some m' \<and> match_step\<^sup>*\<^sup>* (m_Status m) (m_Status m') \<and> (m_Status m = MatchStatusFinished \<longrightarrow> match_result m' = match_result m)))"

lemma sync_inv_refl: "matches_wf s \<Longrightarrow> sync_inv s s"
  by (simp add: sync_inv_def)

lemma sync_inv_step:
  assumes "sync_inv s0 s" "table_step oper s s'" "\<And>i. \<not> corrects oper i"
  shows "sync_inv s0 s'"
  unfolding sync_inv_def
proof (intro conjI allI impI)
  show "matches_wf s'" using assms(2) by (simp add: table_step_def)
  fix i m assume "get_match s0 i = Some m"
  then obtain m1 where m1: "get_match s i = Some m1" "match_step\<^sup>*\<^sup>* (m_Status m) (m_Status m1)"
    "m_Status m = MatchStatusFinished \<longrightarrow> match_result m1 = match_result m" using assms(1) unfolding sync_inv_def by blast
  obtain m2 where m2: "get_match s' i = Some m2" "match_step (m_Status m1) (m_Status m2)"
    "m_Status m1 = MatchStatusFinished \<longrightarrow> \<not> corrects oper i \<longrightarrow> match_result m2 = match_result m1" by (rule table_step_path [OF assms(2) m1(1)])
  have "match_result m2 = match_result m" if "m_Status m = MatchStatusFinished"
    using m1(3) m2(3) assms(3) match_step_terminal [OF m1(2)] that by simp
  moreover have "match_step\<^sup>*\<^sup>* (m_Status m) (m_Status m2)" using m1(2) m2(2) by (rule rtranclp.rtrancl_into_rtrancl)
  ultimately show "\<exists>m'. get_match s' i = Some m' \<and> match_step\<^sup>*\<^sup>* (m_Status m) (m_Status m') \<and> (m_Status m = MatchStatusFinished \<longrightarrow> match_result m' = match_result m)"
    using m2(1) by blast
qed

text \<open>A step of the table that is no correction.\<close>
abbreviation plain :: match_op where
  "plain \<equiv> OpStart 0"

lemma plain_not_corrects [simp]: "\<not> corrects plain i"
  by (simp add: corrects_def)

lemma tx_valid_run: "tx_valid P m (\<lambda>_. Q) (\<lambda>_. Q) \<Longrightarrow> P s \<Longrightarrow> m fs s = (r, fs', s') \<Longrightarrow> Q s'"
  using tx_validD [of P m "\<lambda>_. Q" "\<lambda>_. Q" s fs] by (cases r) auto

lemma sync_keepsI:
  assumes "\<And>s1. matches_wf s1 \<Longrightarrow> tx_valid (\<lambda>s. s = s1) p (\<lambda>_. table_step plain s1) (\<lambda>_. table_step plain s1)"
  shows "tx_keeps (sync_inv s0) p"
proof (rule tx_keepsI)
  fix s fs r fs' s' assume I: "sync_inv s0 s" and run: "p fs s = (r, fs', s')"
  have "matches_wf s" using I by (simp add: sync_inv_def)
  from tx_valid_run [OF assms [OF this] refl run] show "sync_inv s0 s'" by (rule sync_inv_step [OF I]) simp
qed

lemma UpdateResult_valid: "matches_wf s1 \<Longrightarrow> tx_valid (\<lambda>s. s = s1) (UpdateResult n i sc) (\<lambda>_. table_step oper s1) (\<lambda>_. table_step oper s1)"
  unfolding UpdateResult_def by (rule result_op_valid) simp_all

lemma match_ops_sync [tx_keep]:
  "tx_keeps (sync_inv s0) (StartMatch i)" "tx_keeps (sync_inv s0) (UpdateResult n i sc)" "tx_keeps (sync_inv s0) (UpdateKickoff i t)"
  by (rule sync_keepsI; simp add: StartMatch_valid UpdateResult_valid UpdateKickoff_def table_step_unit plain_row_update_valid match_result_def)+

lemma row_update_sync [tx_keep]:
  assumes "\<And>r. m_ID (f r) = m_ID r" "\<And>r. m_Status (f r) = m_Status r" "\<And>r. match_result (f r) = match_result r"
  shows "tx_keeps (sync_inv s0) (tx_exec (update_match_row i f))"
  by (rule sync_keepsI) (rule plain_row_update_valid [OF _ assms])

lemma found_match_keeps [tx_keep]: "tx_keeps I p \<Longrightarrow> tx_keeps I (found_match p)"
  unfolding found_match_def by (intro tx_keep)

lemma links_sync [tx_keep]:
  "tx_keeps (sync_inv s0) (repo_LinkExternal i p e)" "tx_keeps (sync_inv s0) (repo_UnlinkExternal i)" "tx_keeps (sync_inv s0) (UpdateSyncState i)"
proof -
  have "tx_keeps (sync_inv s0) (tx_exec (match_link i p e))"
  proof (rule tx_keeps_exec)
    fix s a s' assume I: "sync_inv s0 s" and run: "match_link i p e s = Inr (a, s')"
    have "table_step plain s s'"
      by (rule plain_update_step [of s i "\<lambda>r. r\<lparr>m_ExternalProvider := Some p, m_ExternalMatchID := Some e, m_LastSyncedAt := None\<rparr>" a s'])
        (use I run in \<open>auto simp: sync_inv_def match_link_def match_result_def split: if_splits\<close>)
    then show "sync_inv s0 s'" by (rule sync_inv_step [OF I]) simp
  qed
  then show "tx_keeps (sync_inv s0) (repo_LinkExternal i p e)" unfolding repo_LinkExternal_def by (intro tx_keeps_void found_match_keeps)
  show "tx_keeps (sync_inv s0) (repo_UnlinkExternal i)" unfolding repo_UnlinkExternal_def by (intro tx_keep) (simp_all add: match_result_def)
  have "tx_keeps (sync_inv s0) (tx_exec (\<lambda>s. update_match_row i (\<lambda>r. r\<lparr>m_LastSyncedAt := Some (db_now s)\<rparr>) s))"
  proof (rule tx_keeps_exec)
    fix s a s' assume I: "sync_inv s0 s" and run: "update_match_row i (\<lambda>r. r\<lparr>m_LastSyncedAt := Some (db_now s)\<rparr>) s = Inr (a, s')"
    have "table_step plain s s'" by (rule plain_update_step [OF _ run]) (use I in \<open>auto simp: sync_inv_def match_result_def\<close>)
    then show "sync_inv s0 s'" by (rule sync_inv_step [OF I]) simp
  qed
  then show "tx_keeps (sync_inv s0) (UpdateSyncState i)" unfolding UpdateSyncState_def by (intro tx_keeps_void)
qed

lemma steps_sync [tx_keep]:
  "tx_keeps (sync_inv s0) (startMissed i)" "tx_keeps (sync_inv s0) (applyKickoff i)" "tx_keeps (sync_inv s0) (applyResult n c i fix)"
  unfolding startMissed_def applyKickoff_def applyResult_def by (intro tx_keep)+

text \<open>Only the write of a live score relies on the row still being what it was when the candidates were listed.\<close>
definition unmoved :: "Match \<Rightarrow> db \<Rightarrow> bool" where
  "unmoved m s \<longleftrightarrow> (\<exists>r. get_match s (m_ID m) = Some r \<and> m_Status r = m_Status m)"

lemma applyLiveScore_sync:
  assumes "sync_inv s0 s" "unmoved m s" "m_Status m = MatchStatusLive" "applyLiveScore m fix fs s = (r, fs', s')"
  shows "sync_inv s0 s'"
proof -
  let ?m = "m\<lparr>m_HomeScore := Some (fx_HomeScore fix), m_AwayScore := Some (fx_AwayScore fix),
     m_Period := Some (status_code (fx_Status fix)), m_PenaltyHomeScore := fx_PenaltyHomeScore fix, m_PenaltyAwayScore := fx_PenaltyAwayScore fix\<rparr>"
  obtain q where q: "get_match s (m_ID m) = Some q" "m_Status q = MatchStatusLive" using assms(2,3) by (auto simp: unmoved_def)
  have v: "tx_valid (\<lambda>x. x = s) (MatchUpdate ?m) (\<lambda>m' t. table_step plain s t \<and> get_match t (m_ID ?m) = Some m') (\<lambda>_. table_step plain s)"
    by (rule MatchUpdate_valid [where r = q]) (use assms(1,3) q in \<open>auto simp: sync_inv_def match_wf_def match_set_def row_step_def intro: match_step.stay\<close>)
  have "tx_valid (\<lambda>x. x = s) (MatchUpdate ?m) (\<lambda>_. table_step plain s) (\<lambda>_. table_step plain s)" by (rule tx_valid_weaken [OF v]) simp_all
  from tx_valid_run [OF this refl assms(4) [unfolded applyLiveScore_def]] show ?thesis by (rule sync_inv_step [OF assms(1)]) simp
qed

lemma processOne_sync:
  assumes "sync_inv s0 s" "unmoved m s" "processOne n c m fs s = (r, fs', s')"
  shows "sync_inv s0 s'"
proof (cases "m_Status m = MatchStatusLive")
  case True
  have v: "tx_valid (\<lambda>s. sync_inv s0 s \<and> unmoved m s) (tx_bind (tx_ignore (tx_void (applyLiveScore m fx))) (\<lambda>_. tx_ret (True, False))) (\<lambda>_. sync_inv s0) (\<lambda>_. sync_inv s0)" for fx
  proof -
    have "tx_valid (\<lambda>s. sync_inv s0 s \<and> unmoved m s) (applyLiveScore m fx) (\<lambda>_. sync_inv s0) (\<lambda>_. sync_inv s0)"
      by (rule tx_validI) (use True applyLiveScore_sync in auto)
    then show ?thesis by (intro tx_rules) (auto simp: tx_void_def intro!: tx_rules)
  qed
  have live: "sync_inv s0 s'" if "tx_bind (tx_ignore (tx_void (applyLiveScore m fx))) (\<lambda>_. tx_ret (True, False)) fs s = (r, fs', s')" for fx
    by (rule tx_valid_run [OF v _ that]) (use assms(1,2) in simp)
  have rest: "sync_inv s0 s'" if "tx_keeps (sync_inv s0) p" "p fs s = (r, fs', s')" for p :: "(bool \<times> bool) dbprog"
    using that assms(1) by (auto dest: tx_keepsD)
  show ?thesis
    using assms(3) True live rest [OF steps_sync(3)] rest [OF tx_keeps_base(1)] rest [OF tx_keeps_base(2)] unfolding processOne_def
    by (auto split: option.splits if_splits)
next
  case False
  then have "tx_keeps (sync_inv s0) (processOne n c m)" unfolding processOne_def by (auto split: option.split intro!: tx_keep)
  then show ?thesis using assms(1,3) by (rule tx_keepsD)
qed


subsection \<open>Other rows\<close>

lemma update_match_row_other:
  assumes "update_match_row i f s = Inr (a, s')" "\<And>r. m_ID (f r) = m_ID r" "j \<noteq> i"
  shows "get_match s' j = get_match s j"
  using assms(1,3) by (auto simp: update_match_row_def store_matches_def get_match_def find_update_where assms(2) split: option.splits if_splits)

lemma row_update_other [tx_keep]:
  assumes "j \<noteq> i" "\<And>r. m_ID (f r) = m_ID r"
  shows "tx_keeps (\<lambda>s. get_match s j = x) (tx_exec (update_match_row i f))"
  by (rule tx_keeps_exec) (simp add: update_match_row_other [OF _ assms(2,1)])

lemma MatchUpdate_other: "m_ID m \<noteq> j \<Longrightarrow> tx_keeps (\<lambda>s. get_match s j = x) (MatchUpdate m)"
  unfolding MatchUpdate_def by (intro found_match_keeps row_update_other) (auto simp: match_set_def)

lemma GetMatch_bind_keeps:
  assumes "\<And>m. m_ID m = i \<Longrightarrow> tx_keeps I (k m)"
  shows "tx_keeps I (tx_bind (GetMatch i) k)"
  unfolding tx_keeps_def
proof (rule tx_valid_bind)
  show "tx_valid I (GetMatch i) (\<lambda>m s. I s \<and> m_ID m = i) (\<lambda>_. I)"
    unfolding GetMatch_def by (rule tx_valid_bind [where R = "\<lambda>r s. I s \<and> (\<forall>m. r = Some m \<longrightarrow> m_ID m = i)"]) (auto intro!: tx_rules dest: get_match_SomeD)
  show "tx_valid (\<lambda>s. I s \<and> m_ID m = i) (k m) (\<lambda>_. I) (\<lambda>_. I)" for m
    using assms [of m] by (cases "m_ID m = i") (simp_all add: tx_keeps_def)
qed

lemma match_ops_other [tx_keep]:
  assumes "i \<noteq> j"
  shows "tx_keeps (\<lambda>s. get_match s j = x) (StartMatch i)" "tx_keeps (\<lambda>s. get_match s j = x) (UpdateResult n i sc)" "tx_keeps (\<lambda>s. get_match s j = x) (UpdateSyncState i)"
proof -
  have score: "tx_keeps (\<lambda>s. get_match s j = x) (ScoreMatch n k)" "tx_keeps (\<lambda>s. get_match s j = x) (ScoreExtras n k)" for k
    by (rule tx_keeps_frame [where g = db_matches]; simp add: ScoreMatch_keeps ScoreExtras_keeps get_match_def)+
  show "tx_keeps (\<lambda>s. get_match s j = x) (StartMatch i)"
    unfolding StartMatch_def by (intro GetMatch_bind_keeps tx_keep MatchUpdate_other) (use assms in simp)
  have "tx_keeps (\<lambda>s. get_match s j = x) (applyScoreAndPublish n m sc)" if "m_ID m = i" for m
    unfolding applyScoreAndPublish_def by (intro tx_keep score MatchUpdate_other) (use assms that in \<open>simp add: set_result_def\<close>)
  then show "tx_keeps (\<lambda>s. get_match s j = x) (UpdateResult n i sc)"
    unfolding UpdateResult_def by (intro tx_keeps_bind GetMatch_bind_keeps tx_keeps_base tx_keeps_if)
  show "tx_keeps (\<lambda>s. get_match s j = x) (UpdateSyncState i)"
    unfolding UpdateSyncState_def by (intro tx_keeps_void tx_keeps_exec) (use assms in \<open>simp add: update_match_row_other\<close>)
qed

lemma processOne_other [tx_keep]: "m_ID m \<noteq> j \<Longrightarrow> tx_keeps (\<lambda>s. get_match s j = x) (processOne n c m)"
  unfolding processOne_def applyKickoff_def applyResult_def startMissed_def applyLiveScore_def by (intro tx_keep MatchUpdate_other) simp_all

lemma UpdateSyncState_other_run:
  assumes "m_ID m \<noteq> j" "tx_ignore (UpdateSyncState (m_ID m)) fs s = (r, fs', s')"
  shows "get_match s' j = get_match s j"
  using tx_keepsD [OF tx_keeps_ignore [OF match_ops_other(3) [OF assms(1), where x = "get_match s j"]] _ assms(2)] by simp

text \<open>
  One round of the loop: the candidate is processed from a state in which only earlier candidates changed.
\<close>
lemma poll_loop_step:
  assumes "poll_loop n c (m # ms) k fs s = (r, fs', s')"
  obtains r1 fs1 s1 fs2 s2 k' where "processOne n c m fs s = (r1, fs1, s1)" "poll_loop n c ms k' fs2 s2 = (r, fs', s')"
    "is_ok r1 \<longrightarrow> (\<exists>r2. tx_ignore (UpdateSyncState (m_ID m)) fs1 s1 = (r2, fs2, s2))" "\<not> is_ok r1 \<longrightarrow> fs2 = fs1 \<and> s2 = s1"
proof -
  obtain r1 fs1 s1 where one: "processOne n c m fs s = (r1, fs1, s1)" by (metis prod_cases3)
  show thesis
  proof (cases r1)
    case (Inl e)
    then show ?thesis using assms one by (intro that [of r1 fs1 s1 k fs1 s1]) (auto simp: tx_try_def)
  next
    case (Inr v)
    obtain live applied where v: "v = (live, applied)" by (cases v)
    obtain r2 fs2 s2 where st: "tx_ignore (UpdateSyncState (m_ID m)) fs1 s1 = (r2, fs2, s2)" by (metis prod_cases3)
    have "is_ok r2" using st by (auto simp: tx_ignore_def tx_try_def tx_ret_def split: prod.splits sum.splits)
    then show ?thesis using assms one st Inr v
      by (intro that [of r1 fs1 s1 "if live then k + 1 else k" fs2 s2]) (auto simp: tx_try_def tx_bind_def is_ok_iff split: prod.splits)
  qed
qed

lemma poll_loop_sync:
  assumes "sync_inv s0 s" "\<And>m. m \<in> set ms \<Longrightarrow> unmoved m s" "distinct (map m_ID ms)" "poll_loop n c ms k fs s = (r, fs', s')"
  shows "sync_inv s0 s'"
  using assms
proof (induction ms arbitrary: k fs s)
  case Nil
  then show ?case by (simp add: tx_ret_def)
next
  case (Cons m ms)
  obtain r1 fs1 s1 fs2 s2 k' where st: "processOne n c m fs s = (r1, fs1, s1)" "poll_loop n c ms k' fs2 s2 = (r, fs', s')"
    "is_ok r1 \<longrightarrow> (\<exists>r2. tx_ignore (UpdateSyncState (m_ID m)) fs1 s1 = (r2, fs2, s2))" "\<not> is_ok r1 \<longrightarrow> fs2 = fs1 \<and> s2 = s1"
    by (rule poll_loop_step [OF Cons.prems(4)])
  have s1: "sync_inv s0 s1" by (rule processOne_sync [OF Cons.prems(1) _ st(1)]) (simp add: Cons.prems(2))
  then have "sync_inv s0 s2" using st(3,4) tx_keepsD [OF tx_keeps_ignore [OF links_sync(3)] s1] by (cases "is_ok r1") auto
  moreover have "unmoved q s2" if q: "q \<in> set ms" for q
  proof -
    have ne: "m_ID m \<noteq> m_ID q" using Cons.prems(3) q by auto
    have "get_match s1 (m_ID q) = get_match s (m_ID q)" using tx_keepsD [OF processOne_other [OF ne, where x = "get_match s (m_ID q)"] _ st(1)] by simp
    moreover have "get_match s2 (m_ID q) = get_match s1 (m_ID q)"
      using st(3,4) UpdateSyncState_other_run [OF ne] by (cases "is_ok r1") auto
    ultimately show ?thesis using Cons.prems(2) [of q] q by (simp add: unmoved_def)
  qed
  ultimately show ?case using Cons.IH [OF _ _ _ st(2)] Cons.prems(3) by simp
qed

lemma candidates_unmoved:
  assumes "matches_wf s" "m \<in> set (filter P (db_matches s))"
  shows "get_match s (m_ID m) = Some m"
  unfolding get_match_def
  using find_unique_row [of m_ID "db_matches s" m] assms by (auto simp: matches_wf_def)


lemma PollAndApply_sync: "tx_keeps (sync_inv s0) (PollAndApply n provider w)"
proof (cases provider)
  case (Some c)
  show ?thesis
  proof (rule tx_keepsI)
    fix s fs r fs' s' assume I: "sync_inv s0 s" and run: "PollAndApply n provider w fs s = (r, fs', s')"
    let ?ms = "sort_key m_KickoffAt (filter (is_candidate w (db_now s)) (db_matches s))"
    have wf: "matches_wf s" using I by (simp add: sync_inv_def)
    have "distinct (map m_ID ?ms)"
      using distinct_map_filter [of m_ID "db_matches s"] wf mset_eq_imp_distinct_iff [of "map m_ID ?ms" "map m_ID (filter (is_candidate w (db_now s)) (db_matches s))"]
      by (simp add: matches_wf_def)
    moreover have "unmoved m s" if "m \<in> set ?ms" for m using candidates_unmoved [OF wf] that by (auto simp: unmoved_def)
    ultimately have "sync_inv s0 s'" if "poll_loop n c ?ms 0 fs1 s = (r, fs', s')" for fs1 using poll_loop_sync [OF I _ _ that] by blast
    moreover have "s' = s \<or> (\<exists>fs1. poll_loop n c ?ms 0 fs1 s = (r, fs', s'))"
      using run by (auto simp: Some PollAndApply_def ListSyncCandidates_def tx_bind_def tx_query_def tx_stmt_def split: prod.splits option.splits)
    ultimately show "sync_inv s0 s'" using I by blast
  qed
qed (simp add: PollAndApply_def no_provider_def tx_keeps_base)

lemma link_fixtures_sync [tx_keep]: "tx_keeps (sync_inv s0) (link_fixtures lower st fxs)"
  by (induction fxs arbitrary: st) (auto simp: tryAutoLink_def link_match_def FindByTeams_def intro!: tx_keep)

lemma count_loop_sync: "(\<And>m. m \<in> set ms \<Longrightarrow> tx_keeps I (f m)) \<Longrightarrow> tx_keeps I (count_loop f ms k)"
  by (induction ms arbitrary: k) (auto intro!: tx_keep)

lemma dailySyncOneMatch_sync:
  assumes "m_Status m = MatchStatusLive \<or> m_Status m = MatchStatusScheduled"
  shows "tx_keeps (sync_inv s0) (dailySyncOneMatch n c m)"
  using assms unfolding dailySyncOneMatch_def maybeCorrectKickoff_def maybeTransitionStatus_def applyFinishedTransition_def applyResultFromProvider_def applyStartTransition_def
  by (auto split: option.split intro!: tx_keep)

text \<open>A finished match that penalties decided has a winner, so there is nothing to repair.\<close>
lemma nothing_to_repair: "matches_wf s \<Longrightarrow> filter lacks_penalty_winner (db_matches s) = []"
  unfolding filter_empty_conv matches_wf_def match_wf_def lacks_penalty_winner_def by (metis option.distinct(1))

lemma repair_sync: "tx_keeps (sync_inv s0) (repairFinishedPenaltyMatches n c)"
  unfolding repairFinishedPenaltyMatches_def ListFinishedPenaltyMatchesMissingWinner_def tx_keeps_def
proof (rule tx_valid_try)
  show "tx_valid (sync_inv s0) (tx_query (\<lambda>s. sort_key m_KickoffAt (filter lacks_penalty_winner (db_matches s)))) (\<lambda>ms s. ms = [] \<and> sync_inv s0 s) (\<lambda>_. sync_inv s0)"
    by (rule tx_valid_query) (simp_all add: sync_inv_def nothing_to_repair)
  show "tx_valid (\<lambda>s. ms = [] \<and> sync_inv s0 s) (count_loop (repairFinished n c) ms 0) (\<lambda>_. sync_inv s0) (\<lambda>_. sync_inv s0)" for ms
    by (cases "ms = []") (auto simp: tx_valid_def tx_ret_def)
qed (rule tx_valid_ret)

lemma DailyFixtureSync_sync: "tx_keeps (sync_inv s0) (DailyFixtureSync n lower provider league season a b)"
proof (cases provider)
  case (Some c)
  have "tx_valid (\<lambda>s. sync_inv s0 s \<and> (\<forall>m\<in>set ms. m_Status m = MatchStatusLive \<or> m_Status m = MatchStatusScheduled))
      (let candidates = filterByDateRange ms a b in
       tx_bind (count_loop (dailySyncOneMatch n c) candidates 0) (\<lambda>updated.
       tx_bind (repairFinishedPenaltyMatches n c) (\<lambda>corrected.
       tx_ret \<lparr>ds_Total = int (length candidates), ds_Linked = linked, ds_Updated = updated, ds_Corrected = corrected\<rparr>)))
      (\<lambda>_. sync_inv s0) (\<lambda>_. sync_inv s0)" for ms linked
  proof (cases "\<forall>m\<in>set ms. m_Status m = MatchStatusLive \<or> m_Status m = MatchStatusScheduled")
    case True
    then have "tx_keeps (sync_inv s0) (count_loop (dailySyncOneMatch n c) (filterByDateRange ms a b) 0)"
      by (intro count_loop_sync dailySyncOneMatch_sync) (auto simp: filterByDateRange_def)
    then have "tx_keeps (sync_inv s0) (let candidates = filterByDateRange ms a b in
       tx_bind (count_loop (dailySyncOneMatch n c) candidates 0) (\<lambda>updated.
       tx_bind (repairFinishedPenaltyMatches n c) (\<lambda>corrected.
       tx_ret \<lparr>ds_Total = int (length candidates), ds_Linked = linked, ds_Updated = updated, ds_Corrected = corrected\<rparr>)))"
      unfolding Let_def by (intro tx_keeps_bind repair_sync tx_keeps_base)
    then show ?thesis using True unfolding tx_keeps_def by simp
  next
    case False
    then show ?thesis by (simp only: simp_thms tx_valid_False)
  qed
  note rest = this
  have "tx_keeps (sync_inv s0) (tx_bind (ListSyncCandidates 0) (\<lambda>all. let candidates = filterByDateRange all a b in
       tx_bind (count_loop (dailySyncOneMatch n c) candidates 0) (\<lambda>updated.
       tx_bind (repairFinishedPenaltyMatches n c) (\<lambda>corrected.
       tx_ret \<lparr>ds_Total = int (length candidates), ds_Linked = linked, ds_Updated = updated, ds_Corrected = corrected\<rparr>))))" for linked
    unfolding tx_keeps_def by (rule tx_valid_bind [OF _ rest]) (auto simp: ListSyncCandidates_def is_candidate_def intro!: tx_rules)
  note phases = this
  have "tx_keeps (sync_inv s0) (autoLinkByDateRange lower c league season a b)" unfolding autoLinkByDateRange_def by (intro tx_keep)
  then show ?thesis unfolding DailyFixtureSync_def Some option.case by (rule tx_keeps_bind [OF _ phases])
qed (simp add: DailyFixtureSync_def no_provider_def tx_keeps_base)

datatype sync_op =
    SyncPoll "Client option" int
  | SyncDaily "Client option" int int "time option" "time option"
  | SyncLink int string int
  | SyncUnlink int
  | SyncMatch match_op

fun run_sync_op :: "nat \<Rightarrow> (string \<Rightarrow> string) \<Rightarrow> sync_op \<Rightarrow> unit dbprog" where
  "run_sync_op n lower (SyncPoll c w) = tx_void (PollAndApply n c w)"
| "run_sync_op n lower (SyncDaily c l sn a b) = tx_void (DailyFixtureSync n lower c l sn a b)"
| "run_sync_op n lower (SyncLink i p e) = LinkExternal i p e"
| "run_sync_op n lower (SyncUnlink i) = UnlinkExternal i"
| "run_sync_op n lower (SyncMatch oper) = run_match_op n oper"

lemma run_sync_op_keeps: "(\<And>i sc. oper \<noteq> SyncMatch (OpCorrect i sc)) \<Longrightarrow> tx_keeps (sync_inv s0) (run_sync_op n lower oper)"
proof (cases oper)
  case (SyncMatch x)
  assume no: "\<And>i sc. oper \<noteq> SyncMatch (OpCorrect i sc)"
  show ?thesis
  proof (rule tx_keepsI)
    fix s fs r fs' s' assume I: "sync_inv s0 s" and run: "run_sync_op n lower oper fs s = (r, fs', s')"
    have "table_step x s s'" using match_op_step [of s x n fs] I run by (simp add: SyncMatch sync_inv_def)
    then show "sync_inv s0 s'" by (rule sync_inv_step [OF I]) (use no in \<open>auto simp: corrects_def SyncMatch\<close>)
  qed
qed (auto simp: LinkExternal_def UnlinkExternal_def intro!: tx_keep PollAndApply_sync DailyFixtureSync_sync)

text \<open>
  C15: the synchronisation respects the life of a match. Whatever polls, daily synchronisations, links and operations on matches other than
  corrections run, one after the other, with whatever answers of the provider and whatever failures, every status
  moves along the state machine only and the result of a finished match never changes; in particular the
  repair of penalty data finds nothing to repair.
\<close>
theorem sync_respects_lifecycle:
  assumes "matches_wf s" "\<forall>(oper, fs)\<in>set ops. \<forall>i sc. oper \<noteq> SyncMatch (OpCorrect i sc)"
    "s' = run_all (map (\<lambda>(oper, fs). (run_sync_op n lower oper, fs)) ops) s"
  shows "matches_wf s' \<and> filter lacks_penalty_winner (db_matches s') = [] \<and> (\<forall>i m. get_match s i = Some m \<longrightarrow>
     (\<exists>m'. get_match s' i = Some m' \<and> match_step\<^sup>*\<^sup>* (m_Status m) (m_Status m') \<and> (m_Status m = MatchStatusFinished \<longrightarrow> match_result m' = match_result m)))"
proof -
  have "sync_inv s s'" unfolding assms(3)
    by (rule run_all_invariant [where I = "sync_inv s"]) (use assms(1,2) run_sync_op_keeps sync_inv_refl in fastforce)+
  then show ?thesis using nothing_to_repair by (auto simp: sync_inv_def)
qed


section \<open>The synchronisation follows the provider\<close>

text \<open>Without faults a program leaves the empty script empty.\<close>
definition calm_prog :: "(db, 'a) prog \<Rightarrow> bool" where
  "calm_prog p \<longleftrightarrow> (\<forall>s. fst (snd (p [] s)) = [])"

named_theorems calm_rules

lemma calm_base [calm_rules]:
  "calm_prog (tx_ret a)" "calm_prog (tx_err e)" "calm_prog (tx_query q)" "calm_prog (tx_exec g)" "calm_prog (tx_lift r)"
  by (auto simp: calm_prog_def tx_defs split: sum.split)

lemma calm_bind [calm_rules]: "calm_prog m \<Longrightarrow> (\<And>a. calm_prog (f a)) \<Longrightarrow> calm_prog (tx_bind m f)"
  unfolding calm_prog_def tx_bind_def by (simp split: prod.split sum.split) (metis fst_conv snd_conv)

lemma calm_try [calm_rules]: "calm_prog m \<Longrightarrow> (\<And>e. calm_prog (h e)) \<Longrightarrow> (\<And>a. calm_prog (f a)) \<Longrightarrow> calm_prog (tx_try m h f)"
  unfolding calm_prog_def tx_try_def by (simp split: prod.split sum.split) (metis fst_conv snd_conv)

lemma calm_publish [calm_rules]: "(\<And>a. calm_prog (f a)) \<Longrightarrow> calm_prog (tx_try Publish h f)"
  unfolding calm_prog_def tx_try_def Publish_def by (simp add: tx_stmt_def)

lemma calm_split [calm_rules]:
  "(b \<Longrightarrow> calm_prog p) \<Longrightarrow> (\<not> b \<Longrightarrow> calm_prog q) \<Longrightarrow> calm_prog (if b then p else q)"
  "calm_prog p \<Longrightarrow> (\<And>y. calm_prog (g y)) \<Longrightarrow> calm_prog (case x of None \<Rightarrow> p | Some y \<Rightarrow> g y)"
  by (auto split: option.split)

lemma calm_match_ops [calm_rules]: "calm_prog (StartMatch i)" "calm_prog (MatchUpdate m)" "calm_prog (UpdateResult n i sc)" "calm_prog (UpdateSyncState i)"
  unfolding StartMatch_def UpdateResult_def applyScoreAndPublish_def GetMatch_def MatchUpdate_def found_match_def UpdateSyncState_def tx_void_def
  by (intro calm_publish calm_rules)+

lemma calm_processOne: "calm_prog (processOne n c m)"
  unfolding processOne_def applyKickoff_def applyResult_def startMissed_def applyLiveScore_def tx_void_def tx_ignore_def
  by (intro calm_rules)


definition table_ok :: "db \<Rightarrow> bool" where
  "table_ok s \<longleftrightarrow> list_all match_checks (db_matches s) \<and> teams_kickoff_unique (db_matches s)"

lemma update_match_row_table: "update_match_row i f s = Inr (a, s') \<Longrightarrow> table_ok s \<Longrightarrow> table_ok s'"
  by (auto simp: update_match_row_def store_matches_def table_ok_def split: option.splits if_splits)

lemma match_ops_table [tx_keep]:
  "tx_keeps table_ok (StartMatch i)" "tx_keeps table_ok (MatchUpdate m)" "tx_keeps table_ok (UpdateResult n i sc)" "tx_keeps table_ok (UpdateSyncState i)"
proof -
  show u: "tx_keeps table_ok (MatchUpdate m)" for m
    unfolding MatchUpdate_def by (intro found_match_keeps tx_keeps_exec) (rule update_match_row_table)
  have score: "tx_keeps table_ok (ScoreMatch n k)" "tx_keeps table_ok (ScoreExtras n k)" for k
    by (rule tx_keeps_frame [where g = db_matches]; simp add: ScoreMatch_keeps ScoreExtras_keeps table_ok_def)+
  show "tx_keeps table_ok (StartMatch i)" "tx_keeps table_ok (UpdateResult n i sc)"
    unfolding StartMatch_def UpdateResult_def applyScoreAndPublish_def GetMatch_def by (intro tx_keep u score)+
  show "tx_keeps table_ok (UpdateSyncState i)" unfolding UpdateSyncState_def by (intro tx_keeps_void tx_keeps_exec) (rule update_match_row_table)
qed

lemma processOne_table: "tx_keeps table_ok (processOne n c m)"
  unfolding processOne_def applyKickoff_def applyResult_def startMissed_def applyLiveScore_def by (intro tx_keep)

text \<open>Writing a row that keeps its teams and kick-off and passes the checks succeeds.\<close>
lemma store_row:
  assumes "matches_wf s" "table_ok s" "get_match s i = Some r" "m_ID (f r) = m_ID r" "match_checks (f r)"
    "m_HomeTeam (f r) = m_HomeTeam r" "m_AwayTeam (f r) = m_AwayTeam r" "m_KickoffAt (f r) = m_KickoffAt r"
  shows "update_match_row i f s = Inr (Some (f r), s\<lparr>db_matches := update_where (\<lambda>r. m_ID r = i) f (db_matches s)\<rparr>)"
    "get_match (s\<lparr>db_matches := update_where (\<lambda>r. m_ID r = i) f (db_matches s)\<rparr>) i = Some (f r)"
proof -
  have r: "r \<in> set (db_matches s)" "m_ID r = i" using get_match_SomeD [OF assms(3)] by auto
  have only: "q = r" if "q \<in> set (db_matches s)" "m_ID q = i" for q
    using that r assms(1) by (auto simp: matches_wf_def distinct_map dest: inj_onD)
  have "(m_ID q = i) = (q = r)" if "q \<in> set (db_matches s)" for q using only [OF that] r(2) by blast
  then have rows: "update_where (\<lambda>r. m_ID r = i) f (db_matches s) = map (\<lambda>q. if q = r then f r else q) (db_matches s)"
    unfolding update_where_def by (intro map_cong refl) simp
  have "teams_kickoff_unique (update_where (\<lambda>r. m_ID r = i) f (db_matches s)) = teams_kickoff_unique (db_matches s)"
    unfolding rows teams_kickoff_unique_def map_map by (rule arg_cong [where f = distinct], rule map_cong) (auto simp: assms(6-8))
  moreover have "list_all match_checks (update_where (\<lambda>r. m_ID r = i) f (db_matches s))"
    using assms(2,5) unfolding rows by (auto simp: list_all_iff table_ok_def)
  ultimately show "update_match_row i f s = Inr (Some (f r), s\<lparr>db_matches := update_where (\<lambda>r. m_ID r = i) f (db_matches s)\<rparr>)"
    using assms(2,3) by (simp add: update_match_row_def store_matches_def table_ok_def)
  show "get_match (s\<lparr>db_matches := update_where (\<lambda>r. m_ID r = i) f (db_matches s)\<rparr>) i = Some (f r)"
  proof -
    have "distinct (map m_ID (map (\<lambda>q. if q = r then f r else q) (db_matches s)))"
    proof -
      have "map m_ID (map (\<lambda>q. if q = r then f r else q) (db_matches s)) = map m_ID (db_matches s)"
        unfolding map_map by (rule map_cong) (simp_all add: assms(4))
      then show ?thesis using assms(1) unfolding matches_wf_def by metis
    qed
    moreover have "f r \<in> set (map (\<lambda>q. if q = r then f r else q) (db_matches s))" using r(1) by (auto simp: image_iff)
    ultimately show ?thesis using find_unique_row [of m_ID _ "f r"] r(2) assms(4) by (simp add: get_match_def rows)
  qed
qed


lemma MatchUpdate_now:
  assumes "matches_wf s" "table_ok s" "get_match s (m_ID m) = Some r" "match_checks (match_set m r)"
    "m_HomeTeam m = m_HomeTeam r" "m_AwayTeam m = m_AwayTeam r" "m_KickoffAt m = m_KickoffAt r"
  shows "\<exists>s'. MatchUpdate m [] s = (Inr (match_set m r), [], s') \<and> get_match s' (m_ID m) = Some (match_set m r)"
  using store_row [OF assms(1-3), of "match_set m"] assms(4-7)
  by (simp add: MatchUpdate_def found_match_def tx_defs match_set_def)

lemma StartMatch_now:
  assumes "matches_wf s" "table_ok s" "get_match s i = Some m" "m_Status m = MatchStatusScheduled"
  shows "\<exists>s'. StartMatch i [] s = (Inr (m\<lparr>m_Status := MatchStatusLive\<rparr>), [], s') \<and> get_match s' i = Some (m\<lparr>m_Status := MatchStatusLive\<rparr>)"
proof -
  have m: "m_ID m = i" "m \<in> set (db_matches s)" using get_match_SomeD [OF assms(3)] by auto
  then have "match_checks m" using assms(2) by (auto simp: table_ok_def list_all_iff)
  then have "match_checks (m\<lparr>m_Status := MatchStatusLive\<rparr>)" by (cases "m_GroupLabel m") (auto simp: match_checks_def)
  moreover have "match_set (m\<lparr>m_Status := MatchStatusLive\<rparr>) m = m\<lparr>m_Status := MatchStatusLive\<rparr>" by (simp add: match_set_read)
  ultimately obtain s' where "MatchUpdate (m\<lparr>m_Status := MatchStatusLive\<rparr>) [] s = (Inr (m\<lparr>m_Status := MatchStatusLive\<rparr>), [], s')"
    "get_match s' i = Some (m\<lparr>m_Status := MatchStatusLive\<rparr>)"
    using MatchUpdate_now [of s "m\<lparr>m_Status := MatchStatusLive\<rparr>" m] assms m by auto
  then show ?thesis using assms(3,4) by (simp add: StartMatch_def GetMatch_def Publish_def tx_bind_def tx_try_def tx_query_def tx_stmt_def tx_ret_def)
qed

lemma UpdateResult_now:
  assumes "matches_wf s" "table_ok s" "get_match s i = Some m" "m_Status m = MatchStatusLive" "0 \<le> su_HomeScore sc" "0 \<le> su_AwayScore sc"
    "\<not> penalty_winner_missing sc" "opt_in (su_WinMethod sc) [WinMethodNormal, WinMethodExtraTime, WinMethodPenalties]"
    "opt_in (su_PenaltyWinner sc) [''home'', ''away'']" "opt_in (su_FirstScoringTeam sc) [''home'', ''away'', ''none'']"
  shows "\<exists>e s'. UpdateResult n i sc [] s = (Inr (set_result sc m, e), [], s') \<and> get_match s' i = Some (set_result sc m)"
proof -
  have m: "m_ID m = i" "m \<in> set (db_matches s)" using get_match_SomeD [OF assms(3)] by auto
  then have "match_checks m" using assms(2) by (auto simp: table_ok_def list_all_iff)
  then have "match_checks (set_result sc m)" using assms(8-10) by (cases "m_GroupLabel m") (auto simp: match_checks_def set_result_def)
  moreover have "m_ID (set_result sc m) = i" "m_HomeTeam (set_result sc m) = m_HomeTeam m" "m_AwayTeam (set_result sc m) = m_AwayTeam m" "m_KickoffAt (set_result sc m) = m_KickoffAt m"
    by (simp_all add: set_result_def m)
  moreover have "match_set (set_result sc m) m = set_result sc m" by (simp add: match_set_read set_result_def)
  ultimately obtain s' where "MatchUpdate (set_result sc m) [] s = (Inr (set_result sc m), [], s')" "get_match s' i = Some (set_result sc m)"
    using MatchUpdate_now [of s "set_result sc m" m] assms(1-3) by auto
  then show ?thesis using assms(3-7)
    by (simp add: UpdateResult_def applyScoreAndPublish_def ValidateMatchResult_def GetMatch_def Publish_def tx_lift_def tx_bind_def tx_try_def tx_query_def tx_stmt_def tx_ret_def)
qed

lemma provider_score_checks:
  "opt_in (su_WinMethod (provider_score c fx None)) [WinMethodNormal, WinMethodExtraTime, WinMethodPenalties]"
  "opt_in (su_PenaltyWinner (provider_score c fx None)) [''home'', ''away'']"
  "opt_in (su_FirstScoringTeam (provider_score c fx None)) [''home'', ''away'', ''none'']"
  "penalty_winner_missing (provider_score c fx None) \<longleftrightarrow> fx_Status fx = StatusAfterPEN \<and> derivePenaltyWinner fx = None"
  by (auto simp: provider_score_def opt_in_def winMethodFromStatus_def derivePenaltyWinner_def resolveExtrasFields_def FirstScoringTeam_def penalty_winner_missing_def
    WinMethodExtraTime_def WinMethodPenalties_def Let_def split: FixtureStatus.splits option.splits list.splits if_splits)


text \<open>The result the provider reports.\<close>
definition provider_result :: "Fixture \<Rightarrow> int option \<times> int option \<times> WinMethod option \<times> string option" where
  "provider_result fx = (Some (fx_HomeScore fx), Some (fx_AwayScore fx), winMethodFromStatus (fx_Status fx), derivePenaltyWinner fx)"

text \<open>A final fixture with a result the platform can store.\<close>
definition conclusive :: "Fixture \<Rightarrow> bool" where
  "conclusive fx \<longleftrightarrow> IsFinished (fx_Status fx) \<and> 0 \<le> fx_HomeScore fx \<and> 0 \<le> fx_AwayScore fx \<and> (fx_Status fx = StatusAfterPEN \<longrightarrow> derivePenaltyWinner fx \<noteq> None)"

definition concluded :: "int \<Rightarrow> Fixture \<Rightarrow> db \<Rightarrow> bool" where
  "concluded i fx s \<longleftrightarrow> (\<exists>m. get_match s i = Some m \<and> m_Status m = MatchStatusFinished \<and> match_result m = provider_result fx)"

lemma applyResult_concludes:
  assumes "matches_wf s" "table_ok s" "get_match s i = Some m" "m_Status m = MatchStatusLive" "conclusive fx"
  shows "concluded i fx (snd (snd (applyResult n c i fx [] s)))"
proof -
  let ?sc = "provider_score c fx None"
  have scores: "su_HomeScore ?sc = fx_HomeScore fx" "su_AwayScore ?sc = fx_AwayScore fx" by (simp_all add: provider_score_def split: prod.split)
  then obtain e s' where run: "UpdateResult n i ?sc [] s = (Inr (set_result ?sc m, e), [], s')" "get_match s' i = Some (set_result ?sc m)"
    using UpdateResult_now [OF assms(1-4), of ?sc n] assms(5) provider_score_checks [of c fx] by (auto simp: conclusive_def)
  have "match_result (set_result ?sc m) = provider_result fx" "m_Status (set_result ?sc m) = MatchStatusFinished"
    by (simp_all add: match_result_def provider_result_def set_result_def provider_score_def split: prod.split)
  then show ?thesis using run by (simp add: applyResult_def tx_try_def tx_ret_def concluded_def)
qed

lemma processOne_concludes:
  assumes wf: "matches_wf s" "table_ok s" "get_match s (m_ID m) = Some m" and m: "m_Status m = MatchStatusScheduled \<or> m_Status m = MatchStatusLive"
    "m_ExternalMatchID m = Some e" "fc_GetFixture c e = Some fx" "conclusive fx"
  shows "concluded (m_ID m) fx (snd (snd (processOne n c m [] s)))"
proof -
  have st: "\<not> IsLive (fx_Status fx)" "fx_Status fx \<noteq> StatusNotStarted" "IsFinished (fx_Status fx)" using m(4) by (auto simp: conclusive_def IsLive_def IsFinished_def)
  show ?thesis
  proof (cases "m_Status m = MatchStatusLive")
    case True
    then show ?thesis using applyResult_concludes [OF wf True m(4)] st m by (simp add: processOne_def)
  next
    case False
    then have sched: "m_Status m = MatchStatusScheduled" using m(1) by simp
    obtain s1 where s1: "StartMatch (m_ID m) [] s = (Inr (m\<lparr>m_Status := MatchStatusLive\<rparr>), [], s1)" "get_match s1 (m_ID m) = Some (m\<lparr>m_Status := MatchStatusLive\<rparr>)"
      using StartMatch_now [OF wf sched] by blast
    have "matches_wf s1" using tx_validD(1) [OF StartMatch_valid [OF wf(1), of _ plain] refl s1(1)] by (simp add: table_step_def)
    moreover have "table_ok s1" by (rule tx_keepsD [OF match_ops_table(1) wf(2) s1(1)])
    ultimately have "concluded (m_ID m) fx (snd (snd (applyResult n c (m_ID m) fx [] s1)))" using applyResult_concludes [OF _ _ s1(2) _ m(4)] by simp
    then show ?thesis using st m sched s1(1) by (simp add: processOne_def startMissed_def tx_bind_def tx_try_def tx_ret_def)
  qed
qed

lemma UpdateSyncState_concluded: "tx_keeps (concluded i fx) (UpdateSyncState j)"
proof -
  have "concluded i fx s'" if "concluded i fx s" "update_match_row j (\<lambda>r. r\<lparr>m_LastSyncedAt := Some (db_now s)\<rparr>) s = Inr (a, s')" for s a s'
    using that by (auto simp: concluded_def update_match_row_def store_matches_def get_match_def find_update_where match_result_def split: option.splits if_splits)
  then show ?thesis unfolding UpdateSyncState_def by (intro tx_keeps_void tx_keeps_exec)
qed

text \<open>Later rounds do not touch the row.\<close>
lemma poll_loop_other:
  assumes "poll_loop n c ms k fs s = (r, fs', s')" "i \<notin> m_ID ` set ms"
  shows "get_match s' i = get_match s i"
proof -
  have "tx_keeps (\<lambda>t. get_match t i = get_match s i) (poll_loop n c ms k)" using assms(2)
    by (induction ms arbitrary: k) (auto intro!: tx_keep split: prod.split)
  from tx_keepsD [OF this _ assms(1)] show ?thesis by simp
qed

lemma poll_loop_concludes:
  assumes "poll_loop n c ms k [] s = (r, fs', s')" "m \<in> set ms" "distinct (map m_ID ms)" "\<And>q. q \<in> set ms \<Longrightarrow> unmoved q s"
    "matches_wf s" "table_ok s" "get_match s (m_ID m) = Some m"
    and m: "m_Status m = MatchStatusScheduled \<or> m_Status m = MatchStatusLive" "m_ExternalMatchID m = Some e" "fc_GetFixture c e = Some fx" "conclusive fx"
  shows "concluded (m_ID m) fx s'"
  using assms(1-7)
proof (induction ms arbitrary: k s)
  case (Cons q ms)
  obtain r1 fs1 s1 fs2 s2 k' where st: "processOne n c q [] s = (r1, fs1, s1)" "poll_loop n c ms k' fs2 s2 = (r, fs', s')"
    "is_ok r1 \<longrightarrow> (\<exists>r2. tx_ignore (UpdateSyncState (m_ID q)) fs1 s1 = (r2, fs2, s2))" "\<not> is_ok r1 \<longrightarrow> fs2 = fs1 \<and> s2 = s1"
    by (rule poll_loop_step [OF Cons.prems(1)])
  have fs1: "fs1 = []" using calm_processOne [of n c q] st(1) unfolding calm_prog_def by (metis fst_conv snd_conv)
  have "calm_prog (tx_ignore (UpdateSyncState (m_ID q)))" unfolding tx_ignore_def by (intro calm_rules)
  then have fs2: "fs2 = []" using st(3,4) fs1 unfolding calm_prog_def by (metis fst_conv snd_conv)
  have s1: "sync_inv s s1" by (rule processOne_sync [OF sync_inv_refl [OF Cons.prems(5)] _ st(1)]) (simp add: Cons.prems(4))
  have s2: "sync_inv s s2" using st(3,4) tx_keepsD [OF tx_keeps_ignore [OF links_sync(3)] s1] s1 by (cases "is_ok r1") auto
  have t1: "table_ok s1" by (rule tx_keepsD [OF processOne_table Cons.prems(6) st(1)])
  have t2: "table_ok s2" using st(3,4) tx_keepsD [OF tx_keeps_ignore [OF match_ops_table(4)] t1] t1 by (cases "is_ok r1") auto
  have other: "get_match s2 j = get_match s j" if "m_ID q \<noteq> j" for j
  proof -
    have "get_match s1 j = get_match s j" using tx_keepsD [OF processOne_other [OF that, where x = "get_match s j"] _ st(1)] by simp
    then show ?thesis using st(3,4) UpdateSyncState_other_run [OF that] by (cases "is_ok r1") auto
  qed
  show ?case
  proof (cases "q = m")
    case True
    have "concluded (m_ID m) fx s1" using processOne_concludes [OF Cons.prems(5-7) m, of n] st(1) True by simp
    then have "concluded (m_ID m) fx s2" using st(3,4) tx_keepsD [OF tx_keeps_ignore [OF UpdateSyncState_concluded]] by (cases "is_ok r1") auto
    moreover have "get_match s' (m_ID m) = get_match s2 (m_ID m)" by (rule poll_loop_other [OF st(2)]) (use Cons.prems(3) True in auto)
    ultimately show ?thesis by (simp add: concluded_def)
  next
    case False
    then have mem: "m \<in> set ms" using Cons.prems(2) by simp
    then have ne: "m_ID q \<noteq> m_ID m" using Cons.prems(3) by auto
    have "unmoved x s2" if "x \<in> set ms" for x
    proof -
      have "m_ID q \<noteq> m_ID x" using Cons.prems(3) that by auto
      then show ?thesis using Cons.prems(4) [of x] that by (simp add: unmoved_def other)
    qed
    then show ?thesis using Cons.IH [OF st(2) [unfolded fs2] mem] Cons.prems(3,7) s2 t2 other [OF ne] by (simp add: sync_inv_def)
  qed
qed simp



section \<open>Concrete runs\<close>

definition example_fix :: "string \<Rightarrow> string \<Rightarrow> FixtureStatus \<Rightarrow> int \<Rightarrow> int \<Rightarrow> Fixture" where
  "example_fix home away st h a = \<lparr>fx_ExternalID = 900, fx_HomeTeam = home, fx_AwayTeam = away, fx_Status = st, fx_HomeScore = h, fx_AwayScore = a,
     fx_KickoffUTC = None, fx_PenaltyHomeScore = None, fx_PenaltyAwayScore = None, fx_HalftimeHomeScore = Some 0, fx_HalftimeAwayScore = Some 0\<rparr>"

definition example_client :: "Fixture \<Rightarrow> Client" where
  "example_client fx = \<lparr>fc_GetFixture = (\<lambda>e. if e = 900 then Some fx else None), fc_GetFixturesByDate = (\<lambda>_ _ _. Some [fx]),
     fc_GetFixtureEvents = (\<lambda>_. Some [\<lparr>ev_TeamName = ''MEX'', ev_ElapsedMin = 12\<rparr>])\<rparr>"

text \<open>A scheduled match, linked or not.\<close>
definition example_sync_db :: "int option \<Rightarrow> db" where
  "example_sync_db e = example_live_db\<lparr>db_matches := map (\<lambda>m. m\<lparr>m_Status := MatchStatusScheduled, m_ExternalMatchID := e\<rparr>) (db_matches example_live_db)\<rparr>"

lemma example_sync_ok: "matches_wf (example_sync_db e)" "table_ok (example_sync_db e)"
  by (simp_all add: example_sync_db_def example_live_db_def example_match_def matches_wf_def match_wf_def table_ok_def teams_kickoff_unique_def match_checks_def opt_in_def
    validPhases_def validGroupLabels_def)


theorem sync_respects_lifecycle_witness:
  "\<exists>m'. get_match (run_all (map (\<lambda>(oper, fs). (run_sync_op 3 id oper, fs))
     [(SyncPoll (Some (example_client (example_fix ''GUA'' ''MEX'' StatusFullTime 1 2))) 0, []), (SyncUnlink 7, []), (SyncMatch (OpCancel 7), [])]) (example_sync_db (Some 900))) 7 = Some m' \<and>
     match_step\<^sup>*\<^sup>* MatchStatusScheduled (m_Status m') \<and> m_Status m' = MatchStatusFinished"
proof -
  let ?ops = "[(SyncPoll (Some (example_client (example_fix ''GUA'' ''MEX'' StatusFullTime 1 2))) 0, []), (SyncUnlink 7, []), (SyncMatch (OpCancel 7), [])]"
  obtain s' where s': "s' = run_all (map (\<lambda>(oper, fs). (run_sync_op 3 id oper, fs)) ?ops) (example_sync_db (Some 900))" by simp
  obtain m where m: "get_match (example_sync_db (Some 900)) 7 = Some m" "m_Status m = MatchStatusScheduled"
    by (simp add: get_match_def example_sync_db_def example_live_db_def example_match_def)
  have f: "map_option m_Status (get_match s' 7) = Some MatchStatusFinished" unfolding s' by code_simp
  have "\<exists>m'. get_match s' 7 = Some m' \<and> match_step\<^sup>*\<^sup>* (m_Status m) (m_Status m')"
    using sync_respects_lifecycle [OF example_sync_ok(1) _ s'] m(1) by (simp, blast)
  then show ?thesis using f m(2) by (fold s') auto
qed

text \<open>
  The steps of a poll are not one transaction. When the result of a match is confirmed between the listing of the candidates and the write of
  the live score, that write, which carries the whole row as it was listed, takes the finished match back to live.
\<close>
lemma stale_live_score_reopens_match:
  assumes "matches_wf s" "table_ok s" "get_match s (m_ID m) = Some r" "match_checks (match_set m r)" "m_Status m = MatchStatusLive"
    "m_HomeTeam m = m_HomeTeam r" "m_AwayTeam m = m_AwayTeam r" "m_KickoffAt m = m_KickoffAt r" "m_Status r = MatchStatusFinished"
  shows "map_option m_Status (get_match (snd (snd (applyLiveScore m fx [] s))) (m_ID m)) = Some MatchStatusLive"
proof -
  let ?m = "m\<lparr>m_HomeScore := Some (fx_HomeScore fx), m_AwayScore := Some (fx_AwayScore fx),
     m_Period := Some (status_code (fx_Status fx)), m_PenaltyHomeScore := fx_PenaltyHomeScore fx, m_PenaltyAwayScore := fx_PenaltyAwayScore fx\<rparr>"
  have "match_checks (match_set ?m r)" using assms(4) by (cases "m_GroupLabel m") (auto simp: match_checks_def match_set_def)
  then obtain s' where "MatchUpdate ?m [] s = (Inr (match_set ?m r), [], s')" "get_match s' (m_ID m) = Some (match_set ?m r)"
    using MatchUpdate_now [OF assms(1,2), of ?m r] assms(3,6-8) by auto
  then show ?thesis using assms(5) by (simp add: applyLiveScore_def match_set_def)
qed

text \<open>
  A fixture is also linked when the provider names the teams the other way round, but its scores are stored as they
  come: a win of the away team is recorded as a win of the home team.
\<close>
lemma swapped_fixture_reverses_result:
  "map_option (\<lambda>m. (m_HomeTeam m, m_HomeScore m, m_AwayTeam m, m_AwayScore m, m_FirstScoringTeam m))
     (get_match (snd (snd (DailyFixtureSync 3 id (Some (example_client (example_fix ''MEX'' ''GUA'' StatusFullTime 3 0))) 1 2026 (Some 0) (Some 5)
       [] (example_sync_db None)))) 7) = Some (''GUA'', Some 3, ''MEX'', Some 0, Some ''home'')"
  by code_simp

end
