(* ===== verification/Tiebreakers.thy ===== *)
theory Tiebreakers
  imports Membership Ranking
begin

text \<open>
  The tie-break questions (\<^verbatim>\<open>service/tiebreaker_service.go\<close>, \<^verbatim>\<open>repository/tiebreaker_config_repository.go\<close>,
  \<^verbatim>\<open>repository/tiebreaker_repository.go\<close>). An administrator sets a question for everyone, for a phase or for a group; members
  answer with a number; the confirmed result closes the question and orders members who are otherwise tied. The
  audit log is left out.
\<close>

section \<open>Repository\<close>

text \<open>\<^verbatim>\<open>nextval\<close> of the sequence behind the keys of the questions; a sequence also advances when the statement fails.\<close>
definition next_config_id :: "int dbprog" where
  "next_config_id fs s = (Inr (db_config_seq s), fs, s\<lparr>db_config_seq := db_config_seq s + 1\<rparr>)"

text \<open>The four partial unique indexes together: at most one question for every scope.\<close>
definition same_scope :: "TiebreakerConfig \<Rightarrow> TiebreakerConfig \<Rightarrow> bool" where
  "same_scope c d \<longleftrightarrow> tc_Phase c = tc_Phase d \<and> tc_QuinielaID c = tc_QuinielaID d"

text \<open>\<^verbatim>\<open>INSERT INTO tiebreaker_config ... ON CONFLICT (...) DO UPDATE SET question\<close>; \<open>arbiter\<close> is the index of the conflict clause.\<close>
definition config_upsert :: "(TiebreakerConfig \<Rightarrow> bool) \<Rightarrow> TiebreakerConfig \<Rightarrow> db \<Rightarrow> go_error + TiebreakerConfig \<times> db" where
  "config_upsert arbiter c s = (let rows = db_tiebreaker_configs s; f = (\<lambda>r. r\<lparr>tc_Question := tc_Question c\<rparr>) in
     case find arbiter rows of
       Some old \<Rightarrow> Inr (f old, s\<lparr>db_tiebreaker_configs := update_where arbiter f rows\<rparr>)
     | None \<Rightarrow>
         if list_ex (\<lambda>r. tc_ID r = tc_ID c \<or> same_scope r c) rows then Inl (PgError ''23505'')
         else if (case tc_QuinielaID c of None \<Rightarrow> False | Some q \<Rightarrow> get_quiniela s q = None) then Inl (PgError ''23503'')
         else Inr (c, s\<lparr>db_tiebreaker_configs := rows @ [c]\<rparr>))"

definition ConfigGet :: "TiebreakerConfig option dbprog" where
  "ConfigGet = tx_query (\<lambda>s. get_config s 1)"

definition GetByPhase :: "MatchPhase \<Rightarrow> TiebreakerConfig option dbprog" where
  "GetByPhase phase = tx_query (\<lambda>s. find (\<lambda>c. tc_Phase c = Some phase \<and> tc_QuinielaID c = None) (db_tiebreaker_configs s))"

definition GetByQuiniela :: "int \<Rightarrow> TiebreakerConfig option dbprog" where
  "GetByQuiniela quinielaID = tx_query (\<lambda>s. find (\<lambda>c. tc_QuinielaID c = Some quinielaID \<and> tc_Phase c = None) (db_tiebreaker_configs s))"

definition new_config :: "int \<Rightarrow> string \<Rightarrow> MatchPhase option \<Rightarrow> int option \<Rightarrow> TiebreakerConfig" where
  "new_config i question phase quinielaID = \<lparr>tc_ID = i, tc_Question = question, tc_Phase = phase, tc_QuinielaID = quinielaID, tc_Result = None\<rparr>"

definition ConfigUpsert :: "string \<Rightarrow> TiebreakerConfig dbprog" where
  "ConfigUpsert question = tx_exec (config_upsert (\<lambda>c. tc_ID c = 1) (new_config 1 question None None))"

definition UpsertForPhase :: "MatchPhase \<Rightarrow> string \<Rightarrow> TiebreakerConfig dbprog" where
  "UpsertForPhase phase question = tx_bind next_config_id (\<lambda>i.
     tx_exec (config_upsert (\<lambda>c. tc_Phase c = Some phase \<and> tc_QuinielaID c = None) (new_config i question (Some phase) None)))"

definition UpsertForQuiniela :: "int \<Rightarrow> string \<Rightarrow> TiebreakerConfig dbprog" where
  "UpsertForQuiniela quinielaID question = tx_bind next_config_id (\<lambda>i.
     tx_exec (config_upsert (\<lambda>c. tc_QuinielaID c = Some quinielaID \<and> tc_Phase c = None) (new_config i question None (Some quinielaID))))"

definition config_set_result :: "int \<Rightarrow> int \<Rightarrow> db \<Rightarrow> go_error + TiebreakerConfig list \<times> db" where
  "config_set_result i result s = (if \<not> in_int32 result then Inl (PgError ''22003'')
     else let f = (\<lambda>c. c\<lparr>tc_Result := Some result\<rparr>) in
       Inr (map f (filter (\<lambda>c. tc_ID c = i) (db_tiebreaker_configs s)),
            s\<lparr>db_tiebreaker_configs := update_where (\<lambda>c. tc_ID c = i) f (db_tiebreaker_configs s)\<rparr>))"

definition SetResult :: "int \<Rightarrow> unit dbprog" where
  "SetResult result = tx_bind (tx_exec (config_set_result 1 result)) (affected (NotFound ''tiebreaker config not found - set the question first''))"

definition SetResultByID :: "int \<Rightarrow> int \<Rightarrow> unit dbprog" where
  "SetResultByID configID result = tx_bind (tx_exec (config_set_result configID result)) (affected (NotFound ''tiebreaker config not found''))"

definition answers :: "int \<Rightarrow> int \<Rightarrow> Tiebreaker \<Rightarrow> bool" where
  "answers userID configID tb \<longleftrightarrow> tb_UserID tb = userID \<and> tb_TiebreakerConfigID tb = configID"

text \<open>\<^verbatim>\<open>INSERT INTO tiebreakers ... ON CONFLICT (user_id, tiebreaker_config_id) DO UPDATE SET prediction\<close>.\<close>
definition tiebreaker_upsert :: "Tiebreaker \<Rightarrow> db \<Rightarrow> go_error + Tiebreaker \<times> db" where
  "tiebreaker_upsert tb s = (let p = answers (tb_UserID tb) (tb_TiebreakerConfigID tb) in
     if \<not> in_int32 (tb_Prediction tb) then Inl (PgError ''22003'')
     else if list_ex p (db_tiebreakers s) then
       Inr (tb, s\<lparr>db_tiebreakers := update_where p (\<lambda>r. r\<lparr>tb_Prediction := tb_Prediction tb\<rparr>) (db_tiebreakers s)\<rparr>)
     else if \<not> user_exists s (Some (tb_UserID tb)) \<or> get_config s (tb_TiebreakerConfigID tb) = None then Inl (PgError ''23503'')
     else Inr (tb, s\<lparr>db_tiebreakers := db_tiebreakers s @ [tb]\<rparr>))"

definition TiebreakerUpsert :: "Tiebreaker \<Rightarrow> Tiebreaker dbprog" where
  "TiebreakerUpsert tb = (let configID = (if tb_TiebreakerConfigID tb = 0 then 1 else tb_TiebreakerConfigID tb) in
     tx_exec (tiebreaker_upsert (tb\<lparr>tb_TiebreakerConfigID := configID\<rparr>)))"

definition GetByUser :: "int \<Rightarrow> int \<Rightarrow> Tiebreaker option dbprog" where
  "GetByUser userID configID = tx_query (\<lambda>s. find (answers userID configID) (db_tiebreakers s))"

section \<open>Service\<close>

definition errMsgEmptyTiebreakerQuestion :: string where
  "errMsgEmptyTiebreakerQuestion = ''tiebreaker question cannot be empty''"

definition resolveConfigForGroup :: "int \<Rightarrow> TiebreakerConfig option dbprog" where
  "resolveConfigForGroup quinielaID = tx_bind (GetByQuiniela quinielaID) (\<lambda>cfg. case cfg of
     None \<Rightarrow> ConfigGet | Some c \<Rightarrow> tx_ret (Some c))"

definition SetQuestion :: "string \<Rightarrow> TiebreakerConfig dbprog" where
  "SetQuestion question = (if question = [] then tx_err (Validation errMsgEmptyTiebreakerQuestion) else ConfigUpsert question)"

definition SetQuestionForPhase :: "MatchPhase \<Rightarrow> string \<Rightarrow> TiebreakerConfig dbprog" where
  "SetQuestionForPhase phase question = (if question = [] then tx_err (Validation errMsgEmptyTiebreakerQuestion)
     else tx_bind (tx_lift (ValidateMatchPhase phase)) (\<lambda>_. UpsertForPhase phase question))"

definition SetQuestionForQuiniela :: "int \<Rightarrow> string \<Rightarrow> TiebreakerConfig dbprog" where
  "SetQuestionForQuiniela quinielaID question = (if question = [] then tx_err (Validation errMsgEmptyTiebreakerQuestion)
     else UpsertForQuiniela quinielaID question)"

definition AnswerQuestion :: "int \<Rightarrow> int \<Rightarrow> int \<Rightarrow> Tiebreaker dbprog" where
  "AnswerQuestion quinielaID callerID prediction = tx_bind (resolveConfigForGroup quinielaID) (\<lambda>cfg. case cfg of
     None \<Rightarrow> tx_err (Validation ''no tiebreaker question has been configured yet'')
   | Some c \<Rightarrow>
       if tc_Result c \<noteq> None then tx_err (Conflict ''tiebreaker result has already been confirmed - predictions are closed'')
       else tx_bind (RequireActiveMember quinielaID callerID) (\<lambda>_.
         TiebreakerUpsert \<lparr>tb_UserID = callerID, tb_TiebreakerConfigID = tc_ID c, tb_Prediction = prediction\<rparr>))"

record TiebreakerView =
  tv_Question :: "string option"
  tv_Entry :: "Tiebreaker option"

definition GetMine :: "int \<Rightarrow> int \<Rightarrow> TiebreakerView dbprog" where
  "GetMine quinielaID callerID = tx_bind (RequireActiveMember quinielaID callerID) (\<lambda>_.
     tx_bind (resolveConfigForGroup quinielaID) (\<lambda>cfg. case cfg of
       None \<Rightarrow> tx_ret \<lparr>tv_Question = None, tv_Entry = None\<rparr>
     | Some c \<Rightarrow> tx_bind (GetByUser callerID (tc_ID c)) (\<lambda>tb. tx_ret \<lparr>tv_Question = Some (tc_Question c), tv_Entry = tb\<rparr>)))"

definition ConfirmResult :: "int \<Rightarrow> unit dbprog" where
  "ConfirmResult result = tx_bind ConfigGet (\<lambda>cfg. case cfg of
     None \<Rightarrow> tx_err (Validation ''tiebreaker question has not been configured - cannot confirm result'')
   | Some _ \<Rightarrow> SetResult result)"

definition ConfirmResultByID :: "int \<Rightarrow> int \<Rightarrow> unit dbprog" where
  "ConfirmResultByID configID result = SetResultByID configID result"

section \<open>A confirmed question is closed\<close>

text \<open>Keys and scopes are unique, every answer belongs to a question, and nobody answers a question twice.\<close>
definition questions_wf :: "db \<Rightarrow> bool" where
  "questions_wf s \<longleftrightarrow> distinct (map tc_ID (db_tiebreaker_configs s)) \<and> distinct (map (\<lambda>c. (tc_Phase c, tc_QuinielaID c)) (db_tiebreaker_configs s)) \<and>
     (\<forall>c\<in>set (db_tiebreaker_configs s). 0 < tc_ID c) \<and> 0 < db_config_seq s \<and>
     distinct (map (\<lambda>t. (tb_UserID t, tb_TiebreakerConfigID t)) (db_tiebreakers s)) \<and>
     (\<forall>t\<in>set (db_tiebreakers s). tb_TiebreakerConfigID t \<in> tc_ID ` set (db_tiebreaker_configs s))"

definition answers_to :: "int \<Rightarrow> db \<Rightarrow> Tiebreaker list" where
  "answers_to i s = filter (\<lambda>t. tb_TiebreakerConfigID t = i) (db_tiebreakers s)"

definition is_closed :: "int \<Rightarrow> db \<Rightarrow> bool" where
  "is_closed i s \<longleftrightarrow> (\<exists>c\<in>set (db_tiebreaker_configs s). tc_ID c = i \<and> tc_Result c \<noteq> None)"

text \<open>Since \<open>s0\<close> no question disappeared or was reopened, and the answers to a closed one did not change.\<close>
definition questions_inv :: "db \<Rightarrow> db \<Rightarrow> bool" where
  "questions_inv s0 s \<longleftrightarrow> questions_wf s \<and> tc_ID ` set (db_tiebreaker_configs s0) \<subseteq> tc_ID ` set (db_tiebreaker_configs s) \<and>
     (\<forall>i. is_closed i s0 \<longrightarrow> is_closed i s \<and> answers_to i s = answers_to i s0)"

lemma questions_inv_refl: "questions_wf s \<Longrightarrow> questions_inv s s"
  by (simp add: questions_inv_def)

lemma get_config_unique:
  "questions_wf s \<Longrightarrow> c \<in> set (db_tiebreaker_configs s) \<Longrightarrow> get_config s (tc_ID c) = Some c"
  unfolding get_config_def questions_wf_def by (auto intro: find_unique_row)

lemma closed_update:
  assumes "\<And>c. tc_ID (f c) = tc_ID c" "\<And>c. tc_Result c \<noteq> None \<Longrightarrow> tc_Result (f c) \<noteq> None" "is_closed i s"
  shows "is_closed i (s\<lparr>db_tiebreaker_configs := update_where p f (db_tiebreaker_configs s)\<rparr>)"
proof -
  obtain c where "c \<in> set (db_tiebreaker_configs s)" "tc_ID c = i" "tc_Result c \<noteq> None" using assms(3) by (auto simp: is_closed_def)
  then show ?thesis using assms(1,2) [of c] by (cases "p c") (auto simp: is_closed_def set_update_where)
qed

lemma questions_inv_update:
  assumes "questions_inv s0 s" "\<And>c. tc_ID (f c) = tc_ID c" "\<And>c. (tc_Phase (f c), tc_QuinielaID (f c)) = (tc_Phase c, tc_QuinielaID c)"
    "\<And>c. tc_Result c \<noteq> None \<Longrightarrow> tc_Result (f c) \<noteq> None"
  shows "questions_inv s0 (s\<lparr>db_tiebreaker_configs := update_where p f (db_tiebreaker_configs s)\<rparr>)"
proof -
  let ?rows = "update_where p f (db_tiebreaker_configs s)"
  have ids: "map tc_ID ?rows = map tc_ID (db_tiebreaker_configs s)" using assms(2) by (rule map_update_where)
  then have img: "tc_ID ` set ?rows = tc_ID ` set (db_tiebreaker_configs s)" by (metis set_map)
  have scopes: "map (\<lambda>c. (tc_Phase c, tc_QuinielaID c)) ?rows = map (\<lambda>c. (tc_Phase c, tc_QuinielaID c)) (db_tiebreaker_configs s)"
    using assms(3) by (rule map_update_where)
  have pos: "(\<forall>c\<in>set ?rows. 0 < tc_ID c) = (\<forall>i\<in>tc_ID ` set ?rows. 0 < i)" by simp
  show ?thesis using assms(1) closed_update [OF assms(2,4)] unfolding questions_inv_def questions_wf_def
    by (simp add: ids scopes img pos answers_to_def)
qed

lemma config_upsert_inv:
  assumes "questions_inv s0 s" "config_upsert arb c s = Inr (a, s')" "0 < tc_ID c"
  shows "questions_inv s0 s'"
proof (cases "find arb (db_tiebreaker_configs s)")
  case None
  then have new: "s' = s\<lparr>db_tiebreaker_configs := db_tiebreaker_configs s @ [c]\<rparr>" "\<forall>r\<in>set (db_tiebreaker_configs s). tc_ID r \<noteq> tc_ID c \<and> \<not> same_scope r c"
    using assms(2) by (auto simp: config_upsert_def Let_def list_ex_iff split: if_splits option.splits)
  then show ?thesis using assms(1,3) by (auto simp: questions_inv_def questions_wf_def is_closed_def answers_to_def same_scope_def)
next
  case (Some old)
  then have "s' = s\<lparr>db_tiebreaker_configs := update_where arb (\<lambda>r. r\<lparr>tc_Question := tc_Question c\<rparr>) (db_tiebreaker_configs s)\<rparr>"
    using assms(2) by (simp add: config_upsert_def Let_def)
  then show ?thesis using questions_inv_update [OF assms(1)] by simp
qed

lemma next_config_id_inv: "tx_valid (questions_inv s0) next_config_id (\<lambda>i s. questions_inv s0 s \<and> 0 < i) (\<lambda>_. questions_inv s0)"
  by (simp add: tx_valid_def next_config_id_def questions_inv_def questions_wf_def is_closed_def answers_to_def)

lemma tx_keeps_next_config:
  assumes "\<And>i. 0 < i \<Longrightarrow> tx_keeps (questions_inv s0) (f i)"
  shows "tx_keeps (questions_inv s0) (tx_bind next_config_id f)"
  unfolding tx_keeps_def
proof (rule tx_valid_bind [OF next_config_id_inv])
  show "tx_valid (\<lambda>s. questions_inv s0 s \<and> 0 < i) (f i) (\<lambda>_. questions_inv s0) (\<lambda>_. questions_inv s0)" for i
    using assms [of i] by (cases "0 < i") (auto simp: tx_keeps_def)
qed

lemma questions_keep:
  "tx_keeps (questions_inv s0) (SetQuestion t)" "tx_keeps (questions_inv s0) (SetQuestionForPhase ph t)" "tx_keeps (questions_inv s0) (SetQuestionForQuiniela q t)"
  unfolding SetQuestion_def ConfigUpsert_def SetQuestionForPhase_def UpsertForPhase_def SetQuestionForQuiniela_def UpsertForQuiniela_def
  by (auto intro!: tx_keeps_if tx_keeps_base tx_keeps_bind [OF tx_keeps_base(6)] tx_keeps_next_config tx_keeps_exec elim!: config_upsert_inv simp: new_config_def)

lemma config_set_result_inv: "questions_inv s0 s \<Longrightarrow> config_set_result i r s = Inr (a, s') \<Longrightarrow> questions_inv s0 s'"
  by (auto simp: config_set_result_def Let_def split: if_splits intro: questions_inv_update)

lemma results_keep: "tx_keeps (questions_inv s0) (ConfirmResult r)" "tx_keeps (questions_inv s0) (ConfirmResultByID i r)"
  unfolding ConfirmResult_def ConfigGet_def SetResult_def ConfirmResultByID_def SetResultByID_def
  by (auto intro!: tx_keep elim!: config_set_result_inv)

lemma GetMine_keeps: "tx_keeps I (GetMine q u)"
  unfolding GetMine_def resolveConfigForGroup_def GetByQuiniela_def ConfigGet_def GetByUser_def by (intro tx_keep RequireActiveMember_keeps)

text \<open>An answer is stored under its key and touches nothing else.\<close>
lemma tiebreaker_upsert_cases:
  assumes "tiebreaker_upsert tb s = Inr (a, s')"
  obtains "db_tiebreakers s' = update_where (answers (tb_UserID tb) (tb_TiebreakerConfigID tb)) (\<lambda>r. r\<lparr>tb_Prediction := tb_Prediction tb\<rparr>) (db_tiebreakers s)"
      "list_ex (answers (tb_UserID tb) (tb_TiebreakerConfigID tb)) (db_tiebreakers s)"
      "db_tiebreaker_configs s' = db_tiebreaker_configs s" "db_config_seq s' = db_config_seq s" "in_int32 (tb_Prediction tb)"
  | "db_tiebreakers s' = db_tiebreakers s @ [tb]" "\<not> list_ex (answers (tb_UserID tb) (tb_TiebreakerConfigID tb)) (db_tiebreakers s)"
      "tb_TiebreakerConfigID tb \<in> tc_ID ` set (db_tiebreaker_configs s)"
      "db_tiebreaker_configs s' = db_tiebreaker_configs s" "db_config_seq s' = db_config_seq s" "in_int32 (tb_Prediction tb)"
  using assms by (fastforce simp: tiebreaker_upsert_def Let_def get_config_def find_None_iff split: if_splits intro: rev_image_eqI)

lemma tiebreaker_upsert_wf:
  assumes "tiebreaker_upsert tb s = Inr (a, s')" "questions_wf s"
  shows "questions_wf s'" "tb \<in> set (db_tiebreakers s')" "i \<noteq> tb_TiebreakerConfigID tb \<Longrightarrow> answers_to i s' = answers_to i s"
proof -
  let ?p = "answers (tb_UserID tb) (tb_TiebreakerConfigID tb)" and ?f = "\<lambda>r. r\<lparr>tb_Prediction := tb_Prediction tb\<rparr>"
  have "questions_wf s' \<and> tb \<in> set (db_tiebreakers s') \<and> (i \<noteq> tb_TiebreakerConfigID tb \<longrightarrow> answers_to i s' = answers_to i s)"
    using assms(1)
  proof (cases rule: tiebreaker_upsert_cases)
    case 1
    have keys: "map (\<lambda>t. (tb_UserID t, tb_TiebreakerConfigID t)) (update_where ?p ?f (db_tiebreakers s)) = map (\<lambda>t. (tb_UserID t, tb_TiebreakerConfigID t)) (db_tiebreakers s)"
      by (rule map_update_where) simp
    have "answers_to i s' = answers_to i s" if "i \<noteq> tb_TiebreakerConfigID tb"
    proof -
      have "filter (\<lambda>t. tb_TiebreakerConfigID t = i) (update_where ?p ?f rows) = filter (\<lambda>t. tb_TiebreakerConfigID t = i) rows" for rows
        using that by (induction rows) (auto simp: answers_def)
      then show ?thesis by (simp add: answers_to_def 1)
    qed
    moreover obtain r where "r \<in> set (db_tiebreakers s)" "?p r" using 1(2) by (auto simp: list_ex_iff)
    moreover from this have "tb = ?f r" by (simp add: answers_def)
    ultimately show ?thesis using assms(2) by (auto simp: questions_wf_def 1 keys set_update_where)
  next
    case 2
    then show ?thesis using assms(2) by (auto simp: questions_wf_def answers_to_def list_ex_iff answers_def)
  qed
  then show "questions_wf s'" "tb \<in> set (db_tiebreakers s')" "i \<noteq> tb_TiebreakerConfigID tb \<Longrightarrow> answers_to i s' = answers_to i s" by blast+
qed

lemma tiebreaker_upsert_configs:
  assumes "tiebreaker_upsert tb s = Inr (a, s')"
  shows "db_tiebreaker_configs s' = db_tiebreaker_configs s" "in_int32 (tb_Prediction tb)"
  using assms by (cases rule: tiebreaker_upsert_cases; simp)+

text \<open>An answer to an open question leaves the closed ones alone.\<close>
lemma tiebreaker_upsert_inv:
  assumes "questions_inv s0 s" "tiebreaker_upsert tb s = Inr (a, s')" "\<not> is_closed (tb_TiebreakerConfigID tb) s"
  shows "questions_inv s0 s'"
proof -
  have wf: "questions_wf s" and closed: "is_closed i s0 \<Longrightarrow> is_closed i s \<and> answers_to i s = answers_to i s0" for i
    using assms(1) by (auto simp: questions_inv_def)
  have "is_closed i s' = is_closed i s" for i by (simp add: is_closed_def tiebreaker_upsert_configs [OF assms(2)])
  moreover have "answers_to i s' = answers_to i s0" if "is_closed i s0" for i
    using closed [OF that] tiebreaker_upsert_wf(3) [OF assms(2) wf, of i] assms(3) by auto
  ultimately show ?thesis using assms(1) tiebreaker_upsert_wf(1) [OF assms(2) wf] closed
    by (simp add: questions_inv_def tiebreaker_upsert_configs [OF assms(2)])
qed

lemma resolveConfigForGroup_run:
  assumes "resolveConfigForGroup q fs s = (r, fs', s')"
  shows "s' = s \<and> (\<forall>c. r = Inr (Some c) \<longrightarrow> c \<in> set (db_tiebreaker_configs s))"
proof -
  have "reads_only (resolveConfigForGroup q)"
    unfolding reads_only_def resolveConfigForGroup_def GetByQuiniela_def ConfigGet_def by (intro allI tx_keep)
  then have "s' = s" using assms by (rule reads_only_run)
  moreover have "c \<in> set (db_tiebreaker_configs s)" if "r = Inr (Some c)" for c
    using assms that by (auto simp: resolveConfigForGroup_def GetByQuiniela_def ConfigGet_def get_config_def tx_runs dest!: find_Some_in dest: find_Some_in [OF sym] split: option.splits)
  ultimately show ?thesis by blast
qed

lemma AnswerQuestion_keeps: "tx_keeps (questions_inv s0) (AnswerQuestion q u p)"
  unfolding AnswerQuestion_def tx_keeps_def
proof (rule tx_valid_bind [where R = "\<lambda>cfg s. questions_inv s0 s \<and> (\<forall>c. cfg = Some c \<longrightarrow> c \<in> set (db_tiebreaker_configs s))"])
  show "tx_valid (questions_inv s0) (resolveConfigForGroup q) (\<lambda>cfg s. questions_inv s0 s \<and> (\<forall>c. cfg = Some c \<longrightarrow> c \<in> set (db_tiebreaker_configs s))) (\<lambda>_. questions_inv s0)"
    by (rule tx_validI) (auto dest: resolveConfigForGroup_run)
  fix cfg
  let ?I = "\<lambda>c s. questions_inv s0 s \<and> c \<in> set (db_tiebreaker_configs s)"
  have up: "tx_valid (?I c) (TiebreakerUpsert \<lparr>tb_UserID = u, tb_TiebreakerConfigID = tc_ID c, tb_Prediction = p\<rparr>) (\<lambda>_. questions_inv s0) (\<lambda>_. questions_inv s0)"
    if "tc_Result c = None" for c
    unfolding TiebreakerUpsert_def Let_def
  proof (rule tx_valid_exec)
    fix s a s' assume I: "?I c s" and run: "tiebreaker_upsert (\<lparr>tb_UserID = u, tb_TiebreakerConfigID = tc_ID c, tb_Prediction = p\<rparr>
        \<lparr>tb_TiebreakerConfigID := if tb_TiebreakerConfigID \<lparr>tb_UserID = u, tb_TiebreakerConfigID = tc_ID c, tb_Prediction = p\<rparr> = 0 then 1
           else tb_TiebreakerConfigID \<lparr>tb_UserID = u, tb_TiebreakerConfigID = tc_ID c, tb_Prediction = p\<rparr>\<rparr>) s = Inr (a, s')"
    have wf: "questions_wf s" using I by (simp add: questions_inv_def)
    then have "0 < tc_ID c" using I by (simp add: questions_wf_def)
    moreover have "\<not> is_closed (tc_ID c) s" using get_config_unique [OF wf] I that unfolding is_closed_def by (metis option.inject)
    ultimately show "questions_inv s0 s'" using tiebreaker_upsert_inv [OF _ run] I by simp
  qed simp
  have "tx_valid (?I c) (tx_bind (RequireActiveMember q u) (\<lambda>_. TiebreakerUpsert \<lparr>tb_UserID = u, tb_TiebreakerConfigID = tc_ID c, tb_Prediction = p\<rparr>)) (\<lambda>_. questions_inv s0) (\<lambda>_. questions_inv s0)"
    if "tc_Result c = None" for c
    by (rule tx_valid_keep_bind [OF RequireActiveMember_keeps]) (use up [OF that] in auto)
  then show "tx_valid (\<lambda>s. questions_inv s0 s \<and> (\<forall>c. cfg = Some c \<longrightarrow> c \<in> set (db_tiebreaker_configs s)))
     (case cfg of None \<Rightarrow> tx_err (Validation ''no tiebreaker question has been configured yet'')
      | Some c \<Rightarrow> if tc_Result c \<noteq> None then tx_err (Conflict ''tiebreaker result has already been confirmed - predictions are closed'')
         else tx_bind (RequireActiveMember q u) (\<lambda>_. TiebreakerUpsert \<lparr>tb_UserID = u, tb_TiebreakerConfigID = tc_ID c, tb_Prediction = p\<rparr>))
     (\<lambda>_. questions_inv s0) (\<lambda>_. questions_inv s0)"
    by (cases cfg) (auto intro!: tx_valid_err)
qed


datatype tiebreak_op =
    OpQuestion string
  | OpPhaseQuestion MatchPhase string
  | OpGroupQuestion int string
  | OpAnswer int int int
  | OpMine int int
  | OpConfirm int
  | OpConfirmByID int int

fun run_tiebreak_op :: "tiebreak_op \<Rightarrow> unit dbprog" where
  "run_tiebreak_op (OpQuestion t) = tx_void (SetQuestion t)"
| "run_tiebreak_op (OpPhaseQuestion ph t) = tx_void (SetQuestionForPhase ph t)"
| "run_tiebreak_op (OpGroupQuestion q t) = tx_void (SetQuestionForQuiniela q t)"
| "run_tiebreak_op (OpAnswer q u p) = tx_void (AnswerQuestion q u p)"
| "run_tiebreak_op (OpMine q u) = tx_void (GetMine q u)"
| "run_tiebreak_op (OpConfirm r) = ConfirmResult r"
| "run_tiebreak_op (OpConfirmByID i r) = ConfirmResultByID i r"

lemma run_tiebreak_op_keeps: "tx_keeps (questions_inv s0) (run_tiebreak_op oper)"
  by (cases oper) (simp_all add: tx_keeps_void questions_keep AnswerQuestion_keeps GetMine_keeps results_keep)

lemma run_all_questions:
  "questions_wf s \<Longrightarrow> questions_inv s (run_all (map (\<lambda>(oper, fs). (run_tiebreak_op oper, fs)) ops) s)"
  by (rule run_all_invariant [where I = "questions_inv s"]) (use run_tiebreak_op_keeps questions_inv_refl in auto)

text \<open>
  C23: a confirmed tie-break is closed. Whatever sequence of questions, answers, lookups and confirmations runs, with whatever
  failures, a question whose result was confirmed stays confirmed and the answers to it stay exactly as they
  were; no question disappears; every scope has at most one question; and nobody has two answers to a question.
\<close>
theorem confirmed_tiebreak_is_closed:
  assumes "questions_wf s" "s' = run_all (map (\<lambda>(oper, fs). (run_tiebreak_op oper, fs)) ops) s"
  shows "questions_wf s' \<and> tc_ID ` set (db_tiebreaker_configs s) \<subseteq> tc_ID ` set (db_tiebreaker_configs s') \<and>
    (\<forall>i. is_closed i s \<longrightarrow> is_closed i s' \<and> answers_to i s' = answers_to i s)"
  using run_all_questions [OF assms(1), of ops] by (simp add: questions_inv_def flip: assms(2))

section \<open>Answers decide ties\<close>

lemma resolve_global:
  assumes "resolveConfigForGroup q fs s = (Inr cfg, fs', s')" "find (\<lambda>c. tc_QuinielaID c = Some q \<and> tc_Phase c = None) (db_tiebreaker_configs s) = None"
  shows "cfg = get_config s 1"
  using assms by (auto simp: resolveConfigForGroup_def GetByQuiniela_def ConfigGet_def tx_runs)

lemma AnswerQuestion_run:
  assumes "AnswerQuestion q u p fs s = (Inr tb, fs', s')" "find (\<lambda>c. tc_QuinielaID c = Some q \<and> tc_Phase c = None) (db_tiebreaker_configs s) = None"
  shows "tiebreaker_upsert \<lparr>tb_UserID = u, tb_TiebreakerConfigID = 1, tb_Prediction = p\<rparr> s = Inr (tb, s')"
proof -
  obtain cfg fs1 s1 where r: "resolveConfigForGroup q fs s = (Inr cfg, fs1, s1)"
    and run: "(case cfg of None \<Rightarrow> tx_err (Validation ''no tiebreaker question has been configured yet'')
      | Some c \<Rightarrow> if tc_Result c \<noteq> None then tx_err (Conflict ''tiebreaker result has already been confirmed - predictions are closed'')
         else tx_bind (RequireActiveMember q u) (\<lambda>_. TiebreakerUpsert \<lparr>tb_UserID = u, tb_TiebreakerConfigID = tc_ID c, tb_Prediction = p\<rparr>)) fs1 s1 = (Inr tb, fs', s')"
    using assms(1) unfolding AnswerQuestion_def tx_bind_run [of "resolveConfigForGroup q"] by blast
  obtain c where c: "cfg = Some c" using run by (cases cfg) (auto simp: tx_runs)
  then have "get_config s 1 = Some c" using resolve_global [OF r assms(2)] by simp
  then have "tc_ID c = 1" by (auto simp: get_config_def dest: find_Some_in)
  moreover obtain fs2 s2 where m: "RequireActiveMember q u fs1 s1 = (Inr (), fs2, s2)"
    "TiebreakerUpsert \<lparr>tb_UserID = u, tb_TiebreakerConfigID = tc_ID c, tb_Prediction = p\<rparr> fs2 s2 = (Inr tb, fs', s')"
    using run c by (auto simp: tx_runs split: if_splits)
  moreover have "s2 = s" using tx_keepsD [OF RequireActiveMember_keeps [where I = "\<lambda>x. x = s1"] refl m(1)] resolveConfigForGroup_run [OF r] by simp
  ultimately show ?thesis by (auto simp: TiebreakerUpsert_def tx_runs)
qed

lemma distances_of_answer:
  assumes "questions_wf s" "Option.bind (get_config s 1) tc_Result = Some r" "tb \<in> set (db_tiebreakers s)" "tb_TiebreakerConfigID tb = 1" "tb_UserID tb = u"
  shows "distances_of s {u} u = Some (distance_to (tb_Prediction tb) r)"
proof -
  have key: "distinct (map (\<lambda>t. (tb_UserID t, tb_TiebreakerConfigID t)) rows) \<Longrightarrow> tb \<in> set rows \<Longrightarrow>
      filter (\<lambda>t. tb_UserID t \<in> {u} \<and> tb_TiebreakerConfigID t = 1) rows = [tb]" for rows
    using assms(4,5) by (induction rows) (auto simp: filter_empty_conv image_iff)
  have "filter (\<lambda>t. tb_UserID t \<in> {u} \<and> tb_TiebreakerConfigID t = 1) (db_tiebreakers s) = [tb]"
    using key assms(1,3) by (simp add: questions_wf_def)
  then show ?thesis using assms(2,5) by (simp add: distances_of_def Let_def)
qed

text \<open>
  An answer decides ties. When a member of a group without a question of its own has answered and the general result is then
  confirmed, both without an error, the ranking orders that member by the distance of the answer to the result, computed without overflow.
\<close>
theorem answered_tiebreak_is_ranked:
  assumes "questions_wf s" "find (\<lambda>c. tc_QuinielaID c = Some q \<and> tc_Phase c = None) (db_tiebreaker_configs s) = None"
    "AnswerQuestion q u p fs s = (Inr tb, fs1, s1)" "ConfirmResult r fs2 s1 = (Inr (), fs3, s2)" "fetchTiebreakerDistances [u] fs4 s2 = (Inr ds, fs5, s3)"
  shows "ds u = Some \<bar>p - r\<bar>"
proof -
  let ?tb = "\<lparr>tb_UserID = u, tb_TiebreakerConfigID = 1, tb_Prediction = p\<rparr>"
  have up: "tiebreaker_upsert ?tb s = Inr (tb, s1)" by (rule AnswerQuestion_run [OF assms(3,2)])
  note s1 = tiebreaker_upsert_wf(1,2) [OF up assms(1)]
  have s2: "in_int32 r" "s2 = s1\<lparr>db_tiebreaker_configs := update_where (\<lambda>c. tc_ID c = 1) (\<lambda>c. c\<lparr>tc_Result := Some r\<rparr>) (db_tiebreaker_configs s1)\<rparr>" "get_config s1 1 \<noteq> None"
    using assms(4) by (auto simp: ConfirmResult_def ConfigGet_def SetResult_def config_set_result_def Let_def tx_runs split: option.splits if_splits)
  have upd: "find (\<lambda>c. tc_ID c = 1) (update_where (\<lambda>c. tc_ID c = 1) (\<lambda>c. c\<lparr>tc_Result := Some r\<rparr>) rows) =
      map_option (\<lambda>c. c\<lparr>tc_Result := Some r\<rparr>) (find (\<lambda>c. tc_ID c = 1) rows)" for rows by (induction rows) auto
  have cfg: "Option.bind (get_config s2 1) tc_Result = Some r" using s2(3) by (auto simp: get_config_def s2(2) upd simp del: not_None_eq)
  have wf: "questions_wf s2" using questions_inv_update [OF questions_inv_refl [OF s1(1)]] unfolding s2(2) by (simp add: questions_inv_def)
  have "ds = distances_of s2 {u}" using fetchTiebreakerDistances_run [OF assms(5)] by simp
  then have "ds u = Some (distance_to p r)" using distances_of_answer [OF wf cfg, of ?tb u] s1(2) s2(2) by simp
  moreover have "in_int64 (p - r)" "in_int64 (- (p - r))"
    using tiebreaker_upsert_configs(2) [OF up] s2(1) by (simp_all add: in_int32_def in_int64_def MaxInt_def)
  then have "distance_to p r = \<bar>p - r\<bar>" unfolding distance_to_def Let_def by (simp only: go64_id) auto
  ultimately show ?thesis by simp
qed


section \<open>Concrete runs\<close>

definition example_tie_db :: db where
  "example_tie_db = example_owner_db\<lparr>db_tiebreaker_configs := [new_config 1 ''goals'' None None], db_config_seq := 2\<rparr>"

lemma example_tie_wf: "questions_wf example_tie_db"
  by (simp add: questions_wf_def example_tie_db_def new_config_def example_owner_db_def example_group_db_def empty_db_def)

theorem confirmed_tiebreak_is_closed_witness:
  "let s = run_all (map (\<lambda>(oper, fs). (run_tiebreak_op oper, fs)) [(OpAnswer 1 2 30, []), (OpConfirm 28, [])]) example_tie_db;
       s' = run_all (map (\<lambda>(oper, fs). (run_tiebreak_op oper, fs)) [(OpAnswer 1 2 28, []), (OpConfirm 27, []), (OpQuestion ''corners'', []), (OpAnswer 1 3 28, [])]) s in
     answers_to 1 s' = answers_to 1 s \<and> map tb_Prediction (answers_to 1 s') = [30] \<and> is_closed 1 s'"
proof -
  let ?ops = "[(OpAnswer 1 2 28, []), (OpConfirm 27, []), (OpQuestion ''corners'', []), (OpAnswer 1 3 28, [])]"
  obtain s where s: "s = run_all (map (\<lambda>(oper, fs). (run_tiebreak_op oper, fs)) [(OpAnswer 1 2 30, []), (OpConfirm 28, [])]) example_tie_db" by simp
  obtain s' where s': "s' = run_all (map (\<lambda>(oper, fs). (run_tiebreak_op oper, fs)) ?ops) s" by simp
  have "questions_inv example_tie_db s" unfolding s by (rule run_all_questions [OF example_tie_wf])
  then have wf: "questions_wf s" by (simp add: questions_inv_def)
  have "is_closed 1 s \<and> map tb_Prediction (answers_to 1 s) = [30]" unfolding s by code_simp
  then have "answers_to 1 s' = answers_to 1 s \<and> map tb_Prediction (answers_to 1 s') = [30] \<and> is_closed 1 s'"
    using confirmed_tiebreak_is_closed [OF wf s'] by simp
  then show ?thesis unfolding Let_def s' s .
qed

theorem answered_tiebreak_is_ranked_witness:
  "\<exists>ds. fst (fetchTiebreakerDistances [2] [] (snd (snd (ConfirmResult 28 [] (snd (snd (AnswerQuestion 1 2 30 [] example_tie_db))))))) = Inr ds \<and> ds 2 = Some 2"
proof -
  obtain s1 where s1: "s1 = snd (snd (AnswerQuestion 1 2 30 [] example_tie_db))" by simp
  obtain s2 where s2: "s2 = snd (snd (ConfirmResult 28 [] s1))" by simp
  have "is_ok (fst (AnswerQuestion 1 2 30 [] example_tie_db))" by code_simp
  then obtain tb fs1 where a: "AnswerQuestion 1 2 30 [] example_tie_db = (Inr tb, fs1, s1)" unfolding s1 by (blast dest: is_ok_run)
  have "is_ok (fst (ConfirmResult 28 [] s1))" unfolding s1 by code_simp
  then obtain fs3 where c: "ConfirmResult 28 [] s1 = (Inr (), fs3, s2)" unfolding s2 by (metis is_ok_run unit.exhaust)
  have "is_ok (fst (fetchTiebreakerDistances [2] [] s2))" unfolding s2 s1 by code_simp
  then obtain ds fs5 s3 where d: "fetchTiebreakerDistances [2] [] s2 = (Inr ds, fs5, s3)" by (blast dest: is_ok_run)
  have "find (\<lambda>c. tc_QuinielaID c = Some 1 \<and> tc_Phase c = None) (db_tiebreaker_configs example_tie_db) = None"
    by (simp add: example_tie_db_def new_config_def)
  then have "ds 2 = Some \<bar>30 - 28\<bar>" using answered_tiebreak_is_ranked [OF example_tie_wf _ a c d] by simp
  then show ?thesis using d by (simp flip: s1 s2)
qed

text \<open>
  The sequence of the keys starts at 1, the fixed key of the general question. With the general question in place the
  first question for a phase fails; without it, the question of a phase takes its key and is read as the general one.
\<close>
lemma first_phase_question_fails:
  "fst (SetQuestionForPhase PhaseFinal ''goals'' [] (snd (snd (SetQuestion ''goals'' [] example_owner_db)))) = Inl (Internal (PgError ''23505''))"
  by code_simp

lemma phase_question_becomes_general:
  "map_option tc_Phase (get_config (snd (snd (SetQuestionForPhase PhaseFinal ''goals'' [] example_owner_db))) 1) = Some (Some PhaseFinal)"
  by code_simp

text \<open>The ranking only reads the general question: answers to the question of a group never order anybody.\<close>
lemma group_question_is_not_ranked:
  assumes "tiebreaker_upsert tb s = Inr (a, s')" "tb_TiebreakerConfigID tb \<noteq> 1" "questions_wf s"
  shows "distances_of s' ids = distances_of s ids"
proof -
  have f: "filter (\<lambda>t. tb_UserID t \<in> ids \<and> tb_TiebreakerConfigID t = 1) rows = filter (\<lambda>t. tb_UserID t \<in> ids) (filter (\<lambda>t. tb_TiebreakerConfigID t = 1) rows)" for rows
    by (simp add: conj_commute)
  have "filter (\<lambda>t. tb_TiebreakerConfigID t = 1) (db_tiebreakers s') = filter (\<lambda>t. tb_TiebreakerConfigID t = 1) (db_tiebreakers s)"
    using tiebreaker_upsert_wf(3) [OF assms(1,3), of 1] assms(2) by (simp add: answers_to_def)
  then show ?thesis unfolding distances_of_def f get_config_def tiebreaker_upsert_configs(1) [OF assms(1)] by (simp only:)
qed

end
