(* ===== verification/Quinielas.thy ===== *)
theory Quinielas
  imports Fees Matching
begin

text \<open>
  Groups (\<^verbatim>\<open>service/quiniela_service.go\<close>, the group part of \<^verbatim>\<open>service/admin_group_service.go\<close>, \<^verbatim>\<open>repository/quiniela_repository.go\<close>
  and \<^verbatim>\<open>pkg/randcode\<close>): creation with an invite code, renaming, the paid modes, settings and deletion. The letter folding
  \<^verbatim>\<open>lower\<close> of the database and the source of random bytes are parameters; the audit log is left out.
\<close>

section \<open>Invite codes\<close>

definition defaultAlphabet :: string where
  "defaultAlphabet = ''ABCDEFGHJKLMNPQRSTUVWXYZ23456789''"

text \<open>\<open>rand n\<close> are \<open>n\<close> bytes of the source, \<open>None\<close> a failed read.\<close>
definition Generate :: "(nat \<Rightarrow> nat list option) \<Rightarrow> string \<Rightarrow> int \<Rightarrow> string option" where
  "Generate rand alphabet0 len = (let alphabet = (if alphabet0 = [] then defaultAlphabet else alphabet0) in
     map_option (map (\<lambda>v. alphabet ! (v mod length alphabet))) (rand (nat len)))"

section \<open>Repository\<close>

definition errMsgDuplicateGroupName :: string where
  "errMsgDuplicateGroupName = ''a group with this name already exists''"

definition msgQuinielaNotFound :: string where
  "msgQuinielaNotFound = ''quiniela not found''"

definition is_live_group :: "Quiniela \<Rightarrow> bool" where
  "is_live_group q \<longleftrightarrow> q_DeletedAt q = None"

definition name_taken :: "(string \<Rightarrow> string) \<Rightarrow> string \<Rightarrow> (Quiniela \<Rightarrow> bool) \<Rightarrow> db \<Rightarrow> bool" where
  "name_taken lower name other s = list_ex (\<lambda>q. other q \<and> is_live_group q \<and> lower (q_Name q) = lower name) (db_quinielas s)"

text \<open>\<^verbatim>\<open>INSERT INTO quinielas\<close> with the defaults of the columns and the unique indexes on the name and the invite code.\<close>
definition quiniela_insert :: "(string \<Rightarrow> string) \<Rightarrow> Quiniela \<Rightarrow> db \<Rightarrow> go_error + Quiniela \<times> db" where
  "quiniela_insert lower q s = (let q' = q\<lparr>q_ID := db_seq s, q_Status := QuinielaStatusInactive, q_IsPremium := False, q_ModeGeneral := False,
       q_ModeRound := False, q_RequireApproval := True, q_ScoreFromZero := False, q_ScoreFromZeroSince := None, q_DeletedAt := None, q_PrizesDistributedAt := None\<rparr> in
     if length (q_InviteCode q) > 12 \<or> length (q_Currency q) > 3 then Inl (PgError ''22001'')
     else if \<not> in_int32 (q_EntryFee q) then Inl (PgError ''22003'')
     else if name_taken lower (q_Name q) (\<lambda>_. True) s \<or> list_ex (\<lambda>r. q_InviteCode r = q_InviteCode q) (db_quinielas s) then Inl (PgError ''23505'')
     else if \<not> user_exists s (Some (q_OwnerID q)) then Inl (PgError ''23503'')
     else Inr (q', s\<lparr>db_seq := db_seq s + 1, db_quinielas := db_quinielas s @ [q']\<rparr>))"

definition CreateWithMembership :: "(string \<Rightarrow> string) \<Rightarrow> Quiniela \<Rightarrow> GroupMembership \<Rightarrow> (Quiniela \<times> GroupMembership) dbprog" where
  "CreateWithMembership lower q m = withTx (
     tx_bind (tx_stmt (unique_conflict errMsgDuplicateGroupName) (quiniela_insert lower q)) (\<lambda>q'.
     tx_bind (tx_exec (member_insert (m\<lparr>gm_QuinielaID := q_ID q'\<rparr>))) (\<lambda>m'.
     tx_ret (q', m'))))"

definition ExistsByName :: "(string \<Rightarrow> string) \<Rightarrow> string \<Rightarrow> int \<Rightarrow> bool dbprog" where
  "ExistsByName lower name excludeID = tx_query (name_taken lower name (\<lambda>q. excludeID = 0 \<or> q_ID q \<noteq> excludeID))"

definition GetByInviteCode :: "string \<Rightarrow> Quiniela option dbprog" where
  "GetByInviteCode code = tx_query (\<lambda>s. find (\<lambda>q. q_InviteCode q = code \<and> is_live_group q \<and>
     (case q_InviteCodeExpiresAt q of None \<Rightarrow> True | Some t \<Rightarrow> t > db_now s)) (db_quinielas s))"

text \<open>\<^verbatim>\<open>UPDATE quinielas SET name\<close>: the only update that also reaches deleted groups.\<close>
definition quiniela_rename :: "(string \<Rightarrow> string) \<Rightarrow> int \<Rightarrow> string \<Rightarrow> db \<Rightarrow> go_error + Quiniela list \<times> db" where
  "quiniela_rename lower i name s =
    (if list_ex (\<lambda>q. q_ID q = i \<and> is_live_group q) (db_quinielas s) \<and> name_taken lower name (\<lambda>q. q_ID q \<noteq> i) s then Inl (PgError ''23505'')
     else quiniela_update (\<lambda>q. q_ID q = i) (\<lambda>q. q\<lparr>q_Name := name\<rparr>) s)"

definition QuinielaUpdate :: "(string \<Rightarrow> string) \<Rightarrow> Quiniela \<Rightarrow> Quiniela dbprog" where
  "QuinielaUpdate lower q = tx_bind (tx_stmt (unique_conflict errMsgDuplicateGroupName) (quiniela_rename lower (q_ID q) (q_Name q)))
     (row_or (NotFound msgQuinielaNotFound))"

text \<open>\<^verbatim>\<open>UPDATE quinielas SET ... WHERE id = $1 AND deleted_at IS NULL RETURNING\<close>; \<open>fits\<close> tells whether the values fit their columns.\<close>
definition live_update :: "bool \<Rightarrow> int \<Rightarrow> (db \<Rightarrow> Quiniela \<Rightarrow> Quiniela) \<Rightarrow> Quiniela dbprog" where
  "live_update fits i f = tx_bind (tx_exec (\<lambda>s. if \<not> fits then Inl (PgError ''22003'') else quiniela_update (\<lambda>q. q_ID q = i \<and> is_live_group q) (f s) s))
     (row_or (NotFound msgQuinielaNotFound))"

definition RotateInviteCode :: "int \<Rightarrow> string \<Rightarrow> time option \<Rightarrow> Quiniela dbprog" where
  "RotateInviteCode i newCode expiresAt = tx_bind (tx_exec (\<lambda>s.
       if length newCode > 12 then Inl (PgError ''22001'')
       else if list_ex (\<lambda>q. q_ID q = i \<and> is_live_group q) (db_quinielas s) \<and> list_ex (\<lambda>q. q_ID q \<noteq> i \<and> q_InviteCode q = newCode) (db_quinielas s) then Inl (PgError ''23505'')
       else quiniela_update (\<lambda>q. q_ID q = i \<and> is_live_group q) (\<lambda>q. q\<lparr>q_InviteCode := newCode, q_InviteCodeExpiresAt := expiresAt\<rparr>) s))
     (row_or (NotFound msgQuinielaNotFound))"

definition QuinielaDelete :: "int \<Rightarrow> unit dbprog" where
  "QuinielaDelete i = tx_void (live_update True i (\<lambda>s q. q\<lparr>q_DeletedAt := Some (db_now s)\<rparr>))"

definition QuinielaUpdateStatus :: "int \<Rightarrow> QuinielaStatus \<Rightarrow> unit dbprog" where
  "QuinielaUpdateStatus i status = tx_void (live_update True i (\<lambda>_ q. q\<lparr>q_Status := status\<rparr>))"

definition repo_UpdateGroupSettings :: "int \<Rightarrow> int \<Rightarrow> Quiniela dbprog" where
  "repo_UpdateGroupSettings quinielaID entryFee = live_update (in_int32 entryFee) quinielaID (\<lambda>_ q. q\<lparr>q_EntryFee := entryFee\<rparr>)"

definition UpdateTournamentMode :: "int \<Rightarrow> bool \<Rightarrow> bool \<Rightarrow> bool \<Rightarrow> int \<Rightarrow> Quiniela dbprog" where
  "UpdateTournamentMode quinielaID isPremium modeGeneral modeRound entryFee = live_update (in_int32 entryFee) quinielaID
     (\<lambda>_ q. q\<lparr>q_IsPremium := isPremium, q_ModeGeneral := modeGeneral, q_ModeRound := modeRound, q_EntryFee := entryFee\<rparr>)"

definition repo_UpdateRequireApproval :: "int \<Rightarrow> bool \<Rightarrow> Quiniela dbprog" where
  "repo_UpdateRequireApproval quinielaID requireApproval = live_update True quinielaID (\<lambda>_ q. q\<lparr>q_RequireApproval := requireApproval\<rparr>)"

definition repo_UpdateScoreFromZero :: "int \<Rightarrow> bool \<Rightarrow> Quiniela dbprog" where
  "repo_UpdateScoreFromZero quinielaID enabled = live_update True quinielaID
     (\<lambda>s q. q\<lparr>q_ScoreFromZero := enabled, q_ScoreFromZeroSince := if enabled then Some (db_now s) else None\<rparr>)"

definition DeleteByAdmin :: "int \<Rightarrow> unit dbprog" where
  "DeleteByAdmin quinielaID = tx_void (live_update True quinielaID (\<lambda>s q. q\<lparr>q_DeletedAt := Some (db_now s)\<rparr>))"

definition BulkDeleteByAdmin :: "int list \<Rightarrow> int list dbprog" where
  "BulkDeleteByAdmin ids = (if ids = [] then tx_ret []
     else tx_bind (tx_exec (\<lambda>s. quiniela_update (\<lambda>q. q_ID q \<in> set ids \<and> is_live_group q) (\<lambda>q. q\<lparr>q_DeletedAt := Some (db_now s)\<rparr>) s)) (\<lambda>rows.
       tx_ret (map q_ID rows)))"

section \<open>Service\<close>

definition DefaultGroupInviteCodeLength :: int where [domain_consts]: "DefaultGroupInviteCodeLength = 10"

definition DefaultTournamentGeneralEntryFeeCents :: int where [domain_consts]: "DefaultTournamentGeneralEntryFeeCents = 3000"

definition errQuinielaNotFound :: "int \<Rightarrow> string" where
  "errQuinielaNotFound i = ''quiniela '' @ Itoa i @ '' not found''"

definition IsNameAvailable :: "(string \<Rightarrow> string) \<Rightarrow> string \<Rightarrow> int \<Rightarrow> bool dbprog" where
  "IsNameAvailable lower name excludeID = tx_bind (ExistsByName lower (TrimSpace name) excludeID) (\<lambda>exists. tx_ret (\<not> exists))"

definition CreateGroup :: "(string \<Rightarrow> string) \<Rightarrow> (nat \<Rightarrow> nat list option) \<Rightarrow> Quiniela \<Rightarrow> (Quiniela \<times> GroupMembership) dbprog" where
  "CreateGroup lower rand quiniela =
     tx_bind (tx_lift (ValidateQuiniela quiniela)) (\<lambda>_.
     tx_bind (ExistsByName lower (q_Name quiniela) 0) (\<lambda>taken.
     if taken then tx_err (Conflict errMsgDuplicateGroupName)
     else
       tx_bind (param_int ''group.invite_code_length'' DefaultGroupInviteCodeLength) (\<lambda>len.
       case Generate rand [] len of
         None \<Rightarrow> tx_err (Internal (OtherError ''randcode''))
       | Some code \<Rightarrow>
           let q = quiniela\<lparr>q_InviteCode := code, q_InviteCodeExpiresAt := None, q_Status := QuinielaStatusInactive,
             q_Currency := if q_Currency quiniela = [] then ''MXN'' else q_Currency quiniela\<rparr> in
           tx_bind (tx_read db_now) (\<lambda>now.
           CreateWithMembership lower q (new_membership 0 (q_OwnerID q) MembershipActive MembershipRoleCreateOwner (q_EntryFee q = 0) (Some now))))))"

definition GetGroupByID :: "int \<Rightarrow> Quiniela dbprog" where
  "GetGroupByID i = tx_bind (GetGroup i) (\<lambda>r. case r of None \<Rightarrow> tx_err (NotFound (errQuinielaNotFound i)) | Some q \<Rightarrow> tx_ret q)"

definition RenameGroup :: "(string \<Rightarrow> string) \<Rightarrow> int \<Rightarrow> int \<Rightarrow> string \<Rightarrow> Quiniela dbprog" where
  "RenameGroup lower quinielaID callerUserID name0 =
     tx_bind (RequireOwner quinielaID callerUserID) (\<lambda>_.
     let name = TrimSpace name0 in
     if name = [] then tx_err (Validation ''group name cannot be empty'')
     else
       tx_bind (ExistsByName lower name quinielaID) (\<lambda>taken.
       if taken then tx_err (Conflict errMsgDuplicateGroupName)
       else tx_bind (GetGroupByID quinielaID) (\<lambda>q. QuinielaUpdate lower (q\<lparr>q_Name := name\<rparr>))))"

definition GroupByInviteCode :: "string \<Rightarrow> Quiniela dbprog" where
  "GroupByInviteCode code = tx_bind (GetByInviteCode code) (\<lambda>r. case r of
     None \<Rightarrow> tx_err (NotFound ''group not found for the given invite code'') | Some q \<Rightarrow> tx_ret q)"

definition validatePremiumEligibility :: "int \<Rightarrow> unit dbprog" where
  "validatePremiumEligibility quinielaID = tx_bind group_min (\<lambda>minMembers.
     tx_bind (GetGroupByID quinielaID) (\<lambda>q.
     tx_guard (q_Status q = QuinielaStatusActive) (Validation (''premium mode requires at least '' @ Itoa minMembers @ '' active members''))))"

definition chargeExistingMembersIfNeeded :: "nat \<Rightarrow> int \<Rightarrow> bool \<Rightarrow> int \<Rightarrow> unit dbprog" where
  "chargeExistingMembersIfNeeded maxAttempts quinielaID isPremium entryFee =
    (if \<not> isPremium \<or> entryFee = 0 then tx_ret ()
     else tx_bind (GetGroup quinielaID) (\<lambda>existing. case existing of
       None \<Rightarrow> tx_ret ()
     | Some q \<Rightarrow> if q_IsPremium q then tx_ret () else tx_void (BulkDebitAndMarkPaid maxAttempts quinielaID entryFee)))"

definition SetTournamentMode :: "nat \<Rightarrow> int \<Rightarrow> int \<Rightarrow> bool \<Rightarrow> bool \<Rightarrow> Quiniela dbprog" where
  "SetTournamentMode maxAttempts quinielaID callerUserID modeGeneral modeRound =
     tx_bind (RequireOwner quinielaID callerUserID) (\<lambda>_.
     let isPremium = (modeGeneral \<or> modeRound) in
     tx_bind (if isPremium then validatePremiumEligibility quinielaID else tx_ret ()) (\<lambda>_.
     tx_bind (if modeGeneral then param_int ''tournament.general_entry_fee_cents'' DefaultTournamentGeneralEntryFeeCents else tx_ret 0) (\<lambda>entryFee.
     tx_bind (chargeExistingMembersIfNeeded maxAttempts quinielaID isPremium entryFee) (\<lambda>_.
     UpdateTournamentMode quinielaID isPremium modeGeneral modeRound entryFee))))"

definition UpdateRequireApproval :: "int \<Rightarrow> int \<Rightarrow> bool \<Rightarrow> Quiniela dbprog" where
  "UpdateRequireApproval quinielaID callerUserID requireApproval =
     tx_bind (RequireOwner quinielaID callerUserID) (\<lambda>_. repo_UpdateRequireApproval quinielaID requireApproval)"

definition UpdateScoreFromZero :: "int \<Rightarrow> int \<Rightarrow> bool \<Rightarrow> Quiniela dbprog" where
  "UpdateScoreFromZero quinielaID callerUserID enabled =
     tx_bind (RequireOwner quinielaID callerUserID) (\<lambda>_.
     if \<not> enabled then tx_err (Validation ''score_from_zero cannot be disabled once activated'')
     else repo_UpdateScoreFromZero quinielaID True)"

definition DeleteGroup :: "int \<Rightarrow> unit dbprog" where
  "DeleteGroup quinielaID = DeleteByAdmin quinielaID"

definition UpdateGroupSettings :: "int \<Rightarrow> int \<Rightarrow> Quiniela dbprog" where
  "UpdateGroupSettings quinielaID entryFee = repo_UpdateGroupSettings quinielaID entryFee"

definition BulkDeleteGroups :: "int list \<Rightarrow> (int list \<times> int list) dbprog" where
  "BulkDeleteGroups ids = tx_bind (BulkDeleteByAdmin ids) (\<lambda>succeeded. tx_ret (diffBulkResult ids succeeded))"

section \<open>Groups stay consistent\<close>

text \<open>
  Keys, invite codes and the names of the groups that are not deleted are unique, names up to letter case; a group is
  premium exactly when one of the paid modes is on.
\<close>
definition group_rows_wf :: "(string \<Rightarrow> string) \<Rightarrow> int \<Rightarrow> Quiniela list \<Rightarrow> bool" where
  "group_rows_wf lower n rows \<longleftrightarrow> distinct (map q_ID rows) \<and> distinct (map q_InviteCode rows) \<and>
     distinct (map (\<lambda>q. lower (q_Name q)) (filter is_live_group rows)) \<and>
     (\<forall>q\<in>set rows. q_ID q < n \<and> q_IsPremium q = (q_ModeGeneral q \<or> q_ModeRound q))"

definition groups_wf :: "(string \<Rightarrow> string) \<Rightarrow> db \<Rightarrow> bool" where
  "groups_wf lower s \<longleftrightarrow> group_rows_wf lower (db_seq s) (db_quinielas s)"

text \<open>What never changes: the creator, the invite code, a deletion, and the decision to score from zero.\<close>
definition group_grows :: "Quiniela \<Rightarrow> Quiniela \<Rightarrow> bool" where
  "group_grows q q' \<longleftrightarrow> q_ID q' = q_ID q \<and> q_OwnerID q' = q_OwnerID q \<and> q_InviteCode q' = q_InviteCode q \<and>
     (q_DeletedAt q \<noteq> None \<longrightarrow> q_DeletedAt q' = q_DeletedAt q) \<and> (q_ScoreFromZero q \<longrightarrow> q_ScoreFromZero q')"

definition groups_inv :: "(string \<Rightarrow> string) \<Rightarrow> db \<Rightarrow> db \<Rightarrow> bool" where
  "groups_inv lower s0 s \<longleftrightarrow> groups_wf lower s \<and> (\<forall>q\<in>set (db_quinielas s0). \<exists>q'\<in>set (db_quinielas s). group_grows q q')"

text \<open>The groups without their status, which follows the number of members.\<close>
definition group_view :: "db \<Rightarrow> Quiniela list" where
  "group_view s = map (\<lambda>q. q\<lparr>q_Status := QuinielaStatusInactive\<rparr>) (db_quinielas s)"

lemma group_rows_wf_view: "group_rows_wf lower n (map (\<lambda>q. q\<lparr>q_Status := st\<rparr>) rows) = group_rows_wf lower n rows"
  by (simp add: group_rows_wf_def comp_def filter_map is_live_group_def [abs_def])

lemma groups_inv_view:
  "groups_inv lower s0 s \<longleftrightarrow> group_rows_wf lower (db_seq s) (group_view s) \<and> (\<forall>q\<in>set (db_quinielas s0). \<exists>q'\<in>set (group_view s). group_grows q q')"
  by (simp add: groups_inv_def groups_wf_def group_view_def group_rows_wf_view group_grows_def)

text \<open>A condition on the groups apart from their status is kept by every operation on memberships.\<close>
locale group_condition =
  fixes K :: "db \<Rightarrow> bool"
  assumes view_stable: "K s \<Longrightarrow> group_view s' = group_view s \<Longrightarrow> db_seq s \<le> db_seq s' \<Longrightarrow> K s'"

sublocale group_condition \<subseteq> roster_condition
proof
  fix s s' assume "K s" "roster s' = roster s" "db_seq s \<le> db_seq s'"
  then show "K s'" by (intro view_stable [of s s']) (simp_all add: roster_def group_view_def)
qed

context group_condition
begin

lemma keeps_members: "tx_keeps K (tx_exec (member_update p f))" "tx_keeps K (tx_exec (\<lambda>s. member_update (p' s) (f' s) s))"
  by (rule tx_keeps_exec; erule view_stable; auto simp: tx_runs group_view_def)+

lemma keeps_member_insert: "tx_keeps K (tx_stmt w (member_insert g))"
  by (rule tx_keeps_stmt; erule view_stable; drule member_insert_run(2); simp add: group_view_def)

lemma keeps_member_exec: "tx_keeps K (tx_exec (member_insert g))"
  unfolding tx_exec_def by (rule keeps_member_insert)

lemma keeps_sync: "tx_keeps K (syncStatusInTx i m)"
proof -
  have same: "map (\<lambda>q. q\<lparr>q_Status := QuinielaStatusInactive\<rparr>) (update_where p (\<lambda>q. q\<lparr>q_Status := st\<rparr>) rows) = map (\<lambda>q. q\<lparr>q_Status := QuinielaStatusInactive\<rparr>) rows" for p st rows
    by (rule map_update_where) simp
  show ?thesis unfolding syncStatusInTx_def
    by (intro tx_keeps_bind tx_keeps_base tx_keeps_exec; erule view_stable; auto simp: tx_runs group_view_def same)
qed

lemma keeps_lock: "tx_keeps K (lock_quiniela i)"
  unfolding lock_quiniela_def by (rule tx_keeps_exec) (auto split: if_splits)

lemma keeps_memberships:
  "tx_keeps K (ApproveMembership k q now mn mx)" "tx_keeps K (LeaveMembership q u now mn)" "tx_keeps K (LeaveMembershipAndTransferOwnership q u k now mn)"
  "tx_keeps K (TransferOwnershipRoles q k)" "tx_keeps K (RemoveByAdmin k a)" "tx_keeps K (BulkRemoveByAdmin q ks a)" "tx_keeps K (RequestJoinByInviteCode code u mx fr)"
  unfolding ApproveMembership_def LeaveMembership_def LeaveMembershipAndTransferOwnership_def TransferOwnershipRoles_def demote_owners_def
    RemoveByAdmin_def BulkRemoveByAdmin_def RequestJoinByInviteCode_def findQuinielaByInviteCode_def findMembershipForLocking_def enforceJoinCapacity_def
    enforceFreeMax_def enforceMaxMembers_def reactivateMembership_def createPendingMembership_def Let_def
  by (intro tx_keeps_withTx tx_keeps_bind tx_keeps_base tx_keeps_if tx_keeps_option tx_keeps_row_or tx_keeps_affected keeps_members keeps_member_insert keeps_sync keeps_lock)+

lemma keeps_membership_op:
  assumes "fx_reads fx"
  shows "tx_keeps K (run_membership_op n fx oper)"
  using assms
  by (cases oper)
    (auto simp: Join_def JoinWithBalance_def ApproveJoin_def enforceApprovalFeeRules_def RejectJoin_def Leave_def MarkPaid_def TransferOwnership_def RemoveMember_def
      BulkRemoveMembers_def ValidateDeposit_def ValidateAndMarkPaid_def RejectDeposit_def RejectPayment_def reviewPending_def GetByQuinielaAndUser_def OldestActiveMember_def
      group_max_def group_free_max_def group_min_def param_int_def CountActive_def GetGroup_def
      intro!: tx_keeps_void tx_keeps_withTx tx_keeps_bind tx_keeps_base tx_keeps_if tx_keeps_option tx_keeps_list tx_keeps_prod tx_keeps_row_or keeps_members keeps_memberships
        keeps_createPendingPayment keeps_DebitBalanceAndMarkPaid keeps_BulkDebitAndMarkPaid keeps_payment_review keeps_payment_settled
        entryFee_keeps RequireActiveMember_keeps pending_request_keeps)

end

interpretation group_table: group_condition "groups_inv lower s0"
  by unfold_locales (auto simp: groups_inv_view group_rows_wf_def)


lemma map_update_matching: "(\<And>r. p r \<Longrightarrow> g (f r) = g r) \<Longrightarrow> map g (update_where p f rows) = map g rows"
  by (induction rows) auto

lemma distinct_filter_update:
  assumes "distinct (map k (filter P rows))" "\<And>r. p r \<Longrightarrow> k (f r) = k r" "\<And>r. p r \<Longrightarrow> P (f r) \<Longrightarrow> P r"
  shows "distinct (map k (filter P (update_where p f rows)))"
  using assms(1)
proof (induction rows)
  case (Cons r rows)
  have "k ` {x \<in> set (update_where p f rows). P x} \<subseteq> k ` {x \<in> set rows. P x}"
    using assms(2,3) by (auto simp: set_update_where image_iff)
  then show ?case using Cons assms(2,3) by (auto simp: subset_iff split: if_splits)
qed simp

text \<open>An update that keeps what must not change and the name keeps the invariant.\<close>
lemma groups_inv_update:
  assumes "groups_inv lower s0 s" "\<And>q. p q \<Longrightarrow> group_grows q (f q)" "\<And>q. p q \<Longrightarrow> q_Name (f q) = q_Name q"
    "\<And>q. p q \<Longrightarrow> q_IsPremium q = (q_ModeGeneral q \<or> q_ModeRound q) \<Longrightarrow> q_IsPremium (f q) = (q_ModeGeneral (f q) \<or> q_ModeRound (f q))"
  shows "groups_inv lower s0 (s\<lparr>db_quinielas := update_where p f (db_quinielas s)\<rparr>)"
proof -
  let ?rows = "update_where p f (db_quinielas s)"
  have keep: "q_ID (f q) = q_ID q" "q_InviteCode (f q) = q_InviteCode q" "is_live_group (f q) \<Longrightarrow> is_live_group q" if "p q" for q
    using assms(2) [OF that] by (auto simp: group_grows_def is_live_group_def)
  have wf: "group_rows_wf lower (db_seq s) (db_quinielas s)" using assms(1) by (simp add: groups_inv_def groups_wf_def)
  have "distinct (map (\<lambda>q. lower (q_Name q)) (filter is_live_group ?rows))"
    by (rule distinct_filter_update) (use wf keep(3) assms(3) in \<open>auto simp: group_rows_wf_def\<close>)
  moreover have "\<forall>q\<in>set ?rows. q_ID q < db_seq s \<and> q_IsPremium q = (q_ModeGeneral q \<or> q_ModeRound q)"
    using wf keep(1) assms(4) by (auto simp: group_rows_wf_def set_update_where)
  moreover have "map q_ID ?rows = map q_ID (db_quinielas s)" "map q_InviteCode ?rows = map q_InviteCode (db_quinielas s)"
    by (rule map_update_matching; simp add: keep)+
  ultimately have "group_rows_wf lower (db_seq s) ?rows" using wf by (simp add: group_rows_wf_def)
  moreover have "\<exists>q'\<in>set ?rows. group_grows q0 q'" if q0: "q0 \<in> set (db_quinielas s0)" for q0
  proof -
    obtain q where q: "q \<in> set (db_quinielas s)" "group_grows q0 q" using assms(1) q0 by (auto simp: groups_inv_def)
    have "group_grows q0 (f q)" if "p q" using q(2) assms(2) [OF that] by (auto simp: group_grows_def)
    then show ?thesis using q by (cases "p q") (auto simp: set_update_where)
  qed
  ultimately show ?thesis by (simp add: groups_inv_def groups_wf_def)
qed

lemma live_update_keeps:
  assumes "\<And>s q. is_live_group q \<Longrightarrow> group_grows q (f s q)" "\<And>s q. q_Name (f s q) = q_Name q"
    "\<And>s q. q_IsPremium q = (q_ModeGeneral q \<or> q_ModeRound q) \<Longrightarrow> q_IsPremium (f s q) = (q_ModeGeneral (f s q) \<or> q_ModeRound (f s q))"
  shows "tx_keeps (groups_inv lower s0) (live_update fits i f)"
  unfolding live_update_def
  by (intro tx_keeps_bind tx_keeps_exec tx_keeps_row_or) (auto simp: tx_runs split: if_splits intro!: groups_inv_update assms)

lemma settings_keep:
  "tx_keeps (groups_inv lower s0) (DeleteGroup i)" "tx_keeps (groups_inv lower s0) (UpdateGroupSettings i fee)"
  "tx_keeps (groups_inv lower s0) (repo_UpdateRequireApproval i b)" "tx_keeps (groups_inv lower s0) (repo_UpdateScoreFromZero i True)"
  "tx_keeps (groups_inv lower s0) (UpdateTournamentMode i (mg \<or> mr) mg mr fee)"
  unfolding DeleteGroup_def DeleteByAdmin_def UpdateGroupSettings_def repo_UpdateGroupSettings_def repo_UpdateRequireApproval_def repo_UpdateScoreFromZero_def UpdateTournamentMode_def
  by (intro tx_keeps_void live_update_keeps; simp add: group_grows_def is_live_group_def)+

lemma BulkDeleteGroups_keeps: "tx_keeps (groups_inv lower s0) (BulkDeleteGroups ids)"
  unfolding BulkDeleteGroups_def BulkDeleteByAdmin_def
  by (intro tx_keeps_bind tx_keeps_if tx_keeps_base tx_keeps_exec) (auto simp: tx_runs group_grows_def is_live_group_def intro!: groups_inv_update)

text \<open>The insert checks the unique indexes, the rename the one on the name.\<close>
lemma group_rows_append:
  assumes "group_rows_wf lower n rows" "q_ID q = n" "\<forall>r\<in>set rows. q_InviteCode r \<noteq> q_InviteCode q"
    "\<forall>r\<in>set rows. is_live_group r \<longrightarrow> lower (q_Name r) \<noteq> lower (q_Name q)" "q_IsPremium q = (q_ModeGeneral q \<or> q_ModeRound q)"
  shows "group_rows_wf lower (n + 1) (rows @ [q])"
proof -
  have "q_ID q \<notin> q_ID ` set rows" "\<And>r. r \<in> set rows \<Longrightarrow> q_ID r < n + 1" using assms(1,2) by (auto simp: group_rows_wf_def)
  moreover have "lower (q_Name q) \<notin> (\<lambda>q. lower (q_Name q)) ` set (filter is_live_group rows)" using assms(4) by auto
  moreover have "q_InviteCode q \<notin> q_InviteCode ` set rows" using assms(3) by auto
  ultimately show ?thesis using assms(1,2,5) unfolding group_rows_wf_def by (simp del: set_filter)
qed

lemma quiniela_insert_run:
  assumes "quiniela_insert lower q s = Inr (a, s')"
  shows "s' = s\<lparr>db_seq := db_seq s + 1, db_quinielas := db_quinielas s @ [a]\<rparr>"
    "a = q\<lparr>q_ID := db_seq s, q_Status := QuinielaStatusInactive, q_IsPremium := False, q_ModeGeneral := False,
       q_ModeRound := False, q_RequireApproval := True, q_ScoreFromZero := False, q_ScoreFromZeroSince := None, q_DeletedAt := None, q_PrizesDistributedAt := None\<rparr>"
    "\<forall>r\<in>set (db_quinielas s). q_InviteCode r \<noteq> q_InviteCode q" "\<forall>r\<in>set (db_quinielas s). is_live_group r \<longrightarrow> lower (q_Name r) \<noteq> lower (q_Name q)"
    "user_exists s (Some (q_OwnerID q))"
  using assms by (auto simp: quiniela_insert_def Let_def name_taken_def list_ex_iff split: if_splits)

lemma quiniela_insert_inv:
  assumes "groups_inv lower s0 s" "quiniela_insert lower q s = Inr (a, s')"
  shows "groups_inv lower s0 s'"
proof -
  note r = quiniela_insert_run [OF assms(2)]
  have "group_rows_wf lower (db_seq s + 1) (db_quinielas s @ [a])"
    by (rule group_rows_append) (use assms(1) r(3,4) in \<open>simp_all add: r(2) groups_inv_def groups_wf_def\<close>)
  then show ?thesis using assms(1) unfolding r(1) by (auto simp: groups_inv_def groups_wf_def)
qed

lemma distinct_by_key:
  assumes "distinct (map q_ID rows)"
  shows "distinct (map k (filter P rows)) \<longleftrightarrow> (\<forall>x\<in>set rows. \<forall>y\<in>set rows. P x \<longrightarrow> P y \<longrightarrow> k x = k y \<longrightarrow> q_ID x = q_ID y)"
proof -
  have "distinct rows" "inj_on q_ID (set rows)" using assms by (simp_all add: distinct_map)
  then show ?thesis by (auto simp: distinct_map inj_on_def)
qed

lemma rename_rows:
  assumes "group_rows_wf lower n rows"
    "(\<exists>q\<in>set rows. q_ID q = i \<and> is_live_group q) \<Longrightarrow> \<forall>q\<in>set rows. q_ID q \<noteq> i \<longrightarrow> is_live_group q \<longrightarrow> lower (q_Name q) \<noteq> lower name"
  shows "group_rows_wf lower n (update_where (\<lambda>q. q_ID q = i) (\<lambda>q. q\<lparr>q_Name := name\<rparr>) rows)"
proof -
  let ?rows = "update_where (\<lambda>q. q_ID q = i) (\<lambda>q. q\<lparr>q_Name := name\<rparr>) rows"
  have ids: "map q_ID ?rows = map q_ID rows" "map q_InviteCode ?rows = map q_InviteCode rows" by (rule map_update_where, simp)+
  have d: "distinct (map q_ID rows)" using assms(1) by (simp add: group_rows_wf_def)
  have old: "q_ID x = q_ID y" if "x \<in> set rows" "y \<in> set rows" "is_live_group x" "is_live_group y" "lower (q_Name x) = lower (q_Name y)" for x y
    using assms(1) that unfolding group_rows_wf_def distinct_by_key [OF d] by blast
  have new: "(\<exists>r\<in>set rows. q_ID r = i \<and> is_live_group r) \<and> q_ID x = i \<and> q_Name x = name \<or> x \<in> set rows \<and> q_ID x \<noteq> i" if "x \<in> set ?rows" "is_live_group x" for x
    using that by (auto simp: set_update_where is_live_group_def)
  have "distinct (map (\<lambda>q. lower (q_Name q)) (filter is_live_group ?rows))"
    unfolding distinct_by_key [OF d [folded ids(1)]]
  proof (intro ballI impI)
    fix x y assume xy: "x \<in> set ?rows" "y \<in> set ?rows" "is_live_group x" "is_live_group y" "lower (q_Name x) = lower (q_Name y)"
    then show "q_ID x = q_ID y" using new [of x] new [of y] old [of x y] assms(2) by metis
  qed
  then show ?thesis using assms(1) ids by (auto simp: group_rows_wf_def set_update_where)
qed

lemma quiniela_rename_inv:
  assumes "groups_inv lower s0 s" "quiniela_rename lower i name s = Inr (a, s')"
  shows "groups_inv lower s0 s'"
proof -
  let ?f = "\<lambda>q. q\<lparr>q_Name := name\<rparr>" and ?rows = "db_quinielas s"
  have s': "s' = s\<lparr>db_quinielas := update_where (\<lambda>q. q_ID q = i) ?f ?rows\<rparr>"
    and free: "(\<exists>q\<in>set ?rows. q_ID q = i \<and> is_live_group q) \<Longrightarrow> \<forall>q\<in>set ?rows. q_ID q \<noteq> i \<longrightarrow> is_live_group q \<longrightarrow> lower (q_Name q) \<noteq> lower name"
    using assms(2) by (auto simp: quiniela_rename_def name_taken_def list_ex_iff tx_runs split: if_splits)
  have "group_rows_wf lower (db_seq s) (update_where (\<lambda>q. q_ID q = i) ?f ?rows)"
    by (rule rename_rows) (use assms(1) free in \<open>simp_all add: groups_inv_def groups_wf_def\<close>)
  moreover have "\<exists>q'\<in>set (update_where (\<lambda>q. q_ID q = i) ?f ?rows). group_grows q0 q'" if q0: "q0 \<in> set (db_quinielas s0)" for q0
  proof -
    obtain q where q: "q \<in> set ?rows" "group_grows q0 q" using assms(1) q0 by (auto simp: groups_inv_def)
    then have "group_grows q0 (?f q)" by (simp add: group_grows_def)
    then show ?thesis using q by (cases "q_ID q = i") (auto simp: set_update_where)
  qed
  ultimately show ?thesis unfolding s' by (simp add: groups_inv_def groups_wf_def)
qed

lemma CreateGroup_keeps: "tx_keeps (groups_inv lower s0) (CreateGroup lower rand q)"
  unfolding CreateGroup_def ExistsByName_def param_int_def Let_def CreateWithMembership_def
  by (intro tx_keeps_withTx tx_keeps_bind tx_keeps_base tx_keeps_if tx_keeps_option group_table.keeps_member_exec tx_keeps_stmt) (rule quiniela_insert_inv)

lemma RequireOwner_keeps: "tx_keeps I (RequireOwner q u)"
  unfolding RequireOwner_def GetByQuinielaAndUser_def by (intro tx_keep)

lemma GetGroupByID_keeps: "tx_keeps I (GetGroupByID i)"
  unfolding GetGroupByID_def GetGroup_def by (intro tx_keep)

lemma RenameGroup_keeps: "tx_keeps (groups_inv lower s0) (RenameGroup lower q u name)"
  unfolding RenameGroup_def ExistsByName_def QuinielaUpdate_def Let_def
  by (intro tx_keeps_bind tx_keeps_base tx_keeps_if tx_keeps_row_or RequireOwner_keeps GetGroupByID_keeps tx_keeps_stmt) (rule quiniela_rename_inv)

lemma SetTournamentMode_keeps: "tx_keeps (groups_inv lower s0) (SetTournamentMode n q u mg mr)"
  unfolding SetTournamentMode_def validatePremiumEligibility_def chargeExistingMembersIfNeeded_def group_min_def param_int_def GetGroup_def Let_def
  by (intro tx_keeps_bind tx_keeps_base tx_keeps_if tx_keeps_option tx_keeps_void RequireOwner_keeps GetGroupByID_keeps settings_keep group_table.keeps_BulkDebitAndMarkPaid)

lemma owner_settings_keep: "tx_keeps (groups_inv lower s0) (UpdateRequireApproval q u b)" "tx_keeps (groups_inv lower s0) (UpdateScoreFromZero q u b)"
  unfolding UpdateRequireApproval_def UpdateScoreFromZero_def by (intro tx_keeps_bind tx_keeps_base tx_keeps_if RequireOwner_keeps settings_keep)+

datatype group_op =
    OpCreate Quiniela "nat \<Rightarrow> nat list option"
  | OpRename int int string
  | OpMode int int bool bool
  | OpRequireApproval int int bool
  | OpScoreFromZero int int bool
  | OpDeleteGroup int
  | OpDeleteGroups "int list"
  | OpGroupSettings int int
  | OpMembership membership_op

fun run_group_op :: "(string \<Rightarrow> string) \<Rightarrow> nat \<Rightarrow> (int \<Rightarrow> int dbprog) option \<Rightarrow> group_op \<Rightarrow> unit dbprog" where
  "run_group_op lower n fx (OpCreate q rand) = tx_void (CreateGroup lower rand q)"
| "run_group_op lower n fx (OpRename i u name) = tx_void (RenameGroup lower i u name)"
| "run_group_op lower n fx (OpMode i u mg mr) = tx_void (SetTournamentMode n i u mg mr)"
| "run_group_op lower n fx (OpRequireApproval i u b) = tx_void (UpdateRequireApproval i u b)"
| "run_group_op lower n fx (OpScoreFromZero i u b) = tx_void (UpdateScoreFromZero i u b)"
| "run_group_op lower n fx (OpDeleteGroup i) = DeleteGroup i"
| "run_group_op lower n fx (OpDeleteGroups ids) = tx_void (BulkDeleteGroups ids)"
| "run_group_op lower n fx (OpGroupSettings i fee) = tx_void (UpdateGroupSettings i fee)"
| "run_group_op lower n fx (OpMembership oper) = run_membership_op n fx oper"

lemma run_group_op_keeps: "fx_reads fx \<Longrightarrow> tx_keeps (groups_inv lower s0) (run_group_op lower n fx oper)"
  by (cases oper) (simp_all add: tx_keeps_void CreateGroup_keeps RenameGroup_keeps SetTournamentMode_keeps owner_settings_keep settings_keep BulkDeleteGroups_keeps
    group_table.keeps_membership_op)

text \<open>
  C11: groups stay consistent. Whatever sequence of group and membership requests runs, with whatever failures, random codes and letter folding,
  keys and invite codes are unique, no two groups that are not deleted have names that only differ in letter case, a group is premium exactly when one
  of the paid modes is on; and no group disappears, changes its creator or its invite code, comes back from deletion or stops scoring from zero.
\<close>
theorem groups_stay_consistent:
  assumes "groups_wf lower s" "fx_reads fx" "s' = run_all (map (\<lambda>(oper, fs). (run_group_op lower n fx oper, fs)) requests) s"
  shows "groups_wf lower s' \<and> (\<forall>q\<in>set (db_quinielas s). \<exists>q'\<in>set (db_quinielas s'). group_grows q q')"
proof -
  have "groups_inv lower s s" using assms(1) by (auto simp: groups_inv_def group_grows_def)
  then have "groups_inv lower s s'" unfolding assms(3)
    by (intro run_all_invariant [where I = "groups_inv lower s"]) (auto intro: run_group_op_keeps [OF assms(2)])
  then show ?thesis by (simp add: groups_inv_def)
qed

section \<open>Going premium charges everybody\<close>

lemma RequireOwner_run:
  assumes "RequireOwner q u fs s = (Inr x, fs', s')"
  shows "s' = s" "\<exists>m\<in>set (db_memberships s). gm_QuinielaID m = q \<and> gm_UserID m = u \<and> gm_Role m = MembershipRoleCreateOwner"
  using assms by (auto simp: RequireOwner_def GetByQuinielaAndUser_def tx_runs dest!: find_Some_in split: option.splits)

lemma GetGroup_run [tx_runs]:
  "GetGroup i fs s = (Inr r, fs', s') \<longleftrightarrow> next_fault fs = (None, fs') \<and> s' = s \<and>
     r = (case get_quiniela s i of None \<Rightarrow> None | Some q \<Rightarrow> if q_DeletedAt q \<noteq> None then None else Some q)"
  by (auto simp: GetGroup_def tx_runs)

lemma validatePremiumEligibility_run:
  assumes "validatePremiumEligibility i fs s = (Inr x, fs', s')"
  shows "s' = s" "\<exists>q. get_quiniela s i = Some q \<and> q_DeletedAt q = None \<and> q_Status q = QuinielaStatusActive"
  using assms by (auto simp: validatePremiumEligibility_def group_min_def param_int_def GetGroupByID_def tx_runs split: option.splits if_splits)

lemma charge_run:
  assumes "chargeExistingMembersIfNeeded n i True fee fs s = (Inr x, fs', s')" "fee \<noteq> 0" "get_quiniela s i = Some q" "q_DeletedAt q = None" "\<not> q_IsPremium q"
  obtains us fs1 fs2 where "BulkDebitAndMarkPaid n i fee fs1 s = (Inr us, fs2, s')"
  using assms by (auto simp: chargeExistingMembersIfNeeded_def tx_void_def tx_runs split: option.splits)

interpretation same_groups: roster_condition "\<lambda>s. db_quinielas s = rows"
  by unfold_locales (simp add: roster_def)

lemma live_update_run:
  assumes "live_update fits i f fs s = (Inr q', fs', s')" "get_quiniela s i = Some q" "q_DeletedAt q = None" "\<And>q. q_ID (f s q) = q_ID q"
  shows "q' = f s q" "fits" "s' = s\<lparr>db_quinielas := update_where (\<lambda>q. q_ID q = i \<and> is_live_group q) (f s) (db_quinielas s)\<rparr>"
    "get_quiniela s' i = Some (f s q)"
proof -
  let ?p = "\<lambda>q. q_ID q = i \<and> is_live_group q"
  obtain rest where "map (f s) (filter ?p (db_quinielas s)) = q' # rest" and s': "s' = s\<lparr>db_quinielas := update_where ?p (f s) (db_quinielas s)\<rparr>" and "fits"
    using assms(1) by (auto simp: live_update_def tx_runs split: if_splits)
  have hd: "find (\<lambda>q. q_ID q = i) rows = Some q \<Longrightarrow> \<exists>qs. filter ?p rows = q # qs" for rows
    using assms(3) by (induction rows) (auto simp: is_live_group_def split: if_splits)
  show "q' = f s q" using hd [OF assms(2) [unfolded get_quiniela_def]] \<open>map (f s) (filter ?p (db_quinielas s)) = q' # rest\<close> by auto
  have "find (\<lambda>q. q_ID q = i) rows = Some q \<Longrightarrow> find (\<lambda>q. q_ID q = i) (update_where ?p (f s) rows) = Some (f s q)" for rows
    using assms(3,4) by (induction rows) (auto simp: is_live_group_def split: if_splits)
  then show "get_quiniela s' i = Some (f s q)" using assms(2) by (simp add: get_quiniela_def s')
  show "fits" "s' = s\<lparr>db_quinielas := update_where ?p (f s) (db_quinielas s)\<rparr>" by fact+
qed

text \<open>
  C39: going premium charges everybody once. When the owner of a free group successfully switches the general mode on, the group had been active, every
  active member is marked paid, exactly those who had not paid are charged exactly the configured fee, once and within their available balance, the books
  still balance, and the group is stored as premium with that fee.
\<close>
theorem premium_switch_charges_everybody:
  assumes "books s" "members_wf s" "0 < n" "get_quiniela s i = Some q" "\<not> q_IsPremium q"
    "fee = GetInt (db_params s) ''tournament.general_entry_fee_cents'' DefaultTournamentGeneralEntryFeeCents" "fee \<noteq> 0"
    "SetTournamentMode n i u True mr fs s = (Inr q', fs', s')"
  shows "q_Status q = QuinielaStatusActive \<and> q_IsPremium q' \<and> q_ModeGeneral q' \<and> q_EntryFee q' = fee \<and> get_quiniela s' i = Some q' \<and> books s' \<and>
    (\<forall>m\<in>set (db_memberships s'). is_active i m \<and> gm_RemovedAt m = None \<longrightarrow> gm_Paid m) \<and>
    accounts s' = (\<lambda>j. if \<exists>m\<in>set (db_memberships s). is_active i m \<and> \<not> gm_Paid m \<and> gm_RemovedAt m = None \<and> gm_UserID m = j
      then map_option (\<lambda>b. b - fee) (accounts s j) else accounts s j)"
proof -
  obtain fs1 s1 fs2 s2 fs3 s3 where
    o: "RequireOwner i u fs s = (Inr (), fs1, s1)" and v: "validatePremiumEligibility i fs1 s1 = (Inr (), fs2, s2)"
    and c: "chargeExistingMembersIfNeeded n i True (GetInt (db_params s2) ''tournament.general_entry_fee_cents'' DefaultTournamentGeneralEntryFeeCents) fs2 s2 = (Inr (), fs3, s3)"
    and m: "UpdateTournamentMode i True True mr (GetInt (db_params s2) ''tournament.general_entry_fee_cents'' DefaultTournamentGeneralEntryFeeCents) fs3 s3 = (Inr q', fs', s')"
    using assms(8) by (auto simp: SetTournamentMode_def param_int_def Let_def tx_runs)
  have s12: "s1 = s" "s2 = s" using RequireOwner_run(1) [OF o] validatePremiumEligibility_run(1) [OF v] by simp_all
  have q: "q_DeletedAt q = None" "q_Status q = QuinielaStatusActive" using validatePremiumEligibility_run(2) [OF v] assms(4) s12 by auto
  obtain us fs4 fs5 where bulk: "BulkDebitAndMarkPaid n i fee fs4 s = (Inr us, fs5, s3)"
    using charge_run [OF c [unfolded s12, folded assms(6)] assms(7,4) q(1) assms(5)] by blast
  have n: "n \<noteq> 0" using assms(3) by simp
  note b = BulkDebitAndMarkPaid_run(2) [OF bulk assms(1,2) n] BulkDebitAndMarkPaid_settles [OF bulk assms(1,2) n]
  have "db_quinielas s3 = db_quinielas s" by (rule tx_keepsD [OF same_groups.keeps_BulkDebitAndMarkPaid refl bulk])
  then have "get_quiniela s3 i = Some q" using assms(4) by (simp add: get_quiniela_def)
  from live_update_run [OF m [unfolded UpdateTournamentMode_def] this q(1)]
  have q': "q' = q\<lparr>q_IsPremium := True, q_ModeGeneral := True, q_ModeRound := mr, q_EntryFee := fee\<rparr>" "get_quiniela s' i = Some q'"
    and s': "db_memberships s' = db_memberships s3" "accounts s' = accounts s3" "books s' = books s3"
    by (auto simp: s12 assms(6) accounts_def books_def)
  have "j \<in> set us \<longleftrightarrow> (\<exists>m\<in>set (db_memberships s). is_active i m \<and> \<not> gm_Paid m \<and> gm_RemovedAt m = None \<and> gm_UserID m = j)" for j
    unfolding b(2) by blast
  then have "accounts s' = (\<lambda>j. if \<exists>m\<in>set (db_memberships s). is_active i m \<and> \<not> gm_Paid m \<and> gm_RemovedAt m = None \<and> gm_UserID m = j
      then map_option (\<lambda>b. b - fee) (accounts s j) else accounts s j)" using b(1) by (simp add: s'(2) charged_def)
  then show ?thesis using b(1,3) q(2) q' by (simp add: s'(1,3) charged_def)
qed

section \<open>Concrete runs\<close>

text \<open>An active free group of two members; the first, who owns it, has not paid and holds 500 cents.\<close>
definition example_premium_db :: db where
  "example_premium_db = example_charge_db\<lparr>db_params := [''tournament.general_entry_fee_cents'' \<mapsto> ''300''],
     db_quinielas := [example_quiniela\<lparr>q_Status := QuinielaStatusActive, q_IsPremium := False, q_ModeGeneral := False, q_ModeRound := False\<rparr>],
     db_memberships := [(example_member 1)\<lparr>gm_Paid := False, gm_Role := MembershipRoleCreateOwner\<rparr>, example_member 2]\<rparr>"

lemma books_cong: "db_users s' = db_users s \<Longrightarrow> db_ledger s' = db_ledger s \<Longrightarrow> db_seq s' = db_seq s \<Longrightarrow> books s' = books s"
  by (simp add: books_def)

lemma example_premium_ok: "books example_premium_db" "members_wf example_premium_db" "groups_wf lower example_premium_db"
proof -
  show "books example_premium_db" using example_charge_books books_cong [of example_premium_db example_charge_db] by (simp add: example_premium_db_def)
  show "members_wf example_premium_db" "groups_wf lower example_premium_db"
    by (simp_all add: members_wf_def groups_wf_def group_rows_wf_def example_premium_db_def example_charge_db_def example_bank_db_def empty_db_def example_member_def example_quiniela_def)
qed

theorem premium_switch_charges_everybody_witness:
  "\<exists>q' fs' s'. SetTournamentMode 3 1 1 True False [] example_premium_db = (Inr q', fs', s') \<and> q_IsPremium q' \<and> q_EntryFee q' = 300 \<and>
     accounts s' = (\<lambda>j. if j = 1 then Some 200 else accounts example_premium_db j)"
proof -
  let ?s = example_premium_db
  have "is_ok (fst (SetTournamentMode 3 1 1 True False [] ?s))" by code_simp
  then obtain q' fs' s' where run: "SetTournamentMode 3 1 1 True False [] ?s = (Inr q', fs', s')" by (blast dest: is_ok_run)
  have "\<exists>q. get_quiniela ?s 1 = Some q \<and> \<not> q_IsPremium q" by (simp add: get_quiniela_def example_premium_db_def example_quiniela_def)
  then obtain q where q: "get_quiniela ?s 1 = Some q" "\<not> q_IsPremium q" by blast
  have fee: "300 = GetInt (db_params ?s) ''tournament.general_entry_fee_cents'' DefaultTournamentGeneralEntryFeeCents" by code_simp
  have acc: "accounts ?s 1 = Some 500" by (simp add: accounts_def example_premium_db_def example_charge_db_def)
  have due: "(\<exists>m\<in>set (db_memberships ?s). is_active 1 m \<and> \<not> gm_Paid m \<and> gm_RemovedAt m = None \<and> gm_UserID m = j) = (j = 1)" for j
    by (auto simp: example_premium_db_def example_member_def is_active_def)
  from premium_switch_charges_everybody [OF example_premium_ok(1,2) _ q fee _ run] show ?thesis
    using run acc unfolding due by (auto simp: fun_eq_iff)
qed

text \<open>Letter folding of one letter, and two attempts to take the same name.\<close>
theorem groups_stay_consistent_witness:
  "let lower = map (\<lambda>c. if c = CHR ''N'' then CHR ''n'' else c); q = example_quiniela\<lparr>q_Name := ''New''\<rparr>;
       s' = run_all (map (\<lambda>(oper, fs). (run_group_op lower 3 None oper, fs))
         [(OpCreate q (\<lambda>n. Some (replicate n 0)), []), (OpCreate (q\<lparr>q_Name := ''new''\<rparr>) (\<lambda>n. Some (replicate n 1)), []), (OpRename 10 1 ''G'', []),
          (OpMode 1 1 True False, replicate 9 None @ [Some ContextError]), (OpMembership (OpJoin ''AAAAAAAAAA'' 2), [])]) example_premium_db in
     groups_wf lower s' \<and> map q_Name (db_quinielas s') = [''g'', ''G'']"
proof -
  let ?lower = "map (\<lambda>c. if c = CHR ''N'' then CHR ''n'' else c)" and ?q = "example_quiniela\<lparr>q_Name := ''New''\<rparr>"
  let ?ops = "[(OpCreate ?q (\<lambda>n. Some (replicate n 0)), []), (OpCreate (?q\<lparr>q_Name := ''new''\<rparr>) (\<lambda>n. Some (replicate n 1)), []), (OpRename 10 1 ''G'', []),
          (OpMode 1 1 True False, replicate 9 None @ [Some ContextError]), (OpMembership (OpJoin ''AAAAAAAAAA'' 2), [])]"
  obtain s' where s': "s' = run_all (map (\<lambda>(oper, fs). (run_group_op ?lower 3 None oper, fs)) ?ops) example_premium_db" by simp
  have "map q_Name (db_quinielas s') = [''g'', ''G'']" unfolding s' by code_simp
  moreover have "groups_wf ?lower s'" using groups_stay_consistent [OF example_premium_ok(3) _ s'] by (simp add: fx_reads_def)
  ultimately show ?thesis unfolding Let_def s' by blast
qed

text \<open>
  The charge and the switch are two transactions: when the switch fails, the members have paid for a group that stays free.
\<close>
lemma charged_without_premium:
  "let r = SetTournamentMode 3 1 1 True False (replicate 9 None @ [Some ContextError]) example_premium_db in
     \<not> is_ok (fst r) \<and> map_option u_BalanceCents (db_users (snd (snd r)) 1) = Some 200 \<and> map q_IsPremium (db_quinielas (snd (snd r))) = [False]"
  by code_simp

text \<open>An owner an administrator has removed keeps the role and with it the right to rename the group.\<close>
lemma removed_owner_keeps_control:
  "let s = snd (snd (RemoveMember 1 2 [] example_premium_db)) in
     map gm_Status (db_memberships s) = [MembershipLeft, MembershipActive] \<and> is_ok (fst (RenameGroup id 1 1 ''mine'' [] s))"
  by code_simp

text \<open>When the ownership has meanwhile been transferred and the removed owner joins again, the group has two owners.\<close>
lemma group_gets_two_owners:
  "count_where (is_owner 1) (db_memberships (run_all (map (\<lambda>oper. (run_membership_op 3 None oper, []))
     [OpRemoveMember 1 2, OpTransferOwnership 1 2, OpJoin ''abc'' 1, OpApproveJoin 1 1 2]) example_premium_db)) = 2"
  by code_simp

end
