(* ===== verification/Responses.thy ===== *)
theory Responses
  imports Domain
begin

text \<open>
  HTTP responses: what the sources use of \<^verbatim>\<open>net/http\<close>, the error envelope of
  \<^verbatim>\<open>internal/middleware/error_handling.go\<close> and the middleware that only touches the response.

  A handler acts on the interface \<^verbatim>\<open>http.ResponseWriter\<close>; it is the list of its calls on it, so that the same
  handler can run on the connection and on a writer that wraps it. A handler that panics is the list of its calls up
  to the panic and a flag.
\<close>

type_synonym header = "string \<Rightarrow> string list"

datatype wcall = HeaderSet string string | HeaderAdd string string | WriteHeader int | Write string

text \<open>The writer of the server: the header map, the final status with the header sent with it, and the body.\<close>
record response_writer =
  rw_header :: header
  rw_status :: "int option"
  rw_sent :: header
  rw_body :: string

definition new_response :: "response_writer" where
  "new_response = \<lparr>rw_header = (\<lambda>_. []), rw_status = None, rw_sent = (\<lambda>_. []), rw_body = []\<rparr>"

text \<open>A status of the 1xx class other than 101 is sent ahead of the response and does not end the header.\<close>
definition informational :: "int \<Rightarrow> bool" where
  "informational code \<longleftrightarrow> 100 \<le> code \<and> code \<le> 199 \<and> code \<noteq> 101"

definition bodyAllowedForStatus :: "int \<Rightarrow> bool" where
  "bodyAllowedForStatus status \<longleftrightarrow> \<not> (100 \<le> status \<and> status \<le> 199) \<and> status \<noteq> 204 \<and> status \<noteq> 304"

definition rw_WriteHeader :: "int \<Rightarrow> response_writer \<Rightarrow> response_writer" where
  "rw_WriteHeader code w = (if rw_status w \<noteq> None \<or> informational code then w else w\<lparr>rw_status := Some code, rw_sent := rw_header w\<rparr>)"

definition rw_Write :: "string \<Rightarrow> response_writer \<Rightarrow> response_writer" where
  "rw_Write b w = (let w = rw_WriteHeader 200 w in
     if bodyAllowedForStatus (the (rw_status w)) then w\<lparr>rw_body := rw_body w @ b\<rparr> else w)"

fun rw_call :: "wcall \<Rightarrow> response_writer \<Rightarrow> response_writer" where
  "rw_call (HeaderSet k v) w = w\<lparr>rw_header := (rw_header w)(k := [v])\<rparr>"
| "rw_call (HeaderAdd k v) w = w\<lparr>rw_header := (rw_header w)(k := rw_header w k @ [v])\<rparr>"
| "rw_call (WriteHeader code) w = rw_WriteHeader code w"
| "rw_call (Write b) w = rw_Write b w"

definition serve :: "wcall list \<Rightarrow> response_writer \<Rightarrow> response_writer" where
  "serve calls w = fold rw_call calls w"

text \<open>The server sends the header when a handler returns without having done so.\<close>
definition finishRequest :: "response_writer \<Rightarrow> response_writer" where
  "finishRequest w = rw_WriteHeader 200 w"

section \<open>Error responses\<close>

fun code_string :: "Code \<Rightarrow> string" where
  "code_string CodeNotFound = ''NOT_FOUND''"
| "code_string CodeUnauthorised = ''UNAUTHORISED''"
| "code_string CodeForbidden = ''FORBIDDEN''"
| "code_string CodeConflict = ''CONFLICT''"
| "code_string CodeValidation = ''VALIDATION''"
| "code_string CodeRequestBodyTooLarge = ''REQUEST_BODY_TOO_LARGE''"
| "code_string CodeBadRequest = ''BAD_REQUEST''"
| "code_string CodeInternal = ''INTERNAL''"
| "code_string CodeRateLimited = ''RATE_LIMITED''"
| "code_string CodeServiceUnavailable = ''SERVICE_UNAVAILABLE''"
| "code_string CodeUpstreamError = ''UPSTREAM_ERROR''"
| "code_string CodeSessionExpired = ''SESSION_EXPIRED''"
| "code_string CodeSessionRevoked = ''SESSION_REVOKED''"

definition ErrorAPIVersion :: int where "ErrorAPIVersion = 1"
definition MsgInternal :: string where "MsgInternal = ''an unexpected error occurred; please try again later''"
definition MsgRequestBodyTooLarge :: string where "MsgRequestBodyTooLarge = ''request body exceeds the maximum allowed size''"

text \<open>The message the constructors store.\<close>
fun error_message :: "app_error \<Rightarrow> string" where
  "error_message (NotFound msg) = msg"
| "error_message (Unauthorised msg) = msg"
| "error_message (Forbidden msg) = msg"
| "error_message (Conflict msg) = msg"
| "error_message (Validation msg) = msg"
| "error_message RequestBodyTooLarge = MsgRequestBodyTooLarge"
| "error_message (BadRequest msg) = msg"
| "error_message (Internal _) = MsgInternal"
| "error_message (RateLimited msg) = msg"
| "error_message (Unavailable msg) = msg"
| "error_message (UpstreamError msg _) = msg"
| "error_message (SessionExpired msg) = msg"
| "error_message (SessionRevoked msg) = msg"
| "error_message (Raw _) = MsgInternal"

text \<open>
  A JSON string as \<^verbatim>\<open>encoding/json\<close> writes it, with the characters of HTML escaped. A byte above the ASCII range
  is copied, which is what the package does with valid UTF-8.
\<close>
definition hex_digit :: "nat \<Rightarrow> char" where
  "hex_digit d = (if d < 10 then digit_char d else char_of (87 + d))"

definition json_char :: "char \<Rightarrow> string" where
  "json_char c = (let n = (of_char c :: nat) in
     if n = 34 \<or> n = 92 then [CHR 0x5C, c]
     else if n = 8 then [CHR 0x5C, CHR ''b''] else if n = 12 then [CHR 0x5C, CHR ''f'']
     else if n = 10 then [CHR 0x5C, CHR ''n''] else if n = 13 then [CHR 0x5C, CHR ''r''] else if n = 9 then [CHR 0x5C, CHR ''t'']
     else if n < 32 \<or> c = CHR ''<'' \<or> c = CHR ''>'' \<or> c = CHR ''&''
       then [CHR 0x5C, CHR ''u'', CHR ''0'', CHR ''0'', hex_digit (n div 16), hex_digit (n mod 16)]
     else [c])"

definition json_string :: "string \<Rightarrow> string" where
  "json_string s = [CHR 0x22] @ concat (map json_char s) @ [CHR 0x22]"

record ErrorDetail =
  ed_SchemaVersion :: int
  ed_Code :: string
  ed_Message :: string

definition encode_error :: "ErrorDetail \<Rightarrow> string" where
  "encode_error d = ''{'' @ json_string ''error'' @ '':{'' @ json_string ''schema_version'' @ '':'' @ Itoa (ed_SchemaVersion d) @ '',''
     @ json_string ''code'' @ '':'' @ json_string (ed_Code d) @ '',''
     @ json_string ''message'' @ '':'' @ json_string (ed_Message d) @ ''}}'' @ [CHR 0x0A]"

definition WriteJSON :: "int \<Rightarrow> string \<Rightarrow> wcall list" where
  "WriteJSON status body = [HeaderSet ''Content-Type'' ''application/json; charset=utf-8'', WriteHeader status, Write body]"

text \<open>An error that no constructor of \<^verbatim>\<open>apperrors\<close> built is answered as an internal one.\<close>
definition WriteError :: "app_error \<Rightarrow> wcall list" where
  "WriteError err = (case (HTTPStatus err, error_code err) of
     (Some status, Some code) \<Rightarrow> WriteJSON status (encode_error \<lparr>ed_SchemaVersion = ErrorAPIVersion, ed_Code = code_string code, ed_Message = error_message err\<rparr>)
   | _ \<Rightarrow> WriteJSON 500 (encode_error \<lparr>ed_SchemaVersion = ErrorAPIVersion, ed_Code = code_string CodeInternal, ed_Message = MsgInternal\<rparr>))"

section \<open>Middleware on the response\<close>

definition SecurityHeaders :: "wcall list \<Rightarrow> wcall list" where
  "SecurityHeaders next =
     [HeaderSet ''Strict-Transport-Security'' ''max-age=31536000; includeSubDomains'',
      HeaderSet ''X-Content-Type-Options'' ''nosniff'',
      HeaderSet ''X-Frame-Options'' ''DENY'',
      HeaderSet ''Referrer-Policy'' ''strict-origin-when-cross-origin'',
      HeaderSet ''Content-Security-Policy'' (''default-src '' @ [CHR 0x27] @ ''none'' @ [CHR 0x27])] @ next"

definition VersionHeader :: "string \<Rightarrow> wcall list \<Rightarrow> wcall list" where
  "VersionHeader version next = HeaderSet ''API-Version'' version # next"

text \<open>\<^verbatim>\<open>Recover\<close>: after a panic the error envelope is written behind what the handler wrote.\<close>
definition Recover :: "wcall list \<times> bool \<Rightarrow> wcall list" where
  "Recover next = (case next of (calls, panicked) \<Rightarrow>
     if panicked then calls @ WriteJSON 500 (encode_error \<lparr>ed_SchemaVersion = ErrorAPIVersion, ed_Code = code_string CodeInternal, ed_Message = MsgInternal\<rparr>)
     else calls)"

section \<open>Properties\<close>

lemma serve_simps [simp]: "serve [] w = w" "serve (c # cs) w = serve cs (rw_call c w)"
  by (simp_all add: serve_def)

lemma serve_append [simp]: "serve (xs @ ys) w = serve ys (serve xs w)"
  by (simp add: serve_def)

lemma rw_call_status: "rw_status w \<noteq> None \<Longrightarrow> rw_status (rw_call c w) = rw_status w \<and> rw_sent (rw_call c w) = rw_sent w"
  by (cases c) (auto simp: rw_WriteHeader_def rw_Write_def Let_def)

text \<open>The status and the header that were sent stay.\<close>
lemma serve_status: "rw_status w \<noteq> None \<Longrightarrow> rw_status (serve cs w) = rw_status w \<and> rw_sent (serve cs w) = rw_sent w"
  by (induction cs arbitrary: w) (use rw_call_status in \<open>auto simp del: not_None_eq\<close>)

lemma HTTPStatus_error: "HTTPStatus err = Some c \<Longrightarrow> 400 \<le> c \<and> c < 600"
  by (cases err) auto

text \<open>The response of an error on a fresh writer carries the status of the error, 500 for a foreign one.\<close>
lemma WriteError_status:
  assumes "rw_status w = None"
  shows "rw_status (serve (WriteError err) w) = Some (case HTTPStatus err of Some c \<Rightarrow> c | None \<Rightarrow> 500)"
  using assms by (cases err) (simp_all add: WriteError_def WriteJSON_def rw_WriteHeader_def rw_Write_def informational_def Let_def)

text \<open>The cause of an internal or upstream error has no influence on the response.\<close>
lemma WriteError_hides_cause:
  "WriteError (Internal e) = WriteError (Internal e')" "WriteError (UpstreamError m e) = WriteError (UpstreamError m e')"
  "WriteError (Raw e) = WriteError (Internal e')"
  by (simp_all add: WriteError_def)

text \<open>A panic after the response was begun cannot turn it into an error.\<close>
lemma late_panic_keeps_status:
  assumes "rw_status (serve calls w) = Some c"
  shows "rw_status (serve (Recover (calls, True)) w) = Some c"
  using assms serve_status [of "serve calls w"] by (simp add: Recover_def)

end
