(* ===== verification/Idempotency.thy ===== *)
theory Idempotency
  imports Responses
begin

text \<open>
  Idempotency keys: the store of \<^verbatim>\<open>pkg/idempotency\<close> and the middleware of
  \<^verbatim>\<open>internal/middleware/idempotency.go\<close> in front of the payment endpoints.

  \<^item> \<open>captureWriter\<close> records a response while it goes to the wire; \<open>replayResponse\<close> writes a recorded one.
  \<^item> \<open>Store\<close> is the interface with its four operations; \<open>MemoryStore\<close> is the implementation in this repository that keeps the entries
    itself. The one over Redis only forwards to its client.
  \<^item> \<open>serve_phase\<close> is one atomic action of the middleware for one request, \<open>serveIdempotent\<close> their sequence. Requests run
    concurrently, so a run of the system is any interleaving of the actions of any number of requests (\<open>idem_step\<close>).
\<close>

section \<open>Recorded responses\<close>

record captureWriter =
  cw_ResponseWriter :: response_writer
  cw_statusCode :: int
  cw_buf :: string
  cw_capturedHeaders :: header
  cw_headerWritten :: bool

definition newCaptureWriter :: "response_writer \<Rightarrow> captureWriter" where
  "newCaptureWriter w = \<lparr>cw_ResponseWriter = w, cw_statusCode = 200, cw_buf = [], cw_capturedHeaders = (\<lambda>_. []), cw_headerWritten = False\<rparr>"

definition cw_WriteHeader :: "int \<Rightarrow> captureWriter \<Rightarrow> captureWriter" where
  "cw_WriteHeader code c = (if cw_headerWritten c then c
     else c\<lparr>cw_headerWritten := True, cw_statusCode := code, cw_capturedHeaders := rw_header (cw_ResponseWriter c),
            cw_ResponseWriter := rw_WriteHeader code (cw_ResponseWriter c)\<rparr>)"

definition cw_Write :: "string \<Rightarrow> captureWriter \<Rightarrow> captureWriter" where
  "cw_Write b c = (let c = (if cw_headerWritten c then c else cw_WriteHeader 200 c) in
     c\<lparr>cw_buf := cw_buf c @ b, cw_ResponseWriter := rw_Write b (cw_ResponseWriter c)\<rparr>)"

text \<open>A call on the embedded writer, with the two methods that are overridden.\<close>
fun cw_call :: "wcall \<Rightarrow> captureWriter \<Rightarrow> captureWriter" where
  "cw_call (WriteHeader code) c = cw_WriteHeader code c"
| "cw_call (Write b) c = cw_Write b c"
| "cw_call call c = c\<lparr>cw_ResponseWriter := rw_call call (cw_ResponseWriter c)\<rparr>"

definition capture :: "wcall list \<Rightarrow> response_writer \<Rightarrow> captureWriter" where
  "capture calls w = fold cw_call calls (newCaptureWriter w)"

datatype EntryState = InFlight | Committed

record Entry =
  e_State :: EntryState
  e_StatusCode :: int
  e_Headers :: header
  e_Body :: string

definition idempotencyHeader :: string where "idempotencyHeader = ''Idempotency-Key''"

definition replayResponse :: "string \<Rightarrow> Entry \<Rightarrow> response_writer \<Rightarrow> response_writer" where
  "replayResponse clientKey e w = serve
     [HeaderSet idempotencyHeader clientKey, HeaderSet ''X-Idempotency-Replayed'' ''true'', WriteHeader (e_StatusCode e), Write (e_Body e)]
     (w\<lparr>rw_header := (\<lambda>k. rw_header w k @ e_Headers e k)\<rparr>)"

definition successful :: "captureWriter \<Rightarrow> bool" where
  "successful cw \<longleftrightarrow> cw_statusCode cw \<ge> 200 \<and> cw_statusCode cw < 300"

definition committed :: "captureWriter \<Rightarrow> Entry" where
  "committed cw = \<lparr>e_State = Committed, e_StatusCode = cw_statusCode cw, e_Headers = cw_capturedHeaders cw, e_Body = cw_buf cw\<rparr>"

section \<open>Stores\<close>

record 's Store =
  Load :: "time \<Rightarrow> string \<Rightarrow> 's \<Rightarrow> (go_error + Entry option) \<times> 's"
  Reserve :: "time \<Rightarrow> string \<Rightarrow> duration \<Rightarrow> 's \<Rightarrow> (go_error + bool) \<times> 's"
  Commit :: "time \<Rightarrow> string \<Rightarrow> Entry \<Rightarrow> duration \<Rightarrow> 's \<Rightarrow> (go_error + unit) \<times> 's"
  Release :: "time \<Rightarrow> string \<Rightarrow> 's \<Rightarrow> (go_error + unit) \<times> 's"

definition in_flight :: Entry where
  "in_flight = \<lparr>e_State = InFlight, e_StatusCode = 0, e_Headers = (\<lambda>_. []), e_Body = []\<rparr>"

record memEntry =
  me_Entry :: Entry
  me_expiresAt :: time

type_synonym MemoryStore = "string \<rightharpoonup> memEntry"

definition NewMemoryStore :: MemoryStore where "NewMemoryStore = Map.empty"

definition mem_Load :: "time \<Rightarrow> string \<Rightarrow> MemoryStore \<Rightarrow> (go_error + Entry option) \<times> MemoryStore" where
  "mem_Load now key s = (case s key of
     None \<Rightarrow> (Inr None, s(key := None))
   | Some e \<Rightarrow> if now > me_expiresAt e then (Inr None, s(key := None)) else (Inr (Some (me_Entry e)), s))"

definition mem_Reserve :: "time \<Rightarrow> string \<Rightarrow> duration \<Rightarrow> MemoryStore \<Rightarrow> (go_error + bool) \<times> MemoryStore" where
  "mem_Reserve now key ttl s =
    (if (case s key of Some e \<Rightarrow> \<not> now > me_expiresAt e | None \<Rightarrow> False) then (Inr False, s)
     else (Inr True, s(key \<mapsto> \<lparr>me_Entry = in_flight, me_expiresAt = now + ttl\<rparr>)))"

definition mem_Commit :: "time \<Rightarrow> string \<Rightarrow> Entry \<Rightarrow> duration \<Rightarrow> MemoryStore \<Rightarrow> (go_error + unit) \<times> MemoryStore" where
  "mem_Commit now key e ttl s = (Inr (), s(key \<mapsto> \<lparr>me_Entry = e, me_expiresAt = now + ttl\<rparr>))"

definition mem_Release :: "time \<Rightarrow> string \<Rightarrow> MemoryStore \<Rightarrow> (go_error + unit) \<times> MemoryStore" where
  "mem_Release now key s = (Inr (), s(key := None))"

definition memory_store :: "MemoryStore Store" where
  "memory_store = \<lparr>Load = mem_Load, Reserve = mem_Reserve, Commit = mem_Commit, Release = mem_Release\<rparr>"

section \<open>The middleware\<close>

record 's idemConfig =
  ic_store :: "'s Store"
  ic_ttl :: duration
  ic_keyMaxLen :: int

text \<open>The subject of the session, the header of the client and the writer the middleware is given.\<close>
record idem_request =
  rq_subject :: string
  rq_clientKey :: string
  rq_writer :: response_writer

definition scopedKey :: "idem_request \<Rightarrow> string" where
  "scopedKey rq = ''idem:'' @ rq_subject rq @ '':'' @ rq_clientKey rq"

text \<open>
  Where a request stands. \<open>Arrived\<close>, \<open>Missed\<close>, \<open>Claimed\<close> and \<open>Ran\<close> are before \<^verbatim>\<open>Load\<close>, before \<^verbatim>\<open>Reserve\<close>, before the handler and
  before \<^verbatim>\<open>commitOrRelease\<close>; \<open>Passing\<close> is before the handler of a request that the middleware lets through; the others are the
  ends of a request.
\<close>
datatype phase =
    Arrived | Missed | Claimed | Ran captureWriter | Passing
  | Refused app_error response_writer
  | Replayed Entry response_writer
  | Finished captureWriter
  | Passed response_writer
  | Panicked captureWriter

definition refuse :: "app_error \<Rightarrow> idem_request \<Rightarrow> phase" where
  "refuse err rq = Refused err (serve (WriteError err) (rq_writer rq))"

definition in_progress :: app_error where
  "in_progress = Conflict ''a request with this Idempotency-Key is already in progress; retry after it completes''"

definition handleExistingEntry :: "idem_request \<Rightarrow> Entry \<Rightarrow> phase" where
  "handleExistingEntry rq entry = (case e_State entry of
     InFlight \<Rightarrow> refuse in_progress rq
   | Committed \<Rightarrow> Replayed entry (replayResponse (rq_clientKey rq) entry (rq_writer rq)))"

definition serve_load :: "'s idemConfig \<Rightarrow> time \<Rightarrow> idem_request \<Rightarrow> 's \<Rightarrow> phase \<times> 's" where
  "serve_load cfg now rq s =
    (if rq_clientKey rq = [] then (Passing, s)
     else if int (length (rq_clientKey rq)) > ic_keyMaxLen cfg
       then (refuse (Validation (''Idempotency-Key must be at most '' @ Itoa (ic_keyMaxLen cfg) @ '' characters'')) rq, s)
     else case Load (ic_store cfg) now (scopedKey rq) s of (r, s) \<Rightarrow> (case r of
         Inl err \<Rightarrow> Passing
       | Inr (Some entry) \<Rightarrow> handleExistingEntry rq entry
       | Inr None \<Rightarrow> Missed, s))"

definition serve_reserve :: "'s idemConfig \<Rightarrow> time \<Rightarrow> idem_request \<Rightarrow> 's \<Rightarrow> phase \<times> 's" where
  "serve_reserve cfg now rq s = (case Reserve (ic_store cfg) now (scopedKey rq) (ic_ttl cfg) s of (r, s) \<Rightarrow> (case r of
       Inl err \<Rightarrow> Passing
     | Inr reserved \<Rightarrow> if reserved then Claimed else refuse in_progress rq, s))"

definition commitOrRelease :: "'s idemConfig \<Rightarrow> time \<Rightarrow> string \<Rightarrow> captureWriter \<Rightarrow> 's \<Rightarrow> 's" where
  "commitOrRelease cfg now key cw s =
    (if successful cw then snd (Commit (ic_store cfg) now key (committed cw) (ic_ttl cfg) s) else snd (Release (ic_store cfg) now key s))"

text \<open>One action of a request at a time; \<open>next\<close> is what the handler does, if the action is to run it.\<close>
fun serve_phase :: "'s idemConfig \<Rightarrow> time \<Rightarrow> idem_request \<Rightarrow> wcall list \<times> bool \<Rightarrow> phase \<Rightarrow> 's \<Rightarrow> phase \<times> 's" where
  "serve_phase cfg now rq next Arrived s = serve_load cfg now rq s"
| "serve_phase cfg now rq next Missed s = serve_reserve cfg now rq s"
| "serve_phase cfg now rq (calls, panicked) Claimed s =
     (if panicked then Panicked (capture calls (rq_writer rq)) else Ran (capture calls (rq_writer rq)), s)"
| "serve_phase cfg now rq next (Ran cw) s = (Finished cw, commitOrRelease cfg now (scopedKey rq) cw s)"
| "serve_phase cfg now rq (calls, panicked) Passing s = (Passed (serve calls (rq_writer rq)), s)"
| "serve_phase cfg now rq next ph s = (ph, s)"

text \<open>The whole request, its actions at the given times.\<close>
definition serveIdempotent :: "'s idemConfig \<Rightarrow> (nat \<Rightarrow> time) \<Rightarrow> idem_request \<Rightarrow> wcall list \<times> bool \<Rightarrow> 's \<Rightarrow> phase \<times> 's" where
  "serveIdempotent cfg t rq next s = fold (\<lambda>i (ph, s). serve_phase cfg (t i) rq next ph s) [0..<4] (Arrived, s)"

section \<open>Concurrent requests\<close>

text \<open>The clock, the store, the requests, and the responses of the handlers that succeeded under a reservation, newest first.\<close>
record 's idem_sys =
  sy_now :: time
  sy_store :: 's
  sy_reqs :: "nat \<rightharpoonup> idem_request \<times> phase"
  sy_log :: "(string \<times> Entry) list"

definition log_run :: "idem_request \<Rightarrow> phase \<Rightarrow> (string \<times> Entry) list \<Rightarrow> (string \<times> Entry) list" where
  "log_run rq ph log = (case ph of Ran cw \<Rightarrow> if successful cw then (scopedKey rq, committed cw) # log else log | _ \<Rightarrow> log)"

inductive idem_step :: "'s idemConfig \<Rightarrow> 's idem_sys \<Rightarrow> 's idem_sys \<Rightarrow> bool" for cfg where
  wait: "0 \<le> d \<Longrightarrow> idem_step cfg s (s\<lparr>sy_now := sy_now s + d\<rparr>)"
| arrive: "sy_reqs s i = None \<Longrightarrow> idem_step cfg s (s\<lparr>sy_reqs := (sy_reqs s)(i \<mapsto> (rq, Arrived))\<rparr>)"
| act: "sy_reqs s i = Some (rq, ph) \<Longrightarrow> serve_phase cfg (sy_now s) rq next ph (sy_store s) = (ph', st') \<Longrightarrow>
    idem_step cfg s (s\<lparr>sy_store := st', sy_reqs := (sy_reqs s)(i \<mapsto> (rq, ph')), sy_log := log_run rq ph' (sy_log s)\<rparr>)"

inductive_cases idem_stepE: "idem_step cfg s s'"

definition idem_init :: "'s \<Rightarrow> time \<Rightarrow> 's idem_sys" where
  "idem_init st t = \<lparr>sy_now = t, sy_store = st, sy_reqs = Map.empty, sy_log = []\<rparr>"

section \<open>Recording and replaying\<close>

definition no_informational :: "wcall list \<Rightarrow> bool" where
  "no_informational calls \<longleftrightarrow> list_all (\<lambda>c. case c of WriteHeader code \<Rightarrow> \<not> informational code | _ \<Rightarrow> True) calls"

text \<open>What the recording writer knows of the writer it wraps.\<close>
definition faithful :: "captureWriter \<Rightarrow> bool" where
  "faithful c \<longleftrightarrow> (case rw_status (cw_ResponseWriter c) of
      None \<Rightarrow> \<not> cw_headerWritten c \<and> cw_statusCode c = 200 \<and> cw_buf c = [] \<and> rw_body (cw_ResponseWriter c) = []
    | Some code \<Rightarrow> cw_headerWritten c \<and> cw_statusCode c = code \<and> cw_capturedHeaders c = rw_sent (cw_ResponseWriter c)
        \<and> rw_body (cw_ResponseWriter c) = (if bodyAllowedForStatus code then cw_buf c else []))"

lemma informational_200 [simp]: "\<not> informational 200"
  by (simp add: informational_def)

lemma bodyAllowed_200 [simp]: "bodyAllowedForStatus 200"
  by (simp add: bodyAllowedForStatus_def)

lemmas writer_defs = cw_WriteHeader_def cw_Write_def rw_WriteHeader_def rw_Write_def Let_def

lemma faithful_call:
  assumes "faithful c" "no_informational [call]"
  shows "faithful (cw_call call c) \<and> cw_ResponseWriter (cw_call call c) = rw_call call (cw_ResponseWriter c)"
proof (cases "rw_status (cw_ResponseWriter c)")
  case None
  then show ?thesis using assms by (cases call) (simp_all add: faithful_def no_informational_def writer_defs)
next
  case (Some code)
  then show ?thesis using assms by (cases call) (simp_all add: faithful_def no_informational_def writer_defs)
qed

lemma faithful_calls:
  assumes "faithful c" "no_informational calls"
  shows "faithful (fold cw_call calls c) \<and> cw_ResponseWriter (fold cw_call calls c) = serve calls (cw_ResponseWriter c)"
  using assms
proof (induction calls arbitrary: c)
  case (Cons call calls)
  then have "faithful (cw_call call c) \<and> cw_ResponseWriter (cw_call call c) = rw_call call (cw_ResponseWriter c)"
    by (intro faithful_call) (simp_all add: no_informational_def)
  then show ?case using Cons.IH [of "cw_call call c"] Cons.prems(2) by (simp add: no_informational_def)
qed simp

lemma capture_faithful:
  assumes "rw_status w = None" "rw_body w = []" "no_informational calls"
  shows "faithful (capture calls w)" "cw_ResponseWriter (capture calls w) = serve calls w"
proof -
  have "faithful (newCaptureWriter w)" using assms by (simp add: newCaptureWriter_def faithful_def)
  then show "faithful (capture calls w)" "cw_ResponseWriter (capture calls w) = serve calls w"
    using faithful_calls [of "newCaptureWriter w" calls] assms(3) by (simp_all add: capture_def newCaptureWriter_def)
qed

lemma replayResponse_parts:
  assumes "rw_status w = None" "rw_body w = []" "\<not> informational (e_StatusCode e)"
  shows "rw_status (replayResponse key e w) = Some (e_StatusCode e)"
    and "rw_body (replayResponse key e w) = (if bodyAllowedForStatus (e_StatusCode e) then e_Body e else [])"
    and "rw_sent (replayResponse key e w) =
      (\<lambda>k. rw_header w k @ e_Headers e k)(idempotencyHeader := [key], ''X-Idempotency-Replayed'' := [''true''])"
  using assms by (simp_all add: replayResponse_def writer_defs)

lemma serve_status_not_informational:
  assumes "no_informational calls" "rw_status w = None \<or> \<not> informational (the (rw_status w))"
  shows "rw_status (serve calls w) = None \<or> \<not> informational (the (rw_status (serve calls w)))"
  using assms
proof (induction calls arbitrary: w)
  case (Cons call calls)
  then have "rw_status (rw_call call w) = None \<or> \<not> informational (the (rw_status (rw_call call w)))"
    by (cases call) (auto simp: no_informational_def writer_defs)
  then show ?case using Cons.IH [of "rw_call call w"] Cons.prems(1) by (simp add: no_informational_def)
qed simp

text \<open>
  C40: a replayed response repeats the recorded one. While a handler runs on the recording writer the client gets exactly what the
  handler writes; and the entry recorded of it, replayed to a later request, gives that request the same status and the same body, and for every header other than the two
  the replay sets itself what the writer of the later request already held followed by what was sent before.
\<close>
theorem replay_repeats_response:
  assumes w: "rw_status w = None" "rw_body w = []" and w': "rw_status w' = None" "rw_body w' = []"
    and calls: "no_informational calls"
  shows "let cw = capture calls w; r = finishRequest (serve calls w); r' = finishRequest (replayResponse key (committed cw) w') in
      cw_ResponseWriter cw = serve calls w \<and> rw_status r' = rw_status r \<and> rw_body r' = rw_body r
      \<and> rw_sent r' idempotencyHeader = [key] \<and> rw_sent r' ''X-Idempotency-Replayed'' = [''true'']
      \<and> (rw_status (serve calls w) \<noteq> None \<longrightarrow> (\<forall>k. k = idempotencyHeader \<or> k = ''X-Idempotency-Replayed'' \<or> rw_sent r' k = rw_header w' k @ rw_sent r k))"
proof -
  define cw where "cw = capture calls w"
  have f: "faithful cw" "cw_ResponseWriter cw = serve calls w" unfolding cw_def by (rule capture_faithful [OF w calls])+
  have st: "\<not> informational (cw_statusCode cw)"
    using f serve_status_not_informational [OF calls, of w] w by (auto simp: faithful_def split: option.splits)
  note p = replayResponse_parts [OF w', of "committed cw" key]
  have r': "finishRequest (replayResponse key (committed cw) w') = replayResponse key (committed cw) w'"
    using p(1) st by (simp add: finishRequest_def rw_WriteHeader_def committed_def)
  show ?thesis
    using f p st unfolding cw_def [symmetric] Let_def r'
    by (auto simp: committed_def finishRequest_def faithful_def rw_WriteHeader_def idempotencyHeader_def split: option.splits)
qed

theorem replay_repeats_response_witness:
  "let w = serve (SecurityHeaders []) new_response; calls = WriteJSON 201 ''{}''; cw = capture calls w;
       r' = finishRequest (replayResponse ''k1'' (committed cw) w) in
     rw_status r' = Some 201 \<and> rw_body r' = ''{}'' \<and> rw_sent r' ''X-Idempotency-Replayed'' = [''true'']"
proof -
  obtain w calls where w: "w = serve (SecurityHeaders []) new_response" and calls: "calls = WriteJSON 201 ''{}''" by simp
  have hyps: "rw_status w = None" "rw_body w = []" "no_informational calls" unfolding w calls by code_simp+
  have res: "rw_status (finishRequest (serve calls w)) = Some 201" "rw_body (finishRequest (serve calls w)) = ''{}''"
    unfolding w calls by code_simp+
  show ?thesis using replay_repeats_response [OF hyps(1,2,1,2,3), of "''k1''"] res unfolding w [symmetric] calls [symmetric] Let_def by simp
qed

text \<open>
  The recorded header holds what the middleware outside wrote, and the replay adds it to what the same middleware has written for the later
  request: each of those headers goes out twice.
\<close>
lemma replay_doubles_outer_headers:
  "rw_sent (replayResponse key (committed (capture (WriteJSON 201 body) (serve (SecurityHeaders []) new_response))) (serve (SecurityHeaders []) new_response))
     ''X-Frame-Options'' = [''DENY'', ''DENY'']"
  by (simp add: replayResponse_def committed_def capture_def newCaptureWriter_def WriteJSON_def SecurityHeaders_def new_response_def writer_defs
      informational_def idempotencyHeader_def)

text \<open>Users do not share keys: the subject of a session has no colon.\<close>
lemma scopedKey_inject:
  assumes "CHR '':'' \<notin> set (rq_subject rq)" "CHR '':'' \<notin> set (rq_subject rq')" "scopedKey rq = scopedKey rq'"
  shows "rq_subject rq = rq_subject rq' \<and> rq_clientKey rq = rq_clientKey rq'"
proof -
  have split: "takeWhile (\<lambda>c. c \<noteq> CHR '':'') (x @ '':'' @ y) = x" if "CHR '':'' \<notin> set x" for x y :: string
    using that by (induction x) auto
  have eq: "rq_subject rq @ '':'' @ rq_clientKey rq = rq_subject rq' @ '':'' @ rq_clientKey rq'" using assms(3) by (simp add: scopedKey_def)
  then have "rq_subject rq = rq_subject rq'" using split [OF assms(1)] split [OF assms(2)] by metis
  then show ?thesis using eq by simp
qed

section \<open>One execution per key\<close>

text \<open>
  What a store promises, in terms of the entry \<open>look s t k\<close> a state shows at a time for a key: the laws of the interface
  \<^verbatim>\<open>Store\<close> for operations that do not fail.
\<close>
locale idem_store =
  fixes st :: "'s Store" and look :: "'s \<Rightarrow> time \<Rightarrow> string \<Rightarrow> Entry option"
  assumes load_result: "fst (Load st now k s) = Inr (look s now k)"
    and load_keeps: "now \<le> t \<Longrightarrow> look (snd (Load st now k s)) t k' = look s t k'"
    and reserve_result: "fst (Reserve st now k ttl s) = Inr (look s now k = None)"
    and reserve_claims: "look s now k = None \<Longrightarrow> now \<le> t \<Longrightarrow> t \<le> now + ttl \<Longrightarrow> look (snd (Reserve st now k ttl s)) t k = Some in_flight"
    and reserve_refused: "look s now k \<noteq> None \<Longrightarrow> look (snd (Reserve st now k ttl s)) t k = look s t k"
    and reserve_others: "k' \<noteq> k \<Longrightarrow> look (snd (Reserve st now k ttl s)) t k' = look s t k'"
    and commit_stores: "now \<le> t \<Longrightarrow> t \<le> now + ttl \<Longrightarrow> look (snd (Commit st now k e ttl s)) t k = Some e"
    and commit_others: "k' \<noteq> k \<Longrightarrow> look (snd (Commit st now k e ttl s)) t k' = look s t k'"
    and release_frees: "look (snd (Release st now k s)) t k = None"
    and release_others: "k' \<noteq> k \<Longrightarrow> look (snd (Release st now k s)) t k' = look s t k'"

text \<open>The abstract life of a key: free, held by one request, or storing the response of the one execution that succeeded.\<close>
datatype slot = Free | Held nat | Stored Entry

fun holds_key :: "phase \<Rightarrow> bool" where
  "holds_key Claimed = True"
| "holds_key (Ran _) = True"
| "holds_key (Panicked _) = True"
| "holds_key _ = False"

definition holder :: "'s idem_sys \<Rightarrow> string \<Rightarrow> nat \<Rightarrow> bool" where
  "holder s k i \<longleftrightarrow> (case sy_reqs s i of Some (rq, ph) \<Rightarrow> scopedKey rq = k \<and> holds_key ph | None \<Rightarrow> False)"

definition successes :: "string \<Rightarrow> (string \<times> Entry) list \<Rightarrow> Entry list" where
  "successes k log = map snd (filter (\<lambda>p. fst p = k) log)"

text \<open>The success of the request that holds a key, between its handler and its commit.\<close>
definition uncommitted :: "(idem_request \<times> phase) option \<Rightarrow> Entry list" where
  "uncommitted r = (case r of Some (rq, Ran cw) \<Rightarrow> if successful cw then [committed cw] else [] | _ \<Rightarrow> [])"

definition exhibits :: "('s \<Rightarrow> time \<Rightarrow> string \<Rightarrow> Entry option) \<Rightarrow> time \<Rightarrow> 's idem_sys \<Rightarrow> string \<Rightarrow> Entry option \<Rightarrow> bool" where
  "exhibits look H s k e \<longleftrightarrow> (\<forall>t. sy_now s \<le> t \<and> t \<le> H \<longrightarrow> look (sy_store s) t k = e)"

fun slot_ok :: "('s \<Rightarrow> time \<Rightarrow> string \<Rightarrow> Entry option) \<Rightarrow> time \<Rightarrow> 's idem_sys \<Rightarrow> string \<Rightarrow> slot \<Rightarrow> bool" where
  "slot_ok look H s k Free \<longleftrightarrow> (\<forall>i. \<not> holder s k i) \<and> exhibits look H s k None \<and> successes k (sy_log s) = []"
| "slot_ok look H s k (Held j) \<longleftrightarrow> (\<forall>i. holder s k i \<longleftrightarrow> i = j) \<and> exhibits look H s k (Some in_flight) \<and> successes k (sy_log s) = uncommitted (sy_reqs s j)"
| "slot_ok look H s k (Stored e) \<longleftrightarrow> (\<forall>i. \<not> holder s k i) \<and> exhibits look H s k (Some e) \<and> e_State e = Committed \<and> successes k (sy_log s) = [e]"

text \<open>What the end of a request tells about the log.\<close>
fun phase_ok :: "idem_request \<Rightarrow> phase \<Rightarrow> (string \<times> Entry) list \<Rightarrow> bool" where
  "phase_ok rq (Replayed e w) log \<longleftrightarrow> (scopedKey rq, e) \<in> set log"
| "phase_ok rq (Ran cw) log \<longleftrightarrow> (successful cw \<longrightarrow> (scopedKey rq, committed cw) \<in> set log)"
| "phase_ok rq (Finished cw) log \<longleftrightarrow> (successful cw \<longrightarrow> (scopedKey rq, committed cw) \<in> set log)"
| "phase_ok rq Passing log \<longleftrightarrow> rq_clientKey rq = []"
| "phase_ok rq (Passed w) log \<longleftrightarrow> rq_clientKey rq = []"
| "phase_ok rq _ log \<longleftrightarrow> True"

definition idem_inv :: "('s \<Rightarrow> time \<Rightarrow> string \<Rightarrow> Entry option) \<Rightarrow> duration \<Rightarrow> time \<Rightarrow> 's idem_sys \<Rightarrow> bool" where
  "idem_inv look ttl H s \<longleftrightarrow> H \<le> sy_now s + ttl \<and> (\<forall>k. \<exists>sl. slot_ok look H s k sl)
     \<and> (\<forall>i rq ph. sy_reqs s i = Some (rq, ph) \<longrightarrow> phase_ok rq ph (sy_log s))"

lemma idem_inv_parts:
  assumes "idem_inv look ttl H s"
  shows "\<exists>sl. slot_ok look H s k sl" "sy_reqs s i = Some (rq, ph) \<Longrightarrow> phase_ok rq ph (sy_log s)" "H \<le> sy_now s + ttl"
  using assms by (simp_all add: idem_inv_def)

lemma successes_mem: "e \<in> set (successes k log) \<longleftrightarrow> (k, e) \<in> set log"
  by (force simp: successes_def)

lemma successes_log_run:
  "successes k (log_run rq ph log) = (if k = scopedKey rq then uncommitted (Some (rq, ph)) else []) @ successes k log"
  by (simp add: log_run_def successes_def uncommitted_def split: phase.splits)

lemma log_run_grows: "set log \<subseteq> set (log_run rq ph log)"
  by (auto simp: log_run_def split: phase.splits)

lemma phase_ok_mono: "phase_ok rq ph log \<Longrightarrow> set log \<subseteq> set log' \<Longrightarrow> phase_ok rq ph log'"
  by (cases ph) auto

text \<open>A request that neither looks at the store nor holds its key leaves the store alone.\<close>
lemma idle_act:
  assumes "serve_phase cfg now rq next ph s = (ph', s')" "ph \<noteq> Arrived" "ph \<noteq> Missed" "\<not> holds_key ph"
  shows "\<not> holds_key ph' \<and> uncommitted (Some (rq, ph')) = [] \<and> s' = s"
  using assms by (cases ph; cases "next") (auto simp: uncommitted_def)

text \<open>A key keeps its slot when its entries, its holders and its successes stay.\<close>
lemma slot_ok_cong:
  assumes "slot_ok look H s k sl" "sy_now s \<le> sy_now s'"
    and "\<And>t. sy_now s' \<le> t \<Longrightarrow> look (sy_store s') t k = look (sy_store s) t k"
    and "\<And>i. holder s' k i = holder s k i" "successes k (sy_log s') = successes k (sy_log s)"
    and "\<And>i. holder s k i \<Longrightarrow> uncommitted (sy_reqs s' i) = uncommitted (sy_reqs s i)"
  shows "slot_ok look H s' k sl"
  using assms by (cases sl) (auto simp: exhibits_def)

lemma slots_distinct:
  assumes "\<And>k. length (successes k log) \<le> 1"
  shows "distinct (map fst log)"
  using assms
proof (induction log)
  case (Cons p log)
  have "length (successes k log) \<le> 1" for k
    using Cons.prems [of k] by (cases "fst p = k") (simp_all add: successes_def)
  moreover have "successes (fst p) log = []" using Cons.prems [of "fst p"] by (simp add: successes_def)
  then have "fst p \<notin> fst ` set log" by (auto simp: successes_def filter_empty_conv)
  ultimately show ?case using Cons.IH by simp
qed simp

context idem_store
begin

lemma act_others:
  assumes "serve_phase cfg now rq next ph s = (ph', s')" "ic_store cfg = st" "k \<noteq> scopedKey rq" "now \<le> t"
  shows "look s' t k = look s t k"
proof -
  note laws = load_keeps [OF assms(4)] reserve_others [OF assms(3)] commit_others [OF assms(3)] release_others [OF assms(3)]
  obtain calls panicked where "next = (calls, panicked)" by (cases "next")
  then show ?thesis using assms(1,2) laws
    by (cases ph) (auto simp: serve_load_def serve_reserve_def commitOrRelease_def prod.case_eq_if split: if_splits)
qed

lemma load_act:
  assumes "serve_phase cfg now rq next Arrived s = (ph', s')" "ic_store cfg = st"
  shows "\<not> holds_key ph'" "uncommitted (Some (rq, ph')) = []" "ph' \<noteq> Finished cw" "now \<le> t \<Longrightarrow> look s' t k = look s t k"
    "ph' = Passing \<Longrightarrow> rq_clientKey rq = []" "ph' = Replayed e w \<Longrightarrow> look s now (scopedKey rq) = Some e \<and> e_State e = Committed"
    "ph' \<noteq> Passed w"
  using assms load_result [of now "scopedKey rq" s] load_keeps [of now t "scopedKey rq" s k]
  by (auto simp: serve_load_def uncommitted_def handleExistingEntry_def refuse_def prod.case_eq_if split: if_splits option.splits EntryState.splits)

lemma reserve_act:
  assumes "serve_phase cfg now rq next Missed s = (ph', s')" "ic_store cfg = st"
  shows "if look s now (scopedKey rq) = None then ph' = Claimed \<and> (\<forall>t. now \<le> t \<and> t \<le> now + ic_ttl cfg \<longrightarrow> look s' t (scopedKey rq) = Some in_flight)
    else ph' = refuse in_progress rq \<and> (\<forall>t. look s' t (scopedKey rq) = look s t (scopedKey rq))"
  using assms reserve_result [of now "scopedKey rq" "ic_ttl cfg" s] reserve_claims [of s now "scopedKey rq" _ "ic_ttl cfg"]
    reserve_refused [of s now "scopedKey rq" "ic_ttl cfg"]
  by (auto simp: serve_reserve_def prod.case_eq_if)

text \<open>A step of a request moves the slot of its key.\<close>
lemma slot_act:
  assumes act: "serve_phase cfg (sy_now s) rq next ph (sy_store s) = (ph', st')" and cfg: "ic_store cfg = st"
    and r: "sy_reqs s i = Some (rq, ph)" and sl: "slot_ok look H s (scopedKey rq) sl"
    and H: "sy_now s \<le> H" "H \<le> sy_now s + ic_ttl cfg" and ok: "phase_ok rq ph (sy_log s)"
  defines "s' \<equiv> s\<lparr>sy_store := st', sy_reqs := (sy_reqs s)(i \<mapsto> (rq, ph')), sy_log := log_run rq ph' (sy_log s)\<rparr>"
  shows "\<exists>sl'. slot_ok look H s' (scopedKey rq) sl'"
proof -
  have sel: "sy_now s' = sy_now s" "sy_store s' = st'" "sy_reqs s' = (sy_reqs s)(i \<mapsto> (rq, ph'))" "sy_log s' = log_run rq ph' (sy_log s)"
    "\<And>k j. holder s' k j \<longleftrightarrow> (if j = i then scopedKey rq = k \<and> holds_key ph' else holder s k j)"
    by (simp_all add: s'_def holder_def)
  show ?thesis
  proof (cases "holds_key ph")
    case False
    have hold: "holder s (scopedKey rq) i = False" using r False by (simp add: holder_def)
    show ?thesis
    proof (cases "ph = Missed \<and> look (sy_store s) (sy_now s) (scopedKey rq) = None")
      case True
      then have ra: "ph' = Claimed" "\<forall>t. sy_now s \<le> t \<and> t \<le> sy_now s + ic_ttl cfg \<longrightarrow> look st' t (scopedKey rq) = Some in_flight"
        using reserve_act [of cfg "sy_now s" rq "next" "sy_store s" ph' st'] act cfg by simp_all
      have "sl = Free" using sl True H by (cases sl) (auto simp: exhibits_def)
      then have "slot_ok look H s' (scopedKey rq) (Held i)"
        using sl ra H by (auto simp: sel exhibits_def successes_log_run uncommitted_def)
      then show ?thesis by blast
    next
      case False
      have same: "\<not> holds_key ph' \<and> uncommitted (Some (rq, ph')) = [] \<and> (\<forall>t. sy_now s \<le> t \<longrightarrow> look st' t (scopedKey rq) = look (sy_store s) t (scopedKey rq))"
      proof (cases ph)
        case Arrived
        then show ?thesis using load_act [of cfg "sy_now s" rq "next" "sy_store s" ph' st'] act cfg by simp
      next
        case Missed
        then show ?thesis using reserve_act [of cfg "sy_now s" rq "next" "sy_store s" ph' st'] act cfg \<open>\<not> (ph = Missed \<and> _)\<close>
          by (auto simp: refuse_def uncommitted_def)
      qed (use idle_act [OF act] \<open>\<not> holds_key ph\<close> in simp_all)
      have "slot_ok look H s' (scopedKey rq) sl"
        by (rule slot_ok_cong [OF sl]) (use same hold in \<open>auto simp: sel successes_log_run\<close>)
      then show ?thesis by blast
    qed
  next
    case True
    then have "holder s (scopedKey rq) i" using r by (simp add: holder_def)
    then have "sl = Held i" using sl by (cases sl) auto
    note sl = sl [unfolded this]
    consider (claimed) "ph = Claimed" | (ran) cw where "ph = Ran cw" | (panicked) cw where "ph = Panicked cw"
      using True by (cases ph) auto
    then show ?thesis
    proof cases
      case claimed
      then have "holds_key ph'" "st' = sy_store s" using act by (cases "next"; auto)+
      then have "slot_ok look H s' (scopedKey rq) (Held i)"
        using sl r claimed by (auto simp: sel exhibits_def successes_log_run uncommitted_def)
      then show ?thesis by blast
    next
      case (ran cw)
      then have a: "ph' = Finished cw" "st' = commitOrRelease cfg (sy_now s) (scopedKey rq) cw (sy_store s)" using act by auto
      have "slot_ok look H s' (scopedKey rq) (if successful cw then Stored (committed cw) else Free)"
        using sl r ran a cfg H commit_stores release_frees
        by (auto simp: sel exhibits_def successes_log_run uncommitted_def commitOrRelease_def committed_def)
      then show ?thesis by blast
    next
      case (panicked cw)
      then have "ph' = ph" "st' = sy_store s" using act by auto
      then have "slot_ok look H s' (scopedKey rq) (Held i)"
        using sl r panicked by (auto simp: sel exhibits_def successes_log_run uncommitted_def)
      then show ?thesis by blast
    qed
  qed
qed

lemma phase_act:
  assumes act: "serve_phase cfg (sy_now s) rq next ph (sy_store s) = (ph', st')" and cfg: "ic_store cfg = st"
    and sl: "slot_ok look H s (scopedKey rq) sl" and H: "sy_now s \<le> H" and ok: "phase_ok rq ph (sy_log s)"
  shows "phase_ok rq ph' (log_run rq ph' (sy_log s))"
proof (cases ph)
  case Arrived
  note la = load_act [of cfg "sy_now s" rq "next" "sy_store s" ph' st', OF act [unfolded Arrived] cfg]
  have "(scopedKey rq, e) \<in> set (sy_log s)" if "ph' = Replayed e w" for e w
    using la(6) [OF that] sl H by (cases sl) (auto simp: exhibits_def in_flight_def successes_mem [symmetric])
  then show ?thesis using la(1,3,5,7) by (cases ph') (auto simp: log_run_def)
next
  case Missed
  then show ?thesis using reserve_act [of cfg "sy_now s" rq "next" "sy_store s" ph' st'] act cfg by (auto simp: refuse_def split: if_splits)
qed (use act ok in \<open>cases "next"; auto simp: log_run_def split: if_splits\<close>)+

lemma inv_step:
  assumes "idem_step cfg s s'" "ic_store cfg = st" "idem_inv look (ic_ttl cfg) H s" "sy_now s \<le> H"
  shows "idem_inv look (ic_ttl cfg) H s'"
  using assms(1)
proof cases
  case (wait d)
  have "\<exists>sl. slot_ok look H s' k sl" for k
  proof -
    obtain sl where "slot_ok look H s k sl" using idem_inv_parts(1) [OF assms(3)] by blast
    then have "slot_ok look H s' k sl" by (rule slot_ok_cong) (use wait in \<open>auto simp: holder_def\<close>)
    then show ?thesis ..
  qed
  then show ?thesis using assms(3) wait by (auto simp: idem_inv_def)
next
  case (arrive i rq)
  have "\<exists>sl. slot_ok look H s' k sl" for k
  proof -
    obtain sl where "slot_ok look H s k sl" using idem_inv_parts(1) [OF assms(3)] by blast
    then have "slot_ok look H s' k sl" by (rule slot_ok_cong) (use arrive in \<open>auto simp: holder_def\<close>)
    then show ?thesis ..
  qed
  then show ?thesis using assms(3) arrive by (auto simp: idem_inv_def)
next
  case (act i rq ph "next" ph' st')
  note act' = act(3)
  obtain sl where sl: "slot_ok look H s (scopedKey rq) sl" using idem_inv_parts(1) [OF assms(3)] by blast
  note ok = idem_inv_parts(2) [OF assms(3) act(2)] and H = idem_inv_parts(3) [OF assms(3)]
  have "\<exists>sl. slot_ok look H s' k sl" for k
  proof (cases "k = scopedKey rq")
    case True
    then show ?thesis using slot_act [OF act' assms(2) act(2) sl assms(4) H ok] act(1) by simp
  next
    case False
    obtain sl where "slot_ok look H s k sl" using idem_inv_parts(1) [OF assms(3)] by blast
    then have "slot_ok look H s' k sl"
      by (rule slot_ok_cong)
        (use act False act_others [OF act' assms(2) False] in \<open>auto simp: holder_def successes_log_run\<close>)
    then show ?thesis ..
  qed
  moreover have "phase_ok rq' p (sy_log s')" if "sy_reqs s' j = Some (rq', p)" for j rq' p
    using that act phase_act [OF act' assms(2) sl assms(4) ok] assms(3) phase_ok_mono [OF _ log_run_grows]
    by (auto simp: idem_inv_def split: if_splits)
  ultimately show ?thesis using H act(1) by (simp add: idem_inv_def)
qed

lemma idem_step_clock: "idem_step cfg s s' \<Longrightarrow> sy_now s \<le> sy_now s'"
  by (auto elim: idem_stepE)

lemma inv_reachable:
  assumes "(idem_step cfg)\<^sup>*\<^sup>* (idem_init s0 t0) s" "ic_store cfg = st" "\<And>t k. look s0 t k = None" "sy_now s \<le> t0 + ic_ttl cfg"
  shows "idem_inv look (ic_ttl cfg) (t0 + ic_ttl cfg) s"
  using assms(1,4)
proof (induction rule: rtranclp_induct)
  case base
  have "slot_ok look (t0 + ic_ttl cfg) (idem_init s0 t0) k Free" for k
    using assms(3) by (simp add: idem_init_def holder_def exhibits_def successes_def)
  then show ?case by (auto simp: idem_inv_def idem_init_def simp del: slot_ok.simps)
next
  case (step s s')
  then show ?case using inv_step [OF step(2) assms(2)] idem_step_clock [OF step(2)] by simp
qed

lemma once_per_key:
  assumes "(idem_step cfg)\<^sup>*\<^sup>* (idem_init s0 t0) s" "ic_store cfg = st" "\<And>t k. look s0 t k = None" "sy_now s \<le> t0 + ic_ttl cfg"
  shows "distinct (map fst (sy_log s))"
    and "holder s k i \<Longrightarrow> holder s k j \<Longrightarrow> i = j"
    and "sy_reqs s i = Some (rq, Claimed) \<Longrightarrow> scopedKey rq \<notin> fst ` set (sy_log s)"
    and "sy_reqs s i = Some (rq, ph) \<Longrightarrow> phase_ok rq ph (sy_log s)"
proof -
  have inv: "\<And>k. \<exists>sl. slot_ok look (t0 + ic_ttl cfg) s k sl" "\<And>i rq ph. sy_reqs s i = Some (rq, ph) \<Longrightarrow> phase_ok rq ph (sy_log s)"
    using inv_reachable [OF assms] by (auto simp: idem_inv_def)
  have "length (successes k (sy_log s)) \<le> 1" for k
    using inv(1) [of k] by (auto elim!: slot_ok.elims(2) simp: uncommitted_def split: option.splits phase.splits)
  then show "distinct (map fst (sy_log s))" by (rule slots_distinct)
  show "i = j" if "holder s k i" "holder s k j" using that inv(1) [of k] by (auto elim!: slot_ok.elims(2))
  show "scopedKey rq \<notin> fst ` set (sy_log s)" if r: "sy_reqs s i = Some (rq, Claimed)"
  proof -
    have "holder s (scopedKey rq) i" using r by (simp add: holder_def)
    then have "successes (scopedKey rq) (sy_log s) = []"
      using inv(1) [of "scopedKey rq"] r by (auto elim!: slot_ok.elims(2) simp: uncommitted_def)
    then show ?thesis by (auto simp: successes_def filter_empty_conv)
  qed
  show "phase_ok rq ph (sy_log s)" if "sy_reqs s i = Some (rq, ph)" using that by (rule inv(2))
qed

end

text \<open>The store in memory keeps the contract.\<close>
definition mem_look :: "MemoryStore \<Rightarrow> time \<Rightarrow> string \<Rightarrow> Entry option" where
  "mem_look s t k = (case s k of Some e \<Rightarrow> if t > me_expiresAt e then None else Some (me_Entry e) | None \<Rightarrow> None)"

interpretation ms: idem_store memory_store mem_look
  by unfold_locales
    (auto simp: memory_store_def mem_look_def mem_Load_def mem_Reserve_def mem_Commit_def mem_Release_def split: option.splits if_splits)


text \<open>Runs as lists of events, to compute with.\<close>
datatype event = Wait nat | Arrive nat idem_request | Act nat "wcall list \<times> bool"

fun happen :: "'s idemConfig \<Rightarrow> event \<Rightarrow> 's idem_sys \<Rightarrow> 's idem_sys" where
  "happen cfg (Wait d) s = s\<lparr>sy_now := sy_now s + int d\<rparr>"
| "happen cfg (Arrive i rq) s = (if sy_reqs s i = None then s\<lparr>sy_reqs := (sy_reqs s)(i \<mapsto> (rq, Arrived))\<rparr> else s)"
| "happen cfg (Act i next) s = (case sy_reqs s i of None \<Rightarrow> s | Some (rq, ph) \<Rightarrow>
     (case serve_phase cfg (sy_now s) rq next ph (sy_store s) of (ph', st') \<Rightarrow>
       s\<lparr>sy_store := st', sy_reqs := (sy_reqs s)(i \<mapsto> (rq, ph')), sy_log := log_run rq ph' (sy_log s)\<rparr>))"

lemma happen_steps: "(idem_step cfg)\<^sup>*\<^sup>* s (happen cfg ev s)"
proof (cases ev)
  case (Act i "next")
  show ?thesis
  proof (cases "sy_reqs s i")
    case (Some p)
    obtain rq ph where "p = (rq, ph)" by (cases p)
    moreover obtain ph' st' where "serve_phase cfg (sy_now s) rq next ph (sy_store s) = (ph', st')" by (cases "serve_phase cfg (sy_now s) rq next ph (sy_store s)")
    ultimately show ?thesis using Some Act idem_step.act [of s i rq ph cfg "next" ph' st'] by simp
  qed (simp add: Act)
qed (auto intro!: r_into_rtranclp idem_step.wait idem_step.arrive)

lemma happens: "(idem_step cfg)\<^sup>*\<^sup>* s (fold (happen cfg) evs s)"
  by (induction evs arbitrary: s) (auto intro: rtranclp_trans happen_steps)

definition witness_config :: "MemoryStore idemConfig" where
  "witness_config = \<lparr>ic_store = memory_store, ic_ttl = 100, ic_keyMaxLen = 64\<rparr>"

definition witness_request :: idem_request where
  "witness_request = \<lparr>rq_subject = ''user_1'', rq_clientKey = ''k1'', rq_writer = new_response\<rparr>"

text \<open>Two requests race for a key, the first is carried out, and a third one arrives later.\<close>
definition witness_run :: "event list" where
  "witness_run = [Arrive 0 witness_request, Arrive 1 witness_request, Act 0 ([], False), Act 1 ([], False), Act 1 ([], False), Act 0 ([], False),
     Wait 3, Act 1 (WriteJSON 201 ''{}'', False), Act 1 ([], False), Wait 5, Arrive 2 witness_request, Act 2 ([], False)]"


section \<open>Retries\<close>

lemma serveIdempotent_unfold:
  "serveIdempotent cfg t rq next s =
    (case serve_phase cfg (t 0) rq next Arrived s of (ph, s) \<Rightarrow> case serve_phase cfg (t 1) rq next ph s of (ph, s) \<Rightarrow>
     case serve_phase cfg (t 2) rq next ph s of (ph, s) \<Rightarrow> serve_phase cfg (t 3) rq next ph s)"
  by (simp add: serveIdempotent_def upt_rec eval_nat_numeral split: prod.splits)

text \<open>A key the middleware accepts.\<close>
definition usable_key :: "'s idemConfig \<Rightarrow> idem_request \<Rightarrow> bool" where
  "usable_key cfg rq \<longleftrightarrow> rq_clientKey rq \<noteq> [] \<and> int (length (rq_clientKey rq)) \<le> ic_keyMaxLen cfg"

text \<open>A request with a fresh key comes to its handler with the key reserved.\<close>
lemma fresh_key_claims:
  assumes "Load (ic_store cfg) = Load memory_store" "Reserve (ic_store cfg) = Reserve memory_store" "usable_key cfg rq" "mem_look s (t 0) (scopedKey rq) = None" "t 0 \<le> t 1"
  shows "\<exists>s2. (\<forall>nx. serveIdempotent cfg t rq nx s = (case serve_phase cfg (t 2) rq nx Claimed s2 of (ph, s) \<Rightarrow> serve_phase cfg (t 3) rq nx ph s))
    \<and> (\<forall>u. t 1 \<le> u \<longrightarrow> u \<le> t 1 + ic_ttl cfg \<longrightarrow> mem_look s2 u (scopedKey rq) = Some in_flight)"
proof -
  have none: "mem_look s (t 1) (scopedKey rq) = None" using assms(4,5) by (auto simp: mem_look_def split: option.splits if_splits)
  obtain s1 where s1: "Load memory_store (t 0) (scopedKey rq) s = (Inr None, s1)"
    using ms.load_result [of "t 0" "scopedKey rq" s] assms(4) by (metis prod.collapse)
  then have n1: "mem_look s1 (t 1) (scopedKey rq) = None" using ms.load_keeps [OF assms(5), of "scopedKey rq" s "scopedKey rq"] none by simp
  obtain s2 where s2: "Reserve memory_store (t 1) (scopedKey rq) (ic_ttl cfg) s1 = (Inr True, s2)"
    using ms.reserve_result [of "t 1" "scopedKey rq" "ic_ttl cfg" s1] n1 by (metis prod.collapse)
  have "serveIdempotent cfg t rq nx s = (case serve_phase cfg (t 2) rq nx Claimed s2 of (ph, s) \<Rightarrow> serve_phase cfg (t 3) rq nx ph s)" for nx
    using assms(1-3) s1 s2 by (simp add: serveIdempotent_unfold serve_load_def serve_reserve_def usable_key_def)
  then show ?thesis using ms.reserve_claims [OF n1, of _ "ic_ttl cfg"] s2 by auto
qed

text \<open>A request with a fresh key runs its handler, and the entry of the key afterwards is decided by the status.\<close>
lemma fresh_key_runs:
  assumes "ic_store cfg = memory_store" "usable_key cfg rq" "mem_look s (t 0) (scopedKey rq) = None" "t 0 \<le> t 1"
  shows "fst (serveIdempotent cfg t rq (calls, False) s) = Finished (capture calls (rq_writer rq))"
    and "t 3 \<le> u \<Longrightarrow> u \<le> t 3 + ic_ttl cfg \<Longrightarrow> mem_look (snd (serveIdempotent cfg t rq (calls, False) s)) u (scopedKey rq) =
      (if successful (capture calls (rq_writer rq)) then Some (committed (capture calls (rq_writer rq))) else None)"
proof -
  obtain s2 where s2: "\<And>nx. serveIdempotent cfg t rq nx s =
      (case serve_phase cfg (t 2) rq nx Claimed s2 of (ph, s) \<Rightarrow> serve_phase cfg (t 3) rq nx ph s)"
    and held: "\<And>u. t 1 \<le> u \<Longrightarrow> u \<le> t 1 + ic_ttl cfg \<Longrightarrow> mem_look s2 u (scopedKey rq) = Some in_flight"
    using fresh_key_claims [of cfg rq s t] assms(1-4) by auto
  have run: "serveIdempotent cfg t rq (calls, False) s =
      (Finished (capture calls (rq_writer rq)), commitOrRelease cfg (t 3) (scopedKey rq) (capture calls (rq_writer rq)) s2)"
    by (simp add: s2)
  then show "fst (serveIdempotent cfg t rq (calls, False) s) = Finished (capture calls (rq_writer rq))" by simp
  show "t 3 \<le> u \<Longrightarrow> u \<le> t 3 + ic_ttl cfg \<Longrightarrow> mem_look (snd (serveIdempotent cfg t rq (calls, False) s)) u (scopedKey rq) =
      (if successful (capture calls (rq_writer rq)) then Some (committed (capture calls (rq_writer rq))) else None)"
    using run assms(1) ms.commit_stores ms.release_frees by (simp add: commitOrRelease_def)
qed

text \<open>While a key is held every request for it is refused, whatever store holds it.\<close>
lemma held_key_refuses:
  assumes "usable_key cfg rq" "fst (Load (ic_store cfg) (t 0) (scopedKey rq) s) = Inr (Some in_flight)"
  shows "fst (serveIdempotent cfg t rq next s) = refuse in_progress rq"
  using assms by (simp add: serveIdempotent_unfold serve_load_def usable_key_def prod.case_eq_if handleExistingEntry_def in_flight_def refuse_def)

text \<open>
  After a handler that panicked, or a commit that failed, the key stays reserved: although no request is in progress, every retry until
  the reservation expires is refused. The panic itself is answered with 500 by \<open>Recover\<close>, an error response. The store over Redis fails to commit when the client
  has disconnected, since it is given the context of the request.
\<close>
lemma panic_blocks_retries:
  assumes "ic_store cfg = memory_store" "usable_key cfg rq" "mem_look s (t 0) (scopedKey rq) = None" "t 0 \<le> t 1" "t 1 \<le> u" "u \<le> t 1 + ic_ttl cfg"
  shows "mem_look (snd (serveIdempotent cfg t rq (calls, True) s)) u (scopedKey rq) = Some in_flight"
proof -
  obtain s2 where s2: "\<And>nx. serveIdempotent cfg t rq nx s =
      (case serve_phase cfg (t 2) rq nx Claimed s2 of (ph, s) \<Rightarrow> serve_phase cfg (t 3) rq nx ph s)"
    and held: "\<And>u. t 1 \<le> u \<Longrightarrow> u \<le> t 1 + ic_ttl cfg \<Longrightarrow> mem_look s2 u (scopedKey rq) = Some in_flight"
    using fresh_key_claims [of cfg rq s t] assms(1-4) by auto
  show ?thesis using held [OF assms(5,6)] by (simp add: s2)
qed

lemma failed_commit_blocks_retries:
  assumes "ic_store cfg = memory_store\<lparr>Commit := (\<lambda>now k e ttl s. (Inl err, s))\<rparr>" "usable_key cfg rq"
    "mem_look s (t 0) (scopedKey rq) = None" "t 0 \<le> t 1" "t 1 \<le> u" "u \<le> t 1 + ic_ttl cfg" "successful (capture calls (rq_writer rq))"
  shows "fst (serveIdempotent cfg t rq (calls, False) s) = Finished (capture calls (rq_writer rq))"
    and "mem_look (snd (serveIdempotent cfg t rq (calls, False) s)) u (scopedKey rq) = Some in_flight"
proof -
  obtain s2 where s2: "\<And>nx. serveIdempotent cfg t rq nx s =
      (case serve_phase cfg (t 2) rq nx Claimed s2 of (ph, s) \<Rightarrow> serve_phase cfg (t 3) rq nx ph s)"
    and held: "\<And>u. t 1 \<le> u \<Longrightarrow> u \<le> t 1 + ic_ttl cfg \<Longrightarrow> mem_look s2 u (scopedKey rq) = Some in_flight"
    using fresh_key_claims [of cfg rq s t] assms(1-4) by auto
  show "fst (serveIdempotent cfg t rq (calls, False) s) = Finished (capture calls (rq_writer rq))" by (simp add: s2)
  show "mem_look (snd (serveIdempotent cfg t rq (calls, False) s)) u (scopedKey rq) = Some in_flight"
    using held [OF assms(5,6)] assms(1,7) by (simp add: s2 commitOrRelease_def)
qed

end
