(* ===== verification/Bus.thy ===== *)
theory Bus
  imports Domain
begin

text \<open>
  The event bus (\<^verbatim>\<open>internal/infrastructure/messaging\<close>): retries, the bus in memory, the bus over Redis streams with its
  dead-letter lists and their fallback in PostgreSQL, and the administration of the lists.

  \<^item> A handler is a function on the state \<open>'w\<close> of the rest of the program that may return an error.
  \<^item> The state of Redis is what the commands in use are documented to read and change: streams with one consumer group, its last
    delivered entry and its pending entries with their consumers, and lists. Every command takes a flag from the script \<open>rd_faults\<close>, which
    says whether it fails; a command that fails has no effect. Trimming by \<^verbatim>\<open>MAXLEN\<close> is left out: no stream is longer than its limit.
  \<^item> A JSON text is represented by what \<^verbatim>\<open>json.Unmarshal\<close> makes of it, \<open>None\<close> when it returns an error; the payload of an event is its JSON text.
  \<^item> Whether the context is done is asked at each wait between two attempts: the script \<open>bs_stops\<close> has the answers.
\<close>

section \<open>Events\<close>

record Envelope =
  ev_Type :: string
  ev_OccurredAt :: time
  ev_Payload :: string

type_synonym 'w handler = "Envelope \<Rightarrow> 'w \<Rightarrow> go_error option \<times> 'w"

definition streamKey :: "string \<Rightarrow> string" where "streamKey eventType = ''stream:'' @ eventType"
definition dlqKey :: "string \<Rightarrow> string" where "dlqKey eventType = ''dlq:'' @ eventType"
definition consumerGroup :: string where "consumerGroup = ''quiniela-workers''"

section \<open>Retries\<close>

record messaging_config =
  mc_RetryBackoff :: "duration list"
  mc_maxHandlerAttempts :: int
  mc_streamMaxLen :: int
  mc_StreamWorkerCount :: int
  mc_streamReadBlock :: duration

definition default_config :: messaging_config where
  "default_config = \<lparr>mc_RetryBackoff = [10 ^ 9, 2 * 10 ^ 9], mc_maxHandlerAttempts = 3, mc_streamMaxLen = 600000,
     mc_StreamWorkerCount = 8, mc_streamReadBlock = 5 * 10 ^ 9\<rparr>"

definition Configure :: "int \<Rightarrow> int \<Rightarrow> int \<Rightarrow> int \<Rightarrow> duration list \<Rightarrow> messaging_config \<Rightarrow> messaging_config" where
  "Configure maxRetries streamMax streamWorkers streamReadBlockSec backoff c = c\<lparr>mc_maxHandlerAttempts := maxRetries, mc_streamMaxLen := streamMax,
     mc_StreamWorkerCount := (if streamWorkers > 0 then streamWorkers else mc_StreamWorkerCount c),
     mc_streamReadBlock := (if streamReadBlockSec > 0 then go64 (streamReadBlockSec * 10 ^ 9) else mc_streamReadBlock c),
     mc_RetryBackoff := (if length backoff > 0 then backoff else mc_RetryBackoff c)\<rparr>"

text \<open>The next answer of a script; an exhausted one answers no.\<close>
fun ask :: "bool list \<Rightarrow> bool \<times> bool list" where
  "ask [] = (False, [])"
| "ask (b # bs) = (b, bs)"

text \<open>The loop of \<^verbatim>\<open>callWithRetry\<close> from an attempt on, with the error so far.\<close>
function retry_from :: "messaging_config \<Rightarrow> ('w \<Rightarrow> go_error option \<times> 'w) \<Rightarrow> int \<Rightarrow> go_error option \<Rightarrow> bool list \<Rightarrow> 'w \<Rightarrow> go_error option \<times> bool list \<times> 'w" where
  "retry_from c fn attempt err stops w =
    (if attempt < mc_maxHandlerAttempts c then
       (case fn w of
          (None, w) \<Rightarrow> (None, stops, w)
        | (Some err, w) \<Rightarrow>
            if attempt < int (length (mc_RetryBackoff c)) then
              (case ask stops of (stop, stops) \<Rightarrow> if stop then (Some err, stops, w) else retry_from c fn (attempt + 1) (Some err) stops w)
            else retry_from c fn (attempt + 1) (Some err) stops w)
     else (err, stops, w))"
  by auto
termination by (relation "measure (\<lambda>(c, fn, attempt, err, stops, w). nat (mc_maxHandlerAttempts c - attempt))") auto

declare retry_from.simps [simp del]

definition callWithRetry :: "messaging_config \<Rightarrow> ('w \<Rightarrow> go_error option \<times> 'w) \<Rightarrow> bool list \<Rightarrow> 'w \<Rightarrow> go_error option \<times> bool list \<times> 'w" where
  "callWithRetry c fn stops w = retry_from c fn 0 None stops w"

section \<open>The bus in memory\<close>

record 'w InMemoryBus =
  mb_handlers :: "string \<Rightarrow> 'w handler list"

definition mem_Subscribe :: "string \<Rightarrow> 'w handler \<Rightarrow> 'w InMemoryBus \<Rightarrow> 'w InMemoryBus" where
  "mem_Subscribe eventType h b = b\<lparr>mb_handlers := (mb_handlers b)(eventType := mb_handlers b eventType @ [h])\<rparr>"

text \<open>\<^verbatim>\<open>Publish\<close>, with the dead letters it writes to the log.\<close>
fun publish_to :: "messaging_config \<Rightarrow> Envelope \<Rightarrow> 'w handler list \<Rightarrow> bool list \<Rightarrow> 'w \<Rightarrow> (Envelope \<times> go_error) list \<times> bool list \<times> 'w" where
  "publish_to c env [] stops w = ([], stops, w)"
| "publish_to c env (h # hs) stops w = (case callWithRetry c (h env) stops w of (err, stops, w) \<Rightarrow>
     case publish_to c env hs stops w of (logged, stops, w) \<Rightarrow> ((case err of Some e \<Rightarrow> [(env, e)] | None \<Rightarrow> []) @ logged, stops, w))"

definition mem_Publish :: "messaging_config \<Rightarrow> 'w InMemoryBus \<Rightarrow> Envelope \<Rightarrow> bool list \<Rightarrow> 'w \<Rightarrow> (Envelope \<times> go_error) list \<times> bool list \<times> 'w" where
  "mem_Publish c b env stops w = publish_to c env (mb_handlers b (ev_Type env)) stops w"

section \<open>Redis\<close>

record dlqEntry =
  de_EventType :: string
  de_Envelope :: Envelope
  de_Error :: go_error
  de_DeadLetteredAt :: time
  de_Attempts :: int

text \<open>A stream entry: its identifier and its field \<^verbatim>\<open>payload\<close>, \<open>None\<close> when it has none.\<close>
record XMessage =
  xm_ID :: nat
  xm_payload :: "Envelope option option"

record redis =
  rd_stream :: "string \<Rightarrow> XMessage list"
  rd_seq :: nat
  rd_group :: "string \<Rightarrow> nat option"
  rd_pel :: "string \<Rightarrow> (nat \<times> string) list"
  rd_list :: "string \<Rightarrow> dlqEntry option list"
  rd_faults :: "bool list"

text \<open>A command: it fails, or it acts.\<close>
definition command :: "(redis \<Rightarrow> 'a \<times> redis) \<Rightarrow> redis \<Rightarrow> 'a option \<times> redis" where
  "command act r = (case ask (rd_faults r) of (failed, faults) \<Rightarrow>
     let r = r\<lparr>rd_faults := faults\<rparr> in if failed then (None, r) else (case act r of (a, r) \<Rightarrow> (Some a, r)))"

definition XAdd :: "string \<Rightarrow> Envelope option option \<Rightarrow> redis \<Rightarrow> unit option \<times> redis" where
  "XAdd key payload = command (\<lambda>r. ((), r\<lparr>rd_seq := rd_seq r + 1, rd_stream := (rd_stream r)(key := rd_stream r key @ [\<lparr>xm_ID = rd_seq r + 1, xm_payload = payload\<rparr>])\<rparr>))"

text \<open>Creates the group at the beginning of the stream; the error \<^verbatim>\<open>BUSYGROUP\<close> of an existing one is not a failure for the caller.\<close>
definition XGroupCreateMkStream :: "string \<Rightarrow> redis \<Rightarrow> unit option \<times> redis" where
  "XGroupCreateMkStream key = command (\<lambda>r. ((), if rd_group r key = None then r\<lparr>rd_group := (rd_group r)(key \<mapsto> 0)\<rparr> else r))"

text \<open>A read of the group, an error when there is no group.\<close>
definition on_group :: "string \<Rightarrow> (nat \<Rightarrow> redis \<Rightarrow> XMessage list \<times> redis) \<Rightarrow> redis \<Rightarrow> XMessage list option \<times> redis" where
  "on_group key act r = (case rd_group r key of None \<Rightarrow> (None, r) | Some lst \<Rightarrow> (case act lst r of (msgs, r) \<Rightarrow> (Some msgs, r)))"

definition group_read :: "string \<Rightarrow> (nat \<Rightarrow> redis \<Rightarrow> XMessage list \<times> redis) \<Rightarrow> redis \<Rightarrow> XMessage list option \<times> redis" where
  "group_read key act r = (case command (on_group key act) r of (x, r) \<Rightarrow> (Option.bind x id, r))"

text \<open>\<^verbatim>\<open>XREADGROUP\<close> with the identifier for new entries: those that were not delivered, which become pending for the consumer.\<close>
definition take_new :: "string \<Rightarrow> string \<Rightarrow> nat \<Rightarrow> nat \<Rightarrow> redis \<Rightarrow> XMessage list \<times> redis" where
  "take_new key consumer n lst r = (let msgs = take n (filter (\<lambda>m. lst < xm_ID m) (rd_stream r key)) in
     (msgs, if msgs = [] then r else r\<lparr>rd_group := (rd_group r)(key \<mapsto> xm_ID (last msgs)), rd_pel := (rd_pel r)(key := rd_pel r key @ map (\<lambda>m. (xm_ID m, consumer)) msgs)\<rparr>))"

definition XReadGroup_new :: "string \<Rightarrow> string \<Rightarrow> nat \<Rightarrow> redis \<Rightarrow> XMessage list option \<times> redis" where
  "XReadGroup_new key consumer n = group_read key (take_new key consumer n)"

text \<open>\<^verbatim>\<open>XREADGROUP\<close> with an identifier: the later entries that are pending for the consumer.\<close>
definition XReadGroup_pending :: "string \<Rightarrow> string \<Rightarrow> nat \<Rightarrow> nat \<Rightarrow> redis \<Rightarrow> XMessage list option \<times> redis" where
  "XReadGroup_pending key consumer start n = group_read key (\<lambda>lst r.
     (take n (filter (\<lambda>m. start < xm_ID m \<and> (xm_ID m, consumer) \<in> set (rd_pel r key)) (rd_stream r key)), r))"

definition XAck :: "string \<Rightarrow> nat \<Rightarrow> redis \<Rightarrow> unit option \<times> redis" where
  "XAck key msgID = command (\<lambda>r. ((), r\<lparr>rd_pel := (rd_pel r)(key := filter (\<lambda>p. fst p \<noteq> msgID) (rd_pel r key))\<rparr>))"

definition RPush :: "string \<Rightarrow> dlqEntry option \<Rightarrow> redis \<Rightarrow> unit option \<times> redis" where
  "RPush key data = command (\<lambda>r. ((), r\<lparr>rd_list := (rd_list r)(key := rd_list r key @ [data])\<rparr>))"

text \<open>\<^verbatim>\<open>LPOP\<close>; an empty list gives \<^verbatim>\<open>redis.Nil\<close>.\<close>
definition LPop :: "string \<Rightarrow> redis \<Rightarrow> dlqEntry option option option \<times> redis" where
  "LPop key = command (\<lambda>r. case rd_list r key of [] \<Rightarrow> (None, r) | d # ds \<Rightarrow> (Some d, r\<lparr>rd_list := (rd_list r)(key := ds)\<rparr>))"

definition LLen :: "string \<Rightarrow> redis \<Rightarrow> int option \<times> redis" where
  "LLen key = command (\<lambda>r. (int (length (rd_list r key)), r))"

definition LRange :: "string \<Rightarrow> nat \<Rightarrow> redis \<Rightarrow> dlqEntry option list option \<times> redis" where
  "LRange key n = command (\<lambda>r. (take n (rd_list r key), r))"

definition Del :: "string \<Rightarrow> redis \<Rightarrow> unit option \<times> redis" where
  "Del key = command (\<lambda>r. ((), r\<lparr>rd_list := (rd_list r)(key := [])\<rparr>))"

section \<open>The bus over Redis\<close>

text \<open>A row of the table \<^verbatim>\<open>event_dlq\<close>.\<close>
record event_dlq_row =
  ed_event_type :: string
  ed_payload :: dlqEntry
  ed_handler_err :: go_error
  ed_attempts :: int

text \<open>
  The clock, the stores with their scripts, the messages that are in the work channel or the pool of each consumer, and the rest of the program.
\<close>
record 'w bus_state =
  bs_now :: time
  bs_redis :: redis
  bs_event_dlq :: "event_dlq_row list"
  bs_pg_faults :: "bool list"
  bs_stops :: "bool list"
  bs_queue :: "string \<Rightarrow> XMessage list"
  bs_world :: 'w

record 'w RedisBus =
  rb_consumerName :: string
  rb_handlers :: "string \<Rightarrow> 'w handler list"
  rb_dlqFallback :: bool

definition NewRedisBus :: "string \<Rightarrow> int \<Rightarrow> 'w RedisBus" where
  "NewRedisBus hostname pid = \<lparr>rb_consumerName = (if hostname = [] then ''unknown'' else hostname) @ ''-'' @ Itoa pid, rb_handlers = (\<lambda>_. []), rb_dlqFallback = False\<rparr>"

definition SetDLQFallback :: "'w RedisBus \<Rightarrow> 'w RedisBus" where "SetDLQFallback b = b\<lparr>rb_dlqFallback := True\<rparr>"

text \<open>\<^verbatim>\<open>Subscribe\<close>, with whether it starts the consumer of the event type.\<close>
definition redis_Subscribe :: "string \<Rightarrow> 'w handler \<Rightarrow> 'w RedisBus \<Rightarrow> bool \<times> 'w RedisBus" where
  "redis_Subscribe eventType h b = (length (rb_handlers b eventType) = 0, b\<lparr>rb_handlers := (rb_handlers b)(eventType := rb_handlers b eventType @ [h])\<rparr>)"

definition with_redis :: "(redis \<Rightarrow> 'a \<times> redis) \<Rightarrow> 'w bus_state \<Rightarrow> 'a \<times> 'w bus_state" where
  "with_redis f s = (case f (bs_redis s) of (a, r) \<Rightarrow> (a, s\<lparr>bs_redis := r\<rparr>))"

definition redis_Publish :: "Envelope \<Rightarrow> 'w bus_state \<Rightarrow> unit option \<times> 'w bus_state" where
  "redis_Publish envelope = with_redis (XAdd (streamKey (ev_Type envelope)) (Some (Some envelope)))"

definition ensureConsumerGroup :: "string \<Rightarrow> 'w bus_state \<Rightarrow> bool \<times> 'w bus_state" where
  "ensureConsumerGroup eventType s = (case with_redis (XGroupCreateMkStream (streamKey eventType)) s of (r, s) \<Rightarrow> (r \<noteq> None, s))"

definition RecordDeadLettered :: "string \<Rightarrow> dlqEntry \<Rightarrow> go_error \<Rightarrow> int \<Rightarrow> 'w bus_state \<Rightarrow> bool \<times> 'w bus_state" where
  "RecordDeadLettered eventType entry handlerErr attempts s = (case ask (bs_pg_faults s) of (failed, faults) \<Rightarrow>
     let s = s\<lparr>bs_pg_faults := faults\<rparr> in
     if failed then (False, s)
     else (True, s\<lparr>bs_event_dlq := bs_event_dlq s @ [\<lparr>ed_event_type = eventType, ed_payload = entry, ed_handler_err = handlerErr, ed_attempts = attempts\<rparr>]\<rparr>))"

definition pushDLQFallback :: "'w RedisBus \<Rightarrow> Envelope \<Rightarrow> dlqEntry \<Rightarrow> go_error \<Rightarrow> int \<Rightarrow> 'w bus_state \<Rightarrow> 'w bus_state" where
  "pushDLQFallback b envelope entry handlerErr attempts s =
    (if \<not> rb_dlqFallback b then s else snd (RecordDeadLettered (ev_Type envelope) entry handlerErr attempts s))"

definition pushDLQ :: "messaging_config \<Rightarrow> 'w RedisBus \<Rightarrow> Envelope \<Rightarrow> go_error \<Rightarrow> 'w bus_state \<Rightarrow> 'w bus_state" where
  "pushDLQ c b envelope handlerErr s =
    (let attempts = mc_maxHandlerAttempts c;
         entry = \<lparr>de_EventType = ev_Type envelope, de_Envelope = envelope, de_Error = handlerErr, de_DeadLetteredAt = bs_now s, de_Attempts = attempts\<rparr>
     in case with_redis (RPush (dlqKey (ev_Type envelope)) (Some entry)) s of
          (None, s) \<Rightarrow> pushDLQFallback b envelope entry handlerErr attempts s
        | (Some _, s) \<Rightarrow> s)"

definition ack :: "string \<Rightarrow> nat \<Rightarrow> 'w bus_state \<Rightarrow> 'w bus_state" where
  "ack key msgID s = snd (with_redis (XAck key msgID) s)"

text \<open>The loop of \<^verbatim>\<open>processMessage\<close> over the handlers, with what each of them came to.\<close>
fun call_handlers :: "messaging_config \<Rightarrow> 'w RedisBus \<Rightarrow> Envelope \<Rightarrow> 'w handler list \<Rightarrow> 'w bus_state \<Rightarrow> go_error option list \<times> 'w bus_state" where
  "call_handlers c b env [] s = ([], s)"
| "call_handlers c b env (h # hs) s =
    (case callWithRetry c (h env) (bs_stops s) (bs_world s) of (err, stops, w) \<Rightarrow>
     let s = s\<lparr>bs_stops := stops, bs_world := w\<rparr>;
         s = (case err of Some e \<Rightarrow> pushDLQ c b env e s | None \<Rightarrow> s)
     in case call_handlers c b env hs s of (errs, s) \<Rightarrow> (err # errs, s))"

definition processMessage :: "messaging_config \<Rightarrow> 'w RedisBus \<Rightarrow> string \<Rightarrow> XMessage \<Rightarrow> 'w bus_state \<Rightarrow> go_error option list \<times> 'w bus_state" where
  "processMessage c b eventType msg s =
    (let key = streamKey eventType in
     case xm_payload msg of
       Some (Some envelope) \<Rightarrow> (case call_handlers c b envelope (rb_handlers b eventType) s of (errs, s) \<Rightarrow> (errs, ack key (xm_ID msg) s))
     | _ \<Rightarrow> ([], ack key (xm_ID msg) s))"

text \<open>
  The first phase of \<^verbatim>\<open>consume\<close>: \<open>dispatch\<close> hands a message to the pool. The loop may not end if the pool could add pending entries, so
  it is a partial function.
\<close>
partial_function (option) recoverPending ::
  "'w RedisBus \<Rightarrow> string \<Rightarrow> (XMessage \<Rightarrow> 'w bus_state \<Rightarrow> 'w bus_state) \<Rightarrow> nat \<Rightarrow> 'w bus_state \<Rightarrow> 'w bus_state option" where
  "recoverPending b key dispatch startID s = (case with_redis (XReadGroup_pending key (rb_consumerName b) startID 10) s of (r, s) \<Rightarrow>
     (if r = None \<or> r = Some [] then Some s else recoverPending b key dispatch (xm_ID (last (the r))) (fold dispatch (the r) s)))"

text \<open>The second phase reads what is new, an empty batch after an error.\<close>
definition readStreamMessages :: "'w RedisBus \<Rightarrow> string \<Rightarrow> 'w bus_state \<Rightarrow> XMessage list \<times> 'w bus_state" where
  "readStreamMessages b key s = (case with_redis (XReadGroup_new key (rb_consumerName b) 10) s of (r, s) \<Rightarrow> (case r of None \<Rightarrow> [] | Some msgs \<Rightarrow> msgs, s))"

text \<open>\<^verbatim>\<open>dispatch\<close> sends a message to the work channel.\<close>
definition dispatch :: "'w RedisBus \<Rightarrow> XMessage \<Rightarrow> 'w bus_state \<Rightarrow> 'w bus_state" where
  "dispatch b msg s = s\<lparr>bs_queue := (bs_queue s)(rb_consumerName b := bs_queue s (rb_consumerName b) @ [msg])\<rparr>"

definition processStreamMessages :: "'w RedisBus \<Rightarrow> XMessage list \<Rightarrow> 'w bus_state \<Rightarrow> 'w bus_state" where
  "processStreamMessages b msgs s = fold (dispatch b) msgs s"

text \<open>\<^verbatim>\<open>consume\<close> up to its loop, with whether the goroutine goes on, and one turn of the loop.\<close>
definition consume_start :: "'w RedisBus \<Rightarrow> string \<Rightarrow> 'w bus_state \<Rightarrow> (bool \<times> 'w bus_state) option" where
  "consume_start b eventType s = (case ensureConsumerGroup eventType s of (up, s) \<Rightarrow>
     if \<not> up then Some (False, s) else map_option (Pair True) (recoverPending b (streamKey eventType) (dispatch b) 0 s))"

definition consume_turn :: "'w RedisBus \<Rightarrow> string \<Rightarrow> 'w bus_state \<Rightarrow> 'w bus_state" where
  "consume_turn b eventType s = (case readStreamMessages b (streamKey eventType) s of (msgs, s) \<Rightarrow> processStreamMessages b msgs s)"

section \<open>Administration of the dead letters\<close>

fun replay_loop :: "string \<Rightarrow> nat \<Rightarrow> redis \<Rightarrow> int \<times> redis" where
  "replay_loop et 0 r = (0, r)"
| "replay_loop et (Suc n) r = (case LPop (dlqKey et) r of
     (None, r) \<Rightarrow> (0, r)
   | (Some None, r) \<Rightarrow> (0, r)
   | (Some (Some None), r) \<Rightarrow> replay_loop et n r
   | (Some (Some (Some entry)), r) \<Rightarrow> (case XAdd (streamKey et) (Some (Some (de_Envelope entry))) r of
         (None, r) \<Rightarrow> replay_loop et n r
       | (Some _, r) \<Rightarrow> (case replay_loop et n r of (k, r) \<Rightarrow> (k + 1, r))))"

definition replayFromKey :: "string \<Rightarrow> int \<Rightarrow> redis \<Rightarrow> int \<times> redis" where
  "replayFromKey et limit = replay_loop et (nat limit)"

record RedisDLQService =
  ds_eventTypes :: "string list"
  ds_sampleSize :: int
  ds_replayDefaultLimit :: int

definition DefaultDLQSampleSize :: int where "DefaultDLQSampleSize = 5"
definition DefaultDLQReplayDefaultLimit :: int where "DefaultDLQReplayDefaultLimit = 10"

definition NewRedisDLQService :: "string list \<Rightarrow> int \<Rightarrow> int \<Rightarrow> RedisDLQService" where
  "NewRedisDLQService eventTypes sampleSize replayDefaultLimit = \<lparr>ds_eventTypes = eventTypes,
     ds_sampleSize = (if sampleSize \<le> 0 then DefaultDLQSampleSize else sampleSize),
     ds_replayDefaultLimit = (if replayDefaultLimit \<le> 0 then DefaultDLQReplayDefaultLimit else replayDefaultLimit)\<rparr>"

definition Replay :: "RedisDLQService \<Rightarrow> int \<Rightarrow> redis \<Rightarrow> int \<times> redis" where
  "Replay ds limit r = (let limit = (if limit \<le> 0 then ds_replayDefaultLimit ds else limit) in
     fold (\<lambda>et (replayed, r). case replayFromKey et limit r of (k, r) \<Rightarrow> (replayed + k, r)) (ds_eventTypes ds) (0, r))"

definition purge_key :: "string \<Rightarrow> int \<times> redis \<Rightarrow> int \<times> redis" where
  "purge_key et tr = (case tr of (removed, r) \<Rightarrow> case LLen (dlqKey et) r of
     (None, r) \<Rightarrow> (removed, r)
   | (Some cnt, r) \<Rightarrow> if cnt = 0 then (removed, r) else (case Del (dlqKey et) r of
         (None, r) \<Rightarrow> (removed, r)
       | (Some _, r) \<Rightarrow> (removed + cnt, r)))"

definition Purge :: "RedisDLQService \<Rightarrow> redis \<Rightarrow> int \<times> redis" where
  "Purge ds r = fold purge_key (ds_eventTypes ds) (0, r)"

record DLQStat =
  dq_EventType :: string
  dq_Count :: int
  dq_OldestAt :: "time option"
  dq_Sample :: "(time \<times> go_error \<times> string \<times> int) list"

definition peekSample :: "RedisDLQService \<Rightarrow> string \<Rightarrow> redis \<Rightarrow> (time option \<times> (time \<times> go_error \<times> string \<times> int) list) \<times> redis" where
  "peekSample ds key r = (case LRange key (nat (ds_sampleSize ds)) r of
     (None, r) \<Rightarrow> ((None, []), r)
   | (Some [], r) \<Rightarrow> ((None, []), r)
   | (Some raw, r) \<Rightarrow> ((map_option de_DeadLetteredAt (hd raw),
        map (\<lambda>e. (de_DeadLetteredAt e, de_Error e, de_EventType e, de_Attempts e)) (List.map_filter id raw)), r))"

fun dlq_stats :: "RedisDLQService \<Rightarrow> string list \<Rightarrow> redis \<Rightarrow> DLQStat list \<times> redis" where
  "dlq_stats ds [] r = ([], r)"
| "dlq_stats ds (et # ets) r = (case LLen (dlqKey et) r of
     (None, r) \<Rightarrow> dlq_stats ds ets r
   | (Some cnt, r) \<Rightarrow>
       (case (if cnt > 0 then peekSample ds (dlqKey et) r else ((None, []), r)) of ((oldest, sample), r) \<Rightarrow>
        case dlq_stats ds ets r of (stats, r) \<Rightarrow>
          (\<lparr>dq_EventType = et, dq_Count = cnt, dq_OldestAt = oldest, dq_Sample = sample\<rparr> # stats, r)))"

definition Stats :: "RedisDLQService \<Rightarrow> redis \<Rightarrow> DLQStat list \<times> redis" where
  "Stats ds = dlq_stats ds (ds_eventTypes ds)"

section \<open>Retries end\<close>

text \<open>The state after a number of calls.\<close>
primrec after_calls :: "('w \<Rightarrow> go_error option \<times> 'w) \<Rightarrow> nat \<Rightarrow> 'w \<Rightarrow> 'w" where
  "after_calls fn 0 w = w"
| "after_calls fn (Suc i) w = after_calls fn i (snd (fn w))"

lemma retry_from_outcome:
  assumes "attempt < mc_maxHandlerAttempts c" "retry_from c fn attempt err stops w = (res, stops', w')"
  shows "\<exists>n. 1 \<le> n \<and> attempt + int n \<le> mc_maxHandlerAttempts c \<and> w' = after_calls fn n w
    \<and> (\<forall>i. i + 1 < n \<longrightarrow> fst (fn (after_calls fn i w)) \<noteq> None)
    \<and> res = fst (fn (after_calls fn (n - 1) w))
    \<and> (res = None \<or> attempt + int n = mc_maxHandlerAttempts c \<or> True \<in> set stops)"
  using assms
proof (induction c fn attempt err stops w rule: retry_from.induct)
  case (1 c fn attempt err stops w)
  obtain e w1 where fn: "fn w = (e, w1)" by (cases "fn w")
  have once: ?case if "res = e" "w' = w1" "e = None \<or> attempt + 1 = mc_maxHandlerAttempts c \<or> True \<in> set stops"
    by (rule exI [of _ 1]) (use that fn "1.prems"(1) in auto)
  have more: ?case if r: "retry_from c fn (attempt + 1) e stops1 w1 = (res, stops', w')" and e: "e \<noteq> None" and sub: "set stops1 \<subseteq> set stops"
    and IH: "attempt + 1 < mc_maxHandlerAttempts c \<Longrightarrow> \<exists>n. 1 \<le> n \<and> attempt + 1 + int n \<le> mc_maxHandlerAttempts c \<and> w' = after_calls fn n w1
      \<and> (\<forall>i. i + 1 < n \<longrightarrow> fst (fn (after_calls fn i w1)) \<noteq> None) \<and> res = fst (fn (after_calls fn (n - 1) w1))
      \<and> (res = None \<or> attempt + 1 + int n = mc_maxHandlerAttempts c \<or> True \<in> set stops1)" for stops1
  proof (cases "attempt + 1 < mc_maxHandlerAttempts c")
    case True
    obtain n where n: "1 \<le> n" "attempt + 1 + int n \<le> mc_maxHandlerAttempts c" "w' = after_calls fn n w1"
      "\<And>i. i + 1 < n \<Longrightarrow> fst (fn (after_calls fn i w1)) \<noteq> None" "res = fst (fn (after_calls fn (n - 1) w1))"
      "res = None \<or> attempt + 1 + int n = mc_maxHandlerAttempts c \<or> True \<in> set stops1" using IH [OF True] by blast
    have sh: "after_calls fn (Suc i) w = after_calls fn i w1" for i using fn by simp
    have "fst (fn (after_calls fn i w)) \<noteq> None" if "i + 1 < Suc n" for i
      using that n(4) e fn by (cases i) auto
    moreover have "after_calls fn (Suc n - 1) w = after_calls fn (n - 1) w1" using sh [of "n - 1"] n(1) by simp
    ultimately show ?thesis using n sh [of n] sub by (intro exI [of _ "Suc n"]) (auto simp del: after_calls.simps)
  next
    case False
    then have "res = e" "w' = w1" using r by (simp_all add: retry_from.simps)
    then show ?thesis using once False "1.prems"(1) by auto
  qed
  show ?case
  proof (cases e)
    case None
    then show ?thesis using "1.prems" fn once by (simp add: retry_from.simps)
  next
    case (Some x)
    obtain stop stops1 where ask: "ask stops = (stop, stops1)" by (cases "ask stops")
    have sub: "set stops1 \<subseteq> set stops" "stop \<Longrightarrow> True \<in> set stops" using ask by (cases stops; auto)+
    show ?thesis
    proof (cases "attempt < int (length (mc_RetryBackoff c))")
      case wait: True
      show ?thesis
      proof (cases stop)
        case True
        then show ?thesis using "1.prems" fn Some ask wait once sub by (simp add: retry_from.simps)
      next
        case False
        have r: "retry_from c fn (attempt + 1) e stops1 w1 = (res, stops', w')"
          using "1.prems" fn Some ask False wait by (subst (asm) retry_from.simps) simp
        show ?thesis by (rule more [OF r _ sub(1)]) (use "1.IH"(1) [OF "1.prems"(1) fn [symmetric] Some wait ask [symmetric] False] r Some in auto)
      qed
    next
      case False
      have r: "retry_from c fn (attempt + 1) e stops w1 = (res, stops', w')"
        using "1.prems" fn Some False by (subst (asm) retry_from.simps) simp
      show ?thesis by (rule more [OF r]) (use "1.IH"(2) [OF "1.prems"(1) fn [symmetric] Some False] r Some in auto)
    qed
  qed
qed

text \<open>
  A handler is called at least once and at most as often as configured; every call but the last one failed; what is returned is the
  result of the last call, which succeeded, or used up the attempts, or was followed by the end of the context. The configured number is at least one, as the
  parameter it is read from.
\<close>
lemma callWithRetry_outcome:
  assumes "1 \<le> mc_maxHandlerAttempts c" "callWithRetry c fn stops w = (res, stops', w')"
  shows "\<exists>n. 1 \<le> n \<and> int n \<le> mc_maxHandlerAttempts c \<and> w' = after_calls fn n w
    \<and> (\<forall>i. i + 1 < n \<longrightarrow> fst (fn (after_calls fn i w)) \<noteq> None)
    \<and> res = fst (fn (after_calls fn (n - 1) w))
    \<and> (res = None \<or> int n = mc_maxHandlerAttempts c \<or> True \<in> set stops)"
  using retry_from_outcome [of 0 c fn None stops w res stops' w'] assms by (simp add: callWithRetry_def)

text \<open>Without an attempt the bus would acknowledge events that nobody handled.\<close>
lemma no_attempts_no_call: "mc_maxHandlerAttempts c \<le> 0 \<Longrightarrow> callWithRetry c fn stops w = (None, stops, w)"
  by (simp add: callWithRetry_def retry_from.simps)

section \<open>Processes around a stream\<close>

text \<open>A system: the stores and queues, which consumers run, and the messages that were processed, with the results of the handlers.\<close>
record 'w bus_sys =
  bz_state :: "'w bus_state"
  bz_up :: "string \<Rightarrow> bool"
  bz_done :: "(nat \<times> go_error option list) list"

definition drop_nth :: "nat \<Rightarrow> 'a list \<Rightarrow> 'a list" where
  "drop_nth i xs = take i xs @ drop (Suc i) xs"

definition unqueue :: "string \<Rightarrow> nat \<Rightarrow> 'w bus_state \<Rightarrow> 'w bus_state" where
  "unqueue n i s = s\<lparr>bs_queue := (bs_queue s)(n := drop_nth i (bs_queue s n))\<rparr>"

text \<open>
  The steps: an event is published; a consumer starts; it reads; one of its workers processes a message of the channel; a message is dropped since the context
  is done; a process dies.
\<close>
inductive bus_step :: "messaging_config \<Rightarrow> (string \<Rightarrow> 'w RedisBus) \<Rightarrow> string \<Rightarrow> 'w bus_sys \<Rightarrow> 'w bus_sys \<Rightarrow> bool" for c bus et where
  published: "ev_Type env = et \<Longrightarrow> redis_Publish env (bz_state s) = (r, st) \<Longrightarrow> bus_step c bus et s (s\<lparr>bz_state := st\<rparr>)"
| started: "\<not> bz_up s n \<Longrightarrow> consume_start (bus n) et (bz_state s) = Some (up, st) \<Longrightarrow>
    bus_step c bus et s (s\<lparr>bz_state := st, bz_up := (bz_up s)(n := up)\<rparr>)"
| turned: "bz_up s n \<Longrightarrow> bus_step c bus et s (s\<lparr>bz_state := consume_turn (bus n) et (bz_state s)\<rparr>)"
| worked: "bz_up s n \<Longrightarrow> i < length (bs_queue (bz_state s) n) \<Longrightarrow> m = bs_queue (bz_state s) n ! i \<Longrightarrow>
    processMessage c (bus n) et m (unqueue n i (bz_state s)) = (errs, st) \<Longrightarrow>
    bus_step c bus et s (s\<lparr>bz_state := st, bz_done := (xm_ID m, errs) # bz_done s\<rparr>)"
| dropped: "bz_up s n \<Longrightarrow> i < length (bs_queue (bz_state s) n) \<Longrightarrow> bus_step c bus et s (s\<lparr>bz_state := unqueue n i (bz_state s)\<rparr>)"
| died: "bz_up s n \<Longrightarrow> bus_step c bus et s
    (s\<lparr>bz_state := (bz_state s)\<lparr>bs_queue := (bs_queue (bz_state s))(n := [])\<rparr>, bz_up := (bz_up s)(n := False)\<rparr>)"

inductive_cases bus_stepE: "bus_step c bus et s s'"

section \<open>What the operations keep\<close>

lemma later_than_take:
  fixes f :: "'a \<Rightarrow> nat"
  assumes "sorted_wrt (<) (map f xs)" "0 < n" "xs \<noteq> []"
  shows "filter (\<lambda>x. f (last (take n xs)) < f x) xs = drop n xs"
proof -
  let ?t = "take n xs" and ?d = "drop n xs"
  have t: "?t \<noteq> []" using assms(2,3) by simp
  have "sorted_wrt (<) (map f ?t @ map f ?d)" using assms(1) by (metis append_take_drop_id map_append)
  then have s: "sorted_wrt (<) (map f ?t)" "\<forall>x\<in>set (map f ?t). \<forall>y\<in>set (map f ?d). x < y" unfolding sorted_wrt_append by blast+
  have "?t = butlast ?t @ [last ?t]" using t by simp
  then have "sorted_wrt (<) (map f (butlast ?t) @ [f (last ?t)])" using s(1) by (metis list.simps(8,9) map_append)
  then have "\<forall>x\<in>set (butlast ?t). f x < f (last ?t)" by (simp add: sorted_wrt_append)
  then have "\<forall>x\<in>set ?t. \<not> f (last ?t) < f x" using \<open>?t = butlast ?t @ [last ?t]\<close> by (metis (no_types, lifting) Un_iff empty_iff insert_iff list.set(1,2) not_less_iff_gr_or_eq set_append)
  then have "filter (\<lambda>x. f (last ?t) < f x) ?t = []" by simp
  moreover have "filter (\<lambda>x. f (last ?t) < f x) ?d = ?d" using s(2) t by (auto simp: filter_id_conv)
  ultimately show ?thesis by (metis append_Nil append_take_drop_id filter_append)
qed

text \<open>A command either fails or acts; in both cases it uses up an answer of the script.\<close>
lemma command_cases:
  "rd_faults r \<noteq> [] \<and> command act r = (None, r\<lparr>rd_faults := tl (rd_faults r)\<rparr>) \<or>
   command act r = (case act (r\<lparr>rd_faults := tl (rd_faults r)\<rparr>) of (a, r) \<Rightarrow> (Some a, r))"
  by (cases "rd_faults r") (auto simp: command_def Let_def)

lemma command_ok:
  assumes "rd_faults r = []"
  shows "command act r = (case act r of (a, r) \<Rightarrow> (Some a, r))"
proof -
  have same: "r\<lparr>rd_faults := []\<rparr> = r" using assms by (cases r) simp
  have "command act r = (case act (r\<lparr>rd_faults := []\<rparr>) of (a, r) \<Rightarrow> (Some a, r))" using assms by (simp add: command_def)
  then show ?thesis unfolding same .
qed

text \<open>Everything but the dead letters, the world and the scripts stays, and no dead letter goes.\<close>
definition keeps :: "'w bus_state \<Rightarrow> 'w bus_state \<Rightarrow> bool" where
  "keeps s s' \<longleftrightarrow> rd_stream (bs_redis s') = rd_stream (bs_redis s) \<and> rd_seq (bs_redis s') = rd_seq (bs_redis s) \<and> rd_group (bs_redis s') = rd_group (bs_redis s)
     \<and> rd_pel (bs_redis s') = rd_pel (bs_redis s) \<and> bs_queue s' = bs_queue s
     \<and> (\<forall>k. set (rd_list (bs_redis s) k) \<subseteq> set (rd_list (bs_redis s') k)) \<and> set (bs_event_dlq s) \<subseteq> set (bs_event_dlq s')
     \<and> (bs_pg_faults s = [] \<longrightarrow> bs_pg_faults s' = []) \<and> (rd_faults (bs_redis s) = [] \<longrightarrow> rd_faults (bs_redis s') = [])"

lemma keeps_refl [simp]: "keeps s s"
  by (simp add: keeps_def)

lemma keeps_trans: "keeps s s' \<Longrightarrow> keeps s' s'' \<Longrightarrow> keeps s s''"
  unfolding keeps_def by (intro conjI) (blast | simp)+

text \<open>The event with the error is in a dead-letter store.\<close>
definition dead_lettered :: "Envelope \<Rightarrow> go_error \<Rightarrow> 'w bus_state \<Rightarrow> bool" where
  "dead_lettered env e s \<longleftrightarrow> (\<exists>d. Some d \<in> set (rd_list (bs_redis s) (dlqKey (ev_Type env))) \<and> de_Envelope d = env \<and> de_Error d = e)
     \<or> (\<exists>row\<in>set (bs_event_dlq s). de_Envelope (ed_payload row) = env \<and> ed_handler_err row = e)"

lemma dead_lettered_mono: "dead_lettered env e s \<Longrightarrow> keeps s s' \<Longrightarrow> dead_lettered env e s'"
  unfolding dead_lettered_def keeps_def by blast

lemma pushDLQ_keeps:
  assumes "rb_dlqFallback b" "bs_pg_faults s = []"
  shows "keeps s (pushDLQ c b env e s)" "dead_lettered env e (pushDLQ c b env e s)"
proof -
  obtain a r where rp: "RPush (dlqKey (ev_Type env)) (Some \<lparr>de_EventType = ev_Type env, de_Envelope = env, de_Error = e, de_DeadLetteredAt = bs_now s,
      de_Attempts = mc_maxHandlerAttempts c\<rparr>) (bs_redis s) = (a, r)" by fastforce
  show "keeps s (pushDLQ c b env e s)" "dead_lettered env e (pushDLQ c b env e s)"
    using command_cases [of "bs_redis s" "\<lambda>r. ((), r\<lparr>rd_list := (rd_list r)(dlqKey (ev_Type env) := rd_list r (dlqKey (ev_Type env)) @ [Some \<lparr>de_EventType = ev_Type env, de_Envelope = env, de_Error = e, de_DeadLetteredAt = bs_now s,
      de_Attempts = mc_maxHandlerAttempts c\<rparr>])\<rparr>)"] assms rp
    by (auto simp: pushDLQ_def Let_def with_redis_def RPush_def pushDLQFallback_def RecordDeadLettered_def keeps_def dead_lettered_def)
qed

lemma call_handlers_keeps:
  assumes "rb_dlqFallback b" "bs_pg_faults s = []" "call_handlers c b env hs s = (errs, s')"
  shows "keeps s s' \<and> length errs = length hs \<and> (\<forall>e. Some e \<in> set errs \<longrightarrow> dead_lettered env e s')"
  using assms(2,3)
proof (induction hs arbitrary: s errs s')
  case (Cons h hs)
  obtain err stops w where call: "callWithRetry c (h env) (bs_stops s) (bs_world s) = (err, stops, w)" by (metis prod_cases3)
  define s0 where "s0 = s\<lparr>bs_stops := stops, bs_world := w\<rparr>"
  define s1 where "s1 = (case err of Some e \<Rightarrow> pushDLQ c b env e s0 | None \<Rightarrow> s0)"
  obtain errs1 where rest: "call_handlers c b env hs s1 = (errs1, s')" and errs: "errs = err # errs1"
    using Cons.prems(2) call by (auto simp: s0_def s1_def Let_def split: prod.splits option.splits)
  have k0: "keeps s s0" by (simp add: s0_def keeps_def)
  have p0: "bs_pg_faults s0 = []" using Cons.prems(1) by (simp add: s0_def)
  have k1: "keeps s0 s1" "\<And>e. err = Some e \<Longrightarrow> dead_lettered env e s1"
    using pushDLQ_keeps [OF assms(1) p0] by (auto simp: s1_def split: option.splits)
  have "bs_pg_faults s1 = []" using k1(1) p0 by (simp add: keeps_def)
  note IH = Cons.IH [OF this rest]
  show ?case using IH errs keeps_trans [OF keeps_trans [OF k0 k1(1)]] dead_lettered_mono k1(2) by auto
qed simp

text \<open>What a processed message came to.\<close>
definition settled :: "'w handler list \<Rightarrow> XMessage \<Rightarrow> go_error option list \<Rightarrow> 'w bus_state \<Rightarrow> bool" where
  "settled hs m errs s \<longleftrightarrow> (case xm_payload m of
      Some (Some env) \<Rightarrow> length errs = length hs \<and> (\<forall>e. Some e \<in> set errs \<longrightarrow> dead_lettered env e s)
    | _ \<Rightarrow> True)"

lemma ack_effect:
  "ack k i s = s\<lparr>bs_redis := (bs_redis s)\<lparr>rd_faults := tl (rd_faults (bs_redis s))\<rparr>\<rparr> \<or>
   ack k i s = s\<lparr>bs_redis := (bs_redis s)\<lparr>rd_faults := tl (rd_faults (bs_redis s)), rd_pel := (rd_pel (bs_redis s))(k := filter (\<lambda>p. fst p \<noteq> i) (rd_pel (bs_redis s) k))\<rparr>\<rparr>"
  using command_cases [of "bs_redis s" "\<lambda>r. ((), r\<lparr>rd_pel := (rd_pel r)(k := filter (\<lambda>p. fst p \<noteq> i) (rd_pel r k))\<rparr>)"]
  by (auto simp: ack_def with_redis_def XAck_def)

text \<open>The message and its acknowledgement.\<close>
lemma processMessage_effect:
  assumes "rb_dlqFallback b" "bs_pg_faults s = []" "processMessage c b et m s = (errs, s')"
  shows "\<exists>s1. keeps s s1 \<and> settled (rb_handlers b et) m errs s1 \<and> s' = ack (streamKey et) (xm_ID m) s1"
proof (cases "\<exists>env. xm_payload m = Some (Some env)")
  case True
  then obtain env where env: "xm_payload m = Some (Some env)" by blast
  obtain errs1 s1 where call: "call_handlers c b env (rb_handlers b et) s = (errs1, s1)" by (cases "call_handlers c b env (rb_handlers b et) s")
  show ?thesis using call_handlers_keeps [OF assms(1,2) call] assms(3) call
    by (intro exI [of _ s1]) (simp add: processMessage_def settled_def env)
next
  case False
  then show ?thesis using assms(3) by (intro exI [of _ s]) (auto simp: processMessage_def settled_def Let_def split: option.splits)
qed


section \<open>Reads\<close>

text \<open>A command that only answers uses up at most an answer of the script.\<close>
lemma group_read_pending:
  assumes "with_redis (XReadGroup_pending k n start cnt) s = (r, s')"
  shows "s' = s\<lparr>bs_redis := (bs_redis s)\<lparr>rd_faults := tl (rd_faults (bs_redis s))\<rparr>\<rparr>"
    and "r = Some ms \<Longrightarrow> set ms \<subseteq> {m \<in> set (rd_stream (bs_redis s) k). (xm_ID m, n) \<in> set (rd_pel (bs_redis s) k)}"
  using assms command_cases [of "bs_redis s" "on_group k (\<lambda>lst r. (take cnt (filter (\<lambda>m. start < xm_ID m \<and> (xm_ID m, n) \<in> set (rd_pel r k)) (rd_stream r k)), r))"]
  by (auto simp: with_redis_def XReadGroup_pending_def group_read_def on_group_def split: option.splits prod.splits dest!: in_set_takeD)

text \<open>Nothing changes but the channel of the consumer, which takes messages of the stream that are pending for it.\<close>
definition enqueues :: "string \<Rightarrow> string \<Rightarrow> 'w bus_state \<Rightarrow> 'w bus_state \<Rightarrow> bool" where
  "enqueues k n s s' \<longleftrightarrow> (\<exists>ms f. set ms \<subseteq> {m \<in> set (rd_stream (bs_redis s) k). (xm_ID m, n) \<in> set (rd_pel (bs_redis s) k)} \<and> (rd_faults (bs_redis s) = [] \<longrightarrow> f = []) \<and>
     s' = s\<lparr>bs_redis := (bs_redis s)\<lparr>rd_faults := f\<rparr>, bs_queue := (bs_queue s)(n := bs_queue s n @ ms)\<rparr>)"

lemma dispatch_all:
  "fold (dispatch b) ms s = s\<lparr>bs_queue := (bs_queue s)(rb_consumerName b := bs_queue s (rb_consumerName b) @ ms)\<rparr>"
  by (induction ms arbitrary: s) (simp_all add: dispatch_def)

lemma enqueues_trans:
  assumes "enqueues k n s s'" "enqueues k n s' s''"
  shows "enqueues k n s s''"
proof -
  obtain ms f where 1: "set ms \<subseteq> {m \<in> set (rd_stream (bs_redis s) k). (xm_ID m, n) \<in> set (rd_pel (bs_redis s) k)}" "rd_faults (bs_redis s) = [] \<longrightarrow> f = []"
    "s' = s\<lparr>bs_redis := (bs_redis s)\<lparr>rd_faults := f\<rparr>, bs_queue := (bs_queue s)(n := bs_queue s n @ ms)\<rparr>" using assms(1) unfolding enqueues_def by blast
  obtain ms' f' where 2: "set ms' \<subseteq> {m \<in> set (rd_stream (bs_redis s') k). (xm_ID m, n) \<in> set (rd_pel (bs_redis s') k)}" "rd_faults (bs_redis s') = [] \<longrightarrow> f' = []"
    "s'' = s'\<lparr>bs_redis := (bs_redis s')\<lparr>rd_faults := f'\<rparr>, bs_queue := (bs_queue s')(n := bs_queue s' n @ ms')\<rparr>" using assms(2) unfolding enqueues_def by blast
  show ?thesis unfolding enqueues_def by (rule exI [of _ "ms @ ms'"], rule exI [of _ f']) (use 1 2 in auto)
qed

lemma recoverPending_enqueues:
  assumes "recoverPending b k (dispatch b) start s = Some s'"
  shows "enqueues k (rb_consumerName b) s s'"
proof -
  have "dispatch b = dispatch b \<longrightarrow> enqueues k (rb_consumerName b) s s'"
  proof (rule recoverPending.raw_induct [where P = "\<lambda>b k d start s s'. d = dispatch b \<longrightarrow> enqueues k (rb_consumerName b) s s'", OF _ assms])
    fix rec and b :: "'a RedisBus" and k d start and s s' :: "'a bus_state"
    assume IH: "\<And>b k d start s s'. rec b k d start s = Some s' \<Longrightarrow> d = dispatch b \<longrightarrow> enqueues k (rb_consumerName b) s s'"
      and body: "(case with_redis (XReadGroup_pending k (rb_consumerName b) start 10) s of (r, s) \<Rightarrow>
        if r = None \<or> r = Some [] then Some s else rec b k d (xm_ID (last (the r))) (fold d (the r) s)) = Some s'"
    show "d = dispatch b \<longrightarrow> enqueues k (rb_consumerName b) s s'"
    proof
      assume d: "d = dispatch b"
      obtain r s1 where rd: "with_redis (XReadGroup_pending k (rb_consumerName b) start 10) s = (r, s1)" by fastforce
      note g = group_read_pending [OF rd]
      have e1: "enqueues k (rb_consumerName b) s (fold (dispatch b) ms s1)" if "ms = [] \<or> r = Some ms" for ms
        unfolding enqueues_def by (rule exI [of _ ms], rule exI [of _ "tl (rd_faults (bs_redis s))"]) (use that g in \<open>auto simp: dispatch_all\<close>)
      show "enqueues k (rb_consumerName b) s s'"
      proof (cases "r = None \<or> r = Some []")
        case True
        then show ?thesis using body rd e1 [of "[]"] by auto
      next
        case False
        then obtain ms where r: "r = Some ms" by (cases r) auto
        then have "rec b k d (xm_ID (last ms)) (fold d ms s1) = Some s'" using body rd False by simp
        from IH [OF this] d have "enqueues k (rb_consumerName b) (fold (dispatch b) ms s1) s'" by blast
        then show ?thesis using enqueues_trans e1 r by blast
      qed
    qed
  qed
  then show ?thesis by simp
qed


definition undelivered :: "string \<Rightarrow> redis \<Rightarrow> XMessage list" where
  "undelivered k r = (case rd_group r k of None \<Rightarrow> rd_stream r k | Some lst \<Rightarrow> filter (\<lambda>m. lst < xm_ID m) (rd_stream r k))"

text \<open>The state after a consumer has read a batch.\<close>
definition delivered :: "string \<Rightarrow> string \<Rightarrow> XMessage list \<Rightarrow> 'w bus_state \<Rightarrow> 'w bus_state" where
  "delivered k n ms s = s\<lparr>bs_redis := (bs_redis s)\<lparr>rd_faults := tl (rd_faults (bs_redis s)), rd_group := (rd_group (bs_redis s))(k \<mapsto> xm_ID (last ms)),
       rd_pel := (rd_pel (bs_redis s))(k := rd_pel (bs_redis s) k @ map (\<lambda>m. (xm_ID m, n)) ms)\<rparr>,
     bs_queue := (bs_queue s)(n := bs_queue s n @ ms)\<rparr>"

lemma consume_turn_effect:
  obtains (idle) "consume_turn b et s = s\<lparr>bs_redis := (bs_redis s)\<lparr>rd_faults := tl (rd_faults (bs_redis s))\<rparr>\<rparr>"
      "rd_faults (bs_redis s) = [] \<Longrightarrow> rd_group (bs_redis s) (streamKey et) \<noteq> None \<Longrightarrow> undelivered (streamKey et) (bs_redis s) = []"
  | (batch) lst ms where "rd_group (bs_redis s) (streamKey et) = Some lst" "ms = take 10 (undelivered (streamKey et) (bs_redis s))" "ms \<noteq> []"
      "consume_turn b et s = delivered (streamKey et) (rb_consumerName b) ms s"
proof -
  let ?k = "streamKey et" and ?n = "rb_consumerName b" and ?r = "bs_redis s"
  let ?cmd = "on_group ?k (take_new ?k ?n 10)"
  have turn: "consume_turn b et s = (case command ?cmd ?r of (x, r) \<Rightarrow>
      fold (dispatch b) (case Option.bind x id of None \<Rightarrow> [] | Some msgs \<Rightarrow> msgs) (s\<lparr>bs_redis := r\<rparr>))"
    by (auto simp: consume_turn_def readStreamMessages_def with_redis_def XReadGroup_new_def group_read_def processStreamMessages_def split: prod.splits)
  consider (failed) "command ?cmd ?r = (None, ?r\<lparr>rd_faults := tl (rd_faults ?r)\<rparr>)" "rd_faults ?r \<noteq> []"
    | (acted) "command ?cmd ?r = (case ?cmd (?r\<lparr>rd_faults := tl (rd_faults ?r)\<rparr>) of (a, r) \<Rightarrow> (Some a, r))"
    using command_cases [of ?r ?cmd] by blast
  then show thesis
  proof cases
    case failed
    then show thesis using idle turn by simp
  next
    case acted
    show thesis
    proof (cases "rd_group ?r ?k")
      case None
      then show thesis using idle turn acted by (simp add: on_group_def)
    next
      case (Some lst)
      define ms where "ms = take 10 (filter (\<lambda>m. lst < xm_ID m) (rd_stream ?r ?k))"
      have und: "undelivered ?k ?r = filter (\<lambda>m. lst < xm_ID m) (rd_stream ?r ?k)" using Some by (simp add: undelivered_def)
      show thesis
      proof (cases "ms = []")
        case True
        then show thesis using idle turn acted Some und by (simp add: ms_def on_group_def take_new_def)
      next
        case False
        then have "consume_turn b et s = delivered ?k ?n ms s"
          using turn acted Some by (simp add: ms_def [symmetric] Let_def dispatch_all delivered_def on_group_def take_new_def)
        then show thesis using batch Some False und ms_def by simp
      qed
    qed
  qed
qed

section \<open>No event is lost\<close>

text \<open>Where an entry of the stream can be.\<close>
definition accounted :: "string \<Rightarrow> 'w bus_sys \<Rightarrow> XMessage \<Rightarrow> bool" where
  "accounted k s m \<longleftrightarrow> m \<in> set (undelivered k (bs_redis (bz_state s)))
     \<or> (\<exists>n. (xm_ID m, n) \<in> set (rd_pel (bs_redis (bz_state s)) k)) \<or> xm_ID m \<in> fst ` set (bz_done s)"

definition bus_inv :: "'w handler list \<Rightarrow> string \<Rightarrow> 'w bus_sys \<Rightarrow> bool" where
  "bus_inv hs et s \<longleftrightarrow> (let st = bz_state s; k = streamKey et; msgs = rd_stream (bs_redis st) k in
     sorted_wrt (<) (map xm_ID msgs) \<and> (\<forall>m\<in>set msgs. 0 < xm_ID m \<and> xm_ID m \<le> rd_seq (bs_redis st)) \<and> (\<forall>n. set (bs_queue st n) \<subseteq> set msgs) \<and> bs_pg_faults st = []
     \<and> (\<forall>m\<in>set msgs. accounted k s m) \<and> (\<forall>lst. rd_group (bs_redis st) k = Some lst \<longrightarrow> lst \<le> rd_seq (bs_redis st))
     \<and> (\<forall>(i, errs)\<in>set (bz_done s). \<exists>m\<in>set msgs. xm_ID m = i \<and> settled hs m errs st))"

text \<open>What leaves the stream of a key, its group and its pending entries alone and loses no dead letter.\<close>
definition undisturbed :: "string \<Rightarrow> 'w bus_state \<Rightarrow> 'w bus_state \<Rightarrow> bool" where
  "undisturbed k st st' \<longleftrightarrow> rd_stream (bs_redis st') k = rd_stream (bs_redis st) k \<and> rd_seq (bs_redis st') = rd_seq (bs_redis st)
     \<and> rd_group (bs_redis st') k = rd_group (bs_redis st) k \<and> rd_pel (bs_redis st') k = rd_pel (bs_redis st) k
     \<and> (\<forall>k. set (rd_list (bs_redis st) k) \<subseteq> set (rd_list (bs_redis st') k)) \<and> set (bs_event_dlq st) \<subseteq> set (bs_event_dlq st')
     \<and> (bs_pg_faults st = [] \<longrightarrow> bs_pg_faults st' = [])"

lemma settled_mono:
  assumes "settled hs m errs st" "\<And>k. set (rd_list (bs_redis st) k) \<subseteq> set (rd_list (bs_redis st') k)" "set (bs_event_dlq st) \<subseteq> set (bs_event_dlq st')"
  shows "settled hs m errs st'"
proof -
  have "dead_lettered env e st'" if "dead_lettered env e st" for env e
    using that assms(2) [of "dlqKey (ev_Type env)"] assms(3) unfolding dead_lettered_def by blast
  then show ?thesis using assms(1) by (auto simp: settled_def split: option.splits)
qed

lemma settled_still:
  assumes "\<exists>m\<in>set msgs. xm_ID m = i \<and> settled hs m errs st" "set msgs \<subseteq> set msgs'"
    "\<And>k. set (rd_list (bs_redis st) k) \<subseteq> set (rd_list (bs_redis st') k)" "set (bs_event_dlq st) \<subseteq> set (bs_event_dlq st')"
  shows "\<exists>m\<in>set msgs'. xm_ID m = i \<and> settled hs m errs st'"
  using assms(1,2) settled_mono [OF _ assms(3,4)] by blast

lemma bus_invI:
  assumes "sorted_wrt (<) (map xm_ID (rd_stream (bs_redis (bz_state s)) (streamKey et)))"
    and "\<And>m. m \<in> set (rd_stream (bs_redis (bz_state s)) (streamKey et)) \<Longrightarrow> 0 < xm_ID m \<and> xm_ID m \<le> rd_seq (bs_redis (bz_state s)) \<and> accounted (streamKey et) s m"
    and "\<And>n. set (bs_queue (bz_state s) n) \<subseteq> set (rd_stream (bs_redis (bz_state s)) (streamKey et))" "bs_pg_faults (bz_state s) = []"
    and "\<And>lst. rd_group (bs_redis (bz_state s)) (streamKey et) = Some lst \<Longrightarrow> lst \<le> rd_seq (bs_redis (bz_state s))"
    and "\<And>i errs. (i, errs) \<in> set (bz_done s) \<Longrightarrow> \<exists>m\<in>set (rd_stream (bs_redis (bz_state s)) (streamKey et)). xm_ID m = i \<and> settled hs m errs (bz_state s)"
  shows "bus_inv hs et s"
  using assms unfolding bus_inv_def Let_def by blast

lemma bus_invD:
  assumes "bus_inv hs et s"
  shows "sorted_wrt (<) (map xm_ID (rd_stream (bs_redis (bz_state s)) (streamKey et)))"
    and "m \<in> set (rd_stream (bs_redis (bz_state s)) (streamKey et)) \<Longrightarrow> 0 < xm_ID m \<and> xm_ID m \<le> rd_seq (bs_redis (bz_state s)) \<and> accounted (streamKey et) s m"
    and "set (bs_queue (bz_state s) n) \<subseteq> set (rd_stream (bs_redis (bz_state s)) (streamKey et))" "bs_pg_faults (bz_state s) = []"
    and "rd_group (bs_redis (bz_state s)) (streamKey et) = Some lst \<Longrightarrow> lst \<le> rd_seq (bs_redis (bz_state s))"
    and "(i, errs) \<in> set (bz_done s) \<Longrightarrow> \<exists>m\<in>set (rd_stream (bs_redis (bz_state s)) (streamKey et)). xm_ID m = i \<and> settled hs m errs (bz_state s)"
  using assms unfolding bus_inv_def Let_def by blast+

lemma inv_calm:
  assumes inv: "bus_inv hs et s" and undisturbed: "undisturbed (streamKey et) (bz_state s) (bz_state s')" and dn: "bz_done s' = bz_done s"
    and q: "\<And>n. set (bs_queue (bz_state s') n) \<subseteq> set (rd_stream (bs_redis (bz_state s)) (streamKey et))"
  shows "bus_inv hs et s'"
proof (rule bus_invI)
  note c = undisturbed [unfolded undisturbed_def]
  show "sorted_wrt (<) (map xm_ID (rd_stream (bs_redis (bz_state s')) (streamKey et)))" using c bus_invD(1) [OF inv] by simp
  show "0 < xm_ID m \<and> xm_ID m \<le> rd_seq (bs_redis (bz_state s')) \<and> accounted (streamKey et) s' m"
    if "m \<in> set (rd_stream (bs_redis (bz_state s')) (streamKey et))" for m
    using that c bus_invD(2) [OF inv, of m] dn by (simp add: accounted_def undelivered_def cong: option.case_cong)
  show "set (bs_queue (bz_state s') n) \<subseteq> set (rd_stream (bs_redis (bz_state s')) (streamKey et))" for n using q c by simp
  show "bs_pg_faults (bz_state s') = []" using c bus_invD(4) [OF inv] by simp
  show "lst \<le> rd_seq (bs_redis (bz_state s'))" if "rd_group (bs_redis (bz_state s')) (streamKey et) = Some lst" for lst
    using that c bus_invD(5) [OF inv, of lst] by simp
  show "\<exists>m\<in>set (rd_stream (bs_redis (bz_state s')) (streamKey et)). xm_ID m = i \<and> settled hs m errs (bz_state s')"
    if "(i, errs) \<in> set (bz_done s')" for i errs
    using that c bus_invD(6) [OF inv, of i errs] dn settled_mono [of hs _ errs "bz_state s" "bz_state s'"] by auto
qed

lemma calm_faults: "undisturbed k st (st\<lparr>bs_redis := (bs_redis st)\<lparr>rd_faults := f\<rparr>\<rparr>)"
  by (simp add: undisturbed_def)

lemma calm_queue: "undisturbed k st (st\<lparr>bs_queue := q\<rparr>)"
  by (simp add: undisturbed_def)

lemma set_drop_nth: "set (drop_nth i xs) \<subseteq> set xs"
  by (auto simp: drop_nth_def dest: in_set_takeD in_set_dropD)

lemma inv_published:
  assumes inv: "bus_inv hs et s" and "ev_Type env = et" "redis_Publish env (bz_state s) = (r, st)"
  shows "bus_inv hs et (s\<lparr>bz_state := st\<rparr>)"
proof -
  let ?k = "streamKey et" and ?r = "bs_redis (bz_state s)"
  let ?new = "\<lparr>xm_ID = rd_seq ?r + 1, xm_payload = Some (Some env)\<rparr>"
  consider "st = (bz_state s)\<lparr>bs_redis := ?r\<lparr>rd_faults := tl (rd_faults ?r)\<rparr>\<rparr>"
    | (added) "st = (bz_state s)\<lparr>bs_redis := ?r\<lparr>rd_faults := tl (rd_faults ?r), rd_seq := rd_seq ?r + 1, rd_stream := (rd_stream ?r)(?k := rd_stream ?r ?k @ [?new])\<rparr>\<rparr>"
    using assms(2,3) command_cases [of ?r "\<lambda>r. ((), r\<lparr>rd_seq := rd_seq r + 1, rd_stream := (rd_stream r)(?k := rd_stream r ?k @ [\<lparr>xm_ID = rd_seq r + 1, xm_payload = Some (Some env)\<rparr>])\<rparr>)"]
    by (auto simp: redis_Publish_def with_redis_def XAdd_def)
  then show ?thesis
  proof cases
    case 1
    then show ?thesis using bus_invD(3) [OF inv] by (intro inv_calm [OF inv]) (simp_all add: calm_faults)
  next
    case added
    have acc: "accounted ?k (s\<lparr>bz_state := st\<rparr>) m" if "m \<in> set (rd_stream ?r ?k)" for m
      using bus_invD(2) [OF inv that] by (auto simp: accounted_def undelivered_def added split: option.splits)
    have new: "accounted ?k (s\<lparr>bz_state := st\<rparr>) ?new"
      using bus_invD(5) [OF inv] by (auto simp: accounted_def undelivered_def added split: option.splits)
    show ?thesis
    proof (rule bus_invI)
      show "sorted_wrt (<) (map xm_ID (rd_stream (bs_redis (bz_state (s\<lparr>bz_state := st\<rparr>))) ?k))"
        using bus_invD(1,2) [OF inv] by (auto simp: added sorted_wrt_append less_Suc_eq_le)
      show "0 < xm_ID m \<and> xm_ID m \<le> rd_seq (bs_redis (bz_state (s\<lparr>bz_state := st\<rparr>))) \<and> accounted ?k (s\<lparr>bz_state := st\<rparr>) m"
        if "m \<in> set (rd_stream (bs_redis (bz_state (s\<lparr>bz_state := st\<rparr>))) ?k)" for m
        using that acc new bus_invD(2) [OF inv] by (auto simp: added intro: le_SucI)
      show "\<exists>m\<in>set (rd_stream (bs_redis (bz_state (s\<lparr>bz_state := st\<rparr>))) ?k). xm_ID m = i \<and> settled hs m errs (bz_state (s\<lparr>bz_state := st\<rparr>))"
        if "(i, errs) \<in> set (bz_done (s\<lparr>bz_state := st\<rparr>))" for i errs
        by (rule settled_still [OF bus_invD(6) [OF inv, of i errs]]) (use that in \<open>auto simp: added\<close>)
    qed (use bus_invD(3-5) [OF inv] in \<open>auto simp: added le_SucI\<close>)
  qed
qed

lemma inv_started:
  assumes inv: "bus_inv hs et s" and start: "consume_start b et (bz_state s) = Some (up, st)" and s': "bz_state s' = st" "bz_done s' = bz_done s"
  shows "bus_inv hs et s'"
proof -
  let ?k = "streamKey et" and ?r = "bs_redis (bz_state s)"
  obtain ready st0 where g: "ensureConsumerGroup et (bz_state s) = (ready, st0)" by fastforce
  define s0 where "s0 = s\<lparr>bz_state := st0\<rparr>"
  consider "st0 = (bz_state s)\<lparr>bs_redis := ?r\<lparr>rd_faults := tl (rd_faults ?r)\<rparr>\<rparr>"
    | (new) "rd_group ?r ?k = None" "st0 = (bz_state s)\<lparr>bs_redis := ?r\<lparr>rd_faults := tl (rd_faults ?r), rd_group := (rd_group ?r)(?k \<mapsto> 0)\<rparr>\<rparr>"
    using g command_cases [of ?r "\<lambda>r. ((), if rd_group r ?k = None then r\<lparr>rd_group := (rd_group r)(?k \<mapsto> 0)\<rparr> else r)"]
    by (auto simp: ensureConsumerGroup_def with_redis_def XGroupCreateMkStream_def split: if_splits)
  then have inv0: "bus_inv hs et s0"
  proof cases
    case 1
    then show ?thesis using bus_invD(3) [OF inv] by (intro inv_calm [OF inv]) (simp_all add: s0_def calm_faults)
  next
    case new
    show ?thesis
    proof (rule bus_invI)
      show "0 < xm_ID m \<and> xm_ID m \<le> rd_seq (bs_redis (bz_state s0)) \<and> accounted ?k s0 m"
        if "m \<in> set (rd_stream (bs_redis (bz_state s0)) ?k)" for m
        using that bus_invD(2) [OF inv, of m] new by (auto simp: s0_def accounted_def undelivered_def)
      show "\<exists>m\<in>set (rd_stream (bs_redis (bz_state s0)) ?k). xm_ID m = i \<and> settled hs m errs (bz_state s0)" if "(i, errs) \<in> set (bz_done s0)" for i errs
        by (rule settled_still [OF bus_invD(6) [OF inv, of i errs]]) (use that in \<open>auto simp: s0_def new(2)\<close>)
    qed (use bus_invD(1,3-5) [OF inv] in \<open>auto simp: s0_def new(2)\<close>)
  qed
  have "st = st0 \<or> enqueues ?k (rb_consumerName b) st0 st"
    using start g by (auto simp: consume_start_def split: if_splits dest: recoverPending_enqueues)
  then have "undisturbed ?k (bz_state s0) (bz_state s')" "set (bs_queue (bz_state s') n) \<subseteq> set (rd_stream (bs_redis (bz_state s0)) ?k)" for n
    using bus_invD(3) [OF inv0, of n] by (auto simp: s' s0_def undisturbed_def enqueues_def split: if_splits)
  then show ?thesis using inv_calm [OF inv0, of s'] s' by (simp add: s0_def)
qed


lemma in_undelivered_after:
  assumes "sorted_wrt (<) (map xm_ID (rd_stream r k))" "rd_group r k = Some lst" "ms = take 10 (undelivered k r)" "ms \<noteq> []"
    and r': "rd_stream r' k = rd_stream r k" "rd_group r' k = Some (xm_ID (last ms))"
  shows "undelivered k r' = drop 10 (undelivered k r)"
proof -
  let ?u = "undelivered k r"
  have u: "?u = filter (\<lambda>m. lst < xm_ID m) (rd_stream r k)" using assms(2) by (simp add: undelivered_def)
  have s: "sorted_wrt (<) (map xm_ID ?u)" using assms(1) sorted_wrt_filter [of "\<lambda>a b. xm_ID a < xm_ID b"] by (simp add: u sorted_wrt_map)
  have l: "lst < xm_ID (last ms)" using last_in_set [OF assms(4)] assms(3) by (auto simp: u dest: in_set_takeD)
  have "undelivered k r' = filter (\<lambda>m. xm_ID (last ms) < xm_ID m) ?u"
    using l by (auto simp: undelivered_def r' assms(2) intro!: filter_cong)
  also have "\<dots> = drop 10 ?u" unfolding assms(3) by (rule later_than_take [OF s]) (use assms(3,4) in auto)
  finally show ?thesis .
qed

lemma undelivered_sub: "set (undelivered k r) \<subseteq> set (rd_stream r k)"
  by (auto simp: undelivered_def split: option.splits)

lemma inv_turned:
  assumes inv: "bus_inv hs et s"
  shows "bus_inv hs et (s\<lparr>bz_state := consume_turn b et (bz_state s)\<rparr>)"
proof (cases b et "bz_state s" rule: consume_turn_effect)
  case idle
  then show ?thesis using bus_invD(3) [OF inv] by (intro inv_calm [OF inv]) (simp_all add: calm_faults)
next
  case (batch lst ms)
  let ?k = "streamKey et" and ?r = "bs_redis (bz_state s)" and ?s' = "s\<lparr>bz_state := consume_turn b et (bz_state s)\<rparr>"
  have ms: "set ms \<subseteq> set (rd_stream ?r ?k)" using batch(2) undelivered_sub [of ?k ?r] by (auto dest: in_set_takeD)
  have u: "undelivered ?k (bs_redis (bz_state ?s')) = drop 10 (undelivered ?k ?r)"
    by (rule in_undelivered_after [OF bus_invD(1) [OF inv] batch(1-3)]) (simp_all add: batch(4) delivered_def)
  show ?thesis
  proof (rule bus_invI)
    show "0 < xm_ID m \<and> xm_ID m \<le> rd_seq (bs_redis (bz_state ?s')) \<and> accounted ?k ?s' m" if m: "m \<in> set (rd_stream (bs_redis (bz_state ?s')) ?k)" for m
    proof -
      have old: "0 < xm_ID m \<and> xm_ID m \<le> rd_seq ?r \<and> accounted ?k s m" using bus_invD(2) [OF inv, of m] m by (simp add: batch(4) delivered_def)
      have "m \<in> set ms \<or> m \<in> set (drop 10 (undelivered ?k ?r))" if "m \<in> set (undelivered ?k ?r)"
        using that batch(2) by (metis Un_iff append_take_drop_id set_append)
      then show ?thesis using old u by (auto simp: accounted_def batch(4) delivered_def image_iff)
    qed
    show "lst' \<le> rd_seq (bs_redis (bz_state ?s'))" if "rd_group (bs_redis (bz_state ?s')) ?k = Some lst'" for lst'
      using that bus_invD(2) [OF inv, of "last ms"] ms last_in_set [OF batch(3)] by (auto simp: batch(4) delivered_def)
    show "\<exists>m\<in>set (rd_stream (bs_redis (bz_state ?s')) ?k). xm_ID m = i \<and> settled hs m errs (bz_state ?s')" if "(i, errs) \<in> set (bz_done ?s')" for i errs
      by (rule settled_still [OF bus_invD(6) [OF inv, of i errs]]) (use that in \<open>auto simp: batch(4) delivered_def\<close>)
  qed (use bus_invD(1,3,4) [OF inv] ms in \<open>auto simp: batch(4) delivered_def\<close>)
qed

lemma inv_worked:
  assumes inv: "bus_inv hs et s" and b: "rb_dlqFallback b" "rb_handlers b et = hs"
    and i: "i < length (bs_queue (bz_state s) n)" "m = bs_queue (bz_state s) n ! i"
    and p: "processMessage c b et m (unqueue n i (bz_state s)) = (errs, st)"
  shows "bus_inv hs et (s\<lparr>bz_state := st, bz_done := (xm_ID m, errs) # bz_done s\<rparr>)"
proof -
  let ?k = "streamKey et" and ?s' = "s\<lparr>bz_state := st, bz_done := (xm_ID m, errs) # bz_done s\<rparr>"
  have "m \<in> set (bs_queue (bz_state s) n)" using i by simp
  then have m: "m \<in> set (rd_stream (bs_redis (bz_state s)) ?k)" using bus_invD(3) [OF inv, of n] by blast
  have pg: "bs_pg_faults (unqueue n i (bz_state s)) = []" using bus_invD(4) [OF inv] by (simp add: unqueue_def)
  obtain st1 where st1: "keeps (unqueue n i (bz_state s)) st1" "settled hs m errs st1" and st: "st = ack ?k (xm_ID m) st1"
    using processMessage_effect [OF b(1) pg p] b(2) by blast
  define s1 where "s1 = s\<lparr>bz_state := st1\<rparr>"
  have inv1: "bus_inv hs et s1"
    by (rule inv_calm [OF inv]) (use st1(1) bus_invD(3) [OF inv] set_drop_nth in \<open>auto simp: s1_def undisturbed_def keeps_def unqueue_def dest!: subsetD [OF set_drop_nth] split: if_splits\<close>)
  have same: "rd_stream (bs_redis (bz_state s)) = rd_stream (bs_redis st1)" using st1(1) by (simp add: keeps_def unqueue_def)
  have ack: "rd_stream (bs_redis st) = rd_stream (bs_redis st1)" "rd_seq (bs_redis st) = rd_seq (bs_redis st1)" "rd_group (bs_redis st) = rd_group (bs_redis st1)"
    "rd_list (bs_redis st) = rd_list (bs_redis st1)" "bs_event_dlq st = bs_event_dlq st1" "bs_queue st = bs_queue st1" "bs_pg_faults st = bs_pg_faults st1"
    "\<And>j n. (j, n) \<in> set (rd_pel (bs_redis st1) ?k) \<Longrightarrow> j \<noteq> xm_ID m \<Longrightarrow> (j, n) \<in> set (rd_pel (bs_redis st) ?k)"
    using ack_effect [of ?k "xm_ID m" st1] st by auto
  have settled: "settled hs m' errs' st" if "settled hs m' errs' st1" for m' errs' using that by (rule settled_mono) (simp_all add: ack)
  show ?thesis
  proof (rule bus_invI)
    show "0 < xm_ID m' \<and> xm_ID m' \<le> rd_seq (bs_redis (bz_state ?s')) \<and> accounted ?k ?s' m'" if "m' \<in> set (rd_stream (bs_redis (bz_state ?s')) ?k)" for m'
    proof -
      have "0 < xm_ID m' \<and> xm_ID m' \<le> rd_seq (bs_redis st1) \<and> accounted ?k s1 m'" using that bus_invD(2) [OF inv1, of m'] ack(1) by (simp add: s1_def)
      then show ?thesis using ack by (cases "xm_ID m' = xm_ID m") (auto simp: accounted_def undelivered_def s1_def cong: option.case_cong)
    qed
    show "\<exists>m'\<in>set (rd_stream (bs_redis (bz_state ?s')) ?k). xm_ID m' = i' \<and> settled hs m' errs' (bz_state ?s')" if "(i', errs') \<in> set (bz_done ?s')" for i' errs'
    proof (cases "(i', errs') = (xm_ID m, errs)")
      case True
      then show ?thesis using m same ack(1) settled st1(2) by auto
    next
      case False
      then show ?thesis using that bus_invD(6) [OF inv1, of i' errs'] settled ack(1) by (auto simp: s1_def)
    qed
  qed (use bus_invD(1,3,4,5) [OF inv1] ack in \<open>auto simp: s1_def\<close>)
qed

lemma inv_bus_step:
  assumes "bus_step c bus et s s'" "bus_inv hs et s" "\<And>n. rb_dlqFallback (bus n)" "\<And>n. rb_handlers (bus n) et = hs"
  shows "bus_inv hs et s'"
  using assms(1)
proof cases
  case (published env r st)
  then show ?thesis using inv_published [OF assms(2)] by simp
next
  case (started n up st)
  then show ?thesis using inv_started [OF assms(2) started(3), of s'] by simp
next
  case (turned n)
  then show ?thesis using inv_turned [OF assms(2)] by simp
next
  case (worked n i m errs st)
  then show ?thesis using inv_worked [OF assms(2,3,4)] by simp
next
  case (dropped n i)
  then show ?thesis using bus_invD(3) [OF assms(2)]
    by (intro inv_calm [OF assms(2)]) (auto simp: unqueue_def calm_queue dest!: subsetD [OF set_drop_nth] split: if_splits)
next
  case (died n)
  then show ?thesis using bus_invD(3) [OF assms(2)] by (intro inv_calm [OF assms(2)]) (auto simp: calm_queue)
qed

definition bus_init :: "'w bus_state \<Rightarrow> 'w bus_sys" where
  "bus_init st = \<lparr>bz_state = st, bz_up = (\<lambda>_. False), bz_done = []\<rparr>"

text \<open>An installation before its first event: a fresh Redis that may fail at any command, and a database that does not.\<close>
definition fresh_bus :: "'w bus_state \<Rightarrow> bool" where
  "fresh_bus st \<longleftrightarrow> (\<forall>k. rd_stream (bs_redis st) k = [] \<and> rd_group (bs_redis st) k = None \<and> bs_queue st k = []) \<and> bs_pg_faults st = []"

lemma bus_inv_reachable:
  assumes "(bus_step c bus et)\<^sup>*\<^sup>* (bus_init st) s" "fresh_bus st" "\<And>n. rb_dlqFallback (bus n)" "\<And>n. rb_handlers (bus n) et = hs"
  shows "bus_inv hs et s"
  using assms(1)
proof (induction rule: rtranclp_induct)
  case base
  show ?case using assms(2) by (auto simp: bus_inv_def bus_init_def fresh_bus_def)
next
  case (step s s')
  then show ?case using inv_bus_step [OF step(2,3)] assms(3,4) by blast
qed


section \<open>A restarted consumer finishes its work\<close>

text \<open>The entries after an identifier that are pending for a consumer.\<close>
definition pending_of :: "string \<Rightarrow> string \<Rightarrow> nat \<Rightarrow> redis \<Rightarrow> XMessage list" where
  "pending_of k n start r = filter (\<lambda>m. start < xm_ID m \<and> (xm_ID m, n) \<in> set (rd_pel r k)) (rd_stream r k)"

text \<open>The recovery ends and dispatches each pending entry of the consumer once, in the order of the stream.\<close>
lemma recoverPending_complete:
  assumes "rd_faults (bs_redis s) = []" "rd_group (bs_redis s) k = Some lst" "sorted_wrt (<) (map xm_ID (rd_stream (bs_redis s) k))"
  shows "recoverPending b k (dispatch b) start (s\<lparr>bs_queue := q\<rparr>) =
    Some (s\<lparr>bs_queue := q(rb_consumerName b := q (rb_consumerName b) @ pending_of k (rb_consumerName b) start (bs_redis s))\<rparr>)"
proof (induction "length (pending_of k (rb_consumerName b) start (bs_redis s))" arbitrary: start q rule: less_induct)
  case less
  let ?n = "rb_consumerName b" and ?mine = "\<lambda>start. pending_of k (rb_consumerName b) start (bs_redis s)"
  let ?ms = "take 10 (?mine start)"
  have read: "with_redis (XReadGroup_pending k ?n start 10) (s\<lparr>bs_queue := q\<rparr>) = (Some ?ms, s\<lparr>bs_queue := q\<rparr>)"
    using assms(1,2) by (simp add: with_redis_def XReadGroup_pending_def group_read_def command_ok on_group_def pending_of_def)
  show ?case
  proof (cases "?mine start = []")
    case True
    then show ?thesis using read by (subst recoverPending.simps) simp
  next
    case False
    let ?start = "xm_ID (last ?ms)"
    have ne: "?ms \<noteq> []" using False by simp
    have "last ?ms \<in> set (?mine start)" using last_in_set [OF ne] by (rule in_set_takeD)
    then have "start < ?start" by (simp add: pending_of_def)
    then have "?mine ?start = filter (\<lambda>m. ?start < xm_ID m) (?mine start)" by (auto simp: pending_of_def intro!: filter_cong)
    also have "\<dots> = drop 10 (?mine start)"
      by (rule later_than_take) (use assms(3) False sorted_wrt_filter [of "\<lambda>a b. xm_ID a < xm_ID b"] in \<open>auto simp: pending_of_def sorted_wrt_map\<close>)
    finally have rest: "?mine ?start = drop 10 (?mine start)" .
    then have "length (?mine ?start) < length (?mine start)" using False by simp
    note IH = less [OF this, of "q(?n := q ?n @ ?ms)"]
    have join: "(q ?n @ ?ms) @ ?mine ?start = q ?n @ ?mine start" by (simp add: rest)
    have step: "recoverPending b k (dispatch b) start (s\<lparr>bs_queue := q\<rparr>) = recoverPending b k (dispatch b) ?start (s\<lparr>bs_queue := q(?n := q ?n @ ?ms)\<rparr>)"
      using read ne by (subst recoverPending.simps) (simp add: dispatch_all)
    show ?thesis unfolding step IH using join by simp
  qed
qed

text \<open>A consumer that runs while Redis works, with where the entries of the stream are.\<close>
definition busy :: "'w handler list \<Rightarrow> string \<Rightarrow> string \<Rightarrow> XMessage list \<Rightarrow> (XMessage \<Rightarrow> bool) \<Rightarrow> 'w bus_sys \<Rightarrow> bool" where
  "busy hs et n msgs other s \<longleftrightarrow> bus_inv hs et s \<and> bz_up s n \<and> rd_faults (bs_redis (bz_state s)) = [] \<and> rd_group (bs_redis (bz_state s)) (streamKey et) \<noteq> None
     \<and> rd_stream (bs_redis (bz_state s)) (streamKey et) = msgs
     \<and> (\<forall>m\<in>set msgs. m \<in> set (undelivered (streamKey et) (bs_redis (bz_state s))) \<or> m \<in> set (bs_queue (bz_state s) n) \<or> xm_ID m \<in> fst ` set (bz_done s) \<or> other m)"

lemma busy_turn:
  assumes "busy hs et n msgs other s" "rb_consumerName b = n" "undelivered (streamKey et) (bs_redis (bz_state s)) \<noteq> []"
  defines "s' \<equiv> s\<lparr>bz_state := consume_turn b et (bz_state s)\<rparr>"
  shows "busy hs et n msgs other s' \<and> length (undelivered (streamKey et) (bs_redis (bz_state s'))) < length (undelivered (streamKey et) (bs_redis (bz_state s)))"
proof (cases b et "bz_state s" rule: consume_turn_effect)
  case idle
  then show ?thesis using assms(1,3) by (simp add: busy_def)
next
  case (batch lst ms)
  let ?k = "streamKey et" and ?r = "bs_redis (bz_state s)"
  have inv: "bus_inv hs et s" and busy: "bz_up s n" "rd_faults ?r = []" "rd_stream ?r ?k = msgs"
    "\<And>m. m \<in> set msgs \<Longrightarrow> m \<in> set (undelivered ?k ?r) \<or> m \<in> set (bs_queue (bz_state s) n) \<or> xm_ID m \<in> fst ` set (bz_done s) \<or> other m"
    using assms(1) by (simp_all add: busy_def)
  have u: "undelivered ?k (bs_redis (bz_state s')) = drop 10 (undelivered ?k ?r)"
    by (rule in_undelivered_after [OF bus_invD(1) [OF inv] batch(1-3)]) (simp_all add: s'_def batch(4) delivered_def)
  have "m \<in> set (undelivered ?k (bs_redis (bz_state s'))) \<or> m \<in> set (bs_queue (bz_state s') n) \<or> xm_ID m \<in> fst ` set (bz_done s') \<or> other m"
    if "m \<in> set msgs" for m
  proof -
    have "m \<in> set ms \<or> m \<in> set (drop 10 (undelivered ?k ?r))" if "m \<in> set (undelivered ?k ?r)"
      using that batch(2) by (metis Un_iff append_take_drop_id set_append)
    then show ?thesis using busy(4) [OF that] u assms(2) by (auto simp: s'_def batch(4) delivered_def)
  qed
  then have "busy hs et n msgs other s'"
    using busy inv_turned [OF inv, of b] by (simp add: busy_def s'_def batch(4) delivered_def)
  then show ?thesis using u assms(3) by simp
qed

lemma busy_work:
  assumes busy: "busy hs et n msgs other s" and b: "rb_dlqFallback b" "rb_handlers b et = hs"
    and q: "bs_queue (bz_state s) n = m # q" and p: "processMessage c b et m (unqueue n 0 (bz_state s)) = (errs, st)"
  defines "s' \<equiv> s\<lparr>bz_state := st, bz_done := (xm_ID m, errs) # bz_done s\<rparr>"
  shows "busy hs et n msgs other s' \<and> bs_queue (bz_state s') n = q
    \<and> undelivered (streamKey et) (bs_redis (bz_state s')) = undelivered (streamKey et) (bs_redis (bz_state s))"
proof -
  have inv: "bus_inv hs et s" using busy by (simp add: busy_def)
  have pg: "bs_pg_faults (unqueue n 0 (bz_state s)) = []" using bus_invD(4) [OF inv] by (simp add: unqueue_def)
  have inv': "bus_inv hs et s'" unfolding s'_def by (rule inv_worked [OF inv b, of 0 n]) (use q p in simp_all)
  obtain st1 where st1: "keeps (unqueue n 0 (bz_state s)) st1" and st: "st = ack (streamKey et) (xm_ID m) st1"
    using processMessage_effect [OF b(1) pg p] by blast
  have eff: "rd_stream (bs_redis st) = rd_stream (bs_redis (bz_state s))" "rd_group (bs_redis st) = rd_group (bs_redis (bz_state s))"
    "bs_queue st n = q" "rd_faults (bs_redis (bz_state s)) = [] \<Longrightarrow> rd_faults (bs_redis st) = []"
    using ack_effect [of "streamKey et" "xm_ID m" st1] st st1 q by (auto simp: keeps_def unqueue_def drop_nth_def)
  then have und: "undelivered (streamKey et) (bs_redis st) = undelivered (streamKey et) (bs_redis (bz_state s))" by (simp add: undelivered_def cong: option.case_cong)
  show ?thesis using busy inv' eff und q by (auto simp: busy_def s'_def)
qed


lemma busy_drains:
  assumes "busy hs et n msgs other s" "rb_consumerName (bus n) = n" "rb_dlqFallback (bus n)" "rb_handlers (bus n) et = hs"
  shows "\<exists>s'. (bus_step c bus et)\<^sup>*\<^sup>* s s' \<and> (\<forall>m\<in>set msgs. xm_ID m \<in> fst ` set (bz_done s') \<or> other m)"
  using assms(1)
proof (induction "(length (undelivered (streamKey et) (bs_redis (bz_state s))), length (bs_queue (bz_state s) n))" arbitrary: s
    rule: wf_induct_rule [OF wf_lex_prod [OF wf_less wf_less]])
  case (1 s)
  let ?k = "streamKey et"
  have up: "bz_up s n" using "1.prems" by (simp add: busy_def)
  show ?case
  proof (cases "undelivered ?k (bs_redis (bz_state s)) = []")
    case False
    define s1 where "s1 = s\<lparr>bz_state := consume_turn (bus n) et (bz_state s)\<rparr>"
    have t: "busy hs et n msgs other s1 \<and> length (undelivered ?k (bs_redis (bz_state s1))) < length (undelivered ?k (bs_redis (bz_state s)))"
      unfolding s1_def by (rule busy_turn [OF "1.prems" assms(2) False])
    have "bus_step c bus et s s1" unfolding s1_def by (rule bus_step.turned [OF up])
    moreover obtain s' where "(bus_step c bus et)\<^sup>*\<^sup>* s1 s' \<and> (\<forall>m\<in>set msgs. xm_ID m \<in> fst ` set (bz_done s') \<or> other m)"
      using "1.hyps" [of s1] t by auto
    ultimately show ?thesis by (meson converse_rtranclp_into_rtranclp)
  next
    case u: True
    show ?thesis
    proof (cases "bs_queue (bz_state s) n")
      case Nil
      then show ?thesis using "1.prems" u by (intro exI [of _ s]) (auto simp: busy_def)
    next
      case (Cons m q)
      obtain errs st where p: "processMessage c (bus n) et m (unqueue n 0 (bz_state s)) = (errs, st)" by fastforce
      define s1 where "s1 = s\<lparr>bz_state := st, bz_done := (xm_ID m, errs) # bz_done s\<rparr>"
      have t: "busy hs et n msgs other s1 \<and> bs_queue (bz_state s1) n = q \<and> undelivered ?k (bs_redis (bz_state s1)) = undelivered ?k (bs_redis (bz_state s))"
        unfolding s1_def by (rule busy_work [OF "1.prems" assms(3,4) Cons p])
      have "bus_step c bus et s s1" unfolding s1_def by (rule bus_step.worked [OF up, of 0]) (use Cons p in simp_all)
      moreover obtain s' where "(bus_step c bus et)\<^sup>*\<^sup>* s1 s' \<and> (\<forall>m\<in>set msgs. xm_ID m \<in> fst ` set (bz_done s') \<or> other m)"
        using "1.hyps" [of s1] t Cons by auto
      ultimately show ?thesis by (meson converse_rtranclp_into_rtranclp)
    qed
  qed
qed

lemma restart_is_busy:
  assumes inv: "bus_inv hs et s" and down: "\<not> bz_up s n" and f: "rd_faults (bs_redis (bz_state s)) = []" and b: "rb_consumerName (bus n) = n"
  shows "\<exists>s1. bus_step c bus et s s1 \<and> busy hs et n (rd_stream (bs_redis (bz_state s)) (streamKey et))
    (\<lambda>m. \<exists>n'. n' \<noteq> n \<and> (xm_ID m, n') \<in> set (rd_pel (bs_redis (bz_state s)) (streamKey et))) s1"
proof -
  let ?k = "streamKey et" and ?r = "bs_redis (bz_state s)"
  define lst where "lst = (case rd_group ?r ?k of None \<Rightarrow> 0 | Some l \<Rightarrow> l)"
  define st0 where "st0 = (bz_state s)\<lparr>bs_redis := ?r\<lparr>rd_group := (rd_group ?r)(?k \<mapsto> lst)\<rparr>\<rparr>"
  have g: "ensureConsumerGroup et (bz_state s) = (True, st0)"
    using f by (auto simp: ensureConsumerGroup_def with_redis_def XGroupCreateMkStream_def command_ok st0_def lst_def fun_upd_idem split: option.splits)
  define st where "st = st0\<lparr>bs_queue := (bs_queue st0)(n := bs_queue st0 n @ pending_of ?k n 0 (bs_redis st0))\<rparr>"
  have "recoverPending (bus n) ?k (dispatch (bus n)) 0 (st0\<lparr>bs_queue := bs_queue st0\<rparr>) = Some st"
    using recoverPending_complete [of st0 ?k lst "bus n" 0 "bs_queue st0"] f bus_invD(1) [OF inv] by (simp add: b st_def st0_def)
  then have start: "consume_start (bus n) et (bz_state s) = Some (True, st)" using g by (simp add: consume_start_def)
  define s1 where "s1 = s\<lparr>bz_state := st, bz_up := (bz_up s)(n := True)\<rparr>"
  have step: "bus_step c bus et s s1" unfolding s1_def by (rule bus_step.started [where bus = bus, OF down start])
  have inv1: "bus_inv hs et s1" by (rule inv_started [OF inv start]) (simp_all add: s1_def)
  have pl: "m \<in> set (undelivered ?k (bs_redis st)) \<or> m \<in> set (bs_queue st n) \<or> xm_ID m \<in> fst ` set (bz_done s) \<or> (\<exists>n'. n' \<noteq> n \<and> (xm_ID m, n') \<in> set (rd_pel ?r ?k))"
    if m: "m \<in> set (rd_stream ?r ?k)" for m
  proof -
    have "m \<in> set (undelivered ?k (bs_redis st))" if "m \<in> set (undelivered ?k ?r)"
      using that bus_invD(2) [OF inv m] by (auto simp: undelivered_def st_def st0_def lst_def split: option.splits)
    moreover have "m \<in> set (bs_queue st n)" if "(xm_ID m, n) \<in> set (rd_pel ?r ?k)"
      using that m bus_invD(2) [OF inv m] by (simp add: st_def st0_def pending_of_def)
    moreover have "m \<in> set (undelivered ?k ?r) \<or> (\<exists>n'. (xm_ID m, n') \<in> set (rd_pel ?r ?k)) \<or> xm_ID m \<in> fst ` set (bz_done s)"
      using bus_invD(2) [OF inv m] by (simp add: accounted_def)
    ultimately show ?thesis by metis
  qed
  have "busy hs et n (rd_stream ?r ?k) (\<lambda>m. \<exists>n'. n' \<noteq> n \<and> (xm_ID m, n') \<in> set (rd_pel ?r ?k)) s1"
    unfolding busy_def using inv1 f pl by (simp add: s1_def st_def st0_def)
  then show ?thesis using step by blast
qed

text \<open>
  C14: a consumer that is started again finishes its work. In every reachable state from which on Redis works, starting the consumer of a name that does not run leads, by reading and
  processing alone, to a state in which every event that was in the stream has been processed, unless it is pending for a consumer of another name.
\<close>
theorem restarted_consumer_finishes:
  assumes "(bus_step c bus et)\<^sup>*\<^sup>* (bus_init st) s" "fresh_bus st" "\<And>n. rb_dlqFallback (bus n)" "\<And>n. rb_handlers (bus n) et = hs"
    and "rb_consumerName (bus n) = n" "\<not> bz_up s n" "rd_faults (bs_redis (bz_state s)) = []"
  shows "\<exists>s'. (bus_step c bus et)\<^sup>*\<^sup>* s s' \<and> (\<forall>m\<in>set (rd_stream (bs_redis (bz_state s)) (streamKey et)).
    xm_ID m \<in> fst ` set (bz_done s') \<or> (\<exists>n'. n' \<noteq> n \<and> (xm_ID m, n') \<in> set (rd_pel (bs_redis (bz_state s)) (streamKey et))))"
proof -
  have inv: "bus_inv hs et s" by (rule bus_inv_reachable [OF assms(1-4)])
  obtain s1 where s1: "bus_step c bus et s s1" and busy: "busy hs et n (rd_stream (bs_redis (bz_state s)) (streamKey et))
    (\<lambda>m. \<exists>n'. n' \<noteq> n \<and> (xm_ID m, n') \<in> set (rd_pel (bs_redis (bz_state s)) (streamKey et))) s1"
    using restart_is_busy [where bus = bus and c = c, OF inv assms(6,7,5)] by blast
  then show ?thesis using busy_drains [where bus = bus, OF busy assms(5) assms(3) [of n] assms(4) [of n], of c] by (meson converse_rtranclp_into_rtranclp)
qed


section \<open>Entries of a consumer that does not come back\<close>

text \<open>
  The name of a consumer contains the number of its process, so a new process has in general another name. An entry that is pending for a name under which no process
  runs any more is neither read nor processed by anybody: it stays pending for ever.
\<close>
definition stranded :: "string \<Rightarrow> string \<Rightarrow> nat \<Rightarrow> 'w bus_sys \<Rightarrow> bool" where
  "stranded et n i s \<longleftrightarrow> \<not> bz_up s n \<and> (i, n) \<in> set (rd_pel (bs_redis (bz_state s)) (streamKey et))
     \<and> (\<forall>n'. n' \<noteq> n \<longrightarrow> (i, n') \<notin> set (rd_pel (bs_redis (bz_state s)) (streamKey et)))
     \<and> (\<exists>lst. rd_group (bs_redis (bz_state s)) (streamKey et) = Some lst \<and> i \<le> lst)
     \<and> (\<forall>n'. i \<notin> xm_ID ` set (bs_queue (bz_state s) n')) \<and> i \<notin> fst ` set (bz_done s)"

lemma stranded_calm:
  assumes "stranded et n i s" "undisturbed (streamKey et) (bz_state s) (bz_state s')" "bz_done s' = bz_done s" "\<not> bz_up s' n"
    and "\<And>n'. i \<notin> xm_ID ` set (bs_queue (bz_state s') n')"
  shows "stranded et n i s'"
  using assms unfolding stranded_def undisturbed_def by simp

lemma stranded_started:
  assumes st: "stranded et n i s" and start: "consume_start b et (bz_state s) = Some (up, st')" and b: "up \<longrightarrow> rb_consumerName b \<noteq> n"
    and s': "bz_state s' = st'" "bz_done s' = bz_done s" "\<not> bz_up s' n"
  shows "stranded et n i s'"
proof -
  let ?k = "streamKey et" and ?r = "bs_redis (bz_state s)"
  obtain ready st0 where g: "ensureConsumerGroup et (bz_state s) = (ready, st0)" by fastforce
  obtain lst where "rd_group ?r ?k = Some lst" using st by (auto simp: stranded_def)
  then have st0: "st0 = (bz_state s)\<lparr>bs_redis := ?r\<lparr>rd_faults := tl (rd_faults ?r)\<rparr>\<rparr>"
    using g command_cases [of ?r "\<lambda>r. ((), if rd_group r ?k = None then r\<lparr>rd_group := (rd_group r)(?k \<mapsto> 0)\<rparr> else r)"]
    by (auto simp: ensureConsumerGroup_def with_redis_def XGroupCreateMkStream_def)
  have "st' = st0 \<or> up \<and> enqueues ?k (rb_consumerName b) st0 st'"
    using start g by (auto simp: consume_start_def split: if_splits dest: recoverPending_enqueues)
  then show ?thesis
  proof
    assume "st' = st0"
    then show ?thesis using st by (intro stranded_calm [OF st]) (simp_all add: s' st0 calm_faults stranded_def)
  next
    assume e: "up \<and> enqueues ?k (rb_consumerName b) st0 st'"
    then obtain ms f where ms: "set ms \<subseteq> {m \<in> set (rd_stream (bs_redis st0) ?k). (xm_ID m, rb_consumerName b) \<in> set (rd_pel (bs_redis st0) ?k)}"
      and eq: "st' = st0\<lparr>bs_redis := (bs_redis st0)\<lparr>rd_faults := f\<rparr>, bs_queue := (bs_queue st0)(rb_consumerName b := bs_queue st0 (rb_consumerName b) @ ms)\<rparr>"
      unfolding enqueues_def by blast
    have "i \<notin> xm_ID ` set ms" using ms st b e by (auto simp: st0 stranded_def)
    then have "i \<notin> xm_ID ` set (bs_queue st' n')" for n' using st by (auto simp: eq st0 stranded_def)
    then show ?thesis by (intro stranded_calm [OF st]) (simp_all add: s' eq st0 undisturbed_def)
  qed
qed

lemma stranded_step:
  assumes step: "bus_step c bus et s s'" and st: "stranded et n i s" and inv: "bus_inv hs et s"
    and bus: "\<And>n. rb_dlqFallback (bus n)" "\<And>n. rb_consumerName (bus n) = n" and down: "\<not> bz_up s' n"
  shows "stranded et n i s'"
  using step
proof cases
  case (published env r st')
  then have "rd_pel (bs_redis st') = rd_pel (bs_redis (bz_state s)) \<and> rd_group (bs_redis st') = rd_group (bs_redis (bz_state s)) \<and> bs_queue st' = bs_queue (bz_state s)"
    using command_cases [of "bs_redis (bz_state s)" "\<lambda>r. ((), r\<lparr>rd_seq := rd_seq r + 1, rd_stream := (rd_stream r)(streamKey et := rd_stream r (streamKey et) @ [\<lparr>xm_ID = rd_seq r + 1, xm_payload = Some (Some env)\<rparr>])\<rparr>)"]
    by (auto simp: redis_Publish_def with_redis_def XAdd_def)
  then show ?thesis using st published by (simp add: stranded_def)
next
  case (started n' up st')
  have "up \<longrightarrow> rb_consumerName (bus n') \<noteq> n" using started down bus(2) by auto
  then show ?thesis using stranded_started [OF st started(3), of s'] started(1) down by simp
next
  case (turned n')
  obtain lst where lst: "rd_group (bs_redis (bz_state s)) (streamKey et) = Some lst" "i \<le> lst" using st by (auto simp: stranded_def)
  show ?thesis
  proof (cases "bus n'" et "bz_state s" rule: consume_turn_effect)
    case idle
    then show ?thesis using st turned by (intro stranded_calm [OF st]) (simp_all add: calm_faults stranded_def)
  next
    case (batch lst' ms)
    have later: "lst < xm_ID m" if "m \<in> set ms" for m using that batch(2) lst(1) by (auto simp: undelivered_def dest: in_set_takeD)
    then have "lst < xm_ID (last ms)" "i \<notin> xm_ID ` set ms" using batch(3) lst(2) by (auto dest: leD)
    then show ?thesis using st lst turned batch(4) by (auto simp: stranded_def delivered_def)
  qed
next
  case (worked n' j m errs st')
  have pg: "bs_pg_faults (unqueue n' j (bz_state s)) = []" using bus_invD(4) [OF inv] by (simp add: unqueue_def)
  obtain st1 where st1: "keeps (unqueue n' j (bz_state s)) st1" and ack: "st' = ack (streamKey et) (xm_ID m) st1"
    using processMessage_effect [OF bus(1) pg worked(5)] by blast
  have "m \<in> set (bs_queue (bz_state s) n')" using worked by simp
  then have i: "i \<noteq> xm_ID m" using st by (auto simp: stranded_def)
  have "bs_queue st' = bs_queue (unqueue n' j (bz_state s))" "rd_group (bs_redis st') = rd_group (bs_redis (bz_state s))"
    "\<And>x. (i, x) \<in> set (rd_pel (bs_redis st') (streamKey et)) \<longleftrightarrow> (i, x) \<in> set (rd_pel (bs_redis (bz_state s)) (streamKey et))"
    using ack_effect [of "streamKey et" "xm_ID m" st1] ack st1 i by (auto simp: keeps_def unqueue_def)
  moreover have "i \<notin> xm_ID ` set (bs_queue (unqueue n' j (bz_state s)) x)" for x
    using st by (auto simp: stranded_def unqueue_def dest!: subsetD [OF set_drop_nth] split: if_splits)
  ultimately show ?thesis using st worked(1) i by (simp add: stranded_def)
next
  case (dropped n' j)
  then show ?thesis using st
    by (intro stranded_calm [OF st]) (auto simp: unqueue_def calm_queue stranded_def dest!: subsetD [OF set_drop_nth] split: if_splits)
next
  case (died n')
  then show ?thesis using st down by (intro stranded_calm [OF st]) (auto simp: calm_queue stranded_def)
qed

lemma stranded_for_ever:
  assumes "(\<lambda>s s'. bus_step c bus et s s' \<and> \<not> bz_up s' n)\<^sup>*\<^sup>* s s'" "stranded et n i s" "bus_inv hs et s"
    and "\<And>n. rb_dlqFallback (bus n)" "\<And>n. rb_consumerName (bus n) = n" "\<And>n. rb_handlers (bus n) et = hs"
  shows "stranded et n i s' \<and> bus_inv hs et s'"
  using assms(1)
proof (induction rule: rtranclp_induct)
  case (step s' s'')
  then have "stranded et n i s''" using stranded_step [of c bus et s' s'' n i hs] assms(4,5) by blast
  moreover have "bus_inv hs et s''" using inv_bus_step [of c bus et s' s'' hs] step assms(4,6) by blast
  ultimately show ?case by blast
qed (use assms(2,3) in blast)

section \<open>Replays\<close>

text \<open>The administrator's replay takes an entry from the list before it adds the event to the stream: when that fails, the event is in neither.\<close>
lemma failed_replay_loses_event:
  assumes "rd_list r (dlqKey et) = [Some d]" "rd_faults r = [False, True]"
  shows "replayFromKey et 1 r = (0, r\<lparr>rd_faults := [], rd_list := (rd_list r)(dlqKey et := [])\<rparr>)"
  using assms by (simp add: replayFromKey_def eval_nat_numeral LPop_def XAdd_def command_def)

text \<open>While Redis works, a replay with a large enough limit brings every event of the list back to the end of the stream, in order.\<close>
lemma replay_loop_moves:
  assumes "rd_faults r = []" "rd_list r (dlqKey et) = map Some ds" "length ds \<le> n"
  shows "fst (replay_loop et n r) = int (length ds) \<and> rd_list (snd (replay_loop et n r)) (dlqKey et) = []
    \<and> map xm_payload (rd_stream (snd (replay_loop et n r)) (streamKey et)) = map xm_payload (rd_stream r (streamKey et)) @ map (\<lambda>d. Some (Some (de_Envelope d))) ds"
  using assms
proof (induction n arbitrary: r ds)
  case (Suc n)
  show ?case
  proof (cases ds)
    case Nil
    then show ?thesis using Suc.prems by (simp add: LPop_def command_ok)
  next
    case (Cons d ds')
    define r1 where "r1 = r\<lparr>rd_list := (rd_list r)(dlqKey et := map Some ds'), rd_seq := rd_seq r + 1,
      rd_stream := (rd_stream r)(streamKey et := rd_stream r (streamKey et) @ [\<lparr>xm_ID = rd_seq r + 1, xm_payload = Some (Some (de_Envelope d))\<rparr>])\<rparr>"
    have "replay_loop et (Suc n) r = (case replay_loop et n r1 of (k, r) \<Rightarrow> (k + 1, r))"
      using Suc.prems Cons by (simp add: LPop_def XAdd_def command_ok r1_def)
    moreover have "rd_faults r1 = []" "rd_list r1 (dlqKey et) = map Some ds'" "length ds' \<le> n" using Suc.prems Cons by (simp_all add: r1_def)
    note Suc.IH [OF this]
    ultimately show ?thesis using Cons by (simp add: r1_def split: prod.splits)
  qed
qed simp

section \<open>A run\<close>

declare recoverPending.simps [code]

datatype bus_event = Publishes Envelope | Starts string | Turns string | Works string nat | Dies string

text \<open>Runs as lists of events, to compute with; an event that is not possible does nothing.\<close>
fun bus_happen :: "messaging_config \<Rightarrow> (string \<Rightarrow> 'w RedisBus) \<Rightarrow> string \<Rightarrow> bus_event \<Rightarrow> 'w bus_sys \<Rightarrow> 'w bus_sys" where
  "bus_happen c bus et (Publishes env) s = (if ev_Type env = et then s\<lparr>bz_state := snd (redis_Publish env (bz_state s))\<rparr> else s)"
| "bus_happen c bus et (Starts n) s = (if bz_up s n then s else (case consume_start (bus n) et (bz_state s) of
     Some (up, st) \<Rightarrow> s\<lparr>bz_state := st, bz_up := (bz_up s)(n := up)\<rparr> | None \<Rightarrow> s))"
| "bus_happen c bus et (Turns n) s = (if bz_up s n then s\<lparr>bz_state := consume_turn (bus n) et (bz_state s)\<rparr> else s)"
| "bus_happen c bus et (Works n i) s = (if bz_up s n \<and> i < length (bs_queue (bz_state s) n) then
     (let m = bs_queue (bz_state s) n ! i in case processMessage c (bus n) et m (unqueue n i (bz_state s)) of (errs, st) \<Rightarrow>
       s\<lparr>bz_state := st, bz_done := (xm_ID m, errs) # bz_done s\<rparr>) else s)"
| "bus_happen c bus et (Dies n) s = (if bz_up s n then
     s\<lparr>bz_state := (bz_state s)\<lparr>bs_queue := (bs_queue (bz_state s))(n := [])\<rparr>, bz_up := (bz_up s)(n := False)\<rparr> else s)"

lemma bus_happen_steps: "(bus_step c bus et)\<^sup>*\<^sup>* s (bus_happen c bus et ev s)"
proof (cases ev)
  case (Publishes env)
  then show ?thesis by (auto intro!: r_into_rtranclp bus_step.published prod.collapse [symmetric])
next
  case (Starts n)
  then show ?thesis using bus_step.started [of s n bus et _ _ c] by (auto split: option.splits intro!: r_into_rtranclp)
next
  case (Turns n)
  then show ?thesis by (auto intro!: r_into_rtranclp bus_step.turned)
next
  case (Works n i)
  then show ?thesis by (auto simp: Let_def split: prod.splits intro!: r_into_rtranclp bus_step.worked)
next
  case (Dies n)
  then show ?thesis by (auto intro!: r_into_rtranclp bus_step.died)
qed

lemma bus_happens: "(bus_step c bus et)\<^sup>*\<^sup>* s (fold (bus_happen c bus et) evs s)"
  by (induction evs arbitrary: s) (auto intro: rtranclp_trans bus_happen_steps)

definition demo_event :: "string \<Rightarrow> Envelope" where
  "demo_event p = \<lparr>ev_Type = ''match.finished'', ev_OccurredAt = 0, ev_Payload = p\<rparr>"

text \<open>One handler that counts, and one that always fails.\<close>
definition demo_handlers :: "nat handler list" where
  "demo_handlers = [\<lambda>env w. (None, w + 1), \<lambda>env w. (Some (OtherError ''down''), w)]"

definition demo_bus :: "string \<Rightarrow> nat RedisBus" where
  "demo_bus n = \<lparr>rb_consumerName = n, rb_handlers = (\<lambda>_. demo_handlers), rb_dlqFallback = True\<rparr>"

text \<open>Redis fails at the command that writes the dead letter.\<close>
definition demo_state :: "nat bus_state" where
  "demo_state = \<lparr>bs_now = 0, bs_redis = \<lparr>rd_stream = (\<lambda>_. []), rd_seq = 0, rd_group = (\<lambda>_. None), rd_pel = (\<lambda>_. []), rd_list = (\<lambda>_. []),
     rd_faults = [False, False, False, False, False, True]\<rparr>,
     bs_event_dlq = [], bs_pg_faults = [], bs_stops = [], bs_queue = (\<lambda>_. []), bs_world = 0\<rparr>"

text \<open>Two events are published, the consumer reads both, one is processed, and the process dies.\<close>
definition demo_run :: "bus_event list" where
  "demo_run = [Publishes (demo_event ''1''), Publishes (demo_event ''2''), Starts ''w-1'', Turns ''w-1'', Works ''w-1'' 0, Dies ''w-1'']"

definition demo_end :: "nat bus_sys" where
  "demo_end = fold (bus_happen default_config demo_bus ''match.finished'') demo_run (bus_init demo_state)"

lemma demo_reachable: "(bus_step default_config demo_bus ''match.finished'')\<^sup>*\<^sup>* (bus_init demo_state) demo_end"
  unfolding demo_end_def by (rule bus_happens)

lemma demo_fresh: "fresh_bus demo_state"
  by (simp add: fresh_bus_def demo_state_def)

lemma demo_wired: "rb_dlqFallback (demo_bus n)" "rb_handlers (demo_bus n) et = demo_handlers" "rb_consumerName (demo_bus n) = n"
  by (simp_all add: demo_bus_def)


theorem restarted_consumer_finishes_witness:
  "bz_done demo_end = [(1, [None, Some (OtherError ''down'')])] \<and> map fst (rd_pel (bs_redis (bz_state demo_end)) (streamKey ''match.finished'')) = [2]
   \<and> (\<exists>s'. (bus_step default_config demo_bus ''match.finished'')\<^sup>*\<^sup>* demo_end s' \<and> 2 \<in> fst ` set (bz_done s'))"
proof -
  have dn: "bz_done demo_end = [(1, [None, Some (OtherError ''down'')])]" by code_simp
  have pel: "rd_pel (bs_redis (bz_state demo_end)) (streamKey ''match.finished'') = [(2, ''w-1'')]" by code_simp
  have ids: "map xm_ID (rd_stream (bs_redis (bz_state demo_end)) (streamKey ''match.finished'')) = [1, 2]" by code_simp
  have down: "\<not> bz_up demo_end ''w-1''" by code_simp
  have faults: "rd_faults (bs_redis (bz_state demo_end)) = []" by code_simp
  obtain s' where s': "(bus_step default_config demo_bus ''match.finished'')\<^sup>*\<^sup>* demo_end s'"
    and all: "\<And>m. m \<in> set (rd_stream (bs_redis (bz_state demo_end)) (streamKey ''match.finished'')) \<Longrightarrow>
      xm_ID m \<in> fst ` set (bz_done s') \<or> (\<exists>n'. n' \<noteq> ''w-1'' \<and> (xm_ID m, n') \<in> set (rd_pel (bs_redis (bz_state demo_end)) (streamKey ''match.finished'')))"
    using restarted_consumer_finishes [OF demo_reachable demo_fresh demo_wired(1,2,3) down faults] by blast
  have "2 \<in> set (map xm_ID (rd_stream (bs_redis (bz_state demo_end)) (streamKey ''match.finished'')))" unfolding ids by simp
  then obtain m where "m \<in> set (rd_stream (bs_redis (bz_state demo_end)) (streamKey ''match.finished''))" "xm_ID m = 2" by auto
  then have "2 \<in> fst ` set (bz_done s')" using all [of m] pel by auto
  then show ?thesis using dn pel s' by auto
qed

text \<open>The entry that a process had read before it died.\<close>
lemma demo_stranded: "stranded ''match.finished'' ''w-1'' 2 demo_end"
proof -
  have pel: "rd_pel (bs_redis (bz_state demo_end)) (streamKey ''match.finished'') = [(2, ''w-1'')]" by code_simp
  have grp: "rd_group (bs_redis (bz_state demo_end)) (streamKey ''match.finished'') = Some 2" by code_simp
  have up: "\<not> bz_up demo_end ''w-1''" by code_simp
  have dn: "bz_done demo_end = [(1, [None, Some (OtherError ''down'')])]" by code_simp
  have q: "bs_queue (bz_state demo_end) n' = []" for n'
    by (code_simp, simp)
  show ?thesis unfolding stranded_def pel grp dn q using up by simp
qed

end
