(* ===== verification/Spec2Isabelle.thy ===== *)
theory Spec2Isabelle
  imports Prelude GoRegexp Domain Tx Database Scoring GoSort Ranking Standings Matching Fixtures Bracket Ledger Membership Fees Withdrawals Intents Predictions Kyc Prizes Outbox Params Breaker Transfers Money MatchSync Tiebreakers Quinielas Responses Idempotency Bus
begin

text \<open>
  A model of the World Cup prediction platform (a Go backend over PostgreSQL): users predict
  matches, join groups (\<^emph>\<open>quinielas\<close>) with an entry fee, are ranked when results arrive, and
  receive prizes; money moves through a balance ledger fed by payment providers and drained by
  withdrawals, under identity-verification limits.

  \<^bold>\<open>How the code is modelled.\<close> A repository or service method is a \<^emph>\<open>database program\<close>: a function from a
  fault script and the state of the tables to a result, the rest of the script and the next
  state. Every SQL statement consumes one entry of the script, so a theorem over all scripts covers
  every point at which the database or the context can fail; transactions restore the initial state on
  error (\<^verbatim>\<open>repository/tx.go\<close>, \<^verbatim>\<open>retry.go\<close>). Statements carry the constraints of the migrations (keys, foreign keys,
  checks, 32-bit columns) as errors. Results are \<open>app_error + 'a\<close>, with the constructors of
  \<^verbatim>\<open>pkg/apperrors\<close>. Go integers are unbounded integers with the wrap-around written out (\<open>go64\<close>) where the code
  computes with them; map iteration order is a parameter \<open>order\<close> over which the theorems quantify.
  A sequence of requests is \<open>run_all\<close>: each operation with its own script, in any interleaving of
  whole operations; every operation that matters for a theorem is one transaction or one statement.

  \<^bold>\<open>Theories.\<close>
  \<^item> \<open>Prelude\<close>: error values, Go arithmetic, \<^verbatim>\<open>strconv\<close>, list lemmas, the named collections.
  \<^item> \<open>GoRegexp\<close>, \<open>GoSort\<close>: the regular expressions (by derivatives) and sorts the code uses.
  \<^item> \<open>Domain\<close> (\<^verbatim>\<open>internal/domain\<close>): constants, entities, validators; their exact acceptance conditions.
  \<^item> \<open>Tx\<close>: programs, transactions, retries, Hoare triples, the locale \<open>atomic_op\<close>.
  \<^item> \<open>Database\<close>: the rows of the tables, parameters with defaults.
  \<^item> \<open>Scoring\<close> (\<^verbatim>\<open>scoring_service.go\<close>, \<^verbatim>\<open>extra_scoring_service.go\<close> and their repositories): points of predictions
    and extras, the batch write, the score log.
  \<^item> \<open>Ranking\<close> (\<^verbatim>\<open>ranking_service.go\<close>): leaderboards, tie-breaks, ranks, prize flags.
  \<^item> \<open>Standings\<close>, \<open>Matching\<close>, \<open>Fixtures\<close>, \<open>Bracket\<close> (\<^verbatim>\<open>tournament_service.go\<close>, \<^verbatim>\<open>match_service.go\<close>, \<^verbatim>\<open>cmd/worker/handlers.go\<close>): group
    tables, the bipartite matching of third-placed teams to slots, the life cycle of a match, the
    knockout bracket and the handler of a finished match.
  \<^item> \<open>Predictions\<close> (\<^verbatim>\<open>prediction_service.go\<close>, \<^verbatim>\<open>extra_prediction_service.go\<close>): submission and revision before the deadline.
  \<^item> \<open>Ledger\<close>, \<open>Fees\<close>, \<open>Withdrawals\<close>, \<open>Intents\<close>, \<open>Transfers\<close>, \<open>Prizes\<close>: the balance ledger with the
    locale \<open>money_op\<close> every money operation interprets, entry fees, withdrawals behind the limits of \<^verbatim>\<open>kyc_gate.go\<close>, payment intents with
    their webhooks, bank transfers, and the distribution of prizes.
  \<^item> \<open>Money\<close>: all of them together refine an abstract bank that refuses overdrafts.
  \<^item> \<open>Membership\<close> (\<^verbatim>\<open>group_membership_service.go\<close> and repository): joining, approval, leaving, removal.
  \<^item> \<open>Quinielas\<close> (\<^verbatim>\<open>quiniela_service.go\<close>, \<^verbatim>\<open>admin_group_service.go\<close> and repository, \<^verbatim>\<open>pkg/randcode\<close>): creation, renaming, paid modes, deletion; the
    locale \<open>group_condition\<close> carries an invariant of the groups over the operations on memberships.
  \<^item> \<open>Tiebreakers\<close> (\<^verbatim>\<open>tiebreaker_service.go\<close> and repositories): questions, answers, results and their effect on the ranking.
  \<^item> \<open>Kyc\<close> (\<^verbatim>\<open>kyc_service.go\<close> and repositories): submission, review, documents, freezes.
  \<^item> \<open>Outbox\<close> (\<^verbatim>\<open>internal/notification/outbox\<close>): writes with deduplication, the worker with back-off and recovery, dead letters.
  \<^item> \<open>Params\<close> (\<^verbatim>\<open>system_param_service.go\<close> and repositories): parameters of several replicas with caches, ranges and history.
  \<^item> \<open>MatchSync\<close> (\<^verbatim>\<open>match_sync_service.go\<close>, \<^verbatim>\<open>pkg/footballprovider\<close>): polling and daily synchronisation with a provider.
  \<^item> \<open>Breaker\<close> (\<^verbatim>\<open>pkg/breaker\<close>): the circuit breaker as interleaved atomic steps, refining its history of outcomes.
  \<^item> \<open>Responses\<close> (\<^verbatim>\<open>internal/middleware\<close>): handlers as their calls on a response writer, the error envelope, headers, recovery from a panic.
  \<^item> \<open>Idempotency\<close> (\<^verbatim>\<open>pkg/idempotency\<close>, \<^verbatim>\<open>middleware/idempotency.go\<close>): one execution per key over the locale \<open>idem_store\<close>, which the store in memory
    interprets, with requests interleaved action by action; recorded responses and their replay.
  \<^item> \<open>Bus\<close> (\<^verbatim>\<open>internal/infrastructure/messaging\<close>): retries, Redis streams with pending entries, dead letters and their fallback; no event is lost, a
    restarted consumer finishes its work, and what a consumer of another name leaves behind stays.

  \<^bold>\<open>Bounds.\<close> The number of attempts of a retried transaction is a parameter \<open>n\<close>; theorems that need a run assume \<open>0 < n\<close>. A fault script is
  a finite list, after which no statement fails; the theorems quantify over all scripts, so every number of failures is
  covered. Loops are recursions over finite lists, the matching, the scheduler rounds and the retries have termination measures, and the recovery of
  pending entries, a partial function, is proved to return; no definition uses fuel. Money columns are 32 bits wide, Go integers 64 bits.

  \<^bold>\<open>Not modelled.\<close> HTTP handlers and the rest of the middleware (decoding, authentication against an external provider, rate limits), the wiring of the processes, the rendering and delivery of notifications, caches, file storage, clients of external services, metrics,
  logs and traces, listings for the interface, the audit log (append-only, never read by an operation modelled here), and the TypeScript frontend. Two requests on the database interleave here only between whole operations;
  where the code spans several transactions, the theorems name the operations whose composition they cover, and lemmas such as \<open>charged_without_premium\<close>
  and \<open>stale_live_score_reopens_match\<close> show what an unlucky failure or interleaving does.
\<close>

end
